(* ===== verification/Py_Prelude.thy ===== *)
theory Py_Prelude
  imports Main "HOL-Library.Word"
begin

text \<open>
  Python's text and bytes, shared by every component.

  A Python string is a list of code points (\<open>pystr\<close>), so surrogates, which Python strings may
  hold and UTF-8 may not, are values like any other. Bytes are 8-bit words. The string methods
  here are those the source calls: \<open>str.lower\<close>, \<open>str.strip\<close>, \<open>str.startswith\<close>,
  \<open>str.encode("utf-8")\<close>, \<open>str.split\<close>, \<open>str(int)\<close>.
\<close>

section \<open>Text\<close>

type_synonym pystr = "nat list"
type_synonym byte = "8 word"
type_synonym bytes = "byte list"

text \<open>A literal of the source, written as an Isabelle string.\<close>

definition lit :: "string \<Rightarrow> pystr" where
  "lit s = map of_char s"

definition cp :: "char \<Rightarrow> nat" where
  "cp c = of_char c"

lemma lit_Nil [simp]: "lit [] = []"
  by (simp add: lit_def)

lemma lit_Cons: "lit (c # s) = cp c # lit s"
  by (simp add: lit_def cp_def)

lemma length_lit [simp]: "length (lit s) = length s"
  by (simp add: lit_def)

lemma lit_inject [simp]: "lit s = lit t \<longleftrightarrow> s = t"
  by (auto simp: lit_def inj_map_eq_map [OF inj_of_char] inj_def)

lemma lit_eq_Nil [simp]: "lit s = [] \<longleftrightarrow> s = []"
  by (simp add: lit_def)

text \<open>
  The lower case of one code point: the ASCII and Latin-1 blocks, and the five other code
  points whose lower case holds a Latin-1 code point (U+0130, U+0178, U+1E9E, U+212A, U+212B).
  Any other code point maps to itself. Unicode gives some of them another lower case outside
  Latin-1; every caller compares the result with Latin-1 text only (a reserved prefix, a file
  suffix, a host of a Latin-1 header, \<open>true\<close> and \<open>false\<close>).
\<close>

definition lower_cp :: "nat \<Rightarrow> pystr" where
  "lower_cp c =
     (if 65 \<le> c \<and> c \<le> 90 \<or> 192 \<le> c \<and> c \<le> 222 \<and> c \<noteq> 215 then [c + 32]
      else if c = 304 then [105, 775]
      else if c = 376 then [255]
      else if c = 7838 then [223]
      else if c = 8490 then [107]
      else if c = 8491 then [229]
      else [c])"

definition lower :: "pystr \<Rightarrow> pystr" where
  "lower s = concat (map lower_cp s)"

lemma lower_Nil [simp]: "lower [] = []"
  by (simp add: lower_def)

lemma lower_Cons: "lower (c # s) = lower_cp c @ lower s"
  by (simp add: lower_def)

lemma lower_append: "lower (s @ t) = lower s @ lower t"
  by (simp add: lower_def)

lemma lower_lower_cp: "lower (lower_cp c) = lower_cp c"
  by (auto simp: lower_def lower_cp_def)

lemma lower_idem [simp]: "lower (lower s) = lower s"
  by (induction s) (simp_all add: lower_append lower_Cons lower_lower_cp)

lemma lower_cp_nonempty [simp]: "lower_cp c \<noteq> []"
  by (simp add: lower_cp_def)

lemma lower_eq_Nil [simp]: "lower s = [] \<longleftrightarrow> s = []"
  by (cases s) (simp_all add: lower_Cons)

text \<open>\<open>str.isspace\<close> of one code point, and \<open>str.strip()\<close>.\<close>

definition is_space :: "nat \<Rightarrow> bool" where
  "is_space c \<longleftrightarrow> 9 \<le> c \<and> c \<le> 13 \<or> 28 \<le> c \<and> c \<le> 32 \<or> c = 133 \<or> c = 160 \<or> c = 5760 \<or>
     8192 \<le> c \<and> c \<le> 8202 \<or> c = 8232 \<or> c = 8233 \<or> c = 8239 \<or> c = 8287 \<or> c = 12288"

definition strip :: "pystr \<Rightarrow> pystr" where
  "strip s = rev (dropWhile is_space (rev (dropWhile is_space s)))"

fun startswith :: "pystr \<Rightarrow> pystr \<Rightarrow> bool" where
  "startswith s [] = True"
| "startswith [] (p # ps) = False"
| "startswith (c # s) (p # ps) = (c = p \<and> startswith s ps)"

lemma startswith_iff: "startswith s p \<longleftrightarrow> (\<exists>t. s = p @ t)"
  by (induction s p rule: startswith.induct) auto

lemma startswith_append [simp]: "startswith (p @ t) p"
  by (simp add: startswith_iff)

text \<open>\<open>str.split(sep)\<close> for a one-character separator: at least one part, possibly empty.\<close>

fun split_on :: "nat \<Rightarrow> pystr \<Rightarrow> pystr list" where
  "split_on sep [] = [[]]"
| "split_on sep (c # s) =
     (if c = sep then [] # split_on sep s
      else (case split_on sep s of [] \<Rightarrow> [[c]] | w # ws \<Rightarrow> (c # w) # ws))"

lemma split_on_nonempty [simp]: "split_on sep s \<noteq> []"
  by (cases s) (auto split: list.splits)

text \<open>Evaluation of closed text by the simplifier.\<close>

named_theorems text_eval \<open>equations that evaluate closed text\<close>

declare lit_Cons [text_eval] cp_def [text_eval] lower_Cons [text_eval] lower_cp_def [text_eval]
  strip_def [text_eval] is_space_def [text_eval]

section \<open>UTF-8\<close>

definition is_surrogate :: "nat \<Rightarrow> bool" where
  "is_surrogate c \<longleftrightarrow> 55296 \<le> c \<and> c \<le> 57343"

text \<open>The UTF-8 bytes of a code point; a surrogate has none (UnicodeEncodeError).\<close>

definition utf8_cp :: "nat \<Rightarrow> bytes option" where
  "utf8_cp c =
     (if c < 128 then Some [of_nat c]
      else if c < 2048 then Some [of_nat (192 + c div 64), of_nat (128 + c mod 64)]
      else if is_surrogate c then None
      else if c < 65536 then
        Some [of_nat (224 + c div 4096), of_nat (128 + c div 64 mod 64), of_nat (128 + c mod 64)]
      else Some [of_nat (240 + c div 262144), of_nat (128 + c div 4096 mod 64),
                 of_nat (128 + c div 64 mod 64), of_nat (128 + c mod 64)])"

fun utf8 :: "pystr \<Rightarrow> bytes option" where
  "utf8 [] = Some []"
| "utf8 (c # s) =
     (case utf8_cp c of None \<Rightarrow> None
      | Some b \<Rightarrow> (case utf8 s of None \<Rightarrow> None | Some bs \<Rightarrow> Some (b @ bs)))"

lemma utf8_cp_None_iff [simp]: "utf8_cp c = None \<longleftrightarrow> is_surrogate c"
  by (auto simp: utf8_cp_def is_surrogate_def)

lemma utf8_None_iff: "utf8 s = None \<longleftrightarrow> list_ex is_surrogate s"
proof (induction s)
  case (Cons c s)
  then show ?case
    by (cases "utf8_cp c") (auto split: option.splits simp flip: utf8_cp_None_iff)
qed simp

lemma utf8_cp_length: "utf8_cp c = Some b \<Longrightarrow> 1 \<le> length b \<and> length b \<le> 4"
  by (auto simp: utf8_cp_def split: if_splits)

lemma utf8_length_le: "utf8 s = Some b \<Longrightarrow> length s \<le> length b"
proof (induction s arbitrary: b)
  case (Cons c s)
  from Cons.prems obtain x y where "utf8_cp c = Some x" "utf8 s = Some y" "b = x @ y"
    by (auto split: option.splits)
  with Cons.IH [of y] utf8_cp_length [of c x] show ?case by simp
qed simp

section \<open>Decimal text\<close>

fun show_nat :: "nat \<Rightarrow> pystr" where
  "show_nat n = (if n < 10 then [48 + n] else show_nat (n div 10) @ [48 + n mod 10])"

declare show_nat.simps [simp del]

definition is_digit :: "nat \<Rightarrow> bool" where
  "is_digit c \<longleftrightarrow> 48 \<le> c \<and> c \<le> 57"

text \<open>\<open>int(text)\<close> of ASCII digits.\<close>

definition nat_of_digits :: "pystr \<Rightarrow> nat" where
  "nat_of_digits s = foldl (\<lambda>n c. 10 * n + (c - 48)) 0 s"

lemma nat_of_digits_append [simp]:
  "nat_of_digits (s @ [c]) = 10 * nat_of_digits s + (c - 48)"
  by (simp add: nat_of_digits_def)

lemma nat_of_digits_show_nat [simp]: "nat_of_digits (show_nat n) = n"
proof (induction n rule: show_nat.induct)
  case (1 n)
  show ?case
  proof (cases "n < 10")
    case True
    then show ?thesis by (simp add: show_nat.simps [of n] nat_of_digits_def)
  next
    case False
    then show ?thesis using 1 by (simp add: show_nat.simps [of n])
  qed
qed

lemma show_nat_inject [simp]: "show_nat m = show_nat n \<longleftrightarrow> m = n"
  by (metis nat_of_digits_show_nat)

section \<open>Hexadecimal text\<close>

definition is_hex :: "nat \<Rightarrow> bool" where
  "is_hex c \<longleftrightarrow> is_digit c \<or> 97 \<le> c \<and> c \<le> 102 \<or> 65 \<le> c \<and> c \<le> 70"

definition hex_digit :: "nat \<Rightarrow> nat" where
  "hex_digit d = (if d < 10 then 48 + d else 87 + d)"

text \<open>The last \<open>k\<close> hexadecimal digits of a number, as \<open>format(n, "0kx")\<close> writes them.\<close>

primrec hex_fixed :: "nat \<Rightarrow> nat \<Rightarrow> pystr" where
  "hex_fixed 0 n = []"
| "hex_fixed (Suc k) n = hex_fixed k (n div 16) @ [hex_digit (n mod 16)]"

lemma length_hex_fixed [simp]: "length (hex_fixed k n) = k"
  by (induction k arbitrary: n) simp_all

lemma hex_digit_plain:
  assumes "d < 16"
  shows "is_hex (hex_digit d) \<and> lower_cp (hex_digit d) = [hex_digit d] \<and> hex_digit d \<noteq> 45"
  using assms by (auto simp: hex_digit_def is_hex_def is_digit_def lower_cp_def)

lemma hex_fixed_plain:
  "list_all is_hex (hex_fixed k n) \<and> lower (hex_fixed k n) = hex_fixed k n \<and> 45 \<notin> set (hex_fixed k n)"
proof (induction k arbitrary: n)
  case (Suc k)
  from Suc [of "n div 16"] hex_digit_plain [of "n mod 16"] show ?case
    by (simp add: lower_append lower_Cons)
qed simp

section \<open>The calendar\<close>

definition leap_year :: "nat \<Rightarrow> bool" where
  "leap_year y \<longleftrightarrow> 4 dvd y \<and> (\<not> 100 dvd y \<or> 400 dvd y)"

definition days_in_month :: "nat \<Rightarrow> nat \<Rightarrow> nat" where
  "days_in_month y m = (if m = 2 then (if leap_year y then 29 else 28) else if m \<in> {4, 6, 9, 11} then 30 else 31)"

end
