(* ===== verification/Errors.thy ===== *)
theory Errors
  imports Py_Prelude
begin

text \<open>
  The error codes of \<^verbatim>\<open>databridge/errors.py\<close>, the HTTP status of each, and the exceptions the
  service raises. An exception that no handler of the source tells apart carries only the name of
  its class.
\<close>

section \<open>Error codes\<close>

datatype error_code =
    INVALID_REQUEST
  | INVALID_HOST_HEADER
  | CROSS_ORIGIN_REJECTED
  | INVALID_CONNECTION_SETTINGS
  | INVALID_FILENAME
  | SAME_FILE
  | UNSUPPORTED_PREVIEW_FORMAT
  | MALFORMED_FILE
  | PREVIEW_LIMIT_EXCEEDED
  | CONNECTION_NOT_FOUND
  | FILE_NOT_FOUND
  | TRANSFER_NOT_FOUND
  | ROUTE_NOT_FOUND
  | METHOD_NOT_ALLOWED
  | CONNECTION_EXISTS
  | DESTINATION_EXISTS
  | DESTINATION_NOT_WRITABLE
  | FILE_NOT_READABLE
  | PUBLISH_UNSUPPORTED
  | DESTINATION_FULL
  | SFTP_AUTH_FAILED
  | SFTP_HOST_KEY_REJECTED
  | SFTP_OPERATION_FAILED
  | SFTP_UNAVAILABLE
  | CONNECTION_ROOT_UNAVAILABLE
  | LOCAL_IO_ERROR
  | SOURCE_READ_FAILED
  | SOURCE_CHANGED
  | DESTINATION_WRITE_FAILED
  | TRANSFER_CAPACITY_EXCEEDED
  | TRANSFER_INTERNAL_ERROR
  | TRANSFER_STATE_CONFLICT
  | TRANSFER_RECORD_FAILED
  | TRANSFER_INTERRUPTED
  | INTERNAL_ERROR

text \<open>The value of the enumeration member, which is what a response and a record carry.\<close>

primrec code_value :: "error_code \<Rightarrow> pystr" where
  "code_value INVALID_REQUEST = lit ''INVALID_REQUEST''"
| "code_value INVALID_HOST_HEADER = lit ''INVALID_HOST_HEADER''"
| "code_value CROSS_ORIGIN_REJECTED = lit ''CROSS_ORIGIN_REJECTED''"
| "code_value INVALID_CONNECTION_SETTINGS = lit ''INVALID_CONNECTION_SETTINGS''"
| "code_value INVALID_FILENAME = lit ''INVALID_FILENAME''"
| "code_value SAME_FILE = lit ''SAME_FILE''"
| "code_value UNSUPPORTED_PREVIEW_FORMAT = lit ''UNSUPPORTED_PREVIEW_FORMAT''"
| "code_value MALFORMED_FILE = lit ''MALFORMED_FILE''"
| "code_value PREVIEW_LIMIT_EXCEEDED = lit ''PREVIEW_LIMIT_EXCEEDED''"
| "code_value CONNECTION_NOT_FOUND = lit ''CONNECTION_NOT_FOUND''"
| "code_value FILE_NOT_FOUND = lit ''FILE_NOT_FOUND''"
| "code_value TRANSFER_NOT_FOUND = lit ''TRANSFER_NOT_FOUND''"
| "code_value ROUTE_NOT_FOUND = lit ''ROUTE_NOT_FOUND''"
| "code_value METHOD_NOT_ALLOWED = lit ''METHOD_NOT_ALLOWED''"
| "code_value CONNECTION_EXISTS = lit ''CONNECTION_EXISTS''"
| "code_value DESTINATION_EXISTS = lit ''DESTINATION_EXISTS''"
| "code_value DESTINATION_NOT_WRITABLE = lit ''DESTINATION_NOT_WRITABLE''"
| "code_value FILE_NOT_READABLE = lit ''FILE_NOT_READABLE''"
| "code_value PUBLISH_UNSUPPORTED = lit ''PUBLISH_UNSUPPORTED''"
| "code_value DESTINATION_FULL = lit ''DESTINATION_FULL''"
| "code_value SFTP_AUTH_FAILED = lit ''SFTP_AUTH_FAILED''"
| "code_value SFTP_HOST_KEY_REJECTED = lit ''SFTP_HOST_KEY_REJECTED''"
| "code_value SFTP_OPERATION_FAILED = lit ''SFTP_OPERATION_FAILED''"
| "code_value SFTP_UNAVAILABLE = lit ''SFTP_UNAVAILABLE''"
| "code_value CONNECTION_ROOT_UNAVAILABLE = lit ''CONNECTION_ROOT_UNAVAILABLE''"
| "code_value LOCAL_IO_ERROR = lit ''LOCAL_IO_ERROR''"
| "code_value SOURCE_READ_FAILED = lit ''SOURCE_READ_FAILED''"
| "code_value SOURCE_CHANGED = lit ''SOURCE_CHANGED''"
| "code_value DESTINATION_WRITE_FAILED = lit ''DESTINATION_WRITE_FAILED''"
| "code_value TRANSFER_CAPACITY_EXCEEDED = lit ''TRANSFER_CAPACITY_EXCEEDED''"
| "code_value TRANSFER_INTERNAL_ERROR = lit ''TRANSFER_INTERNAL_ERROR''"
| "code_value TRANSFER_STATE_CONFLICT = lit ''TRANSFER_STATE_CONFLICT''"
| "code_value TRANSFER_RECORD_FAILED = lit ''TRANSFER_RECORD_FAILED''"
| "code_value TRANSFER_INTERRUPTED = lit ''TRANSFER_INTERRUPTED''"
| "code_value INTERNAL_ERROR = lit ''INTERNAL_ERROR''"

primrec http_status :: "error_code \<Rightarrow> nat" where
  "http_status INVALID_REQUEST = 422"
| "http_status INVALID_HOST_HEADER = 400"
| "http_status CROSS_ORIGIN_REJECTED = 403"
| "http_status INVALID_CONNECTION_SETTINGS = 400"
| "http_status INVALID_FILENAME = 400"
| "http_status SAME_FILE = 400"
| "http_status UNSUPPORTED_PREVIEW_FORMAT = 400"
| "http_status MALFORMED_FILE = 400"
| "http_status PREVIEW_LIMIT_EXCEEDED = 400"
| "http_status CONNECTION_NOT_FOUND = 404"
| "http_status FILE_NOT_FOUND = 404"
| "http_status TRANSFER_NOT_FOUND = 404"
| "http_status ROUTE_NOT_FOUND = 404"
| "http_status METHOD_NOT_ALLOWED = 405"
| "http_status CONNECTION_EXISTS = 409"
| "http_status DESTINATION_EXISTS = 409"
| "http_status DESTINATION_NOT_WRITABLE = 409"
| "http_status FILE_NOT_READABLE = 409"
| "http_status PUBLISH_UNSUPPORTED = 409"
| "http_status DESTINATION_FULL = 507"
| "http_status SFTP_AUTH_FAILED = 502"
| "http_status SFTP_HOST_KEY_REJECTED = 502"
| "http_status SFTP_OPERATION_FAILED = 502"
| "http_status SFTP_UNAVAILABLE = 503"
| "http_status CONNECTION_ROOT_UNAVAILABLE = 503"
| "http_status LOCAL_IO_ERROR = 500"
| "http_status SOURCE_READ_FAILED = 500"
| "http_status SOURCE_CHANGED = 409"
| "http_status DESTINATION_WRITE_FAILED = 500"
| "http_status TRANSFER_CAPACITY_EXCEEDED = 503"
| "http_status TRANSFER_INTERNAL_ERROR = 500"
| "http_status TRANSFER_STATE_CONFLICT = 500"
| "http_status TRANSFER_RECORD_FAILED = 500"
| "http_status TRANSFER_INTERRUPTED = 500"
| "http_status INTERNAL_ERROR = 500"

definition all_error_codes :: "error_code list" where
  "all_error_codes =
    [INVALID_REQUEST, INVALID_HOST_HEADER, CROSS_ORIGIN_REJECTED,
     INVALID_CONNECTION_SETTINGS, INVALID_FILENAME, SAME_FILE,
     UNSUPPORTED_PREVIEW_FORMAT, MALFORMED_FILE, PREVIEW_LIMIT_EXCEEDED,
     CONNECTION_NOT_FOUND, FILE_NOT_FOUND, TRANSFER_NOT_FOUND,
     ROUTE_NOT_FOUND, METHOD_NOT_ALLOWED, CONNECTION_EXISTS,
     DESTINATION_EXISTS, DESTINATION_NOT_WRITABLE, FILE_NOT_READABLE,
     PUBLISH_UNSUPPORTED, DESTINATION_FULL, SFTP_AUTH_FAILED,
     SFTP_HOST_KEY_REJECTED, SFTP_OPERATION_FAILED, SFTP_UNAVAILABLE,
     CONNECTION_ROOT_UNAVAILABLE, LOCAL_IO_ERROR, SOURCE_READ_FAILED,
     SOURCE_CHANGED, DESTINATION_WRITE_FAILED, TRANSFER_CAPACITY_EXCEEDED,
     TRANSFER_INTERNAL_ERROR, TRANSFER_STATE_CONFLICT, TRANSFER_RECORD_FAILED,
     TRANSFER_INTERRUPTED, INTERNAL_ERROR]"

lemma all_error_codes_complete [simp]: "c \<in> set all_error_codes"
  by (cases c) (simp_all add: all_error_codes_def)

lemma code_value_inj: "inj code_value"
proof -
  have "distinct (map code_value all_error_codes)"
    by (simp add: all_error_codes_def)
  moreover have "set all_error_codes = UNIV" by auto
  ultimately show ?thesis by (simp add: distinct_map)
qed

lemma code_value_inject [simp]: "code_value c = code_value d \<longleftrightarrow> c = d"
  using code_value_inj by (auto dest: injD)

lemma http_status_error: "400 \<le> http_status c \<and> http_status c < 600"
  by (cases c) simp_all

section \<open>Exceptions\<close>

text \<open>The operating-system error numbers the source tells apart; \<open>EOTHER\<close> is any other.\<close>

datatype errno =
    EACCES | EPERM | EROFS | ENOSPC | EDQUOT | ENOENT | ENOTDIR | ENOTSUP | EOPNOTSUPP | EXDEV
  | EMLINK | ELOOP | EEXIST | EISDIR | EIO | EBADF | EOTHER nat

text \<open>
  \<open>DataBridgeError\<close> carries the code, the message and the transfer it is about;
  \<open>StartupError\<close> its one-line message; \<open>OSError\<close> its \<open>errno\<close>; a \<open>sqlite3.Error\<close> the name of its
  class and its \<open>sqlite_errorname\<close>, which the errors of the driver itself do not have;
  \<open>SftpStatus\<close> is the private \<open>_Status\<close> of the SFTP connector with its code, which never leaves it;
  \<open>PyError\<close> is any other exception, by the name of its class.
\<close>

datatype exn =
    DataBridgeError (err_code: error_code) (err_message: pystr) (err_transfer: "pystr option")
  | StartupError (startup_message: pystr)
  | OSError errno
  | SqliteError string "pystr option"
  | SftpStatus nat
  | PyError string

definition db_error :: "error_code \<Rightarrow> pystr \<Rightarrow> exn" where
  "db_error code message = DataBridgeError code message None"

text \<open>\<open>isinstance(exc, DataBridgeError)\<close>, and an error of one code.\<close>

fun is_db_error :: "exn \<Rightarrow> bool" where
  "is_db_error (DataBridgeError _ _ _) = True"
| "is_db_error _ = False"

fun has_code :: "error_code \<Rightarrow> exn \<Rightarrow> bool" where
  "has_code c (DataBridgeError d _ _) = (c = d)"
| "has_code c _ = False"

lemma has_code_is_db_error: "has_code c e \<Longrightarrow> is_db_error e"
  by (cases e) simp_all

lemma is_db_error_db_error [simp]: "is_db_error (db_error c m)"
  by (simp add: db_error_def)

lemma has_code_db_error [simp]: "has_code c (db_error d m) \<longleftrightarrow> c = d"
  by (simp add: db_error_def)

lemma err_code_db_error [simp]: "err_code (db_error c m) = c"
  by (simp add: db_error_def)

lemma db_error_inject [simp]: "db_error c m = db_error d n \<longleftrightarrow> c = d \<and> m = n"
  by (simp add: db_error_def)

lemma db_error_neq [simp]:
  "db_error c m \<noteq> OSError e" "OSError e \<noteq> db_error c m"
  "db_error c m \<noteq> PyError s" "PyError s \<noteq> db_error c m"
  by (simp_all add: db_error_def)

end
