(* ===== verification/Effects.thy ===== *)
theory Effects
  imports Errors
begin

text \<open>
  Statements with effects: a computation takes the state and returns a result, an exception or a
  value, with the new state. A raised exception keeps the state changes made before it, as in
  Python. The combinators are the statement forms of the source: sequence, \<open>try/except\<close>,
  \<open>try/finally\<close>, and the \<open>with\<close> statement over a context manager.
\<close>

section \<open>Computations\<close>

type_synonym 'a result = "exn + 'a"
type_synonym ('s, 'a) io = "'s \<Rightarrow> 'a result \<times> 's"

named_theorems io_simps \<open>evaluation of the statement combinators\<close>

definition ret :: "'a \<Rightarrow> ('s, 'a) io" where
  "ret x = (\<lambda>s. (Inr x, s))"

definition raise :: "exn \<Rightarrow> ('s, 'a) io" where
  "raise e = (\<lambda>s. (Inl e, s))"

definition bind :: "('s, 'a) io \<Rightarrow> ('a \<Rightarrow> ('s, 'b) io) \<Rightarrow> ('s, 'b) io" where
  "bind m f = (\<lambda>s. case m s of (Inl e, s') \<Rightarrow> (Inl e, s') | (Inr x, s') \<Rightarrow> f x s')"

definition get :: "('s \<Rightarrow> 'a) \<Rightarrow> ('s, 'a) io" where
  "get f = (\<lambda>s. (Inr (f s), s))"

definition modify :: "('s \<Rightarrow> 's) \<Rightarrow> ('s, unit) io" where
  "modify f = (\<lambda>s. (Inr (), f s))"

definition try_except :: "('s, 'a) io \<Rightarrow> (exn \<Rightarrow> ('s, 'a) io) \<Rightarrow> ('s, 'a) io" where
  "try_except m h = (\<lambda>s. case m s of (Inl e, s') \<Rightarrow> h e s' | (Inr x, s') \<Rightarrow> (Inr x, s'))"

text \<open>An exception of the \<open>finally\<close> block replaces the result of the body.\<close>

definition try_finally :: "('s, 'a) io \<Rightarrow> ('s, unit) io \<Rightarrow> ('s, 'a) io" where
  "try_finally m c =
     (\<lambda>s. case m s of (r, s') \<Rightarrow>
        (case c s' of (Inl e, s'') \<Rightarrow> (Inl e, s'') | (Inr _, s'') \<Rightarrow> (r, s'')))"

text \<open>\<open>raise ... from exc\<close> for the exceptions \<open>f\<close> translates; any other passes.\<close>

definition translate :: "(exn \<Rightarrow> exn) \<Rightarrow> ('s, 'a) io \<Rightarrow> ('s, 'a) io" where
  "translate f m = try_except m (\<lambda>e. raise (f e))"

definition only_if :: "bool \<Rightarrow> ('s, unit) io \<Rightarrow> ('s, unit) io" where
  "only_if b m = (if b then m else ret ())"

text \<open>A pure fallible function as a statement.\<close>

definition of_result :: "'a result \<Rightarrow> ('s, 'a) io" where
  "of_result r = (\<lambda>s. (r, s))"

text \<open>
  A method call runs on the object and the world together; \<open>on_world\<close> is a statement of the method
  that does not touch the object.
\<close>

definition on_world :: "('w, 'a) io \<Rightarrow> ('o \<times> 'w, 'a) io" where
  "on_world m = (\<lambda>(obj, w). case m w of (r, w') \<Rightarrow> (r, (obj, w')))"

definition self :: "('o \<times> 'w, 'o) io" where
  "self = (\<lambda>(obj, w). (Inr obj, (obj, w)))"

definition assign :: "('o \<Rightarrow> 'o) \<Rightarrow> ('o \<times> 'w, unit) io" where
  "assign f = (\<lambda>(obj, w). (Inr (), (f obj, w)))"

text \<open>
  \<open>with enter() as obj: body\<close>: the exit gets the exception of the body; an exit that raises
  replaces it, and one that returns after an exception suppresses it.
\<close>

definition leave_block :: "('o \<times> 'w, unit) io \<Rightarrow> 'o \<times> 'w \<Rightarrow> unit result \<times> 'w" where
  "leave_block exit s = (case exit s of (r, (_, w)) \<Rightarrow> (r, w))"

definition with_block ::
  "('w, 'o) io \<Rightarrow> ('o \<times> 'w, unit) io \<Rightarrow> (exn option \<Rightarrow> ('o \<times> 'w, unit) io) \<Rightarrow> ('w, unit) io" where
  "with_block enter body exit =
     (\<lambda>w. case enter w of
        (Inl e, w') \<Rightarrow> (Inl e, w')
      | (Inr obj, w') \<Rightarrow>
          (case body (obj, w') of
             (Inl e, s) \<Rightarrow> leave_block (exit (Some e)) s
           | (Inr _, s) \<Rightarrow> leave_block (exit None) s))"

section \<open>Evaluation\<close>

lemma on_world_apply [io_simps]:
  "on_world m (obj, w) = (case m w of (r, w') \<Rightarrow> (r, (obj, w')))"
  by (simp add: on_world_def)

lemma on_world_eq [simp]:
  "on_world m (obj, w) = (r, (obj', w')) \<longleftrightarrow> obj' = obj \<and> m w = (r, w')"
  by (auto simp: on_world_def split: prod.splits)

lemma self_apply [simp, io_simps]: "self (obj, w) = (Inr obj, (obj, w))"
  by (simp add: self_def)

lemma assign_apply [simp, io_simps]: "assign f (obj, w) = (Inr (), (f obj, w))"
  by (simp add: assign_def)

lemma ret_apply [simp, io_simps]: "ret x s = (Inr x, s)"
  by (simp add: ret_def)

lemma raise_apply [simp, io_simps]: "raise e s = (Inl e, s)"
  by (simp add: raise_def)

lemma get_apply [simp, io_simps]: "get f s = (Inr (f s), s)"
  by (simp add: get_def)

lemma modify_apply [simp, io_simps]: "modify f s = (Inr (), f s)"
  by (simp add: modify_def)

lemma of_result_apply [simp, io_simps]: "of_result r s = (r, s)"
  by (simp add: of_result_def)

lemma bind_apply [io_simps]:
  "bind m f s = (case m s of (Inl e, s') \<Rightarrow> (Inl e, s') | (Inr x, s') \<Rightarrow> f x s')"
  by (simp add: bind_def)

lemma try_except_apply [io_simps]:
  "try_except m h s = (case m s of (Inl e, s') \<Rightarrow> h e s' | (Inr x, s') \<Rightarrow> (Inr x, s'))"
  by (simp add: try_except_def)

lemma try_finally_apply [io_simps]:
  "try_finally m c s =
     (case m s of (r, s') \<Rightarrow>
        (case c s' of (Inl e, s'') \<Rightarrow> (Inl e, s'') | (Inr _, s'') \<Rightarrow> (r, s'')))"
  by (simp add: try_finally_def)

lemma translate_apply [io_simps]:
  "translate f m s = (case m s of (Inl e, s') \<Rightarrow> (Inl (f e), s') | (Inr x, s') \<Rightarrow> (Inr x, s'))"
  by (simp add: translate_def try_except_def split: prod.splits sum.splits)

lemma only_if_apply [io_simps]: "only_if b m s = (if b then m s else (Inr (), s))"
  by (simp add: only_if_def)

lemma bind_eq_Inr:
  "bind m f s = (Inr y, s'') \<longleftrightarrow> (\<exists>x s'. m s = (Inr x, s') \<and> f x s' = (Inr y, s''))"
  by (auto simp: bind_def split: prod.splits sum.splits)

lemma bind_eq_Inl:
  "bind m f s = (Inl e, s'') \<longleftrightarrow>
     m s = (Inl e, s'') \<or> (\<exists>x s'. m s = (Inr x, s') \<and> f x s' = (Inl e, s''))"
  by (auto simp: bind_def split: prod.splits sum.splits)

lemma bind_Inr: "m s = (Inr x, s') \<Longrightarrow> bind m f s = f x s'"
  by (simp add: bind_def)

lemma bind_Inl: "m s = (Inl e, s') \<Longrightarrow> bind m f s = (Inl e, s')"
  by (simp add: bind_def)

lemma translate_eq_Inr: "translate f m s = (Inr x, s') \<longleftrightarrow> m s = (Inr x, s')"
  by (auto simp: translate_apply split: prod.splits sum.splits)

lemma translate_eq_Inl:
  "translate f m s = (Inl e, s') \<longleftrightarrow> (\<exists>e'. m s = (Inl e', s') \<and> e = f e')"
  by (auto simp: translate_apply split: prod.splits sum.splits)

section \<open>Hoare triples\<close>

text \<open>
  \<open>hoare P m Q E\<close>: run from a state satisfying \<open>P\<close>, the statement \<open>m\<close> ends with a value and a
  state satisfying \<open>Q\<close> or with an exception and a state satisfying \<open>E\<close>. Statements of this type
  always end, so the triple is one of total correctness.
\<close>

definition hoare ::
  "('s \<Rightarrow> bool) \<Rightarrow> ('s, 'a) io \<Rightarrow> ('a \<Rightarrow> 's \<Rightarrow> bool) \<Rightarrow> (exn \<Rightarrow> 's \<Rightarrow> bool) \<Rightarrow> bool" where
  "hoare P m Q E \<longleftrightarrow>
     (\<forall>s. P s \<longrightarrow> (case m s of (Inl e, s') \<Rightarrow> E e s' | (Inr x, s') \<Rightarrow> Q x s'))"

named_theorems hoare_rules \<open>one rule per statement form\<close>

lemma hoareI:
  "(\<And>s e s'. P s \<Longrightarrow> m s = (Inl e, s') \<Longrightarrow> E e s') \<Longrightarrow>
   (\<And>s x s'. P s \<Longrightarrow> m s = (Inr x, s') \<Longrightarrow> Q x s') \<Longrightarrow> hoare P m Q E"
  by (auto simp: hoare_def split: prod.splits sum.splits)

lemma hoare_InrD: "hoare P m Q E \<Longrightarrow> P s \<Longrightarrow> m s = (Inr x, s') \<Longrightarrow> Q x s'"
  by (force simp: hoare_def)

lemma hoare_InlD: "hoare P m Q E \<Longrightarrow> P s \<Longrightarrow> m s = (Inl e, s') \<Longrightarrow> E e s'"
  by (force simp: hoare_def)

lemma hoare_conseq:
  "hoare P' m Q' E' \<Longrightarrow> (\<And>s. P s \<Longrightarrow> P' s) \<Longrightarrow> (\<And>x s. Q' x s \<Longrightarrow> Q x s) \<Longrightarrow>
   (\<And>e s. E' e s \<Longrightarrow> E e s) \<Longrightarrow> hoare P m Q E"
  by (fastforce simp: hoare_def split: prod.splits sum.splits)

lemma hoare_pre: "hoare P' m Q E \<Longrightarrow> (\<And>s. P s \<Longrightarrow> P' s) \<Longrightarrow> hoare P m Q E"
  by (auto simp: hoare_def)

lemma hoare_ret [hoare_rules]: "hoare (\<lambda>s. Q x s) (ret x) Q E"
  by (simp add: hoare_def)

lemma hoare_raise [hoare_rules]: "hoare (\<lambda>s. E e s) (raise e) Q E"
  by (simp add: hoare_def)

lemma hoare_get [hoare_rules]: "hoare (\<lambda>s. Q (f s) s) (get f) Q E"
  by (simp add: hoare_def)

lemma hoare_modify [hoare_rules]: "hoare (\<lambda>s. Q () (f s)) (modify f) Q E"
  by (simp add: hoare_def)

lemma hoare_of_result [hoare_rules]:
  "hoare (\<lambda>s. case r of Inl e \<Rightarrow> E e s | Inr x \<Rightarrow> Q x s) (of_result r) Q E"
  by (auto simp: hoare_def split: sum.splits)

lemma hoare_bind [hoare_rules]:
  "(\<And>x. hoare (R x) (f x) Q E) \<Longrightarrow> hoare P m R E \<Longrightarrow> hoare P (bind m f) Q E"
  by (fastforce simp: hoare_def bind_def split: prod.splits sum.splits)

lemma hoare_try_except [hoare_rules]:
  "(\<And>e. hoare (R e) (h e) Q E) \<Longrightarrow> hoare P m Q R \<Longrightarrow> hoare P (try_except m h) Q E"
  by (fastforce simp: hoare_def try_except_def split: prod.splits sum.splits)

lemma hoare_try_finally [hoare_rules]:
  "(\<And>x. hoare (QF x) c (\<lambda>_. Q x) E) \<Longrightarrow> (\<And>e. hoare (EF e) c (\<lambda>_. E e) E) \<Longrightarrow>
   hoare P m QF EF \<Longrightarrow> hoare P (try_finally m c) Q E"
  by (fastforce simp: hoare_def try_finally_def split: prod.splits sum.splits)

lemma hoare_translate [hoare_rules]:
  "hoare P m Q (\<lambda>e. E (f e)) \<Longrightarrow> hoare P (translate f m) Q E"
  by (fastforce simp: hoare_def translate_apply split: prod.splits sum.splits)

lemma hoare_only_if [hoare_rules]:
  "hoare P m Q E \<Longrightarrow> hoare (\<lambda>s. if b then P s else Q () s) (only_if b m) Q E"
  by (simp add: hoare_def only_if_def)

lemma hoare_if [hoare_rules]:
  "hoare P m Q E \<Longrightarrow> hoare P' m' Q E \<Longrightarrow>
   hoare (\<lambda>s. if b then P s else P' s) (if b then m else m') Q E"
  by (simp add: hoare_def)

section \<open>Which exceptions a statement raises\<close>

definition raises :: "(exn \<Rightarrow> bool) \<Rightarrow> ('s, 'a) io \<Rightarrow> bool" where
  "raises P m \<longleftrightarrow> (\<forall>s e s'. m s = (Inl e, s') \<longrightarrow> P e)"

named_theorems raises_rules \<open>one rule per statement form\<close>

lemma raisesI: "(\<And>s e s'. m s = (Inl e, s') \<Longrightarrow> P e) \<Longrightarrow> raises P m"
  by (auto simp: raises_def)

lemma raisesD: "raises P m \<Longrightarrow> m s = (Inl e, s') \<Longrightarrow> P e"
  by (auto simp: raises_def)

lemma raises_mono: "raises P m \<Longrightarrow> (\<And>e. P e \<Longrightarrow> Q e) \<Longrightarrow> raises Q m"
  by (auto simp: raises_def)

lemma raises_ret [raises_rules]: "raises P (ret x)"
  by (simp add: raises_def)

lemma raises_get [raises_rules]: "raises P (get f)"
  by (simp add: raises_def)

lemma raises_modify [raises_rules]: "raises P (modify f)"
  by (simp add: raises_def)

lemma raises_self [raises_rules]: "raises P self"
  by (auto simp: raises_def)

lemma raises_assign [raises_rules]: "raises P (assign f)"
  by (auto simp: raises_def)

lemma raises_raise [raises_rules]: "P e \<Longrightarrow> raises P (raise e)"
  by (simp add: raises_def)

lemma raises_of_result [raises_rules]: "(\<And>e. r = Inl e \<Longrightarrow> P e) \<Longrightarrow> raises P (of_result r)"
  by (auto simp: raises_def)

lemma raises_bind [raises_rules]:
  "raises P m \<Longrightarrow> (\<And>x. raises P (f x)) \<Longrightarrow> raises P (bind m f)"
  unfolding raises_def bind_eq_Inl by blast

lemma raises_on_world [raises_rules]: "raises P m \<Longrightarrow> raises P (on_world m)"
  by (auto simp: raises_def)

lemma raises_if [raises_rules]:
  "(b \<Longrightarrow> raises P m) \<Longrightarrow> (\<not> b \<Longrightarrow> raises P m') \<Longrightarrow> raises P (if b then m else m')"
  by simp

lemma raises_only_if [raises_rules]: "raises P m \<Longrightarrow> raises P (only_if b m)"
  by (simp add: raises_def only_if_apply)

lemma raises_option [raises_rules]:
  "(x = None \<Longrightarrow> raises P m) \<Longrightarrow> (\<And>y. x = Some y \<Longrightarrow> raises P (f y)) \<Longrightarrow>
   raises P (case x of None \<Rightarrow> m | Some y \<Rightarrow> f y)"
  by (cases x) simp_all

lemma raises_prod [raises_rules]:
  "(\<And>a b. x = (a, b) \<Longrightarrow> raises P (f a b)) \<Longrightarrow> raises P (case x of (a, b) \<Rightarrow> f a b)"
  by (cases x) simp_all

lemma raises_translate:
  "raises Q m \<Longrightarrow> (\<And>e. Q e \<Longrightarrow> P (f e)) \<Longrightarrow> raises P (translate f m)"
  by (auto simp: raises_def translate_eq_Inl)

lemma raises_try_except:
  "raises Q m \<Longrightarrow> (\<And>e. Q e \<Longrightarrow> raises P (h e)) \<Longrightarrow> raises P (try_except m h)"
  by (fastforce simp: raises_def try_except_def split: prod.splits sum.splits)

lemma raises_try_finally [raises_rules]:
  "raises P m \<Longrightarrow> raises P c \<Longrightarrow> raises P (try_finally m c)"
  by (fastforce simp: raises_def try_finally_def split: prod.splits sum.splits)

end
