(* ===== verification/Base.thy ===== *)
theory Base
  imports Effects "HOL-Library.List_Lexorder"
begin

text \<open>
  \<^verbatim>\<open>databridge/connectors/base.py\<close>: the filename policy, the reserved names of staging and
  probe files, and the bounded listing that every connector shares.
\<close>

section \<open>Constants\<close>

definition MAX_LIST_RESULTS :: nat where "MAX_LIST_RESULTS = 1000"
definition MAX_LIST_SCAN :: nat where "MAX_LIST_SCAN = 10000"
definition CHUNK_SIZE :: nat where "CHUNK_SIZE = 1048576"
definition MAX_FILENAME_BYTES :: nat where "MAX_FILENAME_BYTES = 255"
definition RESERVED_PREFIX :: pystr where "RESERVED_PREFIX = lit ''.databridge-''"

record listing =
  files :: "pystr list"
  truncated :: bool

record access_check =
  writable :: bool

section \<open>The connector protocol\<close>

text \<open>
  A connector is the record of its methods (the protocols \<open>Connector\<close>, \<open>ByteSource\<close> and
  \<open>ByteSink\<close>). \<open>read\<close> and \<open>write\<close> are context managers: entering one yields the stream object,
  and leaving it gets the exception of the block, \<open>None\<close> when the block ended without one. Stream
  methods run on the stream object and the world.
\<close>

record ('w, 'r, 'k) connector =
  cn_list_files :: "('w, listing) io"
  cn_check_access :: "('w, access_check) io"
  cn_read_enter :: "pystr \<Rightarrow> nat option \<Rightarrow> ('w, 'r) io"
  cn_source_read :: "nat \<Rightarrow> ('r \<times> 'w, bytes) io"
  cn_read_exit :: "exn option \<Rightarrow> ('r \<times> 'w, unit) io"
  cn_write_enter :: "pystr \<Rightarrow> pystr \<Rightarrow> bool \<Rightarrow> ('w, 'k) io"
  cn_sink_write :: "bytes \<Rightarrow> ('k \<times> 'w, unit) io"
  cn_sink_finish :: "('k \<times> 'w, unit) io"
  cn_write_exit :: "exn option \<Rightarrow> ('k \<times> 'w, unit) io"

text \<open>What \<open>contextlib\<close> throws into a generator when the block raised: the exception itself.\<close>

definition rethrow :: "exn option \<Rightarrow> ('s, unit) io" where
  "rethrow failure = (case failure of None \<Rightarrow> ret () | Some e \<Rightarrow> raise e)"

lemma rethrow_simps [simp]: "rethrow None = ret ()" "rethrow (Some e) = raise e"
  by (simp_all add: rethrow_def)

section \<open>Filenames\<close>

definition is_reserved_name :: "pystr \<Rightarrow> bool" where
  "is_reserved_name filename = startswith (lower filename) RESERVED_PREFIX"

definition validate_filename :: "pystr \<Rightarrow> pystr result" where
  "validate_filename filename =
     (if filename = [] \<or> filename \<in> {lit ''.'', lit ''..''} \<or> 47 \<in> set filename \<or>
         92 \<in> set filename \<or> 0 \<in> set filename
      then Inl (db_error INVALID_FILENAME
                 (lit ''Filename must name one file at the connection root''))
      else case utf8 filename of
        None \<Rightarrow> Inl (db_error INVALID_FILENAME (lit ''Filename must be valid Unicode text''))
      | Some encoded \<Rightarrow>
          if MAX_FILENAME_BYTES < length encoded
          then Inl (db_error INVALID_FILENAME
                 (lit ''Filename must be at most '' @ show_nat MAX_FILENAME_BYTES @
                  lit '' bytes when encoded as UTF-8''))
          else if is_reserved_name filename
          then Inl (db_error INVALID_FILENAME
                 (lit ''Names starting with '' @ [39] @ RESERVED_PREFIX @ [39] @
                  lit '' are reserved for DataBridge staging files''))
          else Inr filename)"

text \<open>What an accepted name satisfies, and that nothing else is accepted.\<close>

definition plain_filename :: "pystr \<Rightarrow> bool" where
  "plain_filename f \<longleftrightarrow>
     f \<noteq> [] \<and> f \<noteq> lit ''.'' \<and> f \<noteq> lit ''..'' \<and> 47 \<notin> set f \<and> 92 \<notin> set f \<and> 0 \<notin> set f \<and>
     (\<exists>b. utf8 f = Some b \<and> length b \<le> MAX_FILENAME_BYTES) \<and> \<not> is_reserved_name f"

lemma validate_filename_Inr: "validate_filename f = Inr g \<longleftrightarrow> g = f \<and> plain_filename f"
  by (auto simp: validate_filename_def plain_filename_def split: option.splits)

lemma validate_filename_Inl:
  "validate_filename f = Inl e \<Longrightarrow> has_code INVALID_FILENAME e"
  by (auto simp: validate_filename_def split: option.splits if_splits)

lemma validate_filename_cases:
  obtains (valid) "validate_filename f = Inr f" "plain_filename f"
  | (invalid) e where "validate_filename f = Inl e" "has_code INVALID_FILENAME e"
      "\<not> plain_filename f"
proof (cases "validate_filename f")
  case (Inl e)
  then show ?thesis using invalid validate_filename_Inl validate_filename_Inr [of f f] by fastforce
next
  case (Inr g)
  then show ?thesis using valid by (simp add: validate_filename_Inr)
qed

lemma plain_filename_length: "plain_filename f \<Longrightarrow> length f \<le> MAX_FILENAME_BYTES"
  using utf8_length_le by (fastforce simp: plain_filename_def)

section \<open>Reserved names\<close>

definition hyphenated :: "pystr \<Rightarrow> pystr" where
  "hyphenated h = take 8 h @ [45] @ take 4 (drop 8 h) @ [45] @ take 4 (drop 12 h) @ [45] @
     take 4 (drop 16 h) @ [45] @ drop 20 h"

text \<open>
  \<open>str(UUID(text))\<close> for 32 hexadecimal digits with any hyphens between them; every caller passes
  the text of a fresh \<open>uuid4()\<close>.
\<close>

definition uuid_text :: "pystr \<Rightarrow> pystr result" where
  "uuid_text s =
     (let h = lower (filter (\<lambda>c. c \<noteq> 45) s)
      in if length h = 32 \<and> list_all is_hex h
         then Inr (hyphenated h)
         else Inl (PyError ''ValueError''))"

definition stage_name :: "pystr \<Rightarrow> pystr result" where
  "stage_name staging_id =
     map_sum id (\<lambda>u. RESERVED_PREFIX @ u @ lit ''.part'') (uuid_text staging_id)"

definition probe_name :: "pystr \<Rightarrow> pystr result" where
  "probe_name probe_id =
     map_sum id (\<lambda>u. RESERVED_PREFIX @ lit ''check-'' @ u) (uuid_text probe_id)"

lemma uuid_text_length: "uuid_text s = Inr u \<Longrightarrow> length u = 36"
  by (auto simp: uuid_text_def hyphenated_def Let_def split: if_splits)

text \<open>\<open>str(uuid)\<close> of a 128-bit number reads back as itself.\<close>

definition uuid_str :: "nat \<Rightarrow> pystr" where
  "uuid_str n = hyphenated (hex_fixed 32 n)"

lemma filter_hyphenated:
  assumes "45 \<notin> set h"
  shows "filter (\<lambda>c. c \<noteq> 45) (hyphenated h) = h"
proof -
  have plain: "filter (\<lambda>c. c \<noteq> 45) s = s" if "set s \<subseteq> set h" for s
    using that assms by (auto simp: filter_id_conv)
  have parts: "set (take 8 h) \<subseteq> set h" "set (take 4 (drop k h)) \<subseteq> set h" "set (drop k h) \<subseteq> set h"
    for k by (meson set_take_subset set_drop_subset order_trans)+
  have "filter (\<lambda>c. c \<noteq> 45) (hyphenated h) =
      take 8 h @ take 4 (drop 8 h) @ take 4 (drop 12 h) @ take 4 (drop 16 h) @ drop 20 h"
    by (simp add: hyphenated_def plain parts)
  also have "take 4 (drop 16 h) @ drop 20 h = drop 16 h"
    using append_take_drop_id [of 4 "drop 16 h"] by simp
  also have "take 4 (drop 12 h) @ drop 16 h = drop 12 h"
    using append_take_drop_id [of 4 "drop 12 h"] by simp
  also have "take 4 (drop 8 h) @ drop 12 h = drop 8 h"
    using append_take_drop_id [of 4 "drop 8 h"] by simp
  finally show ?thesis by simp
qed

lemma uuid_text_uuid_str [simp]: "uuid_text (uuid_str n) = Inr (uuid_str n)"
  using hex_fixed_plain [of 32 n] by (simp add: uuid_text_def uuid_str_def filter_hyphenated Let_def)

lemma lower_RESERVED_PREFIX: "lower RESERVED_PREFIX = RESERVED_PREFIX"
  by (simp add: RESERVED_PREFIX_def text_eval)

lemma is_reserved_prefixed: "is_reserved_name (RESERVED_PREFIX @ s)"
  by (simp add: is_reserved_name_def lower_append lower_RESERVED_PREFIX)

lemma reserved_not_plain: "is_reserved_name f \<Longrightarrow> \<not> plain_filename f"
  by (simp add: plain_filename_def)

lemma stage_name_shape:
  "stage_name i = Inr n \<Longrightarrow> \<exists>u. uuid_text i = Inr u \<and> n = RESERVED_PREFIX @ u @ lit ''.part''"
  by (cases "uuid_text i") (auto simp: stage_name_def)

lemma probe_name_shape:
  "probe_name i = Inr n \<Longrightarrow> \<exists>u. uuid_text i = Inr u \<and> n = RESERVED_PREFIX @ lit ''check-'' @ u"
  by (cases "uuid_text i") (auto simp: probe_name_def)

lemma stage_name_length: "stage_name i = Inr n \<Longrightarrow> length n = 53"
  by (auto dest!: stage_name_shape uuid_text_length simp: RESERVED_PREFIX_def)

lemma probe_name_length: "probe_name i = Inr n \<Longrightarrow> length n = 54"
  by (auto dest!: probe_name_shape uuid_text_length simp: RESERVED_PREFIX_def)

lemma stage_name_reserved: "stage_name i = Inr n \<Longrightarrow> is_reserved_name n"
  by (auto dest!: stage_name_shape simp: is_reserved_prefixed)

lemma probe_name_reserved: "probe_name i = Inr n \<Longrightarrow> is_reserved_name n"
  by (auto dest!: probe_name_shape simp: is_reserved_prefixed)

section \<open>Error constructors\<close>

definition source_changed :: "pystr \<Rightarrow> exn" where
  "source_changed filename =
     db_error SOURCE_CHANGED
       ([39] @ filename @ [39] @
        lit '' became shorter while it was read; it changed during the operation'')"

definition destination_exists :: "pystr \<Rightarrow> exn" where
  "destination_exists filename =
     db_error DESTINATION_EXISTS
       ([39] @ filename @ [39] @
        lit '' already exists; set \"overwrite\": true to replace it'')"

lemma source_changed_code [simp]:
  "has_code c (source_changed f) \<longleftrightarrow> c = SOURCE_CHANGED" "is_db_error (source_changed f)"
  by (simp_all add: source_changed_def)

lemma destination_exists_code [simp]:
  "has_code c (destination_exists f) \<longleftrightarrow> c = DESTINATION_EXISTS"
  "is_db_error (destination_exists f)"
  by (simp_all add: destination_exists_def)

section \<open>Bounded listing\<close>

text \<open>
  The entries come from an iterator, which may raise instead of yielding the next entry; an
  iterator is the list of what each of its steps gives. \<open>scanned\<close> counts the entries before this
  one; \<open>found\<close> is the list \<open>files\<close> of the source, built by appending.
\<close>

type_synonym entries = "(pystr \<times> bool) result list"

fun listing_loop :: "nat \<Rightarrow> pystr list \<Rightarrow> entries \<Rightarrow> listing result" where
  "listing_loop scanned found [] = Inr \<lparr>files = sort found, truncated = False\<rparr>"
| "listing_loop scanned found (Inl e # rest) = Inl e"
| "listing_loop scanned found (Inr (name, regular) # rest) =
     (if MAX_LIST_SCAN < Suc scanned then Inr \<lparr>files = sort found, truncated = True\<rparr>
      else if \<not> regular then listing_loop (Suc scanned) found rest
      else case validate_filename name of
        Inl _ \<Rightarrow> listing_loop (Suc scanned) found rest
      | Inr _ \<Rightarrow>
          if MAX_LIST_RESULTS \<le> length found then Inr \<lparr>files = sort found, truncated = True\<rparr>
          else listing_loop (Suc scanned) (found @ [name]) rest)"

definition bounded_listing :: "entries \<Rightarrow> listing result" where
  "bounded_listing entries = listing_loop 0 [] entries"

text \<open>The names a listing is to show: regular files whose names the API accepts.\<close>

definition listable :: "(pystr \<times> bool) list \<Rightarrow> pystr list" where
  "listable es = map fst (filter (\<lambda>(name, regular). regular \<and> plain_filename name) es)"

lemma listable_Nil [simp]: "listable [] = []"
  by (simp add: listable_def)

lemma listable_Cons [simp]:
  "listable ((name, regular) # es) =
     (if regular \<and> plain_filename name then name # listable es else listable es)"
  by (simp add: listable_def)

lemma listable_append [simp]: "listable (es @ fs) = listable es @ listable fs"
  by (simp add: listable_def)

lemma length_listable: "length (listable es) \<le> length es"
  by (simp add: listable_def)

lemma listing_loop_step:
  "listing_loop scanned found (Inr (name, regular) # rest) =
     (if MAX_LIST_SCAN \<le> scanned then Inr \<lparr>files = sort found, truncated = True\<rparr>
      else if regular \<and> plain_filename name then
        (if MAX_LIST_RESULTS \<le> length found then Inr \<lparr>files = sort found, truncated = True\<rparr>
         else listing_loop (Suc scanned) (found @ [name]) rest)
      else listing_loop (Suc scanned) found rest)"
  by (cases name rule: validate_filename_cases) auto

declare listing_loop.simps(3) [simp del]

text \<open>
  The loop in closed form: it looks at the entries that the scan cap admits, and shows the
  first \<open>MAX_LIST_RESULTS\<close> names among them.
\<close>

lemma listing_loop_eq:
  assumes "scanned \<le> MAX_LIST_SCAN" and "length found \<le> MAX_LIST_RESULTS"
  shows "listing_loop scanned found (map Inr es) =
    (let seen = take (MAX_LIST_SCAN - scanned) es;
         names = found @ listable seen
     in Inr \<lparr>files = sort (take MAX_LIST_RESULTS names),
             truncated = (MAX_LIST_SCAN - scanned < length es \<or>
                          MAX_LIST_RESULTS < length names)\<rparr>)"
  using assms
proof (induction es arbitrary: scanned found)
  case Nil
  then show ?case by (simp add: Let_def)
next
  case (Cons e es)
  obtain name regular where e: "e = (name, regular)" by force
  show ?case
  proof (cases "scanned < MAX_LIST_SCAN")
    case False
    with Cons.prems e show ?thesis by (simp add: listing_loop_step Let_def)
  next
    case True
    then obtain k where k: "MAX_LIST_SCAN - scanned = Suc k" "MAX_LIST_SCAN - Suc scanned = k"
      by (metis Suc_diff_Suc)
    show ?thesis
    proof (cases "regular \<and> plain_filename name \<and> MAX_LIST_RESULTS \<le> length found")
      case full: True
      with Cons.prems e k True show ?thesis by (simp add: listing_loop_step Let_def)
    next
      case False
      with Cons.prems e k True Cons.IH [of "Suc scanned" found]
        Cons.IH [of "Suc scanned" "found @ [name]"]
      show ?thesis by (auto simp: listing_loop_step Let_def)
    qed
  qed
qed

lemma bounded_listing_eq:
  "bounded_listing (map Inr es) =
    Inr \<lparr>files = sort (take MAX_LIST_RESULTS (listable (take MAX_LIST_SCAN es))),
         truncated = (MAX_LIST_SCAN < length es \<or>
                      MAX_LIST_RESULTS < length (listable (take MAX_LIST_SCAN es)))\<rparr>"
  using listing_loop_eq [of 0 "[]" es] by (simp add: bounded_listing_def Let_def)

text \<open>An error of the iterator is the only way the listing fails.\<close>

lemma listing_loop_Inl: "listing_loop n found es = Inl e \<Longrightarrow> Inl e \<in> set es"
proof (induction es arbitrary: n found)
  case (Cons x es)
  show ?case
  proof (cases x)
    case (Inr p)
    with Cons show ?thesis
      by (cases p) (auto simp: listing_loop_step split: if_splits)
  qed (use Cons.prems in simp)
qed simp

lemma bounded_listing_Inl: "bounded_listing es = Inl e \<Longrightarrow> Inl e \<in> set es"
  by (auto simp: bounded_listing_def dest: listing_loop_Inl)

text \<open>The iterator is advanced at most \<open>MAX_LIST_SCAN + 1\<close> times.\<close>

lemma listing_loop_lazy:
  "scanned \<le> MAX_LIST_SCAN \<Longrightarrow> Suc MAX_LIST_SCAN - scanned \<le> length es \<Longrightarrow>
   listing_loop scanned found (es @ later) = listing_loop scanned found es"
proof (induction es arbitrary: scanned found)
  case (Cons x es)
  show ?case
  proof (cases x)
    case (Inr p)
    with Cons show ?thesis by (cases p) (auto simp: listing_loop_step)
  qed simp
qed simp

lemma bounded_listing_lazy:
  "MAX_LIST_SCAN < length es \<Longrightarrow> bounded_listing (es @ later) = bounded_listing es"
  by (simp add: bounded_listing_def listing_loop_lazy)

end
