(* ===== verification/Models.thy ===== *)
theory Models
  imports Base
begin

text \<open>
  \<^verbatim>\<open>databridge/models.py\<close>: the connections, their public views, the transfer request and
  record, and the text rules of the fields. The field types \<open>Literal["local"]\<close> and
  \<open>Literal["sftp"]\<close> are the constructors.
\<close>

section \<open>Connections\<close>

datatype connection =
    LocalConnection (conn_name: pystr) (conn_path: pystr)
  | SFTPConnection (conn_name: pystr) (conn_host: pystr) (conn_port: nat) (conn_username: pystr)
      (conn_password: pystr) (conn_root: pystr)

datatype connection_view =
    LocalConnectionView (view_name: pystr) (view_path: pystr)
  | SFTPConnectionView (view_name: pystr) (view_host: pystr) (view_port: nat) (view_username: pystr)
      (view_root: pystr)

text \<open>What a response shows of a connection: every field but the password.\<close>

primrec public_view :: "connection \<Rightarrow> connection_view" where
  "public_view (LocalConnection name path) = LocalConnectionView name path"
| "public_view (SFTPConnection name host port username password root) =
     SFTPConnectionView name host port username root"

primrec conn_type :: "connection \<Rightarrow> pystr" where
  "conn_type (LocalConnection _ _) = lit ''local''"
| "conn_type (SFTPConnection _ _ _ _ _ _) = lit ''sftp''"

definition CONNECTION_TYPE_NAMES :: "pystr list" where
  "CONNECTION_TYPE_NAMES = [lit ''local'', lit ''sftp'']"

lemma conn_type_known: "conn_type c \<in> set CONNECTION_TYPE_NAMES"
  by (cases c) (simp_all add: CONNECTION_TYPE_NAMES_def)

section \<open>Transfers\<close>

record transfer_request =
  rq_source :: pystr
  rq_source_file :: pystr
  rq_destination :: pystr
  rq_destination_file :: pystr
  rq_overwrite :: bool

datatype transfer_status = Running | Publishing | Completed | Failed

datatype failure_phase =
    source_lookup | destination_lookup | source_open | destination_open | source_read
  | destination_write | publication | interruption

text \<open>A time is its ISO 8601 text in UTC.\<close>

record transfer_record =
  tr_id :: pystr
  tr_source :: pystr
  tr_source_file :: pystr
  tr_destination :: pystr
  tr_destination_file :: pystr
  tr_overwrite :: bool
  tr_status :: transfer_status
  tr_started_at :: pystr
  tr_updated_at :: pystr
  tr_completed_at :: "pystr option"
  tr_failed_at :: "pystr option"
  tr_bytes_copied :: nat
  tr_failure_phase :: "failure_phase option"
  tr_error_code :: "error_code option"
  tr_error :: "pystr option"

section \<open>Text rules\<close>

definition MAX_SETTING_LENGTH :: nat where "MAX_SETTING_LENGTH = 4096"

definition is_letter :: "nat \<Rightarrow> bool" where
  "is_letter c \<longleftrightarrow> 65 \<le> c \<and> c \<le> 90 \<or> 97 \<le> c \<and> c \<le> 122"

definition is_alnum :: "nat \<Rightarrow> bool" where
  "is_alnum c \<longleftrightarrow> is_letter c \<or> is_digit c"

text \<open>The pattern \<^verbatim>\<open>^[A-Za-z][A-Za-z0-9_-]{0,63}$\<close>.\<close>

definition ConnectionName :: "pystr \<Rightarrow> bool" where
  "ConnectionName s \<longleftrightarrow>
     (case s of [] \<Rightarrow> False
      | c # cs \<Rightarrow> is_letter c \<and> length cs \<le> 63 \<and> list_all (\<lambda>d. is_alnum d \<or> d = 95 \<or> d = 45) cs)"

text \<open>\<open>unicodedata.category(c) == "Cc"\<close>.\<close>

definition is_control :: "nat \<Rightarrow> bool" where
  "is_control c \<longleftrightarrow> c < 32 \<or> 127 \<le> c \<and> c \<le> 159"

definition plain_text :: "pystr \<Rightarrow> bool" where
  "plain_text s \<longleftrightarrow> \<not> list_ex is_control s \<and> utf8 s \<noteq> None"

definition SettingText :: "pystr \<Rightarrow> bool" where
  "SettingText s \<longleftrightarrow> 1 \<le> length s \<and> length s \<le> MAX_SETTING_LENGTH \<and> plain_text s"

text \<open>\<open>Secret\<close> with \<open>min_length=1\<close>.\<close>

definition Secret :: "pystr \<Rightarrow> bool" where
  "Secret s \<longleftrightarrow> 1 \<le> length s \<and> utf8 s \<noteq> None"

text \<open>One label of a host name: \<^verbatim>\<open>[a-z0-9](?:[a-z0-9-]{0,61}[a-z0-9])?\<close>.\<close>

definition is_host_char :: "nat \<Rightarrow> bool" where
  "is_host_char c \<longleftrightarrow> 97 \<le> c \<and> c \<le> 122 \<or> is_digit c"

definition host_label :: "pystr \<Rightarrow> bool" where
  "host_label s \<longleftrightarrow>
     s \<noteq> [] \<and> length s \<le> 63 \<and> is_host_char (hd s) \<and> is_host_char (last s) \<and>
     list_all (\<lambda>c. is_host_char c \<or> c = 45) s"

text \<open>
  \<open>_host\<close>. \<open>ip\<close> stands for \<open>ipaddress.ip_address\<close>: the canonical text of an address and its
  scope, \<open>None\<close> for a ValueError.
\<close>

type_synonym ip_parser = "pystr \<Rightarrow> (pystr \<times> pystr option) option"

definition scope_id :: "pystr \<Rightarrow> bool" where
  "scope_id s \<longleftrightarrow> 1 \<le> length s \<and> length s \<le> 64 \<and>
     list_all (\<lambda>c. is_alnum c \<or> c = 95 \<or> c = 46 \<or> c = 45) s"

definition host_of :: "ip_parser \<Rightarrow> pystr \<Rightarrow> pystr option" where
  "host_of ip value =
     (case ip value of
        Some (address, scope) \<Rightarrow>
          if scope \<noteq> None \<and> \<not> scope_id (the scope) then None else Some address
      | None \<Rightarrow>
          (let name = lower value
           in if 253 < length name \<or> \<not> list_all host_label (split_on 46 name) then None
              else Some name))"

text \<open>
  Documented behaviour of \<open>ip_address\<close>: canonical text is read as the same address and is ASCII up to its
  scope; an address without its scope has at most 39 characters; and case does not matter.
\<close>

definition ip_canonical :: "ip_parser \<Rightarrow> bool" where
  "ip_canonical ip \<longleftrightarrow>
     (\<forall>v t s. ip v = Some (t, s) \<longrightarrow> ip t = Some (t, s) \<and> 1 \<le> length t \<and>
        length t \<le> 39 + (case s of None \<Rightarrow> 0 | Some scope \<Rightarrow> 1 + length scope) \<and>
        (s = None \<or> scope_id (the s) \<longrightarrow> list_all (\<lambda>c. c < 128) t)) \<and>
     (\<forall>v. ip v = None \<longrightarrow> ip (lower v) = None)"

lemma host_of_idem:
  assumes "ip_canonical ip" "host_of ip v = Some h"
  shows "host_of ip h = Some h"
proof (cases "ip v")
  case (Some p)
  with assms show ?thesis
    by (cases p) (auto simp: host_of_def ip_canonical_def split: if_splits)
next
  case None
  with assms have "h = lower v" "ip h = None"
    by (auto simp: host_of_def ip_canonical_def Let_def split: if_splits)
  with assms None show ?thesis by (auto simp: host_of_def Let_def split: if_splits)
qed

definition HostName :: "ip_parser \<Rightarrow> pystr \<Rightarrow> pystr option" where
  "HostName ip s = (if 1 \<le> length s \<and> length s \<le> 253 then host_of ip s else None)"

lemma HostName_idem:
  assumes "ip_canonical ip" "HostName ip v = Some h"
  shows "HostName ip h = Some h"
proof -
  have "host_of ip h = Some h" using assms host_of_idem by (auto simp: HostName_def split: if_splits)
  moreover have "1 \<le> length h \<and> length h \<le> 253"
  proof (cases "ip v")
    case (Some p)
    obtain t sc where p: "p = (t, sc)" by (cases p)
    with assms Some have h: "h = t" and scope: "sc = None \<or> scope_id (the sc)"
      by (auto simp: HostName_def host_of_def split: if_splits)
    from assms(1) Some p have len: "1 \<le> length t"
      "length t \<le> 39 + (case sc of None \<Rightarrow> 0 | Some scope \<Rightarrow> 1 + length scope)"
      by (auto simp: ip_canonical_def)
    have "(case sc of None \<Rightarrow> 0 | Some scope \<Rightarrow> 1 + length scope) \<le> 65"
      using scope by (cases sc) (auto simp: scope_id_def)
    with len h show ?thesis by simp
  next
    case None
    with assms have "h = lower v" "length h \<le> 253" "v \<noteq> []"
      by (auto simp: HostName_def host_of_def Let_def split: if_splits)
    then show ?thesis by (cases "lower v") auto
  qed
  ultimately show ?thesis by (simp add: HostName_def)
qed

lemma split_on_chars: "c \<in> set s \<Longrightarrow> c \<noteq> sep \<Longrightarrow> \<exists>l\<in>set (split_on sep s). c \<in> set l"
  by (induction sep s rule: split_on.induct) (auto split: list.splits)

lemma HostName_ascii:
  assumes "ip_canonical ip" "HostName ip v = Some h"
  shows "list_all (\<lambda>c. c < 128) h"
proof (cases "ip v")
  case (Some p)
  with assms show ?thesis
    by (cases p) (auto simp: HostName_def host_of_def ip_canonical_def split: if_splits)
next
  case None
  with assms have labels: "list_all host_label (split_on 46 h)"
    by (auto simp: HostName_def host_of_def Let_def split: if_splits)
  have "c < 128" if "host_label l" "c \<in> set l" for l c
    using that by (auto simp: host_label_def list_all_iff is_host_char_def is_digit_def)
  with labels split_on_chars [of _ h 46] have "c < 128" if "c \<in> set h" for c
    using that unfolding list_all_iff by (cases "c = 46") (simp, blast)
  then show ?thesis by (simp add: list_all_iff)
qed

text \<open>A Python string holds code points below 1114112.\<close>

definition python_text :: "connection \<Rightarrow> bool" where
  "python_text c = (case c of
     LocalConnection n p \<Rightarrow> \<forall>x\<in>set n \<union> set p. x < 1114112
   | SFTPConnection n h _ u pw rt \<Rightarrow> \<forall>x\<in>set n \<union> set h \<union> set u \<union> set pw \<union> set rt. x < 1114112)"

text \<open>What the input models accept; the stored connection has this form.\<close>

definition connection_ok :: "ip_parser \<Rightarrow> connection \<Rightarrow> bool" where
  "connection_ok ip c \<longleftrightarrow> python_text c \<and>
     (case c of
        LocalConnection name p \<Rightarrow> ConnectionName name \<and> SettingText p
      | SFTPConnection name host port username password root \<Rightarrow>
          ConnectionName name \<and> HostName ip host = Some host \<and> 0 < port \<and> port \<le> 65535 \<and>
          SettingText username \<and> Secret password \<and> SettingText root)"

end
