(* ===== verification/Posix.thy ===== *)
theory Posix
  imports Base "HOL-Library.AList"
begin

unbundle bit_operations_syntax

text \<open>
  The operating system as the source uses it through \<^verbatim>\<open>os\<close> and \<^verbatim>\<open>pathlib\<close>: a file system of
  directory entries and inodes, the descriptors of the process, and the system calls.

  Every system call takes one \<open>tick\<close> of the schedule: first the other processes of the machine may
  change the file system (\<open>interfere\<close>, any function), then the call proceeds, fails with an error
  number, or transfers fewer bytes than asked. After the last tick every call proceeds undisturbed.
  A theorem over any schedule is a theorem over any faults and any concurrent changes.
\<close>

section \<open>State\<close>

type_synonym path = "pystr list"
type_synonym perms = "12 word"

datatype file_kind = Regular | Directory | Symlink | Special

text \<open>\<open>durable\<close> is what a crash leaves of the content: the content at the last \<open>fsync\<close>.\<close>

record inode =
  kind :: file_kind
  content :: bytes
  durable :: bytes
  mode :: perms

text \<open>
  \<open>log\<close> holds the events of \<open>_logger.warning\<close>, newest first.

  Absolute paths, by their components. \<open>links\<close> is the layout of symbolic links: the path to which
  a path resolves, and \<open>None\<close> for a loop.
\<close>

record fs =
  dirents :: "(path \<times> nat) list"
  inodes :: "nat \<Rightarrow> inode"
  next_ino :: nat
  links :: "path \<Rightarrow> path option"

datatype outcome = Proceed | Fail errno | Short nat

record tick =
  interfere :: "fs \<Rightarrow> fs"
  outcome :: outcome

record open_file =
  of_inode :: nat
  of_pos :: nat

record os_world =
  fs :: fs
  fds :: "nat \<rightharpoonup> open_file"
  next_fd :: nat
  ticks :: "tick list"
  uuids :: "nat list"
  umask :: perms
  cwd :: path
  home :: "pystr \<Rightarrow> path option"
  log :: "string list"

text \<open>What \<open>os.stat\<close> returns of a file.\<close>

record stat_result =
  st_kind :: file_kind
  st_size :: nat
  st_mode :: perms

definition lookup :: "fs \<Rightarrow> path \<Rightarrow> nat option" where
  "lookup f p = map_of (dirents f) p"

definition file_at :: "fs \<Rightarrow> path \<Rightarrow> inode option" where
  "file_at f p = map_option (inodes f) (lookup f p)"

definition put_entry :: "path \<Rightarrow> nat \<Rightarrow> fs \<Rightarrow> fs" where
  "put_entry p i f = f\<lparr>dirents := AList.update p i (dirents f)\<rparr>"

definition drop_entry :: "path \<Rightarrow> fs \<Rightarrow> fs" where
  "drop_entry p f = f\<lparr>dirents := AList.delete p (dirents f)\<rparr>"

definition put_inode :: "nat \<Rightarrow> inode \<Rightarrow> fs \<Rightarrow> fs" where
  "put_inode i n f = f\<lparr>inodes := (inodes f)(i := n)\<rparr>"

definition stat_of :: "inode \<Rightarrow> stat_result" where
  "stat_of n = \<lparr>st_kind = kind n, st_size = length (content n), st_mode = mode n\<rparr>"

named_theorems fs_simps \<open>lookups after updates of the file system\<close>

lemma lookup_put_entry [simp, fs_simps]: "lookup (put_entry p i f) = (lookup f)(p \<mapsto> i)"
  by (auto simp: lookup_def put_entry_def fun_eq_iff update_conv)

lemma lookup_drop_entry [simp, fs_simps]: "lookup (drop_entry p f) = (lookup f)(p := None)"
  by (auto simp: lookup_def drop_entry_def fun_eq_iff delete_conv)

lemma lookup_put_inode [simp, fs_simps]: "lookup (put_inode i n f) = lookup f"
  by (simp add: lookup_def put_inode_def fun_eq_iff)

lemma lookup_next_ino [simp, fs_simps]: "lookup (f\<lparr>next_ino := i\<rparr>) = lookup f"
  by (simp add: lookup_def fun_eq_iff)

lemma inodes_put_entry [simp, fs_simps]: "inodes (put_entry p i f) = inodes f"
  by (simp add: put_entry_def)

lemma inodes_drop_entry [simp, fs_simps]: "inodes (drop_entry p f) = inodes f"
  by (simp add: drop_entry_def)

lemma inodes_put_inode [simp, fs_simps]: "inodes (put_inode i n f) = (inodes f)(i := n)"
  by (simp add: put_inode_def)

lemma next_ino_put [simp, fs_simps]:
  "next_ino (put_entry p i f) = next_ino f" "next_ino (drop_entry p f) = next_ino f"
  "next_ino (put_inode i n f) = next_ino f"
  by (simp_all add: put_entry_def drop_entry_def put_inode_def)

lemma links_put [simp, fs_simps]:
  "links (put_entry p i f) = links f" "links (drop_entry p f) = links f"
  "links (put_inode i n f) = links f"
  by (simp_all add: put_entry_def drop_entry_def put_inode_def)

section \<open>System calls\<close>

definition syscall ::
  "(outcome \<Rightarrow> ('w os_world_scheme, 'a) io) \<Rightarrow> ('w os_world_scheme, 'a) io" where
  "syscall body =
     (\<lambda>w. case ticks w of
        [] \<Rightarrow> body Proceed w
      | t # ts \<Rightarrow>
          (let w' = w\<lparr>ticks := ts, fs := interfere t (fs w)\<rparr>
           in case outcome t of Fail e \<Rightarrow> (Inl (OSError e), w') | r \<Rightarrow> body r w'))"

text \<open>How many of \<open>n\<close> bytes one call transfers: at least one of them when it succeeds.\<close>

definition transferred :: "outcome \<Rightarrow> nat \<Rightarrow> nat" where
  "transferred r n = (case r of Short k \<Rightarrow> min n (max 1 k) | _ \<Rightarrow> n)"

lemma transferred_le [simp]: "transferred r n \<le> n"
  by (cases r) (simp_all add: transferred_def)

lemma transferred_pos [simp]: "0 < transferred r n \<longleftrightarrow> 0 < n"
  by (cases r) (auto simp: transferred_def)

lemma transferred_0: "transferred r n = 0 \<longleftrightarrow> n = 0"
  by (cases r) (auto simp: transferred_def)

definition new_fd :: "nat \<Rightarrow> ('w os_world_scheme, nat) io" where
  "new_fd i =
     (\<lambda>w. (Inr (next_fd w),
           w\<lparr>fds := (fds w)(next_fd w \<mapsto> \<lparr>of_inode = i, of_pos = 0\<rparr>),
             next_fd := Suc (next_fd w)\<rparr>))"

text \<open>\<open>os.open(path, O_RDONLY | O_NOFOLLOW)\<close>.\<close>

definition sys_open_read :: "path \<Rightarrow> ('w os_world_scheme, nat) io" where
  "sys_open_read p = syscall (\<lambda>_ w.
     case lookup (fs w) p of
       None \<Rightarrow> (Inl (OSError ENOENT), w)
     | Some i \<Rightarrow>
         if kind (inodes (fs w) i) = Symlink then (Inl (OSError ELOOP), w) else new_fd i w)"

text \<open>\<open>os.open(path, O_WRONLY | O_CREAT | O_EXCL | O_NOFOLLOW, mode)\<close>.\<close>

definition sys_create :: "path \<Rightarrow> perms \<Rightarrow> ('w os_world_scheme, nat) io" where
  "sys_create p m = syscall (\<lambda>_ w.
     case lookup (fs w) p of
       Some _ \<Rightarrow> (Inl (OSError EEXIST), w)
     | None \<Rightarrow>
         (case file_at (fs w) (butlast p) of
            None \<Rightarrow> (Inl (OSError ENOENT), w)
          | Some d \<Rightarrow>
              if kind d \<noteq> Directory then (Inl (OSError ENOTDIR), w)
              else
                (let i = next_ino (fs w);
                     n = \<lparr>kind = Regular, content = [], durable = [], mode = m AND NOT (umask w)\<rparr>
                 in new_fd i
                      (w\<lparr>fs := put_entry p i (put_inode i n (fs w\<lparr>next_ino := Suc i\<rparr>))\<rparr>))))"

text \<open>\<open>os.open(path, O_RDWR | O_CREAT, mode)\<close>, which follows a symbolic link.\<close>

definition sys_open_create :: "path \<Rightarrow> perms \<Rightarrow> ('w os_world_scheme, nat) io" where
  "sys_open_create p m = syscall (\<lambda>_ w.
     case links (fs w) p of
       None \<Rightarrow> (Inl (OSError ELOOP), w)
     | Some q \<Rightarrow>
         (case (lookup (fs w) q, file_at (fs w) (butlast q)) of
            (Some i, _) \<Rightarrow>
              if kind (inodes (fs w) i) = Directory then (Inl (OSError EISDIR), w) else new_fd i w
          | (None, None) \<Rightarrow> (Inl (OSError ENOENT), w)
          | (None, Some d) \<Rightarrow>
              if kind d \<noteq> Directory then (Inl (OSError ENOTDIR), w)
              else
                (let i = next_ino (fs w);
                     n = \<lparr>kind = Regular, content = [], durable = [], mode = m AND NOT (umask w)\<rparr>
                 in new_fd i
                      (w\<lparr>fs := put_entry q i (put_inode i n (fs w\<lparr>next_ino := Suc i\<rparr>))\<rparr>))))"

text \<open>A call on a descriptor gets its open file; a closed one is \<open>EBADF\<close>.\<close>

definition on_fd ::
  "nat \<Rightarrow> (outcome \<Rightarrow> open_file \<Rightarrow> ('w os_world_scheme, 'a) io) \<Rightarrow> ('w os_world_scheme, 'a) io"
where
  "on_fd d body = syscall (\<lambda>r w.
     case fds w d of None \<Rightarrow> (Inl (OSError EBADF), w) | Some h \<Rightarrow> body r h w)"

definition sys_read :: "nat \<Rightarrow> nat \<Rightarrow> ('w os_world_scheme, bytes) io" where
  "sys_read d n = on_fd d (\<lambda>r h w.
     (let data = take (transferred r n) (drop (of_pos h) (content (inodes (fs w) (of_inode h))))
      in (Inr data, w\<lparr>fds := (fds w)(d \<mapsto> h\<lparr>of_pos := of_pos h + length data\<rparr>)\<rparr>)))"

text \<open>Bytes written at an offset; a gap before it reads as zeros.\<close>

definition overlay :: "nat \<Rightarrow> bytes \<Rightarrow> bytes \<Rightarrow> bytes" where
  "overlay pos data old =
     take pos old @ replicate (pos - length old) 0 @ data @ drop (pos + length data) old"

lemma overlay_end [simp]: "overlay (length old) data old = old @ data"
  by (simp add: overlay_def)

definition sys_write :: "nat \<Rightarrow> bytes \<Rightarrow> ('w os_world_scheme, nat) io" where
  "sys_write d data = on_fd d (\<lambda>r h w.
     (let n = transferred r (length data);
          i = of_inode h;
          ino = inodes (fs w) i
      in (Inr n,
          w\<lparr>fs := put_inode i (ino\<lparr>content := overlay (of_pos h) (take n data) (content ino)\<rparr>) (fs w),
            fds := (fds w)(d \<mapsto> h\<lparr>of_pos := of_pos h + n\<rparr>)\<rparr>)))"

text \<open>\<open>fsync\<close> of a file; that of a directory persists entries, which the model does not track.\<close>

definition sys_fsync :: "nat \<Rightarrow> ('w os_world_scheme, unit) io" where
  "sys_fsync d = on_fd d (\<lambda>_ h w.
     (let ino = inodes (fs w) (of_inode h)
      in (Inr (), if kind ino \<noteq> Regular then w
                  else w\<lparr>fs := put_inode (of_inode h) (ino\<lparr>durable := content ino\<rparr>) (fs w)\<rparr>)))"

definition sys_fstat :: "nat \<Rightarrow> ('w os_world_scheme, stat_result) io" where
  "sys_fstat d = on_fd d (\<lambda>_ h w. (Inr (stat_of (inodes (fs w) (of_inode h))), w))"

definition sys_fchmod :: "nat \<Rightarrow> perms \<Rightarrow> ('w os_world_scheme, unit) io" where
  "sys_fchmod d m = on_fd d (\<lambda>_ h w.
     (let ino = inodes (fs w) (of_inode h)
      in (Inr (), w\<lparr>fs := put_inode (of_inode h) (ino\<lparr>mode := m\<rparr>) (fs w)\<rparr>)))"

text \<open>\<open>os.set_blocking\<close>: it can fail, and changes nothing the model holds.\<close>

definition sys_set_blocking :: "nat \<Rightarrow> ('w os_world_scheme, unit) io" where
  "sys_set_blocking d = on_fd d (\<lambda>_ _ w. (Inr (), w))"

text \<open>\<open>os.close\<close> releases the descriptor even when it reports an error.\<close>

definition sys_close :: "nat \<Rightarrow> ('w os_world_scheme, unit) io" where
  "sys_close d =
     (\<lambda>w. syscall (\<lambda>_ w'. if fds w d = None then (Inl (OSError EBADF), w') else (Inr (), w'))
            (w\<lparr>fds := (fds w)(d := None)\<rparr>))"

text \<open>\<open>os.stat(path)\<close>, which follows a symbolic link.\<close>

definition sys_stat :: "path \<Rightarrow> ('w os_world_scheme, stat_result) io" where
  "sys_stat p = syscall (\<lambda>_ w.
     case links (fs w) p of
       None \<Rightarrow> (Inl (OSError ELOOP), w)
     | Some q \<Rightarrow>
         (case file_at (fs w) q of
            None \<Rightarrow> (Inl (OSError ENOENT), w)
          | Some n \<Rightarrow> (Inr (stat_of n), w)))"

text \<open>\<open>os.link(source, target)\<close>: never replaces the target.\<close>

definition sys_link :: "path \<Rightarrow> path \<Rightarrow> ('w os_world_scheme, unit) io" where
  "sys_link source target = syscall (\<lambda>_ w.
     case lookup (fs w) source of
       None \<Rightarrow> (Inl (OSError ENOENT), w)
     | Some i \<Rightarrow>
         (case lookup (fs w) target of
            Some _ \<Rightarrow> (Inl (OSError EEXIST), w)
          | None \<Rightarrow> (Inr (), w\<lparr>fs := put_entry target i (fs w)\<rparr>)))"

text \<open>\<open>os.replace(source, target)\<close>; two names of one file stay as they are, as POSIX requires.\<close>

definition sys_replace :: "path \<Rightarrow> path \<Rightarrow> ('w os_world_scheme, unit) io" where
  "sys_replace source target = syscall (\<lambda>_ w.
     case lookup (fs w) source of
       None \<Rightarrow> (Inl (OSError ENOENT), w)
     | Some i \<Rightarrow>
         if lookup (fs w) target = Some i then (Inr (), w)
         else if map_option kind (file_at (fs w) target) = Some Directory
         then (Inl (OSError EISDIR), w)
         else (Inr (), w\<lparr>fs := drop_entry source (put_entry target i (fs w))\<rparr>))"

definition sys_unlink :: "path \<Rightarrow> ('w os_world_scheme, unit) io" where
  "sys_unlink p = syscall (\<lambda>_ w.
     case file_at (fs w) p of
       None \<Rightarrow> (Inl (OSError ENOENT), w)
     | Some n \<Rightarrow>
         if kind n = Directory then (Inl (OSError EISDIR), w)
         else (Inr (), w\<lparr>fs := drop_entry p (fs w)\<rparr>))"

definition sys_mkdir :: "path \<Rightarrow> perms \<Rightarrow> ('w os_world_scheme, unit) io" where
  "sys_mkdir p m = syscall (\<lambda>_ w.
     case lookup (fs w) p of
       Some _ \<Rightarrow> (Inl (OSError EEXIST), w)
     | None \<Rightarrow>
         (case file_at (fs w) (butlast p) of
            None \<Rightarrow> (Inl (OSError ENOENT), w)
          | Some d \<Rightarrow>
              if kind d \<noteq> Directory then (Inl (OSError ENOTDIR), w)
              else
                (let i = next_ino (fs w);
                     n = \<lparr>kind = Directory, content = [], durable = [], mode = m AND NOT (umask w)\<rparr>
                 in (Inr (), w\<lparr>fs := put_entry p i (put_inode i n (fs w\<lparr>next_ino := Suc i\<rparr>))\<rparr>))))"

text \<open>
  \<open>os.scandir(path)\<close> as \<open>(entry.name, entry.is_file(follow_symlinks=False))\<close> pairs. A fault ends
  the iteration with the error: the call takes a tick, and so does the iteration.
\<close>

definition children :: "fs \<Rightarrow> path \<Rightarrow> (pystr \<times> bool) list" where
  "children f p =
     map (\<lambda>(q, i). (last q, kind (inodes f i) = Regular))
       (filter (\<lambda>(q, i). q \<noteq> [] \<and> butlast q = p) (dirents f))"

definition scan_iterator ::
  "(pystr \<times> bool) list \<Rightarrow> ('w os_world_scheme, (pystr \<times> bool) result list) io" where
  "scan_iterator es =
     try_except
       (syscall (\<lambda>r w.
          (Inr (case r of Short k \<Rightarrow> map Inr (take k es) @ [Inl (OSError EIO)] | _ \<Rightarrow> map Inr es), w)))
       (\<lambda>e. ret [Inl e])"

definition sys_scandir :: "path \<Rightarrow> ('w os_world_scheme, (pystr \<times> bool) result list) io" where
  "sys_scandir p =
     bind (syscall (\<lambda>_ w.
             case file_at (fs w) p of
               None \<Rightarrow> (Inl (OSError ENOENT), w)
             | Some n \<Rightarrow>
                 if kind n \<noteq> Directory then (Inl (OSError ENOTDIR), w)
                 else (Inr (children (fs w) p), w)))
       scan_iterator"

text \<open>\<open>str(uuid4())\<close> of the next of the random numbers the system gives.\<close>

definition uuid4 :: "('w os_world_scheme, pystr) io" where
  "uuid4 = (\<lambda>w. case uuids w of
      [] \<Rightarrow> (Inr (uuid_str 0), w)
    | u # us \<Rightarrow> (Inr (uuid_str u), w\<lparr>uuids := us\<rparr>))"

definition warning :: "string \<Rightarrow> ('w os_world_scheme, unit) io" where
  "warning event = modify (\<lambda>w. w\<lparr>log := event # log w\<rparr>)"

text \<open>\<open>except OSError\<close>, and \<open>with suppress(OSError)\<close>.\<close>

fun on_oserror :: "(errno \<Rightarrow> exn) \<Rightarrow> exn \<Rightarrow> exn" where
  "on_oserror f (OSError n) = f n"
| "on_oserror f e = e"

definition suppress_oserror :: "('w, unit) io \<Rightarrow> ('w, unit) io" where
  "suppress_oserror m = try_except m (\<lambda>e. case e of OSError _ \<Rightarrow> ret () | _ \<Rightarrow> raise e)"

section \<open>Paths (pathlib, Python 3.12)\<close>

text \<open>\<open>Path.resolve(strict=True)\<close>: a loop is a RuntimeError, a missing file ENOENT.\<close>

definition path_resolve_strict :: "path \<Rightarrow> ('w os_world_scheme, path) io" where
  "path_resolve_strict p = syscall (\<lambda>_ w.
     case links (fs w) p of
       None \<Rightarrow> (Inl (PyError ''RuntimeError''), w)
     | Some q \<Rightarrow>
         if lookup (fs w) q = None then (Inl (OSError ENOENT), w) else (Inr q, w))"

text \<open>
  \<open>Path.resolve()\<close>: a component it cannot read is taken as it is, so a fault leaves the path
  unresolved; only a loop raises.
\<close>

definition path_resolve :: "path \<Rightarrow> ('w os_world_scheme, path) io" where
  "path_resolve p =
     try_except
       (syscall (\<lambda>_ w. case links (fs w) p of
          None \<Rightarrow> (Inl (PyError ''RuntimeError''), w) | Some q \<Rightarrow> (Inr q, w)))
       (\<lambda>e. case e of
          OSError n \<Rightarrow> if n = ELOOP then raise (PyError ''RuntimeError'') else ret p
        | _ \<Rightarrow> raise e)"

text \<open>\<open>Path.is_dir()\<close>: of the errors of \<open>stat\<close> it ignores four and raises the others.\<close>

definition ignored_errnos :: "errno set" where
  "ignored_errnos = {ENOENT, ENOTDIR, EBADF, ELOOP}"

definition path_is_dir :: "path \<Rightarrow> ('w os_world_scheme, bool) io" where
  "path_is_dir p =
     try_except (bind (sys_stat p) (\<lambda>st. ret (st_kind st = Directory)))
       (\<lambda>e. case e of
          OSError n \<Rightarrow> if n \<in> ignored_errnos then ret False else raise e
        | _ \<Rightarrow> raise e)"

text \<open>\<open>Path.exists()\<close>, with the same four errors ignored.\<close>

definition path_exists :: "path \<Rightarrow> ('w os_world_scheme, bool) io" where
  "path_exists p =
     try_except (bind (sys_stat p) (\<lambda>_. ret True))
       (\<lambda>e. case e of
          OSError n \<Rightarrow> if n \<in> ignored_errnos then ret False else raise e
        | _ \<Rightarrow> raise e)"

text \<open>\<open>Path.is_relative_to(root)\<close> of absolute paths.\<close>

definition is_relative_to :: "path \<Rightarrow> path \<Rightarrow> bool" where
  "is_relative_to p root \<longleftrightarrow> take (length root) p = root"

text \<open>\<open>Path.mkdir(mode, parents, exist_ok)\<close>; missing parents get the default mode.\<close>

function path_mkdir :: "path \<Rightarrow> perms \<Rightarrow> bool \<Rightarrow> bool \<Rightarrow> ('w os_world_scheme, unit) io" where
  "path_mkdir p m parents exist_ok =
     try_except (sys_mkdir p m)
       (\<lambda>e. if e = OSError ENOENT then
              (if \<not> parents \<or> p = [] then raise e
               else bind (path_mkdir (butlast p) 511 True True) (\<lambda>_. path_mkdir p m False exist_ok))
            else if \<not> exist_ok then raise e
            else bind (path_is_dir p) (\<lambda>d. if d then ret () else raise e))"
  by pat_completeness auto
termination
  by (relation "measures [\<lambda>(p, _, _, _). length p, \<lambda>(_, _, parents, _). if parents then 1 else 0]") auto

declare path_mkdir.simps [simp del]

text \<open>
  \<open>Path(text)\<close> made absolute: a leading slash starts at the root, any other text at the working
  directory; empty and \<open>.\<close> components are dropped. \<open>expanduser\<close> replaces a first component
  \<open>~user\<close> of a path without a root.
\<close>

definition components :: "pystr \<Rightarrow> path" where
  "components text = filter (\<lambda>c. c \<noteq> [] \<and> c \<noteq> lit ''.'') (split_on 47 text)"

definition path_of_text :: "pystr \<Rightarrow> ('w os_world_scheme, path) io" where
  "path_of_text text =
     (\<lambda>w. (Inr (if startswith text [47] then components text else cwd w @ components text), w))"

definition names_home :: "pystr \<Rightarrow> bool" where
  "names_home text \<longleftrightarrow>
     \<not> startswith text [47] \<and> (case components text of [] \<Rightarrow> False | c # _ \<Rightarrow> startswith c [126])"

definition expanduser :: "pystr \<Rightarrow> ('w os_world_scheme, path) io" where
  "expanduser text =
     (if names_home text then
        (\<lambda>w. case home w (tl (hd (components text))) of
           None \<Rightarrow> (Inl (PyError ''RuntimeError''), w)
         | Some h \<Rightarrow> (Inr (h @ tl (components text)), w))
      else path_of_text text)"

text \<open>\<open>str(path)\<close> of an absolute path.\<close>

definition path_text :: "path \<Rightarrow> pystr" where
  "path_text p = (if p = [] then [47] else concat (map (\<lambda>c. 47 # c) p))"

section \<open>Undisturbed runs\<close>

text \<open>
  In a calm world no other process changes the file system; calls may still fail or transfer less.
  A fault is no ENOENT: that error says that the file is not there, which the state decides.
\<close>

definition calm :: "'w os_world_scheme \<Rightarrow> bool" where
  "calm w \<longleftrightarrow> (\<forall>t\<in>set (ticks w). interfere t = (\<lambda>f. f) \<and> outcome t \<noteq> Fail ENOENT)"

definition advance :: "'w os_world_scheme \<Rightarrow> 'w os_world_scheme" where
  "advance w = (case ticks w of [] \<Rightarrow> w | _ # ts \<Rightarrow> w\<lparr>ticks := ts\<rparr>)"

definition next_outcome :: "'w os_world_scheme \<Rightarrow> outcome" where
  "next_outcome w = (case ticks w of [] \<Rightarrow> Proceed | t # _ \<Rightarrow> outcome t)"

lemma advance_sel [simp]:
  "fs (advance w) = fs w" "fds (advance w) = fds w" "next_fd (advance w) = next_fd w"
  "ticks (advance w) = tl (ticks w)" "uuids (advance w) = uuids w" "umask (advance w) = umask w"
  "cwd (advance w) = cwd w" "home (advance w) = home w" "log (advance w) = log w"
  by (simp_all add: advance_def split: list.splits)

lemma calm_advance [simp]: "calm w \<Longrightarrow> calm (advance w)"
  by (cases "ticks w") (auto simp: calm_def)

lemma advance_update [simp]:
  "advance (w\<lparr>fds := d\<rparr>) = (advance w)\<lparr>fds := d\<rparr>"
  by (simp add: advance_def split: list.splits)

lemma next_outcome_update [simp]: "next_outcome (w\<lparr>fds := d\<rparr>) = next_outcome w"
  by (simp add: next_outcome_def)

lemma next_outcome_calm: "calm w \<Longrightarrow> next_outcome w \<noteq> Fail ENOENT"
  by (cases "ticks w") (auto simp: calm_def next_outcome_def)

lemma calm_update [simp]:
  "calm (w\<lparr>fs := f\<rparr>) = calm w" "calm (w\<lparr>fds := d\<rparr>) = calm w"
  "calm (w\<lparr>next_fd := n\<rparr>) = calm w" "calm (w\<lparr>uuids := us\<rparr>) = calm w"
  "calm (w\<lparr>log := l\<rparr>) = calm w"
  by (simp_all add: calm_def)

lemma syscall_calm:
  "calm w \<Longrightarrow>
   syscall body w =
     (case next_outcome w of Fail e \<Rightarrow> (Inl (OSError e), advance w) | r \<Rightarrow> body r (advance w))"
  by (cases "ticks w")
    (auto simp: syscall_def calm_def advance_def next_outcome_def Let_def split: outcome.splits)

text \<open>The descriptor calls of a calm world, case by case.\<close>

lemma on_fd_calm:
  assumes "calm w" "fds w d = Some h" "on_fd d body w = (x, w')"
  obtains (fail) e where "x = Inl (OSError e)" "w' = advance w"
  | (ok) r where "body r h (advance w) = (x, w')"
  using assms by (auto simp: on_fd_def syscall_calm split: outcome.splits)

lemma sys_read_calm:
  assumes "calm w" "fds w d = Some h" "sys_read d n w = (x, w')"
  obtains (fail) e where "x = Inl (OSError e)" "w' = advance w"
  | (ok) r data where
      "data = take (transferred r n) (drop (of_pos h) (content (inodes (fs w) (of_inode h))))"
      "x = Inr data"
      "w' = (advance w)\<lparr>fds := (fds w)(d \<mapsto> h\<lparr>of_pos := of_pos h + length data\<rparr>)\<rparr>"
  using assms unfolding sys_read_def by (elim on_fd_calm) (auto simp: Let_def)

lemma sys_write_calm:
  assumes "calm w" "fds w d = Some h" "sys_write d data w = (x, w')"
  obtains (fail) e where "x = Inl (OSError e)" "w' = advance w"
  | (ok) n where "n \<le> length data" "data \<noteq> [] \<Longrightarrow> 0 < n" "x = Inr n"
      "w' = (advance w)\<lparr>fs := put_inode (of_inode h)
               ((inodes (fs w) (of_inode h))\<lparr>content :=
                  overlay (of_pos h) (take n data) (content (inodes (fs w) (of_inode h)))\<rparr>) (fs w),
             fds := (fds w)(d \<mapsto> h\<lparr>of_pos := of_pos h + n\<rparr>)\<rparr>"
  using assms(1,2) assms(3) [unfolded sys_write_def]
proof (cases rule: on_fd_calm)
  case (ok r)
  then show ?thesis
    by (intro that(2) [of "transferred r (length data)"]) (simp_all add: Let_def)
qed (rule that(1))

lemma sys_fsync_calm:
  assumes "calm w" "fds w d = Some h" "sys_fsync d w = (x, w')"
  obtains (fail) e where "x = Inl (OSError e)" "w' = advance w"
  | (synced) "kind (inodes (fs w) (of_inode h)) = Regular" "x = Inr ()"
      "w' = (advance w)\<lparr>fs := put_inode (of_inode h) ((inodes (fs w) (of_inode h))
               \<lparr>durable := content (inodes (fs w) (of_inode h))\<rparr>) (fs w)\<rparr>"
  | (other) "kind (inodes (fs w) (of_inode h)) \<noteq> Regular" "x = Inr ()" "w' = advance w"
  using assms unfolding sys_fsync_def
  by (elim on_fd_calm) (auto simp: Let_def split: if_splits)

lemma sys_fstat_calm:
  assumes "calm w" "fds w d = Some h" "sys_fstat d w = (x, w')"
  obtains (fail) e where "x = Inl (OSError e)" "w' = advance w"
  | (ok) "x = Inr (stat_of (inodes (fs w) (of_inode h)))" "w' = advance w"
  using assms unfolding sys_fstat_def by (elim on_fd_calm) auto

lemma sys_fchmod_calm:
  assumes "calm w" "fds w d = Some h" "sys_fchmod d m w = (x, w')"
  obtains (fail) e where "x = Inl (OSError e)" "w' = advance w"
  | (ok) "x = Inr ()"
      "w' = (advance w)\<lparr>fs := put_inode (of_inode h)
               ((inodes (fs w) (of_inode h))\<lparr>mode := m\<rparr>) (fs w)\<rparr>"
  using assms unfolding sys_fchmod_def by (elim on_fd_calm) (auto simp: Let_def)

lemma sys_close_calm:
  assumes "calm w" "sys_close d w = (x, w')"
  shows "w' = (advance w)\<lparr>fds := (fds w)(d := None)\<rparr> \<and> (x = Inr () \<or> (\<exists>e. x = Inl (OSError e)))"
  using assms
  by (auto simp: sys_close_def syscall_calm split: outcome.splits if_splits)

lemma sys_link_calm:
  assumes "calm w" "sys_link source target w = (x, w')"
  obtains (fail) e where "x = Inl (OSError e)" "w' = advance w"
  | (ok) i where "lookup (fs w) source = Some i" "lookup (fs w) target = None" "x = Inr ()"
      "w' = (advance w)\<lparr>fs := put_entry target i (fs w)\<rparr>"
  using assms unfolding sys_link_def syscall_calm [OF assms(1)]
  by (auto split: outcome.splits option.splits)

lemma sys_replace_calm:
  assumes "calm w" "sys_replace source target w = (x, w')"
  obtains (fail) e where "x = Inl (OSError e)" "w' = advance w"
  | (same) i where "lookup (fs w) source = Some i" "lookup (fs w) target = Some i" "x = Inr ()"
      "w' = advance w"
  | (ok) i where "lookup (fs w) source = Some i" "lookup (fs w) target \<noteq> Some i" "x = Inr ()"
      "w' = (advance w)\<lparr>fs := drop_entry source (put_entry target i (fs w))\<rparr>"
  using assms unfolding sys_replace_def syscall_calm [OF assms(1)]
  by (auto split: outcome.splits option.splits if_splits)

lemma sys_unlink_calm:
  assumes "calm w" "sys_unlink p w = (x, w')"
  obtains (fail) e where "x = Inl (OSError e)" "w' = advance w"
      "e = ENOENT \<Longrightarrow> lookup (fs w) p = None"
  | (ok) "x = Inr ()" "w' = (advance w)\<lparr>fs := drop_entry p (fs w)\<rparr>"
  using assms(2) next_outcome_calm [OF assms(1)] unfolding sys_unlink_def syscall_calm [OF assms(1)]
  by (auto simp: file_at_def split: outcome.splits option.splits if_splits)

lemma sys_open_read_calm:
  assumes "calm w" "sys_open_read p w = (x, w')"
  obtains (fail) e where "x = Inl (OSError e)" "w' = advance w"
  | (ok) i where "lookup (fs w) p = Some i" "x = Inr (next_fd w)"
      "w' = (advance w)\<lparr>fds := (fds w)(next_fd w \<mapsto> \<lparr>of_inode = i, of_pos = 0\<rparr>),
                        next_fd := Suc (next_fd w)\<rparr>"
  using assms(2) unfolding sys_open_read_def syscall_calm [OF assms(1)]
  by (auto simp: new_fd_def split: outcome.splits option.splits if_splits)

lemma sys_create_calm:
  assumes "calm w" "sys_create p m w = (x, w')"
  obtains (fail) e where "x = Inl (OSError e)" "w' = advance w"
  | (ok) i n where "lookup (fs w) p = None" "map_option kind (file_at (fs w) (butlast p)) = Some Directory"
      "i = next_ino (fs w)" "x = Inr (next_fd w)"
      "n = \<lparr>kind = Regular, content = [], durable = [], mode = m AND NOT (umask w)\<rparr>"
      "w' = (advance w)\<lparr>fs := put_entry p i (put_inode i n (fs w\<lparr>next_ino := Suc i\<rparr>)),
               fds := (fds w)(next_fd w \<mapsto> \<lparr>of_inode = i, of_pos = 0\<rparr>),
               next_fd := Suc (next_fd w)\<rparr>"
  using assms(2) unfolding sys_create_def syscall_calm [OF assms(1)]
  by (auto simp: new_fd_def Let_def split: outcome.splits option.splits if_splits)

text \<open>
  A statement that inspects: in a calm world it changes the schedule and nothing else.
\<close>

definition inspects :: "('w os_world_scheme, 'a) io \<Rightarrow> bool" where
  "inspects m \<longleftrightarrow> (\<forall>w. calm w \<longrightarrow> calm (snd (m w)) \<and> (\<exists>ts. snd (m w) = w\<lparr>ticks := ts\<rparr>))"

named_theorems inspects_rules \<open>one rule per statement form\<close>

lemma inspectsD:
  "inspects m \<Longrightarrow> calm w \<Longrightarrow> m w = (x, w') \<Longrightarrow> calm w' \<and> (\<exists>ts. w' = w\<lparr>ticks := ts\<rparr>)"
  by (metis inspects_def snd_conv)

lemma same_world: "\<exists>ts. w = w\<lparr>ticks := ts\<rparr>" for w :: "'w os_world_scheme"
  by (rule exI [of _ "ticks w"]) simp

lemma inspects_ret [inspects_rules]: "inspects (ret x)"
  by (auto simp: inspects_def intro: same_world)

lemma inspects_raise [inspects_rules]: "inspects (raise e)"
  by (auto simp: inspects_def intro: same_world)

lemma inspects_of_result [inspects_rules]: "inspects (of_result r)"
  by (auto simp: inspects_def intro: same_world)

lemma inspects_bind [inspects_rules]:
  assumes "inspects m" "\<And>x. inspects (f x)"
  shows "inspects (bind m f)"
  unfolding inspects_def
proof (intro allI impI)
  fix w :: "'a os_world_scheme" assume w: "calm w"
  obtain r w1 where m: "m w = (r, w1)" by force
  with inspectsD [OF assms(1) w m] obtain ts where w1: "calm w1" "w1 = w\<lparr>ticks := ts\<rparr>" by blast
  show "calm (snd (bind m f w)) \<and> (\<exists>ts. snd (bind m f w) = w\<lparr>ticks := ts\<rparr>)"
  proof (cases r)
    case (Inl e)
    with m w1 show ?thesis by (auto simp: bind_apply)
  next
    case (Inr x)
    obtain r2 w2 where f: "f x w1 = (r2, w2)" by force
    from inspectsD [OF assms(2) w1(1) f] w1(2) m Inr f show ?thesis by (auto simp: bind_apply)
  qed
qed

lemma inspects_try_except [inspects_rules]:
  assumes "inspects m" "\<And>e. inspects (h e)"
  shows "inspects (try_except m h)"
  unfolding inspects_def
proof (intro allI impI)
  fix w :: "'a os_world_scheme" assume w: "calm w"
  obtain r w1 where m: "m w = (r, w1)" by force
  with inspectsD [OF assms(1) w m] obtain ts where w1: "calm w1" "w1 = w\<lparr>ticks := ts\<rparr>" by blast
  show "calm (snd (try_except m h w)) \<and> (\<exists>ts. snd (try_except m h w) = w\<lparr>ticks := ts\<rparr>)"
  proof (cases r)
    case (Inr x)
    with m w1 show ?thesis by (auto simp: try_except_def)
  next
    case (Inl e)
    obtain r2 w2 where h: "h e w1 = (r2, w2)" by force
    from inspectsD [OF assms(2) w1(1) h] w1(2) m Inl h show ?thesis by (auto simp: try_except_def)
  qed
qed

lemma inspects_translate [inspects_rules]: "inspects m \<Longrightarrow> inspects (translate f m)"
  unfolding translate_def by (intro inspects_rules)

lemma inspects_if [inspects_rules]:
  "inspects m \<Longrightarrow> inspects m' \<Longrightarrow> inspects (if b then m else m')"
  by simp

lemma inspects_only_if [inspects_rules]: "inspects m \<Longrightarrow> inspects (only_if b m)"
  unfolding only_if_def by (intro inspects_rules)

lemma inspects_option [inspects_rules]:
  "inspects m \<Longrightarrow> (\<And>y. inspects (f y)) \<Longrightarrow> inspects (case x of None \<Rightarrow> m | Some y \<Rightarrow> f y)"
  by (cases x) simp_all

lemma inspects_prod [inspects_rules]:
  "(\<And>a b. inspects (f a b)) \<Longrightarrow> inspects (case x of (a, b) \<Rightarrow> f a b)"
  by (cases x) simp_all

lemma inspects_exn [inspects_rules]:
  "inspects m \<Longrightarrow> (\<And>n. inspects (f n)) \<Longrightarrow>
   inspects (case e of OSError n \<Rightarrow> f n | _ \<Rightarrow> m)"
  by (cases e) simp_all

lemma inspects_syscall:
  assumes "\<And>r w. snd (body r w) = w"
  shows "inspects (syscall body)"
proof -
  have "\<exists>ts. advance w = w\<lparr>ticks := ts\<rparr>" for w :: "'a os_world_scheme"
    by (cases "ticks w") (auto simp: advance_def intro: exI [of _ "ticks w"])
  with assms show ?thesis
    by (auto simp: inspects_def syscall_calm split: outcome.splits)
qed

lemma inspects_sys_stat [inspects_rules]: "inspects (sys_stat p)"
  unfolding sys_stat_def by (rule inspects_syscall) (simp split: option.splits)

lemma inspects_on_fd: "(\<And>r h w. snd (body r h w) = w) \<Longrightarrow> inspects (on_fd d body)"
  unfolding on_fd_def by (rule inspects_syscall) (simp split: option.splits)

lemma inspects_sys_fstat [inspects_rules]: "inspects (sys_fstat d)"
  unfolding sys_fstat_def by (rule inspects_on_fd) simp

lemma inspects_sys_set_blocking [inspects_rules]: "inspects (sys_set_blocking d)"
  unfolding sys_set_blocking_def by (rule inspects_on_fd) simp

lemma inspects_path_resolve_strict [inspects_rules]: "inspects (path_resolve_strict p)"
  unfolding path_resolve_strict_def by (rule inspects_syscall) (simp split: option.splits)

lemma inspects_path_resolve [inspects_rules]: "inspects (path_resolve p)"
  unfolding path_resolve_def
  by (intro inspects_rules inspects_syscall) (simp split: option.splits)

lemma inspects_path_is_dir [inspects_rules]: "inspects (path_is_dir p)"
  unfolding path_is_dir_def by (intro inspects_rules)

lemma inspects_path_of_text [inspects_rules]: "inspects (path_of_text t)"
  by (auto simp: inspects_def path_of_text_def intro: same_world)

lemma inspects_scan_iterator [inspects_rules]: "inspects (scan_iterator es)"
  unfolding scan_iterator_def by (intro inspects_rules inspects_syscall) simp

lemma inspects_sys_scandir [inspects_rules]: "inspects (sys_scandir p)"
  unfolding sys_scandir_def
  by (intro inspects_rules inspects_syscall) (auto split: option.splits)

section \<open>The exceptions of system calls\<close>

fun is_oserror :: "exn \<Rightarrow> bool" where
  "is_oserror (OSError _) = True"
| "is_oserror _ = False"

text \<open>A path operation raises an OSError, or a RuntimeError for a loop of links.\<close>

fun is_path_error :: "exn \<Rightarrow> bool" where
  "is_path_error (OSError _) = True"
| "is_path_error (PyError s) = (s = ''RuntimeError'')"
| "is_path_error _ = False"

lemma raises_syscall: "(\<And>r. raises P (body r)) \<Longrightarrow> (\<And>n. P (OSError n)) \<Longrightarrow> raises P (syscall body)"
  by (fastforce simp: raises_def syscall_def Let_def split: list.splits outcome.splits)

lemma raises_on_fd:
  "(\<And>r h. raises P (body r h)) \<Longrightarrow> (\<And>n. P (OSError n)) \<Longrightarrow> raises P (on_fd d body)"
  unfolding on_fd_def
  by (rule raises_syscall) (auto simp: raises_def split: option.splits)

lemma raises_sys [raises_rules]:
  "raises is_oserror (sys_open_read p)" "raises is_oserror (sys_create p m)"
  "raises is_oserror (sys_read d n)" "raises is_oserror (sys_write d data)"
  "raises is_oserror (sys_fsync d)" "raises is_oserror (sys_fstat d)"
  "raises is_oserror (sys_fchmod d m)" "raises is_oserror (sys_set_blocking d)"
  "raises is_oserror (sys_stat p)" "raises is_oserror (sys_link p q)"
  "raises is_oserror (sys_replace p q)" "raises is_oserror (sys_unlink p)"
  "raises is_oserror (sys_mkdir p m)" "raises is_oserror (sys_open_create p m)"
  unfolding sys_open_read_def sys_create_def sys_read_def sys_write_def sys_fsync_def sys_fstat_def
    sys_fchmod_def sys_set_blocking_def sys_stat_def sys_link_def sys_replace_def sys_unlink_def
    sys_mkdir_def sys_open_create_def
  by (rule raises_syscall raises_on_fd;
      auto simp: raises_def new_fd_def Let_def split: option.splits if_splits)+

lemma raises_sys_close [raises_rules]: "raises is_oserror (sys_close d)"
  by (fastforce simp: raises_def sys_close_def syscall_def Let_def
      split: list.splits outcome.splits if_splits)

lemma raises_scan_iterator [raises_rules]: "raises P (scan_iterator es)"
  by (fastforce simp: raises_def scan_iterator_def try_except_def split: prod.splits sum.splits)

lemma raises_sys_scandir [raises_rules]: "raises is_oserror (sys_scandir p)"
  unfolding sys_scandir_def
  by (rule raises_bind [OF raises_syscall raises_scan_iterator])
    (auto simp: raises_def split: option.splits)

text \<open>What the iteration of a scan raises is an OSError too.\<close>

lemma scan_iterator_entries:
  "scan_iterator es w = (Inr xs, w') \<Longrightarrow> Inl e \<in> set xs \<Longrightarrow> is_oserror e"
  by (auto simp: scan_iterator_def try_except_def syscall_def Let_def
      split: list.splits outcome.splits prod.splits sum.splits)

lemma sys_scandir_entries:
  "sys_scandir p w = (Inr xs, w') \<Longrightarrow> Inl e \<in> set xs \<Longrightarrow> is_oserror e"
  unfolding sys_scandir_def bind_eq_Inr by (blast dest: scan_iterator_entries)

lemma raises_suppress_oserror [raises_rules]:
  "raises is_oserror m \<Longrightarrow> raises P (suppress_oserror m)"
  unfolding suppress_oserror_def
  by (erule raises_try_except) (auto simp: raises_def split: exn.splits)

lemma raises_warning [raises_rules]: "raises P (warning e)"
  unfolding warning_def by (rule raises_rules)

lemma raises_uuid4 [raises_rules]: "raises P uuid4"
  by (auto simp: raises_def uuid4_def split: list.splits)

lemma raises_path_of_text [raises_rules]: "raises P (path_of_text t)"
  by (auto simp: raises_def path_of_text_def)

lemma raises_path_resolve_strict [raises_rules]: "raises is_path_error (path_resolve_strict p)"
  unfolding path_resolve_strict_def
  by (rule raises_syscall) (auto simp: raises_def split: option.splits if_splits)

lemma raises_path_resolve [raises_rules]: "raises is_path_error (path_resolve p)"
  unfolding path_resolve_def
  by (rule raises_try_except, rule raises_syscall [where P = is_path_error])
    (auto simp: raises_def split: option.splits exn.splits)

text \<open>\<open>is_dir\<close> lets every OSError but the four through.\<close>

definition escapes_is_dir :: "exn \<Rightarrow> bool" where
  "escapes_is_dir e \<longleftrightarrow> (\<exists>n. e = OSError n \<and> n \<notin> ignored_errnos)"

lemma raises_path_is_dir [raises_rules]: "raises escapes_is_dir (path_is_dir p)"
  unfolding path_is_dir_def
  by (rule raises_try_except [where Q = is_oserror], intro raises_rules)
    (auto simp: raises_def escapes_is_dir_def split: exn.splits if_splits)

end
