(* ===== verification/Timestamps.thy ===== *)
theory Timestamps
  imports Effects "HOL-Library.List_Lexorder"
begin

text \<open>
  \<open>datetime.now(UTC).isoformat()\<close>, the text of every time in the database. SQLite orders the rows
  by this text, so its order must be that of time; the fraction is left out when it is zero.
\<close>

record datetime =
  d_year :: nat
  d_month :: nat
  d_day :: nat
  d_hour :: nat
  d_minute :: nat
  d_second :: nat
  d_micro :: nat

definition datetime_ok :: "datetime \<Rightarrow> bool" where
  "datetime_ok d \<longleftrightarrow> 1 \<le> d_year d \<and> d_year d \<le> 9999 \<and> 1 \<le> d_month d \<and> d_month d \<le> 12 \<and>
     1 \<le> d_day d \<and> d_day d \<le> days_in_month (d_year d) (d_month d) \<and> d_hour d < 24 \<and> d_minute d < 60 \<and> d_second d < 60 \<and>
     d_micro d < 1000000"

lemma days_in_month_le: "days_in_month y m \<le> 31"
  by (simp add: days_in_month_def)

text \<open>What a clock shows.\<close>

typedef instant = "{d. datetime_ok d}"
proof
  show "\<lparr>d_year = 1970, d_month = 1, d_day = 1, d_hour = 0, d_minute = 0, d_second = 0, d_micro = 0\<rparr> \<in> {d. datetime_ok d}"
    by (simp add: datetime_ok_def days_in_month_def)
qed

lemma instant_ok [simp]: "datetime_ok (Rep_instant d)"
  using Rep_instant [of d] by simp

definition earlier :: "datetime \<Rightarrow> datetime \<Rightarrow> bool" where
  "earlier d e \<longleftrightarrow>
     [d_year d, d_month d, d_day d, d_hour d, d_minute d, d_second d, d_micro d] <
     [d_year e, d_month e, d_day e, d_hour e, d_minute e, d_second e, d_micro e]"

text \<open>The last \<open>k\<close> decimal digits, as \<open>%0kd\<close> writes a number of at most \<open>k\<close> digits.\<close>

primrec dec_fixed :: "nat \<Rightarrow> nat \<Rightarrow> pystr" where
  "dec_fixed 0 n = []"
| "dec_fixed (Suc k) n = dec_fixed k (n div 10) @ [48 + n mod 10]"

definition isoformat :: "datetime \<Rightarrow> pystr" where
  "isoformat d =
     dec_fixed 4 (d_year d) @ [45] @ dec_fixed 2 (d_month d) @ [45] @ dec_fixed 2 (d_day d) @ [84] @
     dec_fixed 2 (d_hour d) @ [58] @ dec_fixed 2 (d_minute d) @ [58] @ dec_fixed 2 (d_second d) @
     (if d_micro d = 0 then [] else [46] @ dec_fixed 6 (d_micro d)) @ lit ''+00:00''"

lemma nat_of_dec_fixed [simp]: "nat_of_digits (dec_fixed k n) = n mod 10 ^ k"
proof (induction k arbitrary: n)
  case (Suc k)
  then show ?case by (simp add: mod_mult2_eq)
qed (simp add: nat_of_digits_def)

section \<open>The order of the text\<close>

lemma length_dec_fixed [simp]: "length (dec_fixed k n) = k"
  by (induction k arbitrary: n) simp_all

lemma append_less:
  "length a = length b \<Longrightarrow> a @ x < b @ (y :: 'a :: linorder list) \<longleftrightarrow> a < b \<or> a = b \<and> x < y"
  by (induction a b rule: list_induct2) (auto simp: Cons_less_Cons)

lemma dec_fixed_order:
  "m < 10 ^ k \<Longrightarrow> n < 10 ^ k \<Longrightarrow>
   (dec_fixed k m < dec_fixed k n \<longleftrightarrow> m < n) \<and> (dec_fixed k m = dec_fixed k n \<longleftrightarrow> m = n)"
proof (induction k arbitrary: m n)
  case (Suc k)
  then have div: "m div 10 < 10 ^ k" "n div 10 < 10 ^ k"
    by (simp_all add: less_mult_imp_div_less mult.commute)
  have "10 * a + r < 10 * b + s \<longleftrightarrow> a < b \<or> a = b \<and> r < s"
    "10 * a + r = 10 * b + s \<longleftrightarrow> a = b \<and> r = s" if "r < 10" "s < 10" for a b r s :: nat
    using that by arith+
  from this [of "m mod 10" "n mod 10" "m div 10" "n div 10"]
  have "m < n \<longleftrightarrow> m div 10 < n div 10 \<or> m div 10 = n div 10 \<and> m mod 10 < n mod 10"
    "m = n \<longleftrightarrow> m div 10 = n div 10 \<and> m mod 10 = n mod 10" by simp_all
  then show ?case using Suc.IH [OF div] by (simp add: append_less Cons_less_Cons)
qed simp

lemmas dec_fixed_less =
  dec_fixed_order [THEN conjunct1] dec_fixed_order [THEN conjunct2]

lemma isoformat_less:
  assumes "datetime_ok d" "datetime_ok e"
  shows "isoformat d < isoformat e \<longleftrightarrow> earlier d e"
proof -
  have fields: "d_year x < 10 ^ 4" "d_month x < 10 ^ 2" "d_day x < 10 ^ 2" "d_hour x < 10 ^ 2"
    "d_minute x < 10 ^ 2" "d_second x < 10 ^ 2" "d_micro x < 10 ^ 6" if "datetime_ok x" for x
    using that days_in_month_le [of "d_year x" "d_month x"] by (auto simp: datetime_ok_def)
  have tail: "(if a = 0 then [] else [46] @ dec_fixed 6 a) @ lit ''+00:00'' <
      (if b = 0 then [] else [46] @ dec_fixed 6 b) @ lit ''+00:00'' \<longleftrightarrow> a < b"
    if "a < 10 ^ 6" "b < 10 ^ 6" for a b :: nat
    using that dec_fixed_less [of a 6 b]
    by (auto simp: append_less Cons_less_Cons lit_Cons cp_def)
  show ?thesis
    unfolding isoformat_def earlier_def
    using fields [OF assms(1)] fields [OF assms(2)]
    by (simp add: append_less Cons_less_Cons dec_fixed_less tail del: append.simps(2))
qed

lemma isoformat_inject:
  assumes "datetime_ok d" "datetime_ok e" "isoformat d = isoformat e"
  shows "d = e"
proof -
  from assms have "\<not> earlier d e" "\<not> earlier e d"
    using isoformat_less [of d e] isoformat_less [of e d] by simp_all
  then have "[d_year d, d_month d, d_day d, d_hour d, d_minute d, d_second d, d_micro d] =
     [d_year e, d_month e, d_day e, d_hour e, d_minute e, d_second e, d_micro e]"
    unfolding earlier_def by (rule antisym_conv3 [THEN iffD1, rotated])
  then show ?thesis by simp
qed

end
