(* ===== verification/Json.thy ===== *)
theory Json
  imports Effects
begin

text \<open>
  The standard library's \<^verbatim>\<open>json\<close> as the source uses it: \<open>JSONDecoder.decode\<close> and \<open>raw_decode\<close>
  (the scanner of CPython 3.12, with its error messages and positions, on which the preview
  decides), \<open>loads\<close>, and \<open>dumps\<close> of a flat object.

  The scanner runs on the text that is left; a position is the length of the whole text less the
  length of what is left. A number that is not an integer keeps its literal.
\<close>

section \<open>Values and errors\<close>

datatype json =
    JNull
  | JBool bool
  | JInt int
  | JFloat pystr
  | JStr pystr
  | JArr "json list"
  | JObj "(pystr \<times> json) list"

text \<open>
  The messages of the decoder: \<^verbatim>\<open>Unterminated string starting at\<close>, \<^verbatim>\<open>Invalid \uXXXX escape\<close>,
  \<^verbatim>\<open>Invalid \escape\<close>, \<^verbatim>\<open>Invalid control character at\<close>, \<^verbatim>\<open>Expecting value\<close>,
  \<^verbatim>\<open>Expecting property name enclosed in double quotes\<close>, \<^verbatim>\<open>Expecting ':' delimiter\<close>,
  \<^verbatim>\<open>Expecting ',' delimiter\<close>, \<^verbatim>\<open>Extra data\<close>.
\<close>

datatype json_msg =
    Unterminated_string
  | Invalid_u_escape
  | Invalid_escape
  | Invalid_control_character
  | Expecting_value
  | Expecting_property_name
  | Expecting_colon
  | Expecting_comma
  | Extra_data

text \<open>A \<open>JSONDecodeError\<close> with its message and position, or what a hook raised.\<close>

datatype json_error =
    DecodeError (je_msg: json_msg) (je_pos: nat)
  | HookError exn
  | OutOfFuel

type_synonym 'a scan = "json_error + ('a \<times> pystr)"

text \<open>The hooks \<open>parse_float\<close>, \<open>parse_int\<close> and \<open>parse_constant\<close> of a decoder.\<close>

record hooks =
  parse_float :: "pystr \<Rightarrow> json result"
  parse_int :: "pystr \<Rightarrow> json result"
  parse_constant :: "pystr \<Rightarrow> json result"

text \<open>A dictionary keeps the place of a key's first and the value of its last occurrence.\<close>

fun dict_set :: "'k \<Rightarrow> 'v \<Rightarrow> ('k \<times> 'v) list \<Rightarrow> ('k \<times> 'v) list" where
  "dict_set k v [] = [(k, v)]"
| "dict_set k v ((k', v') # d) = (if k' = k then (k, v) # d else (k', v') # dict_set k v d)"

lemma map_of_dict_set [simp]: "map_of (dict_set k v d) = (map_of d)(k \<mapsto> v)"
  by (induction k v d rule: dict_set.induct) auto

lemma fst_set_dict_set [simp]: "fst ` set (dict_set k v d) = insert k (fst ` set d)"
  by (induction k v d rule: dict_set.induct) auto

lemma distinct_dict_set: "distinct (map fst d) \<Longrightarrow> distinct (map fst (dict_set k v d))"
  by (induction k v d rule: dict_set.induct) auto

section \<open>Strings\<close>

definition is_json_space :: "nat \<Rightarrow> bool" where
  "is_json_space c \<longleftrightarrow> c = 32 \<or> c = 9 \<or> c = 10 \<or> c = 13"

definition skip_ws :: "pystr \<Rightarrow> pystr" where
  "skip_ws = dropWhile is_json_space"

definition hex_value :: "nat \<Rightarrow> nat option" where
  "hex_value c =
     (if is_digit c then Some (c - 48)
      else if 97 \<le> c \<and> c \<le> 102 then Some (c - 87)
      else if 65 \<le> c \<and> c \<le> 70 then Some (c - 55)
      else None)"

text \<open>The value of exactly four hexadecimal digits.\<close>

fun hex4 :: "pystr \<Rightarrow> nat option" where
  "hex4 [a, b, c, d] =
     (case (hex_value a, hex_value b, hex_value c, hex_value d) of
        (Some w, Some x, Some y, Some z) \<Rightarrow> Some (4096 * w + 256 * x + 16 * y + z)
      | _ \<Rightarrow> None)"
| "hex4 _ = None"

definition simple_escape :: "nat \<Rightarrow> nat option" where
  "simple_escape c =
     (if c = 34 \<or> c = 92 \<or> c = 47 then Some c
      else if c = 98 then Some 8
      else if c = 102 then Some 12
      else if c = 110 then Some 10
      else if c = 114 then Some 13
      else if c = 116 then Some 9
      else None)"

definition is_high_surrogate :: "nat \<Rightarrow> bool" where
  "is_high_surrogate c \<longleftrightarrow> 55296 \<le> c \<and> c \<le> 56319"

definition is_low_surrogate :: "nat \<Rightarrow> bool" where
  "is_low_surrogate c \<longleftrightarrow> 56320 \<le> c \<and> c \<le> 57343"

definition join_surrogates :: "nat \<Rightarrow> nat \<Rightarrow> nat" where
  "join_surrogates hi lo = 65536 + (hi - 55296) * 1024 + (lo - 56320)"

text \<open>
  The rest of an escape whose \<open>u\<close> is read. CPython asks for one character more than the digits:
  \<open>end >= len\<close> is an error even when the four digits are all there.
\<close>

definition unicode_escape :: "nat \<Rightarrow> pystr \<Rightarrow> nat scan" where
  "unicode_escape n s =
     (if length s \<le> 4 then Inl (DecodeError Invalid_u_escape (n - length s - 1))
      else case hex4 (take 4 s) of
        None \<Rightarrow> Inl (DecodeError Invalid_u_escape (n - length s - 1))
      | Some c \<Rightarrow>
          (let rest = drop 4 s
           in if is_high_surrogate c \<and> 6 < length rest \<and> take 2 rest = [92, 117] then
                (case hex4 (take 4 (drop 2 rest)) of
                   None \<Rightarrow> Inl (DecodeError Invalid_u_escape (n - length rest + 1))
                 | Some d \<Rightarrow>
                     if is_low_surrogate d then Inr (join_surrogates c d, drop 6 rest)
                     else Inr (c, rest))
              else Inr (c, rest)))"

lemma unicode_escape_shorter: "unicode_escape n s = Inr (c, rest) \<Longrightarrow> length rest < length s"
  by (auto simp: unicode_escape_def Let_def split: if_splits option.splits)

text \<open>\<open>scanstring(text, begin + 1)\<close> on what follows the opening quote; \<open>n\<close> is the length of the text.\<close>

function scanstring :: "nat \<Rightarrow> nat \<Rightarrow> pystr \<Rightarrow> pystr \<Rightarrow> pystr scan" where
  "scanstring n start acc [] = Inl (DecodeError Unterminated_string start)"
| "scanstring n start acc (c # s) =
     (if c = 34 then Inr (rev acc, s)
      else if c = 92 then
        (case s of
           [] \<Rightarrow> Inl (DecodeError Unterminated_string start)
         | e # s' \<Rightarrow>
             if e = 117 then
               (case unicode_escape n s' of
                  Inl err \<Rightarrow> Inl err
                | Inr (d, rest) \<Rightarrow> scanstring n start (d # acc) rest)
             else
               (case simple_escape e of
                  None \<Rightarrow> Inl (DecodeError Invalid_escape (n - length s - 1))
                | Some d \<Rightarrow> scanstring n start (d # acc) s'))
      else if c \<le> 31 then
        Inl (DecodeError Invalid_control_character (n - length s - 1))
      else scanstring n start (c # acc) s)"
  by pat_completeness auto
termination
  by (relation "measure (\<lambda>(_, _, _, s). length s)") (auto dest: unicode_escape_shorter)

lemma scanstring_shorter:
  "scanstring n start acc s = Inr (v, rest) \<Longrightarrow> length rest < length s"
proof (induction n start acc s rule: scanstring.induct)
  case (2 n start acc c s)
  show ?case
  proof (cases "c = 34 \<or> (c \<noteq> 92 \<and> c \<le> 31)")
    case True
    with 2 show ?thesis by (auto split: if_splits)
  next
    case c: False
    show ?thesis
    proof (cases "c = 92")
      case False
      with 2 c show ?thesis by auto
    next
      case True
      with 2 c obtain e s' where s: "s = e # s'" by (cases s) auto
      show ?thesis
      proof (cases "e = 117")
        case u: True
        with 2(4) True s obtain d r where "unicode_escape n s' = Inr (d, r)"
          "scanstring n start (d # acc) r = Inr (v, rest)"
          by (auto split: sum.splits)
        with 2(1) [of e s' "(d, r)" d r] c True s u show ?thesis
          by (auto dest: unicode_escape_shorter)
      next
        case u: False
        with 2(4) True s obtain d where "simple_escape e = Some d"
          "scanstring n start (d # acc) s' = Inr (v, rest)"
          by (auto split: option.splits)
        with 2(2) [of e s' d] c True s u show ?thesis by auto
      qed
    qed
  qed
qed simp

section \<open>Numbers\<close>

definition digits_of :: "pystr \<Rightarrow> pystr" where
  "digits_of s = takeWhile is_digit s"

definition after_digits :: "pystr \<Rightarrow> pystr" where
  "after_digits s = dropWhile is_digit s"

text \<open>The integer part, the fraction and the exponent of a number, as far as they match.\<close>

definition match_int :: "pystr \<Rightarrow> pystr option" where
  "match_int s =
     (let body = (if take 1 s = [45] then drop 1 s else s);
          sign = (if take 1 s = [45] then [45] else [])
      in case body of
           [] \<Rightarrow> None
         | c # _ \<Rightarrow>
             if c = 48 then Some (sign @ [48])
             else if is_digit c then Some (sign @ digits_of body)
             else None)"

definition match_frac :: "pystr \<Rightarrow> pystr" where
  "match_frac s = (if take 1 s = [46] \<and> digits_of (drop 1 s) \<noteq> [] then 46 # digits_of (drop 1 s) else [])"

definition match_exp :: "pystr \<Rightarrow> pystr" where
  "match_exp s =
     (if take 1 s = [101] \<or> take 1 s = [69] then
        (let sign = (if take 1 (drop 1 s) = [43] \<or> take 1 (drop 1 s) = [45] then take 1 (drop 1 s) else []);
             ds = digits_of (drop (1 + length sign) s)
         in if ds = [] then [] else take 1 s @ sign @ ds)
      else [])"

definition match_number :: "hooks \<Rightarrow> nat \<Rightarrow> pystr \<Rightarrow> json scan" where
  "match_number h n s =
     (case match_int s of
        None \<Rightarrow> Inl (DecodeError Expecting_value (n - length s))
      | Some whole \<Rightarrow>
          (let frac = match_frac (drop (length whole) s);
               ex = match_exp (drop (length whole + length frac) s);
               literal = whole @ frac @ ex;
               parsed = (if frac @ ex = [] then parse_int h literal else parse_float h literal)
           in case parsed of
                Inl e \<Rightarrow> Inl (HookError e)
              | Inr v \<Rightarrow> Inr (v, drop (length literal) s)))"

section \<open>The scanner\<close>

definition hooked :: "json result \<Rightarrow> pystr \<Rightarrow> json scan" where
  "hooked r rest = (case r of Inl e \<Rightarrow> Inl (HookError e) | Inr v \<Rightarrow> Inr (v, rest))"

text \<open>A literal or a number: every value that is neither a string nor a container.\<close>

definition scan_atom :: "hooks \<Rightarrow> nat \<Rightarrow> pystr \<Rightarrow> json scan" where
  "scan_atom h n s =
     (if startswith s (lit ''null'') then Inr (JNull, drop 4 s)
      else if startswith s (lit ''true'') then Inr (JBool True, drop 4 s)
      else if startswith s (lit ''false'') then Inr (JBool False, drop 5 s)
      else if startswith s (lit ''NaN'') then hooked (parse_constant h (lit ''NaN'')) (drop 3 s)
      else if startswith s (lit ''Infinity'') then
        hooked (parse_constant h (lit ''Infinity'')) (drop 8 s)
      else if startswith s (lit ''-Infinity'') then
        hooked (parse_constant h (lit ''-Infinity'')) (drop 9 s)
      else match_number h n s)"

fun scan_once :: "hooks \<Rightarrow> nat \<Rightarrow> nat \<Rightarrow> pystr \<Rightarrow> json scan"
  and scan_object :: "hooks \<Rightarrow> nat \<Rightarrow> nat \<Rightarrow> (pystr \<times> json) list \<Rightarrow> pystr \<Rightarrow> json scan"
  and scan_array :: "hooks \<Rightarrow> nat \<Rightarrow> nat \<Rightarrow> json list \<Rightarrow> pystr \<Rightarrow> json scan" where
  "scan_once h n 0 s = Inl OutOfFuel"
| "scan_once h n (Suc k) [] = Inl (DecodeError Expecting_value n)"
| "scan_once h n (Suc k) (c # s) =
     (if c = 34 then
        (case scanstring n (n - length s - 1) [] s of
           Inl e \<Rightarrow> Inl e | Inr (v, rest) \<Rightarrow> Inr (JStr v, rest))
      else if c = 123 then
        (case skip_ws s of
           d # rest \<Rightarrow> if d = 125 then Inr (JObj [], rest) else scan_object h n k [] (d # rest)
         | [] \<Rightarrow> scan_object h n k [] [])
      else if c = 91 then
        (case skip_ws s of
           d # rest \<Rightarrow> if d = 93 then Inr (JArr [], rest) else scan_array h n k [] (d # rest)
         | [] \<Rightarrow> scan_array h n k [] [])
      else scan_atom h n (c # s))"
| "scan_object h n 0 d s = Inl OutOfFuel"
| "scan_object h n (Suc k) d s =
     (case s of
        [] \<Rightarrow> Inl (DecodeError Expecting_property_name n)
      | q # s1 \<Rightarrow>
          if q \<noteq> 34 then
            Inl (DecodeError Expecting_property_name (n - length s))
          else case scanstring n (n - length s) [] s1 of
            Inl e \<Rightarrow> Inl e
          | Inr (key, s2) \<Rightarrow>
              (case skip_ws s2 of
                 [] \<Rightarrow> Inl (DecodeError Expecting_colon n)
               | c # s3 \<Rightarrow>
                   if c \<noteq> 58 then
                     Inl (DecodeError Expecting_colon (n - length s3 - 1))
                   else case scan_once h n k (skip_ws s3) of
                     Inl e \<Rightarrow> Inl e
                   | Inr (v, s4) \<Rightarrow>
                       (case skip_ws s4 of
                          [] \<Rightarrow> Inl (DecodeError Expecting_comma n)
                        | e # s5 \<Rightarrow>
                            if e = 125 then Inr (JObj (dict_set key v d), s5)
                            else if e \<noteq> 44 then
                              Inl (DecodeError Expecting_comma (n - length s5 - 1))
                            else scan_object h n k (dict_set key v d) (skip_ws s5))))"
| "scan_array h n 0 d s = Inl OutOfFuel"
| "scan_array h n (Suc k) d s =
     (case scan_once h n k s of
        Inl e \<Rightarrow> Inl e
      | Inr (v, s1) \<Rightarrow>
          (case skip_ws s1 of
             [] \<Rightarrow> Inl (DecodeError Expecting_comma n)
           | e # s2 \<Rightarrow>
               if e = 93 then Inr (JArr (d @ [v]), s2)
               else if e \<noteq> 44 then
                 Inl (DecodeError Expecting_comma (n - length s2 - 1))
               else scan_array h n k (d @ [v]) (skip_ws s2)))"

section \<open>Decoding a text\<close>

text \<open>\<open>raw_decode\<close> of what is left of a text of length \<open>n\<close>; the fuel is enough (below).\<close>

definition raw_decode :: "hooks \<Rightarrow> nat \<Rightarrow> pystr \<Rightarrow> json scan" where
  "raw_decode h n s = scan_once h n (2 * length s + 1) s"

definition decode :: "hooks \<Rightarrow> pystr \<Rightarrow> json_error + json" where
  "decode h text =
     (case raw_decode h (length text) (skip_ws text) of
        Inl e \<Rightarrow> Inl e
      | Inr (v, rest) \<Rightarrow>
          if skip_ws rest = [] then Inr v
          else Inl (DecodeError Extra_data (length text - length (skip_ws rest))))"

text \<open>\<open>int(text)\<close> of a literal, which refuses more than 4300 digits.\<close>

definition MAX_INT_DIGITS :: nat where "MAX_INT_DIGITS = 4300"

definition py_int :: "pystr \<Rightarrow> int result" where
  "py_int s =
     (let neg = (take 1 s = [45]);
          ds = (if neg \<or> take 1 s = [43] then drop 1 s else s)
      in if MAX_INT_DIGITS < length ds then Inl (PyError ''ValueError'')
         else Inr (if neg then - int (nat_of_digits ds) else int (nat_of_digits ds)))"

definition default_hooks :: hooks where
  "default_hooks =
     \<lparr>parse_float = (\<lambda>s. Inr (JFloat s)), parse_int = (\<lambda>s. map_sum id JInt (py_int s)),
      parse_constant = (\<lambda>s. Inr (JFloat s))\<rparr>"

definition loads :: "pystr \<Rightarrow> json result" where
  "loads text =
     (case decode default_hooks text of
        Inr v \<Rightarrow> Inr v
      | Inl (HookError e) \<Rightarrow> Inl e
      | Inl _ \<Rightarrow> Inl (PyError ''JSONDecodeError''))"

section \<open>Writing\<close>

definition u_escape :: "nat \<Rightarrow> pystr" where
  "u_escape c = [92, 117] @ hex_fixed 4 c"

text \<open>\<open>ensure_ascii\<close>: everything outside the printable ASCII characters is escaped.\<close>

definition escape_char :: "nat \<Rightarrow> pystr" where
  "escape_char c =
     (if c = 34 then [92, 34]
      else if c = 92 then [92, 92]
      else if 32 \<le> c \<and> c \<le> 126 then [c]
      else if c = 10 then [92, 110]
      else if c = 13 then [92, 114]
      else if c = 9 then [92, 116]
      else if c = 12 then [92, 102]
      else if c = 8 then [92, 98]
      else if c < 65536 then u_escape c
      else u_escape (55296 + (c - 65536) div 1024) @ u_escape (56320 + (c - 65536) mod 1024))"

definition dumps_str :: "pystr \<Rightarrow> pystr" where
  "dumps_str s = [34] @ concat (map escape_char s) @ [34]"

definition show_int :: "int \<Rightarrow> pystr" where
  "show_int i = (if i < 0 then 45 # show_nat (nat (- i)) else show_nat (nat i))"

text \<open>The values of a flat object: text and integers (and what JSON has beside containers).\<close>

fun dumps_scalar :: "json \<Rightarrow> pystr" where
  "dumps_scalar (JStr s) = dumps_str s"
| "dumps_scalar (JInt i) = show_int i"
| "dumps_scalar (JBool b) = (if b then lit ''true'' else lit ''false'')"
| "dumps_scalar (JFloat s) = s"
| "dumps_scalar _ = lit ''null''"

fun dumps_items :: "(pystr \<times> json) list \<Rightarrow> pystr" where
  "dumps_items [] = []"
| "dumps_items [(k, v)] = dumps_str k @ [58, 32] @ dumps_scalar v"
| "dumps_items ((k, v) # d) = dumps_str k @ [58, 32] @ dumps_scalar v @ [44, 32] @ dumps_items d"

definition dumps :: "(pystr \<times> json) list \<Rightarrow> pystr" where
  "dumps d = [123] @ dumps_items d @ [125]"

end
