(* ===== verification/Json_Roundtrip.thy ===== *)
theory Json_Roundtrip
  imports Json
begin

text \<open>
  The scanner never runs out of fuel, and it reads back the flat objects that \<open>dumps\<close> writes.
\<close>

section \<open>What is written reads back\<close>

definition scalar_text :: "pystr \<Rightarrow> bool" where
  "scalar_text s \<longleftrightarrow> (\<forall>c\<in>set s. \<not> is_surrogate c \<and> c < 1114112)"

lemma hex_value_digit: "d < 16 \<Longrightarrow> hex_value (hex_digit d) = Some d"
  by (auto simp: hex_value_def hex_digit_def is_digit_def)

lemma hex_fixed_Suc: "hex_fixed (k + 1) n = hex_fixed k (n div 16) @ [hex_digit (n mod 16)]"
  by simp

lemma hex4_hex_fixed: "c < 65536 \<Longrightarrow> hex4 (hex_fixed 4 c) = Some c"
proof -
  assume c: "c < 65536"
  have "hex_fixed 4 c = [hex_digit (c div 16 div 16 div 16 mod 16), hex_digit (c div 16 div 16 mod 16),
      hex_digit (c div 16 mod 16), hex_digit (c mod 16)]"
    by (simp add: hex_fixed_Suc [of 3, simplified] hex_fixed_Suc [of 2, simplified]
        numeral_2_eq_2)
  moreover have "4096 * (c div 16 div 16 div 16 mod 16) + 256 * (c div 16 div 16 mod 16) +
      16 * (c div 16 mod 16) + c mod 16 = c"
  proof -
    have "16 * (x div 16) + x mod 16 = x" for x :: nat by simp
    from this [of c] this [of "c div 16"] this [of "c div 16 div 16"]
    have "4096 * (c div 16 div 16 div 16) + 256 * (c div 16 div 16 mod 16) +
        16 * (c div 16 mod 16) + c mod 16 = c" by linarith
    moreover have "c div 16 div 16 div 16 mod 16 = c div 16 div 16 div 16"
      using c by (simp add: div_mult2_eq [symmetric] less_mult_imp_div_less)
    ultimately show ?thesis by simp
  qed
  ultimately show ?thesis by (simp add: hex_value_digit)
qed

lemma unicode_escape_plain:
  assumes "c < 65536" "\<not> is_high_surrogate c" "s \<noteq> []"
  shows "unicode_escape n (hex_fixed 4 c @ s) = Inr (c, s)"
  using assms by (simp add: unicode_escape_def hex4_hex_fixed Let_def)

lemma unicode_escape_pair:
  assumes "is_high_surrogate c" "is_low_surrogate d" "s \<noteq> []"
  shows "unicode_escape n (hex_fixed 4 c @ u_escape d @ s) = Inr (join_surrogates c d, s)"
proof -
  have "c < 65536" "d < 65536" using assms by (auto simp: is_high_surrogate_def is_low_surrogate_def)
  then show ?thesis
    using assms
    by (cases s) (simp_all add: unicode_escape_def hex4_hex_fixed u_escape_def Let_def)
qed

lemma escape_char_scan:
  assumes "\<not> is_surrogate c" "c < 1114112" "s \<noteq> []"
  shows "scanstring n b acc (escape_char c @ s) = scanstring n b (c # acc) s"
proof -
  consider "c = 34 \<or> c = 92" | "32 \<le> c \<and> c \<le> 126 \<and> c \<noteq> 34 \<and> c \<noteq> 92"
    | "c \<in> {10, 13, 9, 12, 8}" | "c \<notin> {10, 13, 9, 12, 8}" "\<not> (32 \<le> c \<and> c \<le> 126)" "c < 65536"
    | "65536 \<le> c" by fastforce
  then show ?thesis
  proof cases
    case 4
    then have "\<not> is_high_surrogate c" using assms(1)
      by (auto simp: is_high_surrogate_def is_surrogate_def)
    with 4 assms(3) show ?thesis
      by (auto simp: escape_char_def u_escape_def unicode_escape_plain)
  next
    case 5
    let ?hi = "55296 + (c - 65536) div 1024" and ?lo = "56320 + (c - 65536) mod 1024"
    have "(c - 65536) div 1024 < 1024" "(c - 65536) mod 1024 < 1024"
      using assms(2) by (simp_all add: less_mult_imp_div_less)
    then have "is_high_surrogate ?hi" "is_low_surrogate ?lo"
      by (simp_all add: is_high_surrogate_def is_low_surrogate_def)
    moreover have "join_surrogates ?hi ?lo = c" using 5 by (simp add: join_surrogates_def)
    ultimately have "unicode_escape n (hex_fixed 4 ?hi @ u_escape ?lo @ s) = Inr (c, s)"
      using unicode_escape_pair [of ?hi ?lo s n] assms(3) by simp
    with 5 show ?thesis by (simp add: escape_char_def u_escape_def [of ?hi])
  qed (auto simp: escape_char_def simple_escape_def)
qed

lemma scan_dumps_str:
  "scalar_text t \<Longrightarrow>
   scanstring n b acc (concat (map escape_char t) @ 34 # s) = Inr (rev acc @ t, s)"
proof (induction t arbitrary: acc)
  case (Cons c t)
  then have "\<not> is_surrogate c" "c < 1114112" "scalar_text t" by (auto simp: scalar_text_def)
  with Cons.IH show ?case
    by (simp add: escape_char_scan)
qed simp

section \<open>Enough fuel\<close>

lemma skip_ws_length: "length (skip_ws s) \<le> length s"
  by (simp add: skip_ws_def length_dropWhile_le)

lemma match_int_nonempty: "match_int s = Some w \<Longrightarrow> w \<noteq> [] \<and> s \<noteq> []"
  by (auto simp: match_int_def Let_def digits_of_def split: if_splits list.splits)

lemma scan_atom_shorter: "scan_atom h n s = Inr (v, rest) \<Longrightarrow> length rest < length s"
  by (auto simp: scan_atom_def hooked_def match_number_def Let_def startswith_iff
      split: if_splits sum.splits option.splits dest: match_int_nonempty)

lemma scan_atom_fuel: "scan_atom h n s \<noteq> Inl OutOfFuel"
  by (auto simp: scan_atom_def hooked_def match_number_def Let_def
      split: if_splits sum.splits option.splits)

lemma scanstring_fuel: "scanstring n b acc s \<noteq> Inl OutOfFuel"
  by (induction n b acc s rule: scanstring.induct)
    (auto simp: unicode_escape_def Let_def split: if_splits sum.splits option.splits list.splits)

text \<open>A value takes at least one character of the text.\<close>

lemma scan_object_Inr:
  "scan_object h n (Suc k) d s = Inr (v, rest) \<Longrightarrow>
   \<exists>s1 key s2 s3 x s4 e s5. s = 34 # s1 \<and> scanstring n (n - length s) [] s1 = Inr (key, s2) \<and>
     skip_ws s2 = 58 # s3 \<and> scan_once h n k (skip_ws s3) = Inr (x, s4) \<and> skip_ws s4 = e # s5 \<and>
     (e = 125 \<and> rest = s5 \<and> v = JObj (dict_set key x d) \<or>
      e = 44 \<and> scan_object h n k (dict_set key x d) (skip_ws s5) = Inr (v, rest))"
  by (auto split: list.splits if_splits sum.splits)

lemma scan_array_Inr:
  "scan_array h n (Suc k) xs s = Inr (v, rest) \<Longrightarrow>
   \<exists>x s1 e s2. scan_once h n k s = Inr (x, s1) \<and> skip_ws s1 = e # s2 \<and>
     (e = 93 \<and> rest = s2 \<and> v = JArr (xs @ [x]) \<or>
      e = 44 \<and> scan_array h n k (xs @ [x]) (skip_ws s2) = Inr (v, rest))"
  by (auto split: list.splits if_splits sum.splits)

lemma skip_ws_Cons: "skip_ws s = e # r \<Longrightarrow> length r < length s"
  using skip_ws_length [of s] by simp

lemma scan_once_Inr:
  assumes "scan_once h n (Suc k) s = Inr (v, rest)"
  shows "length rest < length s \<or>
    (\<exists>c s'. s = c # s' \<and> (scan_object h n k [] (skip_ws s') = Inr (v, rest) \<or>
       scan_array h n k [] (skip_ws s') = Inr (v, rest)))"
proof (cases s)
  case (Cons c s')
  with assms skip_ws_length [of s'] show ?thesis
    by (auto split: if_splits list.splits sum.splits dest!: scanstring_shorter scan_atom_shorter)
qed (use assms in simp)

lemma scan_shorter:
  "(\<forall>s v rest. scan_once h n k s = Inr (v, rest) \<longrightarrow> length rest < length s) \<and>
   (\<forall>d s v rest. scan_object h n k d s = Inr (v, rest) \<longrightarrow> length rest < length s) \<and>
   (\<forall>xs s v rest. scan_array h n k xs s = Inr (v, rest) \<longrightarrow> length rest < length s)"
proof (induction k)
  case (Suc k)
  have object: "length rest < length s" if "scan_object h n (Suc k) d s = Inr (v, rest)" for d s v rest
  proof -
    from scan_object_Inr [OF that] obtain s1 key s2 s3 x s4 e s5 where
      o: "s = 34 # s1" "scanstring n (n - length s) [] s1 = Inr (key, s2)" "skip_ws s2 = 58 # s3"
        "scan_once h n k (skip_ws s3) = Inr (x, s4)" "skip_ws s4 = e # s5"
        "rest = s5 \<or> scan_object h n k (dict_set key x d) (skip_ws s5) = Inr (v, rest)" by blast
    from o(4) Suc have "length s4 < length (skip_ws s3)" by blast
    moreover from o(6) Suc have "rest = s5 \<or> length rest < length (skip_ws s5)" by blast
    then have "length rest \<le> length s5" using skip_ws_length [of s5] by auto
    ultimately show ?thesis
      using o(1) scanstring_shorter [OF o(2)] skip_ws_Cons [OF o(3)] skip_ws_Cons [OF o(5)]
        skip_ws_length [of s3] by simp
  qed
  have array: "length rest < length s" if "scan_array h n (Suc k) xs s = Inr (v, rest)" for xs s v rest
  proof -
    from scan_array_Inr [OF that] obtain x s1 e s2 where
      o: "scan_once h n k s = Inr (x, s1)" "skip_ws s1 = e # s2"
        "rest = s2 \<or> scan_array h n k (xs @ [x]) (skip_ws s2) = Inr (v, rest)" by blast
    from o(1) Suc have "length s1 < length s" by blast
    moreover from o(3) Suc have "rest = s2 \<or> length rest < length (skip_ws s2)" by blast
    then have "length rest \<le> length s2" using skip_ws_length [of s2] by auto
    ultimately show ?thesis using skip_ws_Cons [OF o(2)] by simp
  qed
  have "length rest < length s" if "scan_once h n (Suc k) s = Inr (v, rest)" for s v rest
  proof -
    from scan_once_Inr [OF that] consider "length rest < length s"
      | c s' where "s = c # s'" "scan_object h n k [] (skip_ws s') = Inr (v, rest) \<or>
          scan_array h n k [] (skip_ws s') = Inr (v, rest)" by blast
    then show ?thesis
    proof cases
      case 2
      with Suc have "length rest < length (skip_ws s')" by blast
      with 2 skip_ws_length [of s'] show ?thesis by simp
    qed
  qed
  with object array show ?case by blast
qed simp

lemma scan_object_Out:
  "scan_object h n (Suc k) d s = Inl OutOfFuel \<Longrightarrow>
   \<exists>s1 key s2 s3. s = 34 # s1 \<and> scanstring n (n - length s) [] s1 = Inr (key, s2) \<and>
     skip_ws s2 = 58 # s3 \<and>
     (scan_once h n k (skip_ws s3) = Inl OutOfFuel \<or>
      (\<exists>x s4 s5. scan_once h n k (skip_ws s3) = Inr (x, s4) \<and> skip_ws s4 = 44 # s5 \<and>
         scan_object h n k (dict_set key x d) (skip_ws s5) = Inl OutOfFuel))"
  by (auto simp: scanstring_fuel split: list.splits if_splits sum.splits)

lemma scan_array_Out:
  "scan_array h n (Suc k) xs s = Inl OutOfFuel \<Longrightarrow>
   scan_once h n k s = Inl OutOfFuel \<or>
   (\<exists>x s1 s2. scan_once h n k s = Inr (x, s1) \<and> skip_ws s1 = 44 # s2 \<and>
      scan_array h n k (xs @ [x]) (skip_ws s2) = Inl OutOfFuel)"
  by (auto split: list.splits if_splits sum.splits)

lemma scan_once_Out:
  "scan_once h n (Suc k) s = Inl OutOfFuel \<Longrightarrow>
   \<exists>c s'. s = c # s' \<and>
     (scan_object h n k [] (skip_ws s') = Inl OutOfFuel \<or>
      scan_array h n k [] (skip_ws s') = Inl OutOfFuel)"
  by (cases s) (auto simp: scanstring_fuel scan_atom_fuel split: list.splits if_splits sum.splits)

text \<open>Twice the text and one more: a container spends one step on itself and one on its value.\<close>

lemma scan_fuel:
  "(\<forall>s. 2 * length s < k \<longrightarrow> scan_once h n k s \<noteq> Inl OutOfFuel) \<and>
   (\<forall>d s. 2 * length s < k \<longrightarrow> scan_object h n k d s \<noteq> Inl OutOfFuel) \<and>
   (\<forall>xs s. Suc (2 * length s) < k \<longrightarrow> scan_array h n k xs s \<noteq> Inl OutOfFuel)"
proof (induction k)
  case (Suc k)
  note once = scan_shorter [THEN conjunct1, rule_format, of h n k]
  have "scan_once h n (Suc k) s \<noteq> Inl OutOfFuel" if "2 * length s < Suc k" for s
  proof
    assume "scan_once h n (Suc k) s = Inl OutOfFuel"
    then obtain c s' where "s = c # s'" "scan_object h n k [] (skip_ws s') = Inl OutOfFuel \<or>
      scan_array h n k [] (skip_ws s') = Inl OutOfFuel" by (blast dest: scan_once_Out)
    with Suc that skip_ws_length [of s'] show False by fastforce
  qed
  moreover have "scan_object h n (Suc k) d s \<noteq> Inl OutOfFuel" if "2 * length s < Suc k" for d s
  proof
    assume "scan_object h n (Suc k) d s = Inl OutOfFuel"
    from scan_object_Out [OF this] obtain s1 key s2 s3 where
      o: "s = 34 # s1" "scanstring n (n - length s) [] s1 = Inr (key, s2)" "skip_ws s2 = 58 # s3"
      and sub: "scan_once h n k (skip_ws s3) = Inl OutOfFuel \<or>
        (\<exists>x s4 s5. scan_once h n k (skip_ws s3) = Inr (x, s4) \<and> skip_ws s4 = 44 # s5 \<and>
           scan_object h n k (dict_set key x d) (skip_ws s5) = Inl OutOfFuel)" by blast
    have len: "length (skip_ws s3) < length s1"
      using scanstring_shorter [OF o(2)] skip_ws_Cons [OF o(3)] skip_ws_length [of s3] by simp
    from sub show False
    proof
      assume "scan_once h n k (skip_ws s3) = Inl OutOfFuel"
      with Suc len o(1) that show False by simp
    next
      assume "\<exists>x s4 s5. scan_once h n k (skip_ws s3) = Inr (x, s4) \<and> skip_ws s4 = 44 # s5 \<and>
           scan_object h n k (dict_set key x d) (skip_ws s5) = Inl OutOfFuel"
      then obtain x s4 s5 where r: "scan_once h n k (skip_ws s3) = Inr (x, s4)" "skip_ws s4 = 44 # s5"
        "scan_object h n k (dict_set key x d) (skip_ws s5) = Inl OutOfFuel" by blast
      have "length (skip_ws s5) < length s1"
        using once [OF r(1)] skip_ws_Cons [OF r(2)] skip_ws_length [of s5] len by simp
      with Suc o(1) that r(3) show False by simp
    qed
  qed
  moreover have "scan_array h n (Suc k) xs s \<noteq> Inl OutOfFuel" if "Suc (2 * length s) < Suc k" for xs s
  proof
    assume "scan_array h n (Suc k) xs s = Inl OutOfFuel"
    with Suc that obtain x s1 s2 where r: "scan_once h n k s = Inr (x, s1)" "skip_ws s1 = 44 # s2"
        "scan_array h n k (xs @ [x]) (skip_ws s2) = Inl OutOfFuel"
      by (fastforce dest: scan_array_Out)
    have "Suc (length (skip_ws s2)) < length s"
      using once [OF r(1)] skip_ws_Cons [OF r(2)] skip_ws_length [of s2] by simp
    with Suc that r(3) show False by simp
  qed
  ultimately show ?case by blast
qed simp

lemma raw_decode_fuel: "raw_decode h n s \<noteq> Inl OutOfFuel"
  using scan_fuel [of "2 * length s + 1" h n] by (auto simp: raw_decode_def)

section \<open>Flat objects read back\<close>

text \<open>The values a connection's settings and secrets hold.\<close>

fun flat_value :: "json \<Rightarrow> bool" where
  "flat_value (JStr s) = scalar_text s"
| "flat_value (JInt i) = (length (show_nat (nat \<bar>i\<bar>)) \<le> MAX_INT_DIGITS)"
| "flat_value _ = False"

definition flat_object :: "(pystr \<times> json) list \<Rightarrow> bool" where
  "flat_object d \<longleftrightarrow> distinct (map fst d) \<and> (\<forall>(k, v)\<in>set d. scalar_text k \<and> flat_value v)"

lemma show_nat_digits: "list_all is_digit (show_nat n) \<and> show_nat n \<noteq> []"
proof (induction n rule: show_nat.induct)
  case (1 n)
  then show ?case
    by (cases "n < 10") (auto simp: show_nat.simps [of n] is_digit_def)
qed

lemma show_nat_head: "0 < n \<Longrightarrow> hd (show_nat n) \<noteq> 48"
proof (induction n rule: show_nat.induct)
  case (1 n)
  show ?case
  proof (cases "n < 10")
    case False
    with 1 show_nat_digits [of "n div 10"] show ?thesis
      by (simp add: show_nat.simps [of n])
  qed (use 1 in \<open>simp add: show_nat.simps [of n]\<close>)
qed

definition ends_value :: "pystr \<Rightarrow> bool" where
  "ends_value rest \<longleftrightarrow> (\<exists>c r. rest = c # r \<and> (c = 44 \<or> c = 125))"

lemma digits_of_show_nat:
  "ends_value rest \<Longrightarrow> digits_of (show_nat m @ rest) = show_nat m"
  using show_nat_digits [of m]
  by (auto simp: digits_of_def ends_value_def takeWhile_append2 list_all_iff is_digit_def)

lemma match_int_show_nat:
  assumes "ends_value rest"
  shows "match_int (show_nat m @ rest) = Some (show_nat m)"
    and "match_int (45 # show_nat m @ rest) = Some (45 # show_nat m)"
proof -
  obtain c cs where m: "show_nat m = c # cs" "is_digit c"
    using show_nat_digits [of m] by (cases "show_nat m") auto
  have zero: "cs = []" if "c = 48"
  proof -
    have "m = 0" using show_nat_head [of m] m that by (cases m) auto
    then show ?thesis using m by (simp add: show_nat.simps)
  qed
  have "c \<noteq> 45" using m(2) by (auto simp: is_digit_def)
  with m zero digits_of_show_nat [OF assms, of m] show
    "match_int (show_nat m @ rest) = Some (show_nat m)"
    "match_int (45 # show_nat m @ rest) = Some (45 # show_nat m)"
    by (auto simp: match_int_def Let_def)
qed

lemma py_int_show:
  assumes "length (show_nat m) \<le> MAX_INT_DIGITS"
  shows "py_int (show_nat m) = Inr (int m)" "py_int (45 # show_nat m) = Inr (- int m)"
proof -
  obtain c cs where "show_nat m = c # cs" "is_digit c"
    using show_nat_digits [of m] by (cases "show_nat m") auto
  with assms nat_of_digits_show_nat [of m] show
    "py_int (show_nat m) = Inr (int m)" "py_int (45 # show_nat m) = Inr (- int m)"
    by (auto simp: py_int_def Let_def is_digit_def)
qed

lemma scan_atom_number:
  assumes "ends_value rest" "length (show_nat m) \<le> MAX_INT_DIGITS"
  shows "scan_atom default_hooks n (show_nat m @ rest) = Inr (JInt (int m), rest)"
    and "scan_atom default_hooks n (45 # show_nat m @ rest) = Inr (JInt (- int m), rest)"
proof -
  obtain c cs where m: "show_nat m = c # cs" "is_digit c"
    using show_nat_digits [of m] by (cases "show_nat m") auto
  have no: "\<not> startswith (show_nat m @ rest) (lit s)" "\<not> startswith (45 # show_nat m @ rest) (lit s)"
    if "s \<in> {''null'', ''true'', ''false'', ''NaN'', ''Infinity'', ''-Infinity''}" for s
    using that m by (auto simp: text_eval is_digit_def)
  have "match_frac rest = []" "match_exp rest = []"
    using assms(1) by (auto simp: match_frac_def match_exp_def ends_value_def)
  then show "scan_atom default_hooks n (show_nat m @ rest) = Inr (JInt (int m), rest)"
    "scan_atom default_hooks n (45 # show_nat m @ rest) = Inr (JInt (- int m), rest)"
    using assms(2)
    by (simp_all add: scan_atom_def no match_number_def match_int_show_nat [OF assms(1)]
        default_hooks_def py_int_show Let_def)
qed

lemma scan_flat_value:
  assumes "flat_value v" "ends_value rest"
  shows "scan_once default_hooks n (Suc k) (dumps_scalar v @ rest) = Inr (v, rest)"
proof (cases v)
  case (JStr s)
  with assms show ?thesis by (simp add: dumps_str_def scan_dumps_str)
next
  case (JInt i)
  let ?m = "nat \<bar>i\<bar>"
  obtain c cs where m: "show_nat ?m = c # cs" "is_digit c"
    using show_nat_digits [of ?m] by (cases "show_nat ?m") auto
  have "length (show_nat ?m) \<le> MAX_INT_DIGITS" using assms(1) JInt by simp
  note scan_atom_number [OF assms(2) this, of n]
  with JInt m show ?thesis
    by (cases "i < 0") (auto simp: show_int_def is_digit_def)
qed (use assms in simp_all)

lemma skip_ws_value: "flat_value v \<Longrightarrow> skip_ws (32 # dumps_scalar v @ rest) = dumps_scalar v @ rest"
proof (cases v)
  case (JInt i)
  obtain c cs where "show_nat (nat \<bar>i\<bar>) = c # cs" "is_digit c"
    using show_nat_digits [of "nat \<bar>i\<bar>"] by (cases "show_nat (nat \<bar>i\<bar>)") auto
  with JInt show ?thesis
    by (cases "i < 0") (auto simp: skip_ws_def is_json_space_def show_int_def is_digit_def)
qed (auto simp: skip_ws_def is_json_space_def dumps_str_def)

lemma dict_set_append: "k \<notin> fst ` set d \<Longrightarrow> dict_set k v d = d @ [(k, v)]"
  by (induction k v d rule: dict_set.induct) auto

lemma scan_object_item:
  assumes "scalar_text key" "flat_value v" "e = 44 \<or> e = 125"
  shows "scan_object default_hooks n (Suc (Suc k)) d (dumps_str key @ 58 # 32 # dumps_scalar v @ e # s) =
    (if e = 125 then Inr (JObj (dict_set key v d), s)
     else scan_object default_hooks n (Suc k) (dict_set key v d) (skip_ws s))"
proof -
  have "skip_ws (58 # x) = 58 # x" "skip_ws (e # x) = e # x" for x
    using assms(3) by (auto simp: skip_ws_def is_json_space_def)
  moreover have "ends_value (e # s)" using assms(3) by (auto simp: ends_value_def)
  ultimately show ?thesis
    using assms
    by (auto simp: dumps_str_def scan_dumps_str skip_ws_value scan_flat_value
        simp del: scan_once.simps scan_object.simps(2)
        simp: scan_object.simps(2) [of _ _ "Suc k" d])
qed

lemma scan_dumps_items:
  assumes "items \<noteq> []" "length items < k"
    and "\<forall>(key, v)\<in>set items. scalar_text key \<and> flat_value v" "distinct (map fst (d @ items))"
  shows "scan_object default_hooks n k d (dumps_items items @ 125 # rest) = Inr (JObj (d @ items), rest)"
  using assms
proof (induction items arbitrary: k d rule: dumps_items.induct)
  case (2 key v)
  then have "Suc 0 < k" by simp
  then obtain k' where k: "k = Suc (Suc k')" by (cases k; cases "k - 1") auto
  with 2 show ?case
    by (simp add: scan_object_item dict_set_append del: scan_object.simps(2))
next
  case (3 key v item items)
  then have "Suc 0 < k" by simp
  then obtain k' where k: "k = Suc (Suc k')" by (cases k; cases "k - 1") auto
  let ?rest = "dumps_items (item # items) @ 125 # rest"
  obtain key' v' where item: "item = (key', v')" by force
  have ws: "skip_ws (32 # ?rest) = ?rest"
    by (cases items) (simp_all add: item dumps_str_def skip_ws_def is_json_space_def)
  have "scan_object default_hooks n (Suc k') (d @ [(key, v)]) ?rest =
      Inr (JObj ((d @ [(key, v)]) @ item # items), rest)"
    by (rule 3(1)) (use 3 k in auto)
  moreover have "dict_set key v d = d @ [(key, v)]" using 3 by (intro dict_set_append) auto
  moreover have "scalar_text key" "flat_value v" using 3 by auto
  moreover have "dumps_items ((key, v) # item # items) @ 125 # rest =
      dumps_str key @ 58 # 32 # dumps_scalar v @ 44 # 32 # ?rest" by simp
  ultimately show ?case
    by (simp add: k scan_object_item ws del: scan_object.simps(2) dumps_items.simps(2,3))
qed simp

lemma length_dumps_items: "length d \<le> length (dumps_items d)"
  by (induction d rule: dumps_items.induct) auto

lemma loads_dumps:
  assumes "flat_object d"
  shows "loads (dumps d) = Inr (JObj d)"
proof -
  have ws: "skip_ws (123 # x) = 123 # x" "skip_ws [] = []" "skip_ws (125 # x) = 125 # x" for x
    by (simp_all add: skip_ws_def is_json_space_def)
  have "raw_decode default_hooks (length (dumps d)) (dumps d) = Inr (JObj d, [])"
  proof (cases d)
    case Nil
    have "scan_once default_hooks n (Suc k) (123 # 125 # r) = Inr (JObj [], r)" for n k r
      by (simp add: ws)
    from this [of _ 4] Nil show ?thesis by (simp add: raw_decode_def dumps_def eval_nat_numeral)
  next
    case (Cons item items)
    obtain key v where item: "item = (key, v)" by force
    then obtain s where s: "dumps_items d @ [125] = 34 # s"
      using Cons by (cases items) (simp_all add: dumps_str_def)
    then have "skip_ws (dumps_items d @ [125]) = 34 # s"
      by (simp add: skip_ws_def is_json_space_def)
    moreover have "scan_object default_hooks n k [] (34 # s) = Inr (JObj d, [])"
      if "length d < k" for n k
      using scan_dumps_items [of d k "[]" n "[]"] assms that Cons s
      by (simp add: flat_object_def del: scan_object.simps)
    moreover have "length d < 2 * length (dumps d)"
      using length_dumps_items [of d] by (simp add: dumps_def)
    ultimately show ?thesis
      by (simp add: raw_decode_def dumps_def del: scan_object.simps)
  qed
  then show ?thesis
    by (simp add: loads_def decode_def ws dumps_def)
qed

end
