(* ===== verification/Store.thy ===== *)
theory Store
  imports Models Posix Timestamps Json_Roundtrip
begin

text \<open>
  \<^verbatim>\<open>databridge/store.py\<close>: the connections and the transfer records in SQLite.

  The database is its tables; a row has the columns of the schema. A statement block of \<open>_connect\<close>
  runs on the database and is committed at its end, or not at all: an error of SQLite (a fault) may
  come before its statements or at the commit. The cipher is a parameter; \<open>json.dumps\<close> writes ASCII
  text only, so the bytes that are encrypted are its characters.
\<close>

section \<open>The database\<close>

record connection_row =
  cr_name :: pystr
  cr_type :: pystr
  cr_settings :: pystr
  cr_ciphertext :: "pystr option"

record transfer_row =
  t_id :: pystr
  t_source :: pystr
  t_source_file :: pystr
  t_destination :: pystr
  t_destination_file :: pystr
  t_overwrite :: nat
  t_status :: pystr
  t_started_at :: pystr
  t_updated_at :: pystr
  t_completed_at :: "pystr option"
  t_failed_at :: "pystr option"
  t_bytes_copied :: nat
  t_failure_phase :: "pystr option"
  t_error_code :: "pystr option"
  t_error :: "pystr option"

text \<open>The tables by name, and the rows in the order of their rowids.\<close>

record database =
  db_tables :: "pystr list"
  db_metadata :: "(pystr \<times> pystr) list"
  db_connections :: "connection_row list"
  db_transfers :: "transfer_row list"

datatype db_fault = No_fault | At_start exn | At_commit exn

record db_world = os_world +
  db :: database
  db_faults :: "db_fault list"
  db_clock :: "instant list"
  db_nonces :: "nat list"

text \<open>
  \<open>Fernet\<close>: \<open>encrypt\<close> draws a nonce, \<open>decrypt\<close> gives \<open>None\<close> for an InvalidToken. \<open>st_shown\<close> is
  \<open>repr\<close> of a damaged version.
\<close>

record connection_store =
  st_path :: path
  st_encrypt :: "nat \<Rightarrow> pystr \<Rightarrow> pystr"
  st_decrypt :: "pystr \<Rightarrow> pystr option"
  st_shown :: "pystr \<Rightarrow> pystr"
  st_ip :: ip_parser

definition cipher_ok :: "connection_store \<Rightarrow> bool" where
  "cipher_ok st \<longleftrightarrow> (\<forall>n m. st_decrypt st (st_encrypt st n m) = Some m \<and>
     st_encrypt st n m \<noteq> [] \<and> list_all (\<lambda>c. c < 128) (st_encrypt st n m))"

definition SCHEMA_VERSION :: pystr where "SCHEMA_VERSION = lit ''1''"
definition KEY_CHECK :: pystr where "KEY_CHECK = lit ''databridge-key-check-v1''"
definition REQUIRED_TABLES :: "pystr list" where
  "REQUIRED_TABLES = [lit ''connections'', lit ''transfers'']"

text \<open>The tables that the statements of \<open>_SCHEMA\<close> create.\<close>

definition SCHEMA_TABLES :: "pystr list" where
  "SCHEMA_TABLES = [lit ''metadata'', lit ''connections'', lit ''transfers'']"

section \<open>Transactions\<close>

text \<open>\<open>with self._connect() as connection: ...\<close>: committed at the end, rolled back on any exception.\<close>

definition connected :: "(database, 'a) io \<Rightarrow> ('w db_world_scheme, 'a) io" where
  "connected body =
     (\<lambda>w. let fault = (case db_faults w of [] \<Rightarrow> No_fault | f # _ \<Rightarrow> f);
              w1 = w\<lparr>db_faults := tl (db_faults w)\<rparr>
          in case fault of
               At_start e \<Rightarrow> (Inl e, w1)
             | _ \<Rightarrow>
                 (case body (db w) of
                    (Inl e, _) \<Rightarrow> (Inl e, w1)
                  | (Inr x, d) \<Rightarrow>
                      (case fault of
                         At_commit e \<Rightarrow> (Inl e, w1)
                       | _ \<Rightarrow> (Inr x, w1\<lparr>db := d\<rparr>))))"

text \<open>A statement on a table that does not exist is an OperationalError.\<close>

definition on_table :: "string \<Rightarrow> (database, 'a) io \<Rightarrow> (database, 'a) io" where
  "on_table t m =
     bind (get db_tables) (\<lambda>ts.
       if lit t \<in> set ts then m
       else raise (SqliteError ''OperationalError'' (Some (lit ''SQLITE_ERROR''))))"

definition unique_violation :: exn where
  "unique_violation = SqliteError ''IntegrityError'' (Some (lit ''SQLITE_CONSTRAINT_PRIMARYKEY''))"

text \<open>\<open>_now()\<close>.\<close>

definition epoch :: datetime where
  "epoch = \<lparr>d_year = 1970, d_month = 1, d_day = 1, d_hour = 0, d_minute = 0, d_second = 0, d_micro = 0\<rparr>"

definition now :: "('w db_world_scheme, pystr) io" where
  "now = (\<lambda>w. case db_clock w of
      [] \<Rightarrow> (Inr (isoformat epoch), w)
    | d # ds \<Rightarrow> (Inr (isoformat (Rep_instant d)), w\<lparr>db_clock := ds\<rparr>))"

definition encrypted :: "connection_store \<Rightarrow> pystr \<Rightarrow> ('w db_world_scheme, pystr) io" where
  "encrypted st m = (\<lambda>w. case db_nonces w of
      [] \<Rightarrow> (Inr (st_encrypt st 0 m), w)
    | n # ns \<Rightarrow> (Inr (st_encrypt st n m), w\<lparr>db_nonces := ns\<rparr>))"

section \<open>Connections\<close>

definition connection_not_found :: "pystr \<Rightarrow> exn" where
  "connection_not_found name =
     db_error CONNECTION_NOT_FOUND (lit ''Connection '' @ [39] @ name @ [39] @ lit '' not found'')"

text \<open>\<open>_connection_models\<close>: only the registered types have models.\<close>

definition connection_models :: "pystr \<Rightarrow> unit result" where
  "connection_models ctype =
     (if ctype \<in> set CONNECTION_TYPE_NAMES then Inr () else Inl (PyError ''RuntimeError''))"

text \<open>The public settings in the order of the model's fields, and the secrets.\<close>

fun public_settings :: "connection \<Rightarrow> (pystr \<times> json) list" where
  "public_settings (LocalConnection _ p) = [(lit ''path'', JStr p)]"
| "public_settings (SFTPConnection _ host port username _ root) =
     [(lit ''host'', JStr host), (lit ''port'', JInt (int port)), (lit ''username'', JStr username),
      (lit ''root'', JStr root)]"

fun secret_settings :: "connection \<Rightarrow> (pystr \<times> json) list" where
  "secret_settings (LocalConnection _ _) = []"
| "secret_settings (SFTPConnection _ _ _ _ password _) = [(lit ''password'', JStr password)]"

text \<open>\<open>_columns\<close>.\<close>

definition columns ::
  "connection_store \<Rightarrow> connection \<Rightarrow> ('w db_world_scheme, (pystr \<times> json) list \<times> pystr option) io" where
  "columns st item =
     bind (of_result (connection_models (conn_type item))) (\<lambda>_.
       if secret_settings item = [] then ret (public_settings item, None)
       else bind (encrypted st (dumps (secret_settings item))) (\<lambda>c.
              ret (public_settings item, Some c)))"

text \<open>
  The fields that pydantic gets, as a mapping. A model refuses missing and unknown fields
  (\<open>extra="forbid"\<close>) and checks each value.
\<close>

definition text_field :: "(pystr \<Rightarrow> bool) \<Rightarrow> json option \<Rightarrow> pystr option" where
  "text_field check v = (case v of Some (JStr s) \<Rightarrow> if check s then Some s else None | _ \<Rightarrow> None)"

definition port_field :: "json option \<Rightarrow> nat option" where
  "port_field v =
     (case v of Some (JInt i) \<Rightarrow> if 0 < i \<and> i \<le> 65535 then Some (nat i) else None | _ \<Rightarrow> None)"

definition host_field :: "ip_parser \<Rightarrow> json option \<Rightarrow> pystr option" where
  "host_field ip v = (case v of Some (JStr s) \<Rightarrow> HostName ip s | _ \<Rightarrow> None)"

definition merge_dict :: "(pystr \<times> json) list \<Rightarrow> (pystr \<times> json) list \<Rightarrow> (pystr \<times> json) list" where
  "merge_dict d e = foldl (\<lambda>d (k, v). dict_set k v d) d e"

definition name_and_type :: "pystr \<Rightarrow> pystr \<Rightarrow> (pystr \<times> json) list" where
  "name_and_type name ctype = [(lit ''name'', JStr name), (lit ''type'', JStr ctype)]"

text \<open>
  \<open>model_validate\<close> on what the columns of a row hold. The user name may be given as \<open>user\<close>, its
  other alias; both together are one field too many. The coercions of pydantic (a number in a string, a
  float that is integral) are not modelled: the columns hold what \<open>model_dump\<close> wrote.
\<close>

definition model_validate ::
  "ip_parser \<Rightarrow> pystr \<Rightarrow> (pystr \<times> json) list \<Rightarrow> connection result" where
  "model_validate ip ctype given =
     (let f = map_of given;
          known = (\<lambda>names. set (map fst given) \<subseteq> set (map lit names));
          invalid = Inl (PyError ''ValidationError'');
          user = (if f (lit ''username'') = None then ''user'' else ''username'')
      in case text_field ConnectionName (f (lit ''name'')) of
           None \<Rightarrow> invalid
         | Some name \<Rightarrow>
             if text_field (\<lambda>t. t = ctype) (f (lit ''type'')) = None then invalid
             else if ctype = lit ''local'' then
               (case text_field SettingText (f (lit ''path'')) of
                  Some p \<Rightarrow>
                    if known [''name'', ''type'', ''path''] then Inr (LocalConnection name p) else invalid
                | None \<Rightarrow> invalid)
             else
               (case (host_field ip (f (lit ''host'')), port_field (f (lit ''port'')),
                      text_field SettingText (f (lit user)),
                      text_field Secret (f (lit ''password'')), text_field SettingText (f (lit ''root''))) of
                  (Some host, Some port, Some username, Some password, Some root) \<Rightarrow>
                    if known [''name'', ''type'', ''host'', ''port'', user, ''password'', ''root'']
                    then Inr (SFTPConnection name host port username password root) else invalid
                | _ \<Rightarrow> invalid))"

text \<open>\<open>_view\<close>: the view models check types only and ignore other fields.\<close>

definition view_of ::
  "pystr \<Rightarrow> pystr \<Rightarrow> (pystr \<times> json) list \<Rightarrow> connection_view result" where
  "view_of name ctype settings =
     (case connection_models ctype of
        Inl e \<Rightarrow> Inl e
      | Inr _ \<Rightarrow>
          (let f = map_of (merge_dict (name_and_type name ctype) settings);
               txt = (\<lambda>k. text_field (\<lambda>_. True) (f (lit k)));
               invalid = Inl (PyError ''ValidationError'')
           in if text_field (\<lambda>t. t = ctype) (f (lit ''type'')) = None then invalid
              else if ctype = lit ''local'' then
                (case (txt ''name'', txt ''path'') of
                   (Some n, Some p) \<Rightarrow> Inr (LocalConnectionView n p)
                 | _ \<Rightarrow> invalid)
              else
                (case (txt ''name'', txt ''host'', f (lit ''port''), txt ''username'', txt ''root'') of
                   (Some n, Some host, Some (JInt port), Some username, Some root) \<Rightarrow>
                     Inr (SFTPConnectionView n host (nat port) username root)
                 | _ \<Rightarrow> invalid)))"

definition find_connection :: "pystr \<Rightarrow> (database, connection_row option) io" where
  "find_connection name =
     on_table ''connections'' (get (\<lambda>d. find (\<lambda>r. cr_name r = name) (db_connections d)))"

definition insert_connection :: "connection_row \<Rightarrow> (database, unit) io" where
  "insert_connection row =
     on_table ''connections''
       (bind (get db_connections) (\<lambda>rows.
          if cr_name row \<in> set (map cr_name rows) then raise unique_violation
          else modify (\<lambda>d. d\<lparr>db_connections := db_connections d @ [row]\<rparr>)))"

text \<open>The statements return their \<open>rowcount\<close>.\<close>

definition update_connection :: "connection_row \<Rightarrow> (database, nat) io" where
  "update_connection row =
     on_table ''connections''
       (bind (get (\<lambda>d. length (filter (\<lambda>r. cr_name r = cr_name row) (db_connections d)))) (\<lambda>n.
        bind (modify (\<lambda>d. d\<lparr>db_connections :=
                map (\<lambda>r. if cr_name r = cr_name row then row else r) (db_connections d)\<rparr>)) (\<lambda>_.
        ret n)))"

definition delete_connection :: "pystr \<Rightarrow> (database, nat) io" where
  "delete_connection name =
     on_table ''connections''
       (bind (get (\<lambda>d. length (filter (\<lambda>r. cr_name r = name) (db_connections d)))) (\<lambda>n.
        bind (modify (\<lambda>d. d\<lparr>db_connections := filter (\<lambda>r. cr_name r \<noteq> name) (db_connections d)\<rparr>)) (\<lambda>_.
        ret n)))"

definition row_of :: "connection \<Rightarrow> (pystr \<times> json) list \<Rightarrow> pystr option \<Rightarrow> connection_row" where
  "row_of item settings ciphertext =
     \<lparr>cr_name = conn_name item, cr_type = conn_type item, cr_settings = dumps settings,
      cr_ciphertext = ciphertext\<rparr>"

definition store_create ::
  "connection_store \<Rightarrow> connection \<Rightarrow> ('w db_world_scheme, connection_view) io" where
  "store_create st item =
     bind (columns st item) (\<lambda>(settings, ciphertext).
     bind
       (translate
         (\<lambda>e. if e = unique_violation then
                db_error CONNECTION_EXISTS
                  (lit ''Connection '' @ [39] @ conn_name item @ [39] @ lit '' already exists'')
              else e)
         (connected (insert_connection (row_of item settings ciphertext)))) (\<lambda>_.
     of_result (view_of (conn_name item) (conn_type item) settings)))"

definition store_replace ::
  "connection_store \<Rightarrow> connection \<Rightarrow> ('w db_world_scheme, connection_view) io" where
  "store_replace st item =
     bind (columns st item) (\<lambda>(settings, ciphertext).
     bind (connected (update_connection (row_of item settings ciphertext))) (\<lambda>changed.
       if changed \<noteq> 1 then raise (connection_not_found (conn_name item))
       else of_result (view_of (conn_name item) (conn_type item) settings)))"

definition store_delete :: "pystr \<Rightarrow> ('w db_world_scheme, unit) io" where
  "store_delete name =
     bind (connected (delete_connection name)) (\<lambda>deleted.
       if deleted \<noteq> 1 then raise (connection_not_found name) else ret ())"

text \<open>\<open>json.loads\<close> of a column that holds an object; \<open>**\<close> of anything else is a TypeError.\<close>

definition loads_dict :: "pystr \<Rightarrow> (pystr \<times> json) list result" where
  "loads_dict s = (case loads s of
     Inl e \<Rightarrow> Inl e | Inr (JObj d) \<Rightarrow> Inr d | Inr _ \<Rightarrow> Inl (PyError ''TypeError''))"

definition stored_secrets ::
  "connection_store \<Rightarrow> pystr option \<Rightarrow> (pystr \<times> json) list result" where
  "stored_secrets st c =
     (case c of
        None \<Rightarrow> Inr []
      | Some token \<Rightarrow>
          (case st_decrypt st token of
             None \<Rightarrow> Inl (PyError ''RuntimeError'')
           | Some text \<Rightarrow> loads_dict text))"

definition store_get :: "connection_store \<Rightarrow> pystr \<Rightarrow> ('w db_world_scheme, connection) io" where
  "store_get st name =
     bind (connected (find_connection name)) (\<lambda>found. case found of
       None \<Rightarrow> raise (connection_not_found name)
     | Some row \<Rightarrow>
         bind (of_result (connection_models (cr_type row))) (\<lambda>_.
         bind (of_result (stored_secrets st (cr_ciphertext row))) (\<lambda>secrets.
         bind (of_result (loads_dict (cr_settings row))) (\<lambda>settings.
         of_result (model_validate (st_ip st) (cr_type row)
           (merge_dict (merge_dict (name_and_type name (cr_type row)) settings) secrets))))))"

definition view_of_row :: "connection_row \<Rightarrow> connection_view result" where
  "view_of_row row =
     (case loads_dict (cr_settings row) of
        Inl e \<Rightarrow> Inl e | Inr settings \<Rightarrow> view_of (cr_name row) (cr_type row) settings)"

definition store_get_public :: "pystr \<Rightarrow> ('w db_world_scheme, connection_view) io" where
  "store_get_public name =
     bind (connected (find_connection name)) (\<lambda>found. case found of
       None \<Rightarrow> raise (connection_not_found name)
     | Some row \<Rightarrow> of_result (view_of_row row))"

text \<open>A list comprehension whose element expression may raise.\<close>

fun map_result :: "('a \<Rightarrow> 'b result) \<Rightarrow> 'a list \<Rightarrow> 'b list result" where
  "map_result f [] = Inr []"
| "map_result f (x # xs) =
     (case f x of Inl e \<Rightarrow> Inl e
      | Inr y \<Rightarrow> (case map_result f xs of Inl e \<Rightarrow> Inl e | Inr ys \<Rightarrow> Inr (y # ys)))"

definition store_list_public :: "('w db_world_scheme, connection_view list) io" where
  "store_list_public =
     bind (connected (on_table ''connections'' (get (\<lambda>d. sort_key cr_name (db_connections d))))) (\<lambda>rows.
       of_result (map_result view_of_row rows))"

section \<open>Transfer records\<close>

primrec status_text :: "transfer_status \<Rightarrow> pystr" where
  "status_text Running = lit ''running''"
| "status_text Publishing = lit ''publishing''"
| "status_text Completed = lit ''completed''"
| "status_text Failed = lit ''failed''"

primrec phase_text :: "failure_phase \<Rightarrow> pystr" where
  "phase_text source_lookup = lit ''source_lookup''"
| "phase_text destination_lookup = lit ''destination_lookup''"
| "phase_text source_open = lit ''source_open''"
| "phase_text destination_open = lit ''destination_open''"
| "phase_text source_read = lit ''source_read''"
| "phase_text destination_write = lit ''destination_write''"
| "phase_text publication = lit ''publication''"
| "phase_text interruption = lit ''interruption''"

definition all_statuses :: "transfer_status list" where
  "all_statuses = [Running, Publishing, Completed, Failed]"

definition all_phases :: "failure_phase list" where
  "all_phases = [source_lookup, destination_lookup, source_open, destination_open, source_read,
     destination_write, publication, interruption]"

text \<open>The member of a closed set of values that a column's text names.\<close>

definition named :: "('a \<Rightarrow> pystr) \<Rightarrow> 'a list \<Rightarrow> pystr \<Rightarrow> 'a option" where
  "named text values s = find (\<lambda>v. text v = s) values"

definition named_option :: "('a \<Rightarrow> pystr) \<Rightarrow> 'a list \<Rightarrow> pystr option \<Rightarrow> 'a option option" where
  "named_option text values s =
     (case s of None \<Rightarrow> Some None | Some t \<Rightarrow> map_option Some (named text values t))"

text \<open>An aware time: the patterns that \<open>isoformat\<close> writes, \<open>d\<close> for a digit, with fields in range.\<close>

definition matches :: "pystr \<Rightarrow> pystr \<Rightarrow> bool" where
  "matches pattern s = list_all2 (\<lambda>p c. if p = 100 then is_digit c else p = c) pattern s"

definition time_text :: "pystr \<Rightarrow> bool" where
  "time_text s \<longleftrightarrow>
     (matches (lit ''dddd-dd-ddTdd:dd:dd+00:00'') s \<or> matches (lit ''dddd-dd-ddTdd:dd:dd.dddddd+00:00'') s) \<and>
     datetime_ok
       \<lparr>d_year = nat_of_digits (take 4 s), d_month = nat_of_digits (take 2 (drop 5 s)),
        d_day = nat_of_digits (take 2 (drop 8 s)), d_hour = nat_of_digits (take 2 (drop 11 s)),
        d_minute = nat_of_digits (take 2 (drop 14 s)), d_second = nat_of_digits (take 2 (drop 17 s)),
        d_micro = 0\<rparr>"

text \<open>\<open>TransferRecord.model_validate(dict(row))\<close>.\<close>

definition record_of_row :: "transfer_row \<Rightarrow> transfer_record result" where
  "record_of_row row =
     (case (named status_text all_statuses (t_status row),
            named_option phase_text all_phases (t_failure_phase row),
            named_option code_value all_error_codes (t_error_code row)) of
        (Some status, Some phase, Some code) \<Rightarrow>
          if time_text (t_started_at row) \<and> time_text (t_updated_at row) \<and>
             pred_option time_text (t_completed_at row) \<and> pred_option time_text (t_failed_at row)
          then Inr
            \<lparr>tr_id = t_id row, tr_source = t_source row, tr_source_file = t_source_file row,
             tr_destination = t_destination row, tr_destination_file = t_destination_file row,
             tr_overwrite = (t_overwrite row \<noteq> 0), tr_status = status,
             tr_started_at = t_started_at row, tr_updated_at = t_updated_at row,
             tr_completed_at = t_completed_at row, tr_failed_at = t_failed_at row,
             tr_bytes_copied = t_bytes_copied row, tr_failure_phase = phase,
             tr_error_code = code, tr_error = t_error row\<rparr>
          else Inl (PyError ''ValidationError'')
      | _ \<Rightarrow> Inl (PyError ''ValidationError''))"

text \<open>\<open>_recording\<close>: an error of SQLite becomes a typed error that cites the transfer.\<close>

definition record_error :: "pystr \<Rightarrow> exn \<Rightarrow> exn" where
  "record_error transfer_id e =
     (case e of
        SqliteError class name \<Rightarrow>
          DataBridgeError TRANSFER_RECORD_FAILED
            (lit ''The transfer record could not be saved ('' @
             (case name of Some n \<Rightarrow> n | None \<Rightarrow> lit class) @ lit '')'') (Some transfer_id)
      | _ \<Rightarrow> e)"

definition recording :: "pystr \<Rightarrow> (database, 'a) io \<Rightarrow> ('w db_world_scheme, 'a) io" where
  "recording transfer_id body = translate (record_error transfer_id) (connected body)"

text \<open>\<open>_change\<close>: an UPDATE of the rows that satisfy its WHERE clause must change exactly one.\<close>

definition state_conflict :: "pystr \<Rightarrow> exn" where
  "state_conflict transfer_id =
     DataBridgeError TRANSFER_STATE_CONFLICT
       (lit ''The transfer record is not in the state this change requires; another operation '' @
        lit ''already changed it'') (Some transfer_id)"

definition change ::
  "pystr \<Rightarrow> (transfer_row \<Rightarrow> bool) \<Rightarrow> (transfer_row \<Rightarrow> transfer_row) \<Rightarrow> (database, unit) io" where
  "change transfer_id applies update =
     on_table ''transfers''
       (bind (get (\<lambda>d. length (filter applies (db_transfers d)))) (\<lambda>rowcount.
        bind (modify (\<lambda>d. d\<lparr>db_transfers :=
                map (\<lambda>r. if applies r then update r else r) (db_transfers d)\<rparr>)) (\<lambda>_.
        if rowcount \<noteq> 1 then raise (state_conflict transfer_id) else ret ())))"

definition transition ::
  "pystr \<Rightarrow> (transfer_row \<Rightarrow> bool) \<Rightarrow> (transfer_row \<Rightarrow> transfer_row) \<Rightarrow> ('w db_world_scheme, unit) io" where
  "transition transfer_id applies update = recording transfer_id (change transfer_id applies update)"

text \<open>\<open>WHERE id = ? AND status IN (...)\<close>.\<close>

definition in_status :: "pystr \<Rightarrow> transfer_status list \<Rightarrow> transfer_row \<Rightarrow> bool" where
  "in_status transfer_id statuses row \<longleftrightarrow>
     t_id row = transfer_id \<and> t_status row \<in> set (map status_text statuses)"

definition start_transfer :: "pystr \<Rightarrow> transfer_request \<Rightarrow> ('w db_world_scheme, unit) io" where
  "start_transfer transfer_id request =
     bind now (\<lambda>t.
       recording transfer_id
         (on_table ''transfers''
           (bind (get db_transfers) (\<lambda>rows.
              if transfer_id \<in> set (map t_id rows) then raise unique_violation
              else modify (\<lambda>d. d\<lparr>db_transfers := db_transfers d @
                [\<lparr>t_id = transfer_id, t_source = rq_source request,
                  t_source_file = rq_source_file request, t_destination = rq_destination request,
                  t_destination_file = rq_destination_file request,
                  t_overwrite = (if rq_overwrite request then 1 else 0),
                  t_status = status_text Running, t_started_at = t, t_updated_at = t,
                  t_completed_at = None, t_failed_at = None, t_bytes_copied = 0,
                  t_failure_phase = None, t_error_code = None, t_error = None\<rparr>]\<rparr>)))))"

definition record_progress :: "pystr \<Rightarrow> nat \<Rightarrow> ('w db_world_scheme, unit) io" where
  "record_progress transfer_id bytes_copied =
     bind now (\<lambda>t.
       transition transfer_id (in_status transfer_id [Running])
         (\<lambda>r. r\<lparr>t_bytes_copied := bytes_copied, t_updated_at := t\<rparr>))"

definition mark_publishing :: "pystr \<Rightarrow> nat \<Rightarrow> ('w db_world_scheme, unit) io" where
  "mark_publishing transfer_id bytes_copied =
     bind now (\<lambda>t.
       transition transfer_id (in_status transfer_id [Running])
         (\<lambda>r. r\<lparr>t_status := status_text Publishing, t_bytes_copied := bytes_copied, t_updated_at := t\<rparr>))"

definition find_transfer :: "pystr \<Rightarrow> (database, transfer_row option) io" where
  "find_transfer transfer_id =
     on_table ''transfers'' (get (\<lambda>d. find (\<lambda>r. t_id r = transfer_id) (db_transfers d)))"

definition finish_transfer :: "pystr \<Rightarrow> ('w db_world_scheme, transfer_record) io" where
  "finish_transfer transfer_id =
     bind now (\<lambda>t.
       recording transfer_id
         (bind (change transfer_id (in_status transfer_id [Publishing])
                 (\<lambda>r. r\<lparr>t_status := status_text Completed, t_completed_at := Some t, t_updated_at := t\<rparr>)) (\<lambda>_.
          bind (find_transfer transfer_id) (\<lambda>row. case row of
            None \<Rightarrow> raise (PyError ''TypeError'')
          | Some r \<Rightarrow> of_result (record_of_row r)))))"

definition fail_transfer ::
  "pystr \<Rightarrow> nat \<Rightarrow> failure_phase \<Rightarrow> error_code \<Rightarrow> pystr \<Rightarrow> ('w db_world_scheme, unit) io" where
  "fail_transfer transfer_id bytes_copied phase code message =
     bind now (\<lambda>t.
       transition transfer_id (in_status transfer_id [Running, Publishing])
         (\<lambda>r. r\<lparr>t_status := status_text Failed, t_failed_at := Some t, t_updated_at := t,
                t_bytes_copied := bytes_copied, t_failure_phase := Some (phase_text phase),
                t_error_code := Some (code_value code), t_error := Some message\<rparr>))"

definition get_transfer :: "pystr \<Rightarrow> ('w db_world_scheme, transfer_record) io" where
  "get_transfer transfer_id =
     bind (connected (find_transfer transfer_id)) (\<lambda>row. case row of
       None \<Rightarrow> raise (db_error TRANSFER_NOT_FOUND (lit ''Transfer not found''))
     | Some r \<Rightarrow> of_result (record_of_row r))"

text \<open>
  \<open>ORDER BY started_at DESC, rowid DESC LIMIT\<close>: sorted by the text, ties newest rowid first.
\<close>

definition newest_first :: "transfer_row list \<Rightarrow> transfer_row list" where
  "newest_first rows = rev (sort_key t_started_at rows)"

definition list_transfers ::
  "transfer_status option \<Rightarrow> nat \<Rightarrow> ('w db_world_scheme, transfer_record list) io" where
  "list_transfers status limit =
     bind (connected (on_table ''transfers'' (get (\<lambda>d.
            take limit (newest_first
              (filter (\<lambda>r. case status of None \<Rightarrow> True | Some s \<Rightarrow> t_status r = status_text s)
                (db_transfers d))))))) (\<lambda>rows.
       of_result (map_result record_of_row rows))"

section \<open>Startup\<close>

definition interrupted_copying :: pystr where
  "interrupted_copying =
     lit ''The service stopped before the transfer finished; the destination is unchanged, '' @
     lit ''but its staging file may remain''"

definition interrupted_publishing :: pystr where
  "interrupted_publishing =
     lit ''The service stopped while publishing; the destination may already contain the new file''"

definition recover :: "pystr \<Rightarrow> (database, unit) io" where
  "recover t =
     on_table ''transfers''
       (modify (\<lambda>d. d\<lparr>db_transfers := map (\<lambda>r.
          if t_status r \<in> set (map status_text [Running, Publishing]) then
            r\<lparr>t_status := status_text Failed, t_updated_at := t, t_failed_at := Some t,
              t_failure_phase := Some (phase_text interruption),
              t_error_code := Some (code_value TRANSFER_INTERRUPTED),
              t_error := Some (if t_status r = status_text Publishing then interrupted_publishing
                               else interrupted_copying)\<rparr>
          else r) (db_transfers d)\<rparr>))"

definition unusable :: "connection_store \<Rightarrow> pystr \<Rightarrow> exn" where
  "unusable st problem =
     StartupError (path_text (st_path st) @ [32] @ problem @
       lit ''; move it aside so the service can create a new database'')"

fun join_text :: "pystr \<Rightarrow> pystr list \<Rightarrow> pystr" where
  "join_text sep [] = []"
| "join_text sep [x] = x"
| "join_text sep (x # xs) = x @ sep @ join_text sep xs"

definition verify_existing :: "connection_store \<Rightarrow> pystr list \<Rightarrow> (database, unit) io" where
  "verify_existing st tables =
     bind (get (\<lambda>d. if lit ''metadata'' \<in> set tables then map_of (rev (db_metadata d)) else Map.empty))
       (\<lambda>metadata. case metadata (lit ''schema_version'') of
          None \<Rightarrow> raise (unusable st (lit ''has no DataBridge schema version''))
        | Some version \<Rightarrow>
            if version \<noteq> SCHEMA_VERSION then
              raise (unusable st (lit ''uses schema version '' @ st_shown st version @
                lit '', but this service needs version '' @ [39] @ SCHEMA_VERSION @ [39]))
            else if filter (\<lambda>t. t \<notin> set tables) REQUIRED_TABLES \<noteq> [] then
              raise (unusable st (lit ''has no '' @
                join_text (lit '' or '') (filter (\<lambda>t. t \<notin> set tables) REQUIRED_TABLES) @ lit '' table''))
            else (case metadata (lit ''key_check'') of
                None \<Rightarrow> raise (unusable st (lit ''has no valid DataBridge key check''))
              | Some marker \<Rightarrow>
                  if marker = [] \<or> \<not> list_all (\<lambda>c. c < 128) marker then
                    raise (unusable st (lit ''has no valid DataBridge key check''))
                  else if st_decrypt st marker \<noteq> Some KEY_CHECK then
                    raise (StartupError
                      (lit ''DATABRIDGE_ENCRYPTION_KEY does not match the database '' @
                       path_text (st_path st) @
                       lit ''; start with the key that created it, or move the database aside to start with '' @
                       lit ''no saved connections''))
                  else ret ()))"

text \<open>
  The statements of \<open>_SCHEMA\<close>. The driver begins a transaction at the first INSERT or UPDATE only, so
  every CREATE commits on its own and stays when a later statement fails. The index has no rows of its
  own here.
\<close>

definition create_table :: "string \<Rightarrow> (database, unit) io" where
  "create_table table =
     modify (\<lambda>d. d\<lparr>db_tables := db_tables d @ [lit table],
       db_metadata := (if table = ''metadata'' then [] else db_metadata d),
       db_connections := (if table = ''connections'' then [] else db_connections d),
       db_transfers := (if table = ''transfers'' then [] else db_transfers d)\<rparr>)"

definition create_schema :: "('w db_world_scheme, unit) io" where
  "create_schema =
     bind (connected (create_table ''metadata'')) (\<lambda>_.
     bind (connected (create_table ''connections'')) (\<lambda>_.
     bind (connected (create_table ''transfers'')) (\<lambda>_.
     connected (ret ()))))"

definition insert_metadata :: "pystr \<Rightarrow> (database, unit) io" where
  "insert_metadata key_check =
     on_table ''metadata'' (modify (\<lambda>d. d\<lparr>db_metadata := db_metadata d @
       [(lit ''schema_version'', SCHEMA_VERSION), (lit ''key_check'', key_check)]\<rparr>))"

definition startup_error :: "connection_store \<Rightarrow> exn \<Rightarrow> exn" where
  "startup_error st e =
     (case e of
        SqliteError class (Some name) \<Rightarrow>
          if name = lit ''SQLITE_NOTADB'' then unusable st (lit ''is not a SQLite database'')
          else if startswith name (lit ''SQLITE_CORRUPT'') then unusable st (lit ''is damaged'')
          else e
      | PyError s \<Rightarrow> if s = ''UnicodeDecodeError'' then unusable st (lit ''is damaged'') else e
      | _ \<Rightarrow> e)"

text \<open>
  The key check is encrypted and the time read inside the block; both are drawn before it here,
  which only spends a nonce that a database with tables does not need. Each part of the block that
  commits on its own may meet a fault of its own.
\<close>

definition initialize_database :: "connection_store \<Rightarrow> ('w db_world_scheme, unit) io" where
  "initialize_database st =
     bind (encrypted st KEY_CHECK) (\<lambda>key_check.
     bind now (\<lambda>t.
     translate (startup_error st)
       (bind (connected (get db_tables)) (\<lambda>tables.
        if tables \<noteq> [] then
          connected (bind (verify_existing st tables) (\<lambda>_. recover t))
        else
          bind create_schema (\<lambda>_.
          connected (bind (insert_metadata key_check) (\<lambda>_. recover t)))))))"

text \<open>\<open>_private_directory\<close>, and \<open>initialize\<close> with the file of the database.\<close>

definition private_directory :: "path \<Rightarrow> ('w os_world_scheme, unit) io" where
  "private_directory directory =
     bind (path_exists directory) (\<lambda>there.
       if \<not> there then path_mkdir directory 448 True True else ret ())"

definition initialize :: "connection_store \<Rightarrow> ('w db_world_scheme, unit) io" where
  "initialize st =
     bind (private_directory (butlast (st_path st))) (\<lambda>_.
     bind (sys_open_create (st_path st) 384) (\<lambda>d.
     bind (try_finally (sys_fchmod d 384) (sys_close d)) (\<lambda>_.
     initialize_database st)))"

end
