(* ===== verification/Loops.thy ===== *)
theory Loops
  imports Effects
begin

text \<open>
  Statements that may run forever: such a computation gives \<open>None\<close> when it does not return, and
  otherwise what a statement of \<open>Effects\<close> gives. The combinators are those of \<open>Effects\<close>; the
  triples say what holds when the statement returns and, if asked, that it does.
\<close>

section \<open>Computations that may not return\<close>

type_synonym ('s, 'a) run = "'s \<Rightarrow> ('a result \<times> 's) option"

definition total :: "('s, 'a) io \<Rightarrow> ('s, 'a) run" where
  "total m = (\<lambda>s. Some (m s))"

definition pbind :: "('s, 'a) run \<Rightarrow> ('a \<Rightarrow> ('s, 'b) run) \<Rightarrow> ('s, 'b) run" where
  "pbind m f =
     (\<lambda>s. case m s of
        None \<Rightarrow> None
      | Some (Inl e, s') \<Rightarrow> Some (Inl e, s')
      | Some (Inr x, s') \<Rightarrow> f x s')"

definition ptry_except :: "('s, 'a) run \<Rightarrow> (exn \<Rightarrow> ('s, 'a) run) \<Rightarrow> ('s, 'a) run" where
  "ptry_except m h =
     (\<lambda>s. case m s of
        None \<Rightarrow> None
      | Some (Inl e, s') \<Rightarrow> h e s'
      | Some (Inr x, s') \<Rightarrow> Some (Inr x, s'))"

definition ptry_finally :: "('s, 'a) run \<Rightarrow> ('s, unit) io \<Rightarrow> ('s, 'a) run" where
  "ptry_finally m c =
     (\<lambda>s. case m s of
        None \<Rightarrow> None
      | Some (r, s') \<Rightarrow>
          Some (case c s' of (Inl e, s'') \<Rightarrow> (Inl e, s'') | (Inr _, s'') \<Rightarrow> (r, s'')))"

text \<open>The \<open>with\<close> statement, as \<open>with_block\<close>, over a body that may not return.\<close>

definition pwith_block ::
  "('w, 'o) io \<Rightarrow> ('o \<times> 'w, unit) run \<Rightarrow> (exn option \<Rightarrow> ('o \<times> 'w, unit) io) \<Rightarrow> ('w, unit) run" where
  "pwith_block enter body exit =
     (\<lambda>w. case enter w of
        (Inl e, w') \<Rightarrow> Some (Inl e, w')
      | (Inr obj, w') \<Rightarrow>
          (case body (obj, w') of
             None \<Rightarrow> None
           | Some (Inl e, s) \<Rightarrow> Some (leave_block (exit (Some e)) s)
           | Some (Inr _, s) \<Rightarrow> Some (leave_block (exit None) s)))"

text \<open>\<open>while True\<close>: the body tells whether to go on or to return.\<close>

partial_function (option) repeat_loop :: "('s, bool) io \<Rightarrow> 's \<Rightarrow> (unit result \<times> 's) option" where
  "repeat_loop step s =
     (case step s of
        (Inl e, s') \<Rightarrow> Some (Inl e, s')
      | (Inr again, s') \<Rightarrow> if again then repeat_loop step s' else Some (Inr (), s'))"

section \<open>Object statements\<close>

text \<open>
  A stream method runs on the stream and the world; \<open>stream\<close> runs it where an object \<open>'o\<close> is kept
  beside the world.
\<close>

definition stream :: "('r \<times> 'w, 'a) io \<Rightarrow> ('r \<times> ('o \<times> 'w), 'a) io" where
  "stream m = (\<lambda>(r, (obj, w)). case m (r, w) of (x, (r', w')) \<Rightarrow> (x, (r', (obj, w'))))"

lemma stream_apply [io_simps]:
  "stream m (r, (obj, w)) = (case m (r, w) of (x, (r', w')) \<Rightarrow> (x, (r', (obj, w'))))"
  by (simp add: stream_def)

lemma stream_eq [simp]:
  "stream m (r, (obj, w)) = (x, (r', (obj', w'))) \<longleftrightarrow> obj' = obj \<and> m (r, w) = (x, (r', w'))"
  by (auto simp: stream_def split: prod.splits)

section \<open>Triples\<close>

text \<open>
  \<open>triple t P m Q E\<close>: from a state satisfying \<open>P\<close> the statement \<open>m\<close>, when it returns, ends with a
  value and \<open>Q\<close> or with an exception and \<open>E\<close>; if \<open>t\<close>, it does return.
\<close>

definition ends ::
  "bool \<Rightarrow> ('a \<Rightarrow> 's \<Rightarrow> bool) \<Rightarrow> (exn \<Rightarrow> 's \<Rightarrow> bool) \<Rightarrow> ('a result \<times> 's) option \<Rightarrow> bool" where
  "ends t Q E y =
     (case y of None \<Rightarrow> \<not> t | Some (Inl e, s) \<Rightarrow> E e s | Some (Inr x, s) \<Rightarrow> Q x s)"

lemma ends_simps [simp]:
  "ends t Q E None \<longleftrightarrow> \<not> t" "ends t Q E (Some (Inl e, s)) \<longleftrightarrow> E e s"
  "ends t Q E (Some (Inr x, s)) \<longleftrightarrow> Q x s"
  by (simp_all add: ends_def)

lemma run_cases:
  obtains (forever) "y = None" | (failed) e s where "y = Some (Inl e, s)"
  | (returned) x s where "y = Some (Inr x, s)"
  by (metis option.exhaust prod.exhaust sum.exhaust)

definition triple ::
  "bool \<Rightarrow> ('s \<Rightarrow> bool) \<Rightarrow> ('s, 'a) run \<Rightarrow> ('a \<Rightarrow> 's \<Rightarrow> bool) \<Rightarrow> (exn \<Rightarrow> 's \<Rightarrow> bool) \<Rightarrow> bool" where
  "triple t P m Q E \<longleftrightarrow> (\<forall>s. P s \<longrightarrow> ends t Q E (m s))"

lemma tripleI: "(\<And>s. P s \<Longrightarrow> ends t Q E (m s)) \<Longrightarrow> triple t P m Q E"
  by (simp add: triple_def)

lemma tripleD: "triple t P m Q E \<Longrightarrow> P s \<Longrightarrow> ends t Q E (m s)"
  by (simp add: triple_def)

lemma triple_Some_Inr: "triple t P m Q E \<Longrightarrow> P s \<Longrightarrow> m s = Some (Inr x, s') \<Longrightarrow> Q x s'"
  by (auto dest!: tripleD)

lemma triple_Some_Inl: "triple t P m Q E \<Longrightarrow> P s \<Longrightarrow> m s = Some (Inl e, s') \<Longrightarrow> E e s'"
  by (auto dest!: tripleD)

lemma triple_returns: "triple True P m Q E \<Longrightarrow> P s \<Longrightarrow> \<exists>y. m s = Some y"
  by (cases "m s") (auto dest!: tripleD)

lemma ends_mono:
  "ends t Q' E' y \<Longrightarrow> (\<And>x s. Q' x s \<Longrightarrow> Q x s) \<Longrightarrow> (\<And>e s. E' e s \<Longrightarrow> E e s) \<Longrightarrow> ends t Q E y"
  by (cases y rule: run_cases) auto

lemma triple_conseq:
  "triple t P' m Q' E' \<Longrightarrow> (\<And>s. P s \<Longrightarrow> P' s) \<Longrightarrow> (\<And>x s. Q' x s \<Longrightarrow> Q x s) \<Longrightarrow>
   (\<And>e s. E' e s \<Longrightarrow> E e s) \<Longrightarrow> triple t P m Q E"
  by (blast intro: tripleI dest: tripleD ends_mono)

lemma triple_pre: "triple t P' m Q E \<Longrightarrow> (\<And>s. P s \<Longrightarrow> P' s) \<Longrightarrow> triple t P m Q E"
  by (auto simp: triple_def)

lemma hoare_ends: "hoare P m Q E \<Longrightarrow> P s \<Longrightarrow> ends t Q E (Some (m s))"
  by (cases "Some (m s)" rule: run_cases) (auto dest: hoare_InrD hoare_InlD)

lemma triple_total: "hoare P m Q E \<Longrightarrow> triple t P (total m) Q E"
  unfolding total_def by (intro tripleI hoare_ends)

lemma triple_pbind:
  assumes "triple t P m R E" "\<And>x. triple t (R x) (f x) Q E"
  shows "triple t P (pbind m f) Q E"
proof (rule tripleI)
  fix s assume "P s"
  with tripleD [OF assms(1) this] assms(2) [THEN tripleD] show "ends t Q E (pbind m f s)"
    by (cases "m s" rule: run_cases) (simp_all add: pbind_def)
qed

lemma triple_ptry_except:
  assumes "triple t P m Q R" "\<And>e. triple t (R e) (h e) Q E"
  shows "triple t P (ptry_except m h) Q E"
proof (rule tripleI)
  fix s assume "P s"
  with tripleD [OF assms(1) this] assms(2) [THEN tripleD] show "ends t Q E (ptry_except m h s)"
    by (cases "m s" rule: run_cases) (simp_all add: ptry_except_def)
qed

lemma triple_ptry_finally:
  assumes "triple t P m QF EF" "\<And>x. hoare (QF x) c (\<lambda>_. Q x) E" "\<And>e. hoare (EF e) c (\<lambda>_. E e) E"
  shows "triple t P (ptry_finally m c) Q E"
proof (rule tripleI)
  fix s assume "P s"
  note body = tripleD [OF assms(1) this]
  show "ends t Q E (ptry_finally m c s)"
  proof (cases "m s" rule: run_cases)
    case forever
    with body show ?thesis by (simp add: ptry_finally_def)
  next
    case (failed e s')
    with body hoare_ends [OF assms(3), of e s' t] show ?thesis
      by (cases "Some (c s')" rule: run_cases) (simp_all add: ptry_finally_def)
  next
    case (returned x s')
    with body hoare_ends [OF assms(2), of x s' t] show ?thesis
      by (cases "Some (c s')" rule: run_cases) (simp_all add: ptry_finally_def)
  qed
qed

text \<open>The object is dropped when the block is left, so the exit ends in a state of the world.\<close>

lemma leave_block_ends:
  assumes "hoare P m (\<lambda>_ s. Q () (snd s)) (\<lambda>e s. E e (snd s))" "P s"
  shows "ends t Q E (Some (leave_block m s))"
proof -
  from hoare_ends [OF assms, of t] show ?thesis
    by (cases "Some (m s)" rule: run_cases) (auto simp: leave_block_def split: prod.splits)
qed

lemma triple_pwith_block:
  assumes "hoare P enter (\<lambda>obj w. B (obj, w)) E"
    and "triple t B body (\<lambda>_. N) F"
    and "hoare N (exit None) (\<lambda>_ s. Q () (snd s)) (\<lambda>e s. E e (snd s))"
    and "\<And>e. hoare (F e) (exit (Some e)) (\<lambda>_ s. Q () (snd s)) (\<lambda>e s. E e (snd s))"
  shows "triple t P (pwith_block enter body exit) Q E"
proof (rule tripleI)
  fix w assume "P w"
  note enter = hoare_ends [OF assms(1) this, of t]
  show "ends t Q E (pwith_block enter body exit w)"
  proof (cases "Some (enter w)" rule: run_cases)
    case (failed e w1)
    with enter show ?thesis by (simp add: pwith_block_def)
  next
    case (returned obj w1)
    with enter have "B (obj, w1)" by simp
    note body = tripleD [OF assms(2) this]
    note exits = leave_block_ends [where Q = Q and E = E and t = t, OF assms(3)]
      leave_block_ends [where Q = Q and E = E and t = t, OF assms(4)]
    from body exits returned show ?thesis
      by (cases "body (obj, w1)" rule: run_cases) (simp_all add: pwith_block_def)
  qed simp
qed

text \<open>What \<open>stream\<close> and \<open>on_world\<close> run leaves the objects beside alone.\<close>

lemma hoareI_ends: "(\<And>s. P s \<Longrightarrow> ends True Q E (Some (m s))) \<Longrightarrow> hoare P m Q E"
  by (rule hoareI) (metis ends_simps(2), metis ends_simps(3))

lemma hoare_on_world:
  assumes "\<And>obj. hoare (\<lambda>w. P (obj, w)) m (\<lambda>x w. Q x (obj, w)) (\<lambda>e w. E e (obj, w))"
  shows "hoare P (on_world m) Q E"
proof (rule hoareI_ends)
  fix s assume "P s"
  obtain obj w where s: "s = (obj, w)" by (rule prod.exhaust)
  with \<open>P s\<close> hoare_ends [OF assms [of obj], of w True] show "ends True Q E (Some (on_world m s))"
    by (cases "Some (m w)" rule: run_cases) (simp_all add: on_world_apply)
qed

lemma hoare_stream:
  assumes "\<And>obj. hoare (\<lambda>(r, w). P (r, (obj, w))) m (\<lambda>x (r, w). Q x (r, (obj, w)))
     (\<lambda>e (r, w). E e (r, (obj, w)))"
  shows "hoare P (stream m) Q E"
proof (rule hoareI_ends)
  fix s assume "P s"
  obtain r obj w where s: "s = (r, (obj, w))" by (metis prod.exhaust)
  with \<open>P s\<close> hoare_ends [OF assms [of obj], of "(r, w)" True] show "ends True Q E (Some (stream m s))"
    by (cases "Some (m (r, w))" rule: run_cases) (auto simp: stream_apply split: prod.splits)
qed

lemma hoare_self [hoare_rules]: "hoare (\<lambda>s. Q (fst s) s) self Q E"
  by (simp add: hoare_def self_def split: prod.splits)

lemma hoare_assign [hoare_rules]: "hoare (\<lambda>(obj, w). Q () (f obj, w)) (assign f) Q E"
  by (simp add: hoare_def assign_def split: prod.splits)

text \<open>
  The statements of a method where a stream, or two, lie beside the object: each runs on its own
  part of the state.
\<close>

lemma hoare_beside1:
  assumes "\<And>b. hoare (\<lambda>w. P b w) m (\<lambda>x w. Q x b w) (\<lambda>e w. E e b w)"
  shows "hoare (\<lambda>(b, w). P b w) (on_world m) (\<lambda>x (b, w). Q x b w) (\<lambda>e (b, w). E e b w)"
  by (intro hoare_on_world hoare_stream) (simp add: assms)

lemma hoare_beside2:
  assumes "\<And>r b. hoare (\<lambda>w. P r b w) m (\<lambda>x w. Q x r b w) (\<lambda>e w. E e r b w)"
  shows "hoare (\<lambda>(r, b, w). P r b w) (on_world (on_world m)) (\<lambda>x (r, b, w). Q x r b w) (\<lambda>e (r, b, w). E e r b w)"
  by (intro hoare_on_world hoare_stream) (simp add: assms)

lemma hoare_object2:
  assumes "\<And>r. hoare (\<lambda>(b, w). P r b w) m (\<lambda>x (b, w). Q x r b w) (\<lambda>e (b, w). E e r b w)"
  shows "hoare (\<lambda>(r, b, w). P r b w) (on_world m) (\<lambda>x (r, b, w). Q x r b w) (\<lambda>e (r, b, w). E e r b w)"
  by (intro hoare_on_world hoare_stream) (simp add: assms)

lemma hoare_stream2:
  assumes "\<And>b. hoare (\<lambda>(r, w). P r b w) m (\<lambda>x (r, w). Q x r b w) (\<lambda>e (r, w). E e r b w)"
  shows "hoare (\<lambda>(r, b, w). P r b w) (stream m) (\<lambda>x (r, b, w). Q x r b w) (\<lambda>e (r, b, w). E e r b w)"
  by (intro hoare_on_world hoare_stream) (simp add: assms)

lemma hoare_beside3:
  assumes "\<And>k r b. hoare (\<lambda>w. P k r b w) m (\<lambda>x w. Q x k r b w) (\<lambda>e w. E e k r b w)"
  shows "hoare (\<lambda>(k, r, b, w). P k r b w) (on_world (on_world (on_world m))) (\<lambda>x (k, r, b, w). Q x k r b w) (\<lambda>e (k, r, b, w). E e k r b w)"
  by (intro hoare_on_world hoare_stream) (simp add: assms)

lemma hoare_object3:
  assumes "\<And>k r. hoare (\<lambda>(b, w). P k r b w) m (\<lambda>x (b, w). Q x k r b w) (\<lambda>e (b, w). E e k r b w)"
  shows "hoare (\<lambda>(k, r, b, w). P k r b w) (on_world (on_world m)) (\<lambda>x (k, r, b, w). Q x k r b w) (\<lambda>e (k, r, b, w). E e k r b w)"
  by (intro hoare_on_world hoare_stream) (simp add: assms)

lemma hoare_reader3:
  assumes "\<And>k b. hoare (\<lambda>(r, w). P k r b w) m (\<lambda>x (r, w). Q x k r b w) (\<lambda>e (r, w). E e k r b w)"
  shows "hoare (\<lambda>(k, r, b, w). P k r b w) (on_world (stream m)) (\<lambda>x (k, r, b, w). Q x k r b w) (\<lambda>e (k, r, b, w). E e k r b w)"
  by (intro hoare_on_world hoare_stream) (simp add: assms)

lemma hoare_writer3:
  assumes "\<And>r b. hoare (\<lambda>(k, w). P k r b w) m (\<lambda>x (k, w). Q x k r b w) (\<lambda>e (k, w). E e k r b w)"
  shows "hoare (\<lambda>(k, r, b, w). P k r b w) (stream (stream m)) (\<lambda>x (k, r, b, w). Q x k r b w) (\<lambda>e (k, r, b, w). E e k r b w)"
  by (intro hoare_on_world hoare_stream) (simp add: assms)

section \<open>The loop\<close>

text \<open>An invariant of the body holds when the loop ends.\<close>

lemma repeat_loop_invariant:
  assumes "repeat_loop step s = Some y" "hoare I step (\<lambda>again s. if again then I s else Q s) E" "I s"
  shows "ends t (\<lambda>_. Q) E (Some y)"
  using assms
proof (induction step s y rule: repeat_loop.raw_induct [rotated, consumes 1, case_names body])
  case (body loop step s y)
  note run = hoare_ends [OF body.prems, of t]
  show ?case
  proof (cases "Some (step s)" rule: run_cases)
    case (returned again s')
    show ?thesis
    proof (cases again)
      case True
      with run returned have "I s'" by simp
      with body.hyps body.prems True returned show ?thesis by (auto intro: body.IH)
    qed (use run returned body.hyps in auto)
  qed (use run body.hyps in auto)
qed

text \<open>With a measure that the body lowers whenever it goes on, the loop returns.\<close>

lemma repeat_loop_returns:
  assumes "\<And>n. hoare (\<lambda>s. I s \<and> m s = (n :: nat)) step (\<lambda>again s. again \<longrightarrow> I s \<and> m s < n) (\<lambda>_ _. True)"
    and "I s"
  shows "\<exists>y. repeat_loop step s = Some y"
  using assms(2)
proof (induction "m s" arbitrary: s rule: less_induct)
  case less
  note body = hoare_ends [OF assms(1), of s "m s" True]
  show ?case
  proof (cases "Some (step s)" rule: run_cases)
    case (returned again s')
    with body less.prems have "again \<longrightarrow> I s' \<and> m s' < m s" by simp
    with less.hyps returned show ?thesis by (auto simp: repeat_loop.simps [of step s])
  qed (simp_all add: repeat_loop.simps [of step s])
qed

lemma triple_repeat_loop:
  assumes "hoare I step (\<lambda>again s. if again then I s else Q s) E"
    and "t \<Longrightarrow> \<exists>m :: 's \<Rightarrow> nat. \<forall>n. hoare (\<lambda>s. I s \<and> m s = n) step (\<lambda>again s. again \<longrightarrow> I s \<and> m s < n) (\<lambda>_ _. True)"
  shows "triple t I (repeat_loop step :: ('s, unit) run) (\<lambda>_. Q) E"
proof (rule tripleI)
  fix s :: 's assume "I s"
  show "ends t (\<lambda>_. Q) E (repeat_loop step s)"
  proof (cases "repeat_loop step s")
    case None
    have "\<not> t"
    proof
      assume t
      from assms(2) [OF this] obtain m :: "'s \<Rightarrow> nat" where
        "\<And>n. hoare (\<lambda>s. I s \<and> m s = n) step (\<lambda>again s. again \<longrightarrow> I s \<and> m s < n) (\<lambda>_ _. True)" by blast
      from repeat_loop_returns [OF this \<open>I s\<close>] None show False by simp
    qed
    with None show ?thesis by simp
  next
    case (Some y)
    from repeat_loop_invariant [OF this assms(1) \<open>I s\<close>] show ?thesis by (simp add: Some)
  qed
qed

end
