(* ===== verification/Transfer_Run.thy ===== *)
theory Transfer_Run
  imports Base Models Store Loops
begin

text \<open>
  \<^verbatim>\<open>databridge/transfer.py\<close>: one transfer from a source connector to a destination connector, with its
  record in a ledger. The ledger and the connectors are records of methods, as the protocols of the
  source are. A log call is an entry of the log of the world.
\<close>

section \<open>The service and its world\<close>

text \<open>
  The world has the free slots of the semaphore and the readings of the monotonic clock, in
  nanoseconds (the source has them as floats of seconds).
\<close>

record service_world = db_world +
  sw_free :: nat
  sw_clock :: "int list"

definition MAX_CONCURRENT_TRANSFERS :: nat where "MAX_CONCURRENT_TRANSFERS = 4"
definition PROGRESS_INTERVAL :: int where "PROGRESS_INTERVAL = 1000000000"

definition SOURCE_PHASES :: "failure_phase set" where
  "SOURCE_PHASES = {source_lookup, source_open, source_read}"

definition UNATTRIBUTED :: "error_code set" where
  "UNATTRIBUTED = {TRANSFER_INTERNAL_ERROR, TRANSFER_RECORD_FAILED, TRANSFER_STATE_CONFLICT}"

definition CONTRACT_VIOLATIONS :: "failure_phase \<rightharpoonup> error_code \<times> pystr" where
  "CONTRACT_VIOLATIONS =
     [source_read \<mapsto> (SOURCE_READ_FAILED, lit ''Cannot read the source file''),
      destination_write \<mapsto> (DESTINATION_WRITE_FAILED, lit ''Cannot write the destination file'')]"

record 'w ledger =
  ld_get :: "pystr \<Rightarrow> ('w, connection) io"
  ld_start :: "pystr \<Rightarrow> transfer_request \<Rightarrow> ('w, unit) io"
  ld_progress :: "pystr \<Rightarrow> nat \<Rightarrow> ('w, unit) io"
  ld_publish :: "pystr \<Rightarrow> nat \<Rightarrow> ('w, unit) io"
  ld_finish :: "pystr \<Rightarrow> ('w, transfer_record) io"
  ld_fail :: "pystr \<Rightarrow> nat \<Rightarrow> failure_phase \<Rightarrow> error_code \<Rightarrow> pystr \<Rightarrow> ('w, unit) io"

record ('w, 'r, 'k) transfer_service =
  sv_ledger :: "'w ledger"
  sv_factory :: "connection \<Rightarrow> ('w, ('w, 'r, 'k) connector) io"
  sv_capacity :: nat

text \<open>The store is the ledger of the application.\<close>

definition store_ledger :: "connection_store \<Rightarrow> 'w db_world_scheme ledger" where
  "store_ledger st =
     \<lparr>ld_get = store_get st, ld_start = start_transfer, ld_progress = record_progress,
      ld_publish = mark_publishing, ld_finish = finish_transfer, ld_fail = fail_transfer\<rparr>"

section \<open>One transfer\<close>

text \<open>\<open>_Transfer\<close>, with the local variable \<open>published\<close> of its method \<open>run\<close>.\<close>

record transfer =
  tf_request :: transfer_request
  tf_id :: pystr
  tf_phase :: failure_phase
  tf_copied :: nat
  tf_checkpoint :: int
  tf_published :: bool

definition new_transfer :: "transfer_request \<Rightarrow> pystr \<Rightarrow> transfer" where
  "new_transfer request i =
     \<lparr>tf_request = request, tf_id = i, tf_phase = source_lookup, tf_copied = 0, tf_checkpoint = 0,
      tf_published = False\<rparr>"

definition monotonic :: "('w service_world_scheme, int) io" where
  "monotonic = (\<lambda>w. case sw_clock w of
      [] \<Rightarrow> (Inr 0, w)
    | t # ts \<Rightarrow> (Inr t, w\<lparr>sw_clock := ts\<rparr>))"

definition set_phase :: "failure_phase \<Rightarrow> (transfer \<times> 'w, unit) io" where
  "set_phase p = assign (\<lambda>tf. tf\<lparr>tf_phase := p\<rparr>)"

text \<open>\<open>except DataBridgeError\<close>; any other exception passes.\<close>

definition except_db_error :: "('s, 'a) io \<Rightarrow> (exn \<Rightarrow> ('s, 'a) io) \<Rightarrow> ('s, 'a) io" where
  "except_db_error m h = try_except m (\<lambda>e. if is_db_error e then h e else raise e)"

text \<open>\<open>_checkpoint\<close>.\<close>

definition transfer_checkpoint ::
  "'w service_world_scheme ledger \<Rightarrow> (transfer \<times> 'w service_world_scheme, unit) io" where
  "transfer_checkpoint ld =
     bind (on_world monotonic) (\<lambda>t.
     bind self (\<lambda>tf.
       if t - tf_checkpoint tf < PROGRESS_INTERVAL then ret ()
       else
         bind (assign (\<lambda>tf. tf\<lparr>tf_checkpoint := t\<rparr>)) (\<lambda>_.
         on_world (except_db_error (ld_progress ld (tf_id tf) (tf_copied tf))
           (\<lambda>_. warning ''transfer_progress_not_saved'')))))"

text \<open>
  \<open>_copy\<close>: one turn of its loop, which runs on the writer, the reader, the transfer and the
  world, and tells whether there was a chunk.
\<close>

definition transfer_copy_step ::
  "'w service_world_scheme ledger \<Rightarrow> ('w service_world_scheme, 'r, 'k) connector \<Rightarrow>
   ('w service_world_scheme, 'r, 'k) connector \<Rightarrow>
   ('k \<times> 'r \<times> transfer \<times> 'w service_world_scheme, bool) io" where
  "transfer_copy_step ld source destination =
     bind (on_world (on_world (set_phase source_read))) (\<lambda>_.
     bind (on_world (stream (cn_source_read source CHUNK_SIZE))) (\<lambda>chunk.
       if chunk = [] then ret False
       else
         bind (on_world (on_world (set_phase destination_write))) (\<lambda>_.
         bind (stream (stream (cn_sink_write destination chunk))) (\<lambda>_.
         bind (on_world (on_world (assign (\<lambda>tf. tf\<lparr>tf_copied := tf_copied tf + length chunk\<rparr>)))) (\<lambda>_.
         bind (on_world (on_world (transfer_checkpoint ld))) (\<lambda>_.
         ret True))))))"

definition transfer_copy ::
  "'w service_world_scheme ledger \<Rightarrow> ('w service_world_scheme, 'r, 'k) connector \<Rightarrow>
   ('w service_world_scheme, 'r, 'k) connector \<Rightarrow>
   ('k \<times> 'r \<times> transfer \<times> 'w service_world_scheme, unit) run" where
  "transfer_copy ld source destination = repeat_loop (transfer_copy_step ld source destination)"

text \<open>\<open>_attributed\<close>; \<open>capitalize\<close> on the two words it is used for.\<close>

definition transfer_attributed :: "transfer \<Rightarrow> error_code \<Rightarrow> pystr \<Rightarrow> pystr" where
  "transfer_attributed tf code message =
     (let from_source = tf_phase tf \<in> SOURCE_PHASES;
          name = (if from_source then rq_source (tf_request tf) else rq_destination (tf_request tf))
      in if code = CONNECTION_NOT_FOUND then
           lit ''The '' @ (if from_source then lit ''source'' else lit ''destination'') @
             lit '' connection '' @ [39] @ name @ [39] @ lit '' does not exist''
         else
           (if from_source then lit ''Source'' else lit ''Destination'') @ lit '' connection '' @
             [39] @ name @ [39] @ lit '': '' @ message)"

text \<open>The code and the message of a failure in the current phase.\<close>

definition failure_of :: "transfer \<Rightarrow> exn \<Rightarrow> error_code \<times> pystr" where
  "failure_of tf e =
     (let (code, message) =
            (case e of
               DataBridgeError c m _ \<Rightarrow> (c, m)
             | _ \<Rightarrow> (case CONTRACT_VIOLATIONS (tf_phase tf) of
                      Some v \<Rightarrow> v
                    | None \<Rightarrow> (TRANSFER_INTERNAL_ERROR, lit ''The transfer could not finish'')))
      in (code, if code \<in> UNATTRIBUTED then message else transfer_attributed tf code message))"

text \<open>\<open>_fail\<close>, which always raises.\<close>

definition transfer_fail ::
  "'w service_world_scheme ledger \<Rightarrow> exn \<Rightarrow> (transfer \<times> 'w service_world_scheme, unit) io" where
  "transfer_fail ld e =
     bind self (\<lambda>tf.
       let (code, message) = failure_of tf e in
       bind (if is_db_error e then ret () else on_world (warning ''transfer_failed'')) (\<lambda>_.
       bind (on_world (except_db_error (ld_fail ld (tf_id tf) (tf_copied tf) (tf_phase tf) code message)
               (\<lambda>_. warning ''transfer_failure_not_saved''))) (\<lambda>_.
       raise (DataBridgeError code message (Some (tf_id tf))))))"

text \<open>\<open>_finish\<close>.\<close>

definition unfinished_error :: "transfer \<Rightarrow> exn \<Rightarrow> exn" where
  "unfinished_error tf e =
     DataBridgeError TRANSFER_RECORD_FAILED
       ([39] @ rq_destination_file (tf_request tf) @ [39] @
        lit '' was published, but its transfer record could not be completed and stays '' @
        [39] @ lit ''publishing'' @ [39] @ lit '': '' @ err_message e)
       (Some (tf_id tf))"

definition transfer_finish ::
  "'w service_world_scheme ledger \<Rightarrow> (transfer \<times> 'w service_world_scheme, transfer_record) io" where
  "transfer_finish ld =
     bind self (\<lambda>tf.
       on_world (except_db_error (ld_finish ld (tf_id tf)) (\<lambda>e. raise (unfinished_error tf e))))"

text \<open>\<open>_connector\<close>.\<close>

definition transfer_connector ::
  "('w service_world_scheme, 'r, 'k) transfer_service \<Rightarrow> pystr \<Rightarrow>
   ('w service_world_scheme, ('w service_world_scheme, 'r, 'k) connector) io" where
  "transfer_connector sv name = bind (ld_get (sv_ledger sv) name) (sv_factory sv)"

text \<open>The body of the inner \<open>with\<close> statement, and the two \<open>with\<close> statements of \<open>run\<close>.\<close>

definition write_body ::
  "'w service_world_scheme ledger \<Rightarrow> ('w service_world_scheme, 'r, 'k) connector \<Rightarrow>
   ('w service_world_scheme, 'r, 'k) connector \<Rightarrow>
   ('k \<times> 'r \<times> transfer \<times> 'w service_world_scheme, unit) run" where
  "write_body ld source destination =
     pbind (transfer_copy ld source destination) (\<lambda>_. total
       (bind (on_world (on_world (set_phase destination_write))) (\<lambda>_.
        bind (stream (stream (cn_sink_finish destination))) (\<lambda>_.
        bind (on_world (on_world (set_phase publication))) (\<lambda>_.
        bind (on_world (on_world self)) (\<lambda>tf.
        on_world (on_world (on_world (ld_publish ld (tf_id tf) (tf_copied tf)))))))))) "

definition write_block ::
  "'w service_world_scheme ledger \<Rightarrow> ('w service_world_scheme, 'r, 'k) connector \<Rightarrow>
   ('w service_world_scheme, 'r, 'k) connector \<Rightarrow>
   ('r \<times> transfer \<times> 'w service_world_scheme, unit) run" where
  "write_block ld source destination =
     pbind (total (on_world (set_phase destination_open))) (\<lambda>_.
     pbind
       (pwith_block
         (bind (on_world self) (\<lambda>tf.
          on_world (on_world (cn_write_enter destination (rq_destination_file (tf_request tf)) (tf_id tf)
            (rq_overwrite (tf_request tf))))))
         (write_body ld source destination)
         (\<lambda>failure. stream (stream (cn_write_exit destination failure)))) (\<lambda>_.
     total (on_world (assign (\<lambda>tf. tf\<lparr>tf_published := True\<rparr>)))))"

definition read_block ::
  "'w service_world_scheme ledger \<Rightarrow> ('w service_world_scheme, 'r, 'k) connector \<Rightarrow>
   ('w service_world_scheme, 'r, 'k) connector \<Rightarrow>
   (transfer \<times> 'w service_world_scheme, unit) run" where
  "read_block ld source destination =
     pbind (total (set_phase source_open)) (\<lambda>_.
     pwith_block
       (bind self (\<lambda>tf. on_world (cn_read_enter source (rq_source_file (tf_request tf)) None)))
       (write_block ld source destination)
       (\<lambda>failure. stream (cn_read_exit source failure)))"

text \<open>\<open>_Transfer.run\<close>: the \<open>try\<close> block, its handler, and the whole.\<close>

definition transfer_attempt ::
  "('w service_world_scheme, 'r, 'k) transfer_service \<Rightarrow>
   (transfer \<times> 'w service_world_scheme, unit) run" where
  "transfer_attempt sv =
     pbind (total (bind self (\<lambda>tf. on_world (transfer_connector sv (rq_source (tf_request tf))))))
       (\<lambda>source.
     pbind (total (set_phase destination_lookup)) (\<lambda>_.
     pbind (total (bind self (\<lambda>tf. on_world (transfer_connector sv (rq_destination (tf_request tf))))))
       (\<lambda>destination.
     read_block (sv_ledger sv) source destination)))"

definition transfer_rescue ::
  "'w service_world_scheme ledger \<Rightarrow> exn \<Rightarrow> (transfer \<times> 'w service_world_scheme, unit) io" where
  "transfer_rescue ld e =
     bind self (\<lambda>tf.
     bind (if tf_published tf then ret () else transfer_fail ld e) (\<lambda>_.
     on_world (warning ''transfer_source_release_failed'')))"

text \<open>An error of the start cites no record, because there is none.\<close>

definition uncited :: "exn \<Rightarrow> exn" where
  "uncited e = (case e of DataBridgeError c m _ \<Rightarrow> db_error c m | _ \<Rightarrow> e)"

definition transfer_run ::
  "('w service_world_scheme, 'r, 'k) transfer_service \<Rightarrow>
   (transfer \<times> 'w service_world_scheme, transfer_record) run" where
  "transfer_run sv =
     pbind (total (bind self (\<lambda>tf.
              translate uncited (on_world (ld_start (sv_ledger sv) (tf_id tf) (tf_request tf)))))) (\<lambda>_.
     pbind (total (bind (on_world monotonic) (\<lambda>t. assign (\<lambda>tf. tf\<lparr>tf_checkpoint := t\<rparr>)))) (\<lambda>_.
     pbind (ptry_except (transfer_attempt sv) (\<lambda>e. total (transfer_rescue (sv_ledger sv) e))) (\<lambda>_.
     total (transfer_finish (sv_ledger sv)))))"

section \<open>The service\<close>

definition same_file_error :: exn where
  "same_file_error = db_error SAME_FILE (lit ''Source and destination identify the same file'')"

definition capacity_error :: "nat \<Rightarrow> exn" where
  "capacity_error capacity =
     db_error TRANSFER_CAPACITY_EXCEEDED
       (show_nat capacity @ lit '' transfers are already running; retry after one finishes'')"

text \<open>\<open>BoundedSemaphore.release\<close> raises above the initial value.\<close>

definition release_slot :: "nat \<Rightarrow> ('w service_world_scheme, unit) io" where
  "release_slot capacity =
     bind (get sw_free) (\<lambda>n.
       if capacity \<le> n then raise (PyError ''ValueError'')
       else modify (\<lambda>w. w\<lparr>sw_free := Suc n\<rparr>))"

text \<open>\<open>_Transfer(self, request).run()\<close>.\<close>

definition run_new_transfer ::
  "('w service_world_scheme, 'r, 'k) transfer_service \<Rightarrow> transfer_request \<Rightarrow>
   ('w service_world_scheme, transfer_record) run" where
  "run_new_transfer sv request =
     pbind (total uuid4) (\<lambda>i w.
       map_option (\<lambda>(r, (tf, w')). (r, w')) (transfer_run sv (new_transfer request i, w)))"

definition service_run ::
  "('w service_world_scheme, 'r, 'k) transfer_service \<Rightarrow> transfer_request \<Rightarrow>
   ('w service_world_scheme, transfer_record) run" where
  "service_run sv request =
     pbind (total (of_result (validate_filename (rq_source_file request)))) (\<lambda>_.
     pbind (total (of_result (validate_filename (rq_destination_file request)))) (\<lambda>_.
     if rq_source request = rq_destination request \<and>
        rq_source_file request = rq_destination_file request
     then total (raise same_file_error)
     else
       pbind (total (get sw_free)) (\<lambda>n.
         if n = 0 then total (raise (capacity_error (sv_capacity sv)))
         else
           pbind (total (modify (\<lambda>w. w\<lparr>sw_free := n - 1\<rparr>))) (\<lambda>_.
           ptry_finally (run_new_transfer sv request) (release_slot (sv_capacity sv))))))"

end
