(* ===== verification/Frames.thy ===== *)
theory Frames
  imports Effects
begin

text \<open>
  What a statement leaves alone: \<open>keeps v m\<close> says that the part \<open>v\<close> of the state is the same after
  \<open>m\<close>, however \<open>m\<close> ends.
\<close>

definition keeps :: "('s \<Rightarrow> 'v) \<Rightarrow> ('s, 'a) io \<Rightarrow> bool" where
  "keeps v m \<longleftrightarrow> (\<forall>s. v (snd (m s)) = v s)"

named_theorems keeps_rules \<open>one rule per statement form\<close>

lemma keepsI: "(\<And>s r s'. m s = (r, s') \<Longrightarrow> v s' = v s) \<Longrightarrow> keeps v m"
  unfolding keeps_def by (metis prod.collapse)

lemma keepsD: "keeps v m \<Longrightarrow> m s = (r, s') \<Longrightarrow> v s' = v s"
  by (metis keeps_def snd_conv)

lemma keeps_ret [keeps_rules]: "keeps v (ret x)"
  by (simp add: keeps_def)

lemma keeps_raise [keeps_rules]: "keeps v (raise e)"
  by (simp add: keeps_def)

lemma keeps_get [keeps_rules]: "keeps v (get f)"
  by (simp add: keeps_def)

lemma keeps_self [keeps_rules]: "keeps v self"
  by (simp add: keeps_def self_def split: prod.splits)

lemma keeps_of_result [keeps_rules]: "keeps v (of_result r)"
  by (simp add: keeps_def)

lemma keeps_modify: "(\<And>s. v (f s) = v s) \<Longrightarrow> keeps v (modify f)"
  by (simp add: keeps_def)

lemma keeps_bind [keeps_rules]:
  assumes "keeps v m" "\<And>x. keeps v (f x)" shows "keeps v (bind m f)"
proof (rule keepsI)
  fix s r s' assume run: "bind m f s = (r, s')"
  obtain x s1 where s1: "m s = (x, s1)" by (rule prod.exhaust)
  from run s1 keepsD [OF assms(1) s1] keepsD [OF assms(2)] show "v s' = v s"
    by (cases x) (auto simp: bind_apply)
qed

lemma keeps_try_except [keeps_rules]:
  assumes "keeps v m" "\<And>e. keeps v (h e)" shows "keeps v (try_except m h)"
proof (rule keepsI)
  fix s r s' assume run: "try_except m h s = (r, s')"
  obtain x s1 where s1: "m s = (x, s1)" by (rule prod.exhaust)
  from run s1 keepsD [OF assms(1) s1] keepsD [OF assms(2)] show "v s' = v s"
    by (cases x) (auto simp: try_except_apply)
qed

lemma keeps_try_finally [keeps_rules]:
  assumes "keeps v m" "keeps v c" shows "keeps v (try_finally m c)"
proof (rule keepsI)
  fix s r s' assume run: "try_finally m c s = (r, s')"
  obtain x s1 where s1: "m s = (x, s1)" by (rule prod.exhaust)
  obtain y s2 where s2: "c s1 = (y, s2)" by (rule prod.exhaust)
  from run s1 s2 keepsD [OF assms(1) s1] keepsD [OF assms(2) s2] show "v s' = v s"
    by (cases y) (auto simp: try_finally_apply)
qed

lemma keeps_translate [keeps_rules]: "keeps v m \<Longrightarrow> keeps v (translate f m)"
  unfolding translate_def by (intro keeps_rules)

lemma keeps_only_if [keeps_rules]: "keeps v m \<Longrightarrow> keeps v (only_if b m)"
  by (simp add: only_if_def keeps_ret)

lemma keeps_if [keeps_rules]:
  "keeps v m \<Longrightarrow> keeps v m' \<Longrightarrow> keeps v (if b then m else m')"
  by simp

lemma keeps_option [keeps_rules]:
  "keeps v m \<Longrightarrow> (\<And>y. keeps v (f y)) \<Longrightarrow> keeps v (case x of None \<Rightarrow> m | Some y \<Rightarrow> f y)"
  by (cases x) simp_all

lemma keeps_prod [keeps_rules]:
  "(\<And>a b. keeps v (f a b)) \<Longrightarrow> keeps v (case x of (a, b) \<Rightarrow> f a b)"
  by (cases x) simp_all

lemma keeps_sum [keeps_rules]:
  "(\<And>a. keeps v (f a)) \<Longrightarrow> (\<And>b. keeps v (g b)) \<Longrightarrow> keeps v (case x of Inl a \<Rightarrow> f a | Inr b \<Rightarrow> g b)"
  by (cases x) simp_all

lemma keeps_on_world [keeps_rules]: "keeps v m \<Longrightarrow> keeps (\<lambda>s. v (snd s)) (on_world m)"
  by (rule keepsI) (auto simp: on_world_def split: prod.splits dest: keepsD)

lemma keeps_assign [keeps_rules]: "keeps (\<lambda>s. v (snd s)) (assign f)"
  by (auto simp: keeps_def assign_def split: prod.splits)

text \<open>A part of a part that is kept is kept.\<close>

lemma keeps_part: "keeps v m \<Longrightarrow> (\<And>s. u s = f (v s)) \<Longrightarrow> keeps u m"
  by (simp add: keeps_def)

lemma keeps_hoare: "keeps v m \<Longrightarrow> hoare (\<lambda>s. P (v s)) m (\<lambda>_ s. P (v s)) (\<lambda>_ s. P (v s))"
  by (rule hoareI) (auto dest: keepsD)

end
