(* ===== verification/Transfer_Laws.thy ===== *)
theory Transfer_Laws
  imports Transfer_Run Frames
begin

text \<open>
  What a transfer promises whatever connectors and ledger it runs on, from the contracts of those:
  a connector leaves the records alone and its \<open>with\<close> blocks suppress no exception; the ledger
  moves one record along its states, or raises a typed error and moves nothing.
\<close>

section \<open>The contracts\<close>

locale quiet_connector =
  fixes cn :: "('w, 'r, 'k) connector" and view :: "'w \<Rightarrow> 'v"
  assumes read_enter: "keeps view (cn_read_enter cn f l)"
    and source_read: "keeps (\<lambda>s. view (snd s)) (cn_source_read cn n)"
    and read_exit: "keeps (\<lambda>s. view (snd s)) (cn_read_exit cn x)"
    and write_enter: "keeps view (cn_write_enter cn f i b)"
    and sink_write: "keeps (\<lambda>s. view (snd s)) (cn_sink_write cn data)"
    and sink_finish: "keeps (\<lambda>s. view (snd s)) (cn_sink_finish cn)"
    and write_exit: "keeps (\<lambda>s. view (snd s)) (cn_write_exit cn x)"
    and read_exit_raises: "cn_read_exit cn (Some e) s = (r, s') \<Longrightarrow> r \<noteq> Inr ()"
    and write_exit_raises: "cn_write_exit cn (Some e) t = (r, t') \<Longrightarrow> r \<noteq> Inr ()"

context quiet_connector
begin

lemma read_exit_None: "cn_read_exit cn failure s = (Inr u, s') \<Longrightarrow> failure = None"
  by (cases failure) (auto dest: read_exit_raises)

lemma write_exit_None: "cn_write_exit cn failure s = (Inr u, s') \<Longrightarrow> failure = None"
  by (cases failure) (auto dest: write_exit_raises)

end

text \<open>
  The ledger, through what it shows of the world: \<open>ok\<close> is its own invariant, \<open>status\<close> the state of a
  record and \<open>rest\<close> what it does not touch.
\<close>

locale record_ledger =
  fixes ld :: "'w ledger" and view :: "'w \<Rightarrow> 'v" and ok :: "'v \<Rightarrow> bool"
    and status :: "pystr \<Rightarrow> 'v \<Rightarrow> transfer_status option" and rest :: "'v \<Rightarrow> 'x"
  assumes get: "ok (view w) \<Longrightarrow> ld_get ld name w = (r1, w') \<Longrightarrow>
      ok (view w') \<and> rest (view w') = rest (view w) \<and> status i (view w') = status i (view w)"
    and start: "ok (view w) \<Longrightarrow> ld_start ld i rq w = (r2, w') \<Longrightarrow>
      ok (view w') \<and> rest (view w') = rest (view w) \<and>
      (case r2 of Inl e \<Rightarrow> is_db_error e \<and> status i (view w') = status i (view w)
       | Inr _ \<Rightarrow> status i (view w') = Some Running)"
    and progress: "ok (view w) \<Longrightarrow> ld_progress ld i n w = (r2, w') \<Longrightarrow>
      ok (view w') \<and> rest (view w') = rest (view w) \<and> status i (view w') = status i (view w)"
    and publish: "ok (view w) \<Longrightarrow> status i (view w) = Some Running \<Longrightarrow> ld_publish ld i n w = (r2, w') \<Longrightarrow>
      ok (view w') \<and> rest (view w') = rest (view w) \<and>
      status i (view w') = Some (case r2 of Inl _ \<Rightarrow> Running | Inr _ \<Rightarrow> Publishing)"
    and finish: "ok (view w) \<Longrightarrow> status i (view w) = Some Publishing \<Longrightarrow> ld_finish ld i w = (r3, w') \<Longrightarrow>
      ok (view w') \<and> rest (view w') = rest (view w) \<and>
      (case r3 of Inl e \<Rightarrow> is_db_error e \<and> status i (view w') = Some Publishing
       | Inr rec \<Rightarrow> status i (view w') = Some Completed \<and> tr_id rec = i \<and> tr_status rec = Completed)"
    and fail: "ok (view w) \<Longrightarrow> status i (view w) \<in> {Some Running, Some Publishing} \<Longrightarrow>
      ld_fail ld i n p c m w = (r2, w') \<Longrightarrow>
      ok (view w') \<and> rest (view w') = rest (view w) \<and>
      (case r2 of Inl e \<Rightarrow> is_db_error e \<and> status i (view w') = status i (view w)
       | Inr _ \<Rightarrow> status i (view w') = Some Failed)"

locale transfer_env = record_ledger "sv_ledger sv" view ok status rest
  for sv :: "('w service_world_scheme, 'r, 'k) transfer_service"
    and view :: "'w service_world_scheme \<Rightarrow> 'v" and ok status and rest :: "'v \<Rightarrow> 'x" +
  assumes clock: "keeps view monotonic"
    and logs: "keeps view (warning ev)"
    and factory: "keeps view (sv_factory sv c)"
    and opened: "sv_factory sv c w = (Inr cn, w') \<Longrightarrow> quiet_connector cn view"

text \<open>A source that delivers finitely many chunks, whatever happens.\<close>

definition bounded_source :: "('w, 'r, 'k) connector \<Rightarrow> bool" where
  "bounded_source cn \<longleftrightarrow> (\<exists>left :: 'r \<Rightarrow> nat. \<forall>n r w data r' w'.
     cn_source_read cn n (r, w) = (Inr data, (r', w')) \<and> data \<noteq> [] \<longrightarrow> left r' < left r)"

section \<open>A transfer\<close>

lemma except_db_error_cases:
  assumes "except_db_error m h w = (r, w')"
  obtains (returned) x where "m w = (Inr x, w')" "r = Inr x"
  | (handled) e w1 where "m w = (Inl e, w1)" "is_db_error e" "h e w1 = (r, w')"
  | (passed) e where "m w = (Inl e, w')" "\<not> is_db_error e" "r = Inl e"
proof -
  obtain x w1 where m: "m w = (x, w1)" by (rule prod.exhaust)
  show thesis
  proof (cases x)
    case (Inl e)
    with m assms show thesis
      by (cases "is_db_error e") (auto simp: except_db_error_def try_except_apply intro: that)
  next
    case (Inr y)
    with m assms show thesis by (auto simp: except_db_error_def try_except_apply intro: that)
  qed
qed

context transfer_env
begin

definition held :: "'x \<Rightarrow> pystr \<Rightarrow> transfer_status set \<Rightarrow> bool \<Rightarrow> transfer \<Rightarrow> 'w service_world_scheme \<Rightarrow> bool" where
  "held x i ss b tf w \<longleftrightarrow> ok (view w) \<and> rest (view w) = x \<and> (\<exists>s\<in>ss. status i (view w) = Some s) \<and>
     tf_id tf = i \<and> tf_published tf = b"

lemma held_view: "view w' = view w \<Longrightarrow> held x i ss b tf w \<Longrightarrow> held x i ss b tf w'"
  by (simp add: held_def)

lemma held_keeps: "keeps view m \<Longrightarrow> hoare (held x i ss b tf) m (\<lambda>_. held x i ss b tf) (\<lambda>_. held x i ss b tf)"
  by (rule hoareI) (auto dest: keepsD intro: held_view)

lemma held_method:
  assumes "keeps (\<lambda>s. view (snd s)) m" "m (r, w) = (y, (r', w'))" "held x i ss b tf w"
  shows "held x i ss b tf w'"
  using held_view [OF _ assms(3)] keepsD [OF assms(1,2)] by simp

lemma held_set_phase [simp]: "held x i ss b (tf\<lparr>tf_phase := p\<rparr>) w = held x i ss b tf w"
  by (simp add: held_def)

lemma held_set_copied [simp]: "held x i ss b (tf\<lparr>tf_copied := n\<rparr>) w = held x i ss b tf w"
  by (simp add: held_def)

lemma held_set_checkpoint [simp]: "held x i ss b (tf\<lparr>tf_checkpoint := t\<rparr>) w = held x i ss b tf w"
  by (simp add: held_def)

lemma checkpoint_held:
  "hoare (\<lambda>(tf, w). held x i ss b tf w) (transfer_checkpoint (sv_ledger sv))
     (\<lambda>_ (tf, w). held x i ss b tf w) (\<lambda>_ (tf, w). held x i ss b tf w)"
proof (rule hoareI_ends)
  fix s assume "case s of (tf, w) \<Rightarrow> held x i ss b tf w"
  then obtain tf w where s: "s = (tf, w)" and h: "held x i ss b tf w" by (cases s) auto
  obtain t w1 where t: "monotonic w = (Inr t, w1)"
    by (cases "sw_clock w") (auto simp: monotonic_def)
  from keepsD [OF clock t] h have h1: "held x i ss b tf w1" by (rule held_view)
  let ?m = "except_db_error (ld_progress (sv_ledger sv) (tf_id tf) (tf_copied tf))
      (\<lambda>_. warning ''transfer_progress_not_saved'')"
  obtain r w2 where m: "?m w1 = (r, w2)" by (rule prod.exhaust)
  have "held x i ss b (tf\<lparr>tf_checkpoint := t\<rparr>) w2"
    using m
  proof (cases rule: except_db_error_cases)
    case (returned y)
    with progress [of w1] h1 show ?thesis by (auto simp: held_def)
  next
    case (handled e w3)
    from progress [OF _ handled(1)] h1 have "held x i ss b tf w3" by (auto simp: held_def)
    with held_view [OF keepsD [OF logs handled(3)]] show ?thesis by simp
  next
    case (passed e)
    with progress [of w1] h1 show ?thesis by (auto simp: held_def)
  qed
  with s t m h1 show "ends True (\<lambda>_ (tf, w). held x i ss b tf w) (\<lambda>_ (tf, w). held x i ss b tf w)
      (Some (transfer_checkpoint (sv_ledger sv) s))"
    by (cases r) (auto simp: transfer_checkpoint_def bind_apply on_world_apply)
qed

lemma held_id: "held x i ss b tf w \<Longrightarrow> tf_id tf = i"
  by (simp add: held_def)

lemma publish_held:
  assumes "held x i {Running} b tf w" "ld_publish (sv_ledger sv) i n w = (r, w')"
  shows "held x i {case r of Inl _ \<Rightarrow> Running | Inr _ \<Rightarrow> Publishing} b tf w'"
  using assms(1) publish [OF _ _ assms(2)] by (simp add: held_def)

text \<open>One turn of the copy loop; \<open>G\<close> and \<open>G'\<close> say what a chunk does to the reader.\<close>

lemma copy_step_held:
  fixes source destination :: "('w service_world_scheme, 'r, 'k) connector"
  assumes "quiet_connector source view" "quiet_connector destination view"
    and reads: "\<And>r w data r' w'. G r \<Longrightarrow> cn_source_read source CHUNK_SIZE (r, w) = (Inr data, (r', w')) \<Longrightarrow>
      data \<noteq> [] \<Longrightarrow> G' r'"
  shows "hoare (\<lambda>(k, r, tf, w). held x i ss b tf w \<and> G r)
      (transfer_copy_step (sv_ledger sv) source destination)
      (\<lambda>again (k, r, tf, w). held x i ss b tf w \<and> (again \<longrightarrow> G' r)) (\<lambda>_ (k, r, tf, w). held x i ss b tf w)"
    (is "hoare ?P _ ?Q ?E")
proof -
  note source = quiet_connector.source_read [OF assms(1), of CHUNK_SIZE]
  have phase: "hoare (\<lambda>(k, r, tf, w). held x i ss b tf w \<and> H r) (on_world (on_world (set_phase p)))
      (\<lambda>_ (k, r, tf, w). held x i ss b tf w \<and> H r) ?E" for p H
    by (rule hoare_object3) (simp add: hoare_def set_phase_def)
  have read: "hoare ?P (on_world (stream (cn_source_read source CHUNK_SIZE)))
      (\<lambda>data (k, r, tf, w). held x i ss b tf w \<and> (data \<noteq> [] \<longrightarrow> G' r)) ?E"
    by (rule hoare_reader3, rule hoareI) (auto dest: reads held_method [OF source])
  have put: "hoare (\<lambda>(k, r, tf, w). held x i ss b tf w \<and> G' r)
      (stream (stream (cn_sink_write destination chunk)))
      (\<lambda>_ (k, r, tf, w). held x i ss b tf w \<and> G' r) ?E" for chunk
    by (rule hoare_writer3, rule hoareI)
      (auto dest: held_method [OF quiet_connector.sink_write [OF assms(2)]])
  have count: "hoare (\<lambda>(k, r, tf, w). held x i ss b tf w \<and> G' r)
      (on_world (on_world (assign (\<lambda>tf. tf\<lparr>tf_copied := tf_copied tf + n\<rparr>))))
      (\<lambda>_ (k, r, tf, w). held x i ss b tf w \<and> G' r) ?E" for n
    by (rule hoare_object3) (simp add: hoare_def)
  have save: "hoare (\<lambda>(k, r, tf, w). held x i ss b tf w \<and> G' r)
      (on_world (on_world (transfer_checkpoint (sv_ledger sv))))
      (\<lambda>_ (k, r, tf, w). held x i ss b tf w \<and> G' r) ?E"
    by (rule hoare_object3, rule hoareI)
      (use checkpoint_held [of x i ss b] in \<open>auto dest: hoare_InrD hoare_InlD\<close>)
  have turn: "hoare (\<lambda>(k, r, tf, w). held x i ss b tf w \<and> (chunk \<noteq> [] \<longrightarrow> G' r))
      (if chunk = [] then ret False
       else bind (on_world (on_world (set_phase destination_write))) (\<lambda>_.
         bind (stream (stream (cn_sink_write destination chunk))) (\<lambda>_.
         bind (on_world (on_world (assign (\<lambda>tf. tf\<lparr>tf_copied := tf_copied tf + length chunk\<rparr>)))) (\<lambda>_.
         bind (on_world (on_world (transfer_checkpoint (sv_ledger sv)))) (\<lambda>_.
         ret True))))) ?Q ?E" for chunk
  proof (cases "chunk = []")
    case True
    then show ?thesis by (auto simp: hoare_def)
  next
    case False
    show ?thesis
      unfolding if_not_P [OF False]
      by (rule hoare_pre [where P' = "\<lambda>(k, r, tf, w). held x i ss b tf w \<and> G' r"],
          rule hoare_bind [OF _ phase], rule hoare_bind [OF _ put], rule hoare_bind [OF _ count],
          rule hoare_bind [OF _ save])
        (auto simp: hoare_def False)
  qed
  show ?thesis
    unfolding transfer_copy_step_def
    by (rule hoare_bind [OF _ phase [where H = G]], rule hoare_bind [OF turn read])
qed

lemma copy_held:
  fixes source destination :: "('w service_world_scheme, 'r, 'k) connector"
  assumes "quiet_connector source view" "quiet_connector destination view" "t \<Longrightarrow> bounded_source source"
  shows "triple t (\<lambda>(k, r, tf, w). held x i ss b tf w) (transfer_copy (sv_ledger sv) source destination)
      (\<lambda>_ (k, r, tf, w). held x i ss b tf w) (\<lambda>_ (k, r, tf, w). held x i ss b tf w)"
  unfolding transfer_copy_def
proof (rule triple_repeat_loop)
  show "hoare (\<lambda>(k, r, tf, w). held x i ss b tf w) (transfer_copy_step (sv_ledger sv) source destination)
      (\<lambda>again s. if again then case s of (k, r, tf, w) \<Rightarrow> held x i ss b tf w
        else case s of (k, r, tf, w) \<Rightarrow> held x i ss b tf w) (\<lambda>_ (k, r, tf, w). held x i ss b tf w)"
    using copy_step_held [OF assms(1,2), of "\<lambda>_. True" "\<lambda>_. True" x i ss b] by (simp cong: if_cong)
next
  assume t
  from assms(3) [OF this] obtain left :: "'r \<Rightarrow> nat" where left: "\<And>n r w data r' w'.
      cn_source_read source n (r, w) = (Inr data, (r', w')) \<Longrightarrow> data \<noteq> [] \<Longrightarrow> left r' < left r"
    unfolding bounded_source_def by blast
  have "hoare (\<lambda>s. (case s of (k, r, tf, w) \<Rightarrow> held x i ss b tf w) \<and> left (fst (snd s)) = n)
      (transfer_copy_step (sv_ledger sv) source destination)
      (\<lambda>again s. again \<longrightarrow> (case s of (k, r, tf, w) \<Rightarrow> held x i ss b tf w) \<and> left (fst (snd s)) < n)
      (\<lambda>_ _. True)" for n
    by (rule hoare_conseq [OF copy_step_held [OF assms(1,2), of "\<lambda>r. left r = n" "\<lambda>r. left r < n"]])
      (auto dest: left)
  then show "\<exists>m. \<forall>n :: nat. hoare (\<lambda>s. (case s of (k, r, tf, w) \<Rightarrow> held x i ss b tf w) \<and> m s = n)
      (transfer_copy_step (sv_ledger sv) source destination)
      (\<lambda>again s. again \<longrightarrow> (case s of (k, r, tf, w) \<Rightarrow> held x i ss b tf w) \<and> m s < n) (\<lambda>_ _. True)"
    by (intro exI [of _ "\<lambda>s. left (fst (snd s))"]) blast
qed

lemma write_body_held:
  fixes source destination :: "('w service_world_scheme, 'r, 'k) connector"
  assumes "quiet_connector source view" "quiet_connector destination view" "t \<Longrightarrow> bounded_source source"
  shows "triple t (\<lambda>(k, r, tf, w). held x i {Running} False tf w) (write_body (sv_ledger sv) source destination)
      (\<lambda>_ (k, r, tf, w). held x i {Publishing} False tf w) (\<lambda>_ (k, r, tf, w). held x i {Running} False tf w)"
    (is "triple t ?P _ (\<lambda>_. ?Q) (\<lambda>_. ?P)")
proof -
  have phase: "hoare ?P (on_world (on_world (set_phase p))) (\<lambda>_. ?P) (\<lambda>_. ?P)" for p
    by (rule hoare_object3) (simp add: hoare_def set_phase_def)
  have finish: "hoare ?P (stream (stream (cn_sink_finish destination))) (\<lambda>_. ?P) (\<lambda>_. ?P)"
    by (rule hoare_writer3, rule hoareI)
      (auto dest: held_method [OF quiet_connector.sink_finish [OF assms(2)]])
  have me: "hoare ?P (on_world (on_world self)) (\<lambda>tf (k, r, tf', w). tf' = tf \<and> held x i {Running} False tf w)
      (\<lambda>_. ?P)"
    by (rule hoare_object3) (auto simp: hoare_def)
  have mark: "hoare (\<lambda>(k, r, tf', w). tf' = tf \<and> held x i {Running} False tf w)
      (on_world (on_world (on_world (ld_publish (sv_ledger sv) (tf_id tf) (tf_copied tf)))))
      (\<lambda>_. ?Q) (\<lambda>_. ?P)" for tf
    by (rule hoare_beside3, rule hoareI)
      (auto dest: publish_held [of _ _ _ _ _ "tf_copied tf"] simp: held_id)
  show ?thesis
    unfolding write_body_def
    by (rule triple_pbind [OF copy_held [OF assms]], assumption, rule triple_total,
        rule hoare_bind [OF _ phase], rule hoare_bind [OF _ finish], rule hoare_bind [OF _ phase],
        rule hoare_bind [OF mark me])
qed

text \<open>The two \<open>with\<close> statements: how a failure inside or at an exit leaves the record.\<close>

definition aftermath :: "'x \<Rightarrow> pystr \<Rightarrow> transfer \<Rightarrow> 'w service_world_scheme \<Rightarrow> bool" where
  "aftermath x i tf w \<longleftrightarrow> held x i {Publishing} True tf w \<or> held x i {Running, Publishing} False tf w"

lemma held_either:
  "held x i {Running} b tf w \<Longrightarrow> held x i {Running, Publishing} b tf w"
  "held x i {Publishing} b tf w \<Longrightarrow> held x i {Running, Publishing} b tf w"
  by (auto simp: held_def)

lemma aftermath_running: "held x i {Running} False tf w \<Longrightarrow> aftermath x i tf w"
  by (auto simp: held_def aftermath_def)

lemma held_published: "held x i ss b tf w \<Longrightarrow> held x i ss True (tf\<lparr>tf_published := True\<rparr>) w"
  by (simp add: held_def)

lemma write_block_held:
  fixes source destination :: "('w service_world_scheme, 'r, 'k) connector"
  assumes "quiet_connector source view" "quiet_connector destination view" "t \<Longrightarrow> bounded_source source"
  shows "triple t (\<lambda>(r, tf, w). held x i {Running} False tf w) (write_block (sv_ledger sv) source destination)
      (\<lambda>_ (r, tf, w). held x i {Publishing} True tf w)
      (\<lambda>_ (r, tf, w). held x i {Running, Publishing} False tf w)"
    (is "triple t ?P _ (\<lambda>_. ?Q) (\<lambda>_. ?E)")
proof -
  have phase: "hoare ?P (on_world (set_phase p)) (\<lambda>_. ?P) (\<lambda>_. ?E)" for p
    by (rule hoare_object2) (simp add: hoare_def set_phase_def)
  have me: "hoare ?P (on_world self) (\<lambda>tf (r, tf', w). tf' = tf \<and> held x i {Running} False tf w) (\<lambda>_. ?E)"
    by (rule hoare_object2) (auto simp: hoare_def)
  have enter: "hoare (\<lambda>(r, tf', w). tf' = tf \<and> held x i {Running} False tf w)
      (on_world (on_world (cn_write_enter destination f u ov)))
      (\<lambda>k (r, tf, w). held x i {Running} False tf w) (\<lambda>_. ?E)" for tf f u ov
    by (rule hoare_beside2, rule hoareI)
      (auto dest: keepsD [OF quiet_connector.write_enter [OF assms(2)]] intro: held_view held_either)
  have exits: "hoare (\<lambda>(k, r, tf, w). held x i ss False tf w)
      (stream (stream (cn_write_exit destination failure)))
      (\<lambda>_ (k, r, tf, w). failure = None \<and> held x i ss False tf w)
      (\<lambda>_ (k, r, tf, w). held x i ss False tf w)" for failure ss
    by (rule hoare_writer3, rule hoareI)
      (auto dest: held_method [OF quiet_connector.write_exit [OF assms(2)]]
        quiet_connector.write_exit_None [OF assms(2)])
  have flag: "hoare (\<lambda>(r, tf, w). held x i {Publishing} False tf w)
      (on_world (assign (\<lambda>tf. tf\<lparr>tf_published := True\<rparr>))) (\<lambda>_. ?Q) (\<lambda>_. ?E)"
    by (rule hoare_object2) (auto simp: hoare_def intro: held_published)
  have block: "triple t ?P
      (pwith_block
        (bind (on_world self) (\<lambda>tf.
         on_world (on_world (cn_write_enter destination (rq_destination_file (tf_request tf)) (tf_id tf)
           (rq_overwrite (tf_request tf))))))
        (write_body (sv_ledger sv) source destination)
        (\<lambda>failure. stream (stream (cn_write_exit destination failure))))
      (\<lambda>_ (r, tf, w). held x i {Publishing} False tf w) (\<lambda>_. ?E)"
  proof (rule triple_pwith_block [OF _ write_body_held [OF assms]])
    show "hoare ?P
        (bind (on_world self) (\<lambda>tf.
         on_world (on_world (cn_write_enter destination (rq_destination_file (tf_request tf)) (tf_id tf)
           (rq_overwrite (tf_request tf))))))
        (\<lambda>obj w. case (obj, w) of (k, r, tf, w) \<Rightarrow> held x i {Running} False tf w) (\<lambda>_. ?E)"
      using hoare_bind [OF enter me] by simp
  qed (assumption | rule hoare_conseq [OF exits]; fastforce intro: held_either)+
  show ?thesis
    unfolding write_block_def
    by (rule triple_pbind [OF triple_total [OF phase]], rule triple_pbind [OF block],
        rule triple_total [OF flag])
qed

lemma read_block_held:
  fixes source destination :: "('w service_world_scheme, 'r, 'k) connector"
  assumes "quiet_connector source view" "quiet_connector destination view" "t \<Longrightarrow> bounded_source source"
  shows "triple t (\<lambda>(tf, w). held x i {Running} False tf w) (read_block (sv_ledger sv) source destination)
      (\<lambda>_ (tf, w). held x i {Publishing} True tf w) (\<lambda>_ (tf, w). aftermath x i tf w)"
    (is "triple t ?P _ (\<lambda>_. ?Q) (\<lambda>_. ?E)")
proof -
  have phase: "hoare ?P (set_phase p) (\<lambda>_. ?P) (\<lambda>_. ?E)" for p
    by (auto simp: hoare_def set_phase_def)
  have enter: "hoare (\<lambda>(tf', w). tf' = tf \<and> held x i {Running} False tf w)
      (on_world (cn_read_enter source f l))
      (\<lambda>k (tf, w). held x i {Running} False tf w) (\<lambda>_. ?E)" for tf f l
    by (rule hoare_beside1, rule hoareI)
      (auto dest: keepsD [OF quiet_connector.read_enter [OF assms(1)]]
        intro: held_view aftermath_running)
  have me: "hoare ?P self (\<lambda>tf (tf', w). tf' = tf \<and> held x i {Running} False tf w) (\<lambda>_. ?E)"
    by (auto simp: hoare_def)
  have exits: "hoare (\<lambda>(r, tf, w). held x i ss b tf w)
      (stream (cn_read_exit source failure))
      (\<lambda>_ (r, tf, w). failure = None \<and> held x i ss b tf w)
      (\<lambda>_ (r, tf, w). held x i ss b tf w)" for failure ss b
    by (rule hoare_stream2, rule hoareI)
      (auto dest: held_method [OF quiet_connector.read_exit [OF assms(1)]]
        quiet_connector.read_exit_None [OF assms(1)])
  have block: "triple t ?P
      (pwith_block
        (bind self (\<lambda>tf. on_world (cn_read_enter source (rq_source_file (tf_request tf)) None)))
        (write_block (sv_ledger sv) source destination)
        (\<lambda>failure. stream (cn_read_exit source failure))) (\<lambda>_. ?Q) (\<lambda>_. ?E)"
  proof (rule triple_pwith_block [OF _ write_block_held [OF assms]])
    show "hoare ?P
        (bind self (\<lambda>tf. on_world (cn_read_enter source (rq_source_file (tf_request tf)) None)))
        (\<lambda>obj w. case (obj, w) of (r, tf, w) \<Rightarrow> held x i {Running} False tf w) (\<lambda>_. ?E)"
      using hoare_bind [OF enter me] by simp
  qed (assumption | rule hoare_conseq [OF exits]; fastforce simp: aftermath_def)+
  show ?thesis
    unfolding read_block_def by (rule triple_pbind [OF triple_total [OF phase] block])
qed

lemma connector_held:
  "hoare (\<lambda>(tf, w). held x i {Running} False tf w)
     (bind self (\<lambda>tf. on_world (transfer_connector sv (name tf))))
     (\<lambda>cn (tf, w). quiet_connector cn view \<and> (\<exists>c w w'. sv_factory sv c w = (Inr cn, w')) \<and>
        held x i {Running} False tf w) (\<lambda>_ (tf, w). aftermath x i tf w)"
proof (rule hoareI_ends, clarify)
  fix tf w assume h: "held x i {Running} False tf w"
  obtain r w1 where r: "ld_get (sv_ledger sv) (name tf) w = (r, w1)" by (rule prod.exhaust)
  from h get [OF _ r] have h1: "held x i {Running} False tf w1" by (auto simp: held_def)
  then have o1: "aftermath x i tf w1" by (rule aftermath_running)
  show "ends True (\<lambda>cn (tf, w). quiet_connector cn view \<and> (\<exists>c w w'. sv_factory sv c w = (Inr cn, w')) \<and>
        held x i {Running} False tf w) (\<lambda>_ (tf, w). aftermath x i tf w)
      (Some (bind self (\<lambda>tf. on_world (transfer_connector sv (name tf))) (tf, w)))"
  proof (cases r)
    case (Inl e)
    with r o1 show ?thesis by (simp add: bind_apply on_world_apply transfer_connector_def)
  next
    case (Inr c)
    obtain y w2 where y: "sv_factory sv c w1 = (y, w2)" by (rule prod.exhaust)
    have "held x i {Running} False tf w2" using held_view [OF keepsD [OF factory y] h1] .
    moreover then have "aftermath x i tf w2" by (rule aftermath_running)
    ultimately show ?thesis
      using r Inr y opened [of c w1]
      by (cases y) (auto simp: bind_apply on_world_apply transfer_connector_def)
  qed
qed

lemma attempt_held:
  assumes "\<And>c w cn w'. t \<Longrightarrow> sv_factory sv c w = (Inr cn, w') \<Longrightarrow> bounded_source cn"
  shows "triple t (\<lambda>(tf, w). held x i {Running} False tf w) (transfer_attempt sv)
      (\<lambda>_ (tf, w). held x i {Publishing} True tf w) (\<lambda>_ (tf, w). aftermath x i tf w)"
    (is "triple t ?P _ (\<lambda>_. ?Q) (\<lambda>_. ?E)")
proof -
  let ?C = "\<lambda>cn. quiet_connector cn view \<and> (\<exists>c w w'. sv_factory sv c w = (Inr cn, w'))"
  have phase: "hoare (\<lambda>s. G \<and> ?P s) (set_phase p) (\<lambda>_ s. G \<and> ?P s) (\<lambda>_. ?E)" for p G
    by (auto simp: hoare_def set_phase_def)
  have lookup: "hoare ?P (bind self (\<lambda>tf. on_world (transfer_connector sv (name tf))))
      (\<lambda>cn s. ?C cn \<and> ?P s) (\<lambda>_. ?E)" for name
    by (rule hoare_conseq [OF connector_held]) auto
  have lookup2: "hoare (\<lambda>s. ?C source \<and> ?P s) (bind self (\<lambda>tf. on_world (transfer_connector sv (name tf))))
      (\<lambda>cn s. ?C source \<and> ?C cn \<and> ?P s) (\<lambda>_. ?E)" for name source
    using lookup [of name] by (cases "?C source") (auto simp: hoare_def)
  have block: "triple t (\<lambda>s. ?C source \<and> ?C destination \<and> ?P s)
      (read_block (sv_ledger sv) source destination) (\<lambda>_. ?Q) (\<lambda>_. ?E)" for source destination
  proof (cases "?C source \<and> ?C destination")
    case True
    have "triple t ?P (read_block (sv_ledger sv) source destination) (\<lambda>_. ?Q) (\<lambda>_. ?E)"
      by (rule read_block_held) (use True assms in blast)+
    with True show ?thesis by simp
  qed (auto simp: triple_def)
  show ?thesis
    unfolding transfer_attempt_def
    by (rule triple_pbind [OF triple_total [OF lookup]], rule triple_pbind [OF triple_total [OF phase]],
        rule triple_pbind [OF triple_total [OF lookup2] block])
qed

text \<open>After a failure the record is failed, or the log says that this could not be saved.\<close>

definition gone :: "'x \<Rightarrow> pystr \<Rightarrow> exn \<Rightarrow> transfer \<Rightarrow> 'w service_world_scheme \<Rightarrow> bool" where
  "gone x i e tf w \<longleftrightarrow> is_db_error e \<and> err_transfer e = Some i \<and>
     (held x i {Failed} False tf w \<or>
      held x i {Running, Publishing} False tf w \<and> (\<exists>l. log w = ''transfer_failure_not_saved'' # l) \<or>
      held x i {Publishing} True tf w \<and> err_code e = TRANSFER_RECORD_FAILED)"

lemma fail_held:
  assumes "transfer_fail (sv_ledger sv) e (tf, w) = (r, s')" "held x i {Running, Publishing} False tf w"
  shows "\<exists>e' w'. r = Inl e' \<and> s' = (tf, w') \<and> gone x i e' tf w'"
proof -
  obtain code message where cm: "failure_of tf e = (code, message)" by (rule prod.exhaust)
  let ?w1 = "if is_db_error e then w else snd (warning ''transfer_failed'' w)"
  have h1: "held x i {Running, Publishing} False tf ?w1"
    using assms(2) held_view [OF keepsD [OF logs]] by (simp add: warning_def)
  let ?m = "except_db_error (ld_fail (sv_ledger sv) (tf_id tf) (tf_copied tf) (tf_phase tf) code message)
      (\<lambda>_. warning ''transfer_failure_not_saved'')"
  obtain y w2 where y: "?m ?w1 = (y, w2)" by (rule prod.exhaust)
  let ?e = "DataBridgeError code message (Some (tf_id tf))"
  have i: "tf_id tf = i" using h1 by (rule held_id)
  have "y = Inr () \<and> gone x i ?e tf w2"
    using y
  proof (cases rule: except_db_error_cases)
    case (returned u)
    from fail [OF _ _ returned(1)] h1 i have "held x i {Failed} False tf w2" by (auto simp: held_def)
    with returned i show ?thesis by (simp add: gone_def)
  next
    case (handled e' w3)
    from fail [OF _ _ handled(1)] h1 i have "held x i {Running, Publishing} False tf w3"
      by (auto simp: held_def)
    with handled(3) held_view [OF keepsD [OF logs handled(3)] this] i show ?thesis
      by (auto simp: gone_def warning_def)
  next
    case (passed e')
    from fail [OF _ _ passed(1)] h1 i passed(2) show ?thesis by (auto simp: held_def)
  qed
  with assms(1) y cm show ?thesis
    by (auto simp: transfer_fail_def bind_apply on_world_apply warning_def split: if_splits)
qed

lemma rescue_held:
  "hoare (\<lambda>(tf, w). aftermath x i tf w) (transfer_rescue (sv_ledger sv) e)
     (\<lambda>_ (tf, w). held x i {Publishing} True tf w) (\<lambda>e (tf, w). gone x i e tf w)"
proof (rule hoareI_ends, clarify)
  fix tf w assume a: "aftermath x i tf w"
  show "ends True (\<lambda>_ (tf, w). held x i {Publishing} True tf w) (\<lambda>e (tf, w). gone x i e tf w)
      (Some (transfer_rescue (sv_ledger sv) e (tf, w)))"
  proof (cases "tf_published tf")
    case True
    with a have h: "held x i {Publishing} True tf w" by (simp add: aftermath_def held_def)
    obtain u w1 where u: "warning ''transfer_source_release_failed'' w = (u, w1)" by (rule prod.exhaust)
    have "u = Inr ()" using u by (simp add: warning_def)
    with True u held_view [OF keepsD [OF logs u] h] show ?thesis
      by (simp add: transfer_rescue_def bind_apply on_world_apply)
  next
    case False
    with a have h: "held x i {Running, Publishing} False tf w" by (simp add: aftermath_def held_def)
    obtain r s' where f: "transfer_fail (sv_ledger sv) e (tf, w) = (r, s')" by (rule prod.exhaust)
    from fail_held [OF this h] f False show ?thesis
      by (auto simp: transfer_rescue_def bind_apply)
  qed
qed

lemma finish_held:
  "hoare (\<lambda>(tf, w). held x i {Publishing} True tf w) (transfer_finish (sv_ledger sv))
     (\<lambda>rec (tf, w). held x i {Completed} True tf w \<and> tr_id rec = i \<and> tr_status rec = Completed)
     (\<lambda>e (tf, w). gone x i e tf w)"
proof (rule hoareI_ends, clarify)
  fix tf w assume h: "held x i {Publishing} True tf w"
  let ?m = "except_db_error (ld_finish (sv_ledger sv) (tf_id tf)) (\<lambda>e. raise (unfinished_error tf e))"
  obtain r w1 where r: "?m w = (r, w1)" by (rule prod.exhaust)
  have i: "tf_id tf = i" using h by (rule held_id)
  have "case r of Inl e \<Rightarrow> gone x i e tf w1
    | Inr rec \<Rightarrow> held x i {Completed} True tf w1 \<and> tr_id rec = i \<and> tr_status rec = Completed"
    using r
  proof (cases rule: except_db_error_cases)
    case (returned rec)
    from finish [OF _ _ returned(1)] h i returned show ?thesis by (auto simp: held_def)
  next
    case (handled e w2)
    from finish [OF _ _ handled(1)] h i have "held x i {Publishing} True tf w2" by (auto simp: held_def)
    with handled(3) i show ?thesis by (auto simp: gone_def unfinished_error_def)
  next
    case (passed e)
    from finish [OF _ _ passed(1)] h i passed show ?thesis by (auto simp: held_def)
  qed
  with r show "ends True
      (\<lambda>rec (tf, w). held x i {Completed} True tf w \<and> tr_id rec = i \<and> tr_status rec = Completed)
      (\<lambda>e (tf, w). gone x i e tf w) (Some (transfer_finish (sv_ledger sv) (tf, w)))"
    by (cases r) (simp_all add: transfer_finish_def bind_apply on_world_apply)
qed

text \<open>
  A whole run. If it returns a record, that record is completed; if it raises, the error is typed,
  and it cites the transfer unless the record could not even be started.
\<close>

definition unstarted :: "'x \<Rightarrow> pystr \<Rightarrow> transfer_status option \<Rightarrow> exn \<Rightarrow> 'w service_world_scheme \<Rightarrow> bool" where
  "unstarted x i s e w \<longleftrightarrow> ok (view w) \<and> rest (view w) = x \<and> status i (view w) = s \<and>
     is_db_error e \<and> err_transfer e = None"

lemma run_held:
  assumes "\<And>c w cn w'. t \<Longrightarrow> sv_factory sv c w = (Inr cn, w') \<Longrightarrow> bounded_source cn"
  shows "triple t
      (\<lambda>(tf, w). ok (view w) \<and> rest (view w) = x \<and> status i (view w) = s \<and> tf_id tf = i \<and> \<not> tf_published tf)
      (transfer_run sv)
      (\<lambda>rec (tf, w). held x i {Completed} True tf w \<and> tr_id rec = i \<and> tr_status rec = Completed)
      (\<lambda>e (tf, w). \<not> tf_published tf \<and> unstarted x i s e w \<or> gone x i e tf w)"
    (is "triple t ?P _ ?Q ?E")
proof -
  let ?H = "\<lambda>(tf, w). held x i {Running} False tf w"
  have start: "hoare ?P (bind self (\<lambda>tf. translate uncited
      (on_world (ld_start (sv_ledger sv) (tf_id tf) (tf_request tf))))) (\<lambda>_. ?H) ?E"
  proof (rule hoareI_ends)
    fix s1 assume "?P s1"
    then obtain tf w where s1: "s1 = (tf, w)" and w: "ok (view w)" "rest (view w) = x"
      "status i (view w) = s" "\<not> tf_published tf" "tf_id tf = i" by (cases s1) auto
    obtain r w1 where r: "ld_start (sv_ledger sv) i (tf_request tf) w = (r, w1)"
      by (rule prod.exhaust)
    have "unstarted x i s (uncited e) w1" if "r = Inl e" for e
      using start [OF w(1) r] that w by (cases e) (auto simp: unstarted_def uncited_def db_error_def)
    with start [OF w(1) r] r w show "ends True (\<lambda>_. ?H) ?E
        (Some (bind self (\<lambda>tf. translate uncited
          (on_world (ld_start (sv_ledger sv) (tf_id tf) (tf_request tf)))) s1))"
      by (cases r) (auto simp: s1 bind_apply translate_apply on_world_apply held_def)
  qed
  have tick: "hoare ?H (bind (on_world monotonic) (\<lambda>t. assign (\<lambda>tf. tf\<lparr>tf_checkpoint := t\<rparr>))) (\<lambda>_. ?H) ?E"
  proof (rule hoareI_ends, clarify)
    fix tf w assume h: "held x i {Running} False tf w"
    obtain c w1 where c: "monotonic w = (Inr c, w1)"
      by (cases "sw_clock w") (auto simp: monotonic_def)
    with held_view [OF keepsD [OF clock c] h] show "ends True (\<lambda>_. ?H) ?E
        (Some (bind (on_world monotonic) (\<lambda>t. assign (\<lambda>tf. tf\<lparr>tf_checkpoint := t\<rparr>)) (tf, w)))"
      by (simp add: bind_apply on_world_apply)
  qed
  have guarded: "triple t ?H
      (ptry_except (transfer_attempt sv) (\<lambda>e. Loops.total (transfer_rescue (sv_ledger sv) e)))
      (\<lambda>_ (tf, w). held x i {Publishing} True tf w) ?E"
    by (rule triple_ptry_except [OF attempt_held [OF assms]], assumption, assumption, rule triple_total,
        rule hoare_conseq [OF rescue_held]) auto
  show ?thesis
    unfolding transfer_run_def
    by (rule triple_pbind [OF triple_total [OF start]], rule triple_pbind [OF triple_total [OF tick]],
        rule triple_pbind [OF guarded], rule triple_total, rule hoare_conseq [OF finish_held]) auto
qed

end

end
