(* ===== verification/Local.thy ===== *)
theory Local
  imports Models Posix
begin

text \<open>
  \<^verbatim>\<open>databridge/connectors/local.py\<close>: the connector of a local directory. The methods and module
  functions of the source, over the system calls of \<open>Posix\<close>.
\<close>

section \<open>Errors\<close>

definition NOT_WRITABLE :: "errno set" where "NOT_WRITABLE = {EACCES, EPERM, EROFS}"
definition FULL :: "errno set" where "FULL = {ENOSPC, EDQUOT}"
definition MISSING :: "errno set" where "MISSING = {ENOENT, ENOTDIR}"
definition NO_HARD_LINKS :: "errno set" where
  "NO_HARD_LINKS = {EPERM, ENOTSUP, EOPNOTSUPP, EXDEV, EMLINK}"

definition local_root_unavailable :: exn where
  "local_root_unavailable =
     db_error CONNECTION_ROOT_UNAVAILABLE (lit ''The local connection directory is unavailable'')"

definition write_error :: "errno \<Rightarrow> pystr \<Rightarrow> exn" where
  "write_error n action =
     (if n \<in> FULL then
        db_error DESTINATION_FULL (lit ''The destination has no space left to '' @ action)
      else if n \<in> NOT_WRITABLE then
        db_error DESTINATION_NOT_WRITABLE
          (lit ''The connection directory does not allow DataBridge to '' @ action)
      else db_error DESTINATION_WRITE_FAILED (lit ''Cannot '' @ action))"

text \<open>\<open>except OSError as exc: raise _write_error(exc, action)\<close>.\<close>

definition write_errors :: "string \<Rightarrow> ('s, 'a) io \<Rightarrow> ('s, 'a) io" where
  "write_errors action = translate (on_oserror (\<lambda>n. write_error n (lit action)))"

text \<open>\<open>except (OSError, RuntimeError)\<close>.\<close>

fun on_os_or_runtime :: "exn \<Rightarrow> exn \<Rightarrow> exn" where
  "on_os_or_runtime x (OSError _) = x"
| "on_os_or_runtime x (PyError s) = (if s = ''RuntimeError'' then x else PyError s)"
| "on_os_or_runtime x e = e"

section \<open>Reading\<close>

record file_source =
  src_descriptor :: nat
  src_remaining :: nat
  src_filename :: pystr

definition FileSource_read :: "nat \<Rightarrow> (file_source \<times> 'w os_world_scheme, bytes) io" where
  "FileSource_read n =
     bind self (\<lambda>src.
       if src_remaining src = 0 then ret []
       else
         bind (translate (on_oserror (\<lambda>_.
                 db_error SOURCE_READ_FAILED (lit ''Cannot read the local source file'')))
                (on_world (sys_read (src_descriptor src) (min n (src_remaining src)))))
           (\<lambda>data.
             if data = [] then raise (source_changed (src_filename src))
             else
               bind (assign (\<lambda>s. s\<lparr>src_remaining := src_remaining s - length data\<rparr>))
                 (\<lambda>_. ret data)))"

section \<open>Writing the staging file\<close>

text \<open>The source marks a closed sink by the descriptor -1, here \<open>None\<close>.\<close>

record file_sink =
  sk_descriptor :: "nat option"
  sk_existing :: "stat_result option"
  sk_bytes_written :: nat

definition FileSink_open :: "('k file_sink_scheme \<times> 'w os_world_scheme, nat) io" where
  "FileSink_open =
     bind self (\<lambda>sink. case sk_descriptor sink of
       None \<Rightarrow> raise (PyError ''RuntimeError'') | Some d \<Rightarrow> ret d)"

lemma FileSink_open_apply [simp]:
  "FileSink_open (k, w) =
     (case sk_descriptor k of None \<Rightarrow> (Inl (PyError ''RuntimeError''), (k, w)) | Some d \<Rightarrow> (Inr d, (k, w)))"
  by (simp add: FileSink_open_def bind_apply split: option.splits)

definition FileSink_write_once ::
  "bytes \<Rightarrow> ('k file_sink_scheme \<times> 'w os_world_scheme, nat) io" where
  "FileSink_write_once view =
     write_errors ''write the staging file''
       (bind FileSink_open (\<lambda>d. on_world (sys_write d view)))"

lemma FileSink_write_once_pos:
  "FileSink_write_once view s = (Inr n, s') \<Longrightarrow> view \<noteq> [] \<Longrightarrow> 0 < n"
  by (auto simp: FileSink_write_once_def write_errors_def translate_eq_Inr bind_eq_Inr
      sys_write_def on_fd_def syscall_def on_world_def Let_def
      split: prod.splits option.splits list.splits outcome.splits)

text \<open>The loop over the bytes not yet written; each round writes at least one of them.\<close>

function FileSink_write ::
  "bytes \<Rightarrow> 'k file_sink_scheme \<times> 'w os_world_scheme \<Rightarrow>
   unit result \<times> ('k file_sink_scheme \<times> 'w os_world_scheme)" where
  "FileSink_write view s =
     (if view = [] then (Inr (), s)
      else case FileSink_write_once view s of
        (Inl e, s') \<Rightarrow> (Inl e, s')
      | (Inr written, (sink, w)) \<Rightarrow>
          FileSink_write (drop written view)
            (sink\<lparr>sk_bytes_written := sk_bytes_written sink + written\<rparr>, w))"
  by pat_completeness auto
termination
  by (relation "measure (\<lambda>(view, _). length view)") (auto dest!: FileSink_write_once_pos [OF sym])

declare FileSink_write.simps [simp del]

lemma FileSink_write_Nil [simp]: "FileSink_write [] s = (Inr (), s)"
  by (simp add: FileSink_write.simps)

definition persist ::
  "nat \<Rightarrow> nat \<Rightarrow> stat_result option \<Rightarrow> ('w os_world_scheme, unit) io" where
  "persist d expected existing =
     bind
       (write_errors ''persist the staging file''
         (bind (sys_fsync d) (\<lambda>_.
          bind (sys_fstat d) (\<lambda>st.
          bind (case existing of None \<Rightarrow> ret () | Some ex \<Rightarrow> sys_fchmod d (st_mode ex)) (\<lambda>_.
          ret (st_size st))))))
       (\<lambda>stored.
         if stored \<noteq> expected then
           raise (db_error DESTINATION_WRITE_FAILED
             (lit ''The staging file holds '' @ show_nat stored @ lit '' of '' @ show_nat expected @
              lit '' bytes''))
         else ret ())"

definition FileSink_finish :: "('k file_sink_scheme \<times> 'w os_world_scheme, unit) io" where
  "FileSink_finish =
     bind self (\<lambda>sink. case sk_descriptor sink of
       None \<Rightarrow> ret ()
     | Some d \<Rightarrow>
         bind (assign (\<lambda>s. s\<lparr>sk_descriptor := None\<rparr>)) (\<lambda>_.
         bind
           (try_except (on_world (persist d (sk_bytes_written sink) (sk_existing sink)))
             (\<lambda>e. bind (suppress_oserror (on_world (sys_close d))) (\<lambda>_. raise e))) (\<lambda>_.
         write_errors ''close the staging file'' (on_world (sys_close d)))))"

definition FileSink_release :: "('k file_sink_scheme \<times> 'w os_world_scheme, unit) io" where
  "FileSink_release =
     bind self (\<lambda>sink. case sk_descriptor sink of
       None \<Rightarrow> ret ()
     | Some d \<Rightarrow>
         bind (assign (\<lambda>s. s\<lparr>sk_descriptor := None\<rparr>)) (\<lambda>_.
         suppress_oserror (on_world (sys_close d))))"

section \<open>Publication\<close>

definition existing_file ::
  "path \<Rightarrow> pystr \<Rightarrow> bool \<Rightarrow> ('w os_world_scheme, stat_result option) io" where
  "existing_file destination filename overwrite =
     bind
       (try_except (bind (sys_stat destination) (\<lambda>st. ret (Some st)))
         (\<lambda>e. case e of
            OSError n \<Rightarrow>
              if n = ENOENT then ret None
              else raise (write_error n (lit ''inspect the destination''))
          | _ \<Rightarrow> raise e))
       (\<lambda>found. case found of
          None \<Rightarrow> ret None
        | Some existing \<Rightarrow>
            if \<not> overwrite then raise (destination_exists filename)
            else if st_kind existing \<noteq> Regular then
              raise (db_error DESTINATION_EXISTS
                ([39] @ filename @ [39] @ lit '' exists and is not a regular file''))
            else ret (Some existing))"

definition publish_error :: "pystr \<Rightarrow> bool \<Rightarrow> errno \<Rightarrow> exn" where
  "publish_error filename overwrite n =
     (if n = EEXIST then destination_exists filename
      else if \<not> overwrite \<and> n \<in> NO_HARD_LINKS then
        db_error PUBLISH_UNSUPPORTED
          (lit ''The destination filesystem cannot create hard links, which publishing without '' @
           lit ''overwrite requires; set \"overwrite\": true to replace atomically instead'')
      else write_error n (lit ''publish the destination file''))"

definition local_publish ::
  "path \<Rightarrow> path \<Rightarrow> pystr \<Rightarrow> bool \<Rightarrow> ('w os_world_scheme, unit) io" where
  "local_publish stage destination filename overwrite =
     translate (on_oserror (publish_error filename overwrite))
       (if overwrite then sys_replace stage destination else sys_link stage destination)"

text \<open>
  A directory can be opened for reading like a file. Every OSError, also of the inner
  \<open>close\<close>, ends in the warning.
\<close>

definition sync_directory :: "path \<Rightarrow> ('w os_world_scheme, unit) io" where
  "sync_directory directory =
     try_except
       (bind (sys_open_read directory) (\<lambda>d. try_finally (sys_fsync d) (sys_close d)))
       (\<lambda>e. case e of OSError _ \<Rightarrow> warning ''directory_sync_failed'' | _ \<Rightarrow> raise e)"

text \<open>\<open>path.unlink(missing_ok=True)\<close>, with any other OSError logged.\<close>

definition remove_stage :: "path \<Rightarrow> ('w os_world_scheme, unit) io" where
  "remove_stage p =
     try_except (sys_unlink p)
       (\<lambda>e. case e of
          OSError n \<Rightarrow> if n = ENOENT then ret () else warning ''staging_cleanup_failed''
        | _ \<Rightarrow> raise e)"

section \<open>The connector\<close>

record local_connector =
  lc_root :: pystr

definition LocalConnector_open :: "connection \<Rightarrow> local_connector result" where
  "LocalConnector_open c =
     (case c of
        LocalConnection _ p \<Rightarrow> Inr \<lparr>lc_root = p\<rparr>
      | SFTPConnection _ _ _ _ _ _ \<Rightarrow> Inl (PyError ''TypeError''))"

definition prepare_error :: "exn \<Rightarrow> exn" where
  "prepare_error e =
     (case e of
        OSError n \<Rightarrow>
          if n = EEXIST then
            db_error INVALID_CONNECTION_SETTINGS (lit ''Local path exists and is not a directory'')
          else
            db_error INVALID_CONNECTION_SETTINGS (lit ''Cannot create or resolve the local directory'')
      | PyError s \<Rightarrow>
          if s \<in> {''RuntimeError'', ''ValueError''} then
            db_error INVALID_CONNECTION_SETTINGS (lit ''Cannot create or resolve the local directory'')
          else e
      | _ \<Rightarrow> e)"

definition LocalConnector_prepare :: "connection \<Rightarrow> ('w os_world_scheme, connection) io" where
  "LocalConnector_prepare c =
     (case c of
        SFTPConnection _ _ _ _ _ _ \<Rightarrow> raise (PyError ''TypeError'')
      | LocalConnection name p \<Rightarrow>
          bind
            (translate prepare_error
              (bind (expanduser p) (\<lambda>requested.
               bind (path_mkdir requested 511 True True) (\<lambda>_.
               path_resolve_strict requested))))
            (\<lambda>root. bind (path_is_dir root) (\<lambda>d.
              if \<not> d then
                raise (db_error INVALID_CONNECTION_SETTINGS (lit ''Local path is not a directory''))
              else ret (LocalConnection name (path_text root)))))"

definition local_root :: "local_connector \<Rightarrow> ('w os_world_scheme, path) io" where
  "local_root c =
     bind (translate (on_os_or_runtime local_root_unavailable)
             (bind (path_of_text (lc_root c)) path_resolve_strict))
       (\<lambda>root. bind (path_is_dir root) (\<lambda>d.
          if \<not> d then raise local_root_unavailable else ret root))"

definition local_resolve ::
  "local_connector \<Rightarrow> pystr \<Rightarrow> ('w os_world_scheme, path \<times> path) io" where
  "local_resolve c filename =
     bind (of_result (validate_filename filename)) (\<lambda>_.
     bind (local_root c) (\<lambda>root.
     bind (translate (on_os_or_runtime (db_error INVALID_FILENAME
                (lit ''Filename cannot be resolved inside the connection root'')))
             (path_resolve (root @ [filename]))) (\<lambda>resolved.
     if \<not> is_relative_to resolved root then
       raise (db_error INVALID_FILENAME (lit ''Filename escapes the connection root''))
     else ret (root, resolved))))"

definition local_list_files :: "local_connector \<Rightarrow> ('w os_world_scheme, listing) io" where
  "local_list_files c =
     bind (local_root c) (\<lambda>root.
       translate (on_oserror (\<lambda>_. local_root_unavailable))
         (bind (sys_scandir root) (\<lambda>entries. of_result (bounded_listing entries))))"

definition local_check_access :: "local_connector \<Rightarrow> ('w os_world_scheme, access_check) io" where
  "local_check_access c =
     bind (local_list_files c) (\<lambda>_.
     bind (local_root c) (\<lambda>root.
     bind uuid4 (\<lambda>u.
     bind (of_result (probe_name u)) (\<lambda>name.
     bind
       (try_except (bind (sys_create (root @ [name]) 384) (\<lambda>d. ret (Some d)))
         (\<lambda>e. case e of
            OSError n \<Rightarrow>
              if n \<in> NOT_WRITABLE \<union> FULL then ret None
              else raise (db_error LOCAL_IO_ERROR
                     (lit ''Cannot test write access to the connection directory''))
          | _ \<Rightarrow> raise e))
       (\<lambda>opened. case opened of
          None \<Rightarrow> ret \<lparr>writable = False\<rparr>
        | Some d \<Rightarrow>
            bind (suppress_oserror (sys_close d)) (\<lambda>_.
            bind
              (translate (on_oserror (\<lambda>_. db_error LOCAL_IO_ERROR
                   (lit ''Cannot remove the write-access probe '' @ [39] @ name @ [39] @
                    lit '' from the connection root'')))
                (sys_unlink (root @ [name]))) (\<lambda>_.
            ret \<lparr>writable = True\<rparr>)))))))"

definition open_read_error :: "pystr \<Rightarrow> errno \<Rightarrow> exn" where
  "open_read_error filename n =
     (if n = ENOENT then
        db_error FILE_NOT_FOUND
          (lit ''No file named '' @ [39] @ filename @ [39] @ lit '' at the connection root'')
      else if n \<in> {EACCES, EPERM} then
        db_error FILE_NOT_READABLE
          (lit ''The service user may not read '' @ [39] @ filename @ [39])
      else if n = ELOOP then
        db_error INVALID_FILENAME
          ([39] @ filename @ [39] @ lit '' changed while it was being opened'')
      else db_error LOCAL_IO_ERROR (lit ''Cannot open the local file''))"

definition local_read_enter ::
  "local_connector \<Rightarrow> pystr \<Rightarrow> nat option \<Rightarrow> ('w os_world_scheme, file_source) io" where
  "local_read_enter c filename limit =
     bind (local_resolve c filename) (\<lambda>(_, p).
     bind (translate (on_oserror (open_read_error filename)) (sys_open_read p)) (\<lambda>d.
     try_except
       (bind
         (translate (on_oserror (\<lambda>_. db_error LOCAL_IO_ERROR
             (lit ''Cannot inspect the opened file '' @ [39] @ filename @ [39])))
           (bind (sys_fstat d) (\<lambda>opened.
            bind (only_if (st_kind opened = Regular) (sys_set_blocking d)) (\<lambda>_. ret opened))))
         (\<lambda>opened.
           if st_kind opened \<noteq> Regular then
             raise (db_error FILE_NOT_FOUND
               ([39] @ filename @ [39] @ lit '' is not a regular file''))
           else ret \<lparr>src_descriptor = d,
                     src_remaining = (case limit of None \<Rightarrow> st_size opened
                                      | Some n \<Rightarrow> min (st_size opened) n),
                     src_filename = filename\<rparr>))
       (\<lambda>e. bind (suppress_oserror (sys_close d)) (\<lambda>_. raise e))))"

definition local_read_exit :: "exn option \<Rightarrow> (file_source \<times> 'w os_world_scheme, unit) io" where
  "local_read_exit failure =
     try_finally (rethrow failure)
       (bind self (\<lambda>src. suppress_oserror (on_world (sys_close (src_descriptor src)))))"

record local_write = file_sink +
  lw_root :: path
  lw_stage :: path
  lw_destination :: path
  lw_filename :: pystr
  lw_overwrite :: bool

definition create_error :: "errno \<Rightarrow> exn" where
  "create_error n =
     (if n \<in> MISSING then local_root_unavailable
      else write_error n (lit ''create the staging file''))"

definition local_write_enter ::
  "local_connector \<Rightarrow> pystr \<Rightarrow> pystr \<Rightarrow> bool \<Rightarrow> ('w os_world_scheme, local_write) io" where
  "local_write_enter c filename staging_id overwrite =
     bind (local_resolve c filename) (\<lambda>(root, destination).
     bind (existing_file destination filename overwrite) (\<lambda>existing.
     bind (of_result (stage_name staging_id)) (\<lambda>name.
     bind (translate (on_oserror create_error) (sys_create (root @ [name]) 438)) (\<lambda>d.
     ret \<lparr>sk_descriptor = Some d, sk_existing = existing, sk_bytes_written = 0,
          lw_root = root, lw_stage = root @ [name], lw_destination = destination,
          lw_filename = filename, lw_overwrite = overwrite\<rparr>))))"

definition local_write_exit :: "exn option \<Rightarrow> (local_write \<times> 'w os_world_scheme, unit) io" where
  "local_write_exit failure =
     try_finally
       (bind (rethrow failure) (\<lambda>_.
        bind FileSink_finish (\<lambda>_.
        bind self (\<lambda>k.
        bind (on_world (local_publish (lw_stage k) (lw_destination k) (lw_filename k)
                          (lw_overwrite k))) (\<lambda>_.
        on_world (sync_directory (lw_root k)))))))
       (bind FileSink_release (\<lambda>_. bind self (\<lambda>k. on_world (remove_stage (lw_stage k)))))"

definition local_methods ::
  "local_connector \<Rightarrow> ('w os_world_scheme, file_source, local_write) connector" where
  "local_methods c =
     \<lparr>cn_list_files = local_list_files c,
      cn_check_access = local_check_access c,
      cn_read_enter = local_read_enter c,
      cn_source_read = FileSource_read,
      cn_read_exit = local_read_exit,
      cn_write_enter = local_write_enter c,
      cn_sink_write = FileSink_write,
      cn_sink_finish = FileSink_finish,
      cn_write_exit = local_write_exit\<rparr>"

section \<open>Error contract\<close>

text \<open>
  Every exception is a \<open>DataBridgeError\<close>, under any schedule of faults and interference, but for
  what \<open>Path.is_dir\<close> lets through in \<open>_root\<close>.
\<close>

definition typed_or_is_dir :: "exn \<Rightarrow> bool" where
  "typed_or_is_dir e \<longleftrightarrow> is_db_error e \<or> escapes_is_dir e"

lemma typed_or_is_dirI [intro]:
  "is_db_error e \<Longrightarrow> typed_or_is_dir e" "escapes_is_dir e \<Longrightarrow> typed_or_is_dir e"
  by (simp_all add: typed_or_is_dir_def)

lemma is_db_error_write_error [simp]: "is_db_error (write_error n a)"
  by (simp add: write_error_def)

lemma is_db_error_local_root_unavailable [simp]: "is_db_error local_root_unavailable"
  by (simp add: local_root_unavailable_def)

lemma is_db_error_publish_error [simp]: "is_db_error (publish_error f o' n)"
  by (simp add: publish_error_def)

lemma is_db_error_open_read_error [simp]: "is_db_error (open_read_error f n)"
  by (simp add: open_read_error_def)

lemma is_db_error_create_error [simp]: "is_db_error (create_error n)"
  by (simp add: create_error_def)

lemma on_oserror_typed: "is_oserror e \<Longrightarrow> (\<And>n. is_db_error (f n)) \<Longrightarrow> is_db_error (on_oserror f e)"
  by (cases e) simp_all

lemma on_os_or_runtime_typed:
  "is_path_error e \<Longrightarrow> is_db_error x \<Longrightarrow> is_db_error (on_os_or_runtime x e)"
  by (cases e) simp_all

lemma raises_oserror_typed:
  "raises is_oserror m \<Longrightarrow> (\<And>n. is_db_error (f n)) \<Longrightarrow>
   raises is_db_error (translate (on_oserror f) m)"
  by (erule raises_translate) (simp add: on_oserror_typed)

lemma raises_path_typed:
  "raises is_path_error m \<Longrightarrow> is_db_error x \<Longrightarrow>
   raises typed_or_is_dir (translate (on_os_or_runtime x) m)"
  by (erule raises_translate) (auto intro: on_os_or_runtime_typed)

lemma raises_FileSource_read: "raises is_db_error (FileSource_read n)"
  unfolding FileSource_read_def
  by (intro raises_rules raises_oserror_typed) simp_all

lemma raises_persist: "raises is_db_error (persist d expected existing)"
  unfolding persist_def write_errors_def
  by (intro raises_rules raises_oserror_typed) simp_all

lemma raises_FileSink_finish: "raises is_db_error (FileSink_finish)"
  unfolding FileSink_finish_def write_errors_def
  by (intro raises_rules raises_oserror_typed raises_try_except [where Q = is_db_error]
      raises_persist) simp_all

lemma raises_FileSink_release: "raises P (FileSink_release)"
  unfolding FileSink_release_def by (intro raises_rules)

text \<open>A sink that is still open raises typed errors only; a closed one is a RuntimeError.\<close>

lemma FileSink_write_once_typed:
  assumes "FileSink_write_once view (sink, w) = (Inl e, s')" "sk_descriptor sink \<noteq> None"
  shows "is_db_error e"
proof -
  from assms obtain d w' e' where "sys_write d view w = (Inl e', w')"
    and e: "e = on_oserror (\<lambda>n. write_error n (lit ''write the staging file'')) e'"
    by (cases s') (auto simp: FileSink_write_once_def write_errors_def translate_eq_Inl bind_eq_Inl)
  from raisesD [OF raises_sys(4) this(1)] show ?thesis
    unfolding e by (rule on_oserror_typed) simp
qed

lemma FileSink_write_once_open:
  assumes "FileSink_write_once view (sink, w) = (Inr n, (sink', w'))"
  shows "sink' = sink"
  using assms
  by (auto simp: FileSink_write_once_def write_errors_def translate_eq_Inr bind_eq_Inr
      split: prod.splits option.splits)

lemma FileSink_write_typed:
  "FileSink_write view s = (Inl e, s') \<Longrightarrow> sk_descriptor (fst s) \<noteq> None \<Longrightarrow> is_db_error e"
proof (induction view s rule: FileSink_write.induct)
  case (1 view s)
  obtain sink w where s: "s = (sink, w)" by (rule prod.exhaust)
  obtain r s1 where once: "FileSink_write_once view s = (r, s1)" by (rule prod.exhaust)
  from "1.prems" have view: "view \<noteq> []" by (auto simp: FileSink_write.simps)
  show ?case
  proof (cases r)
    case (Inl e1)
    with 1 once s view show ?thesis
      by (auto simp: FileSink_write.simps [of view] dest: FileSink_write_once_typed)
  next
    case (Inr n)
    obtain sink1 w1 where s1: "s1 = (sink1, w1)" by (rule prod.exhaust)
    with once Inr s have "sink1 = sink" by (auto dest: FileSink_write_once_open)
    with 1 once s s1 Inr view show ?thesis
      by (auto simp: FileSink_write.simps [of view])
  qed
qed

lemma raises_local_root: "raises typed_or_is_dir (local_root c)"
  unfolding local_root_def
  by (intro raises_rules raises_path_typed raises_mono [OF raises_path_is_dir]) auto

lemma raises_local_resolve: "raises typed_or_is_dir (local_resolve c f)"
  unfolding local_resolve_def
  by (intro raises_rules raises_local_root raises_path_typed)
    (auto dest!: validate_filename_Inl intro: has_code_is_db_error)

text \<open>A scan and its iteration raise OSErrors only, so they end as the root unavailable.\<close>

lemma raises_local_list_files: "raises typed_or_is_dir (local_list_files c)"
proof -
  have "raises is_oserror (bind (sys_scandir p) (\<lambda>es. of_result (bounded_listing es)))"
    for p and w :: "'w os_world_scheme"
    using raisesD [OF raises_sys_scandir] sys_scandir_entries bounded_listing_Inl
    unfolding raises_def bind_eq_Inl of_result_apply prod.inject by blast
  then have "raises typed_or_is_dir
      (translate (on_oserror (\<lambda>_. local_root_unavailable))
        (bind (sys_scandir p) (\<lambda>es. of_result (bounded_listing es))))" for p
    by (intro raises_mono [OF raises_oserror_typed]) auto
  then show ?thesis
    unfolding local_list_files_def by (intro raises_bind raises_local_root)
qed

lemma raises_existing_file: "raises is_db_error (existing_file p f b)"
  unfolding existing_file_def
  by (intro raises_rules raises_try_except [where Q = is_oserror])
    (auto intro!: raises_rules split: exn.splits)

lemma raises_local_publish: "raises is_db_error (local_publish s d f b)"
  unfolding local_publish_def by (intro raises_oserror_typed raises_rules) simp

lemma raises_sync_directory: "raises P (sync_directory p)"
  unfolding sync_directory_def
  by (rule raises_try_except [where Q = is_oserror], intro raises_rules)
    (auto intro!: raises_rules split: exn.splits)

lemma raises_remove_stage: "raises P (remove_stage p)"
  unfolding remove_stage_def
  by (rule raises_try_except [where Q = is_oserror], intro raises_rules)
    (auto intro!: raises_rules split: exn.splits)

lemma raises_rethrow: "(\<And>e. failure = Some e \<Longrightarrow> P e) \<Longrightarrow> raises P (rethrow failure)"
  by (cases failure) (auto intro: raises_rules)

lemma raises_local_write_exit:
  "(\<And>e. failure = Some e \<Longrightarrow> is_db_error e) \<Longrightarrow> raises is_db_error (local_write_exit failure)"
  unfolding local_write_exit_def
  by (intro raises_rules raises_rethrow raises_FileSink_finish raises_local_publish
      raises_sync_directory raises_FileSink_release raises_remove_stage) blast

lemma raises_local_read_exit:
  "(\<And>e. failure = Some e \<Longrightarrow> is_db_error e) \<Longrightarrow> raises is_db_error (local_read_exit failure)"
  unfolding local_read_exit_def by (intro raises_rules raises_rethrow) blast

lemma raises_local_read_enter: "raises typed_or_is_dir (local_read_enter c f l)"
  unfolding local_read_enter_def
  by (intro raises_rules raises_local_resolve raises_mono [OF raises_oserror_typed]
      raises_try_except [where Q = is_db_error] raises_oserror_typed) auto

lemma raises_local_write_enter:
  assumes "stage_name i = Inr n"
  shows "raises typed_or_is_dir (local_write_enter c f i b)"
  unfolding local_write_enter_def
  by (intro raises_rules raises_local_resolve raises_mono [OF raises_existing_file]
      raises_mono [OF raises_oserror_typed]) (auto simp: assms)

end
