(* ===== verification/Registry.thy ===== *)
theory Registry
  imports Local
begin

text \<open>
  \<^verbatim>\<open>databridge/connectors/__init__.py\<close>: the registry of connector types. A value of Python's
  protocol type \<open>Connector\<close> may be of any registered class; here the streams of the classes are
  joined in a sum, and a connector of one class is embedded in the joint type.
\<close>

section \<open>One connector type out of two\<close>

definition on_left :: "('r \<times> 'w, 'a) io \<Rightarrow> (('r + 'q) \<times> 'w, 'a) io" where
  "on_left m =
     (\<lambda>(s, w). case s of
        Inl r \<Rightarrow> (case m (r, w) of (x, (r', w')) \<Rightarrow> (x, (Inl r', w')))
      | Inr _ \<Rightarrow> (Inl (PyError ''AttributeError''), (s, w)))"

definition on_right :: "('q \<times> 'w, 'a) io \<Rightarrow> (('r + 'q) \<times> 'w, 'a) io" where
  "on_right m =
     (\<lambda>(s, w). case s of
        Inr q \<Rightarrow> (case m (q, w) of (x, (q', w')) \<Rightarrow> (x, (Inr q', w')))
      | Inl _ \<Rightarrow> (Inl (PyError ''AttributeError''), (s, w)))"

definition left_connector :: "('w, 'r, 'k) connector \<Rightarrow> ('w, 'r + 'q, 'k + 'p) connector" where
  "left_connector cn =
     \<lparr>cn_list_files = cn_list_files cn,
      cn_check_access = cn_check_access cn,
      cn_read_enter = (\<lambda>f l. bind (cn_read_enter cn f l) (\<lambda>r. ret (Inl r))),
      cn_source_read = (\<lambda>n. on_left (cn_source_read cn n)),
      cn_read_exit = (\<lambda>e. on_left (cn_read_exit cn e)),
      cn_write_enter = (\<lambda>f i b. bind (cn_write_enter cn f i b) (\<lambda>k. ret (Inl k))),
      cn_sink_write = (\<lambda>c. on_left (cn_sink_write cn c)),
      cn_sink_finish = on_left (cn_sink_finish cn),
      cn_write_exit = (\<lambda>e. on_left (cn_write_exit cn e))\<rparr>"

definition right_connector :: "('w, 'q, 'p) connector \<Rightarrow> ('w, 'r + 'q, 'k + 'p) connector" where
  "right_connector cn =
     \<lparr>cn_list_files = cn_list_files cn,
      cn_check_access = cn_check_access cn,
      cn_read_enter = (\<lambda>f l. bind (cn_read_enter cn f l) (\<lambda>r. ret (Inr r))),
      cn_source_read = (\<lambda>n. on_right (cn_source_read cn n)),
      cn_read_exit = (\<lambda>e. on_right (cn_read_exit cn e)),
      cn_write_enter = (\<lambda>f i b. bind (cn_write_enter cn f i b) (\<lambda>k. ret (Inr k))),
      cn_sink_write = (\<lambda>c. on_right (cn_sink_write cn c)),
      cn_sink_finish = on_right (cn_sink_finish cn),
      cn_write_exit = (\<lambda>e. on_right (cn_write_exit cn e))\<rparr>"

section \<open>The registry\<close>

text \<open>\<open>CONNECTOR_TYPES\<close>, by name, and \<open>_connector_type\<close>.\<close>

datatype connector_type = Local_type | Sftp_type

definition CONNECTOR_TYPES :: "(pystr \<times> connector_type) list" where
  "CONNECTOR_TYPES = [(lit ''local'', Local_type), (lit ''sftp'', Sftp_type)]"

definition connector_type_of :: "pystr \<Rightarrow> connector_type result" where
  "connector_type_of ctype =
     (case map_of CONNECTOR_TYPES ctype of
        None \<Rightarrow> Inl (PyError ''RuntimeError'')
      | Some t \<Rightarrow> Inr t)"

text \<open>
  \<open>open\<close> and \<open>prepare\<close> of each entry. The SFTP class is a parameter here, so that the registry does
  not depend on its model.
\<close>

definition open_connector ::
  "(connection \<Rightarrow> ('w os_world_scheme, ('w os_world_scheme, 'q, 'p) connector) io) \<Rightarrow> connection \<Rightarrow>
   ('w os_world_scheme, ('w os_world_scheme, file_source + 'q, local_write + 'p) connector) io" where
  "open_connector sftp_open c =
     bind (of_result (connector_type_of (conn_type c))) (\<lambda>t. case t of
       Local_type \<Rightarrow>
         bind (of_result (LocalConnector_open c)) (\<lambda>lc. ret (left_connector (local_methods lc)))
     | Sftp_type \<Rightarrow> bind (sftp_open c) (\<lambda>cn. ret (right_connector cn)))"

definition prepare_connection ::
  "(connection \<Rightarrow> ('w os_world_scheme, connection) io) \<Rightarrow> connection \<Rightarrow>
   ('w os_world_scheme, connection) io" where
  "prepare_connection sftp_prepare c =
     bind (of_result (connector_type_of (conn_type c))) (\<lambda>t. case t of
       Local_type \<Rightarrow> LocalConnector_prepare c
     | Sftp_type \<Rightarrow> sftp_prepare c)"

text \<open>The check that the module makes when it is imported.\<close>

lemma every_model_has_a_connector: "set (map fst CONNECTOR_TYPES) = set CONNECTION_TYPE_NAMES"
  by (simp add: CONNECTOR_TYPES_def CONNECTION_TYPE_NAMES_def)

lemma connector_type_of_name [simp]:
  "connector_type_of (lit ''local'') = Inr Local_type"
  "connector_type_of (lit ''sftp'') = Inr Sftp_type"
  by (simp_all add: connector_type_of_def CONNECTOR_TYPES_def text_eval)

lemma open_connector_local [simp]:
  "open_connector sftp_open (LocalConnection n p) w =
     (Inr (left_connector (local_methods \<lparr>lc_root = p\<rparr>)), w)"
  by (simp add: open_connector_def bind_apply LocalConnector_open_def)

lemma open_connector_sftp [simp]:
  "open_connector sftp_open (SFTPConnection n h port u pw r) =
     bind (sftp_open (SFTPConnection n h port u pw r)) (\<lambda>cn. ret (right_connector cn))"
  by (simp add: open_connector_def bind_apply fun_eq_iff)

section \<open>Embedded methods\<close>

lemma on_left_eq:
  "on_left m (s, w) = (x, (s', w')) \<longleftrightarrow>
     (\<exists>r r'. s = Inl r \<and> s' = Inl r' \<and> m (r, w) = (x, (r', w'))) \<or>
     (\<exists>q. s = Inr q \<and> s' = s \<and> w' = w \<and> x = Inl (PyError ''AttributeError''))"
  by (auto simp: on_left_def split: sum.splits prod.splits)

lemma on_right_eq:
  "on_right m (s, w) = (x, (s', w')) \<longleftrightarrow>
     (\<exists>q q'. s = Inr q \<and> s' = Inr q' \<and> m (q, w) = (x, (q', w'))) \<or>
     (\<exists>r. s = Inl r \<and> s' = s \<and> w' = w \<and> x = Inl (PyError ''AttributeError''))"
  by (auto simp: on_right_def split: sum.splits prod.splits)

end
