(* ===== verification/Local_Frames.thy ===== *)
theory Local_Frames
  imports Local Frames
begin

text \<open>
  The system calls and the local connector leave alone whatever the world holds besides the
  operating system, under any faults and any interference, and its \<open>with\<close> blocks suppress no
  exception.
\<close>

section \<open>System calls\<close>

lemma keeps_syscall:
  "(\<And>r. keeps os_world.more (body r)) \<Longrightarrow> keeps os_world.more (syscall body)"
  by (simp add: keeps_def syscall_def Let_def split: list.splits outcome.splits)

lemma keeps_on_fd:
  "(\<And>r h. keeps os_world.more (body r h)) \<Longrightarrow> keeps os_world.more (on_fd d body)"
  unfolding on_fd_def
  by (rule keeps_syscall, rule keepsI) (auto split: option.splits dest: keepsD)

lemma keeps_sys [keeps_rules]:
  "keeps os_world.more (sys_open_read p)" "keeps os_world.more (sys_create p m)"
  "keeps os_world.more (sys_read d n)" "keeps os_world.more (sys_write d data)"
  "keeps os_world.more (sys_fsync d)" "keeps os_world.more (sys_fstat d)"
  "keeps os_world.more (sys_fchmod d m)" "keeps os_world.more (sys_set_blocking d)"
  "keeps os_world.more (sys_stat p)" "keeps os_world.more (sys_link p q)"
  "keeps os_world.more (sys_replace p q)" "keeps os_world.more (sys_unlink p)"
  "keeps os_world.more (sys_mkdir p m)" "keeps os_world.more (sys_open_create p m)"
  "keeps os_world.more (path_resolve_strict p)"
  unfolding sys_open_read_def sys_create_def sys_read_def sys_write_def sys_fsync_def sys_fstat_def
    sys_fchmod_def sys_set_blocking_def sys_stat_def sys_link_def sys_replace_def sys_unlink_def
    sys_mkdir_def sys_open_create_def path_resolve_strict_def
  by (rule keeps_syscall keeps_on_fd;
      auto simp: keeps_def new_fd_def Let_def split: option.splits if_splits)+

lemma keeps_sys_close [keeps_rules]: "keeps os_world.more (sys_close d)"
proof (rule keepsI)
  fix w :: "'w os_world_scheme" and r w' assume run: "sys_close d w = (r, w')"
  have "keeps os_world.more (syscall (\<lambda>_ w'. if fds w d = None then (Inl (OSError EBADF), w') else (Inr (), w')))"
    by (rule keeps_syscall) (simp add: keeps_def)
  from keepsD [OF this run [unfolded sys_close_def]] show "os_world.more w' = os_world.more w" by simp
qed

lemma keeps_exn [keeps_rules]:
  "(\<And>a b c. keeps v (f1 a b c)) \<Longrightarrow> (\<And>a. keeps v (f2 a)) \<Longrightarrow> (\<And>a. keeps v (f3 a)) \<Longrightarrow>
   (\<And>a b. keeps v (f4 a b)) \<Longrightarrow> (\<And>a. keeps v (f5 a)) \<Longrightarrow> (\<And>a. keeps v (f6 a)) \<Longrightarrow>
   keeps v (case e of DataBridgeError a b c \<Rightarrow> f1 a b c | StartupError a \<Rightarrow> f2 a | OSError a \<Rightarrow> f3 a
     | SqliteError a b \<Rightarrow> f4 a b | SftpStatus a \<Rightarrow> f5 a | PyError a \<Rightarrow> f6 a)"
  by (cases e) simp_all

lemma keeps_path_resolve [keeps_rules]: "keeps os_world.more (path_resolve p)"
  unfolding path_resolve_def
  by (intro keeps_rules keeps_syscall) (auto simp: keeps_def split: option.splits)

lemma keeps_path_is_dir [keeps_rules]: "keeps os_world.more (path_is_dir p)"
  unfolding path_is_dir_def by (intro keeps_rules)

lemma keeps_path_of_text [keeps_rules]: "keeps v (path_of_text t)"
  by (simp add: keeps_def path_of_text_def)

lemma keeps_scan_iterator [keeps_rules]: "keeps os_world.more (scan_iterator es)"
  unfolding scan_iterator_def by (intro keeps_rules keeps_syscall) (simp add: keeps_def)

lemma keeps_sys_scandir [keeps_rules]: "keeps os_world.more (sys_scandir p)"
  unfolding sys_scandir_def
  by (intro keeps_rules keeps_syscall) (auto simp: keeps_def split: option.splits)

lemma keeps_uuid4 [keeps_rules]: "keeps os_world.more uuid4"
  by (simp add: keeps_def uuid4_def split: list.splits)

lemma keeps_warning [keeps_rules]: "keeps os_world.more (warning e)"
  unfolding warning_def by (rule keeps_modify) simp

lemma keeps_suppress_oserror [keeps_rules]: "keeps v m \<Longrightarrow> keeps v (suppress_oserror m)"
  unfolding suppress_oserror_def by (intro keeps_rules)

section \<open>The connector\<close>

lemma keeps_local_root [keeps_rules]: "keeps os_world.more (local_root c)"
  unfolding local_root_def by (intro keeps_rules)

lemma keeps_local_resolve [keeps_rules]: "keeps os_world.more (local_resolve c f)"
  unfolding local_resolve_def by (intro keeps_rules)

lemma keeps_local_list_files: "keeps os_world.more (local_list_files c)"
  unfolding local_list_files_def by (intro keeps_rules)

lemma keeps_local_check_access: "keeps os_world.more (local_check_access c)"
  unfolding local_check_access_def by (intro keeps_rules keeps_local_list_files)

lemma keeps_local_read_enter: "keeps os_world.more (local_read_enter c f l)"
  unfolding local_read_enter_def by (intro keeps_rules)

lemma keeps_FileSource_read: "keeps (\<lambda>s. os_world.more (snd s)) (FileSource_read n)"
  unfolding FileSource_read_def by (intro keeps_rules)

lemma keeps_rethrow [keeps_rules]: "keeps v (rethrow e)"
  by (cases e) (simp_all add: keeps_ret keeps_raise)

lemma keeps_local_read_exit: "keeps (\<lambda>s. os_world.more (snd s)) (local_read_exit e)"
  unfolding local_read_exit_def by (intro keeps_rules)

lemma keeps_existing_file [keeps_rules]: "keeps os_world.more (existing_file p f b)"
  unfolding existing_file_def by (intro keeps_rules)

lemma keeps_local_write_enter: "keeps os_world.more (local_write_enter c f i b)"
  unfolding local_write_enter_def by (intro keeps_rules)

lemma keeps_FileSink_open [keeps_rules]: "keeps v FileSink_open"
  unfolding FileSink_open_def by (intro keeps_rules)

lemma keeps_FileSink_write: "keeps (\<lambda>s. os_world.more (snd s)) (FileSink_write view)"
proof (rule keepsI)
  fix s :: "'k file_sink_scheme \<times> 'w os_world_scheme" and r s'
  have once: "keeps (\<lambda>s :: 'k file_sink_scheme \<times> 'w os_world_scheme. os_world.more (snd s))
      (FileSink_write_once v)" for v
    unfolding FileSink_write_once_def write_errors_def by (intro keeps_rules)
  assume "FileSink_write view s = (r, s')"
  then show "os_world.more (snd s') = os_world.more (snd s)"
  proof (induction view s arbitrary: r s' rule: FileSink_write.induct)
    case (1 view s)
    obtain x sink w where o: "FileSink_write_once view s = (x, (sink, w))" by (metis prod.exhaust)
    from keepsD [OF once o] have w: "os_world.more w = os_world.more (snd s)" by simp
    show ?case
    proof (cases "view = []")
      case False
      with "1.prems" "1.IH" [OF False o [symmetric]] o w show ?thesis
        by (cases x) (auto simp: FileSink_write.simps [of view])
    qed (use "1.prems" in simp)
  qed
qed

lemma keeps_persist [keeps_rules]: "keeps os_world.more (persist d n ex)"
  unfolding persist_def write_errors_def by (intro keeps_rules)

lemma keeps_FileSink_finish [keeps_rules]: "keeps (\<lambda>s. os_world.more (snd s)) FileSink_finish"
  unfolding FileSink_finish_def write_errors_def by (intro keeps_rules)

lemma keeps_FileSink_release [keeps_rules]: "keeps (\<lambda>s. os_world.more (snd s)) FileSink_release"
  unfolding FileSink_release_def by (intro keeps_rules)

lemma keeps_local_write_exit: "keeps (\<lambda>s. os_world.more (snd s)) (local_write_exit e)"
  unfolding local_write_exit_def local_publish_def sync_directory_def remove_stage_def
  by (intro keeps_rules)

lemma local_read_exit_raises: "local_read_exit (Some e) s = (r, s') \<Longrightarrow> r \<noteq> Inr ()"
  by (auto simp: local_read_exit_def try_finally_apply split: prod.splits sum.splits)

lemma local_write_exit_raises: "local_write_exit (Some e) s = (r, s') \<Longrightarrow> r \<noteq> Inr ()"
  by (auto simp: local_write_exit_def try_finally_apply bind_apply split: prod.splits sum.splits)

lemma FileSource_read_progress:
  assumes "FileSource_read n (s, w) = (Inr data, (s', w'))" "data \<noteq> []"
  shows "src_remaining s' < src_remaining s"
  using assms
  by (auto simp: FileSource_read_def bind_apply translate_apply on_world_apply
      split: prod.splits sum.splits if_splits)

end
