(* ===== verification/Store_Props.thy ===== *)
theory Store_Props
  imports Store
begin

text \<open>
  What the operations of the store do to the database: a transaction that raises leaves it as it was,
  one that returns has applied its statements; the well-formedness of the tables, the life of a
  transfer record, and the round trip of a connection.
\<close>

section \<open>Transactions\<close>

text \<open>All or nothing, and nothing of the machine but the database, the fault list and the clock.\<close>

lemma connected_Inr:
  "connected body w = (Inr x, w') \<Longrightarrow>
   \<exists>d. body (db w) = (Inr x, d) \<and> w' = w\<lparr>db_faults := tl (db_faults w), db := d\<rparr>"
  by (auto simp: connected_def Let_def split: list.splits db_fault.splits prod.splits sum.splits)

lemma connected_Inl:
  "connected body w = (Inl e, w') \<Longrightarrow> w' = w\<lparr>db_faults := tl (db_faults w)\<rparr>"
  by (auto simp: connected_def Let_def split: list.splits db_fault.splits prod.splits sum.splits)

lemma connected_no_fault:
  "db_faults w = [] \<Longrightarrow> connected body w =
     (case body (db w) of (Inl e, _) \<Rightarrow> (Inl e, w) | (Inr x, d) \<Rightarrow> (Inr x, w\<lparr>db := d\<rparr>))"
proof -
  assume none: "db_faults w = []"
  then have "w\<lparr>db_faults := []\<rparr> = w" by (cases w) simp
  with none show ?thesis by (auto simp: connected_def Let_def split: sum.splits prod.splits)
qed

lemma connected_fault_or_body:
  assumes "connected body w = (Inl e, w')"
  shows "(\<exists>d. body (db w) = (Inl e, d)) \<or> At_start e \<in> set (db_faults w) \<or> At_commit e \<in> set (db_faults w)"
  using assms
  by (auto simp: connected_def Let_def split: list.splits db_fault.splits prod.splits sum.splits)

lemma now_apply: "\<exists>t w'. now w = (Inr t, w') \<and> db w' = db w \<and> db_faults w' = db_faults w"
  by (auto simp: now_def split: list.splits)

lemma encrypted_apply:
  "\<exists>n w'. encrypted st m w = (Inr (st_encrypt st n m), w') \<and> db w' = db w \<and> db_faults w' = db_faults w"
  by (auto simp: encrypted_def split: list.splits)

section \<open>The life of a transfer record\<close>

text \<open>
  The states of a record and the columns each state has. \<open>row_in\<close> is the row's state; a row of no
  state cannot be read.
\<close>

fun row_in :: "transfer_status \<Rightarrow> transfer_row \<Rightarrow> bool" where
  "row_in Running r \<longleftrightarrow> t_status r = status_text Running \<and> t_completed_at r = None \<and> t_failed_at r = None \<and>
     t_failure_phase r = None \<and> t_error_code r = None \<and> t_error r = None"
| "row_in Publishing r \<longleftrightarrow> t_status r = status_text Publishing \<and> t_completed_at r = None \<and>
     t_failed_at r = None \<and> t_failure_phase r = None \<and> t_error_code r = None \<and> t_error r = None"
| "row_in Completed r \<longleftrightarrow> t_status r = status_text Completed \<and> pred_option time_text (t_completed_at r) \<and>
     t_completed_at r \<noteq> None \<and> t_failed_at r = None \<and>
     t_failure_phase r = None \<and> t_error_code r = None \<and> t_error r = None"
| "row_in Failed r \<longleftrightarrow> t_status r = status_text Failed \<and> t_completed_at r = None \<and>
     pred_option time_text (t_failed_at r) \<and> t_failed_at r \<noteq> None \<and>
     (\<exists>p. t_failure_phase r = Some (phase_text p)) \<and>
     (\<exists>c. t_error_code r = Some (code_value c)) \<and> t_error r \<noteq> None"

definition row_ok :: "transfer_row \<Rightarrow> bool" where
  "row_ok r \<longleftrightarrow> time_text (t_started_at r) \<and> time_text (t_updated_at r) \<and> (\<exists>s. row_in s r)"

text \<open>The transitions: a completed or failed record never changes again.\<close>

fun may_follow :: "transfer_status \<Rightarrow> transfer_status \<Rightarrow> bool" where
  "may_follow Running s \<longleftrightarrow> s \<in> {Running, Publishing, Failed}"
| "may_follow Publishing s \<longleftrightarrow> s \<in> {Completed, Failed}"
| "may_follow _ _ \<longleftrightarrow> False"

definition same_request :: "transfer_row \<Rightarrow> transfer_row \<Rightarrow> bool" where
  "same_request r r' \<longleftrightarrow> t_id r' = t_id r \<and> t_source r' = t_source r \<and>
     t_source_file r' = t_source_file r \<and> t_destination r' = t_destination r \<and>
     t_destination_file r' = t_destination_file r \<and> t_overwrite r' = t_overwrite r \<and>
     t_started_at r' = t_started_at r"

definition row_evolves :: "transfer_row \<Rightarrow> transfer_row \<Rightarrow> bool" where
  "row_evolves r r' \<longleftrightarrow> r' = r \<or>
     same_request r r' \<and> (\<exists>s s'. row_in s r \<and> row_in s' r' \<and> may_follow s s')"

lemma status_text_inject [simp]: "status_text s = status_text s' \<longleftrightarrow> s = s'"
  by (cases s; cases s') simp_all

declare status_text.simps [simp del] phase_text.simps [simp del] code_value.simps [simp del]

lemma row_in_status: "row_in s r \<Longrightarrow> t_status r = status_text s"
  by (cases s) simp_all

lemma row_in_unique: "row_in s r \<Longrightarrow> row_in s' r \<Longrightarrow> s = s'"
  by (metis row_in_status status_text_inject)

lemma named_status [simp]: "named status_text all_statuses (status_text s) = Some s"
  by (cases s) (simp_all add: named_def all_statuses_def)

lemma named_phase [simp]: "named phase_text all_phases (phase_text p) = Some p"
  by (cases p) (simp_all add: named_def all_phases_def phase_text.simps)

lemma named_code [simp]: "named code_value all_error_codes (code_value c) = Some c"
proof -
  have "find (\<lambda>v. v = c) cs = Some c" if "c \<in> set cs" for cs
    using that by (induction cs) auto
  then show ?thesis by (simp add: named_def)
qed

text \<open>A well-formed row is read back, with its own state.\<close>

lemma record_of_row_ok:
  assumes "row_ok r"
  obtains rec where "record_of_row r = Inr rec" "row_in (tr_status rec) r" "tr_id rec = t_id r"
    "tr_bytes_copied rec = t_bytes_copied r" "tr_source_file rec = t_source_file r"
    "tr_destination_file rec = t_destination_file r" "tr_started_at rec = t_started_at r"
proof -
  from assms obtain s where r: "time_text (t_started_at r)" "time_text (t_updated_at r)" "row_in s r"
    by (auto simp: row_ok_def)
  show ?thesis
    by (cases s)
      (use r that in \<open>(auto simp: record_of_row_def named_option_def option.pred_set
          split: option.splits, blast)\<close>)
qed

text \<open>The text that \<open>isoformat\<close> writes is a time, whatever a clock shows.\<close>

lemma matches_append: "matches p s \<Longrightarrow> matches q t \<Longrightarrow> matches (p @ q) (s @ t)"
  by (simp add: matches_def list_all2_appendI)

lemma matches_digits: "matches (replicate k 100) (dec_fixed k n)"
proof (induction k arbitrary: n)
  case (Suc k)
  have "matches [100] [48 + n mod 10]" by (simp add: matches_def is_digit_def)
  from matches_append [OF Suc this] show ?case by (simp add: replicate_append_same)
qed (simp add: matches_def)

lemma matches_refl: "100 \<notin> set s \<Longrightarrow> matches s s"
  by (auto simp: matches_def list_all2_same)

lemma time_text_isoformat: assumes "datetime_ok d" shows "time_text (isoformat d)"
proof -
  have day: "matches (lit ''dddd-dd-ddTdd:dd:dd'')
      (dec_fixed 4 (d_year d) @ [45] @ dec_fixed 2 (d_month d) @ [45] @ dec_fixed 2 (d_day d) @ [84] @
       dec_fixed 2 (d_hour d) @ [58] @ dec_fixed 2 (d_minute d) @ [58] @ dec_fixed 2 (d_second d))"
  proof -
    have "lit ''dddd-dd-ddTdd:dd:dd'' = replicate 4 100 @ [45] @ replicate 2 100 @ [45] @
        replicate 2 100 @ [84] @ replicate 2 100 @ [58] @ replicate 2 100 @ [58] @ replicate 2 100"
      by (simp add: lit_Cons cp_def eval_nat_numeral)
    then show ?thesis
      by (auto intro!: matches_append matches_digits matches_refl simp del: append_Cons append_Nil)
  qed
  have zone: "matches (lit ''+00:00'') (lit ''+00:00'')"
    by (rule matches_refl) (simp add: lit_Cons cp_def)
  have "lit ''dddd-dd-ddTdd:dd:dd+00:00'' = lit ''dddd-dd-ddTdd:dd:dd'' @ lit ''+00:00''"
    "lit ''dddd-dd-ddTdd:dd:dd.dddddd+00:00'' =
       lit ''dddd-dd-ddTdd:dd:dd'' @ [46] @ replicate 6 100 @ lit ''+00:00''"
    by (simp_all add: lit_Cons cp_def eval_nat_numeral)
  moreover have "matches ([46] @ replicate 6 100 @ lit ''+00:00'')
      ([46] @ dec_fixed 6 (d_micro d) @ lit ''+00:00'')"
    by (intro matches_append matches_digits zone matches_refl) simp
  moreover have fields: "datetime_ok
       \<lparr>d_year = nat_of_digits (take 4 (isoformat d)), d_month = nat_of_digits (take 2 (drop 5 (isoformat d))),
        d_day = nat_of_digits (take 2 (drop 8 (isoformat d))), d_hour = nat_of_digits (take 2 (drop 11 (isoformat d))),
        d_minute = nat_of_digits (take 2 (drop 14 (isoformat d))), d_second = nat_of_digits (take 2 (drop 17 (isoformat d))),
        d_micro = 0\<rparr>"
    using assms days_in_month_le [of "d_year d" "d_month d"] by (simp add: isoformat_def datetime_ok_def)
  ultimately show ?thesis
    using matches_append [OF day zone] matches_append [OF day, of _ "[46] @ dec_fixed 6 (d_micro d) @ lit ''+00:00''"]
    using fields by (cases "d_micro d = 0") (simp_all add: time_text_def isoformat_def)
qed

lemma epoch_ok: "datetime_ok epoch"
  by (simp add: epoch_def datetime_ok_def days_in_month_def)

lemma now_cases:
  assumes "now w = (r, w')"
  obtains t where "r = Inr t" "time_text t" "db w' = db w" "db_faults w' = db_faults w"
  using assms time_text_isoformat epoch_ok by (auto simp: now_def split: list.splits)

section \<open>Changing one record\<close>

lemma filter_one:
  assumes "length (filter P xs) = 1"
  obtains pre x post where "xs = pre @ x # post" "P x" "\<forall>y\<in>set pre \<union> set post. \<not> P y"
proof -
  from assms have "filter P xs \<noteq> []" by auto
  then obtain pre x post where split: "xs = pre @ x # post" "P x" "\<forall>y\<in>set pre. \<not> P y"
    by (metis filter_empty_conv split_list_first_prop)
  with assms have "filter P post = []" by (simp add: filter_empty_conv)
  then have "\<forall>y\<in>set post. \<not> P y" by (simp add: filter_empty_conv)
  with split show thesis by (intro that [of pre x post]) auto
qed

lemma map_unaffected: "\<forall>y\<in>set ys. \<not> P y \<Longrightarrow> map (\<lambda>r. if P r then f r else r) ys = ys"
  by (induction ys) auto

lemma change_Inr:
  assumes "change tid P f d = (Inr (), d')"
  obtains pre r post where "db_transfers d = pre @ r # post" "P r" "\<forall>x\<in>set pre \<union> set post. \<not> P x"
    "d' = d\<lparr>db_transfers := pre @ f r # post\<rparr>"
proof -
  from assms have one: "length (filter P (db_transfers d)) = 1"
    and d': "d' = d\<lparr>db_transfers := map (\<lambda>r. if P r then f r else r) (db_transfers d)\<rparr>"
    by (auto simp: change_def on_table_def bind_apply split: if_splits)
  from filter_one [OF one] obtain pre r post where split: "db_transfers d = pre @ r # post" "P r"
    "\<forall>x\<in>set pre \<union> set post. \<not> P x" .
  then have "map (\<lambda>r. if P r then f r else r) (db_transfers d) = pre @ f r # post"
    using map_unaffected [of pre P f] map_unaffected [of post P f] by simp
  with that [OF split] d' show thesis by simp
qed

lemma transition_Inr:
  assumes "transition tid P f w = (Inr (), w')"
  obtains pre r post where "db_transfers (db w) = pre @ r # post" "P r"
    "\<forall>x\<in>set pre \<union> set post. \<not> P x" "db w' = (db w)\<lparr>db_transfers := pre @ f r # post\<rparr>"
proof -
  from assms obtain d where c: "change tid P f (db w) = (Inr (), d)" "db w' = d"
    by (auto simp: transition_def recording_def translate_eq_Inr dest!: connected_Inr)
  from change_Inr [OF c(1)] show thesis using that c(2) by metis
qed

lemma transition_Inl: "transition tid P f w = (Inl e, w') \<Longrightarrow> db w' = db w"
  by (auto simp: transition_def recording_def translate_eq_Inl dest!: connected_Inl)

text \<open>A record in another state is a conflict, and the database is unchanged.\<close>

lemma transition_conflict:
  assumes "db_faults w = []" "lit ''transfers'' \<in> set (db_tables (db w))"
    "length (filter P (db_transfers (db w))) \<noteq> 1"
  shows "\<exists>w'. transition tid P f w = (Inl (state_conflict tid), w') \<and> db w' = db w"
  using assms
  by (auto simp: transition_def recording_def translate_apply connected_no_fault change_def
      on_table_def bind_apply record_error_def state_conflict_def)

section \<open>The tables evolve\<close>

definition table_evolves :: "transfer_row list \<Rightarrow> transfer_row list \<Rightarrow> bool" where
  "table_evolves rows rows' \<longleftrightarrow>
     (\<exists>kept new. rows' = kept @ new \<and> list_all2 row_evolves rows kept \<and>
        (\<forall>r\<in>set new. row_in Running r))"

lemma row_evolves_refl [simp]: "row_evolves r r"
  by (simp add: row_evolves_def)

lemma list_evolves_refl [simp]: "list_all2 row_evolves rows rows"
  by (simp add: list_all2_refl)

lemma table_evolves_refl [simp]: "table_evolves rows rows"
  unfolding table_evolves_def by (rule exI [of _ rows]) simp

lemma table_evolves_one:
  "row_evolves r r' \<Longrightarrow> table_evolves (pre @ r # post) (pre @ r' # post)"
  unfolding table_evolves_def
  by (intro exI [of _ "pre @ r' # post"] exI [of _ "[]"]) (simp add: list_all2_appendI)

lemma table_evolves_new: "row_in Running r \<Longrightarrow> table_evolves rows (rows @ [r])"
  unfolding table_evolves_def by (intro exI [of _ rows] exI [of _ "[r]"]) simp

text \<open>The well-formedness of the transfer table, and what one change keeps of it.\<close>

definition transfers_ok :: "transfer_row list \<Rightarrow> bool" where
  "transfers_ok rows \<longleftrightarrow> distinct (map t_id rows) \<and> (\<forall>r\<in>set rows. row_ok r)"

lemma row_evolves_id: "row_evolves r r' \<Longrightarrow> t_id r' = t_id r"
  by (auto simp: row_evolves_def same_request_def)

lemma transfers_ok_one:
  "transfers_ok (pre @ r # post) \<Longrightarrow> row_evolves r r' \<Longrightarrow> row_ok r' \<Longrightarrow> transfers_ok (pre @ r' # post)"
  by (auto simp: transfers_ok_def dest: row_evolves_id)

section \<open>The operations on transfers\<close>

lemma in_status_row:
  assumes "in_status tid ss r" "row_ok r"
  obtains s where "s \<in> set ss" "row_in s r" "t_id r = tid"
proof -
  from assms obtain s where s: "row_in s r" by (auto simp: row_ok_def)
  with assms(1) row_in_status [OF s] have "s \<in> set ss" "t_id r = tid" by (auto simp: in_status_def)
  with s show thesis by (intro that)
qed

text \<open>An update of one row that is a legal step keeps the table well-formed.\<close>

lemma transition_evolves:
  assumes "transition tid (in_status tid ss) f w = (r, w')" "transfers_ok (db_transfers (db w))"
    and "\<And>row s. row_ok row \<Longrightarrow> row_in s row \<Longrightarrow> s \<in> set ss \<Longrightarrow> row_evolves row (f row) \<and> row_ok (f row)"
  shows "table_evolves (db_transfers (db w)) (db_transfers (db w')) \<and>
    transfers_ok (db_transfers (db w')) \<and> db_connections (db w') = db_connections (db w)"
proof (cases r)
  case (Inl e)
  with assms show ?thesis by (auto dest: transition_Inl)
next
  case (Inr u)
  with assms(1) obtain pre row post where split: "db_transfers (db w) = pre @ row # post"
    "in_status tid ss row" "db w' = (db w)\<lparr>db_transfers := pre @ f row # post\<rparr>"
    by (auto elim!: transition_Inr)
  then have row: "row_ok row" using assms(2) by (simp add: transfers_ok_def)
  from in_status_row [OF split(2) row] obtain s where s: "s \<in> set ss" "row_in s row" by blast
  note step = assms(3) [OF row s(2,1)]
  then show ?thesis
    using split assms(2) table_evolves_one [of row "f row" pre post] transfers_ok_one [of pre row post "f row"]
    by simp
qed

lemma evolvesI:
  "row_in s r \<Longrightarrow> row_in s' r' \<Longrightarrow> may_follow s s' \<Longrightarrow> same_request r r' \<Longrightarrow> row_evolves r r'"
  by (auto simp: row_evolves_def)

lemma record_progress_evolves:
  assumes "record_progress tid n w = (r, w')" "transfers_ok (db_transfers (db w))"
  shows "table_evolves (db_transfers (db w)) (db_transfers (db w')) \<and>
    transfers_ok (db_transfers (db w')) \<and> db_connections (db w') = db_connections (db w)"
proof -
  obtain x w1 where "now w = (x, w1)" by (rule prod.exhaust)
  from now_cases [OF this] obtain t where t: "now w = (Inr t, w1)" "time_text t" "db w1 = db w"
    using \<open>now w = (x, w1)\<close> by auto
  with assms(1) have tr: "transition tid (in_status tid [Running])
      (\<lambda>r. r\<lparr>t_bytes_copied := n, t_updated_at := t\<rparr>) w1 = (r, w')"
    by (simp add: record_progress_def bind_apply)
  show ?thesis
    unfolding t(3) [symmetric]
    by (rule transition_evolves [OF tr])
      (use t assms(2) in \<open>auto simp: row_ok_def same_request_def intro!: evolvesI [of Running _ Running]
         exI [of _ Running]\<close>)
qed

lemma mark_publishing_evolves:
  assumes "mark_publishing tid n w = (r, w')" "transfers_ok (db_transfers (db w))"
  shows "table_evolves (db_transfers (db w)) (db_transfers (db w')) \<and>
    transfers_ok (db_transfers (db w')) \<and> db_connections (db w') = db_connections (db w)"
proof -
  obtain x w1 where "now w = (x, w1)" by (rule prod.exhaust)
  from now_cases [OF this] obtain t where t: "now w = (Inr t, w1)" "time_text t" "db w1 = db w"
    using \<open>now w = (x, w1)\<close> by auto
  with assms(1) have tr: "transition tid (in_status tid [Running])
      (\<lambda>r. r\<lparr>t_status := status_text Publishing, t_bytes_copied := n, t_updated_at := t\<rparr>) w1 = (r, w')"
    by (simp add: mark_publishing_def bind_apply)
  show ?thesis
    unfolding t(3) [symmetric]
    by (rule transition_evolves [OF tr])
      (use t assms(2) in \<open>auto simp: row_ok_def same_request_def intro!: evolvesI [of Running _ Publishing]
         exI [of _ Publishing]\<close>)
qed

lemma fail_transfer_evolves:
  assumes "fail_transfer tid n phase code msg w = (r, w')" "transfers_ok (db_transfers (db w))"
  shows "table_evolves (db_transfers (db w)) (db_transfers (db w')) \<and>
    transfers_ok (db_transfers (db w')) \<and> db_connections (db w') = db_connections (db w)"
proof -
  obtain x w1 where "now w = (x, w1)" by (rule prod.exhaust)
  from now_cases [OF this] obtain t where t: "now w = (Inr t, w1)" "time_text t" "db w1 = db w"
    using \<open>now w = (x, w1)\<close> by auto
  let ?f = "\<lambda>r. r\<lparr>t_status := status_text Failed, t_failed_at := Some t, t_updated_at := t,
                t_bytes_copied := n, t_failure_phase := Some (phase_text phase),
                t_error_code := Some (code_value code), t_error := Some msg\<rparr>"
  from t assms(1) have tr: "transition tid (in_status tid [Running, Publishing]) ?f w1 = (r, w')"
    by (simp add: fail_transfer_def bind_apply)
  have "row_in Failed (?f row)" if "row_in s row" "s \<in> set [Running, Publishing]" for row s
    using that t by auto
  then have "row_evolves row (?f row) \<and> row_ok (?f row)"
    if "row_ok row" "row_in s row" "s \<in> set [Running, Publishing]" for row s
    using that t
    by (intro conjI evolvesI [of s _ Failed]) (auto simp: row_ok_def same_request_def intro!: exI [of _ Failed])
  from transition_evolves [OF tr _ this] t(3) assms(2) show ?thesis by simp
qed

definition fresh_row :: "pystr \<Rightarrow> transfer_request \<Rightarrow> pystr \<Rightarrow> transfer_row" where
  "fresh_row tid request t =
     \<lparr>t_id = tid, t_source = rq_source request, t_source_file = rq_source_file request,
      t_destination = rq_destination request, t_destination_file = rq_destination_file request,
      t_overwrite = (if rq_overwrite request then 1 else 0), t_status = status_text Running,
      t_started_at = t, t_updated_at = t, t_completed_at = None, t_failed_at = None,
      t_bytes_copied = 0, t_failure_phase = None, t_error_code = None, t_error = None\<rparr>"

lemma start_transfer_cases:
  assumes "start_transfer tid request w = (r, w')"
  obtains (fail) e where "r = Inl e" "db w' = db w"
  | (ok) t where "r = Inr ()" "time_text t" "tid \<notin> set (map t_id (db_transfers (db w)))"
      "db w' = (db w)\<lparr>db_transfers := db_transfers (db w) @ [fresh_row tid request t]\<rparr>"
proof -
  obtain x w1 where x: "now w = (x, w1)" by (rule prod.exhaust)
  from now_cases [OF x] x obtain t where t: "now w = (Inr t, w1)" "time_text t" "db w1 = db w"
    by auto
  show thesis
  proof (cases r)
    case (Inl e)
    with assms t have "db w' = db w1"
      by (auto simp: start_transfer_def bind_apply recording_def translate_eq_Inl dest!: connected_Inl)
    with Inl t fail show thesis by simp
  next
    case (Inr u)
    with assms t have "tid \<notin> set (map t_id (db_transfers (db w1))) \<and>
        db w' = (db w1)\<lparr>db_transfers := db_transfers (db w1) @ [fresh_row tid request t]\<rparr>"
      by (auto simp: start_transfer_def bind_apply recording_def translate_eq_Inr on_table_def
          fresh_row_def dest!: connected_Inr split: if_splits)
    with Inr t ok show thesis by simp
  qed
qed

lemma start_transfer_evolves:
  assumes "start_transfer tid request w = (r, w')" "transfers_ok (db_transfers (db w))"
  shows "table_evolves (db_transfers (db w)) (db_transfers (db w')) \<and>
    transfers_ok (db_transfers (db w')) \<and> db_connections (db w') = db_connections (db w)"
  using assms(1)
proof (cases rule: start_transfer_cases)
  case (ok t)
  then have "row_in Running (fresh_row tid request t)" "row_ok (fresh_row tid request t)"
    by (auto simp: fresh_row_def row_ok_def intro!: exI [of _ Running])
  then show ?thesis
    using ok assms(2) by (auto simp: table_evolves_new transfers_ok_def fresh_row_def)
qed (use assms(2) in simp)

lemma finish_transfer_cases:
  assumes "finish_transfer tid w = (r, w')"
  obtains (fail) e where "r = Inl e" "db w' = db w"
  | (ok) pre row post t rec where "r = Inr rec" "time_text t" "in_status tid [Publishing] row"
      "db_transfers (db w) = pre @ row # post"
      "db w' = (db w)\<lparr>db_transfers := pre @
         row\<lparr>t_status := status_text Completed, t_completed_at := Some t, t_updated_at := t\<rparr> # post\<rparr>"
      "\<exists>stored. find (\<lambda>r. t_id r = tid) (db_transfers (db w')) = Some stored \<and>
         record_of_row stored = Inr rec"
proof -
  obtain x w1 where x: "now w = (x, w1)" by (rule prod.exhaust)
  from now_cases [OF x] x obtain t where t: "now w = (Inr t, w1)" "time_text t" "db w1 = db w"
    by auto
  let ?f = "\<lambda>r. r\<lparr>t_status := status_text Completed, t_completed_at := Some t, t_updated_at := t\<rparr>"
  show thesis
  proof (cases r)
    case (Inl e)
    with assms t have "db w' = db w1"
      by (auto simp: finish_transfer_def bind_apply recording_def translate_eq_Inl dest!: connected_Inl)
    with Inl t fail show thesis by simp
  next
    case (Inr rec)
    let ?body = "bind (change tid (in_status tid [Publishing]) ?f) (\<lambda>_.
        bind (find_transfer tid) (\<lambda>row. case row of
            None \<Rightarrow> raise (PyError ''TypeError'') | Some r \<Rightarrow> of_result (record_of_row r)))"
    from Inr assms t have "recording tid ?body w1 = (Inr rec, w')"
      by (simp add: finish_transfer_def bind_apply)
    then obtain d where "?body (db w1) = (Inr rec, d)" "db w' = d"
      by (auto simp: recording_def translate_eq_Inr dest!: connected_Inr)
    then obtain row' where c: "change tid (in_status tid [Publishing]) ?f (db w1) = (Inr (), d)"
      "find (\<lambda>r. t_id r = tid) (db_transfers d) = Some row'" "record_of_row row' = Inr rec" "db w' = d"
      by (auto simp: bind_eq_Inr find_transfer_def on_table_def split: if_splits option.splits)
    from change_Inr [OF c(1)] obtain pre row post where
      "db_transfers (db w1) = pre @ row # post" "in_status tid [Publishing] row"
      "d = (db w1)\<lparr>db_transfers := pre @ ?f row # post\<rparr>" by metis
    with Inr c t show thesis by (intro ok [of rec t row pre post]) auto
  qed
qed

lemma finish_transfer_evolves:
  assumes "finish_transfer tid w = (r, w')" "transfers_ok (db_transfers (db w))"
  shows "table_evolves (db_transfers (db w)) (db_transfers (db w')) \<and>
    transfers_ok (db_transfers (db w')) \<and> db_connections (db w') = db_connections (db w)"
  using assms(1)
proof (cases rule: finish_transfer_cases)
  case (ok pre row post t rec)
  let ?r = "row\<lparr>t_status := status_text Completed, t_completed_at := Some t, t_updated_at := t\<rparr>"
  have "row_ok row" using ok assms(2) by (simp add: transfers_ok_def)
  from in_status_row [OF ok(3) this] have "row_in Publishing row" by auto
  then have "row_in Completed ?r" "row_evolves row ?r" "row_ok ?r"
    using ok(2) \<open>row_ok row\<close>
    by (auto simp: row_ok_def same_request_def intro!: evolvesI [of Publishing _ Completed]
        exI [of _ Completed])
  then show ?thesis
    using ok assms(2) table_evolves_one [of row ?r pre post] transfers_ok_one [of pre row post ?r]
    by simp
qed (use assms(2) in simp)

end
