(* ===== verification/Store_Connections.thy ===== *)
theory Store_Connections
  imports Store_Props
begin

text \<open>
  The connection table: its well-formedness, what creating, replacing and deleting do to it, the
  round trip of a connection through its row, and the recovery at startup.
\<close>

section \<open>Rows of connections\<close>

definition token_of :: "connection_store \<Rightarrow> nat \<Rightarrow> connection \<Rightarrow> pystr option" where
  "token_of st n item =
     (if secret_settings item = [] then None else Some (st_encrypt st n (dumps (secret_settings item))))"

definition stored_row :: "connection_store \<Rightarrow> nat \<Rightarrow> connection \<Rightarrow> connection_row" where
  "stored_row st n item = row_of item (public_settings item) (token_of st n item)"

definition connections_ok :: "connection_store \<Rightarrow> connection_row list \<Rightarrow> bool" where
  "connections_ok st rows \<longleftrightarrow> distinct (map cr_name rows) \<and>
     (\<forall>row\<in>set rows. \<exists>n item. connection_ok (st_ip st) item \<and> row = stored_row st n item)"

lemma stored_row_name [simp]: "cr_name (stored_row st n item) = conn_name item"
  by (simp add: stored_row_def row_of_def)

lemma columns_apply:
  obtains n w' where "columns st item w = (Inr (public_settings item, token_of st n item), w')"
    "db w' = db w" "db_faults w' = db_faults w"
proof -
  have "connection_models (conn_type item) = Inr ()"
    using conn_type_known by (simp add: connection_models_def)
  moreover obtain n w' where "encrypted st (dumps (secret_settings item)) w =
      (Inr (st_encrypt st n (dumps (secret_settings item))), w')" "db w' = db w" "db_faults w' = db_faults w"
    using encrypted_apply [of st "dumps (secret_settings item)" w] by blast
  ultimately show thesis
    by (cases "secret_settings item = []")
      (auto simp: columns_def bind_apply token_of_def intro: that)
qed

lemma view_of_public [simp]:
  "view_of (conn_name item) (conn_type item) (public_settings item) = Inr (public_view item)"
proof -
  have "connection_models (conn_type item) = Inr ()"
    using conn_type_known by (simp add: connection_models_def)
  then show ?thesis
    by (cases item)
      (simp_all add: view_of_def merge_dict_def name_and_type_def text_field_def Let_def)
qed

lemma store_create_cases:
  assumes "store_create st item w = (r, w')"
  obtains (fail) e where "r = Inl e" "db w' = db w"
      "has_code CONNECTION_EXISTS e \<longrightarrow> conn_name item \<in> set (map cr_name (db_connections (db w))) \<or>
         db_faults w \<noteq> []"
  | (ok) n where "r = Inr (public_view item)" "lit ''connections'' \<in> set (db_tables (db w))"
      "conn_name item \<notin> set (map cr_name (db_connections (db w)))"
      "db w' = (db w)\<lparr>db_connections := db_connections (db w) @ [stored_row st n item]\<rparr>"
proof -
  obtain n w1 where c: "columns st item w = (Inr (public_settings item, token_of st n item), w1)"
    "db w1 = db w" "db_faults w1 = db_faults w" by (rule columns_apply)
  let ?row = "stored_row st n item"
  obtain x w2 where i: "connected (insert_connection ?row) w1 = (x, w2)" by (rule prod.exhaust)
  show thesis
  proof (cases x)
    case (Inl e)
    from connected_Inl [OF i [unfolded Inl]] have "db w2 = db w" using c by simp
    moreover have "conn_name item \<in> set (map cr_name (db_connections (db w))) \<or> db_faults w \<noteq> []"
      if "e = unique_violation \<or> has_code CONNECTION_EXISTS e"
      using connected_fault_or_body [OF i [unfolded Inl]] that c
      by (auto simp: insert_connection_def on_table_def bind_apply unique_violation_def split: if_splits)
    ultimately show thesis
      using assms c i Inl fail
      by (auto simp: store_create_def bind_apply translate_apply stored_row_def split: if_splits)
  next
    case (Inr u)
    from connected_Inr [OF i [unfolded Inr]] have
      "lit ''connections'' \<in> set (db_tables (db w))" "conn_name item \<notin> set (map cr_name (db_connections (db w)))"
      "db w2 = (db w)\<lparr>db_connections := db_connections (db w) @ [?row]\<rparr>"
      using c by (auto simp: insert_connection_def on_table_def bind_apply split: if_splits)
    with assms c i Inr ok show thesis
      by (auto simp: store_create_def bind_apply translate_apply stored_row_def)
  qed
qed

lemma row_of_name: "cr_name row = conn_name item \<Longrightarrow>
    (if cr_name row = conn_name item then stored_row st n item else row) = stored_row st n item"
  by simp

lemma count_names:
  "distinct (map cr_name rows) \<Longrightarrow>
   length (filter (\<lambda>r. cr_name r = name) rows) = (if name \<in> cr_name ` set rows then 1 else 0)"
  by (induction rows) (auto simp: filter_empty_conv)

lemma store_replace_cases:
  assumes "store_replace st item w = (r, w')" "connections_ok st (db_connections (db w))"
  obtains (fail) e where "r = Inl e" "db w' = db w"
      "e = connection_not_found (conn_name item) \<longrightarrow>
         conn_name item \<notin> set (map cr_name (db_connections (db w))) \<or> db_faults w \<noteq> []"
  | (ok) n where "r = Inr (public_view item)"
      "conn_name item \<in> set (map cr_name (db_connections (db w)))"
      "db w' = (db w)\<lparr>db_connections := map (\<lambda>row. if cr_name row = conn_name item
         then stored_row st n item else row) (db_connections (db w))\<rparr>"
proof -
  obtain n w1 where c: "columns st item w = (Inr (public_settings item, token_of st n item), w1)"
    "db w1 = db w" "db_faults w1 = db_faults w" by (rule columns_apply)
  let ?row = "stored_row st n item"
  have count: "length (filter (\<lambda>r. cr_name r = conn_name item) (db_connections (db w))) =
      (if conn_name item \<in> cr_name ` set (db_connections (db w)) then 1 else 0)"
    using assms(2) by (simp add: connections_ok_def count_names)
  obtain x w2 where i: "connected (update_connection ?row) w1 = (x, w2)" by (rule prod.exhaust)
  show thesis
  proof (cases x)
    case (Inl e)
    from connected_Inl [OF i [unfolded Inl]] have "db w2 = db w" using c by simp
    moreover have "db_faults w \<noteq> []" if "e = connection_not_found (conn_name item)"
      using connected_fault_or_body [OF i [unfolded Inl]] that c
      by (auto simp: update_connection_def on_table_def bind_apply connection_not_found_def
          db_error_def split: if_splits)
    ultimately show thesis
      using assms(1) c i Inl fail by (auto simp: store_replace_def bind_apply stored_row_def)
  next
    case (Inr k)
    from connected_Inr [OF i [unfolded Inr]] have k:
      "k = length (filter (\<lambda>r. cr_name r = conn_name item) (db_connections (db w)))"
      "db w2 = (db w)\<lparr>db_connections := map (\<lambda>row. if cr_name row = conn_name item then ?row else row)
         (db_connections (db w))\<rparr>"
      using c by (auto simp: update_connection_def on_table_def bind_apply split: if_splits)
    show thesis
    proof (cases "conn_name item \<in> cr_name ` set (db_connections (db w))")
      case True
      with assms c i Inr k count ok show thesis
        by (auto simp: store_replace_def bind_apply stored_row_def)
    next
      case False
      then have "map (\<lambda>row. if cr_name row = conn_name item then ?row else row)
         (db_connections (db w)) = db_connections (db w)" by (intro map_idI) (auto simp: image_iff)
      with False assms c i Inr k count fail show thesis
        by (auto simp: store_replace_def bind_apply stored_row_def)
    qed
  qed
qed

lemma store_delete_cases:
  assumes "store_delete name w = (r, w')" "connections_ok st (db_connections (db w))"
  obtains (fail) e where "r = Inl e" "db w' = db w"
      "e = connection_not_found name \<longrightarrow>
         name \<notin> set (map cr_name (db_connections (db w))) \<or> db_faults w \<noteq> []"
  | (ok) "r = Inr ()" "name \<in> set (map cr_name (db_connections (db w)))"
      "db w' = (db w)\<lparr>db_connections := filter (\<lambda>row. cr_name row \<noteq> name) (db_connections (db w))\<rparr>"
proof -
  have count: "length (filter (\<lambda>r. cr_name r = name) (db_connections (db w))) =
      (if name \<in> cr_name ` set (db_connections (db w)) then 1 else 0)"
    using assms(2) by (simp add: connections_ok_def count_names)
  obtain x w2 where i: "connected (delete_connection name) w = (x, w2)" by (rule prod.exhaust)
  show thesis
  proof (cases x)
    case (Inl e)
    from connected_Inl [OF i [unfolded Inl]] have "db w2 = db w" by simp
    moreover have "db_faults w \<noteq> []" if "e = connection_not_found name"
      using connected_fault_or_body [OF i [unfolded Inl]] that
      by (auto simp: delete_connection_def on_table_def bind_apply connection_not_found_def
          db_error_def split: if_splits)
    ultimately show thesis
      using assms(1) i Inl fail by (auto simp: store_delete_def bind_apply)
  next
    case (Inr k)
    from connected_Inr [OF i [unfolded Inr]] have k:
      "k = length (filter (\<lambda>r. cr_name r = name) (db_connections (db w)))"
      "db w2 = (db w)\<lparr>db_connections := filter (\<lambda>row. cr_name row \<noteq> name) (db_connections (db w))\<rparr>"
      by (auto simp: delete_connection_def on_table_def bind_apply split: if_splits)
    show thesis
    proof (cases "name \<in> cr_name ` set (db_connections (db w))")
      case True
      with assms i Inr k count ok show thesis by (auto simp: store_delete_def bind_apply)
    next
      case False
      then have "filter (\<lambda>row. cr_name row \<noteq> name) (db_connections (db w)) = db_connections (db w)"
        by (auto simp: filter_id_conv)
      with False assms i Inr k count fail show thesis by (auto simp: store_delete_def bind_apply)
    qed
  qed
qed

section \<open>The round trip of a connection\<close>

lemma map_of_merge: "map_of (merge_dict d e) = map_of d ++ map_of (rev e)"
proof (induction e arbitrary: d)
  case (Cons p e)
  then show ?case by (cases p) (auto simp: merge_dict_def map_add_def fun_eq_iff split: option.splits)
qed (simp add: merge_dict_def)

lemma SettingText_scalar: "SettingText s \<Longrightarrow> \<forall>c\<in>set s. c < 1114112 \<Longrightarrow> scalar_text s"
  by (auto simp: SettingText_def plain_text_def scalar_text_def utf8_None_iff list_ex_iff)

lemma ascii_scalar: "list_all (\<lambda>c. c < 128) s \<Longrightarrow> scalar_text s"
  by (auto simp: scalar_text_def list_all_iff is_surrogate_def)

lemma short_port: "p \<le> 65535 \<Longrightarrow> length (show_nat p) \<le> MAX_INT_DIGITS"
proof -
  assume "p \<le> 65535"
  have "length (show_nat n) \<le> k" if "n < 10 ^ k" "0 < k" for n k
    using that
  proof (induction k arbitrary: n)
    case (Suc k)
    show ?case
    proof (cases "n < 10")
      case False
      then have "0 < k" using Suc.prems by (cases k) auto
      moreover have "n div 10 < 10 ^ k" using Suc.prems by (simp add: less_mult_imp_div_less mult.commute)
      ultimately show ?thesis using Suc.IH [of "n div 10"] False by (simp add: show_nat.simps [of n])
    qed (simp add: show_nat.simps)
  qed simp
  from this [of p 5] \<open>p \<le> 65535\<close> show ?thesis by (simp add: MAX_INT_DIGITS_def)
qed

lemma scalar_keys:
  "scalar_text (lit ''path'')" "scalar_text (lit ''host'')" "scalar_text (lit ''port'')"
  "scalar_text (lit ''username'')" "scalar_text (lit ''root'')" "scalar_text (lit ''password'')"
  by (rule ascii_scalar; simp add: text_eval)+

lemma Secret_scalar: "Secret s \<Longrightarrow> \<forall>c\<in>set s. c < 1114112 \<Longrightarrow> scalar_text s"
  by (auto simp: Secret_def scalar_text_def utf8_None_iff list_ex_iff)

lemma flat_settings:
  assumes "ip_canonical ip" "connection_ok ip item"
  shows "flat_object (public_settings item)" "flat_object (secret_settings item)"
proof -
  have "flat_object (public_settings item) \<and> flat_object (secret_settings item)"
  proof (cases item)
    case (LocalConnection name p)
    with assms have "scalar_text p"
      by (intro SettingText_scalar) (auto simp: connection_ok_def python_text_def)
    with LocalConnection show ?thesis by (simp add: flat_object_def scalar_keys)
  next
    case (SFTPConnection name host port username password root)
    with assms have ok: "HostName ip host = Some host" "port \<le> 65535" "SettingText username"
      "Secret password" "SettingText root" "\<forall>x\<in>set username. x < 1114112"
      "\<forall>x\<in>set password. x < 1114112" "\<forall>x\<in>set root. x < 1114112"
      by (auto simp: connection_ok_def python_text_def)
    have "scalar_text host" "scalar_text username" "scalar_text password" "scalar_text root"
      using ascii_scalar [OF HostName_ascii [OF assms(1) ok(1)]] SettingText_scalar Secret_scalar ok
      by blast+
    moreover have "distinct (map lit [''host'', ''port'', ''username'', ''root''])" by simp
    ultimately show ?thesis
      using short_port [OF ok(2)] SFTPConnection by (simp add: flat_object_def scalar_keys)
  qed
  then show "flat_object (public_settings item)" "flat_object (secret_settings item)" by blast+
qed

lemma validate_stored:
  assumes "connection_ok ip item"
  shows "model_validate ip (conn_type item)
      (merge_dict (merge_dict (name_and_type (conn_name item) (conn_type item)) (public_settings item))
        (secret_settings item)) = Inr item"
proof (cases item)
  case (LocalConnection name p)
  with assms show ?thesis
    by (simp add: model_validate_def merge_dict_def name_and_type_def text_field_def connection_ok_def Let_def)
next
  case (SFTPConnection name host port username password root)
  let ?all = "[(lit ''name'', JStr name), (lit ''type'', JStr (lit ''sftp'')), (lit ''host'', JStr host),
     (lit ''port'', JInt (int port)), (lit ''username'', JStr username), (lit ''root'', JStr root),
     (lit ''password'', JStr password)]"
  have merged: "merge_dict (merge_dict (name_and_type (conn_name item) (conn_type item))
      (public_settings item)) (secret_settings item) = ?all"
    by (simp add: SFTPConnection merge_dict_def name_and_type_def)
  have found: "map_of ?all (lit ''name'') = Some (JStr name)"
    "map_of ?all (lit ''type'') = Some (JStr (lit ''sftp''))"
    "map_of ?all (lit ''host'') = Some (JStr host)" "map_of ?all (lit ''port'') = Some (JInt (int port))"
    "map_of ?all (lit ''username'') = Some (JStr username)" "map_of ?all (lit ''root'') = Some (JStr root)"
    "map_of ?all (lit ''password'') = Some (JStr password)"
    by simp_all
  have known: "set (map fst ?all) \<subseteq>
      set (map lit [''name'', ''type'', ''host'', ''port'', ''username'', ''password'', ''root''])"
    by auto
  have ok: "ConnectionName name" "HostName ip host = Some host" "0 < port" "port \<le> 65535"
    "SettingText username" "Secret password" "SettingText root"
    using assms SFTPConnection by (auto simp: connection_ok_def)
  show ?thesis
    unfolding merged model_validate_def Let_def found
    using ok known by (simp add: SFTPConnection text_field_def host_field_def port_field_def
        del: list.set list.map)
qed

lemma store_get_stored:
  assumes "find (\<lambda>r. cr_name r = conn_name item) (db_connections (db w)) = Some (stored_row st n item)"
    and "db_faults w = []" "lit ''connections'' \<in> set (db_tables (db w))"
    and "cipher_ok st" "ip_canonical (st_ip st)" "connection_ok (st_ip st) item"
  shows "store_get st (conn_name item) w = (Inr item, w)"
proof -
  have "connection_models (conn_type item) = Inr ()"
    using conn_type_known by (simp add: connection_models_def)
  moreover note flat = flat_settings [OF assms(5,6)]
  have "stored_secrets st (token_of st n item) = Inr (secret_settings item)"
    using assms(4) flat(2)
    by (auto simp: stored_secrets_def token_of_def cipher_ok_def loads_dict_def loads_dumps)
  moreover have "loads_dict (dumps (public_settings item)) = Inr (public_settings item)"
    using flat(1) by (simp add: loads_dict_def loads_dumps)
  moreover have "w\<lparr>db := db w\<rparr> = w" by simp
  ultimately show ?thesis
    using assms(1-3)
    by (simp add: store_get_def bind_apply connected_no_fault find_connection_def on_table_def
        stored_row_def row_of_def validate_stored [OF assms(6)])
qed

end
