(* ===== verification/Store_Correct.thy ===== *)
theory Store_Correct
  imports Store_Connections
begin

text \<open>
  The store as a state machine: its operations as steps, any faults between them, the invariant of
  the reachable databases, recovery at startup, and the properties of the component.
\<close>

section \<open>Recovery\<close>

definition recovered :: "pystr \<Rightarrow> transfer_row \<Rightarrow> transfer_row" where
  "recovered t r =
     (if t_status r \<in> set (map status_text [Running, Publishing]) then
        r\<lparr>t_status := status_text Failed, t_updated_at := t, t_failed_at := Some t,
          t_failure_phase := Some (phase_text interruption),
          t_error_code := Some (code_value TRANSFER_INTERRUPTED),
          t_error := Some (if t_status r = status_text Publishing then interrupted_publishing
                           else interrupted_copying)\<rparr>
      else r)"

lemma recover_Inr:
  "recover t d = (Inr u, d') \<Longrightarrow> d' = d\<lparr>db_transfers := map (recovered t) (db_transfers d)\<rparr>"
  by (auto simp: recover_def on_table_def bind_apply recovered_def cong: if_cong split: if_splits)

lemma recovered_evolves:
  assumes "row_ok r" "time_text t"
  shows "row_evolves r (recovered t r)" "row_ok (recovered t r)"
    "row_in Completed (recovered t r) \<or> row_in Failed (recovered t r)"
    "t_id (recovered t r) = t_id r"
proof -
  from assms(1) obtain s where s: "row_in s r" by (auto simp: row_ok_def)
  have "row_evolves r (recovered t r) \<and> row_ok (recovered t r) \<and>
      (row_in Completed (recovered t r) \<or> row_in Failed (recovered t r))"
  proof (cases "s = Running \<or> s = Publishing")
    case True
    with s have "t_status r \<in> set (map status_text [Running, Publishing])"
      by (auto dest: row_in_status)
    then have r': "row_in Failed (recovered t r)" "same_request r (recovered t r)"
      "time_text (t_started_at (recovered t r))" "time_text (t_updated_at (recovered t r))"
      using s True assms by (auto simp: recovered_def same_request_def row_ok_def)
    have "may_follow s Failed" using True by auto
    from evolvesI [OF s r'(1) this r'(2)] r' show ?thesis
      unfolding row_ok_def by blast
  next
    case False
    with row_in_status [OF s] have "recovered t r = r" by (simp add: recovered_def)
    with assms(1) s False show ?thesis by (cases s) auto
  qed
  then show "row_evolves r (recovered t r)" "row_ok (recovered t r)"
    "row_in Completed (recovered t r) \<or> row_in Failed (recovered t r)" by blast+
  show "t_id (recovered t r) = t_id r" by (simp add: recovered_def)
qed

lemma recovered_table:
  assumes "transfers_ok rows" "time_text t"
  shows "table_evolves rows (map (recovered t) rows)" "transfers_ok (map (recovered t) rows)"
proof -
  have ok: "row_ok r" if "r \<in> set rows" for r using assms(1) that by (simp add: transfers_ok_def)
  have "list_all2 row_evolves rows (map (recovered t) rows)"
    using ok recovered_evolves(1) [OF _ assms(2)]
    by (simp add: list_all2_map2 list_all2_same)
  then show "table_evolves rows (map (recovered t) rows)"
    unfolding table_evolves_def
    by (intro exI [of _ "map (recovered t) rows"] exI [of _ "[]"]) simp
  have "map t_id (map (recovered t) rows) = map t_id rows"
    using ok recovered_evolves(4) [OF _ assms(2)] by simp
  then show "transfers_ok (map (recovered t) rows)"
    using assms(1) ok recovered_evolves(2) [OF _ assms(2)]
    unfolding transfers_ok_def by (simp del: map_map)
qed

text \<open>What a first start may leave behind when it fails: tables without rows.\<close>

definition only_built :: "database \<Rightarrow> database \<Rightarrow> bool" where
  "only_built d d' \<longleftrightarrow>
     (db_connections d' = [] \<or> db_connections d' = db_connections d \<and> set (db_tables d) \<subseteq> set (db_tables d')) \<and>
     (db_transfers d' = [] \<or> db_transfers d' = db_transfers d)"

lemma only_built_refl [simp]: "only_built d d"
  by (simp add: only_built_def)

lemma only_built_trans: "only_built d d' \<Longrightarrow> only_built d' d'' \<Longrightarrow> only_built d d''"
  by (auto simp: only_built_def)

lemma created_table:
  assumes "connected (create_table t) w = (x, w')"
  shows "only_built (db w) (db w')"
proof (cases x)
  case (Inl e)
  with assms connected_Inl show ?thesis by fastforce
next
  case (Inr u)
  with assms connected_Inr [of "create_table t" w u w'] show ?thesis
    by (auto simp: create_table_def only_built_def)
qed

lemma created_schema:
  assumes "create_schema w = (x, w')"
  shows "only_built (db w) (db w')"
proof -
  obtain x1 w1 where 1: "connected (create_table ''metadata'') w = (x1, w1)" by (rule prod.exhaust)
  obtain x2 w2 where 2: "connected (create_table ''connections'') w1 = (x2, w2)" by (rule prod.exhaust)
  obtain x3 w3 where 3: "connected (create_table ''transfers'') w2 = (x3, w3)" by (rule prod.exhaust)
  obtain x4 w4 where 4: "connected (ret ()) w3 = (x4, w4)" by (rule prod.exhaust)
  have "db w4 = db w3"
    using connected_Inl [of "ret ()" w3] connected_Inr [of "ret ()" w3 "()" w4] 4 by (cases x4) auto
  with 1 2 3 4 assms show ?thesis
    using created_table [OF 1] only_built_trans [OF created_table [OF 1] created_table [OF 2]]
      only_built_trans [OF only_built_trans [OF created_table [OF 1] created_table [OF 2]] created_table [OF 3]]
    by (auto simp: create_schema_def bind_apply split: sum.splits)
qed

lemma created_schema_Inr:
  assumes "create_schema w = (Inr u, w')"
  shows "db w' = (db w)\<lparr>db_tables := db_tables (db w) @ SCHEMA_TABLES, db_metadata := [],
    db_connections := [], db_transfers := []\<rparr>"
  using assms
  by (auto simp: create_schema_def bind_eq_Inr create_table_def SCHEMA_TABLES_def dest!: connected_Inr)

lemma initialize_database_cases:
  assumes "initialize_database st w = (r, w')"
  obtains (fail) e where "r = Inl e" "db w' = db w \<or> db_tables (db w) = [] \<and> only_built (db w) (db w')"
  | (ok) t rows where "r = Inr ()" "time_text t"
      "db_tables (db w) = [] \<and> rows = [] \<and> db_connections (db w') = [] \<or>
       verify_existing st (db_tables (db w)) (db w) = (Inr (), db w) \<and>
       rows = db_transfers (db w) \<and> db_connections (db w') = db_connections (db w) \<and>
       db_tables (db w') = db_tables (db w)"
      "db_transfers (db w') = map (recovered t) rows"
proof -
  obtain n w1 where e: "encrypted st KEY_CHECK w = (Inr (st_encrypt st n KEY_CHECK), w1)" "db w1 = db w"
    using encrypted_apply by blast
  let ?key = "st_encrypt st n KEY_CHECK"
  obtain x w2 where x: "now w1 = (x, w2)" by (rule prod.exhaust)
  from now_cases [OF x] x e obtain t where t: "now w1 = (Inr t, w2)" "time_text t" "db w2 = db w"
    by auto
  let ?old = "\<lambda>tables. connected (bind (verify_existing st tables) (\<lambda>_. recover t))"
  let ?new = "bind create_schema (\<lambda>_. connected (bind (insert_metadata ?key) (\<lambda>_. recover t)))"
  let ?body = "bind (connected (get db_tables)) (\<lambda>tables. if tables \<noteq> [] then ?old tables else ?new)"
  obtain y w3 where y: "?body w2 = (y, w3)" by (rule prod.exhaust)
  with assms e t have r: "(r, w') = (case y of Inl e \<Rightarrow> (Inl (startup_error st e), w3) | Inr u \<Rightarrow> (Inr u, w3))"
    by (auto simp: initialize_database_def bind_apply translate_apply split: sum.splits)
  obtain z w4 where z: "connected (get db_tables) w2 = (z, w4)" by (rule prod.exhaust)
  show thesis
  proof (cases z)
    case (Inl err)
    with z connected_Inl have "db w4 = db w2" by fastforce
    with Inl y z r t fail show thesis by (auto simp: bind_apply)
  next
    case (Inr ts)
    with z connected_Inr [of "get db_tables" w2 ts w4] t
    have w4: "db w4 = db w" and ts: "ts = db_tables (db w)" by auto
    from y z Inr have run: "(if ts \<noteq> [] then ?old ts else ?new) w4 = (y, w3)" by (simp add: bind_apply)
    have same: "d1 = d0" if "verify_existing st ts d0 = (v, d1)" for ts d0 v d1
      using that by (auto simp: verify_existing_def bind_apply split: option.splits if_splits)
    show thesis
    proof (cases "ts = []")
      case False
      with run have old: "?old ts w4 = (y, w3)" by simp
      show thesis
      proof (cases y)
        case (Inl err)
        with old connected_Inl have "db w3 = db w4" by fastforce
        with Inl r w4 fail show thesis by simp
      next
        case (Inr u)
        from connected_Inr [OF old [unfolded Inr]] w4 obtain d1 where
          v: "verify_existing st ts (db w) = (Inr (), d1)" "recover t d1 = (Inr u, db w3)"
          by (auto simp: bind_eq_Inr)
        with same [OF v(1)] recover_Inr [OF v(2)] ts r t Inr show thesis
          by (intro ok [of t "db_transfers (db w)"]) auto
      qed
    next
      case True
      with run have new: "?new w4 = (y, w3)" by simp
      obtain c w5 where c: "create_schema w4 = (c, w5)" by (rule prod.exhaust)
      show thesis
      proof (cases y)
        case (Inl err)
        have "db w3 = db w5"
          using new c Inl by (cases c) (auto simp: bind_apply dest: connected_Inl)
        with created_schema [OF c] w4 True ts Inl r fail show thesis by simp
      next
        case (Inr u)
        with new c obtain u' where c': "create_schema w4 = (Inr u', w5)"
          and last: "connected (bind (insert_metadata ?key) (\<lambda>_. recover t)) w5 = (Inr u, w3)"
          by (cases c) (auto simp: bind_apply)
        from connected_Inr [OF last] created_schema_Inr [OF c']
        have "db_transfers (db w3) = [] \<and> db_connections (db w3) = []"
          by (auto simp: bind_eq_Inr insert_metadata_def on_table_def bind_apply
              dest!: recover_Inr split: if_splits)
        with True ts r t Inr show thesis by (intro ok [of t "[]"]) auto
      qed
    qed
  qed
qed

section \<open>The operations as steps\<close>

datatype store_op =
    Create connection
  | Replace connection
  | Delete pystr
  | Start pystr transfer_request
  | Progress pystr nat
  | Mark_publishing pystr nat
  | Finish pystr
  | Fail_transfer pystr nat failure_phase error_code pystr
  | Initialize

definition discard :: "('s, 'a) io \<Rightarrow> ('s, unit) io" where
  "discard m = bind m (\<lambda>_. ret ())"

fun run_op :: "connection_store \<Rightarrow> store_op \<Rightarrow> ('w db_world_scheme, unit) io" where
  "run_op st (Create item) = discard (store_create st item)"
| "run_op st (Replace item) = discard (store_replace st item)"
| "run_op st (Delete name) = store_delete name"
| "run_op st (Start tid request) = start_transfer tid request"
| "run_op st (Progress tid n) = record_progress tid n"
| "run_op st (Mark_publishing tid n) = mark_publishing tid n"
| "run_op st (Finish tid) = discard (finish_transfer tid)"
| "run_op st (Fail_transfer tid n phase code message) = fail_transfer tid n phase code message"
| "run_op st Initialize = initialize_database st"

text \<open>The API layer passes validated connections only.\<close>

fun op_ok :: "connection_store \<Rightarrow> store_op \<Rightarrow> bool" where
  "op_ok st (Create item) = connection_ok (st_ip st) item"
| "op_ok st (Replace item) = connection_ok (st_ip st) item"
| "op_ok st _ = True"

definition store_ok :: "connection_store \<Rightarrow> database \<Rightarrow> bool" where
  "store_ok st d \<longleftrightarrow> connections_ok st (db_connections d) \<and> transfers_ok (db_transfers d)"

lemma discard_cases:
  assumes "discard m w = (r, w')"
  obtains x where "m w = (x, w')" "r = map_sum id (\<lambda>_. ()) x"
  using assms by (cases "m w"; cases "fst (m w)") (auto simp: discard_def bind_apply)

lemma connections_ok_create:
  "connections_ok st rows \<Longrightarrow> connection_ok (st_ip st) item \<Longrightarrow>
   conn_name item \<notin> set (map cr_name rows) \<Longrightarrow> connections_ok st (rows @ [stored_row st n item])"
  by (auto simp: connections_ok_def)

lemma connections_ok_replace:
  assumes "connections_ok st rows" "connection_ok (st_ip st) item"
  shows "connections_ok st
    (map (\<lambda>row. if cr_name row = conn_name item then stored_row st n item else row) rows)"
proof -
  have "map cr_name (map (\<lambda>row. if cr_name row = conn_name item then stored_row st n item else row) rows) =
      map cr_name rows" by auto
  with assms show ?thesis unfolding connections_ok_def by (fastforce simp del: map_map)
qed

lemma connections_ok_delete:
  "connections_ok st rows \<Longrightarrow> connections_ok st (filter (\<lambda>row. cr_name row \<noteq> name) rows)"
  by (auto simp: connections_ok_def distinct_map_filter)

lemma run_op_step:
  assumes "run_op st op w = (r, w')" "store_ok st (db w)" "op_ok st op"
  shows "store_ok st (db w') \<and>
    (db_tables (db w) \<noteq> [] \<or> op \<noteq> Initialize \<longrightarrow>
      table_evolves (db_transfers (db w)) (db_transfers (db w')))"
proof -
  from assms(2) have c: "connections_ok st (db_connections (db w))" and
    t: "transfers_ok (db_transfers (db w))" by (simp_all add: store_ok_def)
  show ?thesis
  proof (cases op)
    case (Create item)
    with assms(1) obtain x where "store_create st item w = (x, w')" by (auto elim: discard_cases)
    then show ?thesis
      by (cases rule: store_create_cases)
        (use Create assms c t in \<open>auto simp: store_ok_def intro: connections_ok_create\<close>)
  next
    case (Replace item)
    with assms(1) obtain x where "store_replace st item w = (x, w')" by (auto elim: discard_cases)
    from this c show ?thesis
      by (cases rule: store_replace_cases)
        (use Replace assms c t in \<open>auto simp: store_ok_def intro: connections_ok_replace\<close>)
  next
    case (Delete name)
    with assms(1) have "store_delete name w = (r, w')" by simp
    from this c show ?thesis
      by (cases rule: store_delete_cases)
        (use Delete assms c t in \<open>auto simp: store_ok_def intro: connections_ok_delete\<close>)
  next
    case Initialize
    with assms(1) have "initialize_database st w = (r, w')" by simp
    then show ?thesis
    proof (cases rule: initialize_database_cases)
      case (ok u rows)
      have "transfers_ok []" "connections_ok st []" by (simp_all add: transfers_ok_def connections_ok_def)
      with ok c t Initialize recovered_table [OF t ok(2)] show ?thesis
        by (auto simp: store_ok_def transfers_ok_def)
    next
      case (fail e)
      have "transfers_ok []" "connections_ok st []" by (simp_all add: transfers_ok_def connections_ok_def)
      with fail c t assms(2) Initialize show ?thesis by (auto simp: store_ok_def only_built_def)
    qed
  next
    case (Finish tid)
    with assms(1) obtain x where "finish_transfer tid w = (x, w')" by (auto elim: discard_cases)
    from finish_transfer_evolves [OF this t] c show ?thesis by (simp add: store_ok_def)
  next
    case (Start tid request)
    with assms(1) c start_transfer_evolves [OF _ t] show ?thesis by (simp add: store_ok_def)
  next
    case (Progress tid n)
    with assms(1) c record_progress_evolves [OF _ t] show ?thesis by (simp add: store_ok_def)
  next
    case (Mark_publishing tid n)
    with assms(1) c mark_publishing_evolves [OF _ t] show ?thesis by (simp add: store_ok_def)
  next
    case (Fail_transfer tid n phase code message)
    with assms(1) c fail_transfer_evolves [OF _ t] show ?thesis by (simp add: store_ok_def)
  qed
qed

text \<open>The databases that any sequence of operations, with any faults, can lead to.\<close>

inductive reached :: "connection_store \<Rightarrow> database \<Rightarrow> bool" for st where
  new: "reached st \<lparr>db_tables = [], db_metadata = [], db_connections = [], db_transfers = []\<rparr>"
| step: "reached st (db (w :: db_world)) \<Longrightarrow> op_ok st op \<Longrightarrow> run_op st op w = (r, w') \<Longrightarrow>
    reached st (db w')"

lemma reached_ok: "reached st d \<Longrightarrow> store_ok st d"
proof (induction rule: reached.induct)
  case new
  show ?case by (simp add: store_ok_def connections_ok_def transfers_ok_def)
next
  case (step w op r w')
  then show ?case using run_op_step by blast
qed

text \<open>Rows of connections are in a table that exists.\<close>

definition has_table :: "database \<Rightarrow> bool" where
  "has_table d \<longleftrightarrow> db_connections d \<noteq> [] \<longrightarrow> lit ''connections'' \<in> set (db_tables d)"

lemma transition_keeps:
  assumes "transition tid P f w = (r, w')"
  shows "db_connections (db w') = db_connections (db w) \<and> db_tables (db w') = db_tables (db w)"
proof (cases r)
  case (Inl e)
  with assms show ?thesis by (simp add: transition_Inl)
next
  case (Inr u)
  with assms show ?thesis by (auto elim!: transition_Inr)
qed

lemma other_op_keeps:
  assumes "run_op st op w = (r, w')" "\<forall>item name. op \<notin> {Create item, Replace item, Delete name, Initialize}"
  shows "db_connections (db w') = db_connections (db w) \<and> db_tables (db w') = db_tables (db w)"
proof -
  have now: "db w1 = db w0" if "now w0 = (x, w1)" for w0 w1 :: "'a db_world_scheme" and x
    using now_cases [OF that] by metis
  show ?thesis
  proof (cases op)
    case (Start tid request)
    with assms(1) have "start_transfer tid request w = (r, w')" by simp
    then show ?thesis by (cases rule: start_transfer_cases) auto
  next
    case (Finish tid)
    with assms(1) obtain x where "finish_transfer tid w = (x, w')" by (auto elim: discard_cases)
    then show ?thesis by (cases rule: finish_transfer_cases) auto
  next
    case (Progress tid n)
    with assms(1) show ?thesis
      by (cases "now w") (auto simp: record_progress_def bind_apply dest!: now transition_keeps split: sum.splits)
  next
    case (Mark_publishing tid n)
    with assms(1) show ?thesis
      by (cases "now w") (auto simp: mark_publishing_def bind_apply dest!: now transition_keeps split: sum.splits)
  next
    case (Fail_transfer tid n phase code message)
    with assms(1) show ?thesis
      by (cases "now w") (auto simp: fail_transfer_def bind_apply dest!: now transition_keeps split: sum.splits)
  qed (use assms in auto)
qed

lemma run_op_has_table:
  assumes "run_op st op w = (r, w')" "store_ok st (db w)" "has_table (db w)"
  shows "has_table (db w')"
proof (cases op)
  case (Create item)
  with assms(1) obtain x where "store_create st item w = (x, w')" by (auto elim: discard_cases)
  then show ?thesis
    by (cases rule: store_create_cases) (use assms(3) in \<open>auto simp: has_table_def\<close>)
next
  case (Replace item)
  with assms(1) obtain x where "store_replace st item w = (x, w')" by (auto elim: discard_cases)
  then show ?thesis
    by (cases rule: store_replace_cases) (use assms(2,3) in \<open>auto simp: has_table_def store_ok_def\<close>)
next
  case (Delete name)
  with assms(1) have "store_delete name w = (r, w')" by simp
  then show ?thesis
    by (cases rule: store_delete_cases) (use assms(2,3) in \<open>auto simp: has_table_def store_ok_def\<close>)
next
  case Initialize
  with assms(1) have "initialize_database st w = (r, w')" by simp
  then show ?thesis
    by (cases rule: initialize_database_cases) (use assms(3) in \<open>auto simp: has_table_def only_built_def\<close>)
qed (use other_op_keeps [OF assms(1)] assms(3) in \<open>auto simp: has_table_def\<close>)

lemma reached_has_table: "reached st d \<Longrightarrow> has_table d"
proof (induction rule: reached.induct)
  case (step w op r w')
  then show ?case using run_op_has_table reached_ok by blast
qed (simp add: has_table_def)

lemma find_named:
  assumes "distinct (map cr_name rows)" "row \<in> set rows"
  shows "find (\<lambda>r. cr_name r = cr_name row) rows = Some row"
  using assms by (induction rows) (auto simp: image_iff)

section \<open>A small store\<close>

text \<open>
  A store whose tokens are the nonce and the characters in unary, and a world with an initialised
  database.
\<close>

fun unary_decode :: "nat \<Rightarrow> pystr \<Rightarrow> pystr" where
  "unary_decode k [] = []"
| "unary_decode k (c # s) = (if c = 0 then k # unary_decode 0 s else unary_decode (Suc k) s)"

definition unary_encode :: "pystr \<Rightarrow> pystr" where
  "unary_encode m = concat (map (\<lambda>c. replicate c 1 @ [0]) m)"

definition demo_store :: connection_store where
  "demo_store =
     \<lparr>st_path = [lit ''s'', lit ''db''], st_encrypt = (\<lambda>n m. (n mod 128) # unary_encode m),
      st_decrypt = (\<lambda>t. Some (unary_decode 0 (tl t))), st_shown = (\<lambda>s. s), st_ip = (\<lambda>_. None)\<rparr>"

lemma unary_decode_encode: "unary_decode 0 (unary_encode m) = m"
proof (induction m)
  case (Cons c m)
  have "unary_decode k (replicate c 1 @ 0 # s) = (k + c) # unary_decode 0 s" for k s
    by (induction c arbitrary: k) simp_all
  with Cons show ?case by (simp add: unary_encode_def)
qed (simp add: unary_encode_def)

lemma demo_store_ok: "cipher_ok demo_store" "ip_canonical (st_ip demo_store)"
proof -
  have "list_all (\<lambda>c. c < 128) (unary_encode m)" for m by (auto simp: list_all_iff unary_encode_def)
  then show "cipher_ok demo_store" by (simp add: demo_store_def cipher_ok_def unary_decode_encode)
qed (simp add: demo_store_def ip_canonical_def)

definition demo_db :: db_world where
  "demo_db = os_world.extend
     \<lparr>fs = \<lparr>dirents = [], inodes = (\<lambda>_. \<lparr>kind = Special, content = [], durable = [], mode = 0\<rparr>),
             next_ino = 0, links = Some\<rparr>,
      fds = Map.empty, next_fd = 3, ticks = [], uuids = [], umask = 18, cwd = [], home = Map.empty, log = []\<rparr>
     (db_world.fields
       \<lparr>db_tables = SCHEMA_TABLES, db_metadata = [], db_connections = [], db_transfers = []\<rparr> [] [] [])"

lemma demo_db_sel [simp]:
  "db demo_db = \<lparr>db_tables = SCHEMA_TABLES, db_metadata = [], db_connections = [], db_transfers = []\<rparr>"
  "db_faults demo_db = []" "db_clock demo_db = []"
  by (simp_all add: demo_db_def os_world.defs db_world.defs)

definition demo_connection :: connection where
  "demo_connection = LocalConnection (lit ''docs'') (lit ''/d'')"

lemma demo_connection_ok: "connection_ok ip demo_connection"
  by (auto simp: demo_connection_def connection_ok_def python_text_def ConnectionName_def SettingText_def
      MAX_SETTING_LENGTH_def plain_text_def is_control_def is_letter_def is_alnum_def is_digit_def
      utf8_cp_def is_surrogate_def text_eval)

definition demo_request :: transfer_request where
  "demo_request = \<lparr>rq_source = lit ''docs'', rq_source_file = lit ''a'', rq_destination = lit ''docs'',
     rq_destination_file = lit ''b'', rq_overwrite = False\<rparr>"

section \<open>Transfer records\<close>


lemma demo_start:
  obtains w where "reached demo_store (db (w :: db_world))" "db_faults w = []" "db_connections (db w) = []"
    "lit ''connections'' \<in> set (db_tables (db w))"
proof -
  let ?w = "demo_db\<lparr>db := \<lparr>db_tables = [], db_metadata = [], db_connections = [], db_transfers = []\<rparr>\<rparr>"
  obtain r w where run: "run_op demo_store Initialize ?w = (r, w)" by (rule prod.exhaust)
  have none: "db_faults ?w = []" "db_nonces ?w = []" "db_clock ?w = []"
    by (simp_all add: demo_db_def os_world.defs db_world.defs)
  from run none have "db_faults w = []" "db_connections (db w) = []" "db_tables (db w) = SCHEMA_TABLES"
    by (auto simp: initialize_database_def encrypted_def now_def create_schema_def create_table_def
        insert_metadata_def recover_def on_table_def bind_apply translate_apply connected_no_fault
        SCHEMA_TABLES_def)
  moreover have "reached demo_store (db w)"
    by (rule reached.step [OF _ _ run]) (simp_all add: reached.new)
  ultimately show thesis by (intro that [of w]) (simp_all add: SCHEMA_TABLES_def)
qed


lemma row_evolves_terminal:
  assumes "row_evolves r r'" "row_in Completed r \<or> row_in Failed r"
  shows "r' = r"
proof (rule ccontr)
  assume "r' \<noteq> r"
  with assms(1) obtain s s' where "row_in s r" "may_follow s s'" by (auto simp: row_evolves_def)
  with assms(2) have "s = Completed \<or> s = Failed" by (blast dest: row_in_unique)
  with \<open>may_follow s s'\<close> show False by auto
qed

text \<open>
  C11. The life of a transfer record: whatever operation runs on a well-formed database, and
  whether or not it fails, every record is kept in place and is either unchanged or moved along
  running, publishing, completed or failed with its request and start time kept; completed and
  failed records never change again; and new records start as running.
\<close>

theorem transfer_life:
  assumes "store_ok st (db w)" "op_ok st op" "db_tables (db w) \<noteq> []"
  shows "\<exists>kept new. db_transfers (db (snd (run_op st op w))) = kept @ new \<and>
    (\<forall>r\<in>set new. row_in Running r) \<and> list_all2 row_evolves (db_transfers (db w)) kept \<and>
    (\<forall>i < length kept. row_in Completed (db_transfers (db w) ! i) \<or> row_in Failed (db_transfers (db w) ! i) \<longrightarrow>
       kept ! i = db_transfers (db w) ! i)"
proof -
  obtain r w' where run: "run_op st op w = (r, w')" by (rule prod.exhaust)
  from run_op_step [OF this assms(1,2)] assms(3)
  have "table_evolves (db_transfers (db w)) (db_transfers (db w'))" by blast
  then obtain kept new where k: "db_transfers (db w') = kept @ new" "\<forall>r\<in>set new. row_in Running r"
    "list_all2 row_evolves (db_transfers (db w)) kept" by (auto simp: table_evolves_def)
  have "row_evolves (db_transfers (db w) ! i) (kept ! i)" if "i < length kept" for i
    using k(3) that by (simp add: list_all2_conv_all_nth)
  with k run row_evolves_terminal show ?thesis
    by (intro exI [of _ kept] exI [of _ new]) auto
qed

theorem transfer_life_witness:
  "list_all (row_in Running)
     (db_transfers (db (snd (run_op demo_store (Start (lit ''t'') demo_request) demo_db))))"
proof -
  let ?op = "Start (lit ''t'') demo_request"
  have "store_ok demo_store (db demo_db)" "op_ok demo_store ?op" "db_tables (db demo_db) \<noteq> []"
    "db_transfers (db demo_db) = []"
    by (simp_all add: store_ok_def connections_ok_def transfers_ok_def SCHEMA_TABLES_def)
  with transfer_life [of demo_store demo_db ?op] obtain kept new where
    "db_transfers (db (snd (run_op demo_store ?op demo_db))) = kept @ new" "\<forall>r\<in>set new. row_in Running r"
    "list_all2 row_evolves [] kept" by metis
  then show ?thesis unfolding list_all_iff by simp
qed

text \<open>
  C12. A change of state is a compare-and-set. On a well-formed database without faults, marking a
  transfer as publishing succeeds exactly when its record is running; otherwise it raises
  \<open>TRANSFER_STATE_CONFLICT\<close> (or the record is missing, with the same error) and changes nothing.
\<close>

lemma in_status_iff:
  assumes "row_ok r"
  shows "in_status tid ss r \<longleftrightarrow> t_id r = tid \<and> (\<exists>s\<in>set ss. row_in s r)"
proof
  assume "in_status tid ss r"
  from this assms obtain s where "s \<in> set ss" "row_in s r" "t_id r = tid" by (rule in_status_row)
  then show "t_id r = tid \<and> (\<exists>s\<in>set ss. row_in s r)" by auto
next
  assume "t_id r = tid \<and> (\<exists>s\<in>set ss. row_in s r)"
  then show "in_status tid ss r" by (auto simp: in_status_def dest: row_in_status)
qed

lemma find_first: "\<forall>x\<in>set pre. \<not> P x \<Longrightarrow> P y \<Longrightarrow> find P (pre @ y # post) = Some y"
  by (induction pre) auto

lemma count_in_status:
  "transfers_ok rows \<Longrightarrow>
   length (filter (in_status tid ss) rows) =
     (if \<exists>r\<in>set rows. t_id r = tid \<and> (\<exists>s\<in>set ss. row_in s r) then 1 else 0)"
proof (induction rows)
  case (Cons r rows)
  then have ok: "row_ok r" "transfers_ok rows" "t_id r \<notin> t_id ` set rows"
    by (auto simp: transfers_ok_def)
  have "in_status tid ss r \<longleftrightarrow> t_id r = tid \<and> (\<exists>s\<in>set ss. row_in s r)"
    by (rule in_status_iff [OF ok(1)])
  moreover have "filter (in_status tid ss) rows = []" if "t_id r = tid"
  proof -
    have "\<forall>r'\<in>set rows. t_id r' \<noteq> tid" using that ok(3) by (metis imageI)
    then show ?thesis by (simp add: filter_empty_conv in_status_def)
  qed
  moreover have "\<not> (\<exists>r'\<in>set rows. t_id r' = t_id r \<and> (\<exists>s\<in>set ss. row_in s r'))"
    using ok(3) by (metis imageI)
  ultimately show ?case using Cons.IH [OF ok(2)] by (cases "t_id r = tid") simp_all
qed simp

theorem mark_publishing_compare_and_set:
  assumes "store_ok st (db w)" "db_faults w = []" "lit ''transfers'' \<in> set (db_tables (db w))"
  shows "if \<exists>r\<in>set (db_transfers (db w)). t_id r = tid \<and> row_in Running r
    then fst (mark_publishing tid n w) = Inr () \<and>
      (\<exists>r\<in>set (db_transfers (db (snd (mark_publishing tid n w)))).
         t_id r = tid \<and> t_status r = status_text Publishing \<and> t_bytes_copied r = n)
    else fst (mark_publishing tid n w) = Inl (state_conflict tid) \<and>
      db (snd (mark_publishing tid n w)) = db w"
proof -
  obtain x w1 where x: "now w = (x, w1)" by (rule prod.exhaust)
  from now_cases [OF x] x obtain t where t: "now w = (Inr t, w1)" "db w1 = db w" "db_faults w1 = db_faults w"
    by auto
  let ?f = "\<lambda>r. r\<lparr>t_status := status_text Publishing, t_bytes_copied := n, t_updated_at := t\<rparr>"
  have run: "mark_publishing tid n w = transition tid (in_status tid [Running]) ?f w1"
    using t by (simp add: mark_publishing_def bind_apply)
  have count: "length (filter (in_status tid [Running]) (db_transfers (db w))) =
      (if \<exists>r\<in>set (db_transfers (db w)). t_id r = tid \<and> row_in Running r then 1 else 0)"
    using assms(1) count_in_status [of "db_transfers (db w)" tid "[Running]"] by (simp add: store_ok_def)
  show ?thesis
  proof (cases "\<exists>r\<in>set (db_transfers (db w)). t_id r = tid \<and> row_in Running r")
    case True
    obtain y w2 where y: "transition tid (in_status tid [Running]) ?f w1 = (y, w2)" by (rule prod.exhaust)
    have "y = Inr ()"
      using y True count assms t
      by (auto simp: transition_def recording_def translate_apply connected_no_fault change_def
          on_table_def bind_apply)
    with y obtain pre r post where split: "in_status tid [Running] r"
      "db w2 = (db w1)\<lparr>db_transfers := pre @ ?f r # post\<rparr>"
      by (auto elim!: transition_Inr)
    with y True \<open>y = Inr ()\<close> show ?thesis by (auto simp: run in_status_def)
  next
    case False
    then have "length (filter (in_status tid [Running]) (db_transfers (db w1))) \<noteq> 1"
      using count t by simp
    with transition_conflict [of w1 "in_status tid [Running]" tid ?f] assms t False show ?thesis
      by (auto simp: run)
  qed
qed

theorem mark_publishing_compare_and_set_witness:
  "fst (mark_publishing (lit ''t'') 3 demo_db) = Inl (state_conflict (lit ''t''))"
proof -
  have "store_ok demo_store (db demo_db)" "lit ''transfers'' \<in> set (db_tables (db demo_db))"
    by (simp_all add: store_ok_def connections_ok_def transfers_ok_def SCHEMA_TABLES_def)
  from mark_publishing_compare_and_set [OF this(1) demo_db_sel(2) this(2), of "lit ''t''" 3]
  show ?thesis by simp
qed

text \<open>
  C13. Finishing is all or nothing under any fault: either the record that was publishing is
  completed in the database and the returned record is what the database holds, or the operation
  raises and the database is unchanged.
\<close>

theorem finish_all_or_nothing:
  assumes "store_ok st (db w)"
  shows "case finish_transfer tid w of
      (Inl e, w') \<Rightarrow> db w' = db w
    | (Inr rec, w') \<Rightarrow> tr_status rec = Completed \<and> tr_id rec = tid \<and>
        (\<exists>r\<in>set (db_transfers (db w)). t_id r = tid \<and> row_in Publishing r) \<and>
        (\<exists>r\<in>set (db_transfers (db w')). row_in Completed r \<and> record_of_row r = Inr rec)"
proof -
  obtain x w' where x: "finish_transfer tid w = (x, w')" by (rule prod.exhaust)
  have rows: "transfers_ok (db_transfers (db w))" using assms by (simp add: store_ok_def)
  from x show ?thesis
  proof (cases rule: finish_transfer_cases)
    case (fail e)
    with x show ?thesis by simp
  next
    case (ok pre row post t rec)
    let ?r = "row\<lparr>t_status := status_text Completed, t_completed_at := Some t, t_updated_at := t\<rparr>"
    have row: "row_ok row" using ok rows by (simp add: transfers_ok_def)
    from in_status_row [OF ok(3) row] have p: "row_in Publishing row" "t_id row = tid" by auto
    then have r: "row_in Completed ?r" "row_ok ?r"
      using ok(2) row by (auto simp: row_ok_def intro!: exI [of _ Completed])
    have "tid \<notin> t_id ` set pre" using ok(4) p rows by (auto simp: transfers_ok_def)
    then have "find (\<lambda>r. t_id r = tid) (db_transfers (db w')) = Some ?r"
      using ok(5) p by (simp add: image_iff) (rule find_first, auto)
    with ok(6) have rec: "record_of_row ?r = Inr rec" by auto
    from record_of_row_ok [OF r(2)] rec have "row_in (tr_status rec) ?r" "tr_id rec = tid"
      using p by auto
    with r(1) have "tr_status rec = Completed" by (blast dest: row_in_unique)
    with x ok p r rec \<open>tr_id rec = tid\<close> show ?thesis by auto
  qed
qed

theorem finish_all_or_nothing_witness:
  "case finish_transfer (lit ''t'') demo_db of (Inl e, w') \<Rightarrow> db w' = db demo_db | (Inr _, _) \<Rightarrow> False"
proof -
  have "store_ok demo_store (db demo_db)"
    by (simp add: store_ok_def connections_ok_def transfers_ok_def)
  from finish_all_or_nothing [OF this, of "lit ''t''"] show ?thesis
    by (auto split: prod.splits sum.splits)
qed

end
