(* ===== verification/Transfer_Store.thy ===== *)
theory Transfer_Store
  imports Transfer_Laws Registry Local_Frames Store_Correct
begin

text \<open>
  The store as the ledger of a transfer, and the connectors of the registry: they meet the contracts
  of \<open>Transfer_Laws\<close>, so what is proved there holds for the service of the application.
\<close>

section \<open>What the store shows of the world\<close>

text \<open>The database, the faults that are still to come, and the slots, which the store leaves alone.\<close>

definition ledger_view :: "'w service_world_scheme \<Rightarrow> database \<times> db_fault list \<times> nat" where
  "ledger_view w = (db w, db_faults w, sw_free w)"

text \<open>SQLite raises its own errors only.\<close>

fun sqlite_fault :: "db_fault \<Rightarrow> bool" where
  "sqlite_fault No_fault = True"
| "sqlite_fault (At_start (SqliteError _ _)) = True"
| "sqlite_fault (At_commit (SqliteError _ _)) = True"
| "sqlite_fault _ = False"

definition ledger_ok :: "database \<times> db_fault list \<times> nat \<Rightarrow> bool" where
  "ledger_ok = (\<lambda>(d, faults, _). transfers_ok (db_transfers d) \<and> list_all sqlite_fault faults)"

definition ledger_status :: "pystr \<Rightarrow> database \<times> db_fault list \<times> nat \<Rightarrow> transfer_status option" where
  "ledger_status i =
     (\<lambda>(d, _). case find (\<lambda>r. t_id r = i) (db_transfers d) of
        None \<Rightarrow> None | Some r \<Rightarrow> named status_text all_statuses (t_status r))"

definition ledger_rest :: "database \<times> db_fault list \<times> nat \<Rightarrow> nat" where
  "ledger_rest = (\<lambda>(_, _, n). n)"

lemma ledger_simps [simp]:
  "ledger_ok (ledger_view w) \<longleftrightarrow> transfers_ok (db_transfers (db w)) \<and> list_all sqlite_fault (db_faults w)"
  "ledger_rest (ledger_view w) = sw_free w"
  by (simp_all add: ledger_ok_def ledger_view_def ledger_rest_def)

lemma ledger_status_cong: "db w' = db w \<Longrightarrow> ledger_status i (ledger_view w') = ledger_status i (ledger_view w)"
  by (simp add: ledger_status_def ledger_view_def)

lemma find_id:
  "distinct (map t_id rows) \<Longrightarrow> r \<in> set rows \<Longrightarrow> find (\<lambda>x. t_id x = t_id r) rows = Some r"
  by (induction rows) (auto simp: image_iff)

lemma ledger_status_iff:
  assumes "transfers_ok (db_transfers (db w))"
  shows "ledger_status i (ledger_view w) = Some s \<longleftrightarrow>
    (\<exists>r\<in>set (db_transfers (db w)). t_id r = i \<and> row_in s r)"
proof
  assume "ledger_status i (ledger_view w) = Some s"
  then obtain r where r: "find (\<lambda>r. t_id r = i) (db_transfers (db w)) = Some r"
    "named status_text all_statuses (t_status r) = Some s"
    by (auto simp: ledger_status_def ledger_view_def split: option.splits)
  then have in_rows: "r \<in> set (db_transfers (db w))" "t_id r = i" by (auto simp: find_Some_iff)
  with assms obtain s' where "row_in s' r" by (auto simp: transfers_ok_def row_ok_def)
  with r(2) row_in_status [OF this] have "row_in s r" by simp
  with in_rows show "\<exists>r\<in>set (db_transfers (db w)). t_id r = i \<and> row_in s r" by blast
next
  assume "\<exists>r\<in>set (db_transfers (db w)). t_id r = i \<and> row_in s r"
  then obtain r where r: "r \<in> set (db_transfers (db w))" "t_id r = i" "row_in s r" by blast
  from assms have "distinct (map t_id (db_transfers (db w)))" by (simp add: transfers_ok_def)
  from find_id [OF this r(1)] r row_in_status [OF r(3)]
  show "ledger_status i (ledger_view w) = Some s"
    by (simp add: ledger_status_def ledger_view_def)
qed

section \<open>Errors and faults of the store\<close>

definition sqlite_or_typed :: "exn \<Rightarrow> bool" where
  "sqlite_or_typed e \<longleftrightarrow> is_db_error e \<or> (\<exists>c n. e = SqliteError c n)"

lemma sqlite_or_typedI [intro, simp]:
  "is_db_error e \<Longrightarrow> sqlite_or_typed e" "sqlite_or_typed (SqliteError c n)"
  by (simp_all add: sqlite_or_typed_def)

lemma connected_rest:
  assumes "connected body w = (r, w')"
  shows "db_faults w' = tl (db_faults w) \<and> sw_free w' = sw_free w"
proof (cases r)
  case (Inl e)
  with connected_Inl [of body w e w'] assms show ?thesis by simp
next
  case (Inr x)
  with connected_Inr [of body w x w'] assms show ?thesis by auto
qed

lemma list_all_tl: "list_all P xs \<Longrightarrow> list_all P (tl xs)"
  by (cases xs) simp_all

lemma recording_contract:
  assumes "recording i body w = (r, w')" "list_all sqlite_fault (db_faults w)"
    "\<And>e d. body (db w) = (Inl e, d) \<Longrightarrow> sqlite_or_typed e"
  shows "list_all sqlite_fault (db_faults w') \<and> sw_free w' = sw_free w \<and>
    (\<forall>e. r = Inl e \<longrightarrow> is_db_error e)"
proof -
  obtain x where x: "connected body w = (x, w')"
    using assms(1) by (cases "connected body w"; cases "fst (connected body w)")
      (auto simp: recording_def translate_apply)
  have "is_db_error e" if "r = Inl e" for e
  proof -
    from assms(1) that obtain e' where e': "connected body w = (Inl e', w')" "e = record_error i e'"
      by (auto simp: recording_def translate_eq_Inl)
    from connected_fault_or_body [OF e'(1)] assms(2,3) have "sqlite_or_typed e'"
      by (auto simp: list_all_iff) (metis sqlite_fault.elims(2) db_fault.distinct db_fault.inject sqlite_or_typedI(2))+
    with e'(2) show ?thesis by (cases e') (auto simp: record_error_def sqlite_or_typed_def)
  qed
  with connected_rest [OF x] list_all_tl [OF assms(2)] show ?thesis by simp
qed

lemma now_contract:
  assumes "now w = (r, w')"
  obtains t where "r = Inr t" "time_text t" "db w' = db w" "db_faults w' = db_faults w" "sw_free w' = sw_free w"
proof -
  from assms have "sw_free w' = sw_free w" by (auto simp: now_def split: list.splits)
  with now_cases [OF assms] that show thesis by metis
qed

lemma raises_change: "raises sqlite_or_typed (change i P f)"
  unfolding change_def on_table_def
  by (intro raises_rules) (auto simp: state_conflict_def intro!: raises_rules)

text \<open>A change of one record, as the ledger sees it.\<close>

lemma transition_contract:
  assumes "transition i (in_status i ss) f w = (r, w')" "transfers_ok (db_transfers (db w))"
    "list_all sqlite_fault (db_faults w)"
  shows "list_all sqlite_fault (db_faults w') \<and> sw_free w' = sw_free w \<and>
    (\<forall>e. r = Inl e \<longrightarrow> is_db_error e \<and> db w' = db w)"
  using recording_contract [OF assms(1) [unfolded transition_def] assms(3)] raises_change
    transition_Inl [of i "in_status i ss" f w _ w'] assms(1)
  by (auto dest: raisesD)

lemma transition_status:
  assumes "transition i (in_status i ss) f w = (Inr (), w')" "transfers_ok (db_transfers (db w))"
    "transfers_ok (db_transfers (db w'))"
    and step: "\<And>row s. s \<in> set ss \<Longrightarrow> row_in s row \<Longrightarrow> t_id row = i \<Longrightarrow> t_id (f row) = i \<and> row_in (g s) (f row)"
  shows "\<exists>s\<in>set ss. ledger_status i (ledger_view w) = Some s \<and> ledger_status i (ledger_view w') = Some (g s)"
proof -
  from assms(1) obtain pre row post where split: "db_transfers (db w) = pre @ row # post"
    "in_status i ss row" "db w' = (db w)\<lparr>db_transfers := pre @ f row # post\<rparr>"
    by (auto elim!: transition_Inr)
  then have "row_ok row" using assms(2) by (simp add: transfers_ok_def)
  with split(2) obtain s where s: "s \<in> set ss" "row_in s row" "t_id row = i" by (rule in_status_row)
  from step [OF this] have "t_id (f row) = i" "row_in (g s) (f row)" by auto
  with s split show ?thesis
    using ledger_status_iff [OF assms(2), of i s] ledger_status_iff [OF assms(3), of i "g s"]
    by (intro bexI [of _ s]) auto
qed

section \<open>The contract of the ledger\<close>

lemma start_contract:
  assumes "start_transfer i rq w = (r, w')" "ledger_ok (ledger_view w)"
  shows "ledger_ok (ledger_view w') \<and> sw_free w' = sw_free w \<and>
    (case r of Inl e \<Rightarrow> is_db_error e \<and> ledger_status i (ledger_view w') = ledger_status i (ledger_view w)
     | Inr _ \<Rightarrow> ledger_status i (ledger_view w') = Some Running)"
proof -
  from assms(2) have ok: "transfers_ok (db_transfers (db w))" "list_all sqlite_fault (db_faults w)" by simp_all
  note ok' = start_transfer_evolves [OF assms(1) ok(1)]
  obtain x w1 where x: "now w = (x, w1)" by (rule prod.exhaust)
  from now_contract [OF x] x obtain t where t: "now w = (Inr t, w1)" "db w1 = db w"
    "db_faults w1 = db_faults w" "sw_free w1 = sw_free w" by metis
  have "list_all sqlite_fault (db_faults w') \<and> sw_free w' = sw_free w1 \<and> (\<forall>e. r = Inl e \<longrightarrow> is_db_error e)"
    by (rule recording_contract)
      (use assms(1) t ok in \<open>auto simp: start_transfer_def bind_apply on_table_def unique_violation_def
         split: if_splits\<close>)
  with ok' t have rest: "ledger_ok (ledger_view w')" "sw_free w' = sw_free w" "\<forall>e. r = Inl e \<longrightarrow> is_db_error e"
    by simp_all
  from assms(1) show ?thesis
  proof (cases rule: start_transfer_cases)
    case (fail e)
    with rest show ?thesis by (auto intro: ledger_status_cong)
  next
    case (ok t)
    then have "row_in Running (fresh_row i rq t)" "t_id (fresh_row i rq t) = i" by (simp_all add: fresh_row_def)
    with ok rest show ?thesis
      using ledger_status_iff [of w' i Running] by auto
  qed
qed

text \<open>The three changes of state that are one statement each.\<close>

lemma timed_transition_contract:
  assumes "bind now (\<lambda>t. transition i (in_status i ss) (f t)) w = (r, w')" "ledger_ok (ledger_view w)"
    "transfers_ok (db_transfers (db w'))"
    and step: "\<And>t row s. time_text t \<Longrightarrow> s \<in> set ss \<Longrightarrow> row_in s row \<Longrightarrow> t_id row = i \<Longrightarrow>
      t_id (f t row) = i \<and> row_in (g s) (f t row)"
  shows "ledger_ok (ledger_view w') \<and> sw_free w' = sw_free w \<and>
    (case r of Inl e \<Rightarrow> is_db_error e \<and> ledger_status i (ledger_view w') = ledger_status i (ledger_view w)
     | Inr _ \<Rightarrow> \<exists>s\<in>set ss. ledger_status i (ledger_view w) = Some s \<and>
         ledger_status i (ledger_view w') = Some (g s))"
proof -
  from assms(2) have ok: "transfers_ok (db_transfers (db w))" "list_all sqlite_fault (db_faults w)" by simp_all
  obtain x w1 where x: "now w = (x, w1)" by (rule prod.exhaust)
  from now_contract [OF x] x obtain t where t: "now w = (Inr t, w1)" "time_text t" "db w1 = db w"
    "db_faults w1 = db_faults w" "sw_free w1 = sw_free w" by metis
  with assms(1) have tr: "transition i (in_status i ss) (f t) w1 = (r, w')" by (simp add: bind_apply)
  from transition_contract [OF tr] ok t have c: "list_all sqlite_fault (db_faults w')"
    "sw_free w' = sw_free w" "\<And>e. r = Inl e \<Longrightarrow> is_db_error e \<and> db w' = db w" by simp_all
  show ?thesis
  proof (cases r)
    case (Inl e)
    with c assms(3) show ?thesis by (auto intro: ledger_status_cong)
  next
    case (Inr u)
    have "\<exists>s\<in>set ss. ledger_status i (ledger_view w1) = Some s \<and> ledger_status i (ledger_view w') = Some (g s)"
      by (rule transition_status [where f = "f t"]) (use tr Inr t ok assms(3) step in auto)
    with c assms(3) Inr ledger_status_cong [OF t(3)] show ?thesis by simp
  qed
qed

lemma progress_contract:
  assumes "record_progress i n w = (r, w')" "ledger_ok (ledger_view w)"
  shows "ledger_ok (ledger_view w') \<and> sw_free w' = sw_free w \<and>
    ledger_status i (ledger_view w') = ledger_status i (ledger_view w)"
proof -
  have "transfers_ok (db_transfers (db w'))" using record_progress_evolves [OF assms(1)] assms(2) by simp
  from timed_transition_contract [OF assms(1) [unfolded record_progress_def] assms(2) this, of "\<lambda>s. s"]
  show ?thesis by (auto split: sum.splits)
qed

lemma publish_contract:
  assumes "mark_publishing i n w = (r, w')" "ledger_ok (ledger_view w)"
    "ledger_status i (ledger_view w) = Some Running"
  shows "ledger_ok (ledger_view w') \<and> sw_free w' = sw_free w \<and>
    ledger_status i (ledger_view w') = Some (case r of Inl _ \<Rightarrow> Running | Inr _ \<Rightarrow> Publishing)"
proof -
  have "transfers_ok (db_transfers (db w'))" using mark_publishing_evolves [OF assms(1)] assms(2) by simp
  from timed_transition_contract [OF assms(1) [unfolded mark_publishing_def] assms(2) this, of "\<lambda>_. Publishing"]
    assms(3) show ?thesis by (auto split: sum.splits)
qed

lemma fail_contract:
  assumes "fail_transfer i n p c m w = (r, w')" "ledger_ok (ledger_view w)"
  shows "ledger_ok (ledger_view w') \<and> sw_free w' = sw_free w \<and>
    (case r of Inl e \<Rightarrow> is_db_error e \<and> ledger_status i (ledger_view w') = ledger_status i (ledger_view w)
     | Inr _ \<Rightarrow> ledger_status i (ledger_view w') = Some Failed)"
proof -
  have "transfers_ok (db_transfers (db w'))" using fail_transfer_evolves [OF assms(1)] assms(2) by simp
  note contract = timed_transition_contract [OF assms(1) [unfolded fail_transfer_def] assms(2) this,
      of "\<lambda>_. Failed"]
  have "t_completed_at row = None" if "row_in s row" "s \<in> set [Running, Publishing]" for s row
    using that by (cases s) simp_all
  then show ?thesis using contract by (cases r) auto
qed

lemma finish_contract:
  assumes "finish_transfer i w = (r, w')" "ledger_ok (ledger_view w)"
  shows "ledger_ok (ledger_view w') \<and> sw_free w' = sw_free w \<and>
    (case r of Inl e \<Rightarrow> is_db_error e \<and> ledger_status i (ledger_view w') = ledger_status i (ledger_view w)
     | Inr rec \<Rightarrow> ledger_status i (ledger_view w') = Some Completed \<and> tr_id rec = i \<and>
         tr_status rec = Completed)"
proof -
  from assms(2) have ok: "transfers_ok (db_transfers (db w))" "list_all sqlite_fault (db_faults w)" by simp_all
  obtain x w1 where x: "now w = (x, w1)" by (rule prod.exhaust)
  from now_contract [OF x] x obtain t where t: "now w = (Inr t, w1)" "time_text t" "db w1 = db w"
    "db_faults w1 = db_faults w" "sw_free w1 = sw_free w" by metis
  note ok' = finish_transfer_evolves [OF assms(1) ok(1)]
  let ?f = "\<lambda>r. r\<lparr>t_status := status_text Completed, t_completed_at := Some t, t_updated_at := t\<rparr>"
  let ?body = "bind (change i (in_status i [Publishing]) ?f) (\<lambda>_.
      bind (find_transfer i) (\<lambda>row. case row of
        None \<Rightarrow> raise (PyError ''TypeError'') | Some r \<Rightarrow> of_result (record_of_row r)))"
  have run: "recording i ?body w1 = (r, w')" using assms(1) t by (simp add: finish_transfer_def bind_apply)
  have read_back: "\<exists>row rec. find (\<lambda>r. t_id r = i) (db_transfers d) = Some row \<and>
      record_of_row row = Inr rec \<and> row_in Completed row \<and> t_id row = i \<and>
      tr_id rec = i \<and> tr_status rec = Completed"
    if c: "change i (in_status i [Publishing]) ?f (db w1) = (Inr (), d)" for d
  proof -
    from change_Inr [OF c] obtain pre row post where split: "db_transfers (db w1) = pre @ row # post"
      "in_status i [Publishing] row" "d = (db w1)\<lparr>db_transfers := pre @ ?f row # post\<rparr>" by metis
    with ok t have row: "row_ok row" by (simp add: transfers_ok_def)
    from split(2) this obtain s where s: "row_in Publishing row" "t_id row = i" by (rule in_status_row) simp
    then have f: "row_in Completed (?f row)" "row_ok (?f row)" "t_id (?f row) = i"
      using row t(2) by (auto simp: row_ok_def intro!: exI [of _ Completed])
    have "i \<notin> t_id ` set pre" using ok split t s by (auto simp: transfers_ok_def)
    then have "find (\<lambda>r. t_id r = i) (db_transfers d) = Some (?f row)"
      using split(3) f(3) by (simp add: image_iff) (rule find_first, auto)
    moreover from record_of_row_ok [OF f(2)] obtain rec where
      "record_of_row (?f row) = Inr rec" "row_in (tr_status rec) (?f row)" "tr_id rec = t_id (?f row)" by metis
    moreover have "tr_status rec = Completed"
      using f(1) \<open>row_in (tr_status rec) (?f row)\<close> by (rule row_in_unique [symmetric])
    ultimately show ?thesis using f by auto
  qed
  have typed: "sqlite_or_typed e" if "?body (db w1) = (Inl e, d)" for e d
  proof (cases "change i (in_status i [Publishing]) ?f (db w1)")
    case (Pair y d')
    show ?thesis
    proof (cases y)
      case (Inl e')
      with that Pair have "e' = e" by (simp add: bind_apply)
      with Pair Inl raises_change show ?thesis by (blast dest: raisesD)
    next
      case (Inr u)
      with Pair read_back [of d'] that show ?thesis
        by (auto simp: bind_apply find_transfer_def on_table_def split: if_splits)
    qed
  qed
  from recording_contract [OF run _ typed] ok t ok' have rest: "ledger_ok (ledger_view w')"
    "sw_free w' = sw_free w" "\<forall>e. r = Inl e \<longrightarrow> is_db_error e" by simp_all
  show ?thesis
  proof (cases r)
    case (Inl e)
    with run have "db w' = db w1" by (auto simp: recording_def translate_eq_Inl dest!: connected_Inl)
    with Inl rest t show ?thesis by (auto intro: ledger_status_cong)
  next
    case (Inr rec)
    with run obtain d where d: "?body (db w1) = (Inr rec, d)" "db w' = d"
      by (auto simp: recording_def translate_eq_Inr dest!: connected_Inr)
    then obtain d1 where c: "change i (in_status i [Publishing]) ?f (db w1) = (Inr (), d1)"
      by (auto simp: bind_eq_Inr)
    from read_back [OF c] c d obtain row where row: "find (\<lambda>r. t_id r = i) (db_transfers d) = Some row"
      "record_of_row row = Inr rec" "row_in Completed row" "t_id row = i" "tr_id rec = i"
      "tr_status rec = Completed"
      by (auto simp: bind_apply find_transfer_def on_table_def split: if_splits)
    then have "row \<in> set (db_transfers (db w'))" using d by (auto simp: find_Some_iff)
    with row rest Inr show ?thesis using ledger_status_iff [of w' i Completed] by auto
  qed
qed

lemma get_contract:
  assumes "store_get st name w = (r, w')" "ledger_ok (ledger_view w)"
  shows "ledger_ok (ledger_view w') \<and> sw_free w' = sw_free w \<and>
    ledger_status i (ledger_view w') = ledger_status i (ledger_view w)"
proof -
  obtain x w1 where x: "connected (find_connection name) w = (x, w1)" by (rule prod.exhaust)
  have "db w1 = db w"
  proof (cases x)
    case (Inl e)
    with connected_Inl [of "find_connection name" w e w1] x show ?thesis by simp
  next
    case (Inr y)
    with connected_Inr [of "find_connection name" w y w1] x show ?thesis
      by (auto simp: find_connection_def on_table_def bind_apply split: if_splits)
  qed
  moreover have "w' = w1"
    using assms(1) x
    by (cases x) (auto simp: store_get_def bind_apply split: option.splits sum.splits)
  ultimately show ?thesis
    using connected_rest [OF x] assms(2) list_all_tl by (auto intro: ledger_status_cong)
qed

interpretation store_ledger: record_ledger "store_ledger st" ledger_view ledger_ok ledger_status ledger_rest
  for st :: connection_store
proof (unfold_locales, goal_cases)
  case (1 w name r1 w' i)
  then show ?case using get_contract [of st name w r1 w' i] by (simp add: store_ledger_def)
next
  case (2 w i rq r2 w')
  then show ?case using start_contract [of i rq w r2 w'] by (simp add: store_ledger_def)
next
  case (3 w i n r2 w')
  then show ?case using progress_contract [of i n w r2 w'] by (simp add: store_ledger_def)
next
  case (4 w i n r2 w')
  then show ?case using publish_contract [of i n w r2 w'] by (simp add: store_ledger_def)
next
  case (5 w i r3 w')
  then show ?case using finish_contract [of i w r3 w'] by (simp add: store_ledger_def split: sum.splits)
next
  case (6 w i n p c m r2 w')
  then show ?case using fail_contract [of i n p c m w r2 w'] by (simp add: store_ledger_def)
qed

section \<open>The contract of the connectors\<close>

lemma ledger_view_more: "ledger_view w = ledger_view (os_world.extend undefined (os_world.more w))"
  by (cases w) (simp add: ledger_view_def os_world.extend_def)

lemma keeps_ledger_view: "keeps os_world.more m \<Longrightarrow> keeps ledger_view m"
  by (erule keeps_part [where f = "\<lambda>x. ledger_view (os_world.extend undefined x)"]) (rule ledger_view_more)

lemma keeps_ledger_view_method:
  "keeps (\<lambda>s. os_world.more (snd s)) m \<Longrightarrow> keeps (\<lambda>s. ledger_view (snd s)) m"
  by (erule keeps_part [where f = "\<lambda>x. ledger_view (os_world.extend undefined x)"]) (rule ledger_view_more)

interpretation local_quiet: quiet_connector "local_methods c" ledger_view for c :: local_connector
  by unfold_locales
    (auto simp: local_methods_def intro: keeps_ledger_view keeps_ledger_view_method keeps_local_read_enter
      keeps_FileSource_read keeps_local_read_exit keeps_local_write_enter keeps_FileSink_write
      keeps_FileSink_finish keeps_local_write_exit dest: local_read_exit_raises local_write_exit_raises)

lemma local_bounded: "bounded_source (local_methods c)"
  unfolding bounded_source_def
  by (intro exI [of _ src_remaining]) (auto simp: local_methods_def dest: FileSource_read_progress)

text \<open>Embedding in the joint type keeps the contracts.\<close>

lemma keeps_on_left:
  fixes v :: "'w \<Rightarrow> 'v"
  shows "keeps (\<lambda>s. v (snd s)) m \<Longrightarrow> keeps (\<lambda>s. v (snd s)) (on_left m)"
  by (rule keepsI) (auto simp: on_left_def split: prod.splits sum.splits dest: keepsD)

lemma keeps_on_right:
  fixes v :: "'w \<Rightarrow> 'v"
  shows "keeps (\<lambda>s. v (snd s)) m \<Longrightarrow> keeps (\<lambda>s. v (snd s)) (on_right m)"
  by (rule keepsI) (auto simp: on_right_def split: prod.splits sum.splits dest: keepsD)

lemma on_left_Inr: "on_left m s = (Inr x, s') \<Longrightarrow> \<exists>t t'. m t = (Inr x, t')"
  by (auto simp: on_left_def split: prod.splits sum.splits)

lemma on_right_Inr: "on_right m s = (Inr x, s') \<Longrightarrow> \<exists>t t'. m t = (Inr x, t')"
  by (auto simp: on_right_def split: prod.splits sum.splits)

lemma left_quiet:
  assumes "quiet_connector cn view"
  shows "quiet_connector (left_connector cn) view"
proof -
  note [simp] = quiet_connector.read_enter [OF assms] quiet_connector.source_read [OF assms]
    quiet_connector.read_exit [OF assms] quiet_connector.write_enter [OF assms]
    quiet_connector.sink_write [OF assms] quiet_connector.sink_finish [OF assms]
    quiet_connector.write_exit [OF assms]
  show ?thesis
    by unfold_locales
      (auto simp: left_connector_def keeps_bind keeps_ret keeps_on_left
        dest!: on_left_Inr quiet_connector.read_exit_None [OF assms] quiet_connector.write_exit_None [OF assms])
qed

lemma right_quiet:
  assumes "quiet_connector cn view"
  shows "quiet_connector (right_connector cn) view"
proof -
  note [simp] = quiet_connector.read_enter [OF assms] quiet_connector.source_read [OF assms]
    quiet_connector.read_exit [OF assms] quiet_connector.write_enter [OF assms]
    quiet_connector.sink_write [OF assms] quiet_connector.sink_finish [OF assms]
    quiet_connector.write_exit [OF assms]
  show ?thesis
    by unfold_locales
      (auto simp: right_connector_def keeps_bind keeps_ret keeps_on_right
        dest!: on_right_Inr quiet_connector.read_exit_None [OF assms] quiet_connector.write_exit_None [OF assms])
qed

lemma left_bounded:
  fixes cn :: "('w, 'c, 'k) connector"
  assumes "bounded_source cn"
  shows "bounded_source (left_connector cn)"
proof -
  from assms obtain left :: "'c \<Rightarrow> nat" where left: "\<And>n r w data r' w'.
      cn_source_read cn n (r, w) = (Inr data, (r', w')) \<Longrightarrow> data \<noteq> [] \<Longrightarrow> left r' < left r"
    unfolding bounded_source_def by blast
  show ?thesis
    unfolding bounded_source_def
    by (intro exI [of _ "\<lambda>s. case s of Inl r \<Rightarrow> left r | Inr _ \<Rightarrow> 0"])
      (auto simp: left_connector_def on_left_eq dest: left)
qed

lemma right_bounded:
  fixes cn :: "('w, 'c, 'k) connector"
  assumes "bounded_source cn"
  shows "bounded_source (right_connector cn)"
proof -
  from assms obtain left :: "'c \<Rightarrow> nat" where left: "\<And>n r w data r' w'.
      cn_source_read cn n (r, w) = (Inr data, (r', w')) \<Longrightarrow> data \<noteq> [] \<Longrightarrow> left r' < left r"
    unfolding bounded_source_def by blast
  show ?thesis
    unfolding bounded_source_def
    by (intro exI [of _ "\<lambda>s. case s of Inr r \<Rightarrow> left r | Inl _ \<Rightarrow> 0"])
      (auto simp: right_connector_def on_right_eq dest: left)
qed

section \<open>The service of the application\<close>

text \<open>
  \<open>api._application\<close> builds the service from the store, the registry and the default capacity. How
  an SFTP connection is opened is an argument.
\<close>

definition application ::
  "connection_store \<Rightarrow>
   (connection \<Rightarrow> ('w service_world_scheme, ('w service_world_scheme, 'q, 'p) connector) io) \<Rightarrow>
   ('w service_world_scheme, file_source + 'q, local_write + 'p) transfer_service" where
  "application st sftp_open =
     \<lparr>sv_ledger = store_ledger st, sv_factory = open_connector sftp_open,
      sv_capacity = MAX_CONCURRENT_TRANSFERS\<rparr>"

text \<open>The service when only local connections are opened.\<close>

definition local_application ::
  "connection_store \<Rightarrow> ('w service_world_scheme, file_source, local_write) transfer_service" where
  "local_application st =
     \<lparr>sv_ledger = store_ledger st,
      sv_factory = (\<lambda>c. bind (of_result (LocalConnector_open c)) (\<lambda>lc. ret (local_methods lc))),
      sv_capacity = MAX_CONCURRENT_TRANSFERS\<rparr>"

definition sftp_contract ::
  "(connection \<Rightarrow> ('w service_world_scheme, ('w service_world_scheme, 'q, 'p) connector) io) \<Rightarrow> bool" where
  "sftp_contract sftp_open \<longleftrightarrow>
     (\<forall>c. keeps ledger_view (sftp_open c)) \<and>
     (\<forall>c w cn w'. sftp_open c w = (Inr cn, w') \<longrightarrow> quiet_connector cn ledger_view \<and> bounded_source cn)"

lemma open_connector_Inr:
  assumes "open_connector sftp_open c w = (Inr cn, w')"
  obtains (Local) lc where "cn = left_connector (local_methods lc)"
  | (Sftp) cn1 where "sftp_open c w = (Inr cn1, w')" "cn = right_connector cn1"
proof (cases c)
  case (LocalConnection n p)
  with assms have "cn = left_connector (local_methods \<lparr>lc_root = p\<rparr>)" by simp
  with Local show thesis .
next
  case SFTPConnection
  with assms Sftp show thesis by (auto simp: bind_eq_Inr)
qed

lemma open_connector_quiet:
  assumes "sftp_contract sftp_open" "open_connector sftp_open c w = (Inr cn, w')"
  shows "quiet_connector cn ledger_view \<and> bounded_source cn"
  using assms(2)
proof (cases rule: open_connector_Inr)
  case (Local lc)
  then show ?thesis
    by (simp add: left_quiet left_bounded local_bounded local_quiet.quiet_connector_axioms)
next
  case (Sftp cn1)
  from assms(1) Sftp(1) have "quiet_connector cn1 ledger_view" "bounded_source cn1"
    unfolding sftp_contract_def by blast+
  with Sftp show ?thesis by (simp add: right_quiet right_bounded)
qed

lemma keeps_open_connector:
  assumes "sftp_contract sftp_open"
  shows "keeps ledger_view (open_connector sftp_open c)"
proof (cases c)
  case LocalConnection
  then show ?thesis by (simp add: keeps_def)
next
  case SFTPConnection
  with assms show ?thesis by (auto simp: sftp_contract_def intro!: keeps_bind keeps_ret)
qed

lemma keeps_monotonic: "keeps ledger_view monotonic"
  by (simp add: keeps_def monotonic_def ledger_view_def split: list.splits)

lemma application_env:
  assumes "sftp_contract sftp_open"
  shows "transfer_env (application st sftp_open) ledger_view ledger_ok ledger_status ledger_rest"
proof -
  have "record_ledger (sv_ledger (application st sftp_open)) ledger_view ledger_ok ledger_status ledger_rest"
    by (simp add: application_def store_ledger.record_ledger_axioms)
  moreover have "transfer_env_axioms (application st sftp_open) ledger_view"
    by (rule transfer_env_axioms.intro)
      (use assms in \<open>auto simp: application_def keeps_monotonic keeps_ledger_view [OF keeps_warning]
        keeps_open_connector dest: open_connector_quiet\<close>)
  ultimately show ?thesis by (simp add: transfer_env_def)
qed

interpretation local_application: transfer_env "local_application st" ledger_view ledger_ok ledger_status ledger_rest
  for st :: connection_store
proof -
  have "record_ledger (sv_ledger (local_application st)) ledger_view ledger_ok ledger_status ledger_rest"
    by (simp add: local_application_def store_ledger.record_ledger_axioms)
  moreover have "transfer_env_axioms (local_application st) ledger_view"
    by (rule transfer_env_axioms.intro)
      (auto simp: local_application_def bind_eq_Inr keeps_monotonic local_quiet.quiet_connector_axioms
        intro!: keeps_ledger_view [OF keeps_warning] keeps_rules)
  ultimately show "transfer_env (local_application st) ledger_view ledger_ok ledger_status ledger_rest"
    by (simp add: transfer_env_def)
qed

end
