(* ===== verification/Local_Props.thy ===== *)
theory Local_Props
  imports Local
begin

text \<open>
  What the local connector does to the file system in a calm world (faults may happen, other
  processes do not interfere): the staging file, its publication and its removal, and the bytes a
  source delivers. The source lemmas also allow files that grow.
\<close>

section \<open>Steps that touch one inode and one descriptor\<close>

definition touches :: "nat \<Rightarrow> nat \<Rightarrow> 'w os_world_scheme \<Rightarrow> 'w os_world_scheme \<Rightarrow> bool" where
  "touches i d w w' \<longleftrightarrow>
     calm w' \<and> lookup (fs w') = lookup (fs w) \<and> links (fs w') = links (fs w) \<and>
     next_ino (fs w') = next_ino (fs w) \<and> next_fd w' = next_fd w \<and> log w' = log w \<and>
     os_world.more w' = os_world.more w \<and>
     (\<forall>j. j \<noteq> i \<longrightarrow> inodes (fs w') j = inodes (fs w) j) \<and>
     (\<forall>e. e \<noteq> d \<longrightarrow> fds w' e = fds w e)"

lemma more_advance [simp]: "os_world.more (advance w) = os_world.more w"
  by (simp add: advance_def split: list.splits)

lemma touches_trans: "touches i d w w' \<Longrightarrow> touches i d w' w'' \<Longrightarrow> touches i d w w''"
  by (simp add: touches_def)

lemma touches_refl: "calm w \<Longrightarrow> touches i d w w"
  by (simp add: touches_def)

lemma touches_advance: "calm w \<Longrightarrow> touches i d w (advance w)"
  by (simp add: touches_def)

lemma touches_calm: "touches i d w w' \<Longrightarrow> calm w'"
  by (simp add: touches_def)

section \<open>Writing\<close>

text \<open>The sink is open on descriptor \<open>d\<close> of inode \<open>i\<close>, which holds exactly \<open>data\<close>.\<close>

definition sink_at ::
  "nat \<Rightarrow> nat \<Rightarrow> 'k file_sink_scheme \<Rightarrow> 'w os_world_scheme \<Rightarrow> bytes \<Rightarrow> bool" where
  "sink_at d i k w data \<longleftrightarrow>
     sk_descriptor k = Some d \<and> fds w d = Some \<lparr>of_inode = i, of_pos = length data\<rparr> \<and>
     content (inodes (fs w) i) = data \<and> kind (inodes (fs w) i) = Regular \<and>
     sk_bytes_written k = length data"

lemma FileSink_write_once_calm:
  assumes "FileSink_write_once view (k, w) = (r, (k', w'))" "calm w" "sink_at d i k w data"
    "view \<noteq> []"
  obtains (fail) e where "r = Inl e" "k' = k" "touches i d w w'" "sink_at d i k' w' data"
    "mode (inodes (fs w') i) = mode (inodes (fs w) i)"
  | (ok) n where "r = Inr n" "k' = k" "0 < n" "n \<le> length view" "touches i d w w'"
      "sink_at d i (k\<lparr>sk_bytes_written := sk_bytes_written k + n\<rparr>) w' (data @ take n view)"
      "mode (inodes (fs w') i) = mode (inodes (fs w) i)"
proof -
  from assms(3) have k: "sk_descriptor k = Some d"
    and fd: "fds w d = Some \<lparr>of_inode = i, of_pos = length data\<rparr>" by (simp_all add: sink_at_def)
  obtain x w1 where wr: "sys_write d view w = (x, w1)" by (rule prod.exhaust)
  have once: "FileSink_write_once view (k, w) =
      (case x of Inl e \<Rightarrow> Inl (on_oserror (\<lambda>n. write_error n (lit ''write the staging file'')) e)
       | Inr n \<Rightarrow> Inr n, (k, w1))"
    unfolding FileSink_write_once_def write_errors_def translate_apply bind_apply FileSink_open_apply k
      option.case prod.case sum.case on_world_apply wr
    by (cases x) simp_all
  with assms(1) have r: "k' = k" "w' = w1"
    and rx: "x = Inr n \<Longrightarrow> r = Inr n" "x = Inl e \<Longrightarrow> \<exists>e'. r = Inl e'" for n e
    by auto
  from assms(2) fd wr show ?thesis
  proof (cases rule: sys_write_calm)
    case (fail e)
    with rx(2) obtain e' where "r = Inl e'" by auto
    with fail assms(2,3) r show ?thesis
      by (intro that(1) [of e']) (simp_all add: sink_at_def touches_advance)
  next
    case (ok n)
    from rx(1) [OF ok(3)] have "r = Inr n" .
    moreover have "sink_at d i (k\<lparr>sk_bytes_written := sk_bytes_written k + n\<rparr>) w1
        (data @ take n view)"
      using ok assms(3) by (simp add: sink_at_def)
    moreover have "touches i d w w1" using ok(4) assms(2) by (simp add: touches_def)
    ultimately show ?thesis
      using ok r \<open>view \<noteq> []\<close> by (intro that(2) [of n]) simp_all
  qed
qed

lemma FileSink_write_calm:
  assumes "FileSink_write view (k, w) = (r, (k', w'))" "calm w" "sink_at d i k w data"
  shows "\<exists>n \<le> length view. touches i d w w' \<and> sink_at d i k' w' (data @ take n view) \<and>
    k' = k\<lparr>sk_bytes_written := length data + n\<rparr> \<and>
    mode (inodes (fs w') i) = mode (inodes (fs w) i) \<and> (r = Inr () \<longrightarrow> n = length view)"
  using assms
proof (induction view "(k, w)" arbitrary: k w data rule: FileSink_write.induct)
  case (1 view k w)
  show ?case
  proof (cases "view = []")
    case True
    with "1.prems" show ?thesis by (auto simp: touches_refl sink_at_def)
  next
    case view: False
    obtain r1 k1 w1 where once: "FileSink_write_once view (k, w) = (r1, (k1, w1))"
      by (metis prod.exhaust)
    from once "1.prems"(2,3) view show ?thesis
    proof (cases rule: FileSink_write_once_calm)
      case (fail e)
      with "1.prems" view once show ?thesis
        by (intro exI [of _ 0]) (auto simp: FileSink_write.simps [of view] sink_at_def)
    next
      case (ok n)
      let ?k = "k\<lparr>sk_bytes_written := sk_bytes_written k + n\<rparr>"
      from "1.prems"(1) view once ok
      have rec: "FileSink_write (drop n view) (?k, w1) = (r, (k', w'))"
        by (simp add: FileSink_write.simps [of view])
      from "1.hyps" [OF view once [symmetric, unfolded ok(1)] refl] rec ok
      obtain m where m: "m \<le> length (drop n view)" "touches i d w1 w'"
        "sink_at d i k' w' ((data @ take n view) @ take m (drop n view))"
        "k' = ?k\<lparr>sk_bytes_written := length (data @ take n view) + m\<rparr>"
        "mode (inodes (fs w') i) = mode (inodes (fs w1) i)"
        "r = Inr () \<longrightarrow> m = length (drop n view)"
        using touches_calm by blast
      have "take n view @ take m (drop n view) = take (n + m) view"
        by (simp add: take_add)
      with m ok touches_trans [OF ok(5) m(2)] show ?thesis
        by (intro exI [of _ "n + m"]) (auto simp: add.assoc)
    qed
  qed
qed

section \<open>Finishing the staging file\<close>

lemma persist_calm:
  assumes "persist d expected existing w = (r, w')" "calm w"
    "fds w d = Some \<lparr>of_inode = i, of_pos = p\<rparr>" "kind (inodes (fs w) i) = Regular"
  shows "touches i d w w' \<and> fds w' d = fds w d \<and>
    content (inodes (fs w') i) = content (inodes (fs w) i) \<and>
    kind (inodes (fs w') i) = kind (inodes (fs w) i) \<and>
    (r = Inr () \<longrightarrow> length (content (inodes (fs w) i)) = expected \<and>
       durable (inodes (fs w') i) = content (inodes (fs w) i) \<and>
       mode (inodes (fs w') i) =
         (case existing of None \<Rightarrow> mode (inodes (fs w) i) | Some ex \<Rightarrow> st_mode ex))"
proof -
  obtain x1 w1 where s1: "sys_fsync d w = (x1, w1)" by (rule prod.exhaust)
  from assms(2,3) s1 show ?thesis
  proof (cases rule: sys_fsync_calm)
    case (fail e)
    with assms s1 show ?thesis
      by (auto simp: persist_def write_errors_def translate_apply bind_apply touches_advance)
  next
    case other
    with assms(4) show ?thesis by simp
  next
    case ok1: synced
    then have w1: "calm w1" "fds w1 d = Some \<lparr>of_inode = i, of_pos = p\<rparr>" and t1: "touches i d w w1"
      using assms by (auto simp: touches_def)
    obtain x2 w2 where s2: "sys_fstat d w1 = (x2, w2)" by (rule prod.exhaust)
    from w1 s2 show ?thesis
    proof (cases rule: sys_fstat_calm)
      case (fail e)
      with assms s1 ok1 s2 t1 show ?thesis
        by (auto simp: persist_def write_errors_def translate_apply bind_apply touches_def)
    next
      case ok2: ok
      then have w2: "calm w2" "fds w2 d = Some \<lparr>of_inode = i, of_pos = p\<rparr>" and t2: "touches i d w w2"
        using w1 t1 by (auto simp: touches_def)
      show ?thesis
      proof (cases existing)
        case None
        with assms s1 ok1 s2 ok2 t2 show ?thesis
          by (auto simp: persist_def write_errors_def translate_apply bind_apply stat_of_def
              split: if_splits)
      next
        case (Some ex)
        obtain x3 w3 where s3: "sys_fchmod d (st_mode ex) w2 = (x3, w3)" by (rule prod.exhaust)
        from w2 s3 show ?thesis
        proof (cases rule: sys_fchmod_calm)
          case (fail e)
          with assms s1 ok1 s2 ok2 t2 s3 Some show ?thesis
            by (auto simp: persist_def write_errors_def translate_apply bind_apply touches_def)
        next
          case ok3: ok
          with assms s1 ok1 s2 ok2 t2 s3 Some show ?thesis
            by (auto simp: persist_def write_errors_def translate_apply bind_apply stat_of_def
                touches_def split: if_splits)
        qed
      qed
    qed
  qed
qed

lemma FileSink_finish_calm:
  assumes "FileSink_finish (k, w) = (r, (k', w'))" "calm w" "sk_descriptor k = Some d"
    "fds w d = Some \<lparr>of_inode = i, of_pos = p\<rparr>" "kind (inodes (fs w) i) = Regular"
  shows "touches i d w w' \<and> fds w' d = None \<and> k' = k\<lparr>sk_descriptor := None\<rparr> \<and>
    content (inodes (fs w') i) = content (inodes (fs w) i) \<and>
    kind (inodes (fs w') i) = kind (inodes (fs w) i) \<and>
    (r = Inr () \<longrightarrow> length (content (inodes (fs w) i)) = sk_bytes_written k \<and>
       durable (inodes (fs w') i) = content (inodes (fs w) i) \<and>
       mode (inodes (fs w') i) =
         (case sk_existing k of None \<Rightarrow> mode (inodes (fs w) i) | Some ex \<Rightarrow> st_mode ex))"
proof -
  obtain x1 w1 where s1: "persist d (sk_bytes_written k) (sk_existing k) w = (x1, w1)"
    by (rule prod.exhaust)
  note p = persist_calm [OF s1 assms(2,4,5)]
  then have w1: "calm w1" by (simp add: touches_def)
  obtain x2 w2 where s2: "sys_close d w1 = (x2, w2)" by (rule prod.exhaust)
  note c = sys_close_calm [OF w1 s2]
  have step: "FileSink_finish (k, w) =
      (case x1 of
         Inl e \<Rightarrow> (Inl e, (k\<lparr>sk_descriptor := None\<rparr>, w2))
       | Inr _ \<Rightarrow> (case x2 of
           Inl e \<Rightarrow> (Inl (on_oserror (\<lambda>n. write_error n (lit ''close the staging file'')) e),
                     (k\<lparr>sk_descriptor := None\<rparr>, w2))
         | Inr u \<Rightarrow> (Inr u, (k\<lparr>sk_descriptor := None\<rparr>, w2))))"
    using assms(3) s1 s2 c
    by (cases x1)
      (auto simp: FileSink_finish_def bind_apply try_except_apply on_world_apply translate_apply
        write_errors_def suppress_oserror_def split: sum.splits)
  with assms(1) have w': "w' = w2" "k' = k\<lparr>sk_descriptor := None\<rparr>" and r: "r = Inr () \<Longrightarrow> x1 = Inr ()"
    by (auto split: sum.splits)
  have "touches i d w w2"
    using p c by (auto simp: touches_def)
  then show ?thesis using p c w' r by auto
qed

lemma FileSink_release_calm:
  assumes "calm w" "sk_descriptor k = Some d"
  shows "\<exists>w'. FileSink_release (k, w) = (Inr (), (k\<lparr>sk_descriptor := None\<rparr>, w')) \<and>
    touches i d w w' \<and> fds w' d = None \<and> inodes (fs w') = inodes (fs w)"
proof -
  obtain x w1 where s: "sys_close d w = (x, w1)" by (rule prod.exhaust)
  from sys_close_calm [OF assms(1) s] assms s show ?thesis
    by (auto simp: FileSink_release_def bind_apply suppress_oserror_def try_except_apply
        on_world_apply touches_def)
qed

lemma FileSink_release_closed [simp]:
  "sk_descriptor k = None \<Longrightarrow> FileSink_release (k, w) = (Inr (), (k, w))"
  by (simp add: FileSink_release_def bind_apply)

section \<open>Publication and cleanup\<close>

lemma sync_directory_calm:
  assumes "sync_directory p w = (r, w')" "calm w"
    "lookup (fs w) p = Some j" "kind (inodes (fs w) j) = Directory" "fds w (next_fd w) = None"
  shows "r = Inr () \<and> calm w' \<and> fs w' = fs w \<and> fds w' = fds w \<and>
    next_fd w \<le> next_fd w' \<and> os_world.more w' = os_world.more w \<and> set (log w) \<subseteq> set (log w')"
proof -
  obtain x1 w1 where s1: "sys_open_read p w = (x1, w1)" by (rule prod.exhaust)
  from assms(2) s1 show ?thesis
  proof (cases rule: sys_open_read_calm)
    case (fail e)
    with assms s1 show ?thesis
      by (auto simp: sync_directory_def bind_apply try_except_apply warning_def)
  next
    case (ok i)
    then have w1: "calm w1" "fds w1 (next_fd w) = Some \<lparr>of_inode = j, of_pos = 0\<rparr>"
      using assms by simp_all
    obtain x2 w2 where s2: "sys_fsync (next_fd w) w1 = (x2, w2)" by (rule prod.exhaust)
    from w1 s2 have w2: "w2 = advance w1 \<and> (x2 = Inr () \<or> (\<exists>n. x2 = Inl (OSError n)))"
      by (cases rule: sys_fsync_calm) (use ok assms in simp_all)
    obtain x3 w3 where s3: "sys_close (next_fd w) w2 = (x3, w3)" by (rule prod.exhaust)
    have "calm w2" using w1 w2 by simp
    from sys_close_calm [OF this s3] s1 s2 s3 w1 w2 ok assms show ?thesis
      by (auto simp: sync_directory_def bind_apply try_except_apply try_finally_apply warning_def
          fun_upd_idem)
  qed
qed

lemma remove_stage_calm:
  assumes "remove_stage p w = (r, w')" "calm w"
  shows "r = Inr () \<and> calm w' \<and> inodes (fs w') = inodes (fs w) \<and> fds w' = fds w \<and>
    next_fd w' = next_fd w \<and> os_world.more w' = os_world.more w \<and> links (fs w') = links (fs w) \<and>
    next_ino (fs w') = next_ino (fs w) \<and>
    (\<forall>q. q \<noteq> p \<longrightarrow> lookup (fs w') q = lookup (fs w) q) \<and> set (log w) \<subseteq> set (log w') \<and>
    (lookup (fs w') p = None \<or> ''staging_cleanup_failed'' \<in> set (log w'))"
proof -
  obtain x1 w1 where s1: "sys_unlink p w = (x1, w1)" by (rule prod.exhaust)
  from assms(2) s1 show ?thesis
    by (cases rule: sys_unlink_calm)
      (use assms s1 in \<open>auto simp: remove_stage_def try_except_apply warning_def split: if_splits\<close>)
qed

lemma local_publish_calm:
  assumes "local_publish stage destination filename overwrite w = (r, w')" "calm w"
    "lookup (fs w) destination \<noteq> lookup (fs w) stage" "destination \<noteq> stage"
  obtains (fail) e where "r = Inl e" "w' = advance w"
  | (ok) i where "r = Inr ()" "lookup (fs w) stage = Some i" "calm w'"
      "lookup (fs w') destination = Some i"
      "\<And>q. q \<noteq> stage \<Longrightarrow> q \<noteq> destination \<Longrightarrow> lookup (fs w') q = lookup (fs w) q"
      "inodes (fs w') = inodes (fs w)" "fds w' = fds w" "next_fd w' = next_fd w" "log w' = log w"
      "os_world.more w' = os_world.more w" "links (fs w') = links (fs w)"
      "next_ino (fs w') = next_ino (fs w)"
      "overwrite \<or> lookup (fs w) destination = None"
proof (cases overwrite)
  case True
  obtain x1 w1 where s1: "sys_replace stage destination w = (x1, w1)" by (rule prod.exhaust)
  from assms(2) s1 show ?thesis
    by (cases rule: sys_replace_calm)
      (use assms s1 True in \<open>auto simp: local_publish_def translate_apply intro: that\<close>)
next
  case False
  obtain x1 w1 where s1: "sys_link stage destination w = (x1, w1)" by (rule prod.exhaust)
  from assms(2) s1 show ?thesis
    by (cases rule: sys_link_calm)
      (use assms s1 False in \<open>auto simp: local_publish_def translate_apply intro: that\<close>)
qed

section \<open>The exit of the write block\<close>

text \<open>The block is open: the sink writes inode \<open>i\<close>, which only the staging entry names.\<close>

definition staging ::
  "nat \<Rightarrow> nat \<Rightarrow> local_write \<Rightarrow> 'w os_world_scheme \<Rightarrow> bytes \<Rightarrow> bool" where
  "staging d i k w data \<longleftrightarrow>
     calm w \<and> sink_at d i k w data \<and> d < next_fd w \<and> (\<forall>e \<ge> next_fd w. fds w e = None) \<and>
     lookup (fs w) (lw_stage k) = Some i \<and> lookup (fs w) (lw_destination k) \<noteq> Some i \<and>
     lw_destination k \<noteq> lw_stage k \<and>
     (\<exists>j. lookup (fs w) (lw_root k) = Some j \<and> j \<noteq> i \<and> kind (inodes (fs w) j) = Directory) \<and>
     lw_root k \<noteq> lw_stage k \<and> lw_root k \<noteq> lw_destination k"

text \<open>What both ends of the block keep: every other entry, file and descriptor.\<close>

definition only_stage ::
  "nat \<Rightarrow> nat \<Rightarrow> path set \<Rightarrow> 'w os_world_scheme \<Rightarrow> 'w os_world_scheme \<Rightarrow> bool" where
  "only_stage d i ps w w' \<longleftrightarrow>
     calm w' \<and> os_world.more w' = os_world.more w \<and> fds w' = (fds w)(d := None) \<and>
     (\<forall>q. q \<notin> ps \<longrightarrow> lookup (fs w') q = lookup (fs w) q) \<and>
     (\<forall>j. j \<noteq> i \<longrightarrow> inodes (fs w') j = inodes (fs w) j)"

text \<open>The \<open>finally\<close> block of the method.\<close>

definition cleanup :: "(local_write \<times> 'w os_world_scheme, unit) io" where
  "cleanup =
     bind FileSink_release (\<lambda>_. bind self (\<lambda>k. on_world (remove_stage (lw_stage k))))"

lemma local_write_exit_eq:
  "local_write_exit failure =
     try_finally
       (bind (rethrow failure) (\<lambda>_.
        bind FileSink_finish (\<lambda>_.
        bind self (\<lambda>k.
        bind (on_world (local_publish (lw_stage k) (lw_destination k) (lw_filename k)
                          (lw_overwrite k))) (\<lambda>_.
        on_world (sync_directory (lw_root k)))))))
       cleanup"
  by (simp add: local_write_exit_def cleanup_def)

lemma cleanup_calm:
  fixes k :: local_write
  assumes "cleanup (k, w) =
      (r, (k', w'))" "calm w"
  shows "r = Inr () \<and> calm w' \<and> inodes (fs w') = inodes (fs w) \<and>
    os_world.more w' = os_world.more w \<and>
    fds w' = (case sk_descriptor k of None \<Rightarrow> fds w | Some d \<Rightarrow> (fds w)(d := None)) \<and>
    (\<forall>q. q \<noteq> lw_stage k \<longrightarrow> lookup (fs w') q = lookup (fs w) q) \<and>
    (lookup (fs w') (lw_stage k) = None \<or> ''staging_cleanup_failed'' \<in> set (log w'))"
proof (cases "sk_descriptor k")
  case None
  obtain x w1 where s: "remove_stage (lw_stage k) w = (x, w1)" by (rule prod.exhaust)
  from remove_stage_calm [OF s assms(2)] assms(1) s None show ?thesis
    by (auto simp: cleanup_def bind_apply on_world_apply)
next
  case (Some d)
  from FileSink_release_calm [OF assms(2) Some, of 0] obtain w1 where
    rel: "FileSink_release (k, w) = (Inr (), (k\<lparr>sk_descriptor := None\<rparr>, w1))"
    "touches 0 d w w1" "fds w1 d = None" "inodes (fs w1) = inodes (fs w)"
    by blast
  then have fds1: "fds w1 = (fds w)(d := None)" and c1: "calm w1"
    by (auto simp: touches_def fun_eq_iff)
  obtain x w2 where s: "remove_stage (lw_stage k) w1 = (x, w2)" by (rule prod.exhaust)
  from remove_stage_calm [OF s c1] assms(1) s rel fds1 Some show ?thesis
    by (auto simp: cleanup_def bind_apply on_world_apply touches_def)
qed

lemma local_write_exit_failed:
  assumes "local_write_exit (Some e) (k, w) = (r, (k', w'))" "staging d i k w data"
  shows "r = Inl e \<and> only_stage d i {lw_stage k} w w' \<and>
    (lookup (fs w') (lw_stage k) = None \<or> ''staging_cleanup_failed'' \<in> set (log w'))"
proof -
  obtain x k1 w1 where c: "cleanup (k, w) =
      (x, (k1, w1))" by (metis prod.exhaust)
  have "calm w" using assms(2) by (simp add: staging_def)
  from cleanup_calm [OF c this] assms c show ?thesis
    by (auto simp: local_write_exit_eq try_finally_apply bind_apply only_stage_def staging_def
        sink_at_def)
qed

text \<open>Once the sink is finished the exit publishes the staging file, or raises and leaves the destination.\<close>

lemma local_write_exit_finished:
  assumes "local_write_exit None (k, w) = (r, (k', w'))" "FileSink_finish (k, w) = (Inr (), (k1, w1))"
    and k1: "k1 = k\<lparr>sk_descriptor := None\<rparr>" and c1: "calm w1" "fds w1 (next_fd w1) = None"
    and stage: "lookup (fs w1) (lw_stage k) = Some i" "lookup (fs w1) (lw_destination k) \<noteq> Some i"
      "lw_destination k \<noteq> lw_stage k"
    and root: "lookup (fs w1) (lw_root k) = Some j" "kind (inodes (fs w1) j) = Directory"
      "lw_root k \<noteq> lw_stage k" "lw_root k \<noteq> lw_destination k"
  shows "(r = Inr () \<longrightarrow> lookup (fs w') (lw_destination k) = Some i \<and>
      (lw_overwrite k \<or> lookup (fs w1) (lw_destination k) = None)) \<and>
    (r \<noteq> Inr () \<longrightarrow> lookup (fs w') (lw_destination k) = lookup (fs w1) (lw_destination k)) \<and>
    calm w' \<and> os_world.more w' = os_world.more w1 \<and> fds w' = fds w1 \<and> inodes (fs w') = inodes (fs w1) \<and>
    (\<forall>q. q \<notin> {lw_stage k, lw_destination k} \<longrightarrow> lookup (fs w') q = lookup (fs w1) q) \<and>
    (lookup (fs w') (lw_stage k) = None \<or> ''staging_cleanup_failed'' \<in> set (log w'))"
proof -
  obtain x2 w2 where s2: "local_publish (lw_stage k) (lw_destination k) (lw_filename k)
      (lw_overwrite k) w1 = (x2, w2)" by (metis prod.exhaust)
  have ne: "lookup (fs w1) (lw_destination k) \<noteq> lookup (fs w1) (lw_stage k)" using stage by simp
  from s2 c1(1) ne stage(3) show ?thesis
  proof (cases rule: local_publish_calm)
    case (fail e)
    obtain x3 k3 w3 where s3: "cleanup (k1, w2) = (x3, (k3, w3))" by (metis prod.exhaust)
    have "calm w2" using fail c1 by simp
    from cleanup_calm [OF s3 this] assms(1,2) k1 s2 s3 fail stage show ?thesis
      by (auto simp: local_write_exit_eq try_finally_apply bind_apply on_world_apply)
  next
    case (ok i')
    have i': "i' = i" using ok stage by simp
    have root2: "lookup (fs w2) (lw_root k) = Some j" "kind (inodes (fs w2) j) = Directory"
      "fds w2 (next_fd w2) = None"
      using root ok c1 by simp_all
    obtain x3 w3 where s3: "sync_directory (lw_root k) w2 = (x3, w3)" by (rule prod.exhaust)
    note y = sync_directory_calm [OF s3 ok(3) root2]
    then have c3: "calm w3" by simp
    obtain x4 k4 w4 where s4: "cleanup (k1, w3) = (x4, (k4, w4))" by (metis prod.exhaust)
    from cleanup_calm [OF s4 c3] assms(1,2) k1 s2 s3 s4 ok i' y stage show ?thesis
      by (auto simp: local_write_exit_eq try_finally_apply bind_apply on_world_apply)
  qed
qed

text \<open>Without a failure of the block the exit publishes, or raises and leaves the destination.\<close>

lemma local_write_exit_calm:
  assumes "local_write_exit None (k, w) = (r, (k', w'))" "staging d i k w data"
  shows "(r = Inr () \<longrightarrow> lookup (fs w') (lw_destination k) = Some i \<and>
      content (inodes (fs w') i) = data \<and> durable (inodes (fs w') i) = data \<and>
      kind (inodes (fs w') i) = Regular \<and>
      mode (inodes (fs w') i) =
        (case sk_existing k of None \<Rightarrow> mode (inodes (fs w) i) | Some ex \<Rightarrow> st_mode ex) \<and>
      (lw_overwrite k \<or> lookup (fs w) (lw_destination k) = None) \<and>
      only_stage d i {lw_stage k, lw_destination k} w w') \<and>
    (r \<noteq> Inr () \<longrightarrow> only_stage d i {lw_stage k} w w') \<and>
    (lookup (fs w') (lw_stage k) = None \<or> ''staging_cleanup_failed'' \<in> set (log w'))"
proof -
  note st = assms(2) [unfolded staging_def sink_at_def]
  obtain x1 k1 w1 where s1: "FileSink_finish (k, w) = (x1, (k1, w1))" by (metis prod.exhaust)
  have f: "touches i d w w1" "fds w1 d = None" "k1 = k\<lparr>sk_descriptor := None\<rparr>"
    "content (inodes (fs w1) i) = data" "kind (inodes (fs w1) i) = Regular"
    "x1 = Inr () \<Longrightarrow> durable (inodes (fs w1) i) = data \<and> mode (inodes (fs w1) i) =
        (case sk_existing k of None \<Rightarrow> mode (inodes (fs w) i) | Some ex \<Rightarrow> st_mode ex)"
    using FileSink_finish_calm [OF s1, of d i "length data"] st by auto
  have c1: "calm w1" and fds1: "fds w1 = (fds w)(d := None)"
    using f by (auto simp: touches_def fun_eq_iff)
  show ?thesis
  proof (cases x1)
    case (Inl e)
    obtain x2 k2 w2 where s2: "cleanup (k1, w1) = (x2, (k2, w2))"
      by (metis prod.exhaust)
    from cleanup_calm [OF s2 c1] assms(1) s1 s2 Inl f fds1 show ?thesis
      by (auto simp: local_write_exit_eq try_finally_apply bind_apply only_stage_def touches_def)
  next
    case (Inr u)
    from st obtain j where j: "lookup (fs w) (lw_root k) = Some j" "j \<noteq> i"
      "kind (inodes (fs w) j) = Directory" by blast
    have run: "FileSink_finish (k, w) = (Inr (), (k1, w1))" using s1 Inr by simp
    have "fds w1 (next_fd w1) = None" "lookup (fs w1) (lw_stage k) = Some i"
      "lookup (fs w1) (lw_destination k) \<noteq> Some i" "lw_destination k \<noteq> lw_stage k"
      "lookup (fs w1) (lw_root k) = Some j" "kind (inodes (fs w1) j) = Directory"
      "lw_root k \<noteq> lw_stage k" "lw_root k \<noteq> lw_destination k"
      using j st f fds1 by (auto simp: touches_def)
    note e = local_write_exit_finished [OF assms(1) run f(3) c1 this]
    have only: "only_stage d i (if r = Inr () then {lw_stage k, lw_destination k} else {lw_stage k}) w w'"
      using e f fds1 by (auto simp: only_stage_def touches_def)
    have same: "lookup (fs w1) = lookup (fs w)" "inodes (fs w') = inodes (fs w1)"
      using e f(1) by (simp_all add: touches_def)
    from e f(4,5,6) Inr only same show ?thesis
      by (cases "r = Inr ()") simp_all
  qed
qed

section \<open>Entering the write block\<close>

text \<open>
  A file system as a kernel keeps it: an entry names an allocated inode, and a resolved path
  resolves to itself. Descriptors are numbered in the order they are opened.
\<close>

definition fs_ok :: "fs \<Rightarrow> bool" where
  "fs_ok f \<longleftrightarrow> (\<forall>p i. lookup f p = Some i \<longrightarrow> i < next_ino f) \<and>
     (\<forall>p q. links f p = Some q \<longrightarrow> links f q = Some q)"

definition os_ok :: "'w os_world_scheme \<Rightarrow> bool" where
  "os_ok w \<longleftrightarrow> calm w \<and> fs_ok (fs w) \<and> (\<forall>d \<ge> next_fd w. fds w d = None)"

lemma inspects_local_root [inspects_rules]: "inspects (local_root c)"
  unfolding local_root_def by (intro inspects_rules)

lemma inspects_local_resolve [inspects_rules]: "inspects (local_resolve c f)"
  unfolding local_resolve_def by (intro inspects_rules)

lemma inspects_existing_file [inspects_rules]: "inspects (existing_file p f b)"
  unfolding existing_file_def by (intro inspects_rules)

lemma sys_stat_calm:
  "calm w \<Longrightarrow> sys_stat p w = (Inr st, w') \<Longrightarrow>
   \<exists>q n. links (fs w) p = Some q \<and> file_at (fs w) q = Some n \<and> st = stat_of n"
  by (auto simp: sys_stat_def syscall_calm split: outcome.splits option.splits)

lemma sys_stat_missing:
  "calm w \<Longrightarrow> sys_stat p w = (Inl (OSError ENOENT), w') \<Longrightarrow>
   \<exists>q. links (fs w) p = Some q \<and> file_at (fs w) q = None"
  using next_outcome_calm [of w]
  by (auto simp: sys_stat_def syscall_calm split: outcome.splits option.splits)

lemma path_is_dir_calm:
  "calm w \<Longrightarrow> path_is_dir p w = (Inr True, w') \<Longrightarrow>
   \<exists>q n. links (fs w) p = Some q \<and> file_at (fs w) q = Some n \<and> kind n = Directory"
  by (auto simp: path_is_dir_def try_except_apply bind_apply stat_of_def
      split: prod.splits sum.splits exn.splits if_splits dest!: sys_stat_calm)

lemma path_resolve_strict_calm:
  "calm w \<Longrightarrow> path_resolve_strict p w = (Inr q, w') \<Longrightarrow> links (fs w) p = Some q"
  by (auto simp: path_resolve_strict_def syscall_calm split: outcome.splits option.splits if_splits)

lemma local_root_calm:
  assumes "local_root c w = (Inr root, w')" "calm w" "fs_ok (fs w)"
  shows "links (fs w) root = Some root \<and>
    (\<exists>j. lookup (fs w) root = Some j \<and> kind (inodes (fs w) j) = Directory)"
proof -
  from assms(1) obtain p w1 w2 w3 where s: "path_of_text (lc_root c) w = (Inr p, w1)"
    "path_resolve_strict p w1 = (Inr root, w2)" "path_is_dir root w2 = (Inr True, w3)"
    by (auto simp: local_root_def bind_eq_Inr translate_eq_Inr split: if_splits)
  from inspectsD [OF inspects_path_of_text assms(2) s(1)]
  have 1: "calm w1" "fs w1 = fs w" by auto
  from inspectsD [OF inspects_path_resolve_strict 1(1) s(2)] 1
  have 2: "calm w2" "fs w2 = fs w" by auto
  from path_resolve_strict_calm [OF 1(1) s(2)] 1 assms(3)
  have "links (fs w) root = Some root" by (simp add: fs_ok_def)
  with path_is_dir_calm [OF 2(1) s(3)] 2 show ?thesis
    by (auto simp: file_at_def)
qed

lemma existing_file_calm:
  assumes "existing_file p f b w = (Inr x, w')" "calm w"
  shows "\<exists>q. links (fs w) p = Some q \<and>
    (case x of None \<Rightarrow> file_at (fs w) q = None
     | Some st \<Rightarrow> b \<and> (\<exists>n. file_at (fs w) q = Some n \<and> st = stat_of n \<and> kind n = Regular))"
proof -
  obtain r w1 where s: "sys_stat p w = (r, w1)" by (rule prod.exhaust)
  show ?thesis
  proof (cases r)
    case (Inl e)
    with raisesD [OF raises_sys(9)] s have "is_oserror e" by blast
    then obtain n where "e = OSError n" by (cases e) simp_all
    with Inl s assms sys_stat_missing [OF assms(2)] show ?thesis
      by (auto simp: existing_file_def try_except_apply bind_apply split: if_splits)
  next
    case (Inr st)
    with s sys_stat_calm [OF assms(2), of p st w1] assms(1) show ?thesis
      by (auto simp: existing_file_def try_except_apply bind_apply stat_of_def split: if_splits)
  qed
qed

text \<open>Everything before the creation of the staging file only inspects.\<close>

lemma local_write_enter_calm:
  assumes "local_write_enter c filename sid overwrite w = (r, w')" "os_ok w"
    "local_resolve c filename w = (Inr (root, dest), w0)" "stage_name sid = Inr n"
    "dest \<noteq> root @ [n]"
  obtains (fail) e where "r = Inl e" "\<exists>ts. w' = w\<lparr>ticks := ts\<rparr>" "calm w'"
  | (ok) k where "r = Inr k" "staging (next_fd w) (next_ino (fs w)) k w' []"
      "lw_destination k = dest" "lw_stage k = root @ [n]" "lw_root k = root"
      "lw_overwrite k = overwrite" "lookup (fs w) (root @ [n]) = None"
      "\<And>q. q \<noteq> root @ [n] \<Longrightarrow> lookup (fs w') q = lookup (fs w) q"
      "\<And>j. j \<noteq> next_ino (fs w) \<Longrightarrow> inodes (fs w') j = inodes (fs w) j"
      "fds w' = (fds w)(next_fd w \<mapsto> \<lparr>of_inode = next_ino (fs w), of_pos = 0\<rparr>)"
      "os_world.more w' = os_world.more w"
proof -
  from assms(2) have w: "calm w" "fs_ok (fs w)" "\<forall>d \<ge> next_fd w. fds w d = None"
    by (auto simp: os_ok_def)
  from inspectsD [OF inspects_local_resolve w(1) assms(3)]
  obtain ts where w0: "calm w0" "w0 = w\<lparr>ticks := ts\<rparr>" by blast
  obtain x1 w1 where s1: "existing_file dest filename overwrite w0 = (x1, w1)" by (rule prod.exhaust)
  from inspectsD [OF inspects_existing_file w0(1) s1] w0(2)
  obtain ts' where w1: "calm w1" "w1 = w\<lparr>ticks := ts'\<rparr>" by auto
  show ?thesis
  proof (cases x1)
    case (Inl e)
    with assms(1,3,4) s1 have "r = Inl e" "w' = w1"
      by (auto simp: local_write_enter_def bind_apply)
    with w1 show ?thesis by (auto intro: fail)
  next
    case (Inr ex)
    obtain x2 w2 where s2: "sys_create (root @ [n]) 438 w1 = (x2, w2)" by (rule prod.exhaust)
    have enter: "(r, w') = (case x2 of
        Inl e \<Rightarrow> (Inl (on_oserror create_error e), w2)
      | Inr d \<Rightarrow> (Inr \<lparr>sk_descriptor = Some d, sk_existing = ex, sk_bytes_written = 0,
          lw_root = root, lw_stage = root @ [n], lw_destination = dest,
          lw_filename = filename, lw_overwrite = overwrite\<rparr>, w2))"
      using assms(1,3,4) s1 s2 Inr
      by (auto simp: local_write_enter_def bind_apply translate_apply split: sum.splits)
    from w1(1) s2 show ?thesis
    proof (cases rule: sys_create_calm)
      case f: (fail e)
      with enter have "r = Inl (on_oserror create_error (OSError e))" "w' = advance w1" by auto
      moreover have "\<exists>ts. advance w1 = w\<lparr>ticks := ts\<rparr>"
        using w1(2) by (cases ts') (auto simp: advance_def)
      ultimately show ?thesis using w1(1) by (intro fail) simp_all
    next
      case (ok i m)
      from assms(3) obtain wr where "local_root c w = (Inr root, wr)"
        by (auto simp: local_resolve_def bind_eq_Inr split: if_splits)
      from local_root_calm [OF this w(1,2)] obtain j where j: "links (fs w) root = Some root"
        "lookup (fs w) root = Some j" "kind (inodes (fs w) j) = Directory" by blast
      have j_old: "j < next_ino (fs w)" using j(2) w(2) by (auto simp: fs_ok_def)
      have "fs w0 = fs w" using w0(2) by simp
      from existing_file_calm [OF s1 [unfolded Inr] w0(1), unfolded this] j have dest: "root \<noteq> dest"
        by (auto simp: file_at_def split: option.splits)
      have old: "lookup (fs w) dest \<noteq> Some (next_ino (fs w))" using w(2) by (auto simp: fs_ok_def)
      let ?k = "\<lparr>sk_descriptor = Some (next_fd w), sk_existing = ex, sk_bytes_written = 0,
          lw_root = root, lw_stage = root @ [n], lw_destination = dest,
          lw_filename = filename, lw_overwrite = overwrite\<rparr>"
      have r: "r = Inr ?k" "w' = w2" using enter ok w1(2) by simp_all
      have "staging (next_fd w) (next_ino (fs w)) ?k w' []"
        unfolding staging_def sink_at_def using r ok w w1 j j_old dest old assms(5) by auto
      with r ok w1 show ?thesis by (intro that(2) [of ?k]) (auto simp: fun_eq_iff)
    qed
  qed
qed

section \<open>The write block as a whole\<close>

text \<open>A block that writes some chunks and may then fail.\<close>

fun write_chunks :: "bytes list \<Rightarrow> exn option \<Rightarrow> (local_write \<times> 'w os_world_scheme, unit) io" where
  "write_chunks [] failure = rethrow failure"
| "write_chunks (c # cs) failure = bind (FileSink_write c) (\<lambda>_. write_chunks cs failure)"

lemma staging_write:
  assumes "FileSink_write c (k, w) = (r, (k', w'))" "staging d i k w data"
  shows "\<exists>n \<le> length c. staging d i k' w' (data @ take n c) \<and> (r = Inr () \<longrightarrow> n = length c) \<and>
    touches i d w w' \<and> lw_stage k' = lw_stage k \<and> lw_destination k' = lw_destination k \<and>
    lw_root k' = lw_root k \<and> lw_overwrite k' = lw_overwrite k \<and>
    fds w' = (fds w)(d := fds w' d)"
proof -
  note st = assms(2) [unfolded staging_def]
  from FileSink_write_calm [OF assms(1)] st obtain n where n: "n \<le> length c" "touches i d w w'"
    "sink_at d i k' w' (data @ take n c)" "k' = k\<lparr>sk_bytes_written := length data + n\<rparr>"
    "r = Inr () \<longrightarrow> n = length c" by blast
  then have "fds w' = (fds w)(d := fds w' d)" by (auto simp: touches_def fun_eq_iff)
  moreover have "staging d i k' w' (data @ take n c)"
    unfolding staging_def using n st by (auto simp: touches_def)
  ultimately show ?thesis using n by (intro exI [of _ n]) simp
qed

lemma staging_chunks:
  assumes "write_chunks cs failure (k, w) = (r, (k', w'))" "staging d i k w data"
  shows "\<exists>written. staging d i k' w' (data @ written) \<and>
    (r = Inr () \<longrightarrow> written = concat cs \<and> failure = None) \<and>
    touches i d w w' \<and> lw_stage k' = lw_stage k \<and> lw_destination k' = lw_destination k \<and>
    lw_root k' = lw_root k \<and> lw_overwrite k' = lw_overwrite k \<and>
    fds w' = (fds w)(d := fds w' d)"
  using assms
proof (induction cs arbitrary: k w data)
  case Nil
  then show ?case
    by (intro exI [of _ "[]"], cases failure) (auto simp: staging_def intro: touches_refl)
next
  case (Cons c cs)
  obtain r1 k1 w1 where s: "FileSink_write c (k, w) = (r1, (k1, w1))" by (metis prod.exhaust)
  from staging_write [OF s Cons.prems(2)] obtain n where n: "n \<le> length c"
    "staging d i k1 w1 (data @ take n c)" "r1 = Inr () \<longrightarrow> n = length c" "touches i d w w1"
    "lw_stage k1 = lw_stage k" "lw_destination k1 = lw_destination k" "lw_root k1 = lw_root k"
    "lw_overwrite k1 = lw_overwrite k" "fds w1 = (fds w)(d := fds w1 d)" by blast
  show ?case
  proof (cases r1)
    case (Inl e)
    with Cons.prems(1) s have "r = Inl e" "k' = k1" "w' = w1" by (auto simp: bind_apply)
    with n show ?thesis by (intro exI [of _ "take n c"]) simp
  next
    case (Inr u)
    with Cons.prems(1) s have "write_chunks cs failure (k1, w1) = (r, (k', w'))"
      by (simp add: bind_apply)
    from Cons.IH [OF this n(2)] obtain written where rest:
      "staging d i k' w' ((data @ take n c) @ written)"
      "r = Inr () \<longrightarrow> written = concat cs \<and> failure = None" "touches i d w1 w'"
      "lw_stage k' = lw_stage k1" "lw_destination k' = lw_destination k1" "lw_root k' = lw_root k1"
      "lw_overwrite k' = lw_overwrite k1" "fds w' = (fds w1)(d := fds w' d)" by blast
    have "fds w' = (fds w)(d := fds w' d)"
      by (subst rest(8), subst n(9)) simp
    with rest n Inr touches_trans [OF n(4) rest(3)] show ?thesis
      by (intro exI [of _ "take n c @ written"]) simp
  qed
qed

lemma leave_block_eq: "exit (k, w) = (r, (k', w')) \<Longrightarrow> leave_block exit (k, w) = (r, w')"
  by (simp add: leave_block_def)

text \<open>
  The whole block, for any chunks, any faults of the calls and any failure of the body: the
  destination is the concatenation of the chunks or it is what it was, nothing else changes but
  for a staging file whose removal was logged as failed, and no descriptor stays open.
\<close>

lemma local_write_block:
  assumes "with_block (local_write_enter c filename sid overwrite) (write_chunks cs failure)
      local_write_exit w = (r, w')"
    and "os_ok w" "local_resolve c filename w = (Inr (root, dest), w0)" "stage_name sid = Inr n"
    and "dest \<noteq> root @ [n]"
  shows "(r = Inr () \<longrightarrow> failure = None \<and> (overwrite \<or> lookup (fs w) dest = None) \<and>
      (\<exists>i. lookup (fs w') dest = Some i \<and> kind (inodes (fs w') i) = Regular \<and>
           content (inodes (fs w') i) = concat cs \<and> durable (inodes (fs w') i) = concat cs)) \<and>
    (r \<noteq> Inr () \<longrightarrow> lookup (fs w') dest = lookup (fs w) dest) \<and>
    (\<forall>q. q \<noteq> dest \<and> q \<noteq> root @ [n] \<longrightarrow> lookup (fs w') q = lookup (fs w) q) \<and>
    (\<forall>q i. lookup (fs w) q = Some i \<longrightarrow> inodes (fs w') i = inodes (fs w) i) \<and>
    (lookup (fs w') (root @ [n]) = lookup (fs w) (root @ [n]) \<or>
     ''staging_cleanup_failed'' \<in> set (log w')) \<and>
    fds w' = fds w"
proof -
  let ?d = "next_fd w" and ?i = "next_ino (fs w)"
  from assms(2) have free: "fds w ?d = None" and old: "\<And>q j. lookup (fs w) q = Some j \<Longrightarrow> j \<noteq> ?i"
    by (auto simp: os_ok_def fs_ok_def)
  obtain r1 w1 where s1: "local_write_enter c filename sid overwrite w = (r1, w1)"
    by (rule prod.exhaust)
  from s1 assms(2-5) show ?thesis
  proof (cases rule: local_write_enter_calm)
    case (fail e)
    with assms(1) s1 show ?thesis by (auto simp: with_block_def)
  next
    case (ok k)
    obtain r2 k2 w2 where s2: "write_chunks cs failure (k, w1) = (r2, (k2, w2))"
      by (metis prod.exhaust)
    from staging_chunks [OF s2 ok(2)] obtain written where b: "staging ?d ?i k2 w2 written"
      "r2 = Inr () \<longrightarrow> written = concat cs \<and> failure = None" "touches ?i ?d w1 w2"
      "lw_stage k2 = lw_stage k" "lw_destination k2 = lw_destination k"
      "lw_overwrite k2 = lw_overwrite k" "fds w2 = (fds w1)(?d := fds w2 ?d)" by auto
    let ?failed = "case r2 of Inl e \<Rightarrow> Some e | Inr _ \<Rightarrow> None"
    obtain r3 k3 w3 where s3: "local_write_exit ?failed (k2, w2) = (r3, (k3, w3))"
      by (metis prod.exhaust)
    have w': "r = r3" "w' = w3"
      using assms(1) ok(1) s1 s2 leave_block_eq [where exit = "local_write_exit ?failed", OF s3]
      by (auto simp: with_block_def split: sum.splits)
    have only: "only_stage ?d ?i (if r3 = Inr () then {lw_stage k2, lw_destination k2} else {lw_stage k2}) w2 w3 \<and>
      (lookup (fs w3) (lw_stage k2) = None \<or> ''staging_cleanup_failed'' \<in> set (log w3)) \<and>
      (r3 = Inr () \<longrightarrow> r2 = Inr () \<and> lookup (fs w3) (lw_destination k2) = Some ?i \<and>
        content (inodes (fs w3) ?i) = written \<and> durable (inodes (fs w3) ?i) = written \<and>
        kind (inodes (fs w3) ?i) = Regular \<and>
        (lw_overwrite k2 \<or> lookup (fs w2) (lw_destination k2) = None))"
    proof (cases r2)
      case (Inl e)
      with local_write_exit_failed [of e k2 w2 r3 k3 w3, OF _ b(1)] s3 show ?thesis by simp
    next
      case (Inr u)
      with local_write_exit_calm [of k2 w2 r3 k3 w3, OF _ b(1)] s3 show ?thesis by auto
    qed
    have "fds w3 = fds w"
      using only b(7) ok(10) free by (auto simp: only_stage_def fun_eq_iff)
    with only b ok w' assms(5) old show ?thesis
      by (auto simp: only_stage_def touches_def)
  qed
qed

end
