(* ===== verification/Local_Source.thy ===== *)
theory Local_Source
  imports Local_Props
begin

text \<open>
  What a source of the local connector delivers: the bytes the file had when it was opened, in
  order, or an error; never a silent end. The lemmas hold for files that only grow meanwhile, the
  count of bytes for any interference.
\<close>

section \<open>Files that only grow\<close>

definition growing :: "'w os_world_scheme \<Rightarrow> bool" where
  "growing w \<longleftrightarrow> (\<forall>t\<in>set (ticks w). \<forall>f i. \<exists>more.
     content (inodes (interfere t f) i) = content (inodes f i) @ more)"

lemma calm_growing: "calm w \<Longrightarrow> growing w"
  by (simp add: calm_def growing_def)

text \<open>The source is open and the bytes it still owes are \<open>pending\<close>; the file may hold more.\<close>

definition src_at :: "file_source \<Rightarrow> 'w os_world_scheme \<Rightarrow> bytes \<Rightarrow> bool" where
  "src_at s w pending \<longleftrightarrow>
     (\<exists>i p rest. fds w (src_descriptor s) = Some \<lparr>of_inode = i, of_pos = p\<rparr> \<and>
        p \<le> length (content (inodes (fs w) i)) \<and>
        drop p (content (inodes (fs w) i)) = pending @ rest) \<and>
     length pending = src_remaining s"

lemma on_fd_growing:
  assumes "growing w" "fds w d = Some h"
  shows "\<exists>w1. growing w1 \<and> fds w1 = fds w \<and>
    (\<forall>i. \<exists>more. content (inodes (fs w1) i) = content (inodes (fs w) i) @ more) \<and>
    (\<forall>body :: outcome \<Rightarrow> open_file \<Rightarrow> ('w os_world_scheme, 'a) io.
       (\<exists>e. on_fd d body w = (Inl (OSError e), w1)) \<or> (\<exists>r. on_fd d body w = body r h w1))"
proof (cases "ticks w")
  case Nil
  with assms show ?thesis
    by (intro exI [of _ w]) (auto simp: on_fd_def syscall_def)
next
  case (Cons t ts)
  let ?w1 = "w\<lparr>ticks := ts, fs := interfere t (fs w)\<rparr>"
  have "growing ?w1" using assms(1) Cons by (simp add: growing_def)
  moreover have "\<forall>i. \<exists>more. content (inodes (fs ?w1) i) = content (inodes (fs w) i) @ more"
    using assms(1) Cons by (simp add: growing_def)
  moreover have "(\<exists>e. on_fd d body w = (Inl (OSError e), ?w1)) \<or> (\<exists>r. on_fd d body w = body r h ?w1)"
    for body :: "outcome \<Rightarrow> open_file \<Rightarrow> ('w os_world_scheme, 'a) io"
    using assms(2) Cons by (cases "outcome t") (auto simp: on_fd_def syscall_def Let_def)
  ultimately show ?thesis by (intro exI [of _ ?w1]) auto
qed

lemma FileSource_read_growing:
  assumes "FileSource_read n (s, w) = (r, (s', w'))" "growing w" "src_at s w pending" "0 < n"
  shows "growing w' \<and> src_descriptor s' = src_descriptor s \<and>
    (case r of
       Inl e \<Rightarrow> has_code SOURCE_READ_FAILED e \<and> src_at s' w' pending
     | Inr data \<Rightarrow> \<exists>rest. pending = data @ rest \<and> src_at s' w' rest \<and> (data = [] \<longrightarrow> pending = []))"
proof (cases "src_remaining s = 0")
  case True
  with assms show ?thesis by (auto simp: FileSource_read_def bind_apply src_at_def)
next
  case False
  from assms(3) obtain i p rest where s: "fds w (src_descriptor s) = Some \<lparr>of_inode = i, of_pos = p\<rparr>"
    "p \<le> length (content (inodes (fs w) i))" "drop p (content (inodes (fs w) i)) = pending @ rest"
    "length pending = src_remaining s" by (auto simp: src_at_def)
  let ?n = "min n (src_remaining s)"
  from on_fd_growing [OF assms(2) s(1)] obtain w1 more where w1: "growing w1" "fds w1 = fds w"
    "content (inodes (fs w1) i) = content (inodes (fs w) i) @ more"
    and run: "\<And>body :: outcome \<Rightarrow> open_file \<Rightarrow> ('a os_world_scheme, bytes) io.
       (\<exists>e. on_fd (src_descriptor s) body w = (Inl (OSError e), w1)) \<or>
       (\<exists>r. on_fd (src_descriptor s) body w = body r \<lparr>of_inode = i, of_pos = p\<rparr> w1)"
    by blast
  define body :: "outcome \<Rightarrow> open_file \<Rightarrow> ('a os_world_scheme, bytes) io" where
    "body = (\<lambda>o' h v.
       (let data = take (transferred o' ?n) (drop (of_pos h) (content (inodes (fs v) (of_inode h))))
        in (Inr data, v\<lparr>fds := (fds v)(src_descriptor s \<mapsto> h\<lparr>of_pos := of_pos h + length data\<rparr>)\<rparr>)))"
  have "sys_read (src_descriptor s) ?n = on_fd (src_descriptor s) body"
    by (simp add: sys_read_def body_def)
  with run [of body] consider (fail) e where "sys_read (src_descriptor s) ?n w = (Inl (OSError e), w1)"
    | (ok) o' where "sys_read (src_descriptor s) ?n w = body o' \<lparr>of_inode = i, of_pos = p\<rparr> w1"
    by auto
  then show ?thesis
  proof cases
    case fail
    with assms(1) False have "r = Inl (db_error SOURCE_READ_FAILED (lit ''Cannot read the local source file''))"
      "s' = s" "w' = w1"
      by (auto simp: FileSource_read_def bind_apply translate_apply on_world_apply)
    with w1 s show ?thesis by (auto simp: src_at_def)
  next
    case ok
    let ?k = "transferred o' ?n"
    have "0 < ?k" using False assms(4) by (subst transferred_pos) simp
    moreover have "?k \<le> length pending" using s(4) by (intro order_trans [OF transferred_le]) simp
    ultimately have k: "?k \<le> length pending" "0 < ?k" by blast+
    have full: "drop p (content (inodes (fs w1) i)) = pending @ rest @ more"
      using w1(3) s(2,3) by simp
    with k have data: "take ?k (drop p (content (inodes (fs w1) i))) = take ?k pending"
      by simp
    have room: "?k \<le> length (content (inodes (fs w1) i)) - p"
      using w1(3) s(2) k(1) arg_cong [OF s(3), of length] by simp
    have ne: "take ?k pending \<noteq> []" using k by (auto simp del: transferred_pos)
    with assms(1) False ok data have "r = Inr (take ?k pending)"
      "s' = s\<lparr>src_remaining := src_remaining s - ?k\<rparr>"
      "w' = w1\<lparr>fds := (fds w1)(src_descriptor s \<mapsto> \<lparr>of_inode = i, of_pos = p + ?k\<rparr>)\<rparr>"
      using k by (auto simp: FileSource_read_def bind_apply translate_apply on_world_apply Let_def body_def
          min_absorb2 [OF room])
    then have s': "s' = s\<lparr>src_remaining := src_remaining s - ?k\<rparr>" and r: "r = Inr (take ?k pending)"
      and w': "w' = w1\<lparr>fds := (fds w1)(src_descriptor s \<mapsto> \<lparr>of_inode = i, of_pos = p + ?k\<rparr>)\<rparr>"
      by blast+
    have "drop (p + ?k) (content (inodes (fs w1) i)) = drop ?k (drop p (content (inodes (fs w1) i)))"
      by (simp add: add.commute)
    with full k(1) have "drop (p + ?k) (content (inodes (fs w1) i)) = drop ?k pending @ rest @ more"
      by simp
    moreover have "p + ?k \<le> length (content (inodes (fs w1) i))"
      using room w1(3) s(2) by simp
    ultimately have "src_at s' w' (drop ?k pending)"
      using s(4) by (simp add: src_at_def s' w')
    with w1(1) ne r show ?thesis
      by (auto simp: s' w' growing_def intro!: exI [of _ "drop ?k pending"])
  qed
qed


text \<open>
  Under any interference a source reports the end only when it has delivered the size that the
  file had at the opening (or the limit); a file that became shorter is an error.
\<close>

lemma sys_read_length: "sys_read d m w = (Inr data, w') \<Longrightarrow> length data \<le> m"
  by (auto simp: sys_read_def on_fd_def syscall_def Let_def min_le_iff_disj
      split: list.splits outcome.splits option.splits)

lemma FileSource_read_counts:
  assumes "FileSource_read n (s, w) = (Inr data, (s', w'))"
  shows "length data \<le> n \<and> src_remaining s' + length data = src_remaining s \<and>
    (data = [] \<longrightarrow> src_remaining s = 0)"
  using assms
  by (auto simp: FileSource_read_def bind_eq_Inr translate_eq_Inr split: if_splits
      dest!: sys_read_length)

end
