(* ===== verification/Local_Correct.thy ===== *)
theory Local_Correct
  imports Local_Source
begin

text \<open>
  The properties of the filename policy, of the bounded listing and of the local connector, with
  their witnesses on a small world.
\<close>

section \<open>A small world\<close>

text \<open>One directory, \<open>/d\<close>, which holds the file \<open>a\<close> of three bytes; no faults.\<close>

definition demo_fs :: fs where
  "demo_fs =
     \<lparr>dirents = [([lit ''d''], 0), ([lit ''d'', lit ''a''], 1)],
      inodes = (\<lambda>i. if i = 0 then \<lparr>kind = Directory, content = [], durable = [], mode = 448\<rparr>
                    else \<lparr>kind = Regular, content = [1, 2, 3], durable = [1, 2, 3], mode = 384\<rparr>),
      next_ino = 2, links = Some\<rparr>"

definition demo_world :: os_world where
  "demo_world =
     \<lparr>fs = demo_fs, fds = Map.empty, next_fd = 3, ticks = [], uuids = [], umask = 18,
      cwd = [], home = Map.empty, log = []\<rparr>"

definition demo_connector :: local_connector where
  "demo_connector = \<lparr>lc_root = lit ''/d''\<rparr>"

lemma lookup_demo [simp]:
  "lookup demo_fs = [[lit ''d''] \<mapsto> 0, [lit ''d'', lit ''a''] \<mapsto> 1]"
  by (auto simp: demo_fs_def lookup_def fun_eq_iff)

lemma demo_sel [simp]:
  "fs demo_world = demo_fs" "fds demo_world = Map.empty" "next_fd demo_world = 3"
  "ticks demo_world = []" "links demo_fs = Some" "next_ino demo_fs = 2"
  by (simp_all add: demo_world_def demo_fs_def)

lemma demo_ok: "os_ok demo_world"
  by (auto simp: os_ok_def fs_ok_def calm_def)

lemma plain_filename_b: "plain_filename (lit ''b'')"
  by (auto simp: plain_filename_def is_reserved_name_def RESERVED_PREFIX_def MAX_FILENAME_BYTES_def
      utf8_cp_def text_eval)

lemma split_d: "split_on 47 (lit ''/d'') = [[], lit ''d'']"
  by (simp add: text_eval)

lemma demo_resolve:
  "local_resolve demo_connector (lit ''b'') demo_world =
     (Inr ([lit ''d''], [lit ''d'', lit ''b'']), demo_world)"
proof -
  have "validate_filename (lit ''b'') = Inr (lit ''b'')"
    by (simp add: validate_filename_Inr plain_filename_b)
  moreover have "components (lit ''/d'') = [lit ''d'']"
    unfolding components_def split_d by (simp add: text_eval)
  moreover have "startswith (lit ''/d'') [47]" by (simp add: text_eval)
  ultimately show ?thesis
    by (simp add: local_resolve_def local_root_def bind_apply translate_apply path_of_text_def
        demo_connector_def path_resolve_strict_def path_resolve_def syscall_def path_is_dir_def
        sys_stat_def try_except_apply file_at_def stat_of_def demo_fs_def [THEN arg_cong, of inodes]
        is_relative_to_def)
qed

lemma demo_stage:
  obtains n where "stage_name (uuid_str 0) = Inr n" "[lit ''d'', lit ''b''] \<noteq> [lit ''d''] @ [n]"
proof -
  obtain n where n: "stage_name (uuid_str 0) = Inr n" by (simp add: stage_name_def)
  with stage_name_length [OF n] show ?thesis by (intro that) auto
qed

section \<open>Publication\<close>

text \<open>
  C1. A write block of the local connector is atomic. For any chunks, any faults of the system
  calls (short writes included) and any failure of the body: it succeeds only if the body did, and
  then the destination is a regular file that durably holds exactly the chunks in order, and it
  was absent unless overwriting was asked for; on any error the destination entry is what it was.
  No other entry and no file that existed changes, the staging file is gone or its removal is
  logged as failed, and no descriptor stays open.
\<close>

theorem local_write_atomic:
  assumes "with_block (local_write_enter c filename sid overwrite) (write_chunks cs failure)
      local_write_exit w = (r, w')"
    and "os_ok w" "local_resolve c filename w = (Inr (root, dest), w0)" "stage_name sid = Inr n"
    and "dest \<noteq> root @ [n]"
  shows "(r = Inr () \<longrightarrow> failure = None \<and> (overwrite \<or> lookup (fs w) dest = None) \<and>
      (\<exists>i. lookup (fs w') dest = Some i \<and> kind (inodes (fs w') i) = Regular \<and>
           content (inodes (fs w') i) = concat cs \<and> durable (inodes (fs w') i) = concat cs)) \<and>
    (r \<noteq> Inr () \<longrightarrow> lookup (fs w') dest = lookup (fs w) dest) \<and>
    (\<forall>q. q \<noteq> dest \<and> q \<noteq> root @ [n] \<longrightarrow> lookup (fs w') q = lookup (fs w) q) \<and>
    (\<forall>q i. lookup (fs w) q = Some i \<longrightarrow> inodes (fs w') i = inodes (fs w) i) \<and>
    (lookup (fs w') (root @ [n]) = lookup (fs w) (root @ [n]) \<or>
     ''staging_cleanup_failed'' \<in> set (log w')) \<and>
    fds w' = fds w"
  using assms by (rule local_write_block)

theorem local_write_atomic_witness:
  "\<exists>r w'. with_block (local_write_enter demo_connector (lit ''b'') (uuid_str 0) False)
      (write_chunks [[7], [8, 9]] None) local_write_exit demo_world = (r, w') \<and>
    (r = Inr () \<longrightarrow> (\<exists>i. lookup (fs w') [lit ''d'', lit ''b''] = Some i \<and>
      content (inodes (fs w') i) = [7, 8, 9])) \<and>
    fds w' = Map.empty"
proof -
  obtain r w' where run: "with_block (local_write_enter demo_connector (lit ''b'')
      (uuid_str 0) False) (write_chunks [[7], [8, 9]] None) local_write_exit demo_world = (r, w')"
    by (rule prod.exhaust)
  obtain n where n: "stage_name (uuid_str 0) = Inr n"
    "[lit ''d'', lit ''b''] \<noteq> [lit ''d''] @ [n]" by (rule demo_stage)
  from local_write_atomic [OF run demo_ok demo_resolve n] run show ?thesis
    by (intro exI [of _ r] exI [of _ w']) (simp del: write_chunks.simps, blast)
qed

text \<open>
  C2. Publishing without overwrite never replaces a file, whatever other processes do up to the
  call: every entry they left is still there, with the same file, and the publication succeeds
  only on a name that was free.
\<close>

theorem publish_never_clobbers:
  "\<exists>f. (case ticks w of [] \<Rightarrow> f = fs w | t # _ \<Rightarrow> f = interfere t (fs w)) \<and>
     (case local_publish stage dest filename False w of (r, w') \<Rightarrow>
        (\<forall>q i. lookup f q = Some i \<longrightarrow> lookup (fs w') q = Some i \<and> inodes (fs w') i = inodes f i) \<and>
        (r = Inr () \<longrightarrow> lookup f dest = None \<and> lookup (fs w') dest = lookup f stage))"
  by (cases "ticks w")
    (auto simp: local_publish_def translate_apply sys_link_def syscall_def Let_def
      split: option.splits outcome.splits)

theorem publish_never_clobbers_witness:
  "lookup (fs (snd (local_publish [lit ''d'', lit ''a''] [lit ''d'', lit ''b''] (lit ''b'') False
      demo_world))) [lit ''d'', lit ''a''] = Some 1"
proof -
  let ?p = "local_publish [lit ''d'', lit ''a''] [lit ''d'', lit ''b''] (lit ''b'') False demo_world"
  obtain r w' where run: "?p = (r, w')" by (rule prod.exhaust)
  have "lookup demo_fs [lit ''d'', lit ''a''] = Some 1" by simp
  with publish_never_clobbers [where w = demo_world and stage = "[lit ''d'', lit ''a'']"
      and dest = "[lit ''d'', lit ''b'']" and filename = "lit ''b''"] run
  have "lookup (fs w') [lit ''d'', lit ''a''] = Some 1" by (auto simp del: lookup_demo)
  with run show ?thesis by simp
qed

section \<open>Reading\<close>

text \<open>
  C3. A source never ends early: under any faults and any interference with the file, a read
  returns at most the size asked for and counts it, and it returns no bytes only when every byte
  that the file had at the opening has been delivered.
\<close>

theorem source_never_ends_early:
  assumes "FileSource_read n (s, w) = (Inr data, (s', w'))"
  shows "length data \<le> n \<and> src_remaining s' + length data = src_remaining s \<and>
    (data = [] \<longrightarrow> src_remaining s = 0)"
  using assms by (rule FileSource_read_counts)

theorem source_never_ends_early_witness:
  "\<exists>s' w'. FileSource_read 2 (\<lparr>src_descriptor = 3, src_remaining = 3, src_filename = lit ''a''\<rparr>,
      demo_world\<lparr>fds := [3 \<mapsto> \<lparr>of_inode = 1, of_pos = 0\<rparr>]\<rparr>) = (Inr [1, 2], (s', w')) \<and>
    src_remaining s' + 2 = 3"
proof -
  have "FileSource_read 2 (\<lparr>src_descriptor = 3, src_remaining = 3, src_filename = lit ''a''\<rparr>,
      demo_world\<lparr>fds := [3 \<mapsto> \<lparr>of_inode = 1, of_pos = 0\<rparr>]\<rparr>) =
    (Inr [1, 2], (\<lparr>src_descriptor = 3, src_remaining = 1, src_filename = lit ''a''\<rparr>,
      demo_world\<lparr>fds := [3 \<mapsto> \<lparr>of_inode = 1, of_pos = 2\<rparr>]\<rparr>))"
    by (simp add: FileSource_read_def bind_apply translate_apply on_world_apply sys_read_def
        on_fd_def syscall_def transferred_def demo_world_def demo_fs_def eval_nat_numeral)
  from source_never_ends_early [OF this] this show ?thesis by auto
qed

text \<open>
  C4. A source delivers a prefix of what it owes: while files only grow, each read returns the
  next bytes the file had at the opening, and a failed read loses none of them.
\<close>

theorem source_delivers_in_order:
  assumes "FileSource_read n (s, w) = (r, (s', w'))" "growing w" "src_at s w pending" "0 < n"
  shows "growing w' \<and>
    (case r of
       Inl e \<Rightarrow> has_code SOURCE_READ_FAILED e \<and> src_at s' w' pending
     | Inr data \<Rightarrow> \<exists>rest. pending = data @ rest \<and> src_at s' w' rest)"
  using FileSource_read_growing [OF assms] by (auto split: sum.splits)

theorem source_delivers_in_order_witness:
  "\<exists>r s' w'. FileSource_read 2 (\<lparr>src_descriptor = 3, src_remaining = 3, src_filename = lit ''a''\<rparr>,
      demo_world\<lparr>fds := [3 \<mapsto> \<lparr>of_inode = 1, of_pos = 0\<rparr>]\<rparr>) = (r, (s', w')) \<and>
    (case r of Inl e \<Rightarrow> has_code SOURCE_READ_FAILED e | Inr data \<Rightarrow> \<exists>rest. [1, 2, 3] = data @ rest)"
proof -
  let ?s = "\<lparr>src_descriptor = 3, src_remaining = 3, src_filename = lit ''a''\<rparr>"
  let ?w = "demo_world\<lparr>fds := [3 \<mapsto> \<lparr>of_inode = 1, of_pos = 0\<rparr>]\<rparr>"
  obtain r s' w' where run: "FileSource_read 2 (?s, ?w) = (r, (s', w'))" by (metis prod.exhaust)
  have "growing ?w" by (simp add: growing_def)
  moreover have "src_at ?s ?w [1, 2, 3]"
    by (simp add: src_at_def demo_world_def demo_fs_def)
  ultimately show ?thesis
    using source_delivers_in_order [OF run, of "[1, 2, 3]"] run by (fastforce split: sum.splits)
qed

section \<open>Names and listings\<close>

lemma local_root_still:
  assumes "local_root c w = (Inr root, w1)" "ticks w = []"
  shows "w1 = w"
  using assms
  by (auto simp: local_root_def bind_eq_Inr translate_eq_Inr path_of_text_def path_resolve_strict_def
      path_is_dir_def try_except_apply bind_apply sys_stat_def syscall_def
      split: option.splits if_splits exn.splits sum.splits prod.splits)

text \<open>
  C5. A file name of a request never leads out of the connection root. Under any faults and
  interference, when \<open>_resolve\<close> returns then the name is not empty, is not \<open>.\<close> or \<open>..\<close>, has no
  slash, backslash or NUL, is at most 255 bytes of UTF-8 and is not reserved, and the path it
  returns is at or below the root it returns; without faults that path is where the name in the
  root leads. Every other name is refused with \<open>INVALID_FILENAME\<close> before the system is asked.
\<close>

theorem resolve_confined:
  assumes "local_resolve c filename w = (r, w')"
  shows "if filename \<noteq> [] \<and> filename \<noteq> lit ''.'' \<and> filename \<noteq> lit ''..'' \<and> 47 \<notin> set filename \<and>
      92 \<notin> set filename \<and> 0 \<notin> set filename \<and> (\<exists>b. utf8 filename = Some b \<and> length b \<le> 255) \<and>
      \<not> is_reserved_name filename
    then \<forall>root dest. r = Inr (root, dest) \<longrightarrow> take (length root) dest = root \<and>
      (ticks w = [] \<longrightarrow> links (fs w) (root @ [filename]) = Some dest)
    else w' = w \<and> (\<exists>e. r = Inl e \<and> has_code INVALID_FILENAME e)"
proof -
  have rule: "plain_filename filename \<longleftrightarrow> filename \<noteq> [] \<and> filename \<noteq> lit ''.'' \<and> filename \<noteq> lit ''..'' \<and>
      47 \<notin> set filename \<and> 92 \<notin> set filename \<and> 0 \<notin> set filename \<and>
      (\<exists>b. utf8 filename = Some b \<and> length b \<le> 255) \<and> \<not> is_reserved_name filename"
    unfolding plain_filename_def MAX_FILENAME_BYTES_def by blast
  show ?thesis
  proof (cases filename rule: validate_filename_cases)
    case (invalid e)
    with assms have "r = Inl e \<and> w' = w" by (auto simp: local_resolve_def bind_apply)
    with invalid show ?thesis unfolding rule [symmetric] by simp
  next
    case valid
    have "take (length root) dest = root \<and>
        (ticks w = [] \<longrightarrow> links (fs w) (root @ [filename]) = Some dest)" if r: "r = Inr (root, dest)" for root dest
    proof -
      from assms r valid obtain w1 where s: "local_root c w = (Inr root, w1)"
        "fst (path_resolve (root @ [filename]) w1) = Inr dest" "is_relative_to dest root"
        by (auto simp: local_resolve_def bind_eq_Inr translate_eq_Inr split: if_splits)
      moreover have "links (fs w) (root @ [filename]) = Some dest" if "ticks w = []"
        using s(2) local_root_still [OF s(1) that] that
        by (auto simp: path_resolve_def try_except_apply syscall_def split: option.splits)
      ultimately show ?thesis by (auto simp: is_relative_to_def)
    qed
    with valid show ?thesis unfolding rule [symmetric] by simp
  qed
qed

theorem resolve_confined_witness:
  "local_resolve demo_connector (lit ''b'') demo_world =
     (Inr ([lit ''d''], [lit ''d'', lit ''b'']), demo_world) \<and>
   links demo_fs [lit ''d'', lit ''b''] = Some [lit ''d'', lit ''b''] \<and>
   fst (local_resolve demo_connector (lit ''.'') demo_world) \<noteq> Inr ([lit ''d''], [lit ''d''])"
proof -
  have "\<exists>b. utf8 (lit ''b'') = Some b \<and> length b \<le> 255" "\<not> is_reserved_name (lit ''b'')"
    using plain_filename_b by (auto simp: plain_filename_def MAX_FILENAME_BYTES_def)
  then have "links demo_fs [lit ''d'', lit ''b''] = Some [lit ''d'', lit ''b'']"
    using resolve_confined [OF demo_resolve] by simp
  moreover obtain r w' where dot: "local_resolve demo_connector (lit ''.'') demo_world = (r, w')"
    by (rule prod.exhaust)
  then have "\<exists>e. r = Inl e" using resolve_confined [OF dot] by auto
  ultimately show ?thesis using demo_resolve dot by auto
qed

text \<open>
  C6. A listing is the sorted list of the first 1000 acceptable regular files among the first
  10000 entries, and it is marked truncated exactly when an entry or a file beyond these bounds
  exists; the iterator is never advanced past entry 10001.
\<close>

theorem bounded_listing_correct:
  "bounded_listing (map Inr es) =
     Inr \<lparr>files = sort (take 1000 (listable (take 10000 es))),
          truncated = (10000 < length es \<or> 1000 < length (listable (take 10000 es)))\<rparr> \<and>
   bounded_listing (map Inr (take 10001 es) @ later) =
     (if 10000 < length es then bounded_listing (map Inr es)
      else bounded_listing (map Inr es @ later))"
proof -
  have "bounded_listing (map Inr (take 10001 es) @ later) = bounded_listing (map Inr es)"
    if "10000 < length es"
    using that bounded_listing_lazy [of "map Inr (take 10001 es)" later]
      bounded_listing_lazy [of "map Inr (take 10001 es)" "map Inr (drop 10001 es)"]
    by (simp add: MAX_LIST_SCAN_def flip: map_append)
  then show ?thesis
    by (simp add: bounded_listing_eq MAX_LIST_SCAN_def MAX_LIST_RESULTS_def)
qed

section \<open>The access check\<close>

lemma raises_uuid4_bind: "(\<And>n. raises P (f (uuid_str n))) \<Longrightarrow> raises P (bind uuid4 f)"
  by (fastforce simp: raises_def bind_eq_Inl uuid4_def split: list.splits)

lemma raises_local_check_access: "raises typed_or_is_dir (local_check_access c)"
  unfolding local_check_access_def
  by (intro raises_bind [OF raises_local_list_files] raises_bind [OF raises_local_root]
      raises_uuid4_bind raises_rules raises_mono [OF raises_oserror_typed]
      raises_try_except [where Q = is_oserror])
    (auto simp: probe_name_def intro!: raises_rules split: exn.splits)

lemma inspects_local_list_files [inspects_rules]: "inspects (local_list_files c)"
  unfolding local_list_files_def by (intro inspects_rules)

lemma uuid4_calm:
  "uuid4 w = (r, w') \<Longrightarrow> \<exists>n us. r = Inr (uuid_str n) \<and> w' = w\<lparr>uuids := us\<rparr>"
  by (cases "uuids w") (auto simp: uuid4_def intro: exI [of _ "uuids w"])

text \<open>The probe itself: created, closed, removed.\<close>

definition probe :: "path \<Rightarrow> pystr \<Rightarrow> ('w os_world_scheme, access_check) io" where
  "probe root name =
     bind
       (try_except (bind (sys_create (root @ [name]) 384) (\<lambda>d. ret (Some d)))
         (\<lambda>e. case e of
            OSError n \<Rightarrow>
              if n \<in> NOT_WRITABLE \<union> FULL then ret None
              else raise (db_error LOCAL_IO_ERROR
                     (lit ''Cannot test write access to the connection directory''))
          | _ \<Rightarrow> raise e))
       (\<lambda>opened. case opened of
          None \<Rightarrow> ret \<lparr>writable = False\<rparr>
        | Some d \<Rightarrow>
            bind (suppress_oserror (sys_close d)) (\<lambda>_.
            bind
              (translate (on_oserror (\<lambda>_. db_error LOCAL_IO_ERROR
                   (lit ''Cannot remove the write-access probe '' @ [39] @ name @ [39] @
                    lit '' from the connection root'')))
                (sys_unlink (root @ [name]))) (\<lambda>_.
            ret \<lparr>writable = True\<rparr>)))"

lemma local_check_access_eq:
  "local_check_access c =
     bind (local_list_files c) (\<lambda>_. bind (local_root c) (\<lambda>root.
     bind uuid4 (\<lambda>u. bind (of_result (probe_name u)) (\<lambda>name. probe root name))))"
  by (simp add: local_check_access_def probe_def)

lemma probe_calm:
  assumes "probe root name w = (r, w')" "calm w" "fds w (next_fd w) = None"
  shows "fds w' = fds w \<and> (\<forall>j. j \<noteq> next_ino (fs w) \<longrightarrow> inodes (fs w') j = inodes (fs w) j) \<and>
    (\<forall>q. q \<noteq> root @ [name] \<longrightarrow> lookup (fs w') q = lookup (fs w) q) \<and>
    (lookup (fs w') (root @ [name]) = lookup (fs w) (root @ [name]) \<or>
     (\<exists>e. r = Inl e \<and> has_code LOCAL_IO_ERROR e))"
proof -
  obtain x1 w1 where s1: "sys_create (root @ [name]) 384 w = (x1, w1)" by (rule prod.exhaust)
  from assms(2) s1 show ?thesis
  proof (cases rule: sys_create_calm)
    case (fail e)
    with assms s1 show ?thesis
      by (auto simp: probe_def bind_apply try_except_apply split: if_splits)
  next
    case (ok i n)
    obtain x2 w2 where s2: "sys_close (next_fd w) w1 = (x2, w2)" by (rule prod.exhaust)
    have "calm w1" using ok assms(2) by simp
    note c = sys_close_calm [OF this s2]
    then have w2: "calm w2" using \<open>calm w1\<close> by auto
    obtain x3 w3 where s3: "sys_unlink (root @ [name]) w2 = (x3, w3)" by (rule prod.exhaust)
    have p: "probe root name w =
        (case x3 of Inl e \<Rightarrow> (Inl (on_oserror (\<lambda>_. db_error LOCAL_IO_ERROR
            (lit ''Cannot remove the write-access probe '' @ [39] @ name @ [39] @
             lit '' from the connection root'')) e), w3)
         | Inr _ \<Rightarrow> (Inr \<lparr>writable = True\<rparr>, w3))"
      using s1 ok s2 s3 c
      by (auto simp: probe_def bind_apply try_except_apply translate_apply suppress_oserror_def
          split: sum.splits)
    have "fds w2 = fds w" using c ok assms(3) by (auto simp: fun_upd_idem)
    moreover have "lookup (fs w2) = (lookup (fs w))(root @ [name] \<mapsto> next_ino (fs w))"
      "\<forall>j. j \<noteq> next_ino (fs w) \<longrightarrow> inodes (fs w2) j = inodes (fs w) j"
      using c ok by simp_all
    moreover from w2 s3 have "fds w3 = fds w2 \<and> inodes (fs w3) = inodes (fs w2) \<and>
        ((\<exists>e. x3 = Inl (OSError e)) \<and> lookup (fs w3) = lookup (fs w2) \<or>
         x3 = Inr () \<and> lookup (fs w3) = (lookup (fs w2))(root @ [name] := None))"
      by (cases rule: sys_unlink_calm) auto
    ultimately show ?thesis using assms(1) p ok(1) by auto
  qed
qed

lemma local_check_access_calm:
  assumes "local_check_access c w = (r, w')" "os_ok w"
  shows "fds w' = fds w \<and> (\<forall>q i. lookup (fs w) q = Some i \<longrightarrow> inodes (fs w') i = inodes (fs w) i) \<and>
    (lookup (fs w') = lookup (fs w) \<or> (\<exists>e. r = Inl e \<and> has_code LOCAL_IO_ERROR e))"
proof -
  from assms(2) have w: "calm w" "fds w (next_fd w) = None" by (simp_all add: os_ok_def)
  obtain x1 w1 where s1: "local_list_files c w = (x1, w1)" by (rule prod.exhaust)
  from inspectsD [OF inspects_local_list_files w(1) s1] obtain t1 where
    w1: "calm w1" "w1 = w\<lparr>ticks := t1\<rparr>" by blast
  obtain x2 w2 where s2: "local_root c w1 = (x2, w2)" by (rule prod.exhaust)
  from inspectsD [OF inspects_local_root w1(1) s2] w1(2) obtain t2 where
    w2: "calm w2" "w2 = w\<lparr>ticks := t2\<rparr>" by auto
  obtain x3 w3 where s3: "uuid4 w2 = (x3, w3)" by (rule prod.exhaust)
  from uuid4_calm [OF s3] w2 obtain n us where
    w3: "calm w3" "x3 = Inr (uuid_str n)" "w3 = w\<lparr>ticks := t2, uuids := us\<rparr>" by auto
  obtain name where name: "probe_name (uuid_str n) = Inr name" by (simp add: probe_name_def)
  show ?thesis
  proof (cases "\<exists>a root. x1 = Inr a \<and> x2 = Inr root")
    case False
    with assms(1) s1 s2 w1 w2 have "fs w' = fs w" "fds w' = fds w"
      by (auto simp: local_check_access_eq bind_apply split: sum.splits)
    then show ?thesis by simp
  next
    case True
    then obtain root where run: "probe root name w3 = (r, w')"
      using assms(1) s1 s2 s3 w3(2) name by (auto simp: local_check_access_eq bind_apply)
    have "fds w3 (next_fd w3) = None" using w w3 by simp
    note p = probe_calm [OF run w3(1) this]
    moreover have "i \<noteq> next_ino (fs w)" if "lookup (fs w) q = Some i" for q i
      using assms(2) that by (auto simp: os_ok_def fs_ok_def)
    moreover have "lookup (fs w') = lookup (fs w) \<or> (\<exists>e. r = Inl e \<and> has_code LOCAL_IO_ERROR e)"
      using p w3(3) by (auto simp: fun_eq_iff) metis
    ultimately show ?thesis using w3(3) by auto
  qed
qed

text \<open>
  C7. The access check leaves nothing behind: whatever calls fail, no descriptor stays open, no
  existing file changes, and no entry is left unless the check itself fails with
  \<open>LOCAL_IO_ERROR\<close>.
\<close>

theorem check_access_clean:
  assumes "os_ok w"
  shows "case local_check_access c w of (r, w') \<Rightarrow>
    fds w' = fds w \<and> (\<forall>q i. lookup (fs w) q = Some i \<longrightarrow> inodes (fs w') i = inodes (fs w) i) \<and>
    (lookup (fs w') = lookup (fs w) \<or> (\<exists>e. r = Inl e \<and> has_code LOCAL_IO_ERROR e))"
  using local_check_access_calm [OF _ assms, of c] by (auto split: prod.split)

theorem check_access_clean_witness:
  "os_ok demo_world \<and> fds (snd (local_check_access demo_connector demo_world)) = Map.empty"
  using check_access_clean [OF demo_ok, of demo_connector] demo_ok by (auto split: prod.splits)

section \<open>The error contract\<close>

text \<open>What \<open>stat\<close> reports of the root escapes, but for the four errors that \<open>is_dir\<close> ignores.\<close>

lemma is_dir_error_escapes:
  assumes "ticks w = t # ts" "outcome t = Fail n" "n \<notin> ignored_errnos"
  shows "fst (path_is_dir p w) = Inl (OSError n)"
  using assms by (simp add: path_is_dir_def sys_stat_def syscall_def try_except_apply bind_apply Let_def)

text \<open>An exit raises what failed in its block, or an error of its own, which is typed.\<close>

lemma exit_raises_cause:
  "raises (\<lambda>e. is_db_error e \<or> failure = Some e) (local_read_exit failure)"
  "raises (\<lambda>e. is_db_error e \<or> failure = Some e) (local_write_exit failure)"
proof -
  note typed = raises_FileSink_finish [THEN raises_mono] raises_local_publish [THEN raises_mono]
  show "raises (\<lambda>e. is_db_error e \<or> failure = Some e) (local_read_exit failure)"
    unfolding local_read_exit_def by (intro raises_rules raises_rethrow) simp
  show "raises (\<lambda>e. is_db_error e \<or> failure = Some e) (local_write_exit failure)"
    unfolding local_write_exit_def
    by (intro raises_rules raises_rethrow typed raises_sync_directory raises_FileSink_release
        raises_remove_stage) simp_all
qed

text \<open>
  C8. Under any faults and any interference, what leaves the methods of the local connector is a
  \<open>DataBridgeError\<close>, or an error of the operating system that \<open>Path.is_dir\<close> raised, which
  excludes the four errors it ignores. Reading, writing to a sink whose file is open and finishing
  it raise \<open>DataBridgeError\<close> only; the exits of the blocks raise the exception that ended the
  block or a \<open>DataBridgeError\<close>.
\<close>

theorem local_error_contract:
  "raises typed_or_is_dir (local_list_files c) \<and>
   raises typed_or_is_dir (local_check_access c) \<and>
   raises typed_or_is_dir (local_read_enter c filename limit) \<and>
   raises typed_or_is_dir (local_write_enter c filename (uuid_str n) overwrite) \<and>
   raises is_db_error (FileSource_read k) \<and>
   (\<forall>sink w e s'. sk_descriptor sink \<noteq> None \<and> FileSink_write chunk (sink, w) = (Inl e, s') \<longrightarrow> is_db_error e) \<and>
   raises is_db_error FileSink_finish \<and>
   raises is_db_error (local_read_exit None) \<and> raises is_db_error (local_write_exit None) \<and>
   raises (\<lambda>e. is_db_error e \<or> failure = Some e) (local_read_exit failure) \<and>
   raises (\<lambda>e. is_db_error e \<or> failure = Some e) (local_write_exit failure)"
proof (intro conjI allI impI)
  show "raises typed_or_is_dir (local_write_enter c filename (uuid_str n) overwrite)"
    by (rule raises_local_write_enter [where n = "RESERVED_PREFIX @ uuid_str n @ lit ''.part''"])
      (simp add: stage_name_def)
qed (auto intro: raises_local_list_files raises_local_check_access raises_local_read_enter
    raises_FileSource_read raises_FileSink_finish raises_local_read_exit raises_local_write_exit
    exit_raises_cause dest: FileSink_write_typed)

theorem local_error_contract_witness:
  "\<exists>(sink :: file_sink) (w :: os_world) e s'.
     FileSink_write [1, 2, 3] (sink, w) = (Inl e, s') \<and> is_db_error e"
proof -
  let ?sink = "\<lparr>sk_descriptor = Some 3, sk_existing = None, sk_bytes_written = 0\<rparr> :: file_sink"
  let ?w = "demo_world\<lparr>ticks := [\<lparr>interfere = (\<lambda>f. f), outcome = Fail ENOSPC\<rparr>]\<rparr>"
  obtain e s' where run: "FileSink_write [1, 2, 3] (?sink, ?w) = (Inl e, s')"
    by (simp add: FileSink_write.simps FileSink_write_once_def FileSink_open_def write_errors_def
        translate_apply bind_apply on_world_apply sys_write_def on_fd_def syscall_def Let_def)
  have "\<forall>(sink :: file_sink) (w :: os_world) e s'. sk_descriptor sink \<noteq> None \<and>
      FileSink_write [1, 2, 3] (sink, w) = (Inl e, s') \<longrightarrow> is_db_error e"
    by (rule local_error_contract [THEN conjunct2, THEN conjunct2, THEN conjunct2, THEN conjunct2,
          THEN conjunct2, THEN conjunct1])
  from this [THEN spec [of _ ?sink], THEN spec [of _ ?w], THEN spec [of _ e], THEN spec [of _ s']]
  have "is_db_error e" using run by (elim mp) simp
  with run show ?thesis by blast
qed

end
