(* ===== verification/Transfer_Correct.thy ===== *)
theory Transfer_Correct
  imports Transfer_Store Local_Correct
begin

text \<open>
  The transfer service as a whole: it always answers, gives its slot back, and what it answers
  agrees with the record it leaves, whatever the connectors, the system calls and SQLite do.
\<close>

section \<open>A request\<close>

text \<open>What a caller learns from an answer, about the record in the database.\<close>

definition answer_true :: "transfer_record result \<Rightarrow> 'w service_world_scheme \<Rightarrow> bool" where
  "answer_true r w \<longleftrightarrow>
     (case r of
        Inr rec \<Rightarrow> tr_status rec = Completed \<and> ledger_status (tr_id rec) (ledger_view w) = Some Completed
      | Inl e \<Rightarrow> is_db_error e \<and>
          (case err_transfer e of
             None \<Rightarrow> True
           | Some i \<Rightarrow>
               ledger_status i (ledger_view w) = Some Failed \<or>
               ledger_status i (ledger_view w) = Some Publishing \<and> err_code e = TRANSFER_RECORD_FAILED \<or>
               ledger_status i (ledger_view w) \<in> {Some Running, Some Publishing} \<and>
                 ''transfer_failure_not_saved'' \<in> set (log w)))"

lemma run_new_transfer_triple:
  fixes sftp_open :: "connection \<Rightarrow> ('w service_world_scheme, ('w service_world_scheme, 'q, 'p) connector) io"
  assumes "sftp_contract sftp_open"
  shows "triple True (\<lambda>w. ledger_ok (ledger_view w) \<and> sw_free w = n) (run_new_transfer (application st sftp_open) rq)
    (\<lambda>rec w. ledger_ok (ledger_view w) \<and> sw_free w = n \<and> answer_true (Inr rec) w)
    (\<lambda>e w. ledger_ok (ledger_view w) \<and> sw_free w = n \<and> answer_true (Inl e) w)"
proof (rule tripleI)
  fix w :: "'w service_world_scheme"
  assume w: "ledger_ok (ledger_view w) \<and> sw_free w = n"
  obtain i w1 where u: "uuid4 w = (Inr i, w1)" by (cases "uuids w") (auto simp: uuid4_def)
  have v: "ledger_view w1 = ledger_view w"
    using keepsD [OF keeps_ledger_view [OF keeps_uuid4] u] .
  have bounded: "True \<Longrightarrow> sv_factory (application st sftp_open) c w = (Inr cn, w') \<Longrightarrow> bounded_source cn"
    for c w cn w' using open_connector_quiet [OF assms] by (auto simp: application_def)
  note env = application_env [OF assms, of st]
  note defs = transfer_env.held_def [OF env] transfer_env.gone_def [OF env] transfer_env.unstarted_def [OF env]
  have "triple True
      (\<lambda>(tf, w). ledger_ok (ledger_view w) \<and> ledger_rest (ledger_view w) = n \<and>
        ledger_status i (ledger_view w) = ledger_status i (ledger_view w1) \<and> tf_id tf = i \<and> \<not> tf_published tf)
      (transfer_run (application st sftp_open))
      (\<lambda>rec (tf, w). ledger_ok (ledger_view w) \<and> sw_free w = n \<and> answer_true (Inr rec) w)
      (\<lambda>e (tf, w). ledger_ok (ledger_view w) \<and> sw_free w = n \<and> answer_true (Inl e) w)"
    by (rule triple_conseq [OF transfer_env.run_held [OF env, of True n i "ledger_status i (ledger_view w1)"]])
      (auto simp: defs answer_true_def bounded split: option.splits)
  from tripleD [OF this, of "(new_transfer rq i, w1)"] v w
  have "ends True (\<lambda>rec (tf, w). ledger_ok (ledger_view w) \<and> sw_free w = n \<and> answer_true (Inr rec) w)
     (\<lambda>e (tf, w). ledger_ok (ledger_view w) \<and> sw_free w = n \<and> answer_true (Inl e) w)
     (transfer_run (application st sftp_open) (new_transfer rq i, w1))"
    by (simp add: new_transfer_def ledger_view_def ledger_ok_def ledger_rest_def)
  with u show "ends True (\<lambda>rec w. ledger_ok (ledger_view w) \<and> sw_free w = n \<and> answer_true (Inr rec) w)
     (\<lambda>e w. ledger_ok (ledger_view w) \<and> sw_free w = n \<and> answer_true (Inl e) w)
     (run_new_transfer (application st sftp_open) rq w)"
    by (cases "transfer_run (application st sftp_open) (new_transfer rq i, w1)" rule: run_cases)
      (auto simp: run_new_transfer_def pbind_def total_def)
qed

lemma ledger_ok_free [simp]:
  "ledger_ok (ledger_view (w\<lparr>sw_free := n\<rparr>)) = ledger_ok (ledger_view w)"
  "ledger_status i (ledger_view (w\<lparr>sw_free := n\<rparr>)) = ledger_status i (ledger_view w)"
  by (simp_all add: ledger_ok_def ledger_view_def ledger_status_def)

lemma answer_true_free [simp]: "answer_true r (w\<lparr>sw_free := n\<rparr>) = answer_true r w"
  by (simp add: answer_true_def split: sum.splits option.splits)

lemma answer_true_db_error: "answer_true (Inl (db_error c m)) w"
  by (simp add: answer_true_def db_error_def)

lemma service_run_triple:
  fixes sftp_open :: "connection \<Rightarrow> ('w service_world_scheme, ('w service_world_scheme, 'q, 'p) connector) io"
  assumes "sftp_contract sftp_open"
  shows "triple True
    (\<lambda>w. ledger_ok (ledger_view w) \<and> sw_free w = n \<and> n \<le> MAX_CONCURRENT_TRANSFERS)
    (service_run (application st sftp_open) rq)
    (\<lambda>rec w. ledger_ok (ledger_view w) \<and> sw_free w = n \<and> answer_true (Inr rec) w)
    (\<lambda>e w. ledger_ok (ledger_view w) \<and> sw_free w = n \<and> answer_true (Inl e) w)"
    (is "triple True ?P _ ?Q ?E")
proof -
  let ?sv = "application st sftp_open"
  have valid: "hoare ?P (of_result (validate_filename f)) (\<lambda>_. ?P) ?E" for f
  proof (cases "validate_filename f")
    case (Inl e)
    then obtain m where "e = db_error INVALID_FILENAME m"
      by (auto simp: validate_filename_def split: if_splits option.splits)
    with Inl show ?thesis by (simp add: hoare_def answer_true_db_error)
  qed (simp add: hoare_def)
  have free: "hoare ?P (get sw_free) (\<lambda>m w. ?P w \<and> m = n) ?E"
    by (simp add: hoare_def)
  have take: "hoare (\<lambda>w. ?P w \<and> m = n) (modify (\<lambda>w. w\<lparr>sw_free := m - 1\<rparr>))
      (\<lambda>_ w. ledger_ok (ledger_view w) \<and> sw_free w = n - 1) ?E" if "m \<noteq> 0" for m
    by (auto simp: hoare_def)
  have give: "hoare (\<lambda>w. ledger_ok (ledger_view w) \<and> sw_free w = n - 1 \<and> answer_true r w)
      (release_slot (sv_capacity ?sv)) (\<lambda>_ w. ledger_ok (ledger_view w) \<and> sw_free w = n \<and> answer_true r w) E"
    if "n \<noteq> 0" "n \<le> MAX_CONCURRENT_TRANSFERS" for r E
    using that by (auto simp: hoare_def release_slot_def bind_apply application_def)
  have slot: "triple True (\<lambda>w. ?P w \<and> m = n)
      (if m = 0 then Loops.total (raise (capacity_error (sv_capacity ?sv)))
       else pbind (Loops.total (modify (\<lambda>w. w\<lparr>sw_free := m - 1\<rparr>))) (\<lambda>_.
         ptry_finally (run_new_transfer ?sv rq) (release_slot (sv_capacity ?sv)))) ?Q ?E" for m
  proof (cases "m = 0 \<or> m \<noteq> n \<or> MAX_CONCURRENT_TRANSFERS < n")
    case True
    then show ?thesis
      by (auto simp: triple_def total_def capacity_error_def answer_true_db_error)
  next
    case False
    then have n: "n \<noteq> 0" "n \<le> MAX_CONCURRENT_TRANSFERS" "m = n" by auto
    have "triple True (\<lambda>w. ledger_ok (ledger_view w) \<and> sw_free w = n - 1)
        (ptry_finally (run_new_transfer ?sv rq) (release_slot (sv_capacity ?sv))) ?Q ?E"
      by (rule triple_ptry_finally [OF run_new_transfer_triple [OF assms]]) (rule give [OF n(1,2)])+
    from triple_pbind [OF triple_total [OF take [OF n(1)]] this] n show ?thesis by simp
  qed
  have body: "triple True ?P
      (if rq_source rq = rq_destination rq \<and> rq_source_file rq = rq_destination_file rq
       then Loops.total (raise same_file_error)
       else pbind (Loops.total (get sw_free)) (\<lambda>m.
         if m = 0 then Loops.total (raise (capacity_error (sv_capacity ?sv)))
         else pbind (Loops.total (modify (\<lambda>w. w\<lparr>sw_free := m - 1\<rparr>))) (\<lambda>_.
           ptry_finally (run_new_transfer ?sv rq) (release_slot (sv_capacity ?sv))))) ?Q ?E"
  proof (cases "rq_source rq = rq_destination rq \<and> rq_source_file rq = rq_destination_file rq")
    case True
    then show ?thesis by (simp add: triple_def total_def same_file_error_def answer_true_db_error)
  next
    case False
    then show ?thesis unfolding if_not_P [OF False] by (intro triple_pbind [OF triple_total [OF free] slot])
  qed
  show ?thesis
    unfolding service_run_def
    by (rule triple_pbind [OF triple_total [OF valid]], rule triple_pbind [OF triple_total [OF valid] body])
qed

lemma service_run_ends:
  fixes sftp_open :: "connection \<Rightarrow> ('w service_world_scheme, ('w service_world_scheme, 'q, 'p) connector) io"
  assumes "sftp_contract sftp_open" "transfers_ok (db_transfers (db w))"
    "list_all sqlite_fault (db_faults w)" "sw_free w \<le> MAX_CONCURRENT_TRANSFERS"
  obtains r w' where "service_run (application st sftp_open) rq w = Some (r, w')"
    "sw_free w' = sw_free w" "ledger_ok (ledger_view w')" "answer_true r w'"
proof -
  have "ledger_ok (ledger_view w) \<and> sw_free w = sw_free w \<and> sw_free w \<le> MAX_CONCURRENT_TRANSFERS"
    using assms(2-4) by simp
  from tripleD [OF service_run_triple [OF assms(1)] this, of st rq] show thesis
    by (cases "service_run (application st sftp_open) rq w" rule: run_cases) (auto intro: that)
qed

text \<open>What comes before the start of a record, for valid names.\<close>

lemma service_run_valid:
  assumes "plain_filename (rq_source_file rq)" "plain_filename (rq_destination_file rq)"
  shows "service_run sv rq w =
    (if rq_source rq = rq_destination rq \<and> rq_source_file rq = rq_destination_file rq
     then Some (Inl same_file_error, w)
     else if sw_free w = 0 then Some (Inl (capacity_error (sv_capacity sv)), w)
     else ptry_finally (run_new_transfer sv rq) (release_slot (sv_capacity sv)) (w\<lparr>sw_free := sw_free w - 1\<rparr>))"
  using assms by (simp add: service_run_def pbind_def total_def validate_filename_Inr [THEN iffD2])

section \<open>A small service\<close>

text \<open>
  The directory \<open>/d\<close> with its file \<open>a\<close>, a database that has the connection \<open>docs\<close> to it, and free
  slots; and an application that opens no SFTP connection.
\<close>

definition demo_service :: service_world where
  "demo_service = db_world.extend
     (os_world.extend demo_world
       (db_world.fields
         \<lparr>db_tables = SCHEMA_TABLES, db_metadata = [],
          db_connections = [stored_row demo_store 0 demo_connection], db_transfers = []\<rparr> [] [] []))
     (service_world.fields MAX_CONCURRENT_TRANSFERS [])"

lemma demo_service_sel [simp]:
  "db demo_service = \<lparr>db_tables = SCHEMA_TABLES, db_metadata = [],
     db_connections = [stored_row demo_store 0 demo_connection], db_transfers = []\<rparr>"
  "db_faults demo_service = []" "db_clock demo_service = []" "db_nonces demo_service = []"
  "sw_free demo_service = MAX_CONCURRENT_TRANSFERS" "sw_clock demo_service = []"
  "fs demo_service = demo_fs" "fds demo_service = Map.empty" "next_fd demo_service = 3"
  "ticks demo_service = []" "uuids demo_service = []"
  by (simp_all add: demo_service_def os_world.defs db_world.defs service_world.defs demo_world_def)

definition no_sftp ::
  "connection \<Rightarrow> ('w service_world_scheme, ('w service_world_scheme, unit, unit) connector) io" where
  "no_sftp c = raise (PyError ''RuntimeError'')"

lemma no_sftp_contract: "sftp_contract no_sftp"
  by (simp add: sftp_contract_def no_sftp_def keeps_raise)

lemma demo_transfers_ok: "transfers_ok (db_transfers (db demo_service))"
  by (simp add: transfers_ok_def)

lemma demo_runs:
  obtains r w' where "service_run (application demo_store no_sftp) demo_request demo_service = Some (r, w')"
  by (rule service_run_ends [OF no_sftp_contract demo_transfers_ok, of demo_store demo_request]) auto

section \<open>Properties\<close>

text \<open>
  C14. A request always gets an answer: for every schedule of faults and interference of the system
  calls and every fault of SQLite, and for any SFTP connector whose sources deliver finitely many
  chunks, the service returns; the copy loop does not run forever.
\<close>

theorem service_answers:
  assumes "sftp_contract sftp_open" "transfers_ok (db_transfers (db w))"
    "list_all sqlite_fault (db_faults w)" "sw_free w \<le> MAX_CONCURRENT_TRANSFERS"
  shows "\<exists>r w'. service_run (application st sftp_open) rq w = Some (r, w')"
  using assms by (rule service_run_ends) blast

theorem service_answers_witness:
  "service_run (application demo_store no_sftp) demo_request demo_service \<noteq> None"
  using service_answers [OF no_sftp_contract demo_transfers_ok, of demo_store demo_request] by auto

text \<open>
  C15. The answer agrees with the record. When the service returns a record, the database holds that
  transfer as completed. When it raises, the error is a typed one; if it cites a transfer, that
  record is failed, or it is still publishing because the file was published but the record could
  not be completed, or the log says that the failure could not be saved. No failure is reported for
  a record that is completed.
\<close>

theorem service_answer_true:
  assumes "sftp_contract sftp_open" "transfers_ok (db_transfers (db w))"
    "list_all sqlite_fault (db_faults w)" "sw_free w \<le> MAX_CONCURRENT_TRANSFERS"
    and "service_run (application st sftp_open) rq w = Some (r, w')"
  shows "case r of
      Inr rec \<Rightarrow> tr_status rec = Completed \<and> ledger_status (tr_id rec) (ledger_view w') = Some Completed
    | Inl e \<Rightarrow> is_db_error e \<and>
        (\<forall>i. err_transfer e = Some i \<longrightarrow>
           ledger_status i (ledger_view w') = Some Failed \<or>
           ledger_status i (ledger_view w') = Some Publishing \<and> err_code e = TRANSFER_RECORD_FAILED \<or>
           ledger_status i (ledger_view w') \<in> {Some Running, Some Publishing} \<and>
             ''transfer_failure_not_saved'' \<in> set (log w'))"
proof -
  from assms(1-4) have "answer_true r w'"
    by (rule service_run_ends [where st = st and rq = rq]) (use assms(5) in simp)
  then show ?thesis by (auto simp: answer_true_def split: sum.splits option.splits)
qed

theorem service_answer_true_witness:
  "\<exists>r w'. service_run (application demo_store no_sftp) demo_request demo_service = Some (r, w') \<and>
    (\<forall>e. r = Inl e \<longrightarrow> is_db_error e)"
proof -
  obtain r w' where run: "service_run (application demo_store no_sftp) demo_request demo_service = Some (r, w')"
    by (rule demo_runs)
  from service_answer_true [OF no_sftp_contract demo_transfers_ok _ _ run] run show ?thesis
    by (auto split: sum.splits)
qed

text \<open>
  C16. A slot that a request takes is given back, however the request ends, and the table of
  transfers stays well-formed.
\<close>

theorem service_slots:
  assumes "sftp_contract sftp_open" "transfers_ok (db_transfers (db w))"
    "list_all sqlite_fault (db_faults w)" "sw_free w \<le> MAX_CONCURRENT_TRANSFERS"
    and "service_run (application st sftp_open) rq w = Some (r, w')"
  shows "sw_free w' = sw_free w \<and> transfers_ok (db_transfers (db w'))"
  using assms(1-4) by (rule service_run_ends [where st = st and rq = rq]) (use assms(5) in simp)

theorem service_slots_witness:
  "\<exists>r w'. service_run (application demo_store no_sftp) demo_request demo_service = Some (r, w') \<and>
    sw_free w' = MAX_CONCURRENT_TRANSFERS"
proof -
  obtain r w' where run: "service_run (application demo_store no_sftp) demo_request demo_service = Some (r, w')"
    by (rule demo_runs)
  from service_slots [OF no_sftp_contract demo_transfers_ok _ _ run] run show ?thesis by auto
qed

end
