(* ===== verification/Local_Copy.thy ===== *)
theory Local_Copy
  imports Local_Source
begin

text \<open>
  A source and a staging file of local connectors open at the same time, in a calm world: reading
  moves the offset of one descriptor only, writing changes one inode only, so the two do not
  disturb each other, and what was read and written adds up to the file.
\<close>

section \<open>Where a name leads\<close>

text \<open>
  The files are those of \<open>f\<close>, seen from the working directory \<open>cw\<close>; \<open>points\<close> says that the connection
  leads to the directory \<open>root\<close> and that the file is not a symbolic link.
\<close>

definition with_files :: "fs \<Rightarrow> path \<Rightarrow> 'w os_world_scheme \<Rightarrow> bool" where
  "with_files f cw w \<longleftrightarrow> os_ok w \<and> fs w = f \<and> cwd w = cw"

definition rooted :: "pystr \<Rightarrow> path \<Rightarrow> path" where
  "rooted text cw = (if startswith text [47] then components text else cw @ components text)"

definition points :: "local_connector \<Rightarrow> pystr \<Rightarrow> fs \<Rightarrow> path \<Rightarrow> path \<Rightarrow> bool" where
  "points c g f cw root \<longleftrightarrow>
     links f (rooted (lc_root c) cw) = Some root \<and> links f (root @ [g]) = Some (root @ [g])"

lemma with_files_ticks: "with_files f cw w \<Longrightarrow> calm (w\<lparr>ticks := ts\<rparr>) \<Longrightarrow> with_files f cw (w\<lparr>ticks := ts\<rparr>)"
  by (auto simp: with_files_def os_ok_def)

lemma inspects_files:
  assumes "inspects m" "m w = (r, w')" "with_files f cw w"
  shows "with_files f cw w' \<and> fds w' = fds w \<and> next_fd w' = next_fd w"
proof -
  from assms(3) have "calm w" by (simp add: with_files_def os_ok_def)
  from inspectsD [OF assms(1) this assms(2)] with_files_ticks [OF assms(3)] show ?thesis by auto
qed

lemma local_resolve_points:
  assumes "local_resolve c g w = (Inr (r, p), w')" "with_files f cw w" "points c g f cw root"
  shows "r = root \<and> p = root @ [g] \<and> plain_filename g"
proof -
  from assms(1) have g: "validate_filename g = Inr g"
    by (cases g rule: validate_filename_cases) (auto simp: local_resolve_def bind_apply)
  from assms(1) g obtain w1 where root: "local_root c w = (Inr r, w1)"
    "\<exists>w2. path_resolve (r @ [g]) w1 = (Inr p, w2)"
    by (auto simp: local_resolve_def bind_eq_Inr translate_eq_Inr split: if_splits)
  from root(1) obtain q w2 w3 where q: "path_of_text (lc_root c) w = (Inr q, w2)"
    "path_resolve_strict q w2 = (Inr r, w3)"
    by (auto simp: local_root_def bind_eq_Inr translate_eq_Inr split: if_splits)
  from q(1) assms(2) have w2: "q = rooted (lc_root c) cw" "w2 = w"
    by (auto simp: path_of_text_def rooted_def with_files_def)
  have calm: "calm w" "fs w = f" using assms(2) by (simp_all add: with_files_def os_ok_def)
  with path_resolve_strict_calm [of w q r w3] q(2) w2 assms(3) have r: "r = root"
    by (simp add: points_def)
  from inspects_files [OF inspects_local_root root(1) assms(2)] have w1: "calm w1" "fs w1 = f"
    by (auto simp: with_files_def os_ok_def)
  from root(2) obtain w4 where "path_resolve (r @ [g]) w1 = (Inr p, w4)" by blast
  with w1 r assms(3) have "p = root @ [g]"
    by (auto simp: path_resolve_def try_except_apply syscall_calm points_def
        split: outcome.splits if_splits)
  with r g show ?thesis by (simp add: validate_filename_Inr)
qed

section \<open>Opening and closing the source\<close>

text \<open>The source is open on inode \<open>j\<close>.\<close>

definition src_on :: "nat \<Rightarrow> file_source \<Rightarrow> 'w os_world_scheme \<Rightarrow> bool" where
  "src_on j s w \<longleftrightarrow> (\<exists>p. fds w (src_descriptor s) = Some \<lparr>of_inode = j, of_pos = p\<rparr>)"

text \<open>What a reader with a limit gets of a file.\<close>

definition first_bytes :: "nat option \<Rightarrow> bytes \<Rightarrow> bytes" where
  "first_bytes limit data = (case limit of None \<Rightarrow> data | Some n \<Rightarrow> take n data)"

lemma first_bytes_prefix [simp]: "\<exists>rest. data = first_bytes limit data @ rest"
  by (cases limit) (auto simp: first_bytes_def intro: exI [of _ "drop n data" for n] append_take_drop_id [symmetric])

lemma length_first_bytes [simp]:
  "length (first_bytes limit data) = (case limit of None \<Rightarrow> length data | Some n \<Rightarrow> min (length data) n)"
  by (cases limit) (simp_all add: first_bytes_def)

lemma local_read_enter_limited:
  assumes "local_read_enter c g limit w = (r, w')" "with_files f cw w" "points c g f cw root"
  shows "with_files f cw w' \<and>
    (case r of
       Inl e \<Rightarrow> fds w' = fds w
     | Inr s \<Rightarrow> \<exists>j. lookup f (root @ [g]) = Some j \<and> kind (inodes f j) = Regular \<and> src_on j s w' \<and>
         src_at s w' (first_bytes limit (content (inodes f j))) \<and> src_descriptor s < next_fd w')"
proof -
  obtain x1 w1 where s1: "local_resolve c g w = (x1, w1)" by (rule prod.exhaust)
  note w1 = inspects_files [OF inspects_local_resolve s1 assms(2)]
  show ?thesis
  proof (cases x1)
    case (Inl e)
    with assms(1) s1 w1 show ?thesis by (auto simp: local_read_enter_def bind_apply)
  next
    case (Inr rp)
    obtain r0 p where rp: "rp = (r0, p)" by (rule prod.exhaust)
    from local_resolve_points [OF s1 [unfolded Inr rp] assms(2,3)] have p: "p = root @ [g]" by simp
    obtain x2 w2 where s2: "sys_open_read p w1 = (x2, w2)" by (rule prod.exhaust)
    have c1: "calm w1" "fs w1 = f" "cwd w1 = cw" "\<forall>d \<ge> next_fd w1. fds w1 d = None" "fs_ok f"
      using w1 by (auto simp: with_files_def os_ok_def)
    from c1(1) s2 show ?thesis
    proof (cases rule: sys_open_read_calm)
      case (fail e)
      with assms(1) s1 s2 Inr rp c1 w1 show ?thesis
        by (auto simp: local_read_enter_def bind_apply translate_apply with_files_def os_ok_def)
    next
      case (ok j)
      let ?d = "next_fd w1"
      define body :: "('a os_world_scheme, file_source) io" where
        "body = bind
           (translate (on_oserror (\<lambda>_. db_error LOCAL_IO_ERROR
               (lit ''Cannot inspect the opened file '' @ [39] @ g @ [39])))
             (bind (sys_fstat ?d) (\<lambda>opened.
              bind (only_if (st_kind opened = Regular) (sys_set_blocking ?d)) (\<lambda>_. ret opened))))
           (\<lambda>opened.
             if st_kind opened \<noteq> Regular then
               raise (db_error FILE_NOT_FOUND ([39] @ g @ [39] @ lit '' is not a regular file''))
             else ret \<lparr>src_descriptor = ?d, src_remaining = (case limit of None \<Rightarrow> st_size opened | Some n \<Rightarrow> min (st_size opened) n),
               src_filename = g\<rparr>)"
      have run: "local_read_enter c g limit w =
          try_except body (\<lambda>e. bind (suppress_oserror (sys_close ?d)) (\<lambda>_. raise e)) w2"
        using s1 s2 Inr rp ok
        by (simp add: local_read_enter_def bind_apply translate_apply body_def cong: if_cong)
      have body: "inspects body" unfolding body_def by (intro inspects_rules)
      have w2: "with_files f cw w2" "fds w2 ?d = Some \<lparr>of_inode = j, of_pos = 0\<rparr>" "next_fd w2 = Suc ?d"
        "fds w2 = (fds w1)(?d \<mapsto> \<lparr>of_inode = j, of_pos = 0\<rparr>)"
        using ok c1 by (auto simp: with_files_def os_ok_def)
      obtain x3 w3 where s3: "body w2 = (x3, w3)" by (rule prod.exhaust)
      note w3 = inspects_files [OF body s3 w2(1)]
      show ?thesis
      proof (cases x3)
        case (Inl e)
        obtain x4 w4 where s4: "sys_close ?d w3 = (x4, w4)" by (rule prod.exhaust)
        have "calm w3" using w3 by (simp add: with_files_def os_ok_def)
        note w4 = sys_close_calm [OF this s4]
        have "(fds w3)(?d := None) = fds w" using w3 w2(4) c1(4) w1 by (auto simp: fun_eq_iff)
        moreover have "r = Inl e" "w' = w4"
          using assms(1) run s3 Inl s4 w4
          by (auto simp: try_except_apply bind_apply suppress_oserror_def)
        moreover have "\<forall>d \<ge> next_fd w2. fds w d = None" using w2(3) c1(4) w1 by simp
        ultimately show ?thesis using w4 w3 c1 w1 by (auto simp: with_files_def os_ok_def)
      next
        case (Inr src)
        then have r: "r = Inr src" "w' = w3" using assms(1) run s3 by (auto simp: try_except_apply)
        from s3 Inr obtain opened w4 where o: "sys_fstat ?d w2 = (Inr opened, w4)" "st_kind opened = Regular"
          "src = \<lparr>src_descriptor = ?d, src_remaining = (case limit of None \<Rightarrow> st_size opened | Some n \<Rightarrow> min (st_size opened) n),
               src_filename = g\<rparr>"
          by (auto simp: body_def bind_eq_Inr translate_eq_Inr split: if_splits)
        have "calm w2" using w2 by (simp add: with_files_def os_ok_def)
        from this w2(2) o(1) have "opened = stat_of (inodes (fs w2) j)"
          by (cases rule: sys_fstat_calm) auto
        with o r w3 w2 ok c1 p show ?thesis
          by (auto simp: stat_of_def src_on_def src_at_def with_files_def split: option.split
            intro!: exI [of _ j])
      qed
    qed
  qed
qed

lemma local_read_enter_calm:
  assumes "local_read_enter c g None w = (r, w')" "with_files f cw w" "points c g f cw root"
  shows "with_files f cw w' \<and>
    (case r of
       Inl e \<Rightarrow> fds w' = fds w
     | Inr s \<Rightarrow> \<exists>j. lookup f (root @ [g]) = Some j \<and> kind (inodes f j) = Regular \<and> src_on j s w' \<and>
         src_at s w' (content (inodes f j)) \<and> src_descriptor s < next_fd w')"
  using local_read_enter_limited [OF assms] unfolding first_bytes_def option.case .

lemma FileSource_read_calm:
  assumes "FileSource_read n (s, w) = (r, (s', w'))" "calm w" "src_on j s w"
  shows "calm w' \<and> fs w' = fs w \<and> next_fd w' = next_fd w \<and> src_on j s' w' \<and>
    src_descriptor s' = src_descriptor s \<and> (\<forall>e. e \<noteq> src_descriptor s \<longrightarrow> fds w' e = fds w e)"
proof (cases "src_remaining s = 0")
  case True
  with assms show ?thesis by (simp add: FileSource_read_def bind_apply)
next
  case False
  from assms(3) obtain p where h: "fds w (src_descriptor s) = Some \<lparr>of_inode = j, of_pos = p\<rparr>"
    by (auto simp: src_on_def)
  obtain x w1 where x: "sys_read (src_descriptor s) (min n (src_remaining s)) w = (x, w1)" by (rule prod.exhaust)
  from assms(2) h x have w1: "calm w1 \<and> fs w1 = fs w \<and> next_fd w1 = next_fd w \<and>
      (\<exists>p. fds w1 (src_descriptor s) = Some \<lparr>of_inode = j, of_pos = p\<rparr>) \<and>
      (\<forall>e. e \<noteq> src_descriptor s \<longrightarrow> fds w1 e = fds w e)"
    by (cases rule: sys_read_calm) (use assms(2) h in auto)
  have "w' = w1 \<and> src_descriptor s' = src_descriptor s"
    using assms(1) False x
    by (cases x) (auto simp: FileSource_read_def bind_apply translate_apply on_world_apply split: if_splits)
  with w1 show ?thesis by (simp add: src_on_def)
qed

lemma local_read_exit_calm:
  assumes "local_read_exit failure (s, w) = (r, (s', w'))" "calm w"
  shows "calm w' \<and> fs w' = fs w"
proof -
  obtain x w1 where x: "sys_close (src_descriptor s) w = (x, w1)" by (rule prod.exhaust)
  from sys_close_calm [OF assms(2) this] assms x show ?thesis
    by (cases failure) (auto simp: local_read_exit_def try_finally_apply bind_apply suppress_oserror_def
        try_except_apply on_world_apply)
qed

section \<open>The copy\<close>

text \<open>Everything but the staging file is as in \<open>f\<close>.\<close>

definition kept :: "fs \<Rightarrow> path \<Rightarrow> 'w os_world_scheme \<Rightarrow> bool" where
  "kept f stage w \<longleftrightarrow> calm w \<and> (\<forall>q. q \<noteq> stage \<longrightarrow> lookup (fs w) q = lookup f q) \<and>
     (\<forall>j. j \<noteq> next_ino f \<longrightarrow> inodes (fs w) j = inodes f j)"

text \<open>The staging file has the first bytes of the source, which still owes the others.\<close>

definition copying :: "fs \<Rightarrow> bytes \<Rightarrow> bytes \<Rightarrow> local_write \<Rightarrow> file_source \<Rightarrow> 'w os_world_scheme \<Rightarrow> bool" where
  "copying f staged owed k s w \<longleftrightarrow>
     (\<exists>d j. staging d (next_ino f) k w staged \<and> src_on j s w \<and> src_at s w owed \<and> src_descriptor s \<noteq> d \<and>
        j \<noteq> next_ino f \<and> kept f (lw_stage k) w)"

text \<open>The sink is finished and the staging file has it all.\<close>

definition copied :: "fs \<Rightarrow> bytes \<Rightarrow> local_write \<Rightarrow> 'w os_world_scheme \<Rightarrow> bool" where
  "copied f data k w \<longleftrightarrow> sk_descriptor k = None \<and> kept f (lw_stage k) w \<and> fds w (next_fd w) = None \<and>
     content (inodes (fs w) (next_ino f)) = data \<and> durable (inodes (fs w) (next_ino f)) = data \<and>
     kind (inodes (fs w) (next_ino f)) = Regular \<and>
     lookup (fs w) (lw_stage k) = Some (next_ino f) \<and> lookup (fs w) (lw_destination k) \<noteq> Some (next_ino f) \<and>
     lw_destination k \<noteq> lw_stage k \<and>
     (\<exists>j. lookup (fs w) (lw_root k) = Some j \<and> kind (inodes (fs w) j) = Directory) \<and>
     lw_root k \<noteq> lw_stage k \<and> lw_root k \<noteq> lw_destination k"

text \<open>The two ends of a transfer: the destination has the data, or it and its file are as before.\<close>

definition delivered :: "path \<Rightarrow> bytes \<Rightarrow> 'w os_world_scheme \<Rightarrow> bool" where
  "delivered dest data w \<longleftrightarrow> (\<exists>i. lookup (fs w) dest = Some i \<and> kind (inodes (fs w) i) = Regular \<and>
     content (inodes (fs w) i) = data \<and> durable (inodes (fs w) i) = data)"

definition untouched :: "path \<Rightarrow> fs \<Rightarrow> 'w os_world_scheme \<Rightarrow> bool" where
  "untouched dest f w \<longleftrightarrow> lookup (fs w) dest = lookup f dest \<and>
     (\<forall>j. lookup f dest = Some j \<longrightarrow> inodes (fs w) j = inodes f j)"

lemma copying_read:
  assumes "FileSource_read n (s, w) = (r, (s', w'))" "copying f staged owed k s w" "0 < n"
  shows "case r of
      Inl e \<Rightarrow> copying f staged owed k s' w'
    | Inr c \<Rightarrow> \<exists>rest. owed = c @ rest \<and> copying f staged rest k s' w' \<and> (c = [] \<longrightarrow> owed = [])"
proof -
  from assms(2) obtain d j where c: "staging d (next_ino f) k w staged" "src_on j s w" "src_at s w owed"
    "src_descriptor s \<noteq> d" "j \<noteq> next_ino f" "kept f (lw_stage k) w" by (auto simp: copying_def)
  have calm: "calm w" using c by (simp add: kept_def)
  note r = FileSource_read_calm [OF assms(1) calm c(2)]
  have "src_descriptor s < next_fd w"
    using c(1,2) by (force simp: staging_def src_on_def not_le [symmetric])
  with r c have "staging d (next_ino f) k w' staged"
    unfolding staging_def sink_at_def by (metis leD)
  moreover have "kept f (lw_stage k) w'" using r c by (simp add: kept_def)
  ultimately have step: "copying f staged rest k s' w'" if "src_at s' w' rest" for rest
    using r c that by (auto simp: copying_def)
  from FileSource_read_growing [OF assms(1) calm_growing [OF calm] c(3) assms(3)] step show ?thesis
    by (cases r) auto
qed

lemma copying_write:
  assumes "FileSink_write c (k, w) = (r, (k', w'))" "copying f staged owed k s w"
  shows "kept f (lw_stage k') w' \<and> lw_stage k' = lw_stage k \<and> lw_destination k' = lw_destination k \<and>
    (r = Inr () \<longrightarrow> copying f (staged @ c) owed k' s w')"
proof -
  from assms(2) obtain d j where c: "staging d (next_ino f) k w staged" "src_on j s w" "src_at s w owed"
    "src_descriptor s \<noteq> d" "j \<noteq> next_ino f" "kept f (lw_stage k) w" by (auto simp: copying_def)
  from staging_write [OF assms(1) c(1)] obtain n where n: "n \<le> length c"
    "staging d (next_ino f) k' w' (staged @ take n c)" "r = Inr () \<longrightarrow> n = length c"
    "touches (next_ino f) d w w'" "lw_stage k' = lw_stage k" "lw_destination k' = lw_destination k" by blast
  have kept: "kept f (lw_stage k') w'" using c(6) n(4,5) by (simp add: kept_def touches_def)
  have same: "fds w' (src_descriptor s) = fds w (src_descriptor s)"
    "inodes (fs w') j = inodes (fs w) j" using n(4) c(4,5) by (simp_all add: touches_def)
  then have "src_on j s w'" "src_at s w' owed"
    using c(2,3) by (auto simp: src_on_def src_at_def)
  with kept n c have "r = Inr () \<longrightarrow> copying f (staged @ c) owed k' s w'"
    by (auto simp: copying_def)
  with kept n show ?thesis by simp
qed

lemma copying_kept: "copying f staged owed k s w \<Longrightarrow> kept f (lw_stage k) w"
  by (auto simp: copying_def)

lemma copying_finish:
  assumes "FileSink_finish (k, w) = (r, (k', w'))" "copying f data [] k s w"
  shows "kept f (lw_stage k') w' \<and> lw_stage k' = lw_stage k \<and> lw_destination k' = lw_destination k \<and>
    (r = Inr () \<longrightarrow> copied f data k' w')"
proof -
  from assms(2) obtain d where c: "staging d (next_ino f) k w data" "kept f (lw_stage k) w"
    by (auto simp: copying_def)
  note st = c(1) [unfolded staging_def sink_at_def]
  have f: "touches (next_ino f) d w w'" "fds w' d = None" "k' = k\<lparr>sk_descriptor := None\<rparr>"
    "content (inodes (fs w') (next_ino f)) = data" "kind (inodes (fs w') (next_ino f)) = Regular"
    "r = Inr () \<Longrightarrow> durable (inodes (fs w') (next_ino f)) = data"
    using FileSink_finish_calm [OF assms(1), of d "next_ino f" "length data"] st by auto
  have kept: "kept f (lw_stage k') w'" using c(2) f(1,3) by (simp add: kept_def touches_def)
  moreover have "copied f data k' w'" if "r = Inr ()"
    unfolding copied_def using st f(1-5) f(6) [OF that] kept by (auto simp: touches_def)
  ultimately show ?thesis using f(3) by simp
qed

lemma fs_ok_old: "fs_ok f \<Longrightarrow> lookup f p = Some i \<Longrightarrow> i \<noteq> next_ino f"
  by (auto simp: fs_ok_def)

lemma kept_untouched:
  assumes "kept f stage w" "dest \<noteq> stage" "fs_ok f"
  shows "untouched dest f w"
  using assms by (auto simp: kept_def untouched_def dest: fs_ok_old)

text \<open>The exit after a failure, and after a finished copy.\<close>

lemma kept_exit_failed:
  assumes "local_write_exit (Some e) (k, w) = (r, (k', w'))" "kept f (lw_stage k) w"
  shows "r = Inl e \<and> kept f (lw_stage k) w'"
proof -
  obtain x k1 w1 where c: "cleanup (k, w) = (x, (k1, w1))" by (metis prod.exhaust)
  have "calm w" using assms(2) by (simp add: kept_def)
  from cleanup_calm [OF c this] assms c show ?thesis
    by (auto simp: local_write_exit_eq try_finally_apply bind_apply kept_def)
qed

lemma copied_exit:
  assumes "local_write_exit None (k, w) = (r, (k', w'))" "copied f data k w" "fs_ok f"
  shows "calm w' \<and> (case r of
      Inl e \<Rightarrow> untouched (lw_destination k) f w'
    | Inr _ \<Rightarrow> delivered (lw_destination k) data w' \<and>
        (lw_overwrite k \<or> lookup f (lw_destination k) = None))"
proof -
  from assms(2) obtain j where c: "sk_descriptor k = None" "kept f (lw_stage k) w" "fds w (next_fd w) = None"
     "content (inodes (fs w) (next_ino f)) = data" "durable (inodes (fs w) (next_ino f)) = data"
     "kind (inodes (fs w) (next_ino f)) = Regular"
     "lookup (fs w) (lw_stage k) = Some (next_ino f)" "lookup (fs w) (lw_destination k) \<noteq> Some (next_ino f)"
     "lw_destination k \<noteq> lw_stage k" "lookup (fs w) (lw_root k) = Some j" "kind (inodes (fs w) j) = Directory"
     "lw_root k \<noteq> lw_stage k" "lw_root k \<noteq> lw_destination k" by (auto simp: copied_def)
  have calm: "calm w" using c(2) by (simp add: kept_def)
  have fin: "FileSink_finish (k, w) = (Inr (), (k, w))"
    using c(1) by (simp add: FileSink_finish_def bind_apply)
  have "k = k\<lparr>sk_descriptor := None\<rparr>" using c(1) by simp
  note e = local_write_exit_finished [OF assms(1) fin this calm c(3) c(7-13)]
  have dest: "lookup (fs w) (lw_destination k) = lookup f (lw_destination k)"
    using c(2,9) by (simp add: kept_def)
  have "untouched (lw_destination k) f w'" if "r \<noteq> Inr ()"
    using e that dest c(2,8) assms(3) by (auto simp: untouched_def kept_def)
  with e dest c show ?thesis by (cases r) (auto simp: delivered_def)
qed

text \<open>Entering the block.\<close>

lemma copying_enter:
  assumes "local_write_enter c g sid overwrite w = (r, w')" "with_files f cw w" "points c g f cw root"
    and "stage_name sid = Inr n" "src_on j s w" "src_at s w data" "j \<noteq> next_ino f"
  shows "case r of
      Inl e \<Rightarrow> calm w' \<and> fs w' = f
    | Inr k \<Rightarrow> copying f [] data k s w' \<and> lw_destination k = root @ [g] \<and> lw_overwrite k = overwrite \<and>
        lw_stage k \<noteq> root @ [g]"
proof -
  obtain x1 w1 where s1: "local_resolve c g w = (x1, w1)" by (rule prod.exhaust)
  show ?thesis
  proof (cases x1)
    case (Inl e)
    with assms(1) s1 inspects_files [OF inspects_local_resolve s1 assms(2)] show ?thesis
      by (auto simp: local_write_enter_def bind_apply with_files_def os_ok_def)
  next
    case (Inr rp)
    obtain r0 p where rp: "rp = (r0, p)" by (rule prod.exhaust)
    from local_resolve_points [OF s1 [unfolded Inr rp] assms(2,3)]
    have p: "r0 = root" "p = root @ [g]" "plain_filename g" by auto
    have w: "os_ok w" "fs w = f" using assms(2) by (simp_all add: with_files_def)
    have "g \<noteq> n" using p(3) stage_name_reserved [OF assms(4)] by (auto simp: plain_filename_def)
    then have ne: "p \<noteq> root @ [n]" using p by simp
    from assms(1) w(1) s1 [unfolded Inr rp p(1)] assms(4) ne show ?thesis
    proof (cases rule: local_write_enter_calm)
      case (fail e)
      then show ?thesis using w(2) by auto
    next
      case (ok k)
      have kept: "kept f (lw_stage k) w'"
        using ok w by (auto simp: kept_def staging_def)
      have desc: "src_descriptor s \<noteq> next_fd w" using assms(5) w(1) by (auto simp: src_on_def os_ok_def)
      then have "src_on j s w'" "src_at s w' data"
        using assms(5-7) ok(9,10) w by (auto simp: src_on_def src_at_def)
      with ok kept desc assms(7) w p \<open>g \<noteq> n\<close> show ?thesis by (auto simp: copying_def)
    qed
  qed
qed

end
