(* ===== verification/Transfer_Local.thy ===== *)
theory Transfer_Local
  imports Transfer_Correct Local_Copy
begin

text \<open>
  A transfer between two local connections, end to end: the data level of the proof. The records are
  the subject of \<open>Transfer_Laws\<close>; both levels are joined in the last theorem.
\<close>

section \<open>The store does not touch files\<close>

text \<open>The files and what is open, and the saved connections.\<close>

definition scene ::
  "'w db_world_scheme \<Rightarrow> fs \<times> (nat \<rightharpoonup> open_file) \<times> nat \<times> tick list \<times> path \<times> connection_row list" where
  "scene w = (fs w, fds w, next_fd w, ticks w, cwd w, db_connections (db w))"

lemma scene_eq:
  "scene w' = scene w \<longleftrightarrow> fs w' = fs w \<and> fds w' = fds w \<and> next_fd w' = next_fd w \<and> ticks w' = ticks w \<and>
     cwd w' = cwd w \<and> db_connections (db w') = db_connections (db w)"
  by (auto simp: scene_def)

lemmas files_defs = with_files_def os_ok_def src_on_def src_at_def copying_def staging_def sink_at_def kept_def
  copied_def untouched_def delivered_def calm_def

lemma scene_cong:
  assumes "scene w' = scene w"
  shows "with_files f cw w' = with_files f cw w" "src_on j s w' = src_on j s w"
    "src_at s w' owed = src_at s w owed" "copying f staged owed k s w' = copying f staged owed k s w"
    "kept f stage w' = kept f stage w" "copied f data k w' = copied f data k w"
    "untouched dest f w' = untouched dest f w" "delivered dest data w' = delivered dest data w"
    "calm w' = calm w"
  using assms unfolding scene_eq by (auto simp only: files_defs)

lemma keeps_connected:
  assumes "keeps db_connections body"
  shows "keeps (scene :: 'w db_world_scheme \<Rightarrow> _) (connected body)"
proof (rule keepsI)
  fix w :: "'w db_world_scheme" and r w' assume run: "connected body w = (r, w')"
  show "scene w' = scene w"
  proof (cases r)
    case (Inl e)
    with connected_Inl run show ?thesis by (fastforce simp: scene_eq)
  next
    case (Inr x)
    with connected_Inr [of body w x w'] run keepsD [OF assms] show ?thesis by (fastforce simp: scene_eq)
  qed
qed

lemma keeps_scene_steps [keeps_rules]:
  "keeps scene now" "keeps scene monotonic" "keeps scene (warning ev)" "keeps scene uuid4"
  by (auto simp: keeps_def scene_eq now_def monotonic_def warning_def uuid4_def split: list.splits)

lemma keeps_recording [keeps_rules]: "keeps db_connections body \<Longrightarrow> keeps scene (recording i body)"
  unfolding recording_def by (intro keeps_translate keeps_connected)

lemma keeps_table [keeps_rules]: "keeps v m \<Longrightarrow> keeps v (on_table t m)"
  unfolding on_table_def by (intro keeps_rules)

lemma keeps_change [keeps_rules]: "keeps db_connections (change i p g)"
  unfolding change_def by (intro keeps_rules keeps_modify) simp

lemma keeps_find [keeps_rules]:
  "keeps db_connections (find_connection name)" "keeps db_connections (find_transfer i)"
  unfolding find_connection_def find_transfer_def by (intro keeps_rules)+

lemma keeps_insert_transfer [keeps_rules]:
  "keeps db_connections (modify (\<lambda>d. d\<lparr>db_transfers := g d\<rparr>))"
  by (rule keeps_modify) simp

lemma keeps_ledger [keeps_rules]:
  "keeps scene (store_get st name)" "keeps scene (start_transfer i rq)"
  "keeps scene (record_progress i n)" "keeps scene (mark_publishing i n)"
  "keeps scene (finish_transfer i)" "keeps scene (fail_transfer i n p c m)"
  unfolding store_get_def start_transfer_def record_progress_def mark_publishing_def finish_transfer_def
    fail_transfer_def transition_def
  by (intro keeps_rules keeps_connected)+

text \<open>A saved connection, if it is read at all, is read as it was saved.\<close>

definition saved :: "connection_store \<Rightarrow> connection_row list \<Rightarrow> pystr \<Rightarrow> pystr \<Rightarrow> bool" where
  "saved st rows name p \<longleftrightarrow> cipher_ok st \<and> ip_canonical (st_ip st) \<and>
     connection_ok (st_ip st) (LocalConnection name p) \<and>
     (\<exists>n. find (\<lambda>r. cr_name r = name) rows = Some (stored_row st n (LocalConnection name p)))"

lemma store_get_saved:
  fixes w :: "'w db_world_scheme"
  assumes "store_get st name w = (Inr c, w')" "saved st (db_connections (db w)) name p"
  shows "c = LocalConnection name p"
proof -
  from assms(2) obtain n where s: "cipher_ok st" "ip_canonical (st_ip st)"
    "connection_ok (st_ip st) (LocalConnection name p)"
    "find (\<lambda>r. cr_name r = conn_name (LocalConnection name p)) (db_connections (db w)) =
       Some (stored_row st n (LocalConnection name p))" by (auto simp: saved_def)
  from assms(1) obtain found w1 where f: "connected (find_connection name) w = (Inr found, w1)"
    by (auto simp: store_get_def bind_eq_Inr)
  from connected_Inr [OF this] have t: "found = find (\<lambda>r. cr_name r = name) (db_connections (db w))"
    "lit ''connections'' \<in> set (db_tables (db w))"
    by (auto simp: find_connection_def on_table_def bind_apply split: if_splits)
  let ?w = "w\<lparr>db_faults := []\<rparr>"
  have "store_get st (conn_name (LocalConnection name p)) ?w = (Inr (LocalConnection name p), ?w)"
    by (rule store_get_stored [OF _ _ _ s(1,2,3)]) (use s(4) t(2) in simp_all)
  moreover have "connected (find_connection name) ?w = (Inr found, ?w)"
    using t by (simp add: connected_no_fault find_connection_def on_table_def bind_apply)
  ultimately show ?thesis
    using assms(1) f
    by (auto simp: store_get_def bind_apply raise_def of_result_def split: option.splits sum.splits)
qed

section \<open>The streams\<close>

text \<open>What the sink's methods leave of the write block.\<close>

lemma keeps_beside [keeps_rules]: "keeps (\<lambda>s. v (fst s)) (on_world m)"
  by (rule keepsI) (auto simp: on_world_def split: prod.splits)

lemma keeps_sink_field:
  assumes "\<And>k. v (g k) = v k"
  shows "keeps (\<lambda>s. v (fst s)) (assign g)"
  using assms by (auto simp: keeps_def assign_def split: prod.splits)

lemma keeps_FileSink_write_more: "keeps (\<lambda>s. file_sink.more (fst s)) (FileSink_write c)"
proof (rule keepsI)
  fix s :: "'k file_sink_scheme \<times> 'w os_world_scheme" and r s' assume "FileSink_write c s = (r, s')"
  then show "file_sink.more (fst s') = file_sink.more (fst s)"
  proof (induction c s arbitrary: r s' rule: FileSink_write.induct)
    case (1 view s)
    have once: "keeps (\<lambda>s. file_sink.more (fst s)) (FileSink_write_once view)"
      unfolding FileSink_write_once_def write_errors_def by (intro keeps_rules)
    obtain x k w where x: "FileSink_write_once view s = (x, (k, w))" by (metis prod.exhaust)
    have k: "file_sink.more k = file_sink.more (fst s)" using keepsD [OF once x] by simp
    show ?case
    proof (cases "view = []")
      case True
      with 1(2) show ?thesis by simp
    next
      case False
      show ?thesis
      proof (cases x)
        case (Inl e)
        with 1(2) False x k show ?thesis by (auto simp: FileSink_write.simps [of view s])
      next
        case (Inr n)
        let ?s = "(k\<lparr>sk_bytes_written := sk_bytes_written k + n\<rparr>, w)"
        have "FileSink_write (drop n view) ?s = (r, s')"
          using 1(2) False x Inr by (simp add: FileSink_write.simps [of view s])
        from 1(1) [OF False x [symmetric, unfolded Inr] refl refl this] k show ?thesis by simp
      qed
    qed
  qed
qed

lemma keeps_FileSink_finish_more: "keeps (\<lambda>s. file_sink.more (fst s)) FileSink_finish"
  unfolding FileSink_finish_def write_errors_def suppress_oserror_def
  by (intro keeps_rules keeps_sink_field) simp_all

lemma lw_overwrite_more: "file_sink.more k' = file_sink.more k \<Longrightarrow> lw_overwrite k' = lw_overwrite (k :: local_write)"
  by (cases k; cases k') simp

text \<open>A write block to \<open>dest\<close> that has changed its staging file only.\<close>

definition writing :: "fs \<Rightarrow> path \<Rightarrow> bool \<Rightarrow> local_write \<Rightarrow> 'w os_world_scheme \<Rightarrow> bool" where
  "writing f dest ow k w \<longleftrightarrow> kept f (lw_stage k) w \<and> lw_stage k \<noteq> dest \<and> lw_destination k = dest \<and>
     lw_overwrite k = ow"

definition moving ::
  "fs \<Rightarrow> bytes \<Rightarrow> path \<Rightarrow> bool \<Rightarrow> local_write \<Rightarrow> file_source \<Rightarrow> 'w os_world_scheme \<Rightarrow> bool" where
  "moving f data dest ow k r w \<longleftrightarrow>
     (\<exists>staged owed. data = staged @ owed \<and> copying f staged owed k r w) \<and> writing f dest ow k w"

text \<open>The chunk just read, which is not yet staged.\<close>

definition carrying ::
  "fs \<Rightarrow> bytes \<Rightarrow> path \<Rightarrow> bool \<Rightarrow> bytes \<Rightarrow> local_write \<Rightarrow> file_source \<Rightarrow> 'w os_world_scheme \<Rightarrow> bool" where
  "carrying f data dest ow c k r w \<longleftrightarrow>
     (\<exists>staged owed. data = staged @ c @ owed \<and> copying f staged owed k r w \<and> (c = [] \<longrightarrow> owed = [])) \<and>
     writing f dest ow k w"

lemma moving_read:
  assumes "FileSource_read n (r, w) = (x, (r', w'))" "moving f data dest ow k r w" "0 < n"
  shows "case x of Inl e \<Rightarrow> writing f dest ow k w' | Inr c \<Rightarrow> carrying f data dest ow c k r' w'"
proof -
  from assms(2) obtain staged owed where m: "data = staged @ owed" "copying f staged owed k r w"
    "writing f dest ow k w" by (auto simp: moving_def)
  show ?thesis
  proof (cases x)
    case (Inl e)
    with copying_read [OF assms(1) m(2) assms(3)] have "copying f staged owed k r' w'" by simp
    from copying_kept [OF this] m(3) Inl show ?thesis by (simp add: writing_def)
  next
    case (Inr c)
    with copying_read [OF assms(1) m(2) assms(3)] obtain rest where c: "owed = c @ rest"
      "copying f staged rest k r' w'" "c = [] \<longrightarrow> owed = []" by auto
    from copying_kept [OF c(2)] m(3) have "writing f dest ow k w'" by (simp add: writing_def)
    moreover have "c = [] \<longrightarrow> rest = []" using c by auto
    moreover have "data = staged @ c @ rest" using m(1) c(1) by simp
    ultimately have "carrying f data dest ow c k r' w'" using c(2) unfolding carrying_def by blast
    with Inr show ?thesis by simp
  qed
qed

lemma carrying_write:
  assumes "FileSink_write c (k, w) = (x, (k', w'))" "carrying f data dest ow c k r w"
  shows "case x of Inl e \<Rightarrow> writing f dest ow k' w' | Inr _ \<Rightarrow> moving f data dest ow k' r w'"
proof -
  from assms(2) obtain staged owed where m: "data = staged @ c @ owed" "copying f staged owed k r w"
    "writing f dest ow k w" by (auto simp: carrying_def)
  have "lw_overwrite k' = lw_overwrite k"
    by (rule lw_overwrite_more) (use keepsD [OF keeps_FileSink_write_more assms(1)] in simp)
  with copying_write [OF assms(1) m(2)] m(3) have "writing f dest ow k' w'" by (auto simp: writing_def)
  moreover have "\<exists>staged owed. data = staged @ owed \<and> copying f staged owed k' r w'" if "x = Inr ()"
  proof (intro exI conjI)
    show "data = (staged @ c) @ owed" using m(1) by simp
    show "copying f (staged @ c) owed k' r w'" using copying_write [OF assms(1) m(2)] that by blast
  qed
  ultimately show ?thesis by (cases x) (simp_all add: moving_def)
qed

lemma carried_finish:
  assumes "FileSink_finish (k, w) = (x, (k', w'))" "carrying f data dest ow [] k r w"
  shows "writing f dest ow k' w' \<and> (x = Inr () \<longrightarrow> copied f data k' w')"
proof -
  from assms(2) have m: "copying f data [] k r w" "writing f dest ow k w" by (auto simp: carrying_def)
  have "lw_overwrite k' = lw_overwrite k"
    by (rule lw_overwrite_more) (use keepsD [OF keeps_FileSink_finish_more assms(1)] in simp)
  with copying_finish [OF assms(1) m(1)] m(2) show ?thesis by (auto simp: writing_def)
qed

lemma streams_cong:
  assumes "scene w' = scene w"
  shows "writing f dest ow k w' = writing f dest ow k w" "moving f data dest ow k r w' = moving f data dest ow k r w"
    "carrying f data dest ow c k r w' = carrying f data dest ow c k r w"
  using scene_cong [OF assms] by (simp_all add: writing_def moving_def carrying_def)

lemmas streams_keep = streams_cong [THEN iffD2]

section \<open>The blocks\<close>

text \<open>A local connector in the joint type of the registry, and what holds of its streams there.\<close>

abbreviation local_side ::
  "local_connector \<Rightarrow> ('w os_world_scheme, file_source + 'q, local_write + 'p) connector" where
  "local_side c \<equiv> left_connector (local_methods c)"

definition left_of :: "('r \<Rightarrow> 'w \<Rightarrow> bool) \<Rightarrow> 'r + 'q \<Rightarrow> 'w \<Rightarrow> bool" where
  "left_of P s w = (case s of Inl r \<Rightarrow> P r w | Inr _ \<Rightarrow> False)"

definition both_left :: "('k \<Rightarrow> 'r \<Rightarrow> 'w \<Rightarrow> bool) \<Rightarrow> 'k + 'p \<Rightarrow> 'r + 'q \<Rightarrow> 'w \<Rightarrow> bool" where
  "both_left P k r w = left_of (\<lambda>k w. left_of (P k) r w) k w"

lemmas side_simps = left_connector_def local_methods_def on_left_eq

lemma left_of_simps [simp]: "left_of P (Inl r) w = P r w" "\<not> left_of P (Inr q) w"
  by (simp_all add: left_of_def)

lemma both_left_simps [simp]:
  "both_left P (Inl k) (Inl r) w = P k r w" "\<not> both_left P (Inr p) s w" "\<not> both_left P t (Inr q) w"
  by (simp_all add: both_left_def left_of_def split: sum.splits)

lemma left_ofE [elim!]: "left_of P s w \<Longrightarrow> (\<And>r. s = Inl r \<Longrightarrow> P r w \<Longrightarrow> thesis) \<Longrightarrow> thesis"
  by (cases s) auto

lemma both_leftE [elim!]:
  "both_left P k s w \<Longrightarrow> (\<And>l r. k = Inl l \<Longrightarrow> s = Inl r \<Longrightarrow> P l r w \<Longrightarrow> thesis) \<Longrightarrow> thesis"
  by (cases k; cases s) auto

lemma both_left_keep:
  "both_left P k r w \<Longrightarrow> (\<And>k r. P k r w \<Longrightarrow> P k r w') \<Longrightarrow> both_left P k r w'"
  by (cases k; cases r) simp_all

lemma left_of_keep: "left_of P r w \<Longrightarrow> (\<And>r. P r w \<Longrightarrow> P r w') \<Longrightarrow> left_of P r w'"
  by (cases r) simp_all

lemma ledger_sel:
  "ld_get (store_ledger st) = store_get st" "ld_start (store_ledger st) = start_transfer"
  "ld_progress (store_ledger st) = record_progress" "ld_publish (store_ledger st) = mark_publishing"
  "ld_finish (store_ledger st) = finish_transfer" "ld_fail (store_ledger st) = fail_transfer"
  by (simp_all add: store_ledger_def)

lemma hoare_scene:
  assumes "keeps scene m" "\<And>w w'. scene w' = scene w \<Longrightarrow> P w \<Longrightarrow> P w'"
  shows "hoare P m (\<lambda>_. P) (\<lambda>_. P)"
  by (rule hoareI) (auto dest: keepsD [OF assms(1)] assms(2))

lemma keeps_checkpoint: "keeps (\<lambda>s. scene (snd s)) (transfer_checkpoint (store_ledger st))"
  unfolding transfer_checkpoint_def except_db_error_def ledger_sel by (intro keeps_rules)

text \<open>The copy loop, and the body of the write block.\<close>

definition steady :: "transfer_request \<Rightarrow> pystr \<Rightarrow> transfer \<Rightarrow> bool" where
  "steady rq n tf \<longleftrightarrow> tf_request tf = rq \<and> \<not> tf_published tf \<and> stage_name (tf_id tf) = Inr n"

lemma steady_set [simp]:
  "steady rq n (tf\<lparr>tf_phase := p\<rparr>) = steady rq n tf" "steady rq n (tf\<lparr>tf_copied := b\<rparr>) = steady rq n tf"
  "steady rq n (tf\<lparr>tf_checkpoint := t\<rparr>) = steady rq n tf"
  by (simp_all add: steady_def)

lemma hoare_phase3:
  "hoare (\<lambda>(k, r, tf, w). steady rq n tf \<and> P k r w) (on_world (on_world (set_phase p)))
     (\<lambda>_ (k, r, tf, w). steady rq n tf \<and> P k r w) (\<lambda>e (k, r, tf, w). E e k r tf w)"
  by (rule hoare_object3) (simp add: hoare_def set_phase_def)

lemma checkpoint_steady:
  assumes "\<And>w w'. scene w' = scene w \<Longrightarrow> P w \<Longrightarrow> P w'"
  shows "hoare (\<lambda>(tf, w). steady rq n tf \<and> P w) (transfer_checkpoint (store_ledger st))
     (\<lambda>_ (tf, w). steady rq n tf \<and> P w) (\<lambda>_ (tf, w). steady rq n tf \<and> P w)"
proof (rule hoareI_ends, clarify)
  fix tf w assume h: "steady rq n tf" "P w"
  obtain x tf' w' where x: "transfer_checkpoint (store_ledger st) (tf, w) = (x, (tf', w'))" by (metis prod.exhaust)
  from keepsD [OF keeps_checkpoint x] h(2) assms have "P w'" by simp
  moreover have "steady rq n tf'"
    using x h(1) by (auto simp: transfer_checkpoint_def bind_apply on_world_apply monotonic_def
        split: list.splits if_splits prod.splits sum.splits)
  ultimately show "ends True (\<lambda>_ (tf, w). steady rq n tf \<and> P w) (\<lambda>_ (tf, w). steady rq n tf \<and> P w)
      (Some (transfer_checkpoint (store_ledger st) (tf, w)))"
    using x by (cases x) simp_all
qed

lemma copy_step_moving:
  "hoare (\<lambda>(k, r, tf, w). steady rq n tf \<and> both_left (moving f data dest ow) k r w)
     (transfer_copy_step (store_ledger st) (local_side a) (local_side b))
     (\<lambda>again (k, r, tf, w). steady rq n tf \<and>
        (if again then both_left (moving f data dest ow) k r w else both_left (carrying f data dest ow []) k r w))
     (\<lambda>_ (k, r, tf, w). steady rq n tf \<and> left_of (writing f dest ow) k w)"
  (is "hoare ?P _ ?Q ?E")
proof -
  let ?C = "\<lambda>c (k, r, tf, w). steady rq n tf \<and> both_left (carrying f data dest ow c) k r w"
  have read: "hoare ?P (on_world (stream (cn_source_read (local_side a) CHUNK_SIZE))) ?C ?E"
    by (rule hoare_reader3, rule hoareI)
      (auto simp: side_simps CHUNK_SIZE_def dest!: moving_read)
  have put: "hoare (?C c) (stream (stream (cn_sink_write (local_side b) c))) (\<lambda>_. ?P) ?E" for c
    by (rule hoare_writer3, rule hoareI) (auto simp: side_simps dest!: carrying_write)
  have count: "hoare ?P (on_world (on_world (assign (\<lambda>tf. tf\<lparr>tf_copied := tf_copied tf + m\<rparr>)))) (\<lambda>_. ?P) ?E" for m
    by (rule hoare_object3) (simp add: hoare_def)
  have save: "hoare ?P (on_world (on_world (transfer_checkpoint (store_ledger st)))) (\<lambda>_. ?P) ?E"
  proof (rule hoare_object3)
    fix k r
    show "hoare (\<lambda>(tf, w). steady rq n tf \<and> both_left (moving f data dest ow) k r w) (transfer_checkpoint (store_ledger st))
        (\<lambda>_ (tf, w). steady rq n tf \<and> both_left (moving f data dest ow) k r w)
        (\<lambda>_ (tf, w). steady rq n tf \<and> left_of (writing f dest ow) k w)"
      by (rule hoare_conseq [OF checkpoint_steady [where P = "both_left (moving f data dest ow) k r"]],
          erule both_left_keep, erule streams_keep(2))
        (auto simp: moving_def)
  qed
  have turn: "hoare (?C c)
      (if c = [] then ret False
       else bind (on_world (on_world (set_phase destination_write))) (\<lambda>_.
         bind (stream (stream (cn_sink_write (local_side b) c))) (\<lambda>_.
         bind (on_world (on_world (assign (\<lambda>tf. tf\<lparr>tf_copied := tf_copied tf + length c\<rparr>)))) (\<lambda>_.
         bind (on_world (on_world (transfer_checkpoint (store_ledger st)))) (\<lambda>_.
         ret True))))) ?Q ?E" for c
  proof (cases "c = []")
    case True
    then show ?thesis by (auto simp: hoare_def)
  next
    case False
    show ?thesis
      unfolding if_not_P [OF False]
      by (rule hoare_bind [OF _ hoare_phase3], rule hoare_bind [OF _ put], rule hoare_bind [OF _ count],
          rule hoare_bind [OF _ save]) (simp add: hoare_def)
  qed
  show ?thesis
    unfolding transfer_copy_step_def by (rule hoare_bind [OF _ hoare_phase3], rule hoare_bind [OF turn read])
qed

lemma write_body_moves:
  "triple False (\<lambda>(k, r, tf, w). steady rq n tf \<and> both_left (moving f data dest ow) k r w)
     (write_body (store_ledger st) (local_side a) (local_side b))
     (\<lambda>_ (k, r, tf, w). steady rq n tf \<and> left_of (\<lambda>k w. writing f dest ow k w \<and> copied f data k w) k w)
     (\<lambda>_ (k, r, tf, w). steady rq n tf \<and> left_of (writing f dest ow) k w)"
  (is "triple False ?P _ (\<lambda>_. ?Q) ?E")
proof -
  let ?C = "\<lambda>(k, r, tf, w). steady rq n tf \<and> both_left (carrying f data dest ow []) k r w"
  have copy: "triple False ?P (transfer_copy (store_ledger st) (local_side a) (local_side b)) (\<lambda>_. ?C) ?E"
    unfolding transfer_copy_def
    by (rule triple_repeat_loop, rule hoare_conseq [OF copy_step_moving]) (auto split: if_splits)
  have finish: "hoare ?C (stream (stream (cn_sink_finish (local_side b)))) (\<lambda>_. ?Q) ?E"
    by (rule hoare_writer3, rule hoareI) (auto simp: side_simps dest!: carried_finish)
  have mark: "hoare ?Q (on_world (on_world (on_world (ld_publish (store_ledger st) i m)))) (\<lambda>_. ?Q) ?E" for i m
  proof (rule hoare_beside3)
    fix k :: "local_write + 'p" and b
    let ?R = "\<lambda>w. steady rq n b \<and> left_of (\<lambda>k w. writing f dest ow k w \<and> copied f data k w) k w"
    have "hoare ?R (ld_publish (store_ledger st) i m) (\<lambda>_. ?R) (\<lambda>_. ?R)"
      unfolding ledger_sel
      by (rule hoare_scene [OF keeps_ledger(4)]) (auto intro: streams_keep(1) scene_cong(6) [THEN iffD2])
    then show "hoare ?R (ld_publish (store_ledger st) i m) (\<lambda>_. ?R)
        (\<lambda>_ w. steady rq n b \<and> left_of (writing f dest ow) k w)"
      by (rule hoare_conseq) auto
  qed
  have me: "hoare ?Q (on_world (on_world self)) (\<lambda>_. ?Q) ?E"
    by (rule hoare_object3) (simp add: hoare_def)
  show ?thesis
    unfolding write_body_def
    by (rule triple_pbind [OF copy], rule triple_total, rule hoare_bind [OF _ hoare_phase3],
        rule hoare_bind [OF _ finish], rule hoare_bind [OF _ hoare_phase3], rule hoare_bind [OF mark me])
qed

text \<open>
  The files after the blocks: a published transfer has delivered, and any other has left the
  destination alone.
\<close>

definition settled ::
  "fs \<Rightarrow> bytes \<Rightarrow> path \<Rightarrow> bool \<Rightarrow> bool \<Rightarrow> 'w os_world_scheme \<Rightarrow> bool" where
  "settled f data dest ow published w \<longleftrightarrow> calm w \<and>
     (if published then delivered dest data w \<and> (ow \<or> lookup f dest = None) else untouched dest f w)"

lemma settled_cong: "scene w' = scene w \<Longrightarrow> settled f data dest ow p w' = settled f data dest ow p w"
  using scene_cong [of w' w] by (simp add: settled_def)

lemmas settled_keep = settled_cong [THEN iffD2]

lemma writing_exit:
  assumes "local_write_exit (Some e) (k, w) = (x, (k', w'))" "writing f dest ow k w" "fs_ok f"
  shows "x = Inl e \<and> settled f data dest ow False w'"
proof -
  from assms(2) have k: "kept f (lw_stage k) w" "dest \<noteq> lw_stage k" by (auto simp: writing_def)
  from kept_exit_failed [OF assms(1) k(1)] have x: "x = Inl e" "kept f (lw_stage k) w'" by auto
  with kept_untouched [OF x(2) k(2) assms(3)] show ?thesis by (simp add: settled_def kept_def)
qed

lemma copied_exit_settled:
  assumes "local_write_exit None (k, w) = (x, (k', w'))" "writing f dest ow k w" "copied f data k w" "fs_ok f"
  shows "case x of Inl e \<Rightarrow> settled f data dest ow False w' | Inr _ \<Rightarrow> settled f data dest ow True w'"
  using copied_exit [OF assms(1,3,4)] assms(2) by (cases x) (auto simp: settled_def writing_def)

lemma enter_moving:
  assumes "cn_write_enter (local_side b) g i ow w = (x, w')"
    and "left_of (\<lambda>r w. with_files f cw w \<and> src_on j r w \<and> src_at r w data) r w" "stage_name i = Inr n"
    and "points b g f cw root" "dest = root @ [g]" "j \<noteq> next_ino f"
  shows "case x of Inl e \<Rightarrow> settled f data dest ow False w' | Inr k \<Rightarrow> both_left (moving f data dest ow) k r w'"
proof -
  from assms(2) obtain r0 where r: "r = Inl r0" "with_files f cw w" "src_on j r0 w" "src_at r0 w data"
    by (cases r) auto
  obtain y w1 where y: "local_write_enter b g i ow w = (y, w1)" by (rule prod.exhaust)
  note e = copying_enter [OF y r(2) assms(4,3) r(3,4) assms(6)]
  show ?thesis
  proof (cases y)
    case (Inl e1)
    with assms(1) y e show ?thesis
      by (auto simp: left_connector_def local_methods_def bind_apply settled_def untouched_def)
  next
    case (Inr k)
    with e have k: "copying f [] data k r0 w1" "lw_destination k = dest" "lw_overwrite k = ow"
      "lw_stage k \<noteq> dest" by (simp_all add: assms(5))
    moreover have "\<exists>staged owed. data = staged @ owed \<and> copying f staged owed k r0 w1"
      using k(1) by (intro exI [of _ "[]"] exI [of _ data]) simp
    ultimately have "moving f data dest ow k r0 w1"
      using copying_kept [OF k(1)] by (simp add: moving_def writing_def)
    with assms(1) y Inr r(1) show ?thesis
      by (auto simp: left_connector_def local_methods_def bind_apply)
  qed
qed

lemma write_block_settles:
  assumes "fs_ok f" "points b (rq_destination_file rq) f cw root" "dest = root @ [rq_destination_file rq]"
    and "j \<noteq> next_ino f"
  shows "triple False
      (\<lambda>(r, tf, w). steady rq n tf \<and> left_of (\<lambda>r w. with_files f cw w \<and> src_on j r w \<and> src_at r w data) r w)
      (write_block (store_ledger st) (local_side a) (local_side b))
      (\<lambda>_ (r, tf, w). tf_published tf \<and> settled f data dest (rq_overwrite rq) True w)
      (\<lambda>_ (r, tf, w). \<not> tf_published tf \<and> settled f data dest (rq_overwrite rq) False w)"
    (is "triple False ?P _ (\<lambda>_. ?Q) (\<lambda>_. ?E)")
proof -
  let ?ow = "rq_overwrite rq"
  let ?D = "\<lambda>(r, tf, w). steady rq n tf \<and> settled f data dest ?ow True w"
  have phase: "hoare ?P (on_world (set_phase p)) (\<lambda>_. ?P) (\<lambda>_. ?E)" for p
    by (rule hoare_object2) (simp add: hoare_def set_phase_def)
  have me: "hoare ?P (on_world self) (\<lambda>tf (r, tf', w). tf' = tf \<and> (case (r, tf, w) of s \<Rightarrow> ?P s)) (\<lambda>_. ?E)"
    by (rule hoare_object2) (simp add: hoare_def)
  have enter: "hoare (\<lambda>(r, tf', w). tf' = tf \<and> (case (r, tf, w) of s \<Rightarrow> ?P s))
      (on_world (on_world (cn_write_enter (local_side b) (rq_destination_file (tf_request tf)) (tf_id tf)
        (rq_overwrite (tf_request tf)))))
      (\<lambda>k (r, tf, w). steady rq n tf \<and> both_left (moving f data dest ?ow) k r w) (\<lambda>_. ?E)" for tf
  proof (rule hoare_beside2, rule hoareI)
    fix r tf' w x w' assume w: "tf' = tf \<and> (case (r, tf, w) of s \<Rightarrow> ?P s)"
    then have g: "rq = tf_request tf" by (simp add: steady_def)
    {
      assume "cn_write_enter (local_side b) (rq_destination_file (tf_request tf)) (tf_id tf)
        (rq_overwrite (tf_request tf)) w = (Inl x, w')"
      from enter_moving [OF this, of f cw j data r n root dest] w assms(2-4)
      show "\<not> tf_published tf' \<and> settled f data dest ?ow False w'" by (simp add: steady_def g)
    }
    {
      fix k :: "local_write + 'p"
      assume "cn_write_enter (local_side b) (rq_destination_file (tf_request tf)) (tf_id tf)
        (rq_overwrite (tf_request tf)) w = (Inr k, w')"
      from enter_moving [OF this, of f cw j data r n root dest] w assms(2-4)
      show "steady rq n tf' \<and> both_left (moving f data dest ?ow) k r w'" by (simp add: steady_def g)
    }
  qed
  have left: "hoare (\<lambda>(k, r, tf, w). steady rq n tf \<and> left_of (\<lambda>k w. writing f dest ?ow k w \<and> copied f data k w) k w)
      (stream (stream (cn_write_exit (local_side b) None)))
      (\<lambda>_ (k, r, tf, w). steady rq n tf \<and> settled f data dest ?ow True w)
      (\<lambda>_ (k, r, tf, w). \<not> tf_published tf \<and> settled f data dest ?ow False w)"
    by (rule hoare_writer3, rule hoareI)
      (auto simp: side_simps steady_def dest!: copied_exit_settled [OF _ _ _ assms(1)])
  have failed: "hoare (\<lambda>(k, r, tf, w). steady rq n tf \<and> left_of (writing f dest ?ow) k w)
      (stream (stream (cn_write_exit (local_side b) (Some e))))
      (\<lambda>_ (k, r, tf, w). steady rq n tf \<and> settled f data dest ?ow True w)
      (\<lambda>_ (k, r, tf, w). \<not> tf_published tf \<and> settled f data dest ?ow False w)" for e
    by (rule hoare_writer3, rule hoareI)
      (auto simp: side_simps steady_def dest: writing_exit [OF _ _ assms(1), where data = data])
  have flag: "hoare ?D (on_world (assign (\<lambda>tf. tf\<lparr>tf_published := True\<rparr>))) (\<lambda>_. ?Q) (\<lambda>_. ?E)"
    by (rule hoare_object2) (auto simp: hoare_def)
  have block: "triple False ?P
      (pwith_block
        (bind (on_world self) (\<lambda>tf.
         on_world (on_world (cn_write_enter (local_side b) (rq_destination_file (tf_request tf)) (tf_id tf)
           (rq_overwrite (tf_request tf))))))
        (write_body (store_ledger st) (local_side a) (local_side b))
        (\<lambda>failure. stream (stream (cn_write_exit (local_side b) failure)))) (\<lambda>_. ?D) (\<lambda>_. ?E)"
  proof (rule triple_pwith_block [OF _ write_body_moves])
    show "hoare ?P
        (bind (on_world self) (\<lambda>tf.
         on_world (on_world (cn_write_enter (local_side b) (rq_destination_file (tf_request tf)) (tf_id tf)
           (rq_overwrite (tf_request tf))))))
        (\<lambda>obj w. case (obj, w) of (k, r, tf, w) \<Rightarrow> steady rq n tf \<and> both_left (moving f data dest ?ow) k r w) (\<lambda>_. ?E)"
      using hoare_bind [OF enter me] by simp
  qed (rule hoare_conseq [OF left] hoare_conseq [OF failed]; auto)+
  show ?thesis
    unfolding write_block_def
    by (rule triple_pbind [OF triple_total [OF phase]], rule triple_pbind [OF block],
        rule triple_total [OF flag])
qed

text \<open>The same for the outer block: what is delivered is the regular file \<open>src\<close> of \<open>f\<close>.\<close>

definition regular_data :: "fs \<Rightarrow> path \<Rightarrow> bytes \<Rightarrow> bool" where
  "regular_data f src data \<longleftrightarrow>
     (\<exists>j. lookup f src = Some j \<and> kind (inodes f j) = Regular \<and> content (inodes f j) = data)"

definition finale :: "fs \<Rightarrow> path \<Rightarrow> path \<Rightarrow> bool \<Rightarrow> bool \<Rightarrow> 'w os_world_scheme \<Rightarrow> bool" where
  "finale f src dest ow p w \<longleftrightarrow>
     (if p then \<exists>data. regular_data f src data \<and> settled f data dest ow True w
      else calm w \<and> untouched dest f w)"

lemma finale_cong: "scene w' = scene w \<Longrightarrow> finale f src dest ow p w' = finale f src dest ow p w"
  using settled_cong [of w' w] scene_cong [of w' w] by (simp add: finale_def)

lemmas finale_keep = finale_cong [THEN iffD2]

lemma settled_finale:
  "settled f data dest ow p w \<Longrightarrow> regular_data f src data \<Longrightarrow> finale f src dest ow p w"
  by (auto simp: finale_def settled_def)

lemma with_files_finale: "with_files f cw w \<Longrightarrow> finale f src dest ow False w"
  by (simp add: finale_def with_files_def os_ok_def untouched_def)

lemma finale_fs:
  "finale f src dest ow p w \<Longrightarrow> fs w' = fs w \<Longrightarrow> calm w' \<Longrightarrow> finale f src dest ow p w'"
  by (auto simp: finale_def settled_def delivered_def untouched_def split: if_splits)

lemma finale_calm: "finale f src dest ow p w \<Longrightarrow> calm w"
  by (auto simp: finale_def settled_def split: if_splits)

definition opened :: "fs \<Rightarrow> path \<Rightarrow> path \<Rightarrow> file_source \<Rightarrow> 'w os_world_scheme \<Rightarrow> bool" where
  "opened f cw src r w \<longleftrightarrow> with_files f cw w \<and>
     (\<exists>j. lookup f src = Some j \<and> kind (inodes f j) = Regular \<and> src_on j r w \<and>
        src_at r w (content (inodes f j)))"

lemma read_enter_opened:
  assumes "cn_read_enter (local_side a) g None w = (x, w')" "with_files f cw w" "points a g f cw root"
  shows "case x of Inl e \<Rightarrow> finale f src dest ow False w' | Inr r \<Rightarrow> left_of (opened f cw (root @ [g])) r w'"
proof -
  obtain y w1 where y: "local_read_enter a g None w = (y, w1)" by (rule prod.exhaust)
  from local_read_enter_calm [OF y assms(2,3)] y assms(1) show ?thesis
    by (cases y) (auto simp: left_connector_def local_methods_def bind_apply opened_def with_files_finale)
qed

lemma read_exit_finale:
  assumes "cn_read_exit (local_side a) failure (r, w) = (x, (r', w'))" "finale f src dest ow p w"
  shows "finale f src dest ow p w' \<and> (x = Inr () \<longrightarrow> failure = None)"
proof (cases r)
  case (Inl r0)
  with assms(1) obtain r1 where e: "local_read_exit failure (r0, w) = (x, (r1, w'))"
    by (auto simp: side_simps)
  have "failure = None" if "x = Inr ()"
    using local_read_exit_raises e that by (cases failure) fastforce+
  with local_read_exit_calm [OF e finale_calm [OF assms(2)]] show ?thesis
    using finale_fs [OF assms(2)] by blast
next
  case (Inr q)
  with assms show ?thesis by (auto simp: side_simps)
qed

lemma write_block_finale:
  assumes "fs_ok f" "points b (rq_destination_file rq) f cw root" "dest = root @ [rq_destination_file rq]"
  shows "triple False (\<lambda>(r, tf, w). steady rq n tf \<and> left_of (opened f cw src) r w)
      (write_block (store_ledger st) (local_side a) (local_side b))
      (\<lambda>_ (r, tf, w). tf_published tf \<and> finale f src dest (rq_overwrite rq) True w)
      (\<lambda>_ (r, tf, w). \<not> tf_published tf \<and> finale f src dest (rq_overwrite rq) False w)"
proof (cases "\<exists>j. lookup f src = Some j \<and> kind (inodes f j) = Regular")
  case True
  then obtain j where j: "lookup f src = Some j" "kind (inodes f j) = Regular" by blast
  then have data: "regular_data f src (content (inodes f j))" by (simp add: regular_data_def)
  from fs_ok_old [OF assms(1) j(1)] have new: "j \<noteq> next_ino f" .
  show ?thesis
    by (rule triple_conseq [OF write_block_settles [OF assms new, of n "content (inodes f j)"]])
      (use j in \<open>auto simp: opened_def intro: settled_finale [OF _ data]\<close>)
next
  case False
  then show ?thesis by (auto simp: triple_def opened_def)
qed

lemma read_block_finale:
  assumes "fs_ok f" "points a (rq_source_file rq) f cw root_a" "src = root_a @ [rq_source_file rq]"
    and "points b (rq_destination_file rq) f cw root_b" "dest = root_b @ [rq_destination_file rq]"
  shows "triple False (\<lambda>(tf, w). steady rq n tf \<and> with_files f cw w)
      (read_block (store_ledger st) (local_side a) (local_side b))
      (\<lambda>_ (tf, w). tf_published tf \<and> finale f src dest (rq_overwrite rq) (tf_published tf) w)
      (\<lambda>_ (tf, w). finale f src dest (rq_overwrite rq) (tf_published tf) w)"
    (is "triple False ?P _ (\<lambda>_. ?Q) (\<lambda>_. ?E)")
proof -
  let ?ow = "rq_overwrite rq"
  have phase: "hoare ?P (set_phase p) (\<lambda>_. ?P) (\<lambda>_. ?E)" for p
    by (auto simp: hoare_def set_phase_def)
  have me: "hoare ?P self (\<lambda>tf (tf', w). tf' = tf \<and> (case (tf, w) of s \<Rightarrow> ?P s)) (\<lambda>_. ?E)"
    by (auto simp: hoare_def)
  have enter: "hoare (\<lambda>(tf', w). tf' = tf \<and> (case (tf, w) of s \<Rightarrow> ?P s))
      (on_world (cn_read_enter (local_side a) (rq_source_file (tf_request tf)) None))
      (\<lambda>r (tf, w). steady rq n tf \<and> left_of (opened f cw src) r w) (\<lambda>_. ?E)" for tf
    unfolding assms(3)
    by (rule hoare_beside1, rule hoareI)
      (use assms(2) in \<open>fastforce simp: steady_def dest: read_enter_opened\<close>)+
  have exits: "hoare (\<lambda>(r, tf, w). tf_published tf = p \<and> finale f src dest ?ow (tf_published tf) w)
      (stream (cn_read_exit (local_side a) failure))
      (\<lambda>_ (r, tf, w). failure = None \<and> tf_published tf = p \<and> finale f src dest ?ow (tf_published tf) w)
      (\<lambda>_ (r, tf, w). finale f src dest ?ow (tf_published tf) w)" for failure p
    by (rule hoare_stream2, rule hoareI) (auto dest: read_exit_finale)
  have block: "triple False ?P
      (pwith_block
        (bind self (\<lambda>tf. on_world (cn_read_enter (local_side a) (rq_source_file (tf_request tf)) None)))
        (write_block (store_ledger st) (local_side a) (local_side b))
        (\<lambda>failure. stream (cn_read_exit (local_side a) failure))) (\<lambda>_. ?Q) (\<lambda>_. ?E)"
  proof (rule triple_pwith_block [OF _ write_block_finale [OF assms(1,4,5)]])
    show "hoare ?P
        (bind self (\<lambda>tf. on_world (cn_read_enter (local_side a) (rq_source_file (tf_request tf)) None)))
        (\<lambda>obj w. case (obj, w) of (r, tf, w) \<Rightarrow> steady rq n tf \<and> left_of (opened f cw src) r w) (\<lambda>_. ?E)"
      using hoare_bind [OF enter me] by simp
  qed (rule hoare_conseq [OF exits [of True]], auto, rule hoare_conseq [OF exits [of False]], auto)
  show ?thesis
    unfolding read_block_def by (rule triple_pbind [OF triple_total [OF phase] block])
qed

section \<open>The run\<close>

text \<open>Both names of the request are saved local connections, to \<open>pa\<close> and \<open>pb\<close>.\<close>

definition ready ::
  "connection_store \<Rightarrow> fs \<Rightarrow> path \<Rightarrow> transfer_request \<Rightarrow> pystr \<Rightarrow> pystr \<Rightarrow> 'w db_world_scheme \<Rightarrow> bool" where
  "ready st f cw rq pa pb w \<longleftrightarrow> with_files f cw w \<and>
     saved st (db_connections (db w)) (rq_source rq) pa \<and>
     saved st (db_connections (db w)) (rq_destination rq) pb"

lemma ready_cong: "scene w' = scene w \<Longrightarrow> ready st f cw rq pa pb w' = ready st f cw rq pa pb w"
  using scene_cong [of w' w] by (simp add: ready_def scene_eq)

lemmas ready_keep = ready_cong [THEN iffD2]

lemma ready_finale: "ready st f cw rq pa pb w \<Longrightarrow> finale f src dest ow False w"
  by (auto simp: ready_def intro: with_files_finale)

lemma connector_ready:
  fixes sftp_open :: "connection \<Rightarrow> ('w service_world_scheme, ('w service_world_scheme, 'q, 'p) connector) io"
  assumes "\<And>w :: 'w service_world_scheme.
      ready st f cw rq pa pb w \<Longrightarrow> saved st (db_connections (db w)) (name rq) p"
  shows "hoare (\<lambda>(tf, w). steady rq n tf \<and> ready st f cw rq pa pb w)
     (bind self (\<lambda>tf. on_world (transfer_connector (application st sftp_open) (name (tf_request tf)))))
     (\<lambda>cn (tf, w). cn = local_side \<lparr>lc_root = p\<rparr> \<and> steady rq n tf \<and> ready st f cw rq pa pb w)
     (\<lambda>_ (tf, w). finale f src dest ow (tf_published tf) w)"
    (is "hoare ?P ?m ?Q ?E")
proof (rule hoareI_ends, clarify)
  fix tf and w :: "'w service_world_scheme" assume s: "steady rq n tf" "ready st f cw rq pa pb w"
  obtain x w1 where x: "store_get st (name rq) w = (x, w1)" by (rule prod.exhaust)
  from keepsD [OF keeps_ledger(1) x] s(2) have r: "ready st f cw rq pa pb w1" by (rule ready_keep)
  from assms [OF s(2)] have "saved st (db_connections (db w)) (name rq) p" .
  note stored = store_get_saved [OF _ this]
  show "ends True ?Q ?E (Some (?m (tf, w)))"
  proof (cases x)
    case (Inl e)
    with x s(1) ready_finale [OF r] show ?thesis
      by (simp add: bind_apply transfer_connector_def application_def ledger_sel on_world_apply steady_def)
  next
    case (Inr c)
    with stored x have "c = LocalConnection (name rq) p" by simp
    with Inr x s(1) r show ?thesis
      by (simp add: bind_apply transfer_connector_def application_def ledger_sel on_world_apply steady_def)
  qed
qed

lemma attempt_finale:
  assumes "fs_ok f" "points \<lparr>lc_root = pa\<rparr> (rq_source_file rq) f cw root_a"
    and "src = root_a @ [rq_source_file rq]" "points \<lparr>lc_root = pb\<rparr> (rq_destination_file rq) f cw root_b"
    and "dest = root_b @ [rq_destination_file rq]"
  shows "triple False (\<lambda>(tf, w). steady rq n tf \<and> ready st f cw rq pa pb w)
      (transfer_attempt (application st sftp_open))
      (\<lambda>_ (tf, w). tf_published tf \<and> finale f src dest (rq_overwrite rq) (tf_published tf) w)
      (\<lambda>_ (tf, w). finale f src dest (rq_overwrite rq) (tf_published tf) w)"
    (is "triple False ?P _ (\<lambda>_. ?Q) (\<lambda>_. ?E)")
proof -
  let ?a = "local_side \<lparr>lc_root = pa\<rparr>" and ?b = "local_side \<lparr>lc_root = pb\<rparr>"
  have saved: "saved st (db_connections (db w)) (rq_source rq) pa" "saved st (db_connections (db w)) (rq_destination rq) pb"
    if "ready st f cw rq pa pb w" for w using that by (simp_all add: ready_def)
  have phase: "hoare (\<lambda>s. cn = ?a \<and> ?P s) (set_phase q) (\<lambda>_ s. cn = ?a \<and> ?P s) (\<lambda>_. ?E)" for cn q
    by (auto simp: hoare_def set_phase_def)
  have source: "hoare ?P
      (bind self (\<lambda>tf. on_world (transfer_connector (application st sftp_open) (rq_source (tf_request tf)))))
      (\<lambda>cn s. cn = ?a \<and> ?P s) (\<lambda>_. ?E)"
    by (rule hoare_conseq [OF connector_ready [where name = rq_source, OF saved(1)]]) auto
  have target: "hoare (\<lambda>s. ca = ?a \<and> ?P s)
      (bind self (\<lambda>tf. on_world (transfer_connector (application st sftp_open) (rq_destination (tf_request tf)))))
      (\<lambda>cn s. ca = ?a \<and> cn = ?b \<and> ?P s) (\<lambda>_. ?E)" for ca
  proof (cases "ca = ?a")
    case True
    then show ?thesis
      using connector_ready [where name = rq_destination, OF saved(2), where src = src and dest = dest and
          ow = "rq_overwrite rq" and n = n and sftp_open = sftp_open]
      by (auto intro: hoare_conseq)
  qed (simp add: hoare_def)
  have block: "triple False (\<lambda>s. ca = ?a \<and> cb = ?b \<and> ?P s)
      (read_block (sv_ledger (application st sftp_open)) ca cb) (\<lambda>_. ?Q) (\<lambda>_. ?E)" for ca cb
  proof (cases "ca = ?a \<and> cb = ?b")
    case True
    then show ?thesis
      using read_block_finale [OF assms, of n st]
      by (auto simp: application_def ready_def intro: triple_pre)
  qed (auto simp: triple_def)
  show ?thesis
    unfolding transfer_attempt_def
    by (rule triple_pbind [OF triple_total [OF source]], rule triple_pbind [OF triple_total [OF phase]],
        rule triple_pbind [OF triple_total [OF target] block])
qed

text \<open>The other steps of a run leave the files, and what the transfer knows of them, alone.\<close>

definition still :: "transfer \<times> 'w db_world_scheme \<Rightarrow> transfer_request \<times> pystr \<times> bool \<times> _" where
  "still s = (tf_request (fst s), tf_id (fst s), tf_published (fst s), scene (snd s))"

lemma keeps_still_world [keeps_rules]: "keeps scene m \<Longrightarrow> keeps still (on_world m)"
  by (rule keepsI) (auto simp: on_world_def still_def split: prod.splits dest: keepsD)

lemma keeps_still_checkpoint [keeps_rules]: "keeps still (assign (\<lambda>tf. tf\<lparr>tf_checkpoint := t\<rparr>))"
  by (auto simp: keeps_def assign_def still_def split: prod.splits)

lemma keeps_except_db_error [keeps_rules]:
  "keeps v m \<Longrightarrow> (\<And>e. keeps v (h e)) \<Longrightarrow> keeps v (except_db_error m h)"
  unfolding except_db_error_def by (intro keeps_rules)

lemma keeps_still_run:
  "keeps still (transfer_rescue (store_ledger st) e)" "keeps still (transfer_finish (store_ledger st))"
  "keeps still (bind self (\<lambda>tf. translate uncited (on_world (ld_start (store_ledger st) (tf_id tf) (tf_request tf)))))"
  "keeps still (bind (on_world monotonic) (\<lambda>t. assign (\<lambda>tf. tf\<lparr>tf_checkpoint := t\<rparr>)))"
  unfolding transfer_rescue_def transfer_fail_def transfer_finish_def ledger_sel Let_def
  by (intro keeps_rules)+

lemma still_keep:
  assumes "still (tf', w') = still (tf, w)"
  shows "steady rq n tf' = steady rq n tf" "ready st f cw rq pa pb w' = ready st f cw rq pa pb w"
    "tf_published tf' = tf_published tf" "finale f src dest ow b w' = finale f src dest ow b w"
  using assms ready_cong [of w' w] finale_cong [of w' w] by (simp_all add: still_def steady_def)

lemma still_finale:
  assumes "still (tf', w') = still (tf, w)" "finale f src dest ow (tf_published tf) w"
  shows "finale f src dest ow (tf_published tf') w'"
  unfolding still_keep(3,4) [OF assms(1)] by (rule assms(2))

lemma hoare_still:
  assumes "keeps still m" "\<And>s s'. still s' = still s \<Longrightarrow> P s \<Longrightarrow> P s'"
  shows "hoare P m (\<lambda>_. P) (\<lambda>_. P)"
  by (rule hoareI) (auto dest: keepsD [OF assms(1)] assms(2))

lemma rescue_unpublished:
  assumes "transfer_rescue ld e (tf, w) = (Inr (), (tf', w'))"
  shows "tf_published tf"
  using assms
  by (auto simp: transfer_rescue_def transfer_fail_def bind_eq_Inr Let_def split: if_splits prod.splits)

lemma run_finale:
  fixes sftp_open :: "connection \<Rightarrow> ('w service_world_scheme, ('w service_world_scheme, 'q, 'p) connector) io"
  assumes "fs_ok f" "points \<lparr>lc_root = pa\<rparr> (rq_source_file rq) f cw root_a"
    and "src = root_a @ [rq_source_file rq]" "points \<lparr>lc_root = pb\<rparr> (rq_destination_file rq) f cw root_b"
    and "dest = root_b @ [rq_destination_file rq]"
  shows "triple False (\<lambda>(tf, w). steady rq n tf \<and> ready st f cw rq pa pb w)
      (transfer_run (application st sftp_open))
      (\<lambda>_ (tf, w). finale f src dest (rq_overwrite rq) True w)
      (\<lambda>_ (tf, w). finale f src dest (rq_overwrite rq) (tf_published tf) w)"
    (is "triple False ?P _ (\<lambda>_. ?Q) (\<lambda>_. ?E)")
proof -
  let ?D = "\<lambda>(tf, w). tf_published tf \<and> finale f src dest (rq_overwrite rq) (tf_published tf) w"
  have ld: "sv_ledger (application st sftp_open) = store_ledger st" by (simp add: application_def)
  have calm: "?P s \<Longrightarrow> ?E s" for s
    using ready_finale by (auto simp: steady_def)
  have P: "still s' = still s \<Longrightarrow> ?P s \<Longrightarrow> ?P s'" for s s' :: "transfer \<times> 'w service_world_scheme"
    by (cases s; cases s') (auto intro: still_keep(1,2) [THEN iffD2])
  have E: "still s' = still s \<Longrightarrow> ?E s \<Longrightarrow> ?E s'" for s s' :: "transfer \<times> 'w service_world_scheme"
    by (cases s; cases s') (auto dest: still_keep(3) intro: still_finale)
  have D: "still s' = still s \<Longrightarrow> ?D s \<Longrightarrow> ?D s'" for s s' :: "transfer \<times> 'w service_world_scheme"
    by (cases s; cases s') (auto dest: still_keep(3) intro: still_finale)
  have start: "hoare ?P (bind self (\<lambda>tf. translate uncited
      (on_world (ld_start (store_ledger st) (tf_id tf) (tf_request tf))))) (\<lambda>_. ?P) (\<lambda>_. ?E)"
    by (rule hoare_conseq [OF hoare_still [OF keeps_still_run(3) P]]) (assumption | erule calm)+
  have tick: "hoare ?P (bind (on_world monotonic) (\<lambda>t. assign (\<lambda>tf. tf\<lparr>tf_checkpoint := t\<rparr>))) (\<lambda>_. ?P) (\<lambda>_. ?E)"
    by (rule hoare_conseq [OF hoare_still [OF keeps_still_run(4) P]]) (assumption | erule calm)+
  have rescue: "hoare ?E (transfer_rescue (store_ledger st) e) (\<lambda>_. ?D) (\<lambda>_. ?E)" for e
  proof (rule hoareI)
    fix s x s' assume h: "?E s" "transfer_rescue (store_ledger st) e s = (Inr x, s')"
    obtain tf w tf' w' where s: "s = (tf, w)" "s' = (tf', w')" by (metis prod.exhaust)
    note k = keepsD [OF keeps_still_run(1) h(2)]
    from h(2) s have "tf_published tf" by (auto intro: rescue_unpublished)
    with E [OF k h(1)] still_keep(3) [OF k [unfolded s]] s show "?D s'" by simp
  qed (auto dest!: keepsD [OF keeps_still_run(1)] intro: still_finale)
  have finish: "hoare ?D (transfer_finish (store_ledger st)) (\<lambda>_. ?Q) (\<lambda>_. ?E)"
    by (rule hoare_conseq [OF hoare_still [OF keeps_still_run(2) D]]) auto
  have guarded: "triple False ?P
      (ptry_except (transfer_attempt (application st sftp_open)) (\<lambda>e. Loops.total (transfer_rescue (store_ledger st) e)))
      (\<lambda>_. ?D) (\<lambda>_. ?E)"
    by (rule triple_ptry_except [OF attempt_finale [OF assms] triple_total [OF rescue]])
  show ?thesis
    unfolding transfer_run_def ld
    by (rule triple_pbind [OF triple_total [OF start]], rule triple_pbind [OF triple_total [OF tick]],
        rule triple_pbind [OF guarded triple_total [OF finish]])
qed

text \<open>Both levels: what the answer says of the files.\<close>

definition answer_files :: "fs \<Rightarrow> path \<Rightarrow> path \<Rightarrow> bool \<Rightarrow> transfer_record result \<Rightarrow> 'w service_world_scheme \<Rightarrow> bool" where
  "answer_files f src dest ow r w \<longleftrightarrow>
     (case r of
        Inr _ \<Rightarrow> finale f src dest ow True w
      | Inl e \<Rightarrow> finale f src dest ow False w \<or>
          finale f src dest ow True w \<and> err_code e = TRANSFER_RECORD_FAILED \<and>
            (\<exists>i. err_transfer e = Some i \<and> ledger_status i (ledger_view w) = Some Publishing))"

lemma run_new_transfer_files:
  fixes sftp_open :: "connection \<Rightarrow> ('w service_world_scheme, ('w service_world_scheme, 'q, 'p) connector) io"
    and w :: "'w service_world_scheme"
  assumes "fs_ok f" "points \<lparr>lc_root = pa\<rparr> (rq_source_file rq) f cw root_a"
    and "points \<lparr>lc_root = pb\<rparr> (rq_destination_file rq) f cw root_b"
    and "sftp_contract sftp_open" "ledger_ok (ledger_view w)" "ready st f cw rq pa pb w"
    and "run_new_transfer (application st sftp_open) rq w = Some (r, w')"
  shows "answer_files f (root_a @ [rq_source_file rq]) (root_b @ [rq_destination_file rq]) (rq_overwrite rq) r w'"
proof -
  let ?src = "root_a @ [rq_source_file rq]" and ?dest = "root_b @ [rq_destination_file rq]"
  obtain m w1 where u: "uuid4 w = (Inr (uuid_str m), w1)" by (cases "uuids w") (auto simp: uuid4_def)
  let ?tf = "new_transfer rq (uuid_str m)"
  obtain n where "stage_name (uuid_str m) = Inr n" by (simp add: stage_name_def)
  then have steady: "steady rq n ?tf" by (simp add: steady_def new_transfer_def)
  have ready: "ready st f cw rq pa pb w1"
    using keepsD [OF keeps_scene_steps(4) u] assms(6) by (rule ready_keep)
  have ok: "ledger_ok (ledger_view w1)"
    using keepsD [OF keeps_ledger_view [OF keeps_uuid4] u] assms(5) by simp
  from assms(7) u obtain tf' where run: "transfer_run (application st sftp_open) (?tf, w1) = Some (r, (tf', w'))"
    by (auto simp: run_new_transfer_def pbind_def total_def split: prod.splits)
  have data: "ends False (\<lambda>_ (tf, w). finale f ?src ?dest (rq_overwrite rq) True w)
      (\<lambda>_ (tf, w). finale f ?src ?dest (rq_overwrite rq) (tf_published tf) w)
      (transfer_run (application st sftp_open) (?tf, w1))"
    by (rule tripleD [OF run_finale [OF assms(1,2) refl assms(3) refl, of n st sftp_open]])
      (use steady ready in simp)
  note env = application_env [OF assms(4), of st]
  note defs = transfer_env.held_def [OF env] transfer_env.gone_def [OF env] transfer_env.unstarted_def [OF env]
  let ?s = "ledger_status (uuid_str m) (ledger_view w1)"
  show ?thesis
  proof (cases r)
    case (Inr rec)
    with data run show ?thesis by (simp add: answer_files_def)
  next
    case (Inl e)
    have bounded: "True \<Longrightarrow> sv_factory (application st sftp_open) c w = (Inr cn, w') \<Longrightarrow> bounded_source cn"
      for c w cn w' using open_connector_quiet [OF assms(4)] by (auto simp: application_def)
    have "ends True (\<lambda>_ _. True)
        (\<lambda>e (tf, w). \<not> tf_published tf \<and> transfer_env.unstarted ledger_view ledger_ok ledger_status ledger_rest
             (ledger_rest (ledger_view w1)) (uuid_str m) ?s e w \<or>
           transfer_env.gone ledger_view ledger_ok ledger_status ledger_rest
             (ledger_rest (ledger_view w1)) (uuid_str m) e tf w)
        (transfer_run (application st sftp_open) (?tf, w1))"
      by (rule ends_mono [OF tripleD [OF transfer_env.run_held [OF env, of True
            "ledger_rest (ledger_view w1)" "uuid_str m" ?s]]])
        (use ok in \<open>auto simp: bounded new_transfer_def\<close>)
    with data run Inl show ?thesis
      by (cases "tf_published tf'") (auto simp: answer_files_def defs)
  qed
qed

section \<open>Properties\<close>

lemma release_slot_same:
  "release_slot c w = (y, w') \<Longrightarrow> scene w' = scene w \<and> ledger_status i (ledger_view w') = ledger_status i (ledger_view w)"
  by (auto simp: release_slot_def bind_apply scene_eq ledger_view_def ledger_status_def split: if_splits)

lemma answer_files_release:
  assumes "release_slot c w = (y, w')" "answer_files f src dest ow r w"
  shows "answer_files f src dest ow r w'"
  using assms(2) release_slot_same [OF assms(1)] finale_cong [of w' w]
  by (auto simp: answer_files_def split: sum.splits)

text \<open>
  C18. A transfer between two saved local connections delivers or leaves alone. If the service
  returns a record, the destination file is a regular file that durably holds exactly the bytes the
  source file had, and it was absent unless overwriting was asked for. If it raises, the
  destination is what it was, except in one case: the file was published, the record stays
  publishing, and the error says so. This holds for every fault of the system calls (short reads and
  writes included) and of SQLite, as long as no other process changes the files.
\<close>

theorem local_transfer_delivers:
  assumes "service_run (application st sftp_open) rq w = Some (r, w')" "sftp_contract sftp_open"
    and "transfers_ok (db_transfers (db w))" "list_all sqlite_fault (db_faults w)"
    and "sw_free w \<le> MAX_CONCURRENT_TRANSFERS" "os_ok w"
    and "saved st (db_connections (db w)) (rq_source rq) pa"
    and "saved st (db_connections (db w)) (rq_destination rq) pb"
    and "points \<lparr>lc_root = pa\<rparr> (rq_source_file rq) (fs w) (cwd w) root_a"
    and "points \<lparr>lc_root = pb\<rparr> (rq_destination_file rq) (fs w) (cwd w) root_b"
    and "src = root_a @ [rq_source_file rq]" "dest = root_b @ [rq_destination_file rq]"
  shows "case r of
      Inr _ \<Rightarrow> (\<exists>data. regular_data (fs w) src data \<and> delivered dest data w') \<and>
        (rq_overwrite rq \<or> lookup (fs w) dest = None)
    | Inl e \<Rightarrow> untouched dest (fs w) w' \<or>
        (\<exists>data. regular_data (fs w) src data \<and> delivered dest data w') \<and>
        err_code e = TRANSFER_RECORD_FAILED \<and>
        (\<exists>i. err_transfer e = Some i \<and> ledger_status i (ledger_view w') = Some Publishing)"
proof -
  let ?f = "fs w" and ?ow = "rq_overwrite rq" and ?sv = "application st sftp_open"
  have files: "with_files ?f (cwd w) w" using assms(6) by (simp add: with_files_def)
  have idle: "answer_files ?f src dest ?ow (Inl e) w" for e
    using with_files_finale [OF files] by (simp add: answer_files_def)
  have "answer_files ?f src dest ?ow r w'"
  proof (cases "plain_filename (rq_source_file rq) \<and> plain_filename (rq_destination_file rq)")
    case False
    then obtain e where "service_run ?sv rq w = Some (Inl e, w)"
      by (cases "rq_source_file rq" rule: validate_filename_cases;
          cases "rq_destination_file rq" rule: validate_filename_cases)
        (auto simp: service_run_def pbind_def total_def)
    with assms(1) have "r = Inl e" "w' = w" by simp_all
    with idle show ?thesis by simp
  next
    case True
    let ?w = "w\<lparr>sw_free := sw_free w - 1\<rparr>"
    from assms(1) True have cases: "(\<exists>e. r = Inl e \<and> w' = w) \<or>
        sw_free w \<noteq> 0 \<and> ptry_finally (run_new_transfer ?sv rq) (release_slot (sv_capacity ?sv)) ?w = Some (r, w')"
      by (auto simp: service_run_valid split: if_splits)
    show ?thesis
    proof (cases "\<exists>e. r = Inl e \<and> w' = w")
      case True
      with idle show ?thesis by auto
    next
      case False
      with cases obtain r1 w1 where n: "sw_free w \<noteq> 0" and run: "run_new_transfer ?sv rq ?w = Some (r1, w1)"
        "(case release_slot (sv_capacity ?sv) w1 of (Inl e, w2) \<Rightarrow> (Inl e, w2) | (Inr _, w2) \<Rightarrow> (r1, w2)) = (r, w')"
        by (auto simp: ptry_finally_def split: option.splits)
      have same: "scene ?w = scene w" by (simp add: scene_eq)
      have "ready st ?f (cwd w) rq pa pb ?w"
        by (rule ready_keep [OF same]) (use files assms(7,8) in \<open>simp add: ready_def\<close>)
      moreover have ok: "ledger_ok (ledger_view ?w)" using assms(3,4) by (simp add: ledger_ok_def ledger_view_def)
      moreover have "fs_ok ?f" using assms(6) by (simp add: os_ok_def)
      ultimately have files: "answer_files ?f src dest ?ow r1 w1"
        using run_new_transfer_files [OF _ assms(9,10,2) _ _ run(1)] unfolding assms(11,12) by blast
      have "ends True (\<lambda>_ w2. sw_free w2 = sw_free w - 1) (\<lambda>_ w2. sw_free w2 = sw_free w - 1) (Some (r1, w1))"
        unfolding run(1) [symmetric]
        by (rule ends_mono [OF tripleD [OF run_new_transfer_triple [OF assms(2), of "sw_free w - 1"]]])
          (use ok in simp_all)
      then have "sw_free w1 < sv_capacity ?sv"
        using n assms(5) by (cases r1) (simp_all add: application_def)
      then obtain w2 where rel: "release_slot (sv_capacity ?sv) w1 = (Inr (), w2)"
        by (simp add: release_slot_def bind_apply)
      with run(2) answer_files_release [OF rel files] show ?thesis by simp
    qed
  qed
  then show ?thesis
    by (auto simp: answer_files_def finale_def settled_def split: sum.splits)
qed

lemma demo_root: "rooted (lit ''/d'') cw = [lit ''d'']"
proof -
  have "components (lit ''/d'') = [lit ''d'']"
    unfolding components_def split_d by (simp add: text_eval)
  moreover have "startswith (lit ''/d'') [47]" by (simp add: text_eval)
  ultimately show ?thesis by (simp add: rooted_def)
qed

lemma demo_saved: "saved demo_store (db_connections (db demo_service)) (lit ''docs'') (lit ''/d'')"
proof -
  have "cr_name (stored_row demo_store 0 demo_connection) = lit ''docs''"
    by (simp add: stored_row_def row_of_def demo_connection_def)
  then show ?thesis
    using demo_store_ok demo_connection_ok by (auto simp: saved_def demo_connection_def)
qed

theorem local_transfer_delivers_witness:
  "\<exists>r w'. service_run (application demo_store no_sftp) demo_request demo_service = Some (r, w') \<and>
    (\<forall>rec. r = Inr rec \<longrightarrow> delivered [lit ''d'', lit ''b''] [1, 2, 3] w')"
proof -
  obtain r w' where run: "service_run (application demo_store no_sftp) demo_request demo_service = Some (r, w')"
    by (rule demo_runs)
  have ok: "os_ok demo_service" by (auto simp: os_ok_def fs_ok_def calm_def)
  have points: "points \<lparr>lc_root = lit ''/d''\<rparr> g (fs demo_service) (cwd demo_service) [lit ''d'']" for g
    by (simp add: points_def demo_root)
  note requested = demo_request_def [THEN arg_cong [where f = rq_source]]
    demo_request_def [THEN arg_cong [where f = rq_destination]]
    demo_request_def [THEN arg_cong [where f = rq_source_file]]
    demo_request_def [THEN arg_cong [where f = rq_destination_file]]
  have "inodes demo_fs (Suc 0) = \<lparr>kind = Regular, content = [1, 2, 3], durable = [1, 2, 3], mode = 384\<rparr>"
    by (simp add: demo_fs_def)
  then show ?thesis
    using local_transfer_delivers [OF run no_sftp_contract demo_transfers_ok _ _ ok _ _ points points refl refl]
      run demo_saved requested
    by (auto simp: regular_data_def split: sum.splits)
qed

end
