(* ===== verification/Text_Decoding.thy ===== *)
theory Text_Decoding
  imports Py_Prelude
begin

text \<open>
  Python's incremental decoder \<^verbatim>\<open>utf-8-sig\<close>, called once: a leading byte order mark is dropped, and
  unless the input is final, a character that is cut at the end is held back.
\<close>

section \<open>UTF-8\<close>

text \<open>
  A lead byte of two or more: how many bytes follow, and the bounds of the first of them (which
  exclude overlong forms, surrogates and what is above the last code point).
\<close>

definition utf8_lead :: "nat \<Rightarrow> (nat \<times> nat \<times> nat) option" where
  "utf8_lead n =
     (if 194 \<le> n \<and> n \<le> 223 then Some (1, 128, 191)
      else if n = 224 then Some (2, 160, 191)
      else if n = 237 then Some (2, 128, 159)
      else if 225 \<le> n \<and> n \<le> 239 then Some (2, 128, 191)
      else if n = 240 then Some (3, 144, 191)
      else if 241 \<le> n \<and> n \<le> 243 then Some (3, 128, 191)
      else if n = 244 then Some (3, 128, 143)
      else None)"

fun utf8_tail :: "nat \<Rightarrow> nat \<Rightarrow> nat list \<Rightarrow> bool" where
  "utf8_tail lo hi [] = True"
| "utf8_tail lo hi (t # ts) = (lo \<le> t \<and> t \<le> hi \<and> list_all (\<lambda>t. 128 \<le> t \<and> t \<le> 191) ts)"

definition utf8_value :: "nat \<Rightarrow> nat \<Rightarrow> nat list \<Rightarrow> nat" where
  "utf8_value k n ts = foldl (\<lambda>a t. a * 64 + (t - 128)) (n mod 2 ^ (6 - k)) ts"

function utf8_decode :: "bool \<Rightarrow> bytes \<Rightarrow> pystr option" where
  "utf8_decode final [] = Some []"
| "utf8_decode final (b # bs) =
     (if unat b < 128 then map_option (Cons (unat b)) (utf8_decode final bs)
      else case utf8_lead (unat b) of
        None \<Rightarrow> None
      | Some (k, lo, hi) \<Rightarrow>
          (let ts = map unat (take k bs)
           in if \<not> utf8_tail lo hi ts then None
              else if length ts < k then (if final then None else Some [])
              else map_option (Cons (utf8_value k (unat b) ts)) (utf8_decode final (drop k bs))))"
  by pat_completeness auto
termination
  by (relation "measure (\<lambda>(_, bs). length bs)") (auto simp: Let_def)

definition BOM_UTF8 :: bytes where
  "BOM_UTF8 = [239, 187, 191]"

definition utf8_sig_decode :: "bool \<Rightarrow> bytes \<Rightarrow> pystr option" where
  "utf8_sig_decode final bs =
     (if length bs < 3 \<and> bs = take (length bs) BOM_UTF8 then Some []
      else utf8_decode final (if take 3 bs = BOM_UTF8 then drop 3 bs else bs))"

section \<open>Encoded text\<close>

definition is_cp :: "nat \<Rightarrow> bool" where
  "is_cp c \<longleftrightarrow> c < 1114112"

lemma unat_byte: "n < 256 \<Longrightarrow> unat (of_nat n :: byte) = n"
  by (simp add: unsigned_of_nat take_bit_nat_eq_self)

text \<open>One encoded character, whole or cut.\<close>

lemma lead_mod:
  "d < 32 \<Longrightarrow> (192 + d) mod 32 = (d :: nat)" "d < 16 \<Longrightarrow> (224 + d) mod 16 = d" "d < 8 \<Longrightarrow> (240 + d) mod 8 = d"
  using mod_mult_self2 [of d 32 6] mod_mult_self2 [of d 16 14] mod_mult_self2 [of d 8 30]
  by (simp_all add: add.commute)

lemma utf8_shapeI:
  fixes e :: bytes
  assumes "e = of_nat n # map of_nat ts" "n < 256" "128 \<le> n" "utf8_lead n = Some (k, lo, hi)" "length ts = k"
    "utf8_tail lo hi ts" "list_all (\<lambda>t. t < 256) ts" "utf8_value k n ts = c"
  shows "\<exists>b ts k lo hi. e = b # map of_nat ts \<and> \<not> unat b < 128 \<and> utf8_lead (unat b) = Some (k, lo, hi) \<and>
    length ts = k \<and> utf8_tail lo hi ts \<and> list_all (\<lambda>t. t < 256) ts \<and> utf8_value k (unat b) ts = c"
proof -
  have "unat (of_nat n :: byte) = n" using assms(2) by (rule unat_byte)
  with assms show ?thesis
    by (intro exI [of _ "of_nat n"] exI [of _ ts] exI [of _ k] exI [of _ lo] exI [of _ hi]) simp
qed

lemma mod64: "c mod 64 \<le> (63 :: nat)"
  using mod_less_divisor [of 64 c] by linarith

lemma utf8_cp_shape:
  assumes "utf8_cp c = Some e" "is_cp c" "128 \<le> c"
  shows "\<exists>b ts k lo hi. e = b # map of_nat ts \<and> \<not> unat b < 128 \<and> utf8_lead (unat b) = Some (k, lo, hi) \<and>
    length ts = k \<and> utf8_tail lo hi ts \<and> list_all (\<lambda>t. t < 256) ts \<and> utf8_value k (unat b) ts = c"
proof -
  consider "c < 2048" | "2048 \<le> c" "c < 65536" "\<not> is_surrogate c" | "65536 \<le> c"
    using assms(1) by (auto simp: utf8_cp_def split: if_splits)
  then show ?thesis
  proof cases
    case 1
    let ?n = "192 + c div 64" and ?ts = "[128 + c mod 64]"
    have n: "194 \<le> ?n" "?n \<le> 223" using 1 assms(3) by auto
    have "c div 64 < 32" using 1 by simp
    then have "(192 + c div 64) mod 32 = c div 64" by (rule lead_mod)
    then have "utf8_value 1 ?n ?ts = c" by (simp add: utf8_value_def)
    moreover have "e = of_nat ?n # map of_nat ?ts" using 1 assms(1,3) by (simp add: utf8_cp_def)
    moreover have "utf8_lead ?n = Some (1, 128, 191)" using n by (simp add: utf8_lead_def)
    moreover have "c mod 64 \<le> 63" by (rule mod64)
    ultimately show ?thesis using n by (intro utf8_shapeI [where n = ?n and ts = ?ts]) auto
  next
    case 2
    let ?n = "224 + c div 4096" and ?ts = "[128 + c div 64 mod 64, 128 + c mod 64]"
    have n: "224 \<le> ?n" "?n \<le> 239" using 2 by auto
    have "c div 4096 < 16" using 2 by simp
    then have "(224 + c div 4096) mod 16 = c div 4096" by (rule lead_mod)
    moreover have "(c div 4096 * 64 + c div 64 mod 64) * 64 + c mod 64 = c"
      using div_mult_mod_eq [of "c div 64" 64] div_mult_mod_eq [of c 64]
      by (simp add: div_mult2_eq [symmetric])
    ultimately have v: "utf8_value 2 ?n ?ts = c" by (simp add: utf8_value_def)
    have t: "?n = 224 \<Longrightarrow> 32 \<le> c div 64 mod 64" "?n = 237 \<Longrightarrow> c div 64 mod 64 < 32"
      using 2 div_mult_mod_eq [of "c div 64" 64]
      by (auto simp: is_surrogate_def div_mult2_eq [symmetric])
    obtain lo hi where lead: "utf8_lead ?n = Some (2, lo, hi)"
        "lo \<le> 128 + c div 64 mod 64" "128 + c div 64 mod 64 \<le> hi"
        using n t by (cases "?n = 224"; cases "?n = 237") (auto simp: utf8_lead_def)
      moreover have "e = of_nat ?n # map of_nat ?ts" using 2 assms(1) by (simp add: utf8_cp_def)
      moreover have "c mod 64 \<le> 63" "c div 64 mod 64 \<le> 63" by (rule mod64)+
      ultimately show ?thesis
        using n v by (intro utf8_shapeI [where n = ?n and ts = ?ts]) auto
  next
    case 3
    let ?n = "240 + c div 262144"
      and ?ts = "[128 + c div 4096 mod 64, 128 + c div 64 mod 64, 128 + c mod 64]"
    have n: "240 \<le> ?n" "?n \<le> 244" using 3 assms(2) by (auto simp: is_cp_def)
    have "c div 262144 < 8" using n by simp
    then have "(240 + c div 262144) mod 8 = c div 262144" by (rule lead_mod)
    moreover have "((c div 262144 * 64 + c div 4096 mod 64) * 64 + c div 64 mod 64) * 64 + c mod 64 = c"
      using div_mult_mod_eq [of "c div 4096" 64] div_mult_mod_eq [of "c div 64" 64] div_mult_mod_eq [of c 64]
      by (simp add: div_mult2_eq [symmetric])
    ultimately have v: "utf8_value 3 ?n ?ts = c" by (simp add: utf8_value_def)
    have t: "?n = 240 \<Longrightarrow> 16 \<le> c div 4096 mod 64" "?n = 244 \<Longrightarrow> c div 4096 mod 64 < 16"
      using 3 assms(2) div_mult_mod_eq [of "c div 4096" 64]
      by (auto simp: is_cp_def div_mult2_eq [symmetric])
    obtain lo hi where lead: "utf8_lead ?n = Some (3, lo, hi)"
      "lo \<le> 128 + c div 4096 mod 64" "128 + c div 4096 mod 64 \<le> hi"
      using n t by (cases "?n = 240"; cases "?n = 244") (auto simp: utf8_lead_def)
    have e: "e = of_nat ?n # map of_nat ?ts"
      using 3 assms(1) by (simp add: utf8_cp_def is_surrogate_def)
    have m: "c mod 64 \<le> 63" "c div 64 mod 64 \<le> 63" "c div 4096 mod 64 \<le> 63" by (rule mod64)+
    have "utf8_tail lo hi ?ts" "list_all (\<lambda>t. t < 256) ?ts" using lead m by auto
    then show ?thesis by (intro utf8_shapeI [OF e _ _ lead(1) _ _ _ v]) (use n in simp_all)
  qed
qed

lemma map_unat_bytes: "list_all (\<lambda>t. t < 256) ts \<Longrightarrow> map unat (map of_nat ts :: bytes) = ts"
  by (induction ts) (auto simp: unat_byte)

lemma utf8_tail_take: "utf8_tail lo hi ts \<Longrightarrow> utf8_tail lo hi (take k ts)"
  by (cases ts; cases k) (auto simp: list_all_iff dest: in_set_takeD)

lemma utf8_decode_char:
  assumes "utf8_cp c = Some e" "is_cp c"
  shows "utf8_decode final (e @ bs) = map_option (Cons c) (utf8_decode final bs)"
proof (cases "c < 128")
  case True
  with assms show ?thesis by (auto simp: utf8_cp_def unat_byte)
next
  case False
  then obtain b ts k lo hi where e: "e = b # map of_nat ts" "\<not> unat b < 128"
    "utf8_lead (unat b) = Some (k, lo, hi)" "length ts = k" "utf8_tail lo hi ts"
    "list_all (\<lambda>t. t < 256) ts" "utf8_value k (unat b) ts = c"
    using utf8_cp_shape [OF assms] by auto
  from e(4) have "map unat (take k (map of_nat ts @ bs)) = ts"
    using map_unat_bytes [OF e(6)] by simp
  with e show ?thesis by (simp add: Let_def)
qed

text \<open>A text that was encoded is decoded again, and of a cut one a prefix, without an error.\<close>

lemma utf8_decode_encode:
  assumes "utf8 s = Some bs" "list_all is_cp s"
  shows "utf8_decode final bs = Some s"
  using assms
proof (induction s arbitrary: bs)
  case (Cons c s)
  then obtain e b' where "utf8_cp c = Some e" "utf8 s = Some b'" "bs = e @ b'"
    by (auto split: option.splits)
  with Cons show ?case by (simp add: utf8_decode_char)
qed simp

lemma utf8_decode_cut:
  assumes "utf8_cp c = Some e" "is_cp c" "n < length e"
  shows "utf8_decode False (take n e) = Some []"
proof (cases "c < 128 \<or> n = 0")
  case True
  with assms show ?thesis by (auto simp: utf8_cp_def)
next
  case False
  then obtain b ts k lo hi where e: "e = b # map of_nat ts" "\<not> unat b < 128"
    "utf8_lead (unat b) = Some (k, lo, hi)" "length ts = k" "utf8_tail lo hi ts"
    "list_all (\<lambda>t. t < 256) ts" using utf8_cp_shape [OF assms(1,2)] by auto
  from False obtain m where n: "n = Suc m" by (cases n) auto
  with assms(3) e have m: "m < k" by simp
  have "map unat (take k (take m (map of_nat ts :: bytes))) = take m ts"
    using map_unat_bytes [OF e(6)] m by (simp add: min_def flip: take_map)
  with e m n utf8_tail_take [OF e(5), of m] show ?thesis by (simp add: Let_def)
qed

lemma utf8_decode_prefix:
  assumes "utf8 s = Some bs" "list_all is_cp s"
  shows "\<exists>k. utf8_decode False (take n bs) = Some (take k s)"
  using assms
proof (induction s arbitrary: bs n)
  case (Cons c s)
  then obtain e b' where e: "utf8_cp c = Some e" "utf8 s = Some b'" "bs = e @ b'"
    by (auto split: option.splits)
  show ?case
  proof (cases "n < length e")
    case True
    with utf8_decode_cut [OF e(1) _ True] Cons.prems(2) e(3) have "utf8_decode False (take n bs) = Some (take 0 (c # s))"
      by simp
    then show ?thesis by blast
  next
    case False
    from Cons.IH [OF e(2), of "n - length e"] Cons.prems(2) obtain k where
      "utf8_decode False (take (n - length e) b') = Some (take k s)" by auto
    with e(1,3) False Cons.prems(2) have "utf8_decode False (take n bs) = Some (take (Suc k) (c # s))"
      by (simp add: utf8_decode_char)
    then show ?thesis by blast
  qed
qed simp

text \<open>Decoding gives at most one code point for a byte.\<close>

lemma utf8_decode_length: "utf8_decode final bs = Some s \<Longrightarrow> length s \<le> length bs"
proof (induction final bs arbitrary: s rule: utf8_decode.induct)
  case (2 final b bs)
  show ?case
  proof (cases "unat b < 128")
    case True
    with 2(1,3) show ?thesis by auto
  next
    case False
    with 2(3) obtain k lo hi where lead: "utf8_lead (unat b) = Some (k, lo, hi)"
      by (auto split: option.splits)
    show ?thesis
    proof (cases "length bs < k")
      case True
      with 2(3) False lead show ?thesis by (auto simp: Let_def split: if_splits)
    next
      case k: False
      with 2(3) False lead obtain s' where "utf8_tail lo hi (map unat (take k bs))"
        "utf8_decode final (drop k bs) = Some s'" "s = utf8_value k (unat b) (map unat (take k bs)) # s'"
        by (auto simp: Let_def split: if_splits)
      with 2(2) [OF False lead refl refl refl _ _ this(2)] k show ?thesis by simp
    qed
  qed
qed simp

lemma utf8_sig_decode_length: "utf8_sig_decode final bs = Some s \<Longrightarrow> length s \<le> length bs"
  by (auto simp: utf8_sig_decode_def split: if_splits dest!: utf8_decode_length)

end
