(* ===== verification/Csv.thy ===== *)
theory Csv
  imports Effects
begin

text \<open>
  The standard library's \<open>csv.reader(io.StringIO(text, newline=""), strict=True)\<close>: the lines of the
  text with their ends, and the state machine of the reader, of the dialect \<open>excel\<close>. The field size
  limit is left out: the source sets it to the preview budget, and no field of a text within the
  budget is longer.

  After the reader: what it makes of a text in which every field is quoted.
\<close>

section \<open>Lines\<close>

text \<open>Lines end with \<open>\n\<close>, \<open>\r\<close> or \<open>\r\n\<close> and keep their ends.\<close>

fun split_lines :: "pystr \<Rightarrow> pystr list" where
  "split_lines [] = []"
| "split_lines (c # s) =
     (if c = 10 then [c] # split_lines s
      else if c = 13 then
        (case s of
           d # s' \<Rightarrow> if d = 10 then [c, d] # split_lines s' else [c] # split_lines s
         | [] \<Rightarrow> [[c]])
      else case split_lines s of
        [] \<Rightarrow> [[c]]
      | l # ls \<Rightarrow> (c # l) # ls)"

section \<open>The reader\<close>

datatype csv_state =
    Start_record
  | Start_field
  | In_field
  | In_quoted_field
  | Quote_in_quoted_field
  | Eat_crnl

record csv_reader =
  csv_state :: csv_state
  csv_field :: pystr
  csv_fields :: "pystr list"

definition csv_reset :: csv_reader where
  "csv_reset = \<lparr>csv_state = Start_record, csv_field = [], csv_fields = []\<rparr>"

definition csv_error :: exn where
  "csv_error = PyError ''csv.Error''"

definition add_char :: "nat \<Rightarrow> csv_state \<Rightarrow> csv_reader \<Rightarrow> csv_reader" where
  "add_char c st p = p\<lparr>csv_state := st, csv_field := csv_field p @ [c]\<rparr>"

definition save_field :: "csv_state \<Rightarrow> csv_reader \<Rightarrow> csv_reader" where
  "save_field st p = p\<lparr>csv_state := st, csv_field := [], csv_fields := csv_fields p @ [csv_field p]\<rparr>"

definition is_crnl :: "nat \<Rightarrow> bool" where
  "is_crnl c \<longleftrightarrow> c = 10 \<or> c = 13"

text \<open>One character, or \<open>None\<close> at the end of a line.\<close>

definition start_field :: "nat option \<Rightarrow> csv_reader \<Rightarrow> csv_reader" where
  "start_field i p =
     (case i of
        None \<Rightarrow> save_field Start_record p
      | Some c \<Rightarrow>
          if is_crnl c then save_field Eat_crnl p
          else if c = 34 then p\<lparr>csv_state := In_quoted_field\<rparr>
          else if c = 44 then save_field Start_field p
          else add_char c In_field p)"

definition csv_step :: "nat option \<Rightarrow> csv_reader \<Rightarrow> csv_reader result" where
  "csv_step i p =
     (case csv_state p of
        Start_record \<Rightarrow>
          (case i of
             None \<Rightarrow> Inr p
           | Some c \<Rightarrow> if is_crnl c then Inr (p\<lparr>csv_state := Eat_crnl\<rparr>) else Inr (start_field i p))
      | Start_field \<Rightarrow> Inr (start_field i p)
      | In_field \<Rightarrow>
          (case i of
             None \<Rightarrow> Inr (save_field Start_record p)
           | Some c \<Rightarrow>
               Inr (if is_crnl c then save_field Eat_crnl p
                    else if c = 44 then save_field Start_field p
                    else add_char c In_field p))
      | In_quoted_field \<Rightarrow>
          (case i of
             None \<Rightarrow> Inr p
           | Some c \<Rightarrow>
               Inr (if c = 34 then p\<lparr>csv_state := Quote_in_quoted_field\<rparr>
                    else add_char c In_quoted_field p))
      | Quote_in_quoted_field \<Rightarrow>
          (case i of
             None \<Rightarrow> Inr (save_field Start_record p)
           | Some c \<Rightarrow>
               if c = 34 then Inr (add_char c In_quoted_field p)
               else if c = 44 then Inr (save_field Start_field p)
               else if is_crnl c then Inr (save_field Eat_crnl p)
               else Inl csv_error)
      | Eat_crnl \<Rightarrow>
          (case i of
             None \<Rightarrow> Inr (p\<lparr>csv_state := Start_record\<rparr>)
           | Some c \<Rightarrow> if is_crnl c then Inr p else Inl csv_error))"

fun csv_line :: "nat option list \<Rightarrow> csv_reader \<Rightarrow> csv_reader result" where
  "csv_line [] p = Inr p"
| "csv_line (i # is) p = (case csv_step i p of Inl e \<Rightarrow> Inl e | Inr p' \<Rightarrow> csv_line is p')"

lemma csv_line_append:
  "csv_line (xs @ ys) p = (case csv_line xs p of Inl e \<Rightarrow> Inl e | Inr p' \<Rightarrow> csv_line ys p')"
  by (induction xs arbitrary: p) (auto split: sum.splits)

text \<open>
  \<open>next(reader)\<close> from a parser state, on the lines that are left: a record and the lines after it, or
  nothing at the end of the text.
\<close>

fun csv_next :: "csv_reader \<Rightarrow> pystr list \<Rightarrow> (pystr list \<times> pystr list) option result" where
  "csv_next p [] =
     (if csv_field p \<noteq> [] \<or> csv_state p = In_quoted_field then Inl csv_error else Inr None)"
| "csv_next p (l # ls) =
     (case csv_line (map Some l @ [None]) p of
        Inl e \<Rightarrow> Inl e
      | Inr p' \<Rightarrow>
          if csv_state p' = Start_record then Inr (Some (csv_fields p', ls)) else csv_next p' ls)"

definition next_record :: "pystr list \<Rightarrow> (pystr list \<times> pystr list) option result" where
  "next_record ls = csv_next csv_reset ls"

lemma csv_next_shorter: "csv_next p ls = Inr (Some (r, ls')) \<Longrightarrow> length ls' < length ls"
  by (induction p ls rule: csv_next.induct) (fastforce split: if_splits sum.splits)+

lemma next_record_shorter: "next_record ls = Inr (Some (r, ls')) \<Longrightarrow> length ls' < length ls"
  by (auto simp: next_record_def dest: csv_next_shorter)

section \<open>Quoted text\<close>

text \<open>A record in which every field is quoted, and quotes within are doubled.\<close>

definition quoted :: "pystr \<Rightarrow> pystr" where
  "quoted field = [34] @ concat (map (\<lambda>c. if c = 34 then [34, 34] else [c]) field) @ [34]"

fun quoted_record :: "pystr list \<Rightarrow> pystr" where
  "quoted_record [] = []"
| "quoted_record [f] = quoted f"
| "quoted_record (f # fs) = quoted f @ [44] @ quoted_record fs"

lemma split_lines_nonempty: "s \<noteq> [] \<Longrightarrow> split_lines s \<noteq> []"
  by (induction s rule: split_lines.induct) (auto split: list.splits)

text \<open>A character that ends no line is read before the rest of its line.\<close>

lemma csv_next_plain:
  assumes "\<not> is_crnl c" "s \<noteq> []" "csv_step (Some c) p = Inr p'"
  shows "csv_next p (split_lines (c # s)) = csv_next p' (split_lines s)"
proof -
  obtain l ls where "split_lines s = l # ls"
    using assms(2) by (cases "split_lines s") (auto dest: split_lines_nonempty)
  with assms show ?thesis by (simp add: is_crnl_def)
qed

text \<open>Within quotes a line end is a character like any other.\<close>

lemma csv_next_quoted:
  assumes "csv_state p = In_quoted_field" "c \<noteq> 34" "s \<noteq> []"
  shows "csv_next p (split_lines (c # s)) = csv_next (add_char c In_quoted_field p) (split_lines s)"
proof -
  have step: "csv_step (Some d) q = Inr (add_char d In_quoted_field q)" "csv_step None q = Inr q"
    if "csv_state q = In_quoted_field" "d \<noteq> 34" for d q
    using that by (simp_all add: csv_step_def)
  let ?q = "add_char c In_quoted_field p"
  have q: "csv_state ?q = In_quoted_field" by (simp add: add_char_def)
  show ?thesis
  proof (cases "is_crnl c")
    case False
    then show ?thesis by (rule csv_next_plain [OF _ assms(3) step(1) [OF assms(1,2)]])
  next
    case True
    show ?thesis
    proof (cases "c = 13 \<and> hd s = 10")
      case True
      with assms(3) obtain s' where "s = 10 # s'" by (cases s) auto
      with True show ?thesis using step(1) [OF assms(1,2)] by simp
    next
      case False
      with True assms(3) have "split_lines (c # s) = [c] # split_lines s"
        by (cases s) (auto simp: is_crnl_def)
      then show ?thesis using step(1) [OF assms(1,2)] step(2) [OF q assms(2)] q by simp
    qed
  qed
qed

lemma csv_next_field:
  assumes "csv_state p = In_quoted_field" "s \<noteq> []"
  shows "csv_next p (split_lines (concat (map (\<lambda>c. if c = 34 then [34, 34] else [c]) f) @ 34 # s)) =
    csv_next (p\<lparr>csv_field := csv_field p @ f, csv_state := Quote_in_quoted_field\<rparr>) (split_lines s)"
  using assms(1)
proof (induction f arbitrary: p)
  case Nil
  then have "csv_step (Some 34) p = Inr (p\<lparr>csv_field := csv_field p @ [], csv_state := Quote_in_quoted_field\<rparr>)"
    by (simp add: csv_step_def)
  from csv_next_plain [OF _ assms(2) this] show ?case by (simp add: is_crnl_def)
next
  case (Cons c f)
  let ?t = "concat (map (\<lambda>c. if c = 34 then [34, 34] else [c]) f) @ 34 # s"
  let ?q = "add_char c In_quoted_field p"
  have q: "csv_state ?q = In_quoted_field" "csv_field ?q = csv_field p @ [c]" by (simp_all add: add_char_def)
  have "csv_next p (split_lines ((if c = 34 then [34, 34] else [c]) @ ?t)) = csv_next ?q (split_lines ?t)"
  proof (cases "c = 34")
    case True
    let ?r = "p\<lparr>csv_state := Quote_in_quoted_field\<rparr>"
    have "csv_step (Some 34) p = Inr ?r" "csv_step (Some 34) ?r = Inr ?q"
      using Cons.prems True by (simp_all add: csv_step_def add_char_def)
    with True csv_next_plain [of 34 "34 # ?t" p ?r] csv_next_plain [of 34 ?t ?r ?q] show ?thesis
      by (simp add: is_crnl_def)
  next
    case False
    with csv_next_quoted [OF Cons.prems False, of ?t] show ?thesis by simp
  qed
  also have "\<dots> = csv_next (?q\<lparr>csv_field := csv_field ?q @ f, csv_state := Quote_in_quoted_field\<rparr>) (split_lines s)"
    by (rule Cons.IH [OF q(1)])
  finally show ?case by (simp add: add_char_def)
qed

text \<open>A record that is written quoted is read back, and the reader is then at what follows.\<close>

lemma csv_next_record:
  assumes "r \<noteq> []" "csv_state p \<in> {Start_record, Start_field}" "csv_field p = []"
  shows "csv_next p (split_lines (quoted_record r @ 13 # 10 # rest)) =
    Inr (Some (csv_fields p @ r, split_lines rest))"
  using assms
proof (induction r arbitrary: p rule: quoted_record.induct)
  case (2 f)
  let ?q = "p\<lparr>csv_state := In_quoted_field\<rparr>"
  have "csv_step (Some 34) p = Inr ?q" using 2 by (auto simp: csv_step_def start_field_def is_crnl_def)
  from csv_next_plain [OF _ _ this] csv_next_field [of ?q "13 # 10 # rest" f] 2 show ?case
    by (simp add: quoted_def is_crnl_def csv_step_def save_field_def)
next
  case (3 f g fs)
  let ?q = "p\<lparr>csv_state := In_quoted_field\<rparr>"
  let ?r = "p\<lparr>csv_field := f, csv_state := Quote_in_quoted_field\<rparr>"
  let ?t = "quoted_record (g # fs) @ 13 # 10 # rest"
  have "csv_step (Some 34) p = Inr ?q" using 3 by (auto simp: csv_step_def start_field_def is_crnl_def)
  from csv_next_plain [OF _ _ this] csv_next_field [of ?q "44 # ?t" f] 3(4)
  have "csv_next p (split_lines (quoted_record (f # g # fs) @ 13 # 10 # rest)) = csv_next ?r (split_lines (44 # ?t))"
    by (simp add: quoted_def is_crnl_def)
  also have "\<dots> = csv_next (save_field Start_field ?r) (split_lines ?t)"
    by (rule csv_next_plain) (simp_all add: csv_step_def is_crnl_def)
  also have "\<dots> = Inr (Some ((csv_fields p @ [f]) @ g # fs, split_lines rest))"
    using 3(1) [of "save_field Start_field ?r"] by (simp add: save_field_def)
  finally show ?case by simp
qed simp

lemma next_record_quoted:
  "r \<noteq> [] \<Longrightarrow> next_record (split_lines (quoted_record r @ 13 # 10 # rest)) = Inr (Some (r, split_lines rest))"
  by (simp add: next_record_def csv_reset_def csv_next_record)

end
