(* ===== verification/Preview.thy ===== *)
theory Preview
  imports Base Json Json_Roundtrip Text_Decoding Csv Loops
begin

text \<open>
  \<^verbatim>\<open>databridge/preview.py\<close>: the first rows of a CSV or JSON file, from a bounded prefix that is read
  through the connector contract. A row is a dictionary; a number that is not an integer keeps its
  literal, and the value of a CSV field is a string.
\<close>

section \<open>Constants and errors\<close>

definition MAX_PREVIEW_BYTES :: nat where "MAX_PREVIEW_BYTES = 1048576"
definition DEFAULT_PREVIEW_ROWS :: nat where "DEFAULT_PREVIEW_ROWS = 5"
definition MAX_PREVIEW_ROWS :: nat where "MAX_PREVIEW_ROWS = 100"
definition MAX_JSON_DEPTH :: nat where "MAX_JSON_DEPTH = 32"

datatype inferred_type = String_type | Integer_type | Float_type | Boolean_type | Date_type

type_synonym dict = "(pystr \<times> json) list"

record preview_result =
  pv_filename :: pystr
  pv_format :: pystr
  pv_rows :: "dict list"
  pv_schema :: "(pystr \<times> inferred_type) list"

definition malformed :: "string \<Rightarrow> exn" where
  "malformed message = db_error MALFORMED_FILE (lit message)"

definition incomplete :: exn where
  "incomplete = db_error PREVIEW_LIMIT_EXCEEDED (lit ''The JSON preview cannot be parsed within the byte limit'')"

definition too_deep :: exn where
  "too_deep = db_error PREVIEW_LIMIT_EXCEEDED
     (lit ''JSON nesting is deeper than the preview limit of '' @ show_nat MAX_JSON_DEPTH @ lit '' levels'')"

section \<open>Reading the prefix\<close>

text \<open>
  The loop of \<open>_read_prefix\<close>, which runs on the source, the bytes read so far and the world: it asks
  for what is missing to one byte past the budget, until it has it or the source ends.
\<close>

function read_prefix_loop ::
  "('w, 'r, 'k) connector \<Rightarrow> 'r \<times> (bytes \<times> 'w) \<Rightarrow> unit result \<times> ('r \<times> (bytes \<times> 'w))" where
  "read_prefix_loop cn (r, (data, w)) =
     (if MAX_PREVIEW_BYTES < length data then (Inr (), (r, (data, w)))
      else case cn_source_read cn (MAX_PREVIEW_BYTES + 1 - length data) (r, w) of
        (Inl e, (r', w')) \<Rightarrow> (Inl e, (r', (data, w')))
      | (Inr chunk, (r', w')) \<Rightarrow>
          if chunk = [] then (Inr (), (r', (data, w')))
          else read_prefix_loop cn (r', (data @ chunk, w')))"
  by pat_completeness auto
termination
  by (relation "measure (\<lambda>(cn, (r, (data, w))). MAX_PREVIEW_BYTES + 1 - length data)")
    (auto simp: neq_Nil_conv)

declare read_prefix_loop.simps [simp del]

text \<open>The decoded prefix, and whether the file is longer than the budget.\<close>

definition prefix_text :: "bytes \<Rightarrow> (pystr \<times> bool) result" where
  "prefix_text data =
     (let at_limit = MAX_PREVIEW_BYTES < length data
      in case utf8_sig_decode (\<not> at_limit) (take MAX_PREVIEW_BYTES data) of
           None \<Rightarrow> Inl (malformed ''The file is not valid UTF-8 text'')
         | Some text \<Rightarrow> Inr (text, at_limit))"

definition read_prefix :: "('w, 'r, 'k) connector \<Rightarrow> pystr \<Rightarrow> ('w, pystr \<times> bool) io" where
  "read_prefix cn filename =
     (\<lambda>w. case with_block
              (on_world (cn_read_enter cn filename (Some (MAX_PREVIEW_BYTES + 1))))
              (read_prefix_loop cn)
              (\<lambda>failure. stream (cn_read_exit cn failure)) ([], w) of
        (Inl e, (_, w')) \<Rightarrow> (Inl e, w')
      | (Inr _, (data, w')) \<Rightarrow> (prefix_text data, w'))"

section \<open>CSV\<close>

definition csv_parse_error :: "bool \<Rightarrow> exn" where
  "csv_parse_error at_limit =
     db_error (if at_limit then PREVIEW_LIMIT_EXCEEDED else MALFORMED_FILE)
       (lit ''The CSV preview cannot be parsed within the byte limit'')"

text \<open>\<open>text[: max(text.rfind("\n"), text.rfind("\r")) + 1]\<close>.\<close>

definition through_last_line_end :: "pystr \<Rightarrow> pystr" where
  "through_last_line_end text = rev (dropWhile (\<lambda>c. \<not> is_crnl c) (rev text))"

text \<open>The loop over the records after the header, on the lines that are left.\<close>

function csv_body ::
  "pystr list \<Rightarrow> nat \<Rightarrow> bool \<Rightarrow> dict list \<Rightarrow> pystr list \<Rightarrow> dict list result" where
  "csv_body header limit at_limit rows ls =
     (case next_record ls of
        Inl _ \<Rightarrow> Inl (csv_parse_error at_limit)
      | Inr None \<Rightarrow> Inr rows
      | Inr (Some (values, ls')) \<Rightarrow>
          if values = [] then csv_body header limit at_limit rows ls'
          else if length values \<noteq> length header then
            Inl (malformed ''A CSV row does not match its header'')
          else
            (let rows' = rows @ [zip header (map JStr values)]
             in if length rows' = limit then Inr rows' else csv_body header limit at_limit rows' ls'))"
  by pat_completeness auto
termination
  by (relation "measure (\<lambda>(_, _, _, _, ls). length ls)") (auto dest: next_record_shorter)

declare csv_body.simps [simp del]

definition csv_rows :: "pystr \<Rightarrow> nat \<Rightarrow> bool \<Rightarrow> (pystr list \<times> dict list) result" where
  "csv_rows whole limit at_limit =
     (let text = (if at_limit then through_last_line_end whole else whole)
      in case next_record (split_lines text) of
           Inl _ \<Rightarrow> Inl (csv_parse_error at_limit)
         | Inr found \<Rightarrow>
             if found = None \<and> at_limit then
               Inl (db_error PREVIEW_LIMIT_EXCEEDED (lit ''The CSV header exceeds the preview byte limit''))
             else
               (case found of
                  None \<Rightarrow> Inl (malformed ''CSV must have a unique, nonempty header'')
                | Some (header, ls) \<Rightarrow>
                    if header = [] \<or> [] \<in> set header \<or> \<not> distinct header then
                      Inl (malformed ''CSV must have a unique, nonempty header'')
                    else
                      (case csv_body header limit at_limit [] ls of
                         Inl e \<Rightarrow> Inl e
                       | Inr rows \<Rightarrow>
                           if at_limit \<and> length rows < limit then
                             Inl (db_error PREVIEW_LIMIT_EXCEEDED (lit ''The CSV preview exceeds the byte limit''))
                           else Inr (header, rows))))"

section \<open>Numbers\<close>

definition strip_sign :: "pystr \<Rightarrow> pystr" where
  "strip_sign s = (if take 1 s = [43] \<or> take 1 s = [45] then drop 1 s else s)"

text \<open>
  \<open>float\<close> of a decimal literal: its digits, and the exponent of ten. The nearest double is infinite
  from the middle between the largest double and the next power of two on.
\<close>

definition fraction_digits :: "pystr \<Rightarrow> pystr" where
  "fraction_digits r = (if take 1 r = [46] then digits_of (drop 1 r) else [])"

definition after_fraction :: "pystr \<Rightarrow> pystr" where
  "after_fraction r = (if take 1 r = [46] then after_digits (drop 1 r) else r)"

definition exponent_of :: "pystr \<Rightarrow> int" where
  "exponent_of t =
     (if take 1 t = [101] \<or> take 1 t = [69] then
        (let n = int (nat_of_digits (strip_sign (drop 1 t)))
         in if take 1 (drop 1 t) = [45] then - n else n)
      else 0)"

definition DOUBLE_OVERFLOW :: nat where
  "DOUBLE_OVERFLOW = 2 ^ 1024 - 2 ^ 970"

definition finite_literal :: "pystr \<Rightarrow> bool" where
  "finite_literal s =
     (let body = strip_sign s;
          rest = after_digits body;
          frac = fraction_digits rest;
          m = nat_of_digits (digits_of body @ frac);
          e = exponent_of (after_fraction rest) - int (length frac)
      in m = 0 \<or> (if 0 \<le> e then m * 10 ^ nat e < DOUBLE_OVERFLOW
                   else m < DOUBLE_OVERFLOW * 10 ^ nat (- e)))"

section \<open>JSON\<close>

definition reject_constant :: "pystr \<Rightarrow> json result" where
  "reject_constant name = Inl (malformed ''JSON contains a nonstandard numeric value'')"

definition finite_float :: "pystr \<Rightarrow> json result" where
  "finite_float text =
     (if finite_literal text then Inr (JFloat text)
      else Inl (malformed ''JSON contains a number out of range''))"

definition bounded_int :: "pystr \<Rightarrow> json result" where
  "bounded_int text =
     (case py_int text of
        Inr i \<Rightarrow> Inr (JInt i)
      | Inl e \<Rightarrow>
          if e = PyError ''ValueError'' then Inl (malformed ''JSON contains an integer with too many digits'')
          else Inl e)"

definition DECODER :: hooks where
  "DECODER = \<lparr>parse_float = finite_float, parse_int = bounded_int, parse_constant = reject_constant\<rparr>"

text \<open>
  \<open>_check_nesting\<close>: the tokens of its pattern are strings, skipped whole, and brackets. Inside a
  string a backslash takes the next character with it unless that is a line end, which the pattern's
  dot does not match: there the string token ends.
\<close>

fun nested_too_deep :: "nat \<Rightarrow> nat \<Rightarrow> bool \<Rightarrow> pystr \<Rightarrow> bool" where
  "nested_too_deep limit depth instr [] = False"
| "nested_too_deep limit depth True (c # s) =
     (if c = 34 then nested_too_deep limit depth False s
      else if c \<noteq> 92 then nested_too_deep limit depth True s
      else case s of
        [] \<Rightarrow> False
      | d # s' \<Rightarrow> nested_too_deep limit depth (d \<noteq> 10) s')"
| "nested_too_deep limit depth False (c # s) =
     (if c = 34 then nested_too_deep limit depth True s
      else if c = 91 \<or> c = 123 then limit < depth + 1 \<or> nested_too_deep limit (depth + 1) False s
      else if c = 93 \<or> c = 125 then depth \<noteq> 1 \<and> nested_too_deep limit (depth - 1) False s
      else nested_too_deep limit depth False s)"

definition check_nesting :: "pystr \<Rightarrow> nat \<Rightarrow> unit result" where
  "check_nesting s limit =
     (if take 1 s \<noteq> [91] \<and> take 1 s \<noteq> [123] then Inr ()
      else if nested_too_deep limit 0 False s then Inl too_deep else Inr ())"

definition expects_array :: exn where
  "expects_array = malformed ''JSON preview expects an array of objects''"

definition json_malformed :: exn where
  "json_malformed = malformed ''The JSON file is malformed''"

fun as_dict :: "json \<Rightarrow> dict option" where
  "as_dict (JObj d) = Some d"
| "as_dict _ = None"

fun as_dicts :: "json list \<Rightarrow> dict list option" where
  "as_dicts [] = Some []"
| "as_dicts (v # vs) =
     (case (as_dict v, as_dicts vs) of (Some d, Some ds) \<Rightarrow> Some (d # ds) | _ \<Rightarrow> None)"

text \<open>What the decoder raises; running out of the model's fuel does not happen (\<open>raw_decode_fuel\<close>).\<close>

definition json_document :: "pystr \<Rightarrow> nat \<Rightarrow> dict list result" where
  "json_document text limit =
     (case check_nesting (skip_ws text) (MAX_JSON_DEPTH + 1) of
        Inl e \<Rightarrow> Inl e
      | Inr _ \<Rightarrow>
          (case decode DECODER text of
             Inl (HookError e) \<Rightarrow> Inl e
           | Inl _ \<Rightarrow> Inl json_malformed
           | Inr (JArr vs) \<Rightarrow>
               (case as_dicts vs of None \<Rightarrow> Inl expects_array | Some rows \<Rightarrow> Inr (take limit rows))
           | Inr _ \<Rightarrow> Inl expects_array))"

text \<open>\<open>_cut_by_budget\<close>, on the message and what follows its position.\<close>

definition literal_prefix :: "pystr \<Rightarrow> bool" where
  "literal_prefix suffix \<longleftrightarrow>
     startswith (lit ''true'') suffix \<or> startswith (lit ''false'') suffix \<or> startswith (lit ''null'') suffix"

fun cut_by_budget :: "json_msg \<Rightarrow> pystr \<Rightarrow> bool" where
  "cut_by_budget Unterminated_string suffix = True"
| "cut_by_budget Invalid_u_escape suffix =
     (case suffix of [] \<Rightarrow> False | c # ds \<Rightarrow> c = 117 \<and> length ds \<le> 3 \<and> list_all is_hex ds)"
| "cut_by_budget Expecting_value suffix = (suffix = [] \<or> suffix = [45] \<or> literal_prefix suffix)"
| "cut_by_budget Expecting_comma suffix =
     (suffix \<in> {[], [46], [101], [69], [101, 43], [101, 45], [69, 43], [69, 45]})"
| "cut_by_budget Expecting_property_name suffix = (suffix = [])"
| "cut_by_budget Expecting_colon suffix = (suffix = [])"
| "cut_by_budget Invalid_escape suffix = False"
| "cut_by_budget Invalid_control_character suffix = False"
| "cut_by_budget Extra_data suffix = False"

definition end_of_array :: "pystr \<Rightarrow> dict list \<Rightarrow> dict list result" where
  "end_of_array rest rows =
     (if skip_ws rest \<noteq> [] then Inl (malformed ''JSON has trailing content'') else Inr rows)"

lemma raw_decode_shorter: "raw_decode h n s = Inr (v, rest) \<Longrightarrow> length rest < length s"
  unfolding raw_decode_def using scan_shorter by blast

lemma raw_decode_tl:
  "raw_decode h n (skip_ws left) = Inr (v, rest) \<Longrightarrow> length (tl (skip_ws rest)) < length left"
  using raw_decode_shorter [of h n "skip_ws left" v rest] skip_ws_length [of left] skip_ws_length [of rest]
  by simp

text \<open>The loop of \<open>_json_prefix\<close>, on what is left of the text after the opening bracket.\<close>

function json_prefix_loop :: "pystr \<Rightarrow> nat \<Rightarrow> dict list \<Rightarrow> bool \<Rightarrow> pystr \<Rightarrow> dict list result" where
  "json_prefix_loop text limit rows after_comma left =
     (let s = skip_ws left
      in if s = [] then Inl incomplete
      else if hd s = 93 then
        (if after_comma then Inl (malformed ''JSON array has a trailing comma'')
         else end_of_array (tl s) rows)
      else case check_nesting s MAX_JSON_DEPTH of
        Inl e \<Rightarrow> Inl e
      | Inr _ \<Rightarrow>
          (case raw_decode DECODER (length text) s of
             Inl (HookError e) \<Rightarrow> Inl e
           | Inl (DecodeError msg pos) \<Rightarrow>
               if cut_by_budget msg (drop pos text) then Inl incomplete else Inl json_malformed
           | Inl OutOfFuel \<Rightarrow> Inl json_malformed
           | Inr (item, rest) \<Rightarrow>
               (case as_dict item of
                  None \<Rightarrow> Inl (malformed ''JSON array entries must be objects'')
                | Some row \<Rightarrow>
                    (let rows' = rows @ [row]; s' = skip_ws rest
                     in if s' = [] then (if length rows' = limit then Inr rows' else Inl incomplete)
                        else if hd s' \<noteq> 44 \<and> hd s' \<noteq> 93 then
                          Inl (malformed ''A JSON array entry has no valid delimiter'')
                        else if length rows' = limit then Inr rows'
                        else if hd s' = 93 then end_of_array (tl s') rows'
                        else json_prefix_loop text limit rows' True (tl s')))))"
  by pat_completeness auto
termination
  by (relation "measure (\<lambda>(_, _, _, _, left). length left)") (auto dest: raw_decode_tl)

declare json_prefix_loop.simps [simp del]

definition json_prefix :: "pystr \<Rightarrow> nat \<Rightarrow> dict list result" where
  "json_prefix text limit =
     (let s = skip_ws text
      in if take 1 s \<noteq> [91] then Inl expects_array
         else json_prefix_loop text limit [] False (drop 1 s))"

text \<open>
  \<open>_check_row\<close>: the containers still to check are a stack; its top is the head of the list. An entry
  is a key, if the container is a dictionary, and a value.
\<close>

definition encodable :: "pystr \<Rightarrow> bool" where
  "encodable text \<longleftrightarrow> utf8 text \<noteq> None"

fun entries :: "json \<Rightarrow> (pystr option \<times> json) list" where
  "entries (JObj d) = map (\<lambda>(k, v). (Some k, v)) d"
| "entries (JArr vs) = map (Pair None) vs"
| "entries _ = []"

fun is_container :: "json \<Rightarrow> bool" where
  "is_container (JObj _) = True"
| "is_container (JArr _) = True"
| "is_container _ = False"

definition encodable_entry :: "pystr option \<times> json \<Rightarrow> bool" where
  "encodable_entry e =
     ((case fst e of None \<Rightarrow> True | Some k \<Rightarrow> encodable k) \<and>
      (case snd e of JStr t \<Rightarrow> encodable t | _ \<Rightarrow> True))"

definition unpaired_surrogate :: exn where
  "unpaired_surrogate = malformed ''JSON contains an unpaired surrogate escape''"

lemma size_dict_values:
  "sum_list (map size (filter is_container (map snd d))) \<le> size_list (size_prod (\<lambda>_. 0) size) (d :: dict)"
  by (induction d) auto

lemma size_array_values:
  "sum_list (map size (filter is_container vs)) \<le> size_list size (vs :: json list)"
  by (induction vs) auto

lemma entries_smaller:
  "entries c \<noteq> [] \<or> is_container c \<Longrightarrow>
   sum_list (map size (filter is_container (map snd (entries c)))) < size c"
  using size_dict_values size_array_values
  by (induction c rule: entries.induct) (auto simp: comp_def case_prod_beta le_imp_less_Suc)

function check_pending :: "json list \<Rightarrow> unit result" where
  "check_pending [] = Inr ()"
| "check_pending (c # pending) =
     (if \<not> list_all encodable_entry (entries c) then Inl unpaired_surrogate
      else check_pending (rev (filter is_container (map snd (entries c))) @ pending))"
  by pat_completeness auto
termination
proof (relation "measures [\<lambda>cs. sum_list (map size cs), length]", simp)
  fix c pending
  show "(rev (filter is_container (map snd (entries c))) @ pending, c # pending)
      \<in> measures [\<lambda>cs. sum_list (map size cs), length]"
  proof (cases "entries c = [] \<and> \<not> is_container c")
    case True
    then show ?thesis by (cases "size c") simp_all
  next
    case False
    with entries_smaller [of c] show ?thesis by (simp flip: rev_map)
  qed
qed

declare check_pending.simps(2) [simp del]

definition check_row :: "dict \<Rightarrow> unit result" where
  "check_row row = check_pending [JObj row]"

fun check_rows :: "dict list \<Rightarrow> unit result" where
  "check_rows [] = Inr ()"
| "check_rows (row # rows) = (case check_row row of Inl e \<Rightarrow> Inl e | Inr _ \<Rightarrow> check_rows rows)"

definition json_rows :: "pystr \<Rightarrow> nat \<Rightarrow> bool \<Rightarrow> dict list result" where
  "json_rows text limit at_limit =
     (case (if at_limit then json_prefix text limit else json_document text limit) of
        Inl e \<Rightarrow> Inl e
      | Inr rows \<Rightarrow> (case check_rows rows of Inl e \<Rightarrow> Inl e | Inr _ \<Rightarrow> Inr rows))"

section \<open>Types\<close>

definition integer_text :: "pystr \<Rightarrow> bool" where
  "integer_text s \<longleftrightarrow> strip_sign s \<noteq> [] \<and> list_all is_digit (strip_sign s)"

definition float_text :: "pystr \<Rightarrow> bool" where
  "float_text s =
     (let body = strip_sign s;
          rest = after_digits body;
          t = after_fraction rest
      in (digits_of body \<noteq> [] \<or> fraction_digits rest \<noteq> []) \<and>
         (t = [] \<or> (take 1 t = [101] \<or> take 1 t = [69]) \<and> integer_text (drop 1 t)))"

definition date_text :: "pystr \<Rightarrow> bool" where
  "date_text s \<longleftrightarrow> list_all2 (\<lambda>p c. if p = 100 then is_digit c else p = c) (lit ''dddd-dd-dd'') s"

text \<open>\<open>date.fromisoformat\<close> of a text of that pattern does not raise.\<close>

definition valid_date :: "pystr \<Rightarrow> bool" where
  "valid_date s =
     (let y = nat_of_digits (take 4 s); m = nat_of_digits (take 2 (drop 5 s)); d = nat_of_digits (drop 8 s)
      in 1 \<le> y \<and> 1 \<le> m \<and> m \<le> 12 \<and> 1 \<le> d \<and> d \<le> days_in_month y m)"

definition type_of_text :: "bool \<Rightarrow> pystr \<Rightarrow> inferred_type option" where
  "type_of_text csv_value text =
     (let clean = strip text
      in if clean = [] then None
         else if csv_value \<and> lower clean \<in> {lit ''true'', lit ''false''} then Some Boolean_type
         else if csv_value \<and> integer_text clean then Some Integer_type
         else if csv_value \<and> float_text clean \<and> finite_literal clean then Some Float_type
         else if date_text clean \<and> valid_date clean then Some Date_type
         else Some String_type)"

fun type_of :: "bool \<Rightarrow> json \<Rightarrow> inferred_type option" where
  "type_of csv_value JNull = None"
| "type_of csv_value (JBool _) = Some Boolean_type"
| "type_of csv_value (JInt _) = Some Integer_type"
| "type_of csv_value (JFloat _) = Some Float_type"
| "type_of csv_value (JStr s) = type_of_text csv_value s"
| "type_of csv_value _ = Some String_type"

text \<open>\<open>_schema\<close>: its two dictionaries, and one observation of a field.\<close>

type_synonym schema = "(pystr \<times> inferred_type) list"

definition set_default :: "pystr \<Rightarrow> inferred_type \<Rightarrow> schema \<Rightarrow> schema" where
  "set_default k t d = (if k \<in> fst ` set d then d else d @ [(k, t)])"

definition joined_type :: "inferred_type \<Rightarrow> inferred_type \<Rightarrow> inferred_type" where
  "joined_type previous kind =
     (if previous = kind then previous
      else if {previous, kind} = {Integer_type, Float_type} then Float_type else String_type)"

definition observe :: "bool \<Rightarrow> pystr \<times> json \<Rightarrow> schema \<times> schema \<Rightarrow> schema \<times> schema" where
  "observe csv_values = (\<lambda>(field, value) (result, observed).
     case type_of csv_values value of
       None \<Rightarrow> (set_default field String_type result, observed)
     | Some kind \<Rightarrow>
         (let t = (case map_of observed field of None \<Rightarrow> kind | Some previous \<Rightarrow> joined_type previous kind)
          in (dict_set field t result, dict_set field t observed)))"

definition schema_of :: "dict list \<Rightarrow> pystr list \<Rightarrow> bool \<Rightarrow> schema" where
  "schema_of rows header csv_values =
     fst (fold (observe csv_values) (concat rows)
       (fold (\<lambda>field d. dict_set field String_type d) header [], []))"

section \<open>The preview\<close>

text \<open>\<open>PurePath(filename).suffix\<close> of a validated name.\<close>

definition suffix_of :: "pystr \<Rightarrow> pystr" where
  "suffix_of name =
     (let after = rev (takeWhile (\<lambda>c. c \<noteq> 46) (rev name));
          dot = length name - length after
      in if dot \<le> 1 \<or> after = [] then [] else 46 # after)"

definition preview :: "('w, 'r, 'k) connector \<Rightarrow> pystr \<Rightarrow> nat \<Rightarrow> ('w, preview_result) io" where
  "preview cn filename limit =
     bind (of_result (validate_filename filename)) (\<lambda>_.
       let suffix = lower (suffix_of filename) in
       if suffix \<notin> {lit ''.csv'', lit ''.json''} then
         raise (db_error UNSUPPORTED_PREVIEW_FORMAT (lit ''Preview supports CSV and JSON files''))
       else
         bind (read_prefix cn filename) (\<lambda>(text, at_limit).
           if suffix = lit ''.json'' then
             bind (of_result (json_rows text limit at_limit)) (\<lambda>rows.
               ret \<lparr>pv_filename = filename, pv_format = lit ''json'', pv_rows = rows,
                    pv_schema = schema_of rows [] False\<rparr>)
           else
             bind (of_result (csv_rows text limit at_limit)) (\<lambda>(header, rows).
               ret \<lparr>pv_filename = filename, pv_format = lit ''csv'', pv_rows = rows,
                    pv_schema = schema_of rows header True\<rparr>)))"

end
