(* ===== verification/Preview_Csv.thy ===== *)
theory Preview_Csv
  imports Preview
begin

text \<open>
  The CSV side of the preview: a cut prefix gives the rows of the whole file, and a table that is
  written with quotes is read back.
\<close>

section \<open>A text and a prefix that ends with a line\<close>

text \<open>
  The lines of a prefix are the first lines of the text, but the prefix may end between the two
  characters of a line end.
\<close>

inductive cut_lines :: "pystr list \<Rightarrow> pystr list \<Rightarrow> bool" where
  whole: "cut_lines [] extra"
| within: "cut_lines [l @ [13]] ((l @ [13, 10]) # extra)"
| line: "cut_lines ls ls' \<Longrightarrow> cut_lines (l # ls) (l # ls')"

lemma cut_linesE:
  assumes "cut_lines (l # ls) ls'"
  obtains (same) extra where "ls' = l # extra" "cut_lines ls extra"
  | (within) l0 extra where "l = l0 @ [13]" "ls = []" "ls' = (l0 @ [13, 10]) # extra"
  using assms by (cases rule: cut_lines.cases) auto

lemma split_lines_no_end: "\<forall>c\<in>set s. \<not> is_crnl c \<Longrightarrow> split_lines s = (if s = [] then [] else [s])"
  by (induction s rule: split_lines.induct) (auto simp: is_crnl_def)

lemma cut_lines_Cons:
  assumes "cut_lines ls ls'" "ls \<noteq> []"
  shows "cut_lines (case ls of [] \<Rightarrow> [[c]] | l # r \<Rightarrow> (c # l) # r) (case ls' of [] \<Rightarrow> [[c]] | l # r \<Rightarrow> (c # l) # r)"
  using assms
proof (cases rule: cut_lines.cases)
  case (within l extra)
  with cut_lines.within [of "c # l" extra] show ?thesis by simp
qed (auto intro: cut_lines.intros)

lemma split_lines_cut:
  "s = [] \<or> is_crnl (last s) \<Longrightarrow> cut_lines (split_lines s) (split_lines (s @ t))"
proof (induction s rule: split_lines.induct)
  case 1
  show ?case by (simp add: cut_lines.whole)
next
  case (2 c s)
  show ?case
  proof (cases "c = 10")
    case True
    with 2(1) 2(5) show ?thesis by (cases "s = []") (auto intro: cut_lines.intros)
  next
    case ten: False
    show ?thesis
    proof (cases "c = 13")
      case False
      with 2(5) ten have s: "s \<noteq> []" "is_crnl (last s)" by (auto simp: is_crnl_def split: if_splits)
      with 2(4) ten False have "cut_lines (split_lines s) (split_lines (s @ t))" by simp
      from cut_lines_Cons [OF this split_lines_nonempty [OF s(1)], of c] ten False show ?thesis by simp
    next
      case True
      show ?thesis
      proof (cases s)
        case Nil
        have "cut_lines [[] @ [13]] (split_lines (13 # t))"
        proof (cases "\<exists>t'. t = 10 # t'")
          case True
          then show ?thesis using cut_lines.within [of "[]"] by auto
        next
          case False
          then have "split_lines (13 # t) = [13] # split_lines t" by (cases t) auto
          then show ?thesis by (auto intro: cut_lines.intros)
        qed
        with True Nil show ?thesis by simp
      next
        case (Cons d s')
        show ?thesis
        proof (cases "d = 10")
          case d: True
          have "s' = [] \<or> is_crnl (last s')" using 2(5) Cons by (auto split: if_splits)
          with 2(2) [OF ten True Cons d] True Cons d show ?thesis by (auto intro: cut_lines.line)
        next
          case d: False
          have "is_crnl (last s)" using 2(5) Cons by simp
          with 2(3) [OF ten True Cons d] True Cons d show ?thesis by (auto intro: cut_lines.line)
        qed
      qed
    qed
  qed
qed

section \<open>Reading a prefix\<close>

lemma csv_step_end_of_line:
  assumes "csv_step (Some 13) p = Inr q" "csv_step None q = Inr p'" "csv_state p' = Start_record"
  shows "csv_step (Some 10) q = Inr q"
proof -
  from assms(1) have "csv_state q = Eat_crnl \<or> csv_state q = In_quoted_field"
    by (auto simp: csv_step_def start_field_def is_crnl_def save_field_def add_char_def
        split: csv_state.splits if_splits)
  with assms(2,3) show ?thesis by (auto simp: csv_step_def is_crnl_def)
qed

lemma csv_next_cut:
  assumes "cut_lines ls ls'" "csv_next p ls = Inr (Some (r, rest))"
  shows "\<exists>rest'. csv_next p ls' = Inr (Some (r, rest')) \<and> cut_lines rest rest'"
  using assms
proof (induction p ls arbitrary: ls' rule: csv_next.induct)
  case (1 p)
  then show ?case by (simp split: if_splits)
next
  case (2 p l ls)
  from 2(3) obtain q where q: "csv_line (map Some l @ [None]) p = Inr q" by (auto split: sum.splits)
  from 2(2) show ?case
  proof (cases rule: cut_linesE)
    case (same extra)
    show ?thesis
    proof (cases "csv_state q = Start_record")
      case True
      with q same 2(3) show ?thesis by auto
    next
      case False
      with q 2(3) have "csv_next q ls = Inr (Some (r, rest))" by simp
      from 2(1) [OF q False same(2) this] q False same(1) show ?thesis by simp
    qed
  next
    case (within l0 extra)
    from q within obtain x y where x: "csv_line (map Some l0) p = Inr x" "csv_step (Some 13) x = Inr y"
      "csv_step None y = Inr q" by (auto simp: csv_line_append split: sum.splits)
    have state: "csv_state q = Start_record"
      using q within 2(3) by (auto split: if_splits)
    with csv_step_end_of_line [OF x(2,3)] x have "csv_line (map Some (l0 @ [13, 10]) @ [None]) p = Inr q"
      by (simp add: csv_line_append)
    with state q within 2(3) show ?thesis by (auto intro: cut_lines.whole)
  qed
qed

lemma csv_body_cut:
  assumes "cut_lines ls ls'" "csv_body header limit True rows ls = Inr out" "limit \<le> length out"
    "length rows < limit"
  shows "csv_body header limit False rows ls' = Inr out"
  using assms
proof (induction header limit True rows ls arbitrary: ls' rule: csv_body.induct)
  case (1 header limit rows ls)
  from 1(4) obtain found where found: "next_record ls = Inr found"
    by (auto simp: csv_body.simps [of _ _ _ _ ls] split: sum.splits)
  show ?case
  proof (cases found)
    case None
    with 1(4,5,6) found show ?thesis by (simp add: csv_body.simps [of _ _ _ _ ls])
  next
    case (Some vr)
    then obtain vs rest where vr: "found = Some (vs, rest)" by (cases vr) auto
    with found obtain rest' where full: "next_record ls' = Inr (Some (vs, rest'))" "cut_lines rest rest'"
      using csv_next_cut [OF 1(3), of csv_reset vs rest] by (auto simp: next_record_def)
    note run = 1(4) [unfolded csv_body.simps [of _ _ _ _ ls] found vr, simplified]
    note IH = 1(1,2) [OF found vr refl]
    show ?thesis
    proof (cases "vs = []")
      case True
      with run IH(1) [OF True full(2) _ 1(5,6)] full(1) show ?thesis
        by (simp add: csv_body.simps [of _ _ _ _ ls'])
    next
      case False
      with run have len: "length vs = length header" by (auto split: if_splits)
      let ?rows = "rows @ [zip header (map JStr vs)]"
      show ?thesis
      proof (cases "length ?rows = limit")
        case True
        with run False len have "out = ?rows" by (simp add: Let_def)
        with True False len full(1) show ?thesis by (simp add: csv_body.simps [of _ _ _ _ ls'] Let_def)
      next
        case less: False
        with run False len have "csv_body header limit True ?rows rest = Inr out" by (simp add: Let_def)
        from IH(2) [OF False _ refl less full(2) this 1(5)] 1(6) less len full(1) False show ?thesis
          by (simp add: csv_body.simps [of _ _ _ _ ls'] Let_def)
      qed
    qed
  qed
qed

lemma through_last_line_end_prefix:
  "\<exists>t. s = through_last_line_end s @ t" "through_last_line_end s = [] \<or> is_crnl (last (through_last_line_end s))"
proof -
  let ?r = "rev s" and ?P = "\<lambda>c. \<not> is_crnl c"
  have "s = rev (dropWhile ?P ?r) @ rev (takeWhile ?P ?r)"
    by (metis rev_append rev_rev_ident takeWhile_dropWhile_id)
  then show "\<exists>t. s = through_last_line_end s @ t" unfolding through_last_line_end_def by blast
  show "through_last_line_end s = [] \<or> is_crnl (last (through_last_line_end s))"
    using hd_dropWhile [of ?P ?r] by (auto simp: through_last_line_end_def last_rev)
qed

lemma csv_rows_prefix:
  assumes "csv_rows (take n text) limit True = Inr x" "0 < limit"
  shows "csv_rows text limit False = Inr x"
proof -
  let ?p = "through_last_line_end (take n text)"
  obtain t where "take n text = ?p @ t" using through_last_line_end_prefix(1) by blast
  then have whole: "text = ?p @ (t @ drop n text)" by (metis append.assoc append_take_drop_id)
  have cut: "cut_lines (split_lines ?p) (split_lines text)"
    using split_lines_cut [OF through_last_line_end_prefix(2), of "take n text" "t @ drop n text"] whole by simp
  from assms(1) obtain header ls rows where c: "next_record (split_lines ?p) = Inr (Some (header, ls))"
    "\<not> (header = [] \<or> [] \<in> set header \<or> \<not> distinct header)"
    "csv_body header limit True [] ls = Inr rows" "\<not> length rows < limit" "x = (header, rows)"
    by (auto simp: csv_rows_def Let_def split: sum.splits option.splits if_splits)
  from csv_next_cut [OF cut, of csv_reset header ls] c(1) obtain ls' where full:
    "next_record (split_lines text) = Inr (Some (header, ls'))" "cut_lines ls ls'"
    by (auto simp: next_record_def)
  from csv_body_cut [OF full(2) c(3)] c(4) assms(2) have "csv_body header limit False [] ls' = Inr rows" by simp
  with full(1) c(2,5) show ?thesis by (simp add: csv_rows_def)
qed

section \<open>Quoted tables\<close>

definition quoted_table :: "pystr list list \<Rightarrow> pystr" where
  "quoted_table rs = concat (map (\<lambda>r. quoted_record r @ [13, 10]) rs)"

lemma csv_body_quoted:
  assumes "header \<noteq> []" "\<forall>r\<in>set rs. length r = length header" "length acc < limit"
  shows "csv_body header limit False acc (split_lines (quoted_table rs)) =
    Inr (acc @ map (\<lambda>r. zip header (map JStr r)) (take (limit - length acc) rs))"
  using assms(2,3)
proof (induction rs arbitrary: acc)
  case Nil
  then show ?case by (simp add: quoted_table_def csv_body.simps next_record_def csv_reset_def)
next
  case (Cons r rs)
  let ?acc = "acc @ [zip header (map JStr r)]"
  from Cons.prems assms(1) have r: "r \<noteq> []" "length r = length header" by auto
  have "next_record (split_lines (quoted_table (r # rs))) = Inr (Some (r, split_lines (quoted_table rs)))"
    using next_record_quoted [OF r(1)] by (simp add: quoted_table_def)
  moreover have "csv_body header limit False ?acc (split_lines (quoted_table rs)) =
      Inr (?acc @ map (\<lambda>r. zip header (map JStr r)) (take (limit - length ?acc) rs))" if "length ?acc \<noteq> limit"
    using Cons that by (intro Cons.IH) auto
  moreover have "take (limit - length acc) (r # rs) = r # take (limit - length ?acc) rs"
    using Cons.prems(2) by (simp add: take_Cons')
  ultimately show ?case
    using r by (cases "length ?acc = limit") (simp_all add: csv_body.simps [of _ _ _ _ "split_lines (quoted_table (r # rs))"])
qed

lemma csv_rows_quoted:
  assumes "header \<noteq> []" "[] \<notin> set header" "distinct header" "\<forall>r\<in>set rs. length r = length header" "0 < limit"
  shows "csv_rows (quoted_table (header # rs)) limit False =
    Inr (header, map (\<lambda>r. zip header (map JStr r)) (take limit rs))"
proof -
  have "next_record (split_lines (quoted_table (header # rs))) = Inr (Some (header, split_lines (quoted_table rs)))"
    using next_record_quoted [OF assms(1)] by (simp add: quoted_table_def)
  with csv_body_quoted [OF assms(1,4), of "[]" limit] assms(1-3,5) show ?thesis by (simp add: csv_rows_def)
qed

text \<open>Every row has the fields of the header, and there are at most \<open>limit\<close> rows.\<close>

lemma csv_body_rows:
  assumes "csv_body header limit at_limit rows ls = Inr out" "length rows < limit"
    "\<forall>row\<in>set rows. map fst row = header"
  shows "length out \<le> limit \<and> (\<forall>row\<in>set out. map fst row = header)"
  using assms
proof (induction header limit at_limit rows ls rule: csv_body.induct)
  case (1 header limit at_limit rows ls)
  show ?case
  proof (cases "next_record ls")
    case (Inr found)
    show ?thesis
    proof (cases found)
      case (Some vr)
      obtain vs rest where vr: "vr = (vs, rest)" by (rule prod.exhaust)
      note run = 1(3) [unfolded csv_body.simps [of _ _ _ _ ls] Inr Some vr, simplified]
      let ?rows = "rows @ [zip header (map JStr vs)]"
      consider "vs = []" | "vs \<noteq> []" "length vs = length header" "length ?rows = limit" "out = ?rows"
        | "vs \<noteq> []" "length vs = length header" "length ?rows \<noteq> limit"
          "csv_body header limit at_limit ?rows rest = Inr out"
        using run by (auto simp: Let_def split: if_splits)
      then show ?thesis
      proof cases
        case 1
        with run have "csv_body header limit at_limit rows rest = Inr out" by simp
        from "1.IH"(1) [OF Inr Some vr [symmetric] 1 this] "1.prems" show ?thesis by simp
      next
        case 2
        with "1.prems" show ?thesis by auto
      next
        case 3
        have "length ?rows < limit" using 3(3) "1.prems"(2) by simp
        with "1.IH"(2) [OF Inr Some vr [symmetric] 3(1) _ refl 3(3,4)] 3(2) "1.prems"(3) show ?thesis by auto
      qed
    qed (use 1 Inr in \<open>auto simp: csv_body.simps [of _ _ _ _ ls]\<close>)
  qed (use 1 in \<open>auto simp: csv_body.simps [of _ _ _ _ ls]\<close>)
qed

end
