(* ===== verification/Json_Prefix.thy ===== *)
theory Json_Prefix
  imports Json_Roundtrip
begin

text \<open>
  A value that the scanner reads from a prefix of a text is the one it reads from the text, unless
  the value is a number that ends where the prefix ends.
\<close>

section \<open>Strings\<close>

lemma skip_ws_append: "skip_ws s \<noteq> [] \<Longrightarrow> skip_ws (s @ t) = skip_ws s @ t"
  by (induction s) (auto simp: skip_ws_def)

lemma skip_ws_Cons_append: "skip_ws s = c # r \<Longrightarrow> skip_ws (s @ t) = c # r @ t"
  using skip_ws_append [of s t] by simp

text \<open>What is left of a string that the prefix cuts within an escape.\<close>

definition escape_cut :: "pystr \<Rightarrow> bool" where
  "escape_cut rest \<longleftrightarrow> rest = [] \<or> rest = [92] \<or> (take 2 rest = [92, 117] \<and> length rest \<le> 6)"

lemma escape_cut_fails: "escape_cut rest \<Longrightarrow> scanstring n b acc rest \<noteq> Inr (v, r)"
proof -
  assume cut: "escape_cut rest"
  then consider "rest = []" | "rest = [92]" | x where "rest = 92 # 117 # x" "length x \<le> 4"
    by (cases rest; cases "tl rest") (auto simp: escape_cut_def)
  then show ?thesis by cases (simp_all add: unicode_escape_def)
qed

lemma pair_append:
  assumes "\<not> escape_cut rest"
  shows "6 < length (rest @ t) \<and> take 2 (rest @ t) = [92, 117] \<longleftrightarrow> 6 < length rest \<and> take 2 rest = [92, 117]"
  using assms by (cases rest; cases "tl rest") (auto simp: escape_cut_def)

lemma unicode_escape_append:
  assumes "unicode_escape n s = Inr (c, rest)"
  shows "unicode_escape m (s @ t) = Inr (c, rest @ t) \<or> escape_cut rest"
proof -
  from assms obtain d where d: "4 < length s" "hex4 (take 4 s) = Some d"
    by (auto simp: unicode_escape_def split: if_splits option.splits)
  show ?thesis
  proof (cases "escape_cut (drop 4 s)")
    case True
    then have "\<not> (6 < length (drop 4 s) \<and> take 2 (drop 4 s) = [92, 117])"
      by (auto simp: escape_cut_def)
    with assms d True show ?thesis by (auto simp: unicode_escape_def Let_def split: if_splits)
  next
    case False
    from pair_append [OF this, of t] d assms show ?thesis
      by (auto simp: unicode_escape_def Let_def split: if_splits option.splits)
  qed
qed

lemma scanstring_append:
  "scanstring n b acc s = Inr (v, rest) \<Longrightarrow> scanstring m a acc (s @ t) = Inr (v, rest @ t)"
proof (induction n b acc s rule: scanstring.induct)
  case (2 n b acc c s)
  show ?case
  proof (cases "c = 34 \<or> (c \<noteq> 92 \<and> c \<le> 31)")
    case True
    with 2 show ?thesis by (auto split: if_splits)
  next
    case c: False
    show ?thesis
    proof (cases "c = 92")
      case False
      with 2 c show ?thesis by auto
    next
      case True
      with 2 c obtain e s' where s: "s = e # s'" by (cases s) auto
      show ?thesis
      proof (cases "e = 117")
        case u: True
        with 2(4) True s obtain d r where r: "unicode_escape n s' = Inr (d, r)"
          "scanstring n b (d # acc) r = Inr (v, rest)"
          by (auto split: sum.splits)
        with escape_cut_fails unicode_escape_append [OF r(1), of m t] have
          "unicode_escape m (s' @ t) = Inr (d, r @ t)" by blast
        with 2(1) [of e s' "(d, r)" d r] c True s u r show ?thesis by simp
      next
        case u: False
        with 2(4) True s obtain d where "simple_escape e = Some d"
          "scanstring n b (d # acc) s' = Inr (v, rest)"
          by (auto split: option.splits)
        with 2(2) [of e s' d] c True s u show ?thesis by auto
      qed
    qed
  qed
qed simp

section \<open>Numbers\<close>

text \<open>A character at which no number goes on.\<close>

definition ends_number :: "pystr \<Rightarrow> bool" where
  "ends_number rest \<longleftrightarrow> (\<exists>c r. rest = c # r \<and> \<not> is_digit c \<and> c \<noteq> 46 \<and> c \<noteq> 101 \<and> c \<noteq> 69)"

lemma digits_of_append: "digits_of s \<noteq> s \<Longrightarrow> digits_of (s @ t) = digits_of s"
  by (induction s) (auto simp: digits_of_def)

lemma digits_of_split: "drop (length (digits_of s)) s = after_digits s"
  by (simp add: digits_of_def after_digits_def dropWhile_eq_drop)

definition int_body :: "pystr \<Rightarrow> pystr \<Rightarrow> pystr option" where
  "int_body sign b =
     (case b of
        [] \<Rightarrow> None
      | c # _ \<Rightarrow> if c = 48 then Some (sign @ [48]) else if is_digit c then Some (sign @ digits_of b) else None)"

lemma match_int_eq:
  "match_int s = (if take 1 s = [45] then int_body [45] (drop 1 s) else int_body [] s)"
  by (simp add: match_int_def Let_def int_body_def del: One_nat_def)

lemma int_body_append:
  assumes "int_body sign b = Some w" "drop (length w - length sign) b \<noteq> []"
  shows "int_body sign (b @ t) = Some w"
proof -
  from assms(1) obtain c b' where b: "b = c # b'" by (cases b) (auto simp: int_body_def)
  show ?thesis
  proof (cases "c \<noteq> 48 \<and> is_digit c")
    case True
    with assms b have w: "w = sign @ digits_of b" by (auto simp: int_body_def)
    with assms(2) have "digits_of b \<noteq> b" by auto
    from digits_of_append [OF this, of t] True b w show ?thesis by (simp add: int_body_def)
  next
    case False
    with assms(1) b show ?thesis by (auto simp: int_body_def split: if_splits)
  qed
qed

lemma match_int_append:
  assumes "match_int s = Some w" "drop (length w) s \<noteq> []"
  shows "match_int (s @ t) = Some w"
proof -
  have s: "take 1 (s @ t) = take 1 s" "drop 1 (s @ t) = drop 1 s @ t"
    using assms(2) by (cases s; simp)+
  show ?thesis
  proof (cases "take 1 s = [45]")
    case True
    then obtain s' where s': "s = 45 # s'" by (cases s) auto
    with assms have b: "int_body [45] s' = Some w" by (simp add: match_int_eq)
    then have "w \<noteq> []" by (auto simp: int_body_def split: list.splits if_splits)
    with assms(2) s' have "drop (length w - length [45]) s' \<noteq> []" by (cases w) auto
    from int_body_append [OF b this] show ?thesis by (simp add: match_int_eq s')
  next
    case False
    with assms int_body_append [of "[]" s w t] s show ?thesis by (simp add: match_int_eq)
  qed
qed

lemma match_frac_append:
  assumes "drop (length (match_frac s)) s = d # u" "\<not> is_digit d" "d \<noteq> 46"
  shows "match_frac (s @ t) = match_frac s"
proof -
  from assms obtain c r where s: "s = c # r" by (cases s) (auto simp: ends_number_def)
  show ?thesis
  proof (cases "c = 46")
    case True
    with assms s have "digits_of r \<noteq> r \<or> r = []" by (auto simp: match_frac_def ends_number_def split: if_splits)
    with assms s True show ?thesis
      by (auto simp: match_frac_def ends_number_def digits_of_append split: if_splits)
  qed (use s in \<open>simp add: match_frac_def\<close>)
qed

lemma digits_stop: "ends_number (drop (length (digits_of b)) b) \<Longrightarrow> digits_of b \<noteq> b"
  by (auto simp: ends_number_def)

lemma match_exp_single: "match_exp [c] = []"
  by (simp add: match_exp_def Let_def digits_of_def)

lemma match_exp_append:
  assumes "ends_number (drop (length (match_exp s)) s)"
  shows "match_exp (s @ t) = match_exp s"
proof -
  from assms obtain c r where s: "s = c # r" by (cases s) (auto simp: ends_number_def)
  show ?thesis
  proof (cases "c = 101 \<or> c = 69")
    case True
    with assms s have "match_exp s \<noteq> []" by (auto simp: ends_number_def)
    with s obtain x y where r: "r = x # y" by (cases r) (simp_all add: match_exp_single)
    show ?thesis
    proof (cases "x = 43 \<or> x = 45")
      case sign: True
      then have e: "match_exp (c # x # y @ u) = (if digits_of (y @ u) = [] then [] else c # x # digits_of (y @ u))" for u
        using True by (auto simp: match_exp_def)
      from e [of "[]"] assms s r \<open>match_exp s \<noteq> []\<close> have "ends_number (drop (length (digits_of y)) y)"
        by (simp split: if_splits)
      then have "digits_of y \<noteq> y" by (rule digits_stop)
      from digits_of_append [OF this, of t] e [of "[]"] e [of t] s r show ?thesis by simp
    next
      case False
      then have e: "match_exp (c # x # y @ u) = (if digits_of (x # y @ u) = [] then [] else c # digits_of (x # y @ u))" for u
        using True by (auto simp: match_exp_def)
      from e [of "[]"] assms s r \<open>match_exp s \<noteq> []\<close> have "ends_number (drop (length (digits_of r)) r)"
        by (simp split: if_splits)
      then have "digits_of r \<noteq> r" by (rule digits_stop)
      from digits_of_append [OF this, of t] e [of "[]"] e [of t] s r show ?thesis by simp
    qed
  qed (use s in \<open>simp add: match_exp_def\<close>)
qed

lemma hooked_Inr: "hooked r rest = Inr (v, rest') \<longleftrightarrow> r = Inr v \<and> rest = rest'"
  by (auto simp: hooked_def split: sum.splits)

lemma match_number_append:
  assumes "match_number h n s = Inr (v, rest)" "ends_number rest"
  shows "match_number h m (s @ t) = Inr (v, rest @ t)"
proof -
  from assms(1) obtain w where w: "match_int s = Some w" by (auto simp: match_number_def split: option.splits)
  let ?f = "match_frac (drop (length w) s)"
  let ?x = "match_exp (drop (length w + length ?f) s)"
  from assms(1) w have rest: "rest = drop (length w + length ?f + length ?x) s"
    by (auto simp: match_number_def Let_def add.assoc split: sum.splits)
  have exp: "match_exp (drop (length w + length ?f) s @ t) = ?x"
    by (rule match_exp_append) (use assms(2) rest in \<open>simp add: add.commute\<close>)
  obtain d u where d: "drop (length ?f) (drop (length w) s) = d # u" "\<not> is_digit d" "d \<noteq> 46"
  proof (cases "?x = []")
    case True
    with assms(2) rest that show ?thesis by (auto simp: ends_number_def add.commute)
  next
    case False
    then obtain c r where "drop (length w + length ?f) s = c # r" "c = 101 \<or> c = 69"
      by (cases "drop (length w + length ?f) s") (auto simp: match_exp_def split: if_splits)
    then show ?thesis by (intro that [of c r]) (auto simp: is_digit_def add.commute)
  qed
  then have frac: "match_frac (drop (length w) s @ t) = ?f" by (rule match_frac_append)
  have ne: "drop (length w + length ?f) s \<noteq> []" "drop (length w) s \<noteq> []" "drop (length w + length ?f + length ?x) s \<noteq> []"
    using assms(2) rest by (auto simp: ends_number_def)
  have drops: "drop (length w) (s @ t) = drop (length w) s @ t"
    "drop (length w + length ?f) (s @ t) = drop (length w + length ?f) s @ t"
    "drop (length w + length ?f + length ?x) (s @ t) = drop (length w + length ?f + length ?x) s @ t"
    using ne by simp_all
  have e0: "match_number h n s = hooked (if ?f @ ?x = [] then parse_int h (w @ ?f @ ?x) else parse_float h (w @ ?f @ ?x)) rest"
    unfolding match_number_def w option.case Let_def length_append add.assoc [symmetric] rest hooked_def ..
  have e: "match_number h m (s @ t) =
      hooked (if ?f @ ?x = [] then parse_int h (w @ ?f @ ?x) else parse_float h (w @ ?f @ ?x)) (rest @ t)"
    unfolding match_number_def match_int_append [OF w ne(2)] option.case Let_def drops(1) frac drops(2) exp
      length_append add.assoc [symmetric] drops(3) rest hooked_def ..
  from assms(1) show ?thesis unfolding e0 e hooked_Inr by blast
qed

section \<open>The scanner\<close>

text \<open>A value that is complete where it ends: no literal, or a character follows that ends one.\<close>

definition stands :: "pystr \<Rightarrow> pystr \<Rightarrow> pystr \<Rightarrow> bool" where
  "stands s rest t \<longleftrightarrow> t = [] \<or> (\<exists>c r. s = c # r \<and> (c = 34 \<or> c = 91 \<or> c = 123)) \<or> ends_number rest"

lemma stands_delimiter: "skip_ws rest = e # r \<Longrightarrow> e \<in> {44, 93, 125} \<Longrightarrow> stands s rest t"
  by (cases rest) (auto simp: stands_def ends_number_def skip_ws_def is_json_space_def is_digit_def split: if_splits)

lemma scan_atom_append:
  assumes "scan_atom h n s = Inr (v, rest)" "t = [] \<or> ends_number rest"
  shows "scan_atom h m (s @ t) = Inr (v, rest @ t)"
proof -
  have starts: "startswith s (lit x) \<Longrightarrow> startswith (s @ t) (lit x)" for x by (auto simp: startswith_iff)
  have drops: "startswith s (lit x) \<Longrightarrow> length x = k \<Longrightarrow> drop k (s @ t) = drop k s @ t" for x k
    by (auto simp: startswith_iff)
  show ?thesis
  proof (cases "match_int s")
    case None
    then have "\<exists>x \<in> {''null'', ''true'', ''false'', ''NaN'', ''Infinity'', ''-Infinity''}. startswith s (lit x)"
      using assms(1) by (auto simp: scan_atom_def match_number_def split: if_splits)
    with assms(1) show ?thesis
      by (auto simp: scan_atom_def starts drops hooked_Inr startswith_iff text_eval split: if_splits)
  next
    case (Some w)
    then have no: "\<not> startswith (s @ u) (lit x)"
      if "x \<in> {''null'', ''true'', ''false'', ''NaN'', ''Infinity'', ''-Infinity''}" for x u
    proof -
      from Some obtain c r where "s = c # r" "is_digit c \<or> (c = 45 \<and> (\<exists>d q. r = d # q \<and> is_digit d))"
        by (cases s) (auto simp: match_int_eq int_body_def is_digit_def split: list.splits if_splits)
      with that show ?thesis by (auto simp: text_eval is_digit_def)
    qed
    from no [of _ "[]"] have "scan_atom h n s = match_number h n s" by (simp add: scan_atom_def)
    moreover from no have "scan_atom h m (s @ t) = match_number h m (s @ t)" by (simp add: scan_atom_def)
    moreover have "match_number h m s = Inr (v, rest)" if "match_number h n s = Inr (v, rest)"
      using that Some by (simp add: match_number_def)
    ultimately show ?thesis using assms match_number_append [of h n s v rest m t] by auto
  qed
qed

lemma scan_once_Nil: "scan_once h n k [] \<noteq> Inr x"
  by (cases k) simp_all

lemma scan_object_Nil: "scan_object h n k d [] \<noteq> Inr x"
  by (cases k) simp_all

lemma scan_array_Nil: "scan_array h n k xs [] \<noteq> Inr x"
proof (cases k)
  case (Suc j)
  then show ?thesis using scan_once_Nil [of h n j] by (auto split: sum.splits)
qed simp

text \<open>
  The scanner on a prefix with some fuel, and on the text with at least as much. Both the position of
  errors (\<open>n\<close>) and the fuel may differ.
\<close>

lemma scan_append:
  "(\<forall>s v rest k'. scan_once h n k s = Inr (v, rest) \<longrightarrow> stands s rest t \<longrightarrow> k \<le> k' \<longrightarrow>
      scan_once h m k' (s @ t) = Inr (v, rest @ t)) \<and>
   (\<forall>d s v rest k'. scan_object h n k d s = Inr (v, rest) \<longrightarrow> k \<le> k' \<longrightarrow>
      scan_object h m k' d (s @ t) = Inr (v, rest @ t)) \<and>
   (\<forall>xs s v rest k'. scan_array h n k xs s = Inr (v, rest) \<longrightarrow> k \<le> k' \<longrightarrow>
      scan_array h m k' xs (s @ t) = Inr (v, rest @ t))"
proof (induction k)
  case (Suc k)
  have once: "scan_once h m k' (s @ t) = Inr (v, rest @ t)"
    if "scan_once h n k s = Inr (v, rest)" "stands s rest t" "k \<le> k'" for s v rest k'
    using Suc that by blast
  have obj: "scan_object h m k' d (s @ t) = Inr (v, rest @ t)"
    if "scan_object h n k d s = Inr (v, rest)" "k \<le> k'" for d s v rest k'
    using Suc that by blast
  have arr: "scan_array h m k' d (s @ t) = Inr (v, rest @ t)"
    if "scan_array h n k d s = Inr (v, rest)" "k \<le> k'" for d s v rest k'
    using Suc that by blast
  have object: "scan_object h m k' d (s @ t) = Inr (v, rest @ t)"
    if scan: "scan_object h n (Suc k) d s = Inr (v, rest)" and "Suc k \<le> k'" for d s v rest k'
  proof -
    from that(2) obtain j where j: "k' = Suc j" "k \<le> j" by (cases k') auto
    from scan_object_Inr [OF scan] obtain s1 key s2 s3 x s4 e s5 where
      o: "s = 34 # s1" "scanstring n (n - length s) [] s1 = Inr (key, s2)" "skip_ws s2 = 58 # s3"
        "scan_once h n k (skip_ws s3) = Inr (x, s4)" "skip_ws s4 = e # s5"
        "e = 125 \<and> rest = s5 \<and> v = JObj (dict_set key x d) \<or>
         e = 44 \<and> scan_object h n k (dict_set key x d) (skip_ws s5) = Inr (v, rest)" by blast
    have s3: "skip_ws s3 \<noteq> []" using o(4) scan_once_Nil by metis
    have "stands (skip_ws s3) s4 t" using o(5,6) by (auto intro: stands_delimiter)
    from once [OF o(4) this j(2)] have x: "scan_once h m j (skip_ws (s3 @ t)) = Inr (x, s4 @ t)"
      by (simp add: skip_ws_append [OF s3])
    have onward: "scan_object h m j (dict_set key x d) (skip_ws (s5 @ t)) = Inr (v, rest @ t)" if "e = 44"
    proof -
      from o(6) that have r: "scan_object h n k (dict_set key x d) (skip_ws s5) = Inr (v, rest)" by simp
      then have "skip_ws s5 \<noteq> []" using scan_object_Nil by metis
      with obj [OF r j(2)] show ?thesis by (simp add: skip_ws_append)
    qed
    show ?thesis
      using o(1,6) onward x scanstring_append [OF o(2), of m "m - length (s @ t)" t]
      by (auto simp: j(1) skip_ws_Cons_append [OF o(3)] skip_ws_Cons_append [OF o(5)])
  qed
  have array: "scan_array h m k' xs (s @ t) = Inr (v, rest @ t)"
    if scan: "scan_array h n (Suc k) xs s = Inr (v, rest)" and "Suc k \<le> k'" for xs s v rest k'
  proof -
    from that(2) obtain j where j: "k' = Suc j" "k \<le> j" by (cases k') auto
    from scan_array_Inr [OF scan] obtain x s1 e s2 where
      o: "scan_once h n k s = Inr (x, s1)" "skip_ws s1 = e # s2"
        "e = 93 \<and> rest = s2 \<and> v = JArr (xs @ [x]) \<or>
         e = 44 \<and> scan_array h n k (xs @ [x]) (skip_ws s2) = Inr (v, rest)" by blast
    have "stands s s1 t" using o(2,3) by (auto intro: stands_delimiter)
    from once [OF o(1) this j(2)] have x: "scan_once h m j (s @ t) = Inr (x, s1 @ t)" .
    have onward: "scan_array h m j (xs @ [x]) (skip_ws (s2 @ t)) = Inr (v, rest @ t)" if "e = 44"
    proof -
      from o(3) that have r: "scan_array h n k (xs @ [x]) (skip_ws s2) = Inr (v, rest)" by simp
      then have "skip_ws s2 \<noteq> []" using scan_array_Nil by metis
      with arr [OF r j(2)] show ?thesis by (simp add: skip_ws_append)
    qed
    show ?thesis
      using o(3) onward x by (auto simp: j(1) skip_ws_Cons_append [OF o(2)])
  qed
  have whole: "scan_once h m k' (s @ t) = Inr (v, rest @ t)"
    if scan: "scan_once h n (Suc k) s = Inr (v, rest)" and "stands s rest t" "Suc k \<le> k'" for s v rest k'
  proof -
    from that(3) obtain j where j: "k' = Suc j" "k \<le> j" by (cases k') auto
    from scan obtain c s' where s: "s = c # s'" by (cases s) auto
    consider "c = 34" | "c = 123" | "c = 91" | "c \<notin> {34, 123, 91}" by blast
    then show ?thesis
    proof cases
      case 1
      with scan s obtain u where "scanstring n (n - length s' - 1) [] s' = Inr (u, rest)" "v = JStr u"
        by (auto split: sum.splits)
      with scanstring_append [OF this(1), of m "m - length (s' @ t) - 1" t] s 1 j show ?thesis by simp
    next
      case 2
      with scan s have "skip_ws s' \<noteq> []" using scan_object_Nil by (auto split: list.splits)
      then obtain d r where r: "skip_ws s' = d # r" by (cases "skip_ws s'") auto
      have "scan_object h m j [] (d # r @ t) = Inr (v, rest @ t)" if "d \<noteq> 125"
        using obj [of "[]" "d # r" v rest j] scan s 2 r that j by simp
      with scan s 2 r show ?thesis by (auto simp: j(1) skip_ws_Cons_append [OF r])
    next
      case 3
      with scan s have "skip_ws s' \<noteq> []" using scan_array_Nil by (auto split: list.splits)
      then obtain d r where r: "skip_ws s' = d # r" by (cases "skip_ws s'") auto
      have "scan_array h m j [] (d # r @ t) = Inr (v, rest @ t)" if "d \<noteq> 93"
        using arr [of "[]" "d # r" v rest j] scan s 3 r that j by simp
      with scan s 3 r show ?thesis by (auto simp: j(1) skip_ws_Cons_append [OF r])
    next
      case 4
      with that s have "t = [] \<or> ends_number rest" by (auto simp: stands_def)
      with scan_atom_append [of h n s v rest t m] scan s 4 j show ?thesis by simp
    qed
  qed
  from object array whole show ?case by blast
qed simp

end
