(* ===== verification/Preview_Json.thy ===== *)
theory Preview_Json
  imports Preview Json_Prefix
begin

text \<open>
  The JSON side of the preview: a cut prefix gives the rows of the whole document, and the check of
  the rows finds exactly the texts that cannot be encoded.
\<close>

section \<open>A prefix and its document\<close>

lemma map_JObj [simp]: "map JObj ds = map JObj es \<longleftrightarrow> ds = es"
  by (rule inj_map_eq_map) (simp add: inj_def)

lemma map_JObj_snoc [simp]: "map JObj ds = map JObj es @ [JObj d] \<longleftrightarrow> ds = es @ [d]"
  using map_JObj [of ds "es @ [d]"] by (simp del: map_JObj)

lemma as_dicts_map: "as_dicts vs = Some ds \<longleftrightarrow> vs = map JObj ds"
proof (induction vs arbitrary: ds)
  case (Cons v vs)
  show ?case
  proof (cases "as_dicts vs")
    case None
    with Cons have "vs \<noteq> map JObj es" for es by simp
    with None show ?thesis by (cases v; cases ds) auto
  next
    case (Some es)
    with Cons show ?thesis by (cases v; cases ds) auto
  qed
qed auto

lemma as_dict_Some: "as_dict v = Some d \<longleftrightarrow> v = JObj d"
  by (cases v) auto

text \<open>What a scan of array elements returns goes on from what was scanned.\<close>

lemma scan_array_extends:
  "scan_array h n k xs s = Inr (v, rest) \<Longrightarrow> \<exists>ys. v = JArr (xs @ ys)"
proof (induction k arbitrary: xs s)
  case (Suc k)
  from scan_array_Inr [OF Suc.prems] obtain x s1 e s2 where
    "v = JArr (xs @ [x]) \<or> scan_array h n k (xs @ [x]) (skip_ws s2) = Inr (v, rest)" by blast
  with Suc.IH show ?case by fastforce
qed simp

lemma object_starts:
  assumes "scan_once h n k s = Inr (JObj d, rest)" "\<And>x d. parse_float h x \<noteq> Inr (JObj d)"
    "\<And>x d. parse_int h x \<noteq> Inr (JObj d)" "\<And>x d. parse_constant h x \<noteq> Inr (JObj d)"
  shows "\<exists>s'. s = 123 # s'"
proof (cases k)
  case (Suc j)
  from assms(1) Suc obtain c s' where s: "s = c # s'" by (cases s) auto
  have "scan_atom h n s \<noteq> Inr (JObj d, rest)"
    using assms(2-4) by (auto simp: scan_atom_def match_number_def hooked_def Let_def split: if_splits sum.splits option.splits)
  with assms(1) Suc s show ?thesis
    by (auto split: if_splits list.splits sum.splits dest: scan_array_extends)
qed (use assms in simp)

lemma decoder_atoms:
  "parse_float DECODER x \<noteq> Inr (JObj d)" "parse_int DECODER x \<noteq> Inr (JObj d)"
  "parse_constant DECODER x \<noteq> Inr (JObj d)"
  by (auto simp: DECODER_def finite_float_def bounded_int_def reject_constant_def split: sum.splits)

text \<open>
  One element: if the prefix has a whole object and the document's scanner reads an element there,
  they are the same and leave the same text.
\<close>

lemma scan_once_append:
  "scan_once h n k s = Inr (v, rest) \<Longrightarrow> stands s rest t \<Longrightarrow> k \<le> k' \<Longrightarrow>
   scan_once h m k' (s @ t) = Inr (v, rest @ t)"
  using scan_append by blast

lemma object_agrees:
  assumes "raw_decode DECODER n s = Inr (JObj d, rest)" "scan_once DECODER m k (s @ t) = Inr (v, rest')"
  shows "v = JObj d \<and> rest' = rest @ t"
proof -
  let ?k = "max k (2 * length s + 1)"
  from assms(1) obtain s' where "s = 123 # s'"
    unfolding raw_decode_def using object_starts decoder_atoms by metis
  then have "stands s rest t" by (simp add: stands_def)
  with assms(1) have "scan_once DECODER m ?k (s @ t) = Inr (JObj d, rest @ t)"
    unfolding raw_decode_def by (rule scan_once_append) simp
  moreover have "scan_once DECODER m ?k ((s @ t) @ []) = Inr (v, rest' @ [])"
    by (rule scan_once_append [OF assms(2)]) (simp_all add: stands_def)
  ultimately show ?thesis by simp
qed

lemma json_prefix_loop_agrees:
  assumes "json_prefix_loop whole limit rows after_comma left = Inr out"
    and "scan_array DECODER m k (map JObj rows) (skip_ws (left @ t)) = Inr (JArr (map JObj all), rest)"
    and "after_comma \<or> hd (skip_ws left) \<noteq> 93" "length rows < limit"
  shows "out = take limit all"
  using assms
proof (induction whole limit rows after_comma left arbitrary: k rule: json_prefix_loop.induct)
  case (1 whole limit rows after_comma left)
  let ?s = "skip_ws left"
  note run = "1.prems"(1) [unfolded json_prefix_loop.simps [of _ _ _ _ left] Let_def]
  from run have s: "?s \<noteq> []" by (auto split: if_splits)
  from run s "1.prems"(3) have bracket: "hd ?s \<noteq> 93" by (auto split: if_splits)
  from run s bracket obtain row rest1 where item: "raw_decode DECODER (length whole) ?s = Inr (JObj row, rest1)"
    "check_nesting ?s MAX_JSON_DEPTH = Inr ()"
    by (auto simp: as_dict_Some split: sum.splits json_error.splits option.splits if_splits)
  let ?rows = "rows @ [row]" and ?s1 = "skip_ws rest1"
  obtain j where k: "k = Suc j" using "1.prems"(2) by (cases k) auto
  from scan_array_Inr [OF "1.prems"(2) [unfolded k]] obtain x u e u2 where
    o: "scan_once DECODER m j (skip_ws (left @ t)) = Inr (x, u)" "skip_ws u = e # u2"
      "e = 93 \<and> rest = u2 \<and> JArr (map JObj all) = JArr (map JObj rows @ [x]) \<or>
       e = 44 \<and> scan_array DECODER m j (map JObj rows @ [x]) (skip_ws u2) = Inr (JArr (map JObj all), rest)" by blast
  from object_agrees [OF item(1) o(1) [unfolded skip_ws_append [OF s]]] have x: "x = JObj row" "u = rest1 @ t" by auto
  have prefix: "\<exists>ys. all = ?rows @ ys"
    using o(3)
  proof (elim disjE conjE)
    assume "JArr (map JObj all) = JArr (map JObj rows @ [x])"
    then have "all = ?rows" by (simp add: x)
    then show ?thesis by simp
  next
    assume "scan_array DECODER m j (map JObj rows @ [x]) (skip_ws u2) = Inr (JArr (map JObj all), rest)"
    from scan_array_extends [OF this] obtain ys where "map JObj all = map JObj ?rows @ ys" by (auto simp: x)
    then show ?thesis by (metis (no_types) append_eq_map_conv inj_map_eq_map inj_def json.inject(6))
  qed
  then have full: "out = ?rows \<Longrightarrow> length ?rows = limit \<Longrightarrow> ?case" by auto
  show ?case
  proof (cases ?s1)
    case Nil
    with run s bracket item have "out = ?rows \<and> length ?rows = limit"
      by (simp add: Let_def split: if_splits)
    with full show ?thesis by blast
  next
    case (Cons c r)
    show ?thesis
    proof (cases "length ?rows = limit")
      case True
      with run s bracket item Cons have "out = ?rows" by (simp add: Let_def split: if_splits)
      with full True show ?thesis by blast
    next
      case False
      have next1: "skip_ws u = c # r @ t" using skip_ws_Cons_append [OF Cons] by (simp add: x)
      show ?thesis
      proof (cases "c = 93")
        case True
        with run s bracket item Cons False have "out = ?rows"
          by (simp add: end_of_array_def Let_def split: if_splits)
        moreover have "all = ?rows" using o next1 True by (simp add: x)
        ultimately show ?thesis using "1.prems"(4) False by simp
      next
        case nobracket: False
        with run s bracket item Cons \<open>length ?rows \<noteq> limit\<close>
        have comma: "c = 44" and deeper: "json_prefix_loop whole limit ?rows True r = Inr out"
          by (simp_all add: Let_def split: if_splits)
        have "scan_array DECODER m j (map JObj ?rows) (skip_ws (r @ t)) = Inr (JArr (map JObj all), rest)"
          using o(2,3) next1 comma by (simp add: x)
        moreover have "length ?rows < limit" using "1.prems"(4) \<open>length ?rows \<noteq> limit\<close> by simp
        ultimately show ?thesis
          using "1.IH" [OF refl s] bracket item Cons comma deeper \<open>length ?rows \<noteq> limit\<close> by simp
      qed
    qed
  qed
qed

lemma json_prefix_agrees:
  assumes "json_prefix (take n text) limit = Inr out" "json_document text limit = Inr rows" "0 < limit"
  shows "out = rows"
proof -
  let ?t = "drop n text"
  from assms(2) obtain all where doc: "decode DECODER text = Inr (JArr (map JObj all))" "rows = take limit all"
    by (auto simp: json_document_def as_dicts_map split: sum.splits json_error.splits json.splits option.splits)
  from assms(1) obtain left where left: "skip_ws (take n text) = 91 # left"
    and loop: "json_prefix_loop (take n text) limit [] False left = Inr out"
    by (cases "skip_ws (take n text)") (auto simp: json_prefix_def Let_def split: if_splits)
  have whole: "skip_ws text = 91 # left @ ?t"
    using skip_ws_Cons_append [OF left, of ?t] by simp
  from doc(1) whole obtain k rest where
    "scan_once DECODER (length text) (Suc k) (91 # left @ ?t) = Inr (JArr (map JObj all), rest)"
    by (auto simp: decode_def raw_decode_def split: sum.splits if_splits)
  then have scan: "(case skip_ws (left @ ?t) of
        d # r \<Rightarrow> if d = 93 then Inr (JArr [], r) else scan_array DECODER (length text) k [] (d # r)
      | [] \<Rightarrow> scan_array DECODER (length text) k [] []) = Inr (JArr (map JObj all), rest)"
    by simp
  show ?thesis
  proof (cases "skip_ws left")
    case Nil
    with loop show ?thesis by (simp add: json_prefix_loop.simps [of _ _ _ _ left])
  next
    case (Cons d r)
    then have here: "skip_ws (left @ ?t) = d # r @ ?t" by (rule skip_ws_Cons_append)
    show ?thesis
    proof (cases "d = 93")
      case True
      with scan here have "all = []" by simp
      moreover from loop Cons True have "out = []"
        by (simp add: json_prefix_loop.simps [of _ _ _ _ left] end_of_array_def split: if_splits)
      ultimately show ?thesis using doc(2) by simp
    next
      case False
      with scan here have "scan_array DECODER (length text) k (map JObj []) (skip_ws (left @ ?t)) = Inr (JArr (map JObj all), rest)"
        by simp
      from json_prefix_loop_agrees [OF loop this] Cons False assms(3) doc(2) show ?thesis by simp
    qed
  qed
qed

end
