(* ===== verification/Preview_Contract.thy ===== *)
theory Preview_Contract
  imports Preview Local
begin

text \<open>
  The error contract of the preview: whatever the bytes of the file are, the preview raises a
  \<open>DataBridgeError\<close> or what the connector raised.
\<close>

section \<open>The decoder\<close>

text \<open>The errors that are the preview's own.\<close>

definition PREVIEW_ERRORS :: "error_code set" where
  "PREVIEW_ERRORS = {INVALID_FILENAME, UNSUPPORTED_PREVIEW_FORMAT, MALFORMED_FILE, PREVIEW_LIMIT_EXCEEDED}"

definition preview_error :: "exn \<Rightarrow> bool" where
  "preview_error e \<longleftrightarrow> (\<exists>c\<in>PREVIEW_ERRORS. has_code c e)"

lemma preview_error_typed: "preview_error e \<Longrightarrow> is_db_error e"
  by (auto simp: preview_error_def intro: has_code_is_db_error)

lemma preview_error_db_error [simp]: "preview_error (db_error c m) \<longleftrightarrow> c \<in> PREVIEW_ERRORS"
  by (auto simp: preview_error_def)

lemma preview_codes [simp]:
  "INVALID_FILENAME \<in> PREVIEW_ERRORS" "UNSUPPORTED_PREVIEW_FORMAT \<in> PREVIEW_ERRORS"
  "MALFORMED_FILE \<in> PREVIEW_ERRORS" "PREVIEW_LIMIT_EXCEEDED \<in> PREVIEW_ERRORS"
  by (simp_all add: PREVIEW_ERRORS_def)

definition hooks_raise :: "(exn \<Rightarrow> bool) \<Rightarrow> hooks \<Rightarrow> bool" where
  "hooks_raise P h \<longleftrightarrow> (\<forall>s e. parse_float h s = Inl e \<or> parse_int h s = Inl e \<or> parse_constant h s = Inl e \<longrightarrow>
     P e)"

lemma scanstring_no_hook: "scanstring n b acc s \<noteq> Inl (HookError e)"
  by (induction n b acc s rule: scanstring.induct)
    (auto simp: unicode_escape_def Let_def split: if_splits sum.splits option.splits list.splits)

lemma scan_atom_hook: "hooks_raise P h \<Longrightarrow> scan_atom h n s = Inl (HookError e) \<Longrightarrow> P e"
  unfolding hooks_raise_def
  by (auto simp: scan_atom_def hooked_def match_number_def Let_def split: if_splits sum.splits option.splits)

lemma scan_hook:
  assumes "hooks_raise P h"
  shows "(scan_once h n k s = Inl (HookError e) \<longrightarrow> P e) \<and>
   (scan_object h n k d s = Inl (HookError e) \<longrightarrow> P e) \<and>
   (scan_array h n k xs s = Inl (HookError e) \<longrightarrow> P e)"
proof (induction k arbitrary: s d xs)
  case (Suc k)
  then have once: "scan_once h n k t = Inl (HookError e) \<Longrightarrow> P e"
    and object: "scan_object h n k c t = Inl (HookError e) \<Longrightarrow> P e"
    and array: "scan_array h n k ys t = Inl (HookError e) \<Longrightarrow> P e" for t c ys by blast+
  have "scan_once h n (Suc k) s = Inl (HookError e) \<Longrightarrow> P e"
    by (cases s) (auto split: if_splits list.splits sum.splits
      dest: object array simp: scanstring_no_hook intro: scan_atom_hook [OF assms])
  moreover have "scan_object h n (Suc k) d s = Inl (HookError e) \<Longrightarrow> P e"
    by (auto split: if_splits list.splits sum.splits simp: scanstring_no_hook) (rule once object, assumption)+
  moreover have "scan_array h n (Suc k) xs s = Inl (HookError e) \<Longrightarrow> P e"
    by (auto split: if_splits list.splits sum.splits) (rule once array, assumption)+
  ultimately show ?case by blast
qed simp

lemma preview_error_malformed [simp]: "preview_error (malformed m)"
  by (simp add: malformed_def)

lemma preview_error_previews [simp]:
  "preview_error incomplete" "preview_error too_deep" "preview_error json_malformed" "preview_error expects_array"
  "preview_error unpaired_surrogate" "preview_error (csv_parse_error b)"
  by (simp_all add: incomplete_def too_deep_def json_malformed_def expects_array_def unpaired_surrogate_def
      csv_parse_error_def)

lemma typed_DECODER: "hooks_raise preview_error DECODER"
  by (auto simp: hooks_raise_def DECODER_def finite_float_def bounded_int_def reject_constant_def py_int_def
      Let_def split: if_splits sum.splits)

lemma raw_decode_hook: "hooks_raise P h \<Longrightarrow> raw_decode h n s = Inl (HookError e) \<Longrightarrow> P e"
  unfolding raw_decode_def using scan_hook by blast

lemma decode_hook: "hooks_raise P h \<Longrightarrow> decode h s = Inl (HookError e) \<Longrightarrow> P e"
  by (auto simp: decode_def split: sum.splits if_splits dest: raw_decode_hook)

lemmas raw_decode_typed = raw_decode_hook [OF typed_DECODER]
lemmas decode_typed = decode_hook [OF typed_DECODER]

section \<open>Parsing\<close>

lemma csv_body_typed: "csv_body header limit b rows ls = Inl e \<Longrightarrow> preview_error e"
proof (induction header limit b rows ls rule: csv_body.induct)
  case (1 header limit b rows ls)
  show ?case
  proof (cases "next_record ls")
    case (Inl x)
    with "1.prems" show ?thesis by (auto simp: csv_body.simps [of _ _ _ _ ls])
  next
    case (Inr found)
    show ?thesis
    proof (cases found)
      case None
      with "1.prems" Inr show ?thesis by (simp add: csv_body.simps [of _ _ _ _ ls])
    next
      case (Some vl)
      obtain vs ls' where vl: "vl = (vs, ls')" by (rule prod.exhaust)
      note IH = "1.IH" [OF Inr Some vl [symmetric]]
      from "1.prems" Inr Some vl show ?thesis
        by (subst (asm) csv_body.simps) (auto simp: Let_def split: if_splits intro: IH(1) IH(2) [OF _ _ refl])
    qed
  qed
qed

lemma csv_rows_typed: "csv_rows s limit b = Inl e \<Longrightarrow> preview_error e"
  by (auto simp: csv_rows_def Let_def split: sum.splits option.splits if_splits dest: csv_body_typed)

lemma json_document_typed: "json_document s limit = Inl e \<Longrightarrow> preview_error e"
  by (auto simp: json_document_def check_nesting_def
      split: sum.splits option.splits if_splits json_error.splits json.splits dest: decode_typed)

lemma check_nesting_typed: "check_nesting s limit = Inl e \<Longrightarrow> preview_error e"
  by (auto simp: check_nesting_def split: if_splits)

lemma json_prefix_loop_typed: "json_prefix_loop s limit rows b left = Inl e \<Longrightarrow> preview_error e"
proof (induction s limit rows b left rule: json_prefix_loop.induct)
  case (1 s limit rows b left)
  note run = "1.prems" [unfolded json_prefix_loop.simps [of _ _ _ _ left] Let_def]
  show ?case
  proof (cases "\<exists>item rest. raw_decode DECODER (length s) (skip_ws left) = Inr (item, rest)")
    case False
    then obtain x where "raw_decode DECODER (length s) (skip_ws left) = Inl x"
      by (metis sum.exhaust prod.exhaust)
    with run show ?thesis
      by (auto simp: end_of_array_def check_nesting_def split: if_splits json_error.splits dest: raw_decode_typed)
  next
    case True
    then obtain item rest where item: "raw_decode DECODER (length s) (skip_ws left) = Inr (item, rest)" by blast
    show ?thesis
    proof (rule ccontr)
      assume bad: "\<not> preview_error e"
      with run item obtain row where deeper: "skip_ws left \<noteq> []" "hd (skip_ws left) \<noteq> 93"
        "check_nesting (skip_ws left) MAX_JSON_DEPTH = Inr ()" "as_dict item = Some row"
        "skip_ws rest \<noteq> []" "hd (skip_ws rest) = 44" "length (rows @ [row]) \<noteq> limit"
        "json_prefix_loop s limit (rows @ [row]) True (tl (skip_ws rest)) = Inl e"
        by (auto simp: end_of_array_def check_nesting_typed split: if_splits option.splits sum.splits)
      from "1.IH" [OF refl deeper(1,2,3) item refl deeper(4) refl refl deeper(5)] deeper bad show False
        by simp
    qed
  qed
qed

lemma json_rows_typed: "json_rows s limit b = Inl e \<Longrightarrow> preview_error e"
proof -
  have "check_pending cs = Inl e \<Longrightarrow> preview_error e" for cs
    by (induction cs rule: check_pending.induct) (auto simp: check_pending.simps(2) split: if_splits)
  then have "check_rows rows = Inl e \<Longrightarrow> preview_error e" for rows
    by (induction rows) (auto simp: check_row_def split: sum.splits)
  then show "json_rows s limit b = Inl e \<Longrightarrow> preview_error e"
    by (auto simp: json_rows_def json_prefix_def Let_def split: sum.splits if_splits
      dest: json_document_typed json_prefix_loop_typed)
qed

lemma prefix_text_typed: "prefix_text data = Inl e \<Longrightarrow> preview_error e"
  by (auto simp: prefix_text_def Let_def split: option.splits)

lemma filename_preview_error: "validate_filename f = Inl e \<Longrightarrow> preview_error e"
  unfolding preview_error_def by (rule bexI [of _ INVALID_FILENAME]) (auto dest: validate_filename_Inl)

section \<open>Over a connector\<close>

lemma read_prefix_loop_raises:
  "(\<And>n. raises ok (cn_source_read cn n)) \<Longrightarrow> read_prefix_loop cn s = (Inl e, s') \<Longrightarrow> ok e"
proof (induction cn s rule: read_prefix_loop.induct)
  case (1 cn r data w)
  let ?n = "MAX_PREVIEW_BYTES + 1 - length data"
  obtain x r1 w1 where read: "cn_source_read cn ?n (r, w) = (x, (r1, w1))"
    by (metis prod.exhaust)
  note run = "1.prems"(2) [unfolded read_prefix_loop.simps [of _ r data w] read]
  show ?case
  proof (cases x)
    case (Inl d)
    with run have "d = e" by (auto split: if_splits)
    with raisesD [OF "1.prems"(1) read [unfolded Inl]] show ?thesis by simp
  next
    case (Inr chunk)
    with run have "\<not> MAX_PREVIEW_BYTES < length data" "chunk \<noteq> []"
      "read_prefix_loop cn (r1, (data @ chunk, w1)) = (Inl e, s')" by (auto split: if_splits)
    with "1.IH" [of x "(r1, w1)" chunk r1 w1] read Inr "1.prems"(1) show ?thesis by simp
  qed
qed

text \<open>What the reads of a connector raise.\<close>

locale typed_reader =
  fixes cn :: "('w, 'r, 'k) connector" and ok :: "exn \<Rightarrow> bool"
  assumes enter_raises: "raises ok (cn_read_enter cn f l)"
    and read_raises: "raises ok (cn_source_read cn n)"
    and exit_raises: "(\<And>e. failure = Some e \<Longrightarrow> ok e) \<Longrightarrow> raises ok (cn_read_exit cn failure)"
    and own: "preview_error e \<Longrightarrow> ok e"

context typed_reader
begin

lemma raises_read_prefix: "raises ok (read_prefix cn filename)"
proof (rule raisesI)
  fix w e w'
  assume run: "read_prefix cn filename w = (Inl e, w')"
  let ?enter = "on_world (cn_read_enter cn filename (Some (MAX_PREVIEW_BYTES + 1)))"
  obtain x data w1 where block: "with_block ?enter (read_prefix_loop cn)
      (\<lambda>failure. stream (cn_read_exit cn failure)) ([], w) = (x, (data, w1))" by (metis prod.exhaust)
  show "ok e"
  proof (cases x)
    case (Inr u)
    with run block have "prefix_text data = Inl e" by (simp add: read_prefix_def)
    then show ?thesis by (rule own [OF prefix_text_typed])
  next
    case (Inl d)
    with run block have x: "x = Inl e" by (simp add: read_prefix_def)
    obtain y w2 where enter: "cn_read_enter cn filename (Some (MAX_PREVIEW_BYTES + 1)) w = (y, w2)"
      by (rule prod.exhaust)
    show ?thesis
    proof (cases y)
      case (Inl d)
      with enter block x raisesD [OF enter_raises] show ?thesis by (fastforce simp: with_block_def on_world_apply)
    next
      case (Inr r)
      obtain z r1 data1 w3 where loop: "read_prefix_loop cn (r, ([], w2)) = (z, (r1, (data1, w3)))"
        by (metis prod.exhaust)
      define failure where "failure = (case z of Inl d \<Rightarrow> Some d | Inr u \<Rightarrow> None)"
      obtain v r2 w4 where exit: "cn_read_exit cn failure (r1, w3) = (v, (r2, w4))" by (metis prod.exhaust)
      have "raises ok (cn_read_exit cn failure)"
        using loop
        by (intro exit_raises) (auto simp: failure_def split: sum.splits dest: read_prefix_loop_raises [OF read_raises])
      moreover have "v = Inl e"
        using block x enter Inr loop exit
        by (cases z) (auto simp: with_block_def on_world_apply leave_block_def stream_apply failure_def)
      ultimately show ?thesis using exit by (auto dest: raisesD)
    qed
  qed
qed

lemma raises_preview: "raises ok (preview cn filename limit)"
  unfolding preview_def Let_def
  by (intro raises_rules raises_read_prefix)
    (auto intro: own csv_rows_typed json_rows_typed filename_preview_error)

end

text \<open>The reads of the local connector are such, but for what \<open>Path.is_dir\<close> lets through.\<close>

lemma raises_local_read_exit_of:
  "(\<And>e. failure = Some e \<Longrightarrow> P e) \<Longrightarrow> raises P (local_read_exit failure)"
  unfolding local_read_exit_def by (intro raises_rules raises_rethrow) blast

interpretation local_reader: typed_reader "local_methods c" typed_or_is_dir for c :: local_connector
  by unfold_locales
    (auto simp: local_methods_def intro: raises_local_read_enter raises_local_read_exit_of
      raises_mono [OF raises_FileSource_read] preview_error_typed)

end
