(* ===== verification/Preview_Local.thy ===== *)
theory Preview_Local
  imports Preview Preview_Csv Preview_Json Preview_Contract Local_Copy Local_Frames
begin

text \<open>
  The preview of a file of the local connector, down to the file system: what the bounded reads
  deliver, and the result they lead to, against the preview of the whole text.
\<close>

section \<open>The specification\<close>

text \<open>A file that holds a text: encoded, with or without the byte order mark.\<close>

definition holds_text :: "pystr \<Rightarrow> bytes \<Rightarrow> bool" where
  "holds_text s data \<longleftrightarrow> list_all is_cp s \<and>
     (\<exists>b. utf8 s = Some b \<and> (data = BOM_UTF8 @ b \<or> data = b \<and> take 1 s \<noteq> [65279]))"

text \<open>The result for a text that was read, cut or whole.\<close>

definition text_preview :: "pystr \<Rightarrow> nat \<Rightarrow> pystr \<times> bool \<Rightarrow> preview_result result" where
  "text_preview filename limit = (\<lambda>(s, at_limit).
     if lower (suffix_of filename) = lit ''.json'' then
       (case json_rows s limit at_limit of
          Inl e \<Rightarrow> Inl e
        | Inr rows \<Rightarrow> Inr \<lparr>pv_filename = filename, pv_format = lit ''json'', pv_rows = rows,
                          pv_schema = schema_of rows [] False\<rparr>)
     else
       (case csv_rows s limit at_limit of
          Inl e \<Rightarrow> Inl e
        | Inr (header, rows) \<Rightarrow> Inr \<lparr>pv_filename = filename, pv_format = lit ''csv'', pv_rows = rows,
                          pv_schema = schema_of rows header True\<rparr>))"

section \<open>Decoding the prefix\<close>

lemma utf8_decode_BOM: "utf8_decode final (BOM_UTF8 @ b) = map_option (Cons 65279) (utf8_decode final b)"
  by (simp add: BOM_UTF8_def utf8_lead_def utf8_value_def)

lemma utf8_sig_decode_BOM: "utf8_sig_decode final (BOM_UTF8 @ b) = utf8_decode final b"
  by (simp add: utf8_sig_decode_def BOM_UTF8_def)

lemma no_BOM:
  assumes "utf8 s = Some b" "list_all is_cp s" "take 1 s \<noteq> [65279]"
  shows "take 3 b \<noteq> BOM_UTF8"
proof
  assume "take 3 b = BOM_UTF8"
  then have "b = BOM_UTF8 @ drop 3 b" by (metis append_take_drop_id)
  with utf8_decode_encode [OF assms(1,2), of True] have "map_option (Cons 65279) (utf8_decode True (drop 3 b)) = Some s"
    by (metis utf8_decode_BOM)
  with assms(3) show False by auto
qed

lemma utf8_sig_decode_plain:
  assumes "utf8 s = Some b" "list_all is_cp s" "take 1 s \<noteq> [65279]" "n = length b \<or> 3 \<le> n"
  shows "utf8_sig_decode final (take n b) = utf8_decode final (take n b)"
proof (cases "length (take n b) < 3 \<and> take n b = take (length (take n b)) BOM_UTF8")
  case True
  then have n: "take n b = b" using assms(4) by auto
  then have "b = [] \<or> b = [239] \<or> b = [239, 187]"
    using True by (cases b rule: list.exhaust; cases "tl b") (auto simp: BOM_UTF8_def less_Suc_eq)
  moreover have "utf8_decode True [239] = None" "utf8_decode True [239, 187] = None"
    by (simp_all add: utf8_lead_def)
  ultimately have "b = []" using utf8_decode_encode [OF assms(1,2), of True] by auto
  then show ?thesis by (simp add: utf8_sig_decode_def)
next
  case False
  have "take 3 (take n b) \<noteq> BOM_UTF8"
  proof
    assume short: "take 3 (take n b) = BOM_UTF8"
    have "length (take 3 (take n b)) = 3" unfolding short by (simp add: BOM_UTF8_def)
    then have "3 \<le> n" by simp
    with short no_BOM [OF assms(1-3)] show False by (simp add: min_def)
  qed
  with False show ?thesis by (auto simp: utf8_sig_decode_def)
qed

lemma prefix_text_of:
  assumes "holds_text s data"
  shows "\<exists>k. prefix_text (take (MAX_PREVIEW_BYTES + 1) data) = Inr (take k s, MAX_PREVIEW_BYTES < length data) \<and>
    (length data \<le> MAX_PREVIEW_BYTES \<longrightarrow> take k s = s)"
proof -
  from assms obtain b where cps: "list_all is_cp s" and b: "utf8 s = Some b"
    and data: "data = BOM_UTF8 @ b \<or> data = b \<and> take 1 s \<noteq> [65279]" by (auto simp: holds_text_def)
  let ?cut = "MAX_PREVIEW_BYTES < length data"
  have three: "3 \<le> MAX_PREVIEW_BYTES" "length BOM_UTF8 = 3" by (simp_all add: MAX_PREVIEW_BYTES_def BOM_UTF8_def)
  obtain k where "utf8_sig_decode (\<not> ?cut) (take MAX_PREVIEW_BYTES data) = Some (take k s)"
    "\<not> ?cut \<longrightarrow> take k s = s"
  proof (cases ?cut)
    case False
    then have whole: "take MAX_PREVIEW_BYTES data = data" by simp
    have "utf8_sig_decode True data = Some s"
      using data utf8_sig_decode_BOM [of True b] utf8_sig_decode_plain [OF b cps, of "length b" True]
        utf8_decode_encode [OF b cps, of True] by auto
    with False whole show thesis by (intro that [of "length s"]) simp_all
  next
    case True
    obtain n where "utf8_sig_decode False (take MAX_PREVIEW_BYTES data) = utf8_decode False (take n b)"
      using data utf8_sig_decode_BOM [of False "take (MAX_PREVIEW_BYTES - 3) b"] three
        utf8_sig_decode_plain [OF b cps, of MAX_PREVIEW_BYTES False] by fastforce
    with utf8_decode_prefix [OF b cps, of n] True that show thesis by auto
  qed
  moreover have "MAX_PREVIEW_BYTES < length (take (MAX_PREVIEW_BYTES + 1) data) \<longleftrightarrow> ?cut"
    "take MAX_PREVIEW_BYTES (take (MAX_PREVIEW_BYTES + 1) data) = take MAX_PREVIEW_BYTES data" by auto
  ultimately have "prefix_text (take (MAX_PREVIEW_BYTES + 1) data) = Inr (take k s, ?cut)"
    unfolding prefix_text_def Let_def by simp
  with \<open>\<not> ?cut \<longrightarrow> take k s = s\<close> show ?thesis by (intro exI [of _ k]) simp
qed

section \<open>Reading the prefix\<close>

lemma local_reads [simp]:
  "cn_read_enter (local_methods c) = local_read_enter c" "cn_source_read (local_methods c) = FileSource_read"
  "cn_read_exit (local_methods c) = local_read_exit"
  by (simp_all add: local_methods_def)

lemma read_prefix_loop_delivers:
  fixes w :: "'w os_world_scheme"
  assumes "read_prefix_loop (local_methods c) (s, (data, w)) = (r, (s', (data', w')))" "calm w"
    "src_at s w pending" "length data + length pending \<le> MAX_PREVIEW_BYTES + 1"
  shows "calm w' \<and> fs w' = fs w \<and> (r = Inr () \<longrightarrow> data' = data @ pending)"
  using assms
proof (induction "MAX_PREVIEW_BYTES + 1 - length data" arbitrary: s data w pending rule: less_induct)
  case less
  note run = less.prems(1) [unfolded read_prefix_loop.simps [of _ s data w]]
  let ?n = "MAX_PREVIEW_BYTES + 1 - length data"
  show ?case
  proof (cases "MAX_PREVIEW_BYTES < length data")
    case True
    moreover have "pending = []" using True less.prems(4) by (cases pending) simp_all
    ultimately show ?thesis using run less.prems by simp
  next
    case False
    obtain x s1 w1 where read: "FileSource_read ?n (s, w) = (x, (s1, w1))" by (metis prod.exhaust)
    from less.prems(3) obtain j where on: "src_on j s w" by (auto simp: src_at_def src_on_def)
    note w1 = FileSource_read_calm [OF read less.prems(2) on]
    have "0 < ?n" using False by simp
    note step = FileSource_read_growing [OF read calm_growing [OF less.prems(2)] less.prems(3) this]
    show ?thesis
    proof (cases x)
      case (Inl e)
      with run False read w1 show ?thesis by auto
    next
      case (Inr chunk)
      with step obtain rest where rest: "pending = chunk @ rest" "src_at s1 w1 rest" "chunk = [] \<longrightarrow> pending = []"
        by auto
      show ?thesis
      proof (cases "chunk = []")
        case True
        with run False read Inr rest w1 show ?thesis by simp
      next
        case nonempty: False
        with run False read Inr have
          "read_prefix_loop (local_methods c) (s1, (data @ chunk, w1)) = (r, (s', (data', w')))"
          by simp
        moreover have "MAX_PREVIEW_BYTES + 1 - length (data @ chunk) < ?n" using nonempty False by (cases chunk) auto
        ultimately show ?thesis
          using less.hyps [of "data @ chunk" s1 w1 rest] w1 rest less.prems(4) by simp
      qed
    qed
  qed
qed

lemma read_prefix_local:
  assumes "read_prefix (local_methods c) g w = (r, w')" "with_files f cw w" "points c g f cw root"
  shows "calm w' \<and> fs w' = f \<and> (\<forall>x. r = Inr x \<longrightarrow>
    (\<exists>j. lookup f (root @ [g]) = Some j \<and> kind (inodes f j) = Regular \<and>
      prefix_text (take (MAX_PREVIEW_BYTES + 1) (content (inodes f j))) = Inr x))"
proof -
  let ?n = "MAX_PREVIEW_BYTES + 1"
  obtain y w1 where enter: "local_read_enter c g (Some ?n) w = (y, w1)" by (rule prod.exhaust)
  note w1 = local_read_enter_limited [OF enter assms(2,3)]
  show ?thesis
  proof (cases y)
    case (Inl e)
    with assms(1) enter w1 show ?thesis
      by (auto simp: read_prefix_def with_block_def on_world_apply with_files_def os_ok_def)
  next
    case (Inr s)
    with w1 obtain j where j: "lookup f (root @ [g]) = Some j" "kind (inodes f j) = Regular"
      "src_at s w1 (take ?n (content (inodes f j)))" "calm w1" "fs w1 = f"
      by (auto simp: first_bytes_def with_files_def os_ok_def)
    obtain z s2 data w2 where loop: "read_prefix_loop (local_methods c) (s, ([], w1)) = (z, (s2, (data, w2)))"
      by (metis prod.exhaust)
    have w2: "calm w2" "fs w2 = f" "z = Inr () \<longrightarrow> data = take ?n (content (inodes f j))"
      using read_prefix_loop_delivers [OF loop j(4,3)] j(5) by simp_all
    define failure where "failure = (case z of Inl e \<Rightarrow> Some e | Inr u \<Rightarrow> None)"
    obtain v s3 w3 where exit: "local_read_exit failure (s2, w2) = (v, (s3, w3))" by (metis prod.exhaust)
    have w3: "calm w3" "fs w3 = f" using local_read_exit_calm [OF exit w2(1)] w2(2) by simp_all
    have "failure \<noteq> None \<Longrightarrow> v \<noteq> Inr ()" using local_read_exit_raises exit by (cases failure) fastforce+
    then have "v = Inr u \<Longrightarrow> z = Inr ()" for u by (cases z) (auto simp: failure_def)
    moreover have "r = (case v of Inl e \<Rightarrow> Inl e | Inr u \<Rightarrow> prefix_text data) \<and> w' = w3"
      using assms(1) enter Inr loop exit unfolding read_prefix_def with_block_def failure_def
      by (cases z; cases v) (simp_all add: on_world_apply leave_block_def stream_apply)
    ultimately show ?thesis using w2 w3 j by (cases v) auto
  qed
qed

lemma preview_Inr:
  assumes "preview cn g limit w = (Inr p, w')"
  obtains x where "validate_filename g = Inr g" "read_prefix cn g w = (Inr x, w')" "text_preview g limit x = Inr p"
  using assms
  by (cases g rule: validate_filename_cases)
    (auto simp: preview_def text_preview_def bind_eq_Inr Let_def split: if_splits sum.splits)

lemma preview_local:
  assumes "preview (local_methods c) g limit w = (Inr p, w')" "with_files f cw w" "points c g f cw root"
  shows "fs w' = f \<and> (\<exists>j x. lookup f (root @ [g]) = Some j \<and> kind (inodes f j) = Regular \<and>
    prefix_text (take (MAX_PREVIEW_BYTES + 1) (content (inodes f j))) = Inr x \<and> text_preview g limit x = Inr p)"
proof -
  from assms(1) obtain x where read: "read_prefix (local_methods c) g w = (Inr x, w')"
    and "text_preview g limit x = Inr p" by (rule preview_Inr)
  with read_prefix_local [OF read assms(2,3)] show ?thesis by blast
qed

section \<open>The preview and the whole text\<close>

lemma text_preview_cut:
  assumes "text_preview g limit (take n s, True) = Inr p" "0 < limit" "text_preview g limit (s, False) = Inr q"
  shows "p = q"
  using assms json_prefix_agrees [of n s limit] csv_rows_prefix [of n s limit]
  by (auto simp: text_preview_def json_rows_def split: if_splits sum.splits)

lemma text_preview_csv:
  assumes "text_preview g limit (take n s, True) = Inr p" "0 < limit" "lower (suffix_of g) \<noteq> lit ''.json''"
  shows "text_preview g limit (s, False) = Inr p"
  using assms csv_rows_prefix [of n s limit]
  by (auto simp: text_preview_def split: if_splits sum.splits)

end
