(* ===== verification/Preview_Checks.thy ===== *)
theory Preview_Checks
  imports Preview
begin

text \<open>
  Reference definitions for the two passes over the rows of a preview, with the equivalence of the
  code to each: the search for text that no response can carry, which the code runs with a stack of
  its own, and the inferred schema, which the code accumulates in two dictionaries.
\<close>

section \<open>Texts that can be encoded\<close>

fun all_encodable :: "json \<Rightarrow> bool" where
  "all_encodable (JStr s) = encodable s"
| "all_encodable (JArr vs) = list_all all_encodable vs"
| "all_encodable (JObj d) = list_all (\<lambda>(k, v). encodable k \<and> all_encodable v) d"
| "all_encodable _ = True"

lemma all_encodable_entries:
  "is_container c \<Longrightarrow> all_encodable c \<longleftrightarrow> list_all encodable_entry (entries c) \<and>
     list_all all_encodable (filter is_container (map snd (entries c)))"
proof (cases c)
  case (JArr vs)
  have "all_encodable v \<longleftrightarrow> encodable_entry (None, v) \<and> (is_container v \<longrightarrow> all_encodable v)" for v
    by (cases v) (simp_all add: encodable_entry_def)
  with JArr show ?thesis by (auto simp: list_all_iff)
next
  case (JObj d)
  have "encodable k \<and> all_encodable v \<longleftrightarrow>
      encodable_entry (Some k, v) \<and> (is_container v \<longrightarrow> all_encodable v)" for k v
    by (cases v) (auto simp: encodable_entry_def)
  with JObj show ?thesis by (fastforce simp: list_all_iff)
qed simp_all

lemma check_pending_eq:
  "list_all is_container cs \<Longrightarrow>
   check_pending cs = (if list_all all_encodable cs then Inr () else Inl unpaired_surrogate)"
proof (induction cs rule: check_pending.induct)
  case (2 c pending)
  let ?inner = "filter is_container (map snd (entries c))"
  have "list_all is_container (rev ?inner @ pending)" using "2.prems" by (auto simp: list_all_iff)
  with 2 have "list_all encodable_entry (entries c) \<Longrightarrow> check_pending (rev ?inner @ pending) =
      (if list_all all_encodable ?inner \<and> list_all all_encodable pending then Inr () else Inl unpaired_surrogate)"
    by (simp del: all_encodable.simps entries.simps)
  moreover have "all_encodable c \<longleftrightarrow> list_all encodable_entry (entries c) \<and> list_all all_encodable ?inner"
    using all_encodable_entries [of c] "2.prems" by simp
  ultimately show ?case by (simp add: check_pending.simps(2) del: all_encodable.simps entries.simps)
qed simp

lemma check_row_eq:
  "check_row row = (if all_encodable (JObj row) then Inr () else Inl unpaired_surrogate)"
  unfolding check_row_def by (subst check_pending_eq) simp_all

lemma check_rows_eq:
  "check_rows rows = (if list_all (\<lambda>row. all_encodable (JObj row)) rows then Inr () else Inl unpaired_surrogate)"
  by (induction rows) (simp_all add: check_row_eq del: all_encodable.simps)

section \<open>The schema\<close>

text \<open>The types seen at a field, and the type they have together.\<close>

definition seen :: "bool \<Rightarrow> (pystr \<times> json) list \<Rightarrow> pystr \<Rightarrow> inferred_type set" where
  "seen csv_values ps f = {k. \<exists>v. (f, v) \<in> set ps \<and> type_of csv_values v = Some k}"

definition type_of_all :: "inferred_type set \<Rightarrow> inferred_type" where
  "type_of_all ks =
     (if ks = {} then String_type
      else if ks = {Integer_type, Float_type} then Float_type
      else if is_singleton ks then the_elem ks
      else String_type)"

lemma seen_Nil [simp]: "seen b [] f = {}"
  by (simp add: seen_def)

lemma seen_snoc: "seen b (ps @ [(g, v)]) f =
    (if f = g then set_option (type_of b v) \<union> seen b ps f else seen b ps f)"
  by (auto simp: seen_def)

lemma type_of_all_singleton [simp]: "type_of_all {k} = k"
  by (auto simp: type_of_all_def doubleton_eq_iff)

lemma type_of_all_insert:
  assumes "ks \<noteq> {}"
  shows "type_of_all (insert k ks) = joined_type (type_of_all ks) k"
proof (cases "is_singleton ks")
  case True
  then obtain j where "ks = {j}" by (auto simp: is_singleton_def)
  then show ?thesis
    by (cases "k = j") (auto simp: type_of_all_def joined_type_def is_singleton_def doubleton_eq_iff)
next
  case False
  then have many: "type_of_all ks = (if ks = {Integer_type, Float_type} then Float_type else String_type)"
    using assms by (simp add: type_of_all_def)
  show ?thesis
  proof (cases "k \<in> ks")
    case True
    then have "insert k ks = ks" by blast
    with many True show ?thesis by (auto simp: joined_type_def)
  next
    case new: False
    have "insert k ks \<noteq> {Integer_type, Float_type}"
    proof
      assume eq: "insert k ks = {Integer_type, Float_type}"
      then have "ks = {Integer_type, Float_type} - {k}" "k = Integer_type \<or> k = Float_type"
        using new by blast+
      then have "ks = {Integer_type} \<or> ks = {Float_type}" by auto
      with False show False by (auto simp: is_singleton_def)
    qed
    moreover have "\<not> is_singleton (insert k ks)"
      using new assms by (metis insert_iff is_singleton_def singletonD subsetI subset_singletonD insert_not_empty subset_insertI)
    ultimately have "type_of_all (insert k ks) = String_type" by (simp add: type_of_all_def)
    with many new show ?thesis by (auto simp: joined_type_def doubleton_eq_iff)
  qed
qed

lemma map_of_set_default [simp]:
  "map_of (set_default k t d) = (if k \<in> fst ` set d then map_of d else (map_of d)(k \<mapsto> t))"
proof -
  have "map_of d x = None" if "k \<notin> fst ` set d" "x = k" for x
    using that by (simp add: map_of_eq_None_iff)
  then show ?thesis by (auto simp: set_default_def fun_eq_iff map_add_def split: option.split)
qed

lemma observed_inv:
  fixes header :: "pystr list"
  defines "start \<equiv> fold (\<lambda>field d. dict_set field String_type d) header []"
  shows "\<exists>result observed. fold (observe b) ps (start, []) = (result, observed) \<and>
    (\<forall>f. map_of observed f = (if seen b ps f = {} then None else Some (type_of_all (seen b ps f)))) \<and>
    (\<forall>f. map_of result f = (if f \<in> set header \<union> fst ` set ps then Some (type_of_all (seen b ps f)) else None))"
proof (induction ps rule: rev_induct)
  case Nil
  have "map_of (fold (\<lambda>field d. dict_set field String_type d) header d) f =
      (if f \<in> set header then Some String_type else map_of d f)" for f and d :: schema
    by (induction header arbitrary: d) auto
  then show ?case by (simp add: start_def type_of_all_def)
next
  case (snoc p ps)
  obtain g v where p: "p = (g, v)" by (rule prod.exhaust)
  from snoc obtain result observed where before: "fold (observe b) ps (start, []) = (result, observed)"
    and o: "\<And>f. map_of observed f = (if seen b ps f = {} then None else Some (type_of_all (seen b ps f)))"
    and r: "\<And>f. map_of result f =
      (if f \<in> set header \<union> fst ` set ps then Some (type_of_all (seen b ps f)) else None)" by blast
  have field: "g \<in> fst ` set result \<longleftrightarrow> g \<in> set header \<union> fst ` set ps"
    using r [of g] map_of_eq_None_iff [of result g] by (auto split: if_splits)
  show ?case
  proof (cases "type_of b v")
    case None
    have "seen b ps g = {}" if "g \<notin> fst ` set ps" using that by (force simp: seen_def)
    with None before o r field show ?thesis
      by (auto simp: p observe_def seen_snoc type_of_all_def)
  next
    case (Some k)
    let ?t = "case map_of observed g of None \<Rightarrow> k | Some previous \<Rightarrow> joined_type previous k"
    have t: "?t = type_of_all (insert k (seen b ps g))"
      using o [of g] type_of_all_insert [of "seen b ps g" k] by auto
    have "fold (observe b) (ps @ [p]) (start, []) = (dict_set g ?t result, dict_set g ?t observed)"
      using before Some by (simp add: p observe_def Let_def)
    with o r t Some show ?thesis by (auto simp: p seen_snoc)
  qed
qed

lemma schema_of_eq:
  "map_of (schema_of rows header b) f =
     (if f \<in> set header \<union> fst ` set (concat rows) then Some (type_of_all (seen b (concat rows) f)) else None)"
proof -
  from observed_inv [of b "concat rows" header] obtain result observed where
    "fold (observe b) (concat rows) (fold (\<lambda>field d. dict_set field String_type d) header [], []) = (result, observed)"
    "map_of result f =
      (if f \<in> set header \<union> fst ` set (concat rows) then Some (type_of_all (seen b (concat rows) f)) else None)"
    by blast
  then show ?thesis by (simp add: schema_of_def)
qed

end
