(* ===== verification/Preview_Correct.thy ===== *)
theory Preview_Correct
  imports Preview_Local Preview_Checks Local_Correct
begin

text \<open>The properties of the preview.\<close>

section \<open>Rows and schema\<close>

text \<open>
  C19. The check of the rows, which keeps the containers still to visit on a stack of its own, accepts
  exactly the rows of which every key and every string, at any depth, can be encoded.
\<close>

theorem check_rows_complete:
  "check_rows rows = (if list_all (\<lambda>row. all_encodable (JObj row)) rows then Inr () else Inl unpaired_surrogate)"
  by (rule check_rows_eq)

text \<open>
  C20. The schema does not depend on the order of the rows: a field has an entry if the header or a
  row names it, and its type is a function of the set of types its values have: text if no value has
  one, that type if they all have it, float for integers and floats, text for any other mixture.
\<close>

theorem schema_closed_form:
  "map_of (schema_of rows header csv_values) f =
     (if f \<in> set header \<union> fst ` set (concat rows)
      then Some (type_of_all (seen csv_values (concat rows) f)) else None)"
  by (rule schema_of_eq)

section \<open>CSV\<close>

text \<open>
  C21. A table written with every field quoted and each quote doubled is read back, up to the limit.
\<close>

theorem csv_round_trip:
  assumes "header \<noteq> []" "[] \<notin> set header" "distinct header" "list_all (\<lambda>r. length r = length header) rs" "0 < limit"
  shows "csv_rows (quoted_table (header # rs)) limit False =
    Inr (header, map (\<lambda>r. zip header (map JStr r)) (take limit rs))"
  using csv_rows_quoted [of header rs limit] assms by (simp add: list_all_iff)

theorem csv_round_trip_witness:
  "csv_rows (quoted_table [[[97], [98]], [[34, 10], [44]]]) 5 False =
     Inr ([[97], [98]], [[([97], JStr [34, 10]), ([98], JStr [44])]])"
  using csv_round_trip [of "[[97], [98]]" "[[[34, 10], [44]]]" 5] by simp

text \<open>
  C22. What the preview of a cut CSV text shows is what the preview of the whole text shows.
\<close>

theorem csv_head_agrees:
  assumes "csv_rows (take n s) limit True = Inr x" "0 < limit"
  shows "csv_rows s limit False = Inr x"
  using assms by (rule csv_rows_prefix)

theorem csv_head_agrees_witness:
  "csv_rows [97, 10, 49, 10, 50] 1 False = Inr ([[97]], [[([97], JStr [49])]])"
proof (rule csv_head_agrees [of 4])
  show "csv_rows (take 4 [97, 10, 49, 10, 50]) 1 True = Inr ([[97]], [[([97], JStr [49])]])"
    by code_simp
qed simp

section \<open>JSON\<close>

text \<open>
  C23. What the preview of a cut JSON text shows is what the preview of the whole text shows, if that
  is valid.
\<close>

theorem json_head_agrees:
  assumes "json_prefix (take n s) limit = Inr out" "json_document s limit = Inr rows" "0 < limit"
  shows "out = rows"
  using assms by (rule json_prefix_agrees)

theorem json_head_agrees_witness:
  "json_document [91, 123, 34, 97, 34, 58, 49, 125, 44, 123, 125, 93] 1 =
     json_prefix (take 10 [91, 123, 34, 97, 34, 58, 49, 125, 44, 123, 125, 93]) 1"
proof -
  let ?s = "[91, 123, 34, 97, 34, 58, 49, 125, 44, 123, 125, 93]" and ?row = "[[([97], JInt 1)]]"
  have doc: "json_document ?s 1 = Inr ?row" by code_simp
  have head: "json_prefix (take 10 ?s) 1 = Inr ?row" by code_simp
  show ?thesis using json_head_agrees [OF head doc] head doc by simp
qed

text \<open>A text inside quotes that needs no escape.\<close>

definition plain_json :: "pystr \<Rightarrow> bool" where
  "plain_json s \<longleftrightarrow> list_all (\<lambda>c. c \<noteq> 34 \<and> c \<noteq> 92 \<and> 31 < c) s"

lemma scanstring_plain:
  "plain_json v \<Longrightarrow> scanstring n start acc (v @ s) = scanstring n start (rev v @ acc) s"
  by (induction v arbitrary: acc) (simp_all add: plain_json_def)

lemma nested_plain: "plain_json v \<Longrightarrow> nested_too_deep m d True (v @ s) = nested_too_deep m d True s"
  by (induction v) (simp_all add: plain_json_def)

lemma hex_plain: "list_all is_hex ds \<Longrightarrow> plain_json ds"
  unfolding plain_json_def
  by (erule list.pred_mono_strong) (auto simp: is_hex_def is_digit_def)

lemma cut_escape_decode:
  assumes "plain_json key" "plain_json v" "length ds \<le> 4"
  shows "raw_decode h n ([123, 34] @ key @ [34, 58, 34] @ v @ [92, 117] @ ds) =
    Inl (DecodeError Invalid_u_escape (n - length ds - 1))"
proof -
  have "scanstring n start [] (key @ 34 # 58 # 34 # v @ 92 # 117 # ds) = Inr (key, 58 # 34 # v @ 92 # 117 # ds)"
    "scanstring n start [] (v @ 92 # 117 # ds) = Inl (DecodeError Invalid_u_escape (n - length ds - 1))" for start
    using assms by (simp_all add: scanstring_plain unicode_escape_def)
  then show ?thesis by (simp add: raw_decode_def skip_ws_def is_json_space_def)
qed

lemma hex4_hex:
  assumes "list_all is_hex ds" "length ds = 4"
  obtains c where "hex4 ds = Some c"
proof -
  obtain w x y z where "ds = [w, x, y, z]"
    using assms(2) by (auto simp: length_Suc_conv eval_nat_numeral)
  moreover have "\<exists>d. hex_value c = Some d" if "is_hex c" for c
    using that by (auto simp: hex_value_def is_hex_def)
  ultimately obtain w' x' y' z' where "hex_value w = Some w'" "hex_value x = Some x'"
    "hex_value y = Some y'" "hex_value z = Some z'" "ds = [w, x, y, z]"
    using assms(1) by fastforce
  then show thesis by (intro that) simp
qed

lemma complete_escape_document:
  assumes "plain_json key" "plain_json v" "list_all is_hex ds" "length ds = 4"
  shows "\<exists>c. json_document (91 # ([123, 34] @ key @ [34, 58, 34] @ v @ [92, 117] @ ds) @ [34, 125, 93]) 1 =
    Inr [[(key, JStr (v @ [c]))]]"
proof -
  let ?text = "91 # ([123, 34] @ key @ [34, 58, 34] @ v @ [92, 117] @ ds) @ [34, 125, 93]"
  obtain c where c: "hex4 ds = Some c" using hex4_hex [OF assms(3,4)] by blast
  have "scanstring n start [] (key @ 34 # 58 # 34 # v @ 92 # 117 # ds @ [34, 125, 93]) =
      Inr (key, 58 # 34 # v @ 92 # 117 # ds @ [34, 125, 93])"
    "scanstring n start [] (v @ 92 # 117 # ds @ [34, 125, 93]) = Inr (v @ [c], [125, 93])" for n start
    using assms c by (simp_all add: scanstring_plain unicode_escape_def)
  then have "decode DECODER ?text = Inr (JArr [JObj [(key, JStr (v @ [c]))]])"
    by (simp add: decode_def raw_decode_def skip_ws_def is_json_space_def)
  moreover have "check_nesting (skip_ws ?text) (MAX_JSON_DEPTH + 1) = Inr ()"
    using assms(1-3) nested_plain [OF hex_plain]
    by (simp add: check_nesting_def skip_ws_def is_json_space_def nested_plain MAX_JSON_DEPTH_def)
  ultimately show ?thesis by (simp add: json_document_def)
qed

text \<open>
  C24. What a preview reports when its budget ends inside a unicode escape. Whatever rows were read
  before, let the rest of the cut text be the start of a row whose first field has a plain name and
  a value that is plain up to a unicode escape. With fewer than four hexadecimal digits the error is
  that of the preview limit. With all four the file is reported as malformed, although the text with
  the closing quote, brace and bracket is a document of one row: \<open>_cut_by_budget\<close> knows at most three
  digits of a cut escape, but the decoder also refuses a complete one with nothing after it.
\<close>

theorem complete_escape_is_malformed:
  assumes "plain_json key" "plain_json v" "list_all is_hex ds" "length ds \<le> 4"
    and "left = [123, 34] @ key @ [34, 58, 34] @ v @ [92, 117] @ ds"
  shows "json_prefix_loop (before @ left) limit rows after_comma left =
      Inl (if length ds = 4 then json_malformed else incomplete) \<and>
    json_prefix (91 # left) limit = Inl (if length ds = 4 then json_malformed else incomplete) \<and>
    (length ds = 4 \<longrightarrow> (\<exists>c. json_document (91 # left @ [34, 125, 93]) 1 = Inr [[(key, JStr (v @ [c]))]]))"
proof -
  let ?out = "Inl (if length ds = 4 then json_malformed else incomplete)"
  have loop: "json_prefix_loop (before @ left) limit rows after_comma left = ?out" for before rows after_comma
  proof -
    have "skip_ws left = left" using assms(5) by (simp add: skip_ws_def is_json_space_def)
    moreover have "check_nesting left MAX_JSON_DEPTH = Inr ()"
      using assms(1-3) nested_plain [OF hex_plain, of ds _ _ "[]"]
      by (simp add: assms(5) check_nesting_def nested_plain MAX_JSON_DEPTH_def)
    moreover have "drop (length (before @ left) - length ds - 1) (before @ left) = 117 # ds"
    proof -
      have "drop (length (p @ 117 # ds) - length ds - 1) (p @ 117 # ds) = 117 # ds" for p by simp
      from this [of "before @ [123, 34] @ key @ [34, 58, 34] @ v @ [92]"] show ?thesis
        by (simp only: assms(5) append_assoc append_Cons append_Nil)
    qed
    moreover have "raw_decode DECODER (length (before @ left)) left =
        Inl (DecodeError Invalid_u_escape (length (before @ left) - length ds - 1))"
      unfolding assms(5) by (rule cut_escape_decode [OF assms(1,2,4)])
    moreover have "left \<noteq> []" "hd left = 123" by (simp_all add: assms(5))
    ultimately show ?thesis
      using assms(3,4) by (simp add: json_prefix_loop.simps [of _ _ _ _ left] del: length_append drop_append)
  qed
  moreover have "json_prefix (91 # left) limit = ?out"
    using loop [of "[91]" "[]" False] by (simp add: json_prefix_def skip_ws_def is_json_space_def)
  ultimately show ?thesis using complete_escape_document [OF assms(1-3)] assms(5) by auto
qed

text \<open>\<^verbatim>\<open>[{"a":"\u0041\<close>, at the limit of the budget.\<close>

theorem complete_escape_is_malformed_witness:
  "json_prefix [91, 123, 34, 97, 34, 58, 34, 92, 117, 48, 48, 52, 49] 5 = Inl json_malformed"
proof -
  have "plain_json [97]" "plain_json []" "list_all is_hex [48, 48, 52, 49]" "length [48, 48, 52, 49 :: nat] \<le> 4"
    by (simp_all add: plain_json_def is_hex_def is_digit_def)
  from complete_escape_is_malformed [OF this refl] show ?thesis by simp
qed

section \<open>A small world\<close>

text \<open>A directory with the file \<^verbatim>\<open>t.csv\<close>, which holds a header and two rows.\<close>

definition sheet :: bytes where "sheet = [104, 10, 49, 10, 50, 10]"

definition sheet_world :: os_world where
  "sheet_world =
     \<lparr>fs = \<lparr>dirents = [([lit ''d''], 0), ([lit ''d'', lit ''t.csv''], 1)],
        inodes = (\<lambda>i. if i = 0 then \<lparr>kind = Directory, content = [], durable = [], mode = 448\<rparr>
                      else \<lparr>kind = Regular, content = sheet, durable = sheet, mode = 384\<rparr>),
        next_ino = 2, links = Some\<rparr>,
      fds = Map.empty, next_fd = 3, ticks = [], uuids = [], umask = 18, cwd = [], home = Map.empty, log = []\<rparr>"

definition sheet_preview :: preview_result where
  "sheet_preview = \<lparr>pv_filename = lit ''t.csv'', pv_format = lit ''csv'', pv_rows = [[([104], JStr [49])]],
     pv_schema = [([104], Integer_type)]\<rparr>"

lemma sheet_length [simp]: "length sheet = 6" "sheet \<noteq> []"
  by (simp_all add: sheet_def)

lemma sheet_text: "text_preview (lit ''t.csv'') 1 ([104, 10, 49, 10, 50, 10], False) = Inr sheet_preview"
  by code_simp

lemma sheet_prefix: "prefix_text sheet = Inr ([104, 10, 49, 10, 50, 10], False)"
  by (simp add: sheet_def prefix_text_def MAX_PREVIEW_BYTES_def utf8_sig_decode_def BOM_UTF8_def)

lemma sheet_name: "validate_filename (lit ''t.csv'') = Inr (lit ''t.csv'')"
  by code_simp

lemma sheet_sel [simp]:
  "ticks sheet_world = []" "fds sheet_world = Map.empty" "next_fd sheet_world = 3"
  "lookup (fs sheet_world) [lit ''d'', lit ''t.csv''] = Some 1"
  "inodes (fs sheet_world) (Suc 0) = \<lparr>kind = Regular, content = sheet, durable = sheet, mode = 384\<rparr>"
  by (simp_all add: sheet_world_def lookup_def)

lemma sheet_resolve:
  "local_resolve demo_connector (lit ''t.csv'') sheet_world = (Inr ([lit ''d''], [lit ''d'', lit ''t.csv'']), sheet_world)"
proof -
  have "components (lit ''/d'') = [lit ''d'']"
    unfolding components_def split_d by (simp add: text_eval)
  moreover have "startswith (lit ''/d'') [47]" by (simp add: text_eval)
  ultimately show ?thesis
    by (simp add: sheet_name local_resolve_def local_root_def bind_apply translate_apply path_of_text_def
        demo_connector_def path_resolve_strict_def path_resolve_def syscall_def path_is_dir_def
        sys_stat_def try_except_apply file_at_def stat_of_def sheet_world_def is_relative_to_def lookup_def)
qed

lemma sheet_loop:
  "read_prefix_loop (local_methods c)
     (\<lparr>src_descriptor = 3, src_remaining = 6, src_filename = g\<rparr>,
      ([], sheet_world\<lparr>fds := [3 \<mapsto> \<lparr>of_inode = Suc 0, of_pos = 0\<rparr>], next_fd := 4\<rparr>)) =
   (Inr (), (\<lparr>src_descriptor = 3, src_remaining = 0, src_filename = g\<rparr>,
      (sheet, sheet_world\<lparr>next_fd := 4, fds := [3 \<mapsto> \<lparr>of_inode = Suc 0, of_pos = 6\<rparr>]\<rparr>)))"
  by (simp add: read_prefix_loop.simps FileSource_read_def bind_apply translate_apply on_world_apply sys_read_def
      on_fd_def syscall_def transferred_def MAX_PREVIEW_BYTES_def Let_def)

lemma sheet_run: "fst (preview (local_methods demo_connector) (lit ''t.csv'') 1 sheet_world) = Inr sheet_preview"
proof -
  obtain w where read: "read_prefix (local_methods demo_connector) (lit ''t.csv'') sheet_world = (prefix_text sheet, w)"
    by (simp add: read_prefix_def with_block_def on_world_apply local_read_enter_def sheet_resolve
      bind_apply translate_apply try_except_apply sys_open_read_def syscall_def new_fd_def
      sys_fstat_def on_fd_def stat_of_def sys_set_blocking_def only_if_def MAX_PREVIEW_BYTES_def
      sheet_loop leave_block_def stream_apply local_read_exit_def
      try_finally_apply suppress_oserror_def sys_close_def)
  have "lower (suffix_of (lit ''t.csv'')) = lit ''.csv''" "lit ''.csv'' \<noteq> lit ''.json''" by code_simp+
  then show ?thesis
    using read sheet_text sheet_name
    by (auto simp: preview_def bind_apply sheet_prefix text_preview_def split: sum.splits)
qed

section \<open>The preview of a file\<close>

lemma csv_rows_shape:
  assumes "csv_rows s limit b = Inr (header, rows)" "0 < limit"
  shows "length rows \<le> limit \<and> (\<forall>row\<in>set rows. map fst row = header)"
  using assms csv_body_rows [of header limit b "[]"]
  by (auto simp: csv_rows_def Let_def split: sum.splits option.splits if_splits)

lemma json_prefix_loop_length:
  "json_prefix_loop s limit rows b left = Inr out \<Longrightarrow> length rows < limit \<Longrightarrow> length out \<le> limit"
proof (induction s limit rows b left rule: json_prefix_loop.induct)
  case (1 s limit rows b left)
  note run = "1.prems"(1) [unfolded json_prefix_loop.simps [of _ _ _ _ left] Let_def]
  show ?case
  proof (rule ccontr)
    assume bad: "\<not> length out \<le> limit"
    with run "1.prems"(2) obtain item rest row where deeper: "skip_ws left \<noteq> []" "hd (skip_ws left) \<noteq> 93"
      "check_nesting (skip_ws left) MAX_JSON_DEPTH = Inr ()"
      "raw_decode DECODER (length s) (skip_ws left) = Inr (item, rest)" "as_dict item = Some row"
      "skip_ws rest \<noteq> []" "hd (skip_ws rest) = 44" "length (rows @ [row]) \<noteq> limit"
      "json_prefix_loop s limit (rows @ [row]) True (tl (skip_ws rest)) = Inr out"
      by (auto simp: end_of_array_def split: if_splits option.splits sum.splits json_error.splits)
    from "1.IH" [OF refl deeper(1,2,3,4) refl deeper(5) refl refl deeper(6)] deeper bad "1.prems"(2)
    show False by simp
  qed
qed

lemma json_rows_length: "json_rows s limit b = Inr rows \<Longrightarrow> 0 < limit \<Longrightarrow> length rows \<le> limit"
  by (auto simp: json_rows_def json_document_def json_prefix_def Let_def
      split: sum.splits if_splits json_error.splits json.splits option.splits dest: json_prefix_loop_length)

lemma schema_names: "fst ` set (schema_of rows header b) = set header \<union> (\<Union>row\<in>set rows. fst ` set row)"
proof -
  have "fst ` set d = dom (map_of d)" for d :: schema by (simp add: dom_map_of_conv_image_fst)
  then show ?thesis by (force simp: dom_def schema_of_eq)
qed

lemma schema_covers: "list_all (\<lambda>row. fst ` set row \<subseteq> fst ` set (schema_of rows header b)) rows"
  unfolding schema_names list_all_iff by blast

text \<open>
  C25. A preview, over any connector, has at most \<open>limit\<close> rows, and its schema has an entry for every
  name that a row uses.
\<close>

theorem preview_bounded:
  assumes "preview cn filename limit w = (Inr p, w')" "0 < limit"
  shows "length (pv_rows p) \<le> limit \<and>
    list_all (\<lambda>row. fst ` set row \<subseteq> fst ` set (pv_schema p)) (pv_rows p)"
proof -
  from assms(1) obtain x where "text_preview filename limit x = Inr p" by (rule preview_Inr)
  with assms(2) show ?thesis
    by (cases x) (auto simp: text_preview_def schema_covers split: if_splits sum.splits
        dest: json_rows_length csv_rows_shape)
qed

theorem preview_bounded_witness: "length (pv_rows sheet_preview) \<le> 1"
proof -
  obtain w' where "preview (local_methods demo_connector) (lit ''t.csv'') 1 sheet_world = (Inr sheet_preview, w')"
    using sheet_run by (metis prod.collapse)
  from preview_bounded [OF this] show ?thesis by simp
qed

text \<open>
  C26. Whatever a file under the root of a local connection holds, and whatever fails or interferes,
  its preview raises a \<open>DataBridgeError\<close>, or the error of \<open>Path.is_dir\<close> of C8.
\<close>

theorem preview_error_contract: "raises typed_or_is_dir (preview (local_methods c) filename limit)"
  by (rule local_reader.raises_preview)

text \<open>
  C27. A preview of a text file of a local connection, under any faults, changes no file, and what it
  shows is what the preview of the whole text would show; the only exception is a JSON file that is
  longer than the budget and invalid after the rows that are shown.
\<close>

theorem preview_shows_the_file:
  assumes "preview (local_methods c) g limit w = (Inr p, w')" "with_files f cw w" "points c g f cw root"
    and "lookup f (root @ [g]) = Some j" "holds_text s (content (inodes f j))" "0 < limit"
  shows "fs w' = f \<and>
    (case text_preview g limit (s, False) of
       Inr q \<Rightarrow> p = q
     | Inl e \<Rightarrow> lower (suffix_of g) = lit ''.json'' \<and> MAX_PREVIEW_BYTES < length (content (inodes f j)))"
proof -
  from preview_local [OF assms(1-3)] assms(4) obtain x where x: "fs w' = f"
    "prefix_text (take (MAX_PREVIEW_BYTES + 1) (content (inodes f j))) = Inr x" "text_preview g limit x = Inr p"
    by auto
  from prefix_text_of [OF assms(5)] x(2) obtain k where
    k: "x = (take k s, MAX_PREVIEW_BYTES < length (content (inodes f j)))"
      "length (content (inodes f j)) \<le> MAX_PREVIEW_BYTES \<longrightarrow> take k s = s" by auto
  show ?thesis
  proof (cases "MAX_PREVIEW_BYTES < length (content (inodes f j))")
    case False
    with k x(3) have "text_preview g limit (s, False) = Inr p" by simp
    with x(1) show ?thesis by simp
  next
    case True
    with k x(3) have cut: "text_preview g limit (take k s, True) = Inr p" by simp
    from text_preview_cut [OF this assms(6)] text_preview_csv [OF this assms(6)] True x(1)
    show ?thesis by (cases "lower (suffix_of g) = lit ''.json''") (auto split: sum.split)
  qed
qed

theorem preview_shows_the_file_witness:
  "fs (snd (preview (local_methods demo_connector) (lit ''t.csv'') 1 sheet_world)) = fs sheet_world"
proof -
  obtain w' where run: "preview (local_methods demo_connector) (lit ''t.csv'') 1 sheet_world = (Inr sheet_preview, w')"
    using sheet_run by (metis prod.collapse)
  have "os_ok sheet_world" by (auto simp: os_ok_def fs_ok_def calm_def sheet_world_def lookup_def split: if_splits)
  then have world: "with_files (fs sheet_world) [] sheet_world" by (simp add: with_files_def sheet_world_def)
  have "components (lit ''/d'') = [lit ''d'']"
    unfolding components_def split_d by (simp add: text_eval)
  then have points: "points demo_connector (lit ''t.csv'') (fs sheet_world) [] [lit ''d'']"
    by (simp add: points_def rooted_def demo_connector_def sheet_world_def)
  have entry: "lookup (fs sheet_world) ([lit ''d''] @ [lit ''t.csv'']) = Some 1" by simp
  have holds: "holds_text [104, 10, 49, 10, 50, 10] (content (inodes (fs sheet_world) 1))"
    by (simp add: holds_text_def sheet_def utf8_cp_def is_cp_def)
  show ?thesis using preview_shows_the_file [OF run world points entry holds] run by simp
qed

end
