(* ===== verification/Sftp_Wire.thy ===== *)
theory Sftp_Wire
  imports Base Text_Decoding
begin

text \<open>
  \<^verbatim>\<open>databridge/connectors/sftp.py\<close>, the wire: the constants of the protocol, the requests the
  connector sends, and \<open>_Reader\<close>, which parses the fields of one reply and refuses a field that would
  pass its end.
\<close>

section \<open>The protocol\<close>

text \<open>
  The numbers of the SFTP protocol, version 3, under the names \<^verbatim>\<open>paramiko.sftp\<close> gives them. The kinds
  of replies are integers, so that the mark of an oversized reply is one of them.
\<close>

definition SFTP_OK :: nat where "SFTP_OK = 0"
definition SFTP_EOF :: nat where "SFTP_EOF = 1"
definition SFTP_NO_SUCH_FILE :: nat where "SFTP_NO_SUCH_FILE = 2"
definition SFTP_PERMISSION_DENIED :: nat where "SFTP_PERMISSION_DENIED = 3"
definition SFTP_BAD_MESSAGE :: nat where "SFTP_BAD_MESSAGE = 5"
definition SFTP_NO_CONNECTION :: nat where "SFTP_NO_CONNECTION = 6"
definition SFTP_CONNECTION_LOST :: nat where "SFTP_CONNECTION_LOST = 7"
definition SFTP_OP_UNSUPPORTED :: nat where "SFTP_OP_UNSUPPORTED = 8"

lemmas status_codes = SFTP_OK_def SFTP_EOF_def SFTP_NO_SUCH_FILE_def SFTP_PERMISSION_DENIED_def
  SFTP_BAD_MESSAGE_def SFTP_NO_CONNECTION_def SFTP_CONNECTION_LOST_def SFTP_OP_UNSUPPORTED_def

definition CMD_STATUS :: int where "CMD_STATUS = 101"
definition CMD_HANDLE :: int where "CMD_HANDLE = 102"
definition CMD_DATA :: int where "CMD_DATA = 103"
definition CMD_NAME :: int where "CMD_NAME = 104"
definition CMD_ATTRS :: int where "CMD_ATTRS = 105"

definition SFTP_FLAG_READ :: nat where "SFTP_FLAG_READ = 1"
definition SFTP_FLAG_WRITE :: nat where "SFTP_FLAG_WRITE = 2"
definition SFTP_FLAG_CREATE :: nat where "SFTP_FLAG_CREATE = 8"
definition SFTP_FLAG_EXCL :: nat where "SFTP_FLAG_EXCL = 32"

section \<open>Limits\<close>

definition REQUEST_SIZE :: nat where "REQUEST_SIZE = 32768"
definition WINDOW :: nat where "WINDOW = 64"
definition MAX_REPLY :: nat where "MAX_REPLY = 262144"
definition OVERSIZED :: int where "OVERSIZED = -1"

text \<open>The requests, with the arguments the connector passes to the request layer of paramiko.\<close>

datatype request =
    Open_file pystr nat
  | Open_directory pystr
  | Close_handle bytes
  | Fstat bytes
  | Stat pystr
  | Lstat pystr
  | Read_at bytes nat nat
  | Write_at bytes nat bytes
  | Read_directory bytes
  | Remove_file pystr
  | Rename_file pystr pystr
  | Set_mode pystr nat
  | Fsync bytes
  | Posix_rename pystr pystr

text \<open>The texts of a request, which are sent in UTF-8.\<close>

fun request_texts :: "request \<Rightarrow> pystr list" where
  "request_texts (Open_file p _) = [p]"
| "request_texts (Open_directory p) = [p]"
| "request_texts (Stat p) = [p]"
| "request_texts (Lstat p) = [p]"
| "request_texts (Remove_file p) = [p]"
| "request_texts (Rename_file p q) = [p, q]"
| "request_texts (Set_mode p _) = [p]"
| "request_texts (Posix_rename p q) = [p, q]"
| "request_texts _ = []"

section \<open>The fields of a reply\<close>

record reader =
  rd_payload :: bytes
  rd_offset :: nat

definition Reader :: "bytes \<Rightarrow> reader" where
  "Reader payload = \<lparr>rd_payload = payload, rd_offset = 0\<rparr>"

definition bad_message :: exn where
  "bad_message = SftpStatus SFTP_BAD_MESSAGE"

definition take_field :: "nat \<Rightarrow> (reader, bytes) io" where
  "take_field n =
     (\<lambda>r. let stop = rd_offset r + n
          in if length (rd_payload r) < stop then (Inl bad_message, r)
             else (Inr (take n (drop (rd_offset r) (rd_payload r))), r\<lparr>rd_offset := stop\<rparr>))"

text \<open>\<open>int.from_bytes(field, "big")\<close>.\<close>

definition big_endian :: "bytes \<Rightarrow> nat" where
  "big_endian bs = foldl (\<lambda>n b. 256 * n + unat b) 0 bs"

definition uint32 :: "(reader, nat) io" where
  "uint32 = bind (take_field 4) (\<lambda>f. ret (big_endian f))"

definition uint64 :: "(reader, nat) io" where
  "uint64 = bind (take_field 8) (\<lambda>f. ret (big_endian f))"

definition string_field :: "(reader, bytes) io" where
  "string_field = bind uint32 take_field"

record attributes =
  at_size :: "nat option"
  at_mode :: "nat option"

definition FLAG_SIZE :: nat where "FLAG_SIZE = 0"
definition FLAG_UIDGID :: nat where "FLAG_UIDGID = 1"
definition FLAG_PERMISSIONS :: nat where "FLAG_PERMISSIONS = 2"
definition FLAG_AMTIME :: nat where "FLAG_AMTIME = 3"
definition FLAG_EXTENDED :: nat where "FLAG_EXTENDED = 31"

text \<open>A flag is the number of its bit.\<close>

definition has_flag :: "nat \<Rightarrow> nat \<Rightarrow> bool" where
  "has_flag flags k \<longleftrightarrow> odd (flags div 2 ^ k)"

text \<open>The loop over the extended attributes, of which each is two strings.\<close>

primrec skip_extended :: "nat \<Rightarrow> (reader, unit) io" where
  "skip_extended 0 = ret ()"
| "skip_extended (Suc n) = bind string_field (\<lambda>_. bind string_field (\<lambda>_. skip_extended n))"

definition optional_field :: "bool \<Rightarrow> (reader, 'a) io \<Rightarrow> (reader, 'a option) io" where
  "optional_field b m = (if b then bind m (\<lambda>x. ret (Some x)) else ret None)"

definition attributes_field :: "(reader, attributes) io" where
  "attributes_field =
     bind uint32 (\<lambda>flags.
     bind (optional_field (has_flag flags FLAG_SIZE) uint64) (\<lambda>sz.
     bind (optional_field (has_flag flags FLAG_UIDGID) (take_field 8)) (\<lambda>_.
     bind (optional_field (has_flag flags FLAG_PERMISSIONS) uint32) (\<lambda>mode.
     bind (optional_field (has_flag flags FLAG_AMTIME) (take_field 8)) (\<lambda>_.
     bind (only_if (has_flag flags FLAG_EXTENDED) (bind uint32 skip_extended)) (\<lambda>_.
     ret \<lparr>at_size = sz, at_mode = mode\<rparr>))))))"

section \<open>File modes and names\<close>

definition S_ISREG :: "nat \<Rightarrow> bool" where
  "S_ISREG mode \<longleftrightarrow> mode div 4096 mod 16 = 8"

definition S_IMODE :: "nat \<Rightarrow> nat" where
  "S_IMODE mode = mode mod 4096"

definition readable_size :: "attributes \<Rightarrow> pystr \<Rightarrow> nat result" where
  "readable_size a filename =
     (if (\<exists>m\<in>set_option (at_mode a). \<not> S_ISREG m) then
        Inl (db_error FILE_NOT_FOUND ([39] @ filename @ [39] @ lit '' is not a regular file''))
      else case at_size a of
        None \<Rightarrow> Inl (db_error SFTP_OPERATION_FAILED
          (lit ''The SFTP server did not report the size of '' @ [39] @ filename @ [39] @
           lit '', so it cannot be read''))
      | Some n \<Rightarrow> Inr n)"

text \<open>One entry of a NAME reply, and the loop over them.\<close>

type_synonym name_entry = "pystr option \<times> attributes"

definition addressable :: "bytes \<Rightarrow> pystr option" where
  "addressable raw_name =
     (case utf8_decode True raw_name of
        None \<Rightarrow> None
      | Some name \<Rightarrow> if name \<in> {lit ''.'', lit ''..''} then None else Some name)"

primrec name_entries :: "nat \<Rightarrow> (reader, name_entry list) io" where
  "name_entries 0 = ret []"
| "name_entries (Suc n) =
     bind string_field (\<lambda>raw_name.
     bind string_field (\<lambda>_.
     bind attributes_field (\<lambda>a.
     bind (name_entries n) (\<lambda>entries. ret ((addressable raw_name, a) # entries)))))"

definition names :: "(reader, name_entry list) io" where
  "names = bind uint32 (\<lambda>count. if count = 0 then raise bad_message else name_entries count)"

text \<open>\<open>posixpath.join\<close> of two parts.\<close>

definition path_join :: "pystr \<Rightarrow> pystr \<Rightarrow> pystr" where
  "path_join a b =
     (if startswith b [47] then b
      else if a = [] \<or> last a = 47 then a @ b
      else a @ [47] @ b)"

text \<open>\<open>shlex.quote\<close>.\<close>

definition shell_safe :: "nat \<Rightarrow> bool" where
  "shell_safe c \<longleftrightarrow> 97 \<le> c \<and> c \<le> 122 \<or> 65 \<le> c \<and> c \<le> 90 \<or> is_digit c \<or> c \<in> set (lit ''_@%+=:,./-'')"

definition shlex_quote :: "pystr \<Rightarrow> pystr" where
  "shlex_quote s =
     (if s = [] then [39, 39]
      else if list_all shell_safe s then s
      else [39] @ concat (map (\<lambda>c. if c = 39 then [39, 34, 39, 34, 39] else [c]) s) @ [39])"

end
