(* ===== verification/Sftp_Requests.thy ===== *)
theory Sftp_Requests
  imports Sftp_Wire Posix
begin

text \<open>
  \<^verbatim>\<open>databridge/connectors/sftp.py\<close>, the request layer: \<open>_Requests\<close> over paramiko's session, and
  \<open>_failures\<close>, which turns what a request raised into an error of the contract.

  Paramiko, the SSH transport and the server are not code of the repository. They are the record
  \<open>paramiko\<close>, which answers each request with any packets, and the events of the session, which cut
  the connection or spoil a reply at any point. The thread of \<open>_Watchdog\<close> is
  not modelled, only its effect: the flag \<open>ss_expired\<close>, which a cut may set, and the expiry of a wait
  for a reply that never comes.
\<close>

section \<open>Paramiko and the server\<close>

text \<open>The exceptions of \<open>_LOST\<close>.\<close>

datatype transport_failure = Socket_error errno | End_of_file | Ssh_failure

fun lost_exn :: "transport_failure \<Rightarrow> exn" where
  "lost_exn (Socket_error n) = OSError n"
| "lost_exn End_of_file = PyError ''EOFError''"
| "lost_exn Ssh_failure = PyError ''SSHException''"

definition timeout_error :: exn where
  "timeout_error = PyError ''TimeoutError''"

text \<open>\<open>isinstance(exc, _LOST)\<close>; a \<open>TimeoutError\<close> is an \<open>OSError\<close>.\<close>

fun is_lost :: "exn \<Rightarrow> bool" where
  "is_lost (OSError _) = True"
| "is_lost (PyError name) = (name \<in> {''EOFError'', ''SSHException'', ''TimeoutError''})"
| "is_lost _ = False"

text \<open>A reply: its kind, the number of its request, and the rest of its payload.\<close>

datatype packet = Packet int nat bytes

text \<open>
  What happens at one use of the transport: nothing; a transport failure, which the watchdog may have
  caused, before or after the request left; or a packet that paramiko rejects.
\<close>

datatype link_event = Up | Cut transport_failure (by_watchdog: bool) (was_sent: bool) | Garbage

record host_key =
  hk_name :: pystr
  hk_fingerprint :: pystr

datatype host_keys_outcome = Loaded | No_such_file | Not_readable

datatype connect_outcome =
    Connected (is_active: bool)
  | Unknown_host host_key
  | Bad_host_key host_key
  | Authentication_failed
  | Unsendable_text
  | Unresolved_name
  | Connect_failed transport_failure

record 'w paramiko =
  pk_descriptions :: "pystr list"
  pk_load_host_keys :: "pystr \<Rightarrow> 'w \<Rightarrow> host_keys_outcome \<times> 'w"
  pk_connect :: "pystr \<Rightarrow> nat \<Rightarrow> pystr \<Rightarrow> pystr \<Rightarrow> 'w \<Rightarrow> connect_outcome \<times> 'w"
  pk_open_sftp :: "'w \<Rightarrow> (transport_failure option + link_event list) \<times> 'w"
  pk_respond :: "nat \<Rightarrow> request \<Rightarrow> 'w \<Rightarrow> packet list \<times> 'w"
  pk_close_sftp :: "'w \<Rightarrow> transport_failure option \<times> 'w"
  pk_disconnect :: "'w \<Rightarrow> transport_failure option \<times> 'w"

text \<open>
  A session: the packets that are on their way, the events to come, what the watchdog did, the
  requests paramiko expects a reply to, and the two collections of \<open>_Requests\<close>.
\<close>

record session =
  ss_inbox :: "packet list"
  ss_events :: "link_event list"
  ss_expired :: bool
  ss_number :: nat
  ss_expecting :: "nat set"
  ss_replies :: "nat \<rightharpoonup> int \<times> bytes"
  ss_ignored :: "nat set"

definition new_session :: "link_event list \<Rightarrow> session" where
  "new_session events =
     \<lparr>ss_inbox = [], ss_events = events, ss_expired = False, ss_number = 1, ss_expecting = {},
      ss_replies = Map.empty, ss_ignored = {}\<rparr>"

definition next_event :: "session \<Rightarrow> link_event \<times> session" where
  "next_event s = (case ss_events s of [] \<Rightarrow> (Up, s) | e # es \<Rightarrow> (e, s\<lparr>ss_events := es\<rparr>))"

text \<open>\<open>client._async_request\<close>.\<close>

definition async_request :: "'w paramiko \<Rightarrow> request \<Rightarrow> (session \<times> 'w, nat) io" where
  "async_request pk rq =
     (\<lambda>(s0, w).
        let n = ss_number s0;
            s = s0\<lparr>ss_number := Suc n, ss_expecting := insert n (ss_expecting s0)\<rparr>
        in if list_ex (\<lambda>t. utf8 t = None) (request_texts rq) then
             (Inl (PyError ''UnicodeEncodeError''), (s0, w))
           else case next_event s of
             (Cut f x sent, s') \<Rightarrow>
               (Inl (lost_exn f), (s'\<lparr>ss_expired := ss_expired s' \<or> x\<rparr>,
                                   if sent then snd (pk_respond pk n rq w) else w))
           | (_, s') \<Rightarrow>
               (case pk_respond pk n rq w of
                  (ps, w') \<Rightarrow> (Inr n, (s'\<lparr>ss_inbox := ss_inbox s' @ ps\<rparr>, w'))))"

text \<open>\<open>_async_response\<close>, for a packet that paramiko delivers because it expects it.\<close>

definition async_response :: "packet \<Rightarrow> session \<Rightarrow> session" where
  "async_response p s =
     (case p of Packet k number body \<Rightarrow>
        if number \<notin> ss_expecting s then s
        else
          (let s' = s\<lparr>ss_expecting := ss_expecting s - {number}\<rparr>
           in if number \<in> ss_ignored s then s'\<lparr>ss_ignored := ss_ignored s - {number}\<rparr>
              else if MAX_REPLY < 4 + length body then
                s'\<lparr>ss_replies := (ss_replies s)(number \<mapsto> (OVERSIZED, []))\<rparr>
              else s'\<lparr>ss_replies := (ss_replies s)(number \<mapsto> (k, body))\<rparr>))"

text \<open>\<open>client._read_response\<close>: where no packet is left to come, the watchdog ends the wait.\<close>

definition read_response :: "(session \<times> 'w, unit) io" where
  "read_response =
     (\<lambda>(s, w). case next_event s of
        (Cut f x _, s') \<Rightarrow> (Inl (lost_exn f), (s'\<lparr>ss_expired := ss_expired s' \<or> x\<rparr>, w))
      | (Garbage, s') \<Rightarrow> (Inl (PyError ''SFTPError''), (s', w))
      | (Up, s') \<Rightarrow>
          (case ss_inbox s' of
             [] \<Rightarrow> (Inl (lost_exn Ssh_failure), (s'\<lparr>ss_expired := True\<rparr>, w))
           | p # ps \<Rightarrow> (Inr (), (async_response p (s'\<lparr>ss_inbox := ps\<rparr>), w))))"

section \<open>Requests and replies\<close>

text \<open>\<open>_watched\<close>: a failure of a step that the watchdog abandoned is a timeout.\<close>

definition watched :: "(session \<times> 'w, 'a) io \<Rightarrow> (session \<times> 'w, 'a) io" where
  "watched m =
     try_except m (\<lambda>e.
       if is_lost e then
         bind (get (\<lambda>(s, w). ss_expired s)) (\<lambda>x. if x then raise timeout_error else raise e)
       else raise e)"

definition send :: "'w paramiko \<Rightarrow> request \<Rightarrow> (session \<times> 'w, nat) io" where
  "send pk rq = watched (async_request pk rq)"

text \<open>The loop of \<open>receive\<close>.\<close>

lemma read_response_Inr:
  "read_response (s, w) = (Inr u, (s', w')) \<Longrightarrow> length (ss_inbox s') < length (ss_inbox s)"
  by (auto simp: read_response_def next_event_def async_response_def Let_def
      split: prod.splits link_event.splits list.splits packet.splits if_splits)

function await :: "nat \<Rightarrow> session \<times> 'w \<Rightarrow> unit result \<times> (session \<times> 'w)" where
  "await number (s, w) =
     (if number \<in> dom (ss_replies s) then (Inr (), (s, w))
      else case read_response (s, w) of
        (Inl e, sw) \<Rightarrow> (Inl e, sw)
      | (Inr _, sw) \<Rightarrow> await number sw)"
  by pat_completeness auto
termination
  by (relation "measure (\<lambda>(number, (s, w)). length (ss_inbox s))") (auto dest: read_response_Inr [OF sym])

declare await.simps [simp del]

text \<open>What \<open>receive\<close> makes of a reply.\<close>

definition check_reply :: "int \<times> bytes \<Rightarrow> int \<Rightarrow> reader result" where
  "check_reply = (\<lambda>(k, payload) expected.
     if k = OVERSIZED then Inl bad_message
     else if k = CMD_STATUS then
       (case uint32 (Reader payload) of
          (Inl e, _) \<Rightarrow> Inl e
        | (Inr code, r) \<Rightarrow>
            if code \<noteq> SFTP_OK then
              (case string_field r of (Inl e, _) \<Rightarrow> Inl e | (Inr _, _) \<Rightarrow> Inl (SftpStatus code))
            else if expected \<noteq> CMD_STATUS then Inl bad_message
            else Inr r)
     else if k \<noteq> expected then Inl bad_message
     else Inr (Reader payload))"

definition pop_reply :: "nat \<Rightarrow> (session \<times> 'w, int \<times> bytes) io" where
  "pop_reply number =
     (\<lambda>(s, w). case ss_replies s number of
        None \<Rightarrow> (Inl (PyError ''KeyError''), (s, w))
      | Some r \<Rightarrow> (Inr r, (s\<lparr>ss_replies := (ss_replies s)(number := None)\<rparr>, w)))"

definition receive :: "nat \<Rightarrow> int \<Rightarrow> (session \<times> 'w, reader) io" where
  "receive number expected =
     bind (watched (await number)) (\<lambda>_.
     bind (pop_reply number) (\<lambda>reply.
     of_result (check_reply reply expected)))"

definition call :: "'w paramiko \<Rightarrow> request \<Rightarrow> int \<Rightarrow> (session \<times> 'w, reader) io" where
  "call pk rq expected = bind (send pk rq) (\<lambda>number. receive number expected)"

definition ignore :: "nat \<Rightarrow> (session \<times> 'w, unit) io" where
  "ignore number =
     modify (\<lambda>(s, w).
       case ss_replies s number of
         None \<Rightarrow> (s\<lparr>ss_ignored := insert number (ss_ignored s)\<rparr>, w)
       | Some _ \<Rightarrow> (s\<lparr>ss_replies := (ss_replies s)(number := None)\<rparr>, w))"

text \<open>A field of a reply, as a statement.\<close>

definition parse :: "(reader, 'a) io \<Rightarrow> reader \<Rightarrow> ('s, 'a) io" where
  "parse field r = of_result (fst (field r))"

definition rq_attributes :: "'w paramiko \<Rightarrow> request \<Rightarrow> (session \<times> 'w, attributes) io" where
  "rq_attributes pk rq = bind (call pk rq CMD_ATTRS) (parse attributes_field)"

definition rq_open :: "'w paramiko \<Rightarrow> pystr \<Rightarrow> nat \<Rightarrow> (session \<times> 'w, bytes) io" where
  "rq_open pk path flags = bind (call pk (Open_file path flags) CMD_HANDLE) (parse string_field)"

definition rq_open_directory :: "'w paramiko \<Rightarrow> pystr \<Rightarrow> (session \<times> 'w, bytes) io" where
  "rq_open_directory pk path = bind (call pk (Open_directory path) CMD_HANDLE) (parse string_field)"

text \<open>\<open>with suppress(*_LOST)\<close>.\<close>

definition suppress_lost :: "('s, unit) io \<Rightarrow> ('s, unit) io" where
  "suppress_lost m = try_except m (\<lambda>e. if is_lost e then ret () else raise e)"

definition close_quietly :: "'w paramiko \<Rightarrow> bytes \<Rightarrow> (session \<times> 'w, unit) io" where
  "close_quietly pk handle = suppress_lost (bind (send pk (Close_handle handle)) ignore)"

definition remove_quietly ::
  "'w os_world_scheme paramiko \<Rightarrow> pystr \<Rightarrow> (session \<times> 'w os_world_scheme, unit) io" where
  "remove_quietly pk path =
     try_except (bind (call pk (Remove_file path) CMD_STATUS) (\<lambda>_. ret ()))
       (\<lambda>e. case e of
          SftpStatus code \<Rightarrow>
            only_if (code \<noteq> SFTP_NO_SUCH_FILE) (on_world (warning ''staging_cleanup_failed''))
        | _ \<Rightarrow>
            if e = PyError ''SFTPError'' \<or> is_lost e
            then on_world (warning ''staging_cleanup_failed'') else raise e)"

section \<open>Errors\<close>

definition describe :: "pystr list \<Rightarrow> nat \<Rightarrow> pystr" where
  "describe table code =
     (if code < length table then table ! code else lit ''status '' @ show_nat code)"

definition unavailable :: "pystr \<Rightarrow> exn" where
  "unavailable action =
     db_error SFTP_UNAVAILABLE (lit ''The SFTP connection was lost while trying to '' @ action)"

definition sftp_root_unavailable :: "pystr \<Rightarrow> exn" where
  "sftp_root_unavailable root =
     db_error CONNECTION_ROOT_UNAVAILABLE
       (lit ''The SFTP root '' @ [39] @ root @ [39] @ lit '' does not exist or is not a directory'')"

definition not_writable :: "pystr \<Rightarrow> exn" where
  "not_writable root =
     db_error DESTINATION_NOT_WRITABLE
       (lit ''The SFTP user may not create or replace files in '' @ [39] @ root @ [39])"

text \<open>The keyword arguments of \<open>_failures\<close>.\<close>

record classified =
  if_missing :: "exn option"
  if_denied :: "exn option"
  if_unsupported :: "exn option"
  if_lost :: "exn option"

definition unclassified :: classified where
  "unclassified = \<lparr>if_missing = None, if_denied = None, if_unsupported = None, if_lost = None\<rparr>"

definition classify_status :: "classified \<Rightarrow> nat \<Rightarrow> exn option" where
  "classify_status cl code =
     (if code = SFTP_NO_SUCH_FILE then if_missing cl
      else if code = SFTP_PERMISSION_DENIED then if_denied cl
      else if code = SFTP_OP_UNSUPPORTED then if_unsupported cl
      else None)"

definition request_failure :: "pystr list \<Rightarrow> pystr \<Rightarrow> classified \<Rightarrow> exn \<Rightarrow> exn" where
  "request_failure table action cl e =
     (case e of
        SftpStatus code \<Rightarrow>
          (case classify_status cl code of
             Some error \<Rightarrow> error
           | None \<Rightarrow>
               if code = SFTP_NO_CONNECTION \<or> code = SFTP_CONNECTION_LOST then
                 (case if_lost cl of Some error \<Rightarrow> error | None \<Rightarrow> unavailable action)
               else db_error SFTP_OPERATION_FAILED
                 (lit ''The SFTP server refused to '' @ action @ lit '' ('' @ describe table code @ lit '')''))
      | _ \<Rightarrow>
          if e = PyError ''UnicodeEncodeError'' then
            db_error INVALID_CONNECTION_SETTINGS (lit ''The SFTP root must be valid UTF-8 text'')
          else if e = PyError ''SFTPError'' then
            db_error SFTP_OPERATION_FAILED
              (lit ''The SFTP server sent an invalid reply while trying to '' @ action)
          else if is_lost e then
            (case if_lost cl of
               Some error \<Rightarrow> error
             | None \<Rightarrow>
                 if e = timeout_error then
                   db_error SFTP_UNAVAILABLE
                     (lit ''The SFTP server did not respond within the time allowed while trying to '' @ action)
                 else unavailable action)
          else e)"

definition failures ::
  "'w paramiko \<Rightarrow> pystr \<Rightarrow> classified \<Rightarrow> ('s, 'a) io \<Rightarrow> ('s, 'a) io" where
  "failures pk action cl m = translate (request_failure (pk_descriptions pk) action cl) m"

end
