(* ===== verification/Sftp_Files.thy ===== *)
theory Sftp_Files
  imports Sftp_Requests
begin

text \<open>
  \<^verbatim>\<open>databridge/connectors/sftp.py\<close>, the two streams: \<open>_Download\<close>, which keeps up to \<open>WINDOW\<close> read
  requests in flight and delivers their data in file order, and \<open>_Upload\<close>, which writes a staging
  file with up to \<open>WINDOW\<close> unacknowledged requests. A method runs on the object, the session and the
  world.
\<close>

section \<open>Download\<close>

type_synonym range = "nat \<times> nat \<times> nat"

record download =
  dl_handle :: bytes
  dl_name :: pystr
  dl_size :: nat
  dl_next_offset :: nat
  dl_pending :: "range list"
  dl_leftover :: bytes

definition Download :: "bytes \<Rightarrow> nat \<Rightarrow> pystr \<Rightarrow> download" where
  "Download handle n name =
     \<lparr>dl_handle = handle, dl_name = name, dl_size = n, dl_next_offset = 0, dl_pending = [],
      dl_leftover = []\<rparr>"

definition unrequested :: "download \<Rightarrow> bool" where
  "unrequested d \<longleftrightarrow> dl_next_offset d < dl_size d"

definition Download_request ::
  "'w paramiko \<Rightarrow> nat \<Rightarrow> nat \<Rightarrow> (download \<times> (session \<times> 'w), range) io" where
  "Download_request pk offset n =
     bind self (\<lambda>d.
     bind (on_world (send pk (Read_at (dl_handle d) offset n))) (\<lambda>number.
     ret (number, offset, n)))"

text \<open>The first loop of \<open>_next_reply\<close>, which fills the window.\<close>

function fill_window :: "'w paramiko \<Rightarrow> download \<times> (session \<times> 'w) \<Rightarrow> unit result \<times> (download \<times> (session \<times> 'w))" where
  "fill_window pk (d, sw) =
     (if length (dl_pending d) < WINDOW \<and> unrequested d then
        (let n = min REQUEST_SIZE (dl_size d - dl_next_offset d)
         in case Download_request pk (dl_next_offset d) n (d, sw) of
              (Inl e, dsw) \<Rightarrow> (Inl e, dsw)
            | (Inr r, (d', sw')) \<Rightarrow>
                fill_window pk
                  (d\<lparr>dl_pending := dl_pending d @ [r], dl_next_offset := dl_next_offset d + n\<rparr>, sw'))
      else (Inr (), (d, sw)))"
  by pat_completeness auto
termination
  by (relation "measure (\<lambda>(pk, (d, sw)). dl_size d - dl_next_offset d)")
    (auto simp: unrequested_def REQUEST_SIZE_def)

declare fill_window.simps [simp del]

text \<open>A server that reports the end of the file gives no data.\<close>

definition receive_data :: "nat \<Rightarrow> (session \<times> 'w, bytes) io" where
  "receive_data number =
     try_except (bind (receive number CMD_DATA) (parse string_field))
       (\<lambda>e. if e = SftpStatus SFTP_EOF then ret [] else raise e)"

definition pop_pending :: "(download \<times> (session \<times> 'w), range) io" where
  "pop_pending =
     bind self (\<lambda>d. case dl_pending d of
       [] \<Rightarrow> raise (PyError ''IndexError'')
     | r # rs \<Rightarrow> bind (assign (\<lambda>d. d\<lparr>dl_pending := rs\<rparr>)) (\<lambda>_. ret r))"

definition next_reply :: "'w paramiko \<Rightarrow> (download \<times> (session \<times> 'w), bytes) io" where
  "next_reply pk =
     bind (fill_window pk) (\<lambda>_.
     bind pop_pending (\<lambda>(number, offset, n).
     bind (on_world (receive_data number)) (\<lambda>data.
     bind self (\<lambda>d.
       if data = [] then raise (source_changed (dl_name d))
       else if n < length data then raise bad_message
       else
         bind (only_if (length data < n)
           (bind (Download_request pk (offset + length data) (n - length data)) (\<lambda>r.
            assign (\<lambda>d. d\<lparr>dl_pending := r # dl_pending d\<rparr>)))) (\<lambda>_.
         ret data)))))"

lemma next_reply_nonempty: "next_reply pk s = (Inr data, s') \<Longrightarrow> data \<noteq> []"
  by (auto simp: next_reply_def bind_eq_Inr split: if_splits prod.splits)

text \<open>The loop of \<open>read\<close>, which fills the buffer.\<close>

function read_loop ::
  "'w paramiko \<Rightarrow> nat \<Rightarrow> bytes \<Rightarrow> download \<times> (session \<times> 'w) \<Rightarrow> bytes result \<times> (download \<times> (session \<times> 'w))" where
  "read_loop pk n buffer (d, sw) =
     (if length buffer < n \<and> (dl_leftover d \<noteq> [] \<or> dl_pending d \<noteq> [] \<or> unrequested d) then
        (case (if dl_leftover d = [] then next_reply pk (d, sw) else (Inr (dl_leftover d), (d, sw))) of
           (Inl e, dsw) \<Rightarrow> (Inl e, dsw)
         | (Inr data, (d', sw')) \<Rightarrow>
             (let wanted = n - length buffer
              in read_loop pk n (buffer @ take wanted data) (d'\<lparr>dl_leftover := drop wanted data\<rparr>, sw')))
      else (Inr buffer, (d, sw)))"
  by pat_completeness auto
termination
  by (relation "measure (\<lambda>(pk, n, buffer, dsw). n - length buffer)")
    (auto split: if_splits dest!: next_reply_nonempty [OF sym] simp: neq_Nil_conv)

declare read_loop.simps [simp del]

definition file_not_readable :: "pystr \<Rightarrow> exn" where
  "file_not_readable name =
     db_error FILE_NOT_READABLE (lit ''The SFTP user may not read '' @ [39] @ name @ [39])"

definition Download_read :: "'w paramiko \<Rightarrow> nat \<Rightarrow> (download \<times> (session \<times> 'w), bytes) io" where
  "Download_read pk n =
     bind self (\<lambda>d.
       failures pk (lit ''read '' @ [39] @ dl_name d @ [39])
         (unclassified\<lparr>if_denied := Some (file_not_readable (dl_name d))\<rparr>)
         (read_loop pk n []))"

primrec ignore_all :: "nat list \<Rightarrow> (session \<times> 'w, unit) io" where
  "ignore_all [] = ret ()"
| "ignore_all (n # ns) = bind (ignore n) (\<lambda>_. ignore_all ns)"

definition Download_release :: "'w paramiko \<Rightarrow> (download \<times> (session \<times> 'w), unit) io" where
  "Download_release pk =
     bind self (\<lambda>d.
     bind (on_world (ignore_all (map fst (dl_pending d)))) (\<lambda>_.
     bind (assign (\<lambda>d. d\<lparr>dl_pending := []\<rparr>)) (\<lambda>_.
     on_world (close_quietly pk (dl_handle d)))))"

section \<open>Upload\<close>

record upload =
  up_handle :: "bytes option"
  up_root :: pystr
  up_stage :: pystr
  up_mode :: "nat option"
  up_unacknowledged :: "nat list"
  up_finished :: bool
  up_size :: nat

definition Upload :: "bytes \<Rightarrow> pystr \<Rightarrow> pystr \<Rightarrow> nat option \<Rightarrow> upload" where
  "Upload handle root stage m =
     \<lparr>up_handle = Some handle, up_root = root, up_stage = stage, up_mode = m,
      up_unacknowledged = [], up_finished = False, up_size = 0\<rparr>"

definition Upload_open :: "('k upload_scheme \<times> 's, bytes) io" where
  "Upload_open =
     bind self (\<lambda>u. case up_handle u of
       None \<Rightarrow> raise (PyError ''RuntimeError'')
     | Some handle \<Rightarrow> ret handle)"

text \<open>The reply to the oldest write request.\<close>

definition acknowledge :: "('k upload_scheme \<times> (session \<times> 'w), unit) io" where
  "acknowledge =
     bind self (\<lambda>u. case up_unacknowledged u of
       [] \<Rightarrow> raise (PyError ''IndexError'')
     | number # ns \<Rightarrow>
         bind (assign (\<lambda>u. u\<lparr>up_unacknowledged := ns\<rparr>)) (\<lambda>_.
         bind (on_world (receive number CMD_STATUS)) (\<lambda>_. ret ())))"

definition write_chunk :: "'w paramiko \<Rightarrow> bytes \<Rightarrow> ('k upload_scheme \<times> (session \<times> 'w), unit) io" where
  "write_chunk pk chunk =
     bind self (\<lambda>u.
     bind (only_if (WINDOW \<le> length (up_unacknowledged u)) acknowledge) (\<lambda>_.
     bind Upload_open (\<lambda>handle.
     bind (on_world (send pk (Write_at handle (up_size u) chunk))) (\<lambda>number.
     assign (\<lambda>u. u\<lparr>up_unacknowledged := up_unacknowledged u @ [number],
                    up_size := up_size u + length chunk\<rparr>)))))"

text \<open>The loop of \<open>write\<close> over the slices of the data.\<close>

function write_slices :: "'w paramiko \<Rightarrow> bytes \<Rightarrow> ('k upload_scheme \<times> (session \<times> 'w), unit) io" where
  "write_slices pk data =
     (if data = [] then ret ()
      else bind (write_chunk pk (take REQUEST_SIZE data)) (\<lambda>_. write_slices pk (drop REQUEST_SIZE data)))"
  by pat_completeness auto
termination
  by (relation "measure (\<lambda>(pk, data). length data)") (auto simp: REQUEST_SIZE_def neq_Nil_conv)

declare write_slices.simps [simp del]

definition Upload_write :: "'w paramiko \<Rightarrow> bytes \<Rightarrow> ('k upload_scheme \<times> (session \<times> 'w), unit) io" where
  "Upload_write pk data =
     bind self (\<lambda>u.
       failures pk (lit ''write the staging file'')
         (unclassified\<lparr>if_denied := Some (not_writable (up_root u))\<rparr>)
         (write_slices pk data))"

lemma acknowledge_Inr:
  "acknowledge (u, sw) = (Inr x, (u', sw')) \<Longrightarrow>
   \<exists>number. up_unacknowledged u = number # up_unacknowledged u' \<and> u' = u\<lparr>up_unacknowledged := up_unacknowledged u'\<rparr>"
  by (auto simp: acknowledge_def bind_eq_Inr assign_def split: list.splits)

text \<open>The loop of \<open>finish\<close> over the requests that are not acknowledged yet.\<close>

function acknowledge_all ::
  "'k upload_scheme \<times> (session \<times> 'w) \<Rightarrow> unit result \<times> ('k upload_scheme \<times> (session \<times> 'w))" where
  "acknowledge_all (u, sw) =
     (if up_unacknowledged u = [] then (Inr (), (u, sw))
      else case acknowledge (u, sw) of
        (Inl e, s) \<Rightarrow> (Inl e, s)
      | (Inr _, s) \<Rightarrow> acknowledge_all s)"
  by pat_completeness auto
termination
  by (relation "measure (\<lambda>(u, sw). length (up_unacknowledged u))")
    (auto dest!: acknowledge_Inr [OF sym])

declare acknowledge_all.simps [simp del]

definition sync_upload :: "'w paramiko \<Rightarrow> ('k upload_scheme \<times> (session \<times> 'w), unit) io" where
  "sync_upload pk =
     bind Upload_open (\<lambda>handle.
     try_except (on_world (bind (call pk (Fsync handle) CMD_STATUS) (\<lambda>_. ret ())))
       (\<lambda>e. if e = SftpStatus SFTP_OP_UNSUPPORTED then ret () else raise e))"

definition close_upload :: "'w paramiko \<Rightarrow> ('k upload_scheme \<times> (session \<times> 'w), unit) io" where
  "close_upload pk =
     bind Upload_open (\<lambda>handle.
     bind (assign (\<lambda>u. u\<lparr>up_handle := None\<rparr>)) (\<lambda>_.
     bind (on_world (call pk (Close_handle handle) CMD_STATUS)) (\<lambda>_. ret ())))"

definition stored_size :: "'w paramiko \<Rightarrow> ('k upload_scheme \<times> (session \<times> 'w), nat option) io" where
  "stored_size pk =
     bind self (\<lambda>u.
     bind (on_world (rq_attributes pk (Stat (up_stage u)))) (\<lambda>a. ret (at_size a)))"

definition size_unreported :: exn where
  "size_unreported = db_error SFTP_OPERATION_FAILED
     (lit ''The SFTP server did not report the staging file's size, so the upload cannot be verified; nothing was published'')"

definition size_differs :: "nat \<Rightarrow> nat \<Rightarrow> exn" where
  "size_differs stored written = db_error SFTP_OPERATION_FAILED
     (lit ''The SFTP server stored '' @ show_nat stored @ lit '' of '' @ show_nat written @
      lit '' bytes of the staging file; nothing was published'')"

definition Upload_finish :: "'w paramiko \<Rightarrow> ('k upload_scheme \<times> (session \<times> 'w), unit) io" where
  "Upload_finish pk =
     bind self (\<lambda>u.
       if up_finished u then ret ()
       else
         bind (failures pk (lit ''finish the staging file'')
             (unclassified\<lparr>if_denied := Some (not_writable (up_root u))\<rparr>)
             (bind acknowledge_all (\<lambda>_.
              bind (sync_upload pk) (\<lambda>_.
              bind (close_upload pk) (\<lambda>_. stored_size pk))))) (\<lambda>stored.
         case stored of
           None \<Rightarrow> raise size_unreported
         | Some n \<Rightarrow>
             if n \<noteq> up_size u then raise (size_differs n (up_size u))
             else
               bind (case up_mode u of
                   None \<Rightarrow> ret ()
                 | Some m \<Rightarrow>
                     failures pk (lit ''copy the replaced file's permissions to the staging file'') unclassified
                       (bind (on_world (call pk (Set_mode (up_stage u) m) CMD_STATUS)) (\<lambda>_. ret ())))
                 (\<lambda>_. assign (\<lambda>u. u\<lparr>up_finished := True\<rparr>))))"

definition Upload_release :: "'w paramiko \<Rightarrow> ('k upload_scheme \<times> (session \<times> 'w), unit) io" where
  "Upload_release pk =
     bind self (\<lambda>u.
     bind (on_world (ignore_all (up_unacknowledged u))) (\<lambda>_.
     bind (assign (\<lambda>u. u\<lparr>up_unacknowledged := []\<rparr>)) (\<lambda>_.
     case up_handle u of
       None \<Rightarrow> ret ()
     | Some handle \<Rightarrow>
         bind (assign (\<lambda>u. u\<lparr>up_handle := None\<rparr>)) (\<lambda>_. on_world (close_quietly pk handle)))))"

end
