(* ===== verification/Sftp.thy ===== *)
theory Sftp
  imports Sftp_Files Models
begin

text \<open>
  \<^verbatim>\<open>databridge/connectors/sftp.py\<close>, the connector: host trust and the session of each operation, the
  listing over pages of the directory, the access check, and the read and write blocks.
\<close>

section \<open>The connector\<close>

record sftp_connector =
  sc_host :: pystr
  sc_port :: nat
  sc_username :: pystr
  sc_password :: pystr
  sc_root :: pystr
  sc_known_hosts :: pystr

definition SFTPConnector_open :: "connection \<Rightarrow> pystr \<Rightarrow> sftp_connector result" where
  "SFTPConnector_open c known_hosts =
     (case c of
        SFTPConnection n host port username password root \<Rightarrow>
          Inr \<lparr>sc_host = host, sc_port = port, sc_username = username, sc_password = password,
               sc_root = root, sc_known_hosts = known_hosts\<rparr>
      | _ \<Rightarrow> Inl (PyError ''TypeError''))"

definition SFTPConnector_prepare :: "connection \<Rightarrow> ('w, connection) io" where
  "SFTPConnector_prepare c = ret c"

section \<open>Host trust\<close>

definition host_key_name :: "pystr \<Rightarrow> nat \<Rightarrow> pystr" where
  "host_key_name host port = (if port = 22 then host else [91] @ host @ [93, 58] @ show_nat port)"

definition sc_host_key_name :: "sftp_connector \<Rightarrow> pystr" where
  "sc_host_key_name c = host_key_name (sc_host c) (sc_port c)"

definition keyscan_command :: "sftp_connector \<Rightarrow> pystr" where
  "keyscan_command c =
     lit ''ssh-keyscan -p '' @ show_nat (sc_port c) @ [32] @ shlex_quote (sc_host c) @ lit '' >> '' @
     shlex_quote (sc_known_hosts c)"

definition presented :: "host_key \<Rightarrow> pystr" where
  "presented key = lit ''a '' @ hk_name key @ lit '' host key with fingerprint '' @ hk_fingerprint key"

text \<open>\<open>_RejectUnknownHost.missing_host_key\<close>.\<close>

definition missing_host_key :: "sftp_connector \<Rightarrow> host_key \<Rightarrow> exn" where
  "missing_host_key c key =
     db_error SFTP_HOST_KEY_REJECTED
       (lit ''The SFTP server '' @ sc_host_key_name c @ lit '' presented '' @ presented key @
        lit '', which is not trusted in '' @ sc_known_hosts c @
        lit ''. After verifying that fingerprint with the server's administrator, trust it with: '' @
        keyscan_command c)"

definition trust_file_unusable :: "sftp_connector \<Rightarrow> pystr \<Rightarrow> exn" where
  "trust_file_unusable c reason =
     db_error SFTP_HOST_KEY_REJECTED
       (lit ''The trusted SFTP host key file '' @ sc_known_hosts c @ [32] @ reason @
        lit ''; after verifying the server's fingerprint, trust it with: '' @ keyscan_command c)"

definition trust :: "'w paramiko \<Rightarrow> sftp_connector \<Rightarrow> ('w, unit) io" where
  "trust pk c =
     (\<lambda>w. case pk_load_host_keys pk (sc_known_hosts c) w of
        (Loaded, w') \<Rightarrow> (Inr (), w')
      | (No_such_file, w') \<Rightarrow> (Inl (trust_file_unusable c (lit ''does not exist'')), w')
      | (Not_readable, w') \<Rightarrow>
          (Inl (trust_file_unusable c (lit ''is not a readable known_hosts file'')), w'))"

definition host_key_mismatch :: "sftp_connector \<Rightarrow> host_key \<Rightarrow> exn" where
  "host_key_mismatch c key =
     db_error SFTP_HOST_KEY_REJECTED
       (lit ''The SFTP server '' @ sc_host_key_name c @ lit '' presented '' @ presented key @
        lit '', which does not match the key trusted in '' @ sc_known_hosts c @
        lit ''. If the server's key was replaced on purpose, verify the new fingerprint, remove the old entry with: ssh-keygen -R '' @
        shlex_quote (sc_host_key_name c) @ lit '' -f '' @ shlex_quote (sc_known_hosts c) @
        lit '', then trust the new key with: '' @ keyscan_command c)"

definition connect_error :: "sftp_connector \<Rightarrow> connect_outcome \<Rightarrow> exn option" where
  "connect_error c got =
     (case got of
        Connected active \<Rightarrow>
          (if active then None
           else Some (db_error SFTP_UNAVAILABLE
             (lit ''The SFTP server at '' @ sc_host_key_name c @ lit '' closed the connection'')))
      | Unknown_host key \<Rightarrow> Some (missing_host_key c key)
      | Bad_host_key key \<Rightarrow> Some (host_key_mismatch c key)
      | Authentication_failed \<Rightarrow>
          Some (db_error SFTP_AUTH_FAILED (lit ''The SFTP server rejected the username or password''))
      | Unsendable_text \<Rightarrow>
          Some (db_error INVALID_CONNECTION_SETTINGS
            (lit ''The SFTP host name, username, or password cannot be sent to an SSH server''))
      | Unresolved_name \<Rightarrow>
          Some (db_error SFTP_UNAVAILABLE (lit ''Cannot resolve the SFTP host '' @ [39] @ sc_host c @ [39]))
      | Connect_failed _ \<Rightarrow>
          Some (db_error SFTP_UNAVAILABLE
            (lit ''Cannot connect to the SFTP server at '' @ sc_host_key_name c)))"

definition connect :: "'w paramiko \<Rightarrow> sftp_connector \<Rightarrow> ('w, unit) io" where
  "connect pk c =
     (\<lambda>w. case pk_connect pk (sc_host c) (sc_port c) (sc_username c) (sc_password c) w of
        (got, w') \<Rightarrow>
          (case connect_error c got of None \<Rightarrow> (Inr (), w') | Some e \<Rightarrow> (Inl e, w')))"

section \<open>Sessions\<close>

text \<open>The failures of a close, which are suppressed, whichever they are.\<close>

definition disconnect :: "'w paramiko \<Rightarrow> ('w, unit) io" where
  "disconnect pk = (\<lambda>w. (Inr (), snd (pk_disconnect pk w)))"

definition session_exit :: "'w paramiko \<Rightarrow> (session \<times> 'w, unit) io" where
  "session_exit pk =
     on_world (bind (\<lambda>w. (Inr (), snd (pk_close_sftp pk w))) (\<lambda>_. disconnect pk))"

definition open_sftp :: "'w paramiko \<Rightarrow> ('w, session) io" where
  "open_sftp pk =
     failures pk (lit ''open an SFTP session'')
       (unclassified\<lparr>if_lost := Some (db_error SFTP_UNAVAILABLE
           (lit ''The SFTP server did not open an SFTP session''))\<rparr>)
       (\<lambda>w. case pk_open_sftp pk w of
          (Inl (Some f), w') \<Rightarrow> (Inl (lost_exn f), w')
        | (Inl None, w') \<Rightarrow> (Inl (PyError ''SFTPError''), w')
        | (Inr events, w') \<Rightarrow> (Inr (new_session events), w'))"

definition on_failure :: "('s, 'a) io \<Rightarrow> ('s, unit) io \<Rightarrow> ('s, 'a) io" where
  "on_failure m cleanup = try_except m (\<lambda>e. bind cleanup (\<lambda>_. raise e))"

definition session_enter :: "'w paramiko \<Rightarrow> sftp_connector \<Rightarrow> ('w, session) io" where
  "session_enter pk c =
     on_failure (bind (trust pk c) (\<lambda>_. bind (connect pk c) (\<lambda>_. open_sftp pk))) (disconnect pk)"

text \<open>\<open>with self._session() as requests: body\<close>, and the part of a block before its \<open>yield\<close>.\<close>

definition with_session :: "'w paramiko \<Rightarrow> sftp_connector \<Rightarrow> (session \<times> 'w, 'a) io \<Rightarrow> ('w, 'a) io" where
  "with_session pk c body =
     bind (session_enter pk c) (\<lambda>s w.
       case try_finally body (session_exit pk) (s, w) of (r, (s', w')) \<Rightarrow> (r, w'))"

definition open_session :: "'w paramiko \<Rightarrow> sftp_connector \<Rightarrow> (session \<times> 'w, 'o) io \<Rightarrow> ('w, 'o \<times> session) io" where
  "open_session pk c body =
     bind (session_enter pk c) (\<lambda>s w.
       case on_failure body (session_exit pk) (s, w) of
         (Inl e, (s', w')) \<Rightarrow> (Inl e, w')
       | (Inr obj, (s', w')) \<Rightarrow> (Inr (obj, s'), w'))"

text \<open>A method of an object that holds its session.\<close>

definition in_session :: "('o \<times> (session \<times> 'w), 'a) io \<Rightarrow> (('o \<times> session) \<times> 'w, 'a) io" where
  "in_session m =
     (\<lambda>((obj, s), w). case m (obj, (s, w)) of (r, (obj', (s', w'))) \<Rightarrow> (r, ((obj', s'), w')))"

section \<open>Paths and status\<close>

definition sftp_path :: "sftp_connector \<Rightarrow> pystr \<Rightarrow> pystr result" where
  "sftp_path c filename =
     (case validate_filename filename of Inl e \<Rightarrow> Inl e | Inr _ \<Rightarrow> Inr (path_join (sc_root c) filename))"

definition root_failures :: "'w paramiko \<Rightarrow> sftp_connector \<Rightarrow> ('s, 'a) io \<Rightarrow> ('s, 'a) io" where
  "root_failures pk c =
     failures pk (lit ''list '' @ [39] @ sc_root c @ [39])
       (unclassified\<lparr>if_missing := Some (sftp_root_unavailable (sc_root c)),
          if_denied := Some (db_error CONNECTION_ROOT_UNAVAILABLE
            (lit ''The SFTP user may not list the SFTP root '' @ [39] @ sc_root c @ [39]))\<rparr>)"

text \<open>\<open>except _Status\<close>.\<close>

definition on_status :: "('s, 'a) io \<Rightarrow> (nat \<Rightarrow> ('s, 'a) io) \<Rightarrow> ('s, 'a) io" where
  "on_status m h = try_except m (\<lambda>e. case e of SftpStatus code \<Rightarrow> h code | _ \<Rightarrow> raise e)"

definition sftp_missing :: "'w paramiko \<Rightarrow> sftp_connector \<Rightarrow> pystr \<Rightarrow> (session \<times> 'w, exn) io" where
  "sftp_missing pk c filename =
     on_status
       (bind (rq_attributes pk (Stat (sc_root c))) (\<lambda>_.
          ret (db_error FILE_NOT_FOUND
            (lit ''No file named '' @ [39] @ filename @ [39] @ lit '' at the SFTP root '' @ [39] @ sc_root c @ [39]))))
       (\<lambda>_. ret (sftp_root_unavailable (sc_root c)))"

definition not_regular :: "pystr \<Rightarrow> exn" where
  "not_regular filename =
     db_error FILE_NOT_FOUND ([39] @ filename @ [39] @ lit '' is not a regular file'')"

definition check_regular ::
  "'w paramiko \<Rightarrow> sftp_connector \<Rightarrow> pystr \<Rightarrow> pystr \<Rightarrow> (session \<times> 'w, unit) io" where
  "check_regular pk c path filename =
     bind
       (on_status (rq_attributes pk (Stat path)) (\<lambda>code.
          if code \<noteq> SFTP_NO_SUCH_FILE then raise (SftpStatus code)
          else bind (sftp_missing pk c filename) raise))
       (\<lambda>a. case at_mode a of
          None \<Rightarrow> ret ()
        | Some m \<Rightarrow> if S_ISREG m then ret () else raise (not_regular filename))"

definition replaceable_mode ::
  "'w paramiko \<Rightarrow> pystr \<Rightarrow> pystr \<Rightarrow> bool \<Rightarrow> (session \<times> 'w, nat option) io" where
  "replaceable_mode pk destination filename overwrite =
     bind
       (on_status (bind (rq_attributes pk (Stat destination)) (\<lambda>a. ret (Some a)))
         (\<lambda>code. if code = SFTP_NO_SUCH_FILE then ret None else raise (SftpStatus code)))
       (\<lambda>found. case found of
          None \<Rightarrow> ret None
        | Some a \<Rightarrow>
            if \<not> overwrite then raise (destination_exists filename)
            else case at_mode a of
              None \<Rightarrow> ret None
            | Some m \<Rightarrow>
                if \<not> S_ISREG m then
                  raise (db_error DESTINATION_EXISTS
                    ([39] @ filename @ [39] @ lit '' exists and is not a regular file''))
                else ret (Some (S_IMODE m)))"

definition sftp_exists :: "'w paramiko \<Rightarrow> pystr \<Rightarrow> (session \<times> 'w, bool) io" where
  "sftp_exists pk path =
     on_status (bind (rq_attributes pk (Stat path)) (\<lambda>_. ret True))
       (\<lambda>code. if code = SFTP_NO_SUCH_FILE then ret False else raise (SftpStatus code))"

definition sftp_publish ::
  "'w paramiko \<Rightarrow> sftp_connector \<Rightarrow> pystr \<Rightarrow> pystr \<Rightarrow> pystr \<Rightarrow> bool \<Rightarrow> (session \<times> 'w, unit) io" where
  "sftp_publish pk c stage destination filename overwrite =
     (let inspect = lit ''inspect '' @ [39] @ filename @ [39];
          denied = Some (not_writable (sc_root c));
          lost = db_error SFTP_UNAVAILABLE
            (lit ''The SFTP connection was lost while publishing '' @ [39] @ filename @ [39] @
             lit ''; the destination may already contain the new file'');
          unsupported = db_error PUBLISH_UNSUPPORTED
            (lit ''The SFTP server cannot replace files atomically (it lacks the posix-rename@openssh.com extension), so '' @
             [39] @ filename @ [39] @ lit '' was left unchanged; choose another destination file name'');
          refuse_existing = bind (sftp_exists pk destination) (\<lambda>b. only_if b (raise (destination_exists filename)))
      in
        bind (only_if (\<not> overwrite) (failures pk inspect (unclassified\<lparr>if_denied := denied\<rparr>) refuse_existing)) (\<lambda>_.
        try_except
          (failures pk (lit ''publish '' @ [39] @ filename @ [39])
            (unclassified\<lparr>if_denied := denied, if_unsupported := Some unsupported, if_lost := Some lost\<rparr>)
            (bind
              (if overwrite then call pk (Posix_rename stage destination) CMD_STATUS
               else call pk (Rename_file stage destination) CMD_STATUS)
              (\<lambda>_. ret ())))
          (\<lambda>e. bind
            (only_if (\<not> overwrite \<and> has_code SFTP_OPERATION_FAILED e)
              (failures pk inspect unclassified refuse_existing))
            (\<lambda>_. raise e))))"

section \<open>Listing\<close>

text \<open>One entry of \<open>bounded_listing\<close>: the listing it returns, or what it goes on with.\<close>

definition listing_step :: "nat \<times> pystr list \<Rightarrow> pystr \<times> bool \<Rightarrow> listing + nat \<times> pystr list" where
  "listing_step = (\<lambda>(scanned, found) (name, regular).
     if MAX_LIST_SCAN < Suc scanned then Inl \<lparr>files = sort found, truncated = True\<rparr>
     else if \<not> regular then Inr (Suc scanned, found)
     else case validate_filename name of
       Inl _ \<Rightarrow> Inr (Suc scanned, found)
     | Inr _ \<Rightarrow>
         if MAX_LIST_RESULTS \<le> length found then Inl \<lparr>files = sort found, truncated = True\<rparr>
         else Inr (Suc scanned, found @ [name]))"

text \<open>
  \<open>_classified\<close>: an entry of a batch with the number of its lookup, if it needs one; the generator is
  consumed by the listing, and a listing that returns closes it.
\<close>

type_synonym lookup_entry = "name_entry \<times> nat option"

primrec send_lookups ::
  "'w paramiko \<Rightarrow> sftp_connector \<Rightarrow> name_entry list \<Rightarrow> (session \<times> 'w, lookup_entry list) io" where
  "send_lookups pk c [] = ret []"
| "send_lookups pk c (entry # entries) =
     bind (case entry of (name, a) \<Rightarrow>
         (case name of
            Some n \<Rightarrow>
              if at_mode a = None
              then bind (send pk (Lstat (path_join (sc_root c) n))) (\<lambda>number. ret (Some number))
              else ret None
          | None \<Rightarrow> ret None)) (\<lambda>number.
     bind (send_lookups pk c entries) (\<lambda>rest. ret ((entry, number) # rest)))"

definition is_regular :: "nat option \<Rightarrow> bool" where
  "is_regular m \<longleftrightarrow> (case m of None \<Rightarrow> False | Some n \<Rightarrow> S_ISREG n)"

definition classify_entry :: "lookup_entry \<Rightarrow> (session \<times> 'w, pystr \<times> bool) io" where
  "classify_entry = (\<lambda>((name, a), number).
     case name of
       None \<Rightarrow> ret ([], False)
     | Some n \<Rightarrow>
         (case number of
            None \<Rightarrow> ret (n, is_regular (at_mode a))
          | Some k \<Rightarrow>
              bind
                (on_status
                  (bind (receive k CMD_ATTRS) (\<lambda>r. bind (parse attributes_field r) (\<lambda>a. ret (at_mode a))))
                  (\<lambda>code. if code = SFTP_NO_SUCH_FILE \<or> code = SFTP_PERMISSION_DENIED then ret None
                           else raise (SftpStatus code)))
                (\<lambda>m. ret (n, is_regular m))))"

definition ignore_lookups :: "lookup_entry list \<Rightarrow> (session \<times> 'w, unit) io" where
  "ignore_lookups entries = ignore_all (List.map_filter snd entries)"

primrec scan_batch ::
  "lookup_entry list \<Rightarrow> nat \<times> pystr list \<Rightarrow> (session \<times> 'w, listing + nat \<times> pystr list) io" where
  "scan_batch [] acc = ret (Inr acc)"
| "scan_batch (entry # rest) acc =
     bind (on_failure (classify_entry entry) (ignore_lookups rest)) (\<lambda>item.
       case listing_step acc item of
         Inl l \<Rightarrow> bind (ignore_lookups rest) (\<lambda>_. ret (Inl l))
       | Inr acc' \<Rightarrow> scan_batch rest acc')"

function scan_page ::
  "'w paramiko \<Rightarrow> sftp_connector \<Rightarrow> name_entry list \<Rightarrow> nat \<times> pystr list \<Rightarrow>
   (session \<times> 'w, listing + nat \<times> pystr list) io" where
  "scan_page pk c entries acc =
     (if entries = [] then ret (Inr acc)
      else
        bind (send_lookups pk c (take WINDOW entries)) (\<lambda>batch.
        bind (scan_batch batch acc) (\<lambda>r.
          case r of
            Inl l \<Rightarrow> ret (Inl l)
          | Inr acc' \<Rightarrow> scan_page pk c (drop WINDOW entries) acc')))"
  by pat_completeness auto
termination
  by (relation "measure (\<lambda>(pk, c, entries, acc). length entries)") (auto simp: WINDOW_def neq_Nil_conv)

declare scan_page.simps [simp del]

text \<open>A page of the directory, \<open>None\<close> at its end.\<close>

definition read_page :: "'w paramiko \<Rightarrow> bytes \<Rightarrow> (session \<times> 'w, name_entry list option) io" where
  "read_page pk handle =
     bind
       (on_status (bind (call pk (Read_directory handle) CMD_NAME) (\<lambda>r. ret (Some r)))
         (\<lambda>code. if code = SFTP_EOF then ret None else raise (SftpStatus code)))
       (\<lambda>reply. case reply of
          None \<Rightarrow> ret None
        | Some r \<Rightarrow> bind (parse names r) (\<lambda>entries. ret (Some entries)))"

lemma listing_step_Inr:
  "listing_step acc item = Inr acc' \<Longrightarrow> fst acc' = Suc (fst acc) \<and> fst acc' \<le> MAX_LIST_SCAN"
  by (auto simp: listing_step_def split: prod.splits if_splits sum.splits)

lemma scan_batch_Inr:
  "scan_batch batch acc s = (Inr (Inr acc'), s') \<Longrightarrow>
   fst acc' = fst acc + length batch \<and> (batch \<noteq> [] \<longrightarrow> fst acc' \<le> MAX_LIST_SCAN)"
proof (induction batch arbitrary: acc s)
  case (Cons entry rest)
  then obtain item s1 where "(case listing_step acc item of
      Inl l \<Rightarrow> bind (ignore_lookups rest) (\<lambda>_. ret (Inl l)) | Inr acc' \<Rightarrow> scan_batch rest acc') s1 = (Inr (Inr acc'), s')"
    by (auto simp: bind_eq_Inr)
  then obtain acc1 where "listing_step acc item = Inr acc1" "scan_batch rest acc1 s1 = (Inr (Inr acc'), s')"
    by (cases "listing_step acc item") (auto simp: bind_eq_Inr)
  with Cons.IH [of acc1 s1] listing_step_Inr show ?case by (cases rest) fastforce+
qed simp

lemma send_lookups_length: "send_lookups pk c entries s = (Inr batch, s') \<Longrightarrow> length batch = length entries"
  by (induction entries arbitrary: s batch) (auto simp: bind_eq_Inr)

lemma scan_page_Inr:
  "scan_page pk c entries acc s = (Inr (Inr acc'), s') \<Longrightarrow>
   fst acc' = fst acc + length entries \<and> (entries \<noteq> [] \<longrightarrow> fst acc' \<le> MAX_LIST_SCAN)"
proof (induction entries arbitrary: acc s rule: length_induct)
  case (1 entries)
  show ?case
  proof (cases "entries = []")
    case True
    with 1 show ?thesis by (simp add: scan_page.simps)
  next
    case False
    with 1(2) obtain batch s1 x s2 where
      x: "send_lookups pk c (take WINDOW entries) s = (Inr batch, s1)" "scan_batch batch acc s1 = (Inr x, s2)"
        "(case x of Inl l \<Rightarrow> ret (Inl l) | Inr acc' \<Rightarrow> scan_page pk c (drop WINDOW entries) acc') s2 = (Inr (Inr acc'), s')"
      by (auto simp: scan_page.simps [of _ _ entries] bind_eq_Inr)
    then obtain acc1 where
      b: "send_lookups pk c (take WINDOW entries) s = (Inr batch, s1)" "scan_batch batch acc s1 = (Inr (Inr acc1), s2)"
        "scan_page pk c (drop WINDOW entries) acc1 s2 = (Inr (Inr acc'), s')"
      by (cases x) auto
    have len: "length batch = min (length entries) WINDOW" using send_lookups_length [OF b(1)] by simp
    have "length (drop WINDOW entries) < length entries" using False by (simp add: WINDOW_def)
    with 1(1) b(3) have rest: "fst acc' = fst acc1 + length (drop WINDOW entries)"
      "drop WINDOW entries \<noteq> [] \<longrightarrow> fst acc' \<le> MAX_LIST_SCAN" by blast+
    have "batch \<noteq> []" using len False by (cases entries) (auto simp: WINDOW_def)
    with scan_batch_Inr [OF b(2)] rest len show ?thesis by (cases "drop WINDOW entries = []") auto
  qed
qed

lemma name_entries_length: "name_entries n r = (Inr entries, r') \<Longrightarrow> length entries = n"
  by (induction n arbitrary: r entries) (auto simp: bind_eq_Inr)

lemma read_page_nonempty: "read_page pk handle s = (Inr (Some entries), s') \<Longrightarrow> entries \<noteq> []"
proof -
  assume "read_page pk handle s = (Inr (Some entries), s')"
  then obtain r where "fst (names r) = Inr entries"
    by (auto simp: read_page_def bind_eq_Inr parse_def split: option.split_asm)
  then obtain r' where "names r = (Inr entries, r')" by (metis prod.collapse)
  then show ?thesis by (auto simp: names_def bind_eq_Inr split: if_split_asm dest!: name_entries_length)
qed

text \<open>
  \<open>_entries\<close> under the listing: every page counts at least one entry, so the scan cap ends the loop
  whatever the server sends.
\<close>

function scan_directory ::
  "'w paramiko \<Rightarrow> sftp_connector \<Rightarrow> bytes \<Rightarrow> nat \<times> pystr list \<Rightarrow> session \<times> 'w \<Rightarrow>
   listing result \<times> (session \<times> 'w)" where
  "scan_directory pk c handle acc sw =
     (case read_page pk handle sw of
        (Inl e, sw1) \<Rightarrow> (Inl e, sw1)
      | (Inr None, sw1) \<Rightarrow> (Inr \<lparr>files = sort (snd acc), truncated = False\<rparr>, sw1)
      | (Inr (Some entries), sw1) \<Rightarrow>
          (case scan_page pk c entries acc sw1 of
             (Inl e, sw2) \<Rightarrow> (Inl e, sw2)
           | (Inr (Inl l), sw2) \<Rightarrow> (Inr l, sw2)
           | (Inr (Inr acc'), sw2) \<Rightarrow> scan_directory pk c handle acc' sw2))"
  by pat_completeness auto
termination
  by (relation "measure (\<lambda>(pk, c, handle, acc, sw). MAX_LIST_SCAN - fst acc)")
    (auto dest!: scan_page_Inr [OF sym] read_page_nonempty [OF sym] simp: neq_Nil_conv)

declare scan_directory.simps [simp del]

definition sftp_list_files ::
  "'w paramiko \<Rightarrow> sftp_connector \<Rightarrow> ('w, listing) io" where
  "sftp_list_files pk c =
     with_session pk c
       (root_failures pk c
         (bind (rq_open_directory pk (sc_root c)) (\<lambda>handle.
          try_finally (scan_directory pk c handle (0, [])) (close_quietly pk handle))))"

section \<open>Access check\<close>

definition staging_flags :: nat where
  "staging_flags = SFTP_FLAG_WRITE + SFTP_FLAG_CREATE + SFTP_FLAG_EXCL"

definition missing_root :: "sftp_connector \<Rightarrow> classified" where
  "missing_root c = unclassified\<lparr>if_missing := Some (sftp_root_unavailable (sc_root c))\<rparr>"

definition sftp_check_access ::
  "'w os_world_scheme paramiko \<Rightarrow> sftp_connector \<Rightarrow> ('w os_world_scheme, access_check) io" where
  "sftp_check_access pk c =
     bind uuid4 (\<lambda>u.
     bind (of_result (probe_name u)) (\<lambda>name.
       let probe = path_join (sc_root c) name
       in with_session pk c
         (bind (root_failures pk c (bind (rq_open_directory pk (sc_root c)) (close_quietly pk))) (\<lambda>_.
          bind
            (on_failure
              (bind
                (failures pk (lit ''test write access to '' @ [39] @ sc_root c @ [39]) (missing_root c)
                  (on_status (bind (rq_open pk probe staging_flags) (\<lambda>handle. ret (Some handle)))
                    (\<lambda>code. if code = SFTP_PERMISSION_DENIED then ret None else raise (SftpStatus code))))
                (\<lambda>opened. case opened of
                   None \<Rightarrow> ret False
                 | Some handle \<Rightarrow>
                     bind (close_quietly pk handle) (\<lambda>_.
                     bind
                       (failures pk
                         (lit ''remove the write-access probe '' @ [39] @ name @ [39] @ lit '' from '' @
                          [39] @ sc_root c @ [39])
                         (missing_root c)
                         (call pk (Remove_file probe) CMD_STATUS)) (\<lambda>_.
                     ret True))))
              (remove_quietly pk probe))
            (\<lambda>removed.
               if removed then ret \<lparr>writable = True\<rparr>
               else bind (remove_quietly pk probe) (\<lambda>_. ret \<lparr>writable = False\<rparr>))))))"

section \<open>Read and write blocks\<close>

definition end_session :: "'w paramiko \<Rightarrow> ('o \<times> (session \<times> 'w), unit) io \<Rightarrow> (('o \<times> session) \<times> 'w, unit) io" where
  "end_session pk m = in_session (try_finally m (on_world (session_exit pk)))"

definition sftp_read_enter ::
  "'w paramiko \<Rightarrow> sftp_connector \<Rightarrow> pystr \<Rightarrow> nat option \<Rightarrow> ('w, download \<times> session) io" where
  "sftp_read_enter pk c filename limit =
     bind (of_result (sftp_path c filename)) (\<lambda>path.
     open_session pk c
       (failures pk (lit ''open '' @ [39] @ filename @ [39])
         (unclassified\<lparr>
            if_missing := Some (db_error FILE_NOT_FOUND
              ([39] @ filename @ [39] @ lit '' was removed while it was opened'')),
            if_denied := Some (file_not_readable filename)\<rparr>)
         (bind (check_regular pk c path filename) (\<lambda>_.
          bind (rq_open pk path SFTP_FLAG_READ) (\<lambda>handle.
          on_failure
            (bind (rq_attributes pk (Fstat handle)) (\<lambda>opened.
             bind (of_result (readable_size opened filename)) (\<lambda>n.
             ret (Download handle (case limit of None \<Rightarrow> n | Some k \<Rightarrow> min n k) filename))))
            (close_quietly pk handle))))))"

definition sftp_read_exit ::
  "'w paramiko \<Rightarrow> exn option \<Rightarrow> ((download \<times> session) \<times> 'w, unit) io" where
  "sftp_read_exit pk failure = end_session pk (try_finally (rethrow failure) (Download_release pk))"

record sftp_write = upload +
  sw_destination :: pystr
  sw_filename :: pystr
  sw_overwrite :: bool

definition sftp_write_enter ::
  "'w os_world_scheme paramiko \<Rightarrow> sftp_connector \<Rightarrow> pystr \<Rightarrow> pystr \<Rightarrow> bool \<Rightarrow>
   ('w os_world_scheme, sftp_write \<times> session) io" where
  "sftp_write_enter pk c filename staging_id overwrite =
     bind (of_result (sftp_path c filename)) (\<lambda>destination.
     bind (of_result (stage_name staging_id)) (\<lambda>name.
       let stage = path_join (sc_root c) name
       in open_session pk c
         (bind
           (failures pk (lit ''inspect '' @ [39] @ filename @ [39])
             (unclassified\<lparr>if_denied := Some (not_writable (sc_root c))\<rparr>)
             (replaceable_mode pk destination filename overwrite)) (\<lambda>m.
          on_failure
            (failures pk (lit ''create the staging file'')
              ((missing_root c)\<lparr>if_denied := Some (not_writable (sc_root c))\<rparr>)
              (bind (rq_open pk stage staging_flags) (\<lambda>handle.
               ret (upload.extend (Upload handle (sc_root c) stage m)
                 \<lparr>sw_destination = destination, sw_filename = filename, sw_overwrite = overwrite\<rparr>))))
            (remove_quietly pk stage)))))"

definition sftp_write_exit ::
  "'w os_world_scheme paramiko \<Rightarrow> sftp_connector \<Rightarrow> exn option \<Rightarrow>
   ((sftp_write \<times> session) \<times> 'w os_world_scheme, unit) io" where
  "sftp_write_exit pk c failure =
     end_session pk
       (on_failure
         (bind (rethrow failure) (\<lambda>_.
          bind (Upload_finish pk) (\<lambda>_.
          bind self (\<lambda>k.
          on_world (sftp_publish pk c (up_stage k) (sw_destination k) (sw_filename k) (sw_overwrite k))))))
         (bind (Upload_release pk) (\<lambda>_.
          bind self (\<lambda>k. on_world (remove_quietly pk (up_stage k))))))"

text \<open>The connector, as the contract sees it, and the class method that opens one.\<close>

definition sftp_methods ::
  "'w os_world_scheme paramiko \<Rightarrow> sftp_connector \<Rightarrow>
   ('w os_world_scheme, download \<times> session, sftp_write \<times> session) connector" where
  "sftp_methods pk c =
     \<lparr>cn_list_files = sftp_list_files pk c,
      cn_check_access = sftp_check_access pk c,
      cn_read_enter = sftp_read_enter pk c,
      cn_source_read = (\<lambda>n. in_session (Download_read pk n)),
      cn_read_exit = sftp_read_exit pk,
      cn_write_enter = sftp_write_enter pk c,
      cn_sink_write = (\<lambda>data. in_session (Upload_write pk data)),
      cn_sink_finish = in_session (Upload_finish pk),
      cn_write_exit = sftp_write_exit pk c\<rparr>"

definition sftp_open ::
  "'w os_world_scheme paramiko \<Rightarrow> pystr \<Rightarrow> connection \<Rightarrow>
   ('w os_world_scheme, ('w os_world_scheme, download \<times> session, sftp_write \<times> session) connector) io" where
  "sftp_open pk known_hosts c =
     bind (of_result (SFTPConnector_open c known_hosts)) (\<lambda>sc. ret (sftp_methods pk sc))"

end
