(* ===== verification/Sftp_Errors.thy ===== *)
theory Sftp_Errors
  imports Sftp
begin

text \<open>
  What the request layer of the SFTP connector raises, for any server and transport, as a locale over
  the predicates that contain it.
\<close>

section \<open>What the request layer raises\<close>

definition plain_loss :: "exn \<Rightarrow> bool" where
  "plain_loss e \<longleftrightarrow> (\<exists>code. e = SftpStatus code) \<or> is_lost e \<or> e = PyError ''SFTPError''"

lemma is_lost_lost_exn [simp]: "is_lost (lost_exn f)" "is_lost timeout_error"
  by (cases f) (simp_all add: timeout_error_def)

lemma plain_lossI [simp]:
  "plain_loss (SftpStatus code)" "plain_loss bad_message" "plain_loss (lost_exn f)" "plain_loss timeout_error"
  "plain_loss (PyError ''SFTPError'')" "plain_loss (PyError ''SSHException'')"
  by (auto simp: plain_loss_def bad_message_def)

section \<open>Fields\<close>

text \<open>A field can only be malformed.\<close>

lemma raises_take_field [raises_rules]: "raises ((=) bad_message) (take_field n)"
  by (auto simp: raises_def take_field_def Let_def split: if_splits)

lemma raises_uint [raises_rules]: "raises ((=) bad_message) uint32" "raises ((=) bad_message) uint64"
  unfolding uint32_def uint64_def by (intro raises_rules)+

lemma raises_string_field [raises_rules]: "raises ((=) bad_message) string_field"
  unfolding string_field_def by (intro raises_rules)

lemma raises_skip_extended [raises_rules]: "raises ((=) bad_message) (skip_extended n)"
proof (induction n)
  case 0
  show ?case unfolding skip_extended.simps by (intro raises_rules)
next
  case (Suc n)
  show ?case unfolding skip_extended.simps by (intro raises_rules Suc)
qed

lemma raises_optional_field [raises_rules]: "raises P m \<Longrightarrow> raises P (optional_field b m)"
  unfolding optional_field_def by (intro raises_rules)

lemma raises_attributes_field [raises_rules]: "raises ((=) bad_message) attributes_field"
  unfolding attributes_field_def by (intro raises_rules)

lemma raises_name_entries [raises_rules]: "raises ((=) bad_message) (name_entries n)"
proof (induction n)
  case 0
  show ?case unfolding name_entries.simps by (intro raises_rules)
next
  case (Suc n)
  show ?case unfolding name_entries.simps by (intro raises_rules Suc)
qed

lemma raises_names [raises_rules]: "raises ((=) bad_message) names"
  unfolding names_def by (intro raises_rules) simp_all

lemma raises_parse: "raises P field \<Longrightarrow> raises P (parse field r)"
  by (auto simp: raises_def parse_def) (metis prod.collapse)

section \<open>Requests\<close>

lemma raises_watched [raises_rules]: "raises plain_loss m \<Longrightarrow> raises plain_loss (watched m)"
  unfolding watched_def by (rule raises_try_except, assumption) (auto intro!: raises_rules)

lemma raises_async_request:
  "raises (\<lambda>e. plain_loss e \<or> e = PyError ''UnicodeEncodeError'' \<and> list_ex (\<lambda>t. utf8 t = None) (request_texts rq))
     (async_request pk rq)"
  by (auto simp: raises_def async_request_def Let_def split: if_splits prod.splits link_event.splits)

lemma raises_send:
  "raises (\<lambda>e. plain_loss e \<or> e = PyError ''UnicodeEncodeError'' \<and> list_ex (\<lambda>t. utf8 t = None) (request_texts rq))
     (send pk rq)"
  unfolding send_def watched_def
  by (rule raises_try_except, rule raises_async_request) (auto intro!: raises_rules)

lemma raises_send_encodable:
  "list_all (\<lambda>t. utf8 t \<noteq> None) (request_texts rq) \<Longrightarrow> raises plain_loss (send pk rq)"
  by (rule raises_mono [OF raises_send]) (auto simp: list_all_iff list_ex_iff)

lemma raises_read_response: "raises plain_loss read_response"
  by (auto simp: raises_def read_response_def split: prod.splits link_event.splits list.splits)

lemma raises_await: "raises plain_loss (await number)"
proof (rule raisesI)
  fix s :: "session \<times> 'w" and e s'
  assume "await number s = (Inl e, s')"
  then show "plain_loss e"
  proof (induction number s rule: await.induct)
    case (1 number s w)
    obtain x sw where read: "read_response (s, w) = (x, sw)" by (rule prod.exhaust)
    from "1.prems" read "1.IH" raisesD [OF raises_read_response, of "(s, w)"] show ?case
      by (cases x) (auto simp: await.simps [of number s w] split: if_splits)
  qed
qed

lemma await_Inr: "await number s = (Inr u, s') \<Longrightarrow> number \<in> dom (ss_replies (fst s'))"
proof (induction number s rule: await.induct)
  case (1 number s w)
  obtain x sw where read: "read_response (s, w) = (x, sw)" by (rule prod.exhaust)
  from "1.prems" read "1.IH" show ?case
    by (cases x) (auto simp: await.simps [of number s w] split: if_splits)
qed

lemma check_reply_typed: "check_reply reply expected = Inl e \<Longrightarrow> plain_loss e"
  using raisesD [OF raises_mono [OF raises_uint(1), of plain_loss]]
    raisesD [OF raises_mono [OF raises_string_field, of plain_loss]]
  by (auto simp: check_reply_def split: prod.splits if_splits sum.splits)

lemma watched_Inr: "watched m s = (Inr x, s') \<longleftrightarrow> m s = (Inr x, s')"
  by (auto simp: watched_def try_except_apply bind_apply split: prod.splits sum.splits if_splits)

lemma raises_receive [raises_rules]: "raises plain_loss (receive number expected)"
proof (rule raisesI)
  fix s :: "session \<times> 'w" and e s'
  assume run: "receive number expected s = (Inl e, s')"
  obtain x s1 where w: "watched (await number) s = (x, s1)" by (rule prod.exhaust)
  show "plain_loss e"
  proof (cases x)
    case (Inl d)
    with run w raisesD [OF raises_watched [OF raises_await] w [unfolded Inl]] show ?thesis
      by (simp add: receive_def bind_apply)
  next
    case (Inr u)
    with w have "number \<in> dom (ss_replies (fst s1))" by (intro await_Inr [of number s u s1]) (simp add: watched_Inr)
    with run w Inr show ?thesis
      by (cases s1) (auto simp: receive_def bind_apply pop_reply_def dest: check_reply_typed)
  qed
qed

lemma raises_ignore [raises_rules]: "raises P (ignore number)"
  unfolding ignore_def by (intro raises_rules)

lemma raises_ignore_all [raises_rules]: "raises P (ignore_all ns)"
proof (induction ns)
  case Nil
  show ?case unfolding ignore_all.simps by (intro raises_rules)
next
  case (Cons n ns)
  show ?case unfolding ignore_all.simps by (intro raises_rules Cons)
qed

lemma raises_suppress_lost: "raises is_lost m \<Longrightarrow> raises P (suppress_lost m)"
  unfolding suppress_lost_def by (rule raises_try_except, assumption) (auto intro!: raises_rules)

lemma plain_loss_or_lost: "raises is_lost (send pk (Close_handle handle))"
proof -
  have "raises is_lost (async_request pk (Close_handle handle))"
    by (auto simp: raises_def async_request_def Let_def split: if_splits prod.splits link_event.splits)
  then show ?thesis
    unfolding send_def watched_def by (rule raises_try_except) (auto intro!: raises_rules)
qed

lemma raises_close_quietly [raises_rules]: "raises P (close_quietly pk handle)"
  unfolding close_quietly_def by (intro raises_suppress_lost raises_rules plain_loss_or_lost)

lemma raises_sum [raises_rules]:
  "(\<And>a. x = Inl a \<Longrightarrow> raises P (f a)) \<Longrightarrow> (\<And>b. x = Inr b \<Longrightarrow> raises P (g b)) \<Longrightarrow>
   raises P (case x of Inl a \<Rightarrow> f a | Inr b \<Rightarrow> g b)"
  by (cases x) simp_all

lemma raises_on_failure [raises_rules]:
  assumes "raises P m" "raises P after" shows "raises P (on_failure m after)"
  unfolding on_failure_def using assms by (intro raises_try_except [of P] raises_bind raises_raise)

lemma raises_of_result_bind:
  "(\<And>e. r = Inl e \<Longrightarrow> P e) \<Longrightarrow> (\<And>x. r = Inr x \<Longrightarrow> raises P (f x)) \<Longrightarrow> raises P (bind (of_result r) f)"
  by (cases r) (auto simp: raises_def bind_eq_Inl)

lemma raises_disconnect [raises_rules]: "raises P (disconnect pk)"
  by (simp add: raises_def disconnect_def)

lemma raises_session_exit [raises_rules]: "raises P (session_exit pk)"
  unfolding session_exit_def by (intro raises_rules) (simp add: raises_def)

lemma raises_in_session: "raises P m \<Longrightarrow> raises P (in_session m)"
  unfolding raises_def in_session_def by (fastforce split: prod.splits)

lemma Download_request_Inr:
  "Download_request pk offset n (d, sw) = (Inr r, (d', sw')) \<Longrightarrow>
   d' = d \<and> r = (fst r, offset, n) \<and> send pk (Read_at (dl_handle d) offset n) sw = (Inr (fst r), sw')"
  by (auto simp: Download_request_def bind_eq_Inr)

lemma fill_window_pending:
  "fill_window pk s = (Inr u, s') \<Longrightarrow> dl_pending (fst s) \<noteq> [] \<or> unrequested (fst s) \<Longrightarrow> dl_pending (fst s') \<noteq> []"
proof (induction pk s rule: fill_window.induct)
  case (1 pk d sw)
  let ?n = "min REQUEST_SIZE (dl_size d - dl_next_offset d)"
  obtain x d1 sw1 where r: "Download_request pk (dl_next_offset d) ?n (d, sw) = (x, (d1, sw1))" by (metis prod.exhaust)
  show ?case
  proof (cases "length (dl_pending d) < WINDOW \<and> unrequested d")
    case True
    with "1.prems" r "1.IH" [OF True refl] show ?thesis
      by (cases x) (auto simp: fill_window.simps [of pk d sw] Let_def)
  next
    case False
    with "1.prems" show ?thesis by (auto simp: fill_window.simps [of pk d sw] WINDOW_def)
  qed
qed

lemma raises_ignore_lookups [raises_rules]: "raises P (ignore_lookups items)"
  unfolding ignore_lookups_def by (intro raises_rules)

section \<open>Blocks of a session\<close>

lemma raises_with_session:
  assumes "raises P (session_enter pk c)" "raises P body" shows "raises P (with_session pk c body)"
  unfolding with_session_def
proof (intro raises_bind assms(1))
  fix s
  have "raises P (try_finally body (session_exit pk))" using assms(2) by (intro raises_rules)
  then show "raises P (\<lambda>w. case try_finally body (session_exit pk) (s, w) of (r, (s', w')) \<Rightarrow> (r, w'))"
    unfolding raises_def by (fastforce split: prod.splits)
qed

lemma raises_open_session:
  assumes "raises P (session_enter pk c)" "raises P body" shows "raises P (open_session pk c body)"
  unfolding open_session_def
proof (intro raises_bind assms(1))
  fix s
  have "raises P (on_failure body (session_exit pk))" using assms(2) by (intro raises_rules)
  then show "raises P (\<lambda>w. case on_failure body (session_exit pk) (s, w) of
         (Inl e, (s', w')) \<Rightarrow> (Inl e, w')
       | (Inr obj, (s', w')) \<Rightarrow> (Inr (obj, s'), w'))"
    unfolding raises_def by (fastforce split: prod.splits sum.splits)
qed

section \<open>What contains the failures of a request\<close>

text \<open>
  A predicate on exceptions that has every loss of the connection, every status and every malformed
  reply, and the text that cannot be sent, has what the request layer raises.
\<close>

locale lossy =
  fixes P :: "exn \<Rightarrow> bool"
  assumes loss: "plain_loss e \<Longrightarrow> P e" and encode: "P (PyError ''UnicodeEncodeError'')"
begin

lemma raises_send_any [raises_rules]: "raises P (send pk rq)"
  by (rule raises_mono [OF raises_send]) (auto intro: loss encode)

lemma raises_plain: "raises plain_loss m \<Longrightarrow> raises P m"
  by (rule raises_mono [where P = plain_loss]) (auto intro: loss encode)

lemma raises_malformed: "raises ((=) bad_message) m \<Longrightarrow> raises P m"
  by (rule raises_mono [where P = "(=) bad_message"]) (auto intro: loss encode)

lemmas raises_fields [raises_rules] =
  raises_plain [OF raises_receive]
  raises_malformed [OF raises_parse [OF raises_attributes_field]]
  raises_malformed [OF raises_parse [OF raises_string_field]]
  raises_malformed [OF raises_parse [OF raises_names]]

lemma raises_call [raises_rules]: "raises P (call pk rq expected)"
  unfolding call_def by (intro raises_rules)

lemma raises_rq_attributes [raises_rules]: "raises P (rq_attributes pk rq)"
  unfolding rq_attributes_def by (intro raises_rules)

lemma raises_rq_open [raises_rules]: "raises P (rq_open pk path flags)"
  unfolding rq_open_def by (intro raises_rules)

lemma raises_rq_open_directory [raises_rules]: "raises P (rq_open_directory pk path)"
  unfolding rq_open_directory_def by (intro raises_rules)


lemma raises_Download_request [raises_rules]: "raises P (Download_request pk offset n)"
  unfolding Download_request_def by (intro raises_rules)

lemma raises_fill_window [raises_rules]:
  fixes pk :: "'w paramiko"
  shows "raises P (fill_window pk)"
proof (rule raisesI)
  fix s :: "download \<times> (session \<times> 'w)" and e s'
  assume "fill_window pk s = (Inl e, s')"
  then show "P e"
  proof (induction pk s rule: fill_window.induct)
    case (1 pk d sw)
    let ?n = "min REQUEST_SIZE (dl_size d - dl_next_offset d)"
    obtain x d1 sw1 where r: "Download_request pk (dl_next_offset d) ?n (d, sw) = (x, (d1, sw1))" by (metis prod.exhaust)
    from "1.prems" r "1.IH" raisesD [OF raises_Download_request, of pk "dl_next_offset d" ?n "(d, sw)"] show ?case
      by (cases x) (auto simp: fill_window.simps [of pk d sw] Let_def split: if_splits)
  qed
qed

lemma raises_receive_data [raises_rules]: "raises P (receive_data number)"
  unfolding receive_data_def
  by (rule raises_try_except [where Q = P]) (auto intro!: raises_rules)

lemma next_reply_typed:
  assumes "next_reply pk (d, sw) = (Inl e, s')" "dl_pending d \<noteq> [] \<or> unrequested d"
    and "\<And>f. P (source_changed f)"
  shows "P e"
proof -
  obtain x d1 sw1 where f: "fill_window pk (d, sw) = (x, (d1, sw1))" by (metis prod.exhaust)
  show ?thesis
  proof (cases x)
    case (Inl e')
    with assms(1) f raisesD [OF raises_fill_window f [unfolded Inl]] show ?thesis
      by (simp add: next_reply_def bind_apply)
  next
    case (Inr u)
    with f assms(2) have "dl_pending d1 \<noteq> []" using fill_window_pending [of pk "(d, sw)" u "(d1, sw1)"] by simp
    then obtain number offset n rs where p: "dl_pending d1 = (number, offset, n) # rs"
      by (metis list.exhaust prod.exhaust)
    let ?rest = "bind (on_world (receive_data number)) (\<lambda>data.
     bind self (\<lambda>d.
       if data = [] then raise (source_changed (dl_name d))
       else if n < length data then raise bad_message
       else
         bind (only_if (length data < n)
           (bind (Download_request pk (offset + length data) (n - length data)) (\<lambda>r.
            assign (\<lambda>d. d\<lparr>dl_pending := r # dl_pending d\<rparr>)))) (\<lambda>_.
         ret data)))"
    have "raises P ?rest" by (intro raises_rules) (auto intro: loss encode assms(3))
    moreover have "?rest (d1\<lparr>dl_pending := rs\<rparr>, sw1) = (Inl e, s')"
      using assms(1) f Inr p by (simp add: next_reply_def bind_apply pop_pending_def assign_def)
    ultimately show ?thesis by (rule raisesD)
  qed
qed

lemma raises_read_loop [raises_rules]:
  fixes pk :: "'w paramiko"
  assumes changed: "\<And>f. P (source_changed f)"
  shows "raises P (read_loop pk n buffer)"
proof (rule raisesI)
  fix s :: "download \<times> (session \<times> 'w)" and e s'
  assume "read_loop pk n buffer s = (Inl e, s')"
  then show "P e"
  proof (induction pk n buffer s rule: read_loop.induct)
    case (1 pk n buffer d sw)
    let ?more = "length buffer < n \<and> (dl_leftover d \<noteq> [] \<or> dl_pending d \<noteq> [] \<or> unrequested d)"
    obtain x d1 sw1 where r: "(if dl_leftover d = [] then next_reply pk (d, sw) else (Inr (dl_leftover d), (d, sw))) =
        (x, (d1, sw1))" by (metis prod.exhaust)
    show ?case
    proof (cases ?more)
      case True
      show ?thesis
      proof (cases x)
        case (Inl e')
        with True r "1.prems" have "next_reply pk (d, sw) = (Inl e, s')" "dl_leftover d = []"
          by (auto simp: read_loop.simps [of pk n buffer d sw] split: if_splits)
        with True changed show ?thesis by (intro next_reply_typed [of pk d sw e s']) auto
      next
        case (Inr data)
        with "1.prems" True r "1.IH" [OF True r [symmetric] _ refl] show ?thesis
          by (simp add: read_loop.simps [of pk n buffer d sw] Let_def)
      qed
    next
      case False
      with "1.prems" show ?thesis by (auto simp: read_loop.simps [of pk n buffer d sw] split: if_splits)
    qed
  qed
qed

lemma raises_on_status [raises_rules]:
  "raises P m \<Longrightarrow> (\<And>code. raises P (h code)) \<Longrightarrow> raises P (on_status m h)"
  unfolding on_status_def
  by (rule raises_try_except [where Q = P]) (auto split: exn.split intro!: raises_rules)

lemma raises_send_lookups [raises_rules]: "raises P (send_lookups pk c items)"
proof (induction items)
  case Nil
  show ?case unfolding send_lookups.simps by (intro raises_rules)
next
  case (Cons a items)
  show ?case unfolding send_lookups.simps by (intro raises_rules Cons)
qed

lemma raises_classify_entry [raises_rules]: "raises P (classify_entry entry)"
  unfolding classify_entry_def by (cases entry) (auto intro!: raises_rules intro: loss encode split: option.split)

lemma raises_scan_batch [raises_rules]: "raises P (scan_batch batch acc)"
proof (induction batch arbitrary: acc)
  case Nil
  show ?case unfolding scan_batch.simps by (intro raises_rules)
next
  case (Cons a batch)
  show ?case unfolding scan_batch.simps by (intro raises_rules Cons)
qed

lemma raises_scan_page [raises_rules]: "raises P (scan_page pk c items acc)"
proof (induction pk c items acc rule: scan_page.induct)
  case (1 pk c items acc)
  show ?case unfolding scan_page.simps [of pk c items acc] by (intro raises_rules 1)
qed

lemma raises_read_page [raises_rules]: "raises P (read_page pk handle)"
  unfolding read_page_def by (intro raises_rules) (auto intro: loss encode)

lemma raises_scan_directory [raises_rules]:
  fixes pk :: "'w paramiko"
  shows "raises P (scan_directory pk c handle acc)"
proof (rule raisesI)
  fix s :: "session \<times> 'w" and e s'
  assume "scan_directory pk c handle acc s = (Inl e, s')"
  then show "P e"
  proof (induction pk c handle acc s rule: scan_directory.induct)
    case (1 pk c handle acc sw)
    obtain x sw1 where x: "read_page pk handle sw = (x, sw1)" by (rule prod.exhaust)
    note run = "1.prems" [unfolded scan_directory.simps [of pk c handle acc sw] x]
    show ?case
    proof (cases x)
      case (Inl d)
      with run raisesD [OF raises_read_page x [unfolded Inl]] show ?thesis by simp
    next
      case (Inr page)
      show ?thesis
      proof (cases page)
        case None
        with run Inr show ?thesis by simp
      next
        case (Some items)
        obtain y sw2 where y: "scan_page pk c items acc sw1 = (y, sw2)" by (rule prod.exhaust)
        show ?thesis
        proof (cases y)
          case (Inl d)
          with run Inr Some y raisesD [OF raises_scan_page y [unfolded Inl]] show ?thesis by simp
        next
          case r: (Inr r)
          from run Inr Some y r "1.IH" [OF x [symmetric] Inr Some y [symmetric] r] show ?thesis
            by (cases r) auto
        qed
      qed
    qed
  qed
qed

lemma raises_sftp_missing [raises_rules]: "raises P (sftp_missing pk c filename)"
  unfolding sftp_missing_def by (intro raises_rules)

end

end
