(* ===== verification/Sftp_Contract.thy ===== *)
theory Sftp_Contract
  imports Sftp_Errors Local_Correct Preview_Contract
begin

text \<open>
  The error contract of the SFTP connector: whatever the server answers and wherever the transport
  fails, what leaves its methods is a \<open>DataBridgeError\<close>.
\<close>

text \<open>With the one error of the sending side, and the errors of the contract.\<close>

definition sftp_exn :: "exn \<Rightarrow> bool" where
  "sftp_exn e \<longleftrightarrow> is_db_error e \<or> plain_loss e \<or> e = PyError ''UnicodeEncodeError''"

lemma sftp_exnI:
  "plain_loss e \<Longrightarrow> sftp_exn e" "is_db_error e \<Longrightarrow> sftp_exn e" "sftp_exn (PyError ''UnicodeEncodeError'')"
  by (simp_all add: sftp_exn_def)

interpretation lost: lossy sftp_exn
  by unfold_locales (auto intro: sftp_exnI)

definition typed_classified :: "classified \<Rightarrow> bool" where
  "typed_classified cl \<longleftrightarrow> (\<forall>e. if_missing cl = Some e \<or> if_denied cl = Some e \<or> if_unsupported cl = Some e \<or>
     if_lost cl = Some e \<longrightarrow> is_db_error e)"

lemma request_failure_typed:
  "typed_classified cl \<Longrightarrow> sftp_exn e \<Longrightarrow> is_db_error (request_failure table action cl e)"
  by (cases e)
    (auto simp: request_failure_def sftp_exn_def plain_loss_def typed_classified_def classify_status_def unavailable_def
      timeout_error_def split: option.splits)

lemma raises_failures:
  "raises sftp_exn m \<Longrightarrow> typed_classified cl \<Longrightarrow> raises is_db_error (failures pk action cl m)"
  unfolding failures_def by (rule raises_translate [where Q = sftp_exn]) (auto intro: request_failure_typed)

lemma typed_classifieds [simp]:
  "typed_classified unclassified"
  "typed_classified (missing_root c)"
  "is_db_error e \<Longrightarrow> typed_classified cl \<Longrightarrow> typed_classified (cl\<lparr>if_missing := Some e\<rparr>)"
  "is_db_error e \<Longrightarrow> typed_classified cl \<Longrightarrow> typed_classified (cl\<lparr>if_denied := Some e\<rparr>)"
  "is_db_error e \<Longrightarrow> typed_classified cl \<Longrightarrow> typed_classified (cl\<lparr>if_unsupported := Some e\<rparr>)"
  "is_db_error e \<Longrightarrow> typed_classified cl \<Longrightarrow> typed_classified (cl\<lparr>if_lost := Some e\<rparr>)"
  by (auto simp: typed_classified_def unclassified_def missing_root_def sftp_root_unavailable_def)

lemma is_db_error_sftp [simp]:
  "is_db_error (not_writable root)" "is_db_error (sftp_root_unavailable root)" "is_db_error (file_not_readable f)"
  "is_db_error (not_regular f)" "is_db_error (unavailable a)" "is_db_error size_unreported"
  "is_db_error (size_differs m n)" "is_db_error (missing_host_key c k)" "is_db_error (host_key_mismatch c k)"
  "is_db_error (trust_file_unusable c r)"
  by (simp_all add: not_writable_def sftp_root_unavailable_def file_not_readable_def not_regular_def
      unavailable_def size_unreported_def size_differs_def missing_host_key_def host_key_mismatch_def
      trust_file_unusable_def)

lemma readable_size_typed: "readable_size a f = Inl e \<Longrightarrow> is_db_error e"
  by (auto simp: readable_size_def split: if_splits option.splits)

lemma raises_remove_quietly:
  assumes "utf8 path \<noteq> None"
  shows "raises P (remove_quietly pk path)"
proof -
  have "raises plain_loss (bind (call pk (Remove_file path) CMD_STATUS) (\<lambda>_. ret ()))"
    unfolding call_def using assms by (intro raises_rules raises_send_encodable) simp
  then show ?thesis unfolding remove_quietly_def
    by (rule raises_try_except) (auto simp: plain_loss_def warning_def split: exn.split intro!: raises_rules)
qed

lemma raises_Download_read: "raises is_db_error (Download_read pk n)"
  unfolding Download_read_def
  by (intro raises_rules raises_failures) (auto intro: sftp_exnI simp: source_changed_def)

lemma raises_Download_release [raises_rules]: "raises P (Download_release pk)"
  unfolding Download_release_def by (intro raises_rules)

lemma raises_Upload_release [raises_rules]: "raises P (Upload_release pk)"
  unfolding Upload_release_def by (intro raises_rules)

text \<open>The methods of an upload that is not closed.\<close>

lemma acknowledge_typed:
  assumes "acknowledge (u, sw) = (Inl e, s')" "up_unacknowledged u \<noteq> []"
  shows "sftp_exn e"
  using assms
  by (auto simp: acknowledge_def bind_eq_Inl on_world_apply assign_def split: list.splits prod.splits
      dest: raisesD [OF lost.raises_plain [OF raises_receive]])

lemma acknowledge_all_typed: "acknowledge_all s = (Inl e, s') \<Longrightarrow> sftp_exn e"
proof (induction s rule: acknowledge_all.induct)
  case (1 u sw)
  obtain x s1 where a: "acknowledge (u, sw) = (x, s1)" by (rule prod.exhaust)
  from "1.prems" a "1.IH" acknowledge_typed [of u sw e s'] show ?case
    by (cases x) (auto simp: acknowledge_all.simps [of u sw] split: if_splits)
qed

lemma write_chunk_cases:
  assumes "write_chunk pk chunk (u, sw) = (r, (u', sw'))" "up_handle u \<noteq> None"
  shows "up_handle u' = up_handle u \<and> (\<forall>e. r = Inl e \<longrightarrow> sftp_exn e)"
proof -
  obtain x u1 sw1 where a: "only_if (WINDOW \<le> length (up_unacknowledged u)) acknowledge (u, sw) = (x, (u1, sw1))"
    by (metis prod.exhaust)
  have ack: "up_handle u1 = up_handle u \<and> (\<forall>e. x = Inl e \<longrightarrow> sftp_exn e)"
  proof (cases "WINDOW \<le> length (up_unacknowledged u)")
    case True
    then obtain number ns where u: "up_unacknowledged u = number # ns" by (cases "up_unacknowledged u") (auto simp: WINDOW_def)
    with a True have "u1 = u\<lparr>up_unacknowledged := ns\<rparr>"
      by (auto simp: acknowledge_def bind_apply only_if_def assign_def on_world_apply split: prod.splits sum.splits)
    moreover have "x = Inl e \<Longrightarrow> sftp_exn e" for e
      using a True u acknowledge_typed [of u sw e] by (simp add: only_if_def)
    ultimately show ?thesis by simp
  qed (use a in \<open>auto simp: only_if_def\<close>)
  show ?thesis
  proof (cases x)
    case (Inl e)
    with assms a ack show ?thesis by (auto simp: write_chunk_def bind_apply)
  next
    case (Inr v)
    obtain handle where h: "up_handle u = Some handle" using assms(2) by blast
    obtain y sw2 where sent: "send pk (Write_at handle (up_size u) chunk) sw1 = (y, sw2)" by (rule prod.exhaust)
    with assms a ack Inr h raisesD [OF lost.raises_send_any, of pk "Write_at handle (up_size u) chunk" sw1] show ?thesis
      by (cases y) (auto simp: write_chunk_def bind_apply Upload_open_def on_world_apply assign_def)
  qed
qed

lemma write_slices_cases:
  "write_slices pk data (u, sw) = (r, (u', sw')) \<Longrightarrow> up_handle u \<noteq> None \<Longrightarrow>
   up_handle u' = up_handle u \<and> (\<forall>e. r = Inl e \<longrightarrow> sftp_exn e)"
proof (induction pk data arbitrary: u sw rule: write_slices.induct)
  case (1 pk data)
  show ?case
  proof (cases "data = []")
    case True
    with 1 show ?thesis by (auto simp: write_slices.simps)
  next
    case False
    obtain x u1 sw1 where c: "write_chunk pk (take REQUEST_SIZE data) (u, sw) = (x, (u1, sw1))" by (metis prod.exhaust)
    note u1 = write_chunk_cases [OF c "1.prems"(2)]
    from "1.prems" False c u1 "1.IH" [OF False, of u1 sw1] show ?thesis
      by (cases x) (auto simp: write_slices.simps [of pk data] bind_apply)
  qed
qed

lemma Upload_write_cases:
  assumes "Upload_write pk data (u, sw) = (r, (u', sw'))" "up_handle u \<noteq> None"
  shows "up_handle u' = up_handle u \<and> (\<forall>e. r = Inl e \<longrightarrow> is_db_error e)"
proof -
  obtain x u1 sw1 where w: "write_slices pk data (u, sw) = (x, (u1, sw1))" by (metis prod.exhaust)
  from write_slices_cases [OF w assms(2)] assms(1) w show ?thesis
    by (cases x) (auto simp: Upload_write_def failures_def translate_apply bind_apply intro!: request_failure_typed)
qed

lemma acknowledge_frame:
  "acknowledge (u, sw) = (r, (u', sw')) \<Longrightarrow> \<exists>ns. u' = u\<lparr>up_unacknowledged := ns\<rparr>"
  by (cases "up_unacknowledged u")
    (auto simp: acknowledge_def bind_apply on_world_apply assign_def split: prod.splits sum.splits
      intro: exI [of _ "up_unacknowledged u"])

lemma acknowledge_all_frame:
  "acknowledge_all s = (r, (u', sw')) \<Longrightarrow> \<exists>ns. u' = (fst s)\<lparr>up_unacknowledged := ns\<rparr> \<and> (r = Inr () \<longrightarrow> ns = [])"
proof (induction s rule: acknowledge_all.induct)
  case (1 u sw)
  obtain x u1 sw1 where a: "acknowledge (u, sw) = (x, (u1, sw1))" by (metis prod.exhaust)
  obtain ns where u1: "u1 = u\<lparr>up_unacknowledged := ns\<rparr>" using acknowledge_frame [OF a] by blast
  show ?case
  proof (cases "up_unacknowledged u = []")
    case True
    with 1 show ?thesis by (auto simp: acknowledge_all.simps [of u sw] intro: exI [of _ "[]"])
  next
    case False
    show ?thesis
    proof (cases x)
      case (Inl e)
      with "1.prems" a False u1 show ?thesis by (auto simp: acknowledge_all.simps [of u sw])
    next
      case (Inr v)
      with "1.prems" a False have "acknowledge_all (u1, sw1) = (r, (u', sw'))"
        by (simp add: acknowledge_all.simps [of u sw])
      with "1.IH" [OF False a [symmetric] Inr] u1 show ?thesis by auto
    qed
  qed
qed

definition finish_requests :: "'w paramiko \<Rightarrow> ('k upload_scheme \<times> (session \<times> 'w), nat option) io" where
  "finish_requests pk = bind acknowledge_all (\<lambda>_. bind (sync_upload pk) (\<lambda>_. bind (close_upload pk) (\<lambda>_. stored_size pk)))"

lemma raises_on_world_sftp: "raises sftp_exn m \<Longrightarrow> on_world m s = (Inl e, s') \<Longrightarrow> sftp_exn e"
  by (rule raisesD [OF raises_on_world])

lemma finish_requests_typed:
  fixes pk :: "'w paramiko" and u :: "'k upload_scheme"
  assumes "finish_requests pk (u, sw) = (Inl e, s')" "up_handle u \<noteq> None"
  shows "sftp_exn e"
proof -
  obtain handle where h: "up_handle u = Some handle" using assms(2) by blast
  obtain x u1 sw1 where a: "acknowledge_all (u, sw) = (x, (u1, sw1))" by (metis prod.exhaust)
  have h1: "up_handle u1 = Some handle" using acknowledge_all_frame [OF a] h by auto
  show ?thesis
  proof (cases x)
    case (Inl d)
    with assms(1) a acknowledge_all_typed [OF a [unfolded Inl]] show ?thesis
      by (simp add: finish_requests_def bind_apply)
  next
    case (Inr v)
    let ?sync = "try_except (on_world (bind (call pk (Fsync handle) CMD_STATUS) (\<lambda>_. ret ())))
       (\<lambda>e. if e = SftpStatus SFTP_OP_UNSUPPORTED then ret () else raise e) ::
       ('k upload_scheme \<times> session \<times> 'w, unit) io"
    have sync: "raises sftp_exn ?sync"
      by (rule raises_try_except [where Q = sftp_exn]) (auto intro!: raises_rules)
    obtain y u2 sw2 where y: "?sync (u1, sw1) = (y, (u2, sw2))" by (rule prod_cases3)
    obtain z sw3 where "bind (call pk (Fsync handle) CMD_STATUS) (\<lambda>_. ret ()) sw1 = (z, sw3)" by (rule prod.exhaust)
    with y have u2: "u2 = u1" by (cases z) (auto simp: try_except_apply on_world_apply split: if_split_asm)
    have run: "sync_upload pk (u1, sw1) = (y, (u2, sw2))" using y h1 by (simp add: sync_upload_def bind_apply Upload_open_def)
    show ?thesis
    proof (cases y)
      case (Inl d)
      with assms(1) a Inr run raisesD [OF sync y [unfolded Inl]] show ?thesis
        by (simp add: finish_requests_def bind_apply)
    next
      case y: (Inr v)
      let ?rest = "bind (bind (on_world (call pk (Close_handle handle) CMD_STATUS)) (\<lambda>_. ret ())) (\<lambda>_. stored_size pk)"
      have "?rest (u1\<lparr>up_handle := None\<rparr>, sw2) = (Inl e, s')"
        using assms(1) a Inr run y u2 h1
        by (simp add: finish_requests_def bind_apply close_upload_def Upload_open_def assign_def)
      moreover have "raises sftp_exn ?rest"
        unfolding stored_size_def by (intro raises_rules)
      ultimately show ?thesis by (auto dest: raisesD)
    qed
  qed
qed

lemma Upload_finish_typed:
  assumes "Upload_finish pk (u, sw) = (Inl e, s')" "up_handle u \<noteq> None \<or> up_finished u"
  shows "is_db_error e"
proof (cases "up_finished u")
  case True
  with assms(1) show ?thesis by (simp add: Upload_finish_def bind_apply)
next
  case False
  then have h: "up_handle u \<noteq> None" using assms(2) by simp
  let ?cl = "unclassified\<lparr>if_denied := Some (not_writable (up_root u))\<rparr>"
  let ?rest = "\<lambda>stored. case stored of
           None \<Rightarrow> raise size_unreported
         | Some n \<Rightarrow>
             if n \<noteq> up_size u then raise (size_differs n (up_size u))
             else
               bind (case up_mode u of
                   None \<Rightarrow> ret ()
                 | Some m \<Rightarrow>
                     failures pk (lit ''copy the replaced file's permissions to the staging file'') unclassified
                       (bind (on_world (call pk (Set_mode (up_stage u) m) CMD_STATUS)) (\<lambda>_. ret ())))
                 (\<lambda>_. assign (\<lambda>u. u\<lparr>up_finished := True\<rparr>))"
  obtain x s1 where a: "finish_requests pk (u, sw) = (x, s1)" by (rule prod.exhaust)
  show ?thesis
  proof (cases x)
    case (Inl d)
    then have "sftp_exn d" using finish_requests_typed a h by blast
    then have "is_db_error (request_failure (pk_descriptions pk) (lit ''finish the staging file'') ?cl d)"
      by (intro request_failure_typed) simp_all
    with assms(1) a Inl False show ?thesis
      by (simp add: Upload_finish_def bind_apply failures_def translate_apply flip: finish_requests_def)
  next
    case (Inr stored)
    have "?rest stored s1 = (Inl e, s')"
      using assms(1) a Inr False
      by (simp add: Upload_finish_def bind_apply failures_def translate_apply flip: finish_requests_def)
    moreover have "raises is_db_error (?rest stored)"
      by (intro raises_rules raises_failures) simp_all
    ultimately show ?thesis by (auto dest: raisesD)
  qed
qed

section \<open>Sessions\<close>

lemma raises_trust [raises_rules]: "raises is_db_error (trust pk c)"
  by (auto simp: raises_def trust_def split: prod.splits host_keys_outcome.splits)

lemma raises_connect [raises_rules]: "raises is_db_error (connect pk c)"
  by (auto simp: raises_def connect_def connect_error_def
      split: prod.splits connect_outcome.splits option.splits if_splits)

lemma raises_open_sftp [raises_rules]: "raises is_db_error (open_sftp pk)"
  unfolding open_sftp_def
  by (intro raises_failures)
    (auto simp: raises_def intro: sftp_exnI split: prod.splits sum.splits option.splits)

lemma raises_session_enter [raises_rules]: "raises is_db_error (session_enter pk c)"
  unfolding session_enter_def by (intro raises_rules)

section \<open>Listing and status\<close>

lemma raises_root_failures: "raises sftp_exn m \<Longrightarrow> raises is_db_error (root_failures pk c m)"
  unfolding root_failures_def by (intro raises_failures) simp_all

lemma raises_sftp_list_files: "raises is_db_error (sftp_list_files pk c)"
  unfolding sftp_list_files_def by (intro raises_with_session raises_root_failures raises_rules)

lemma sftp_missing_Inr: "sftp_missing pk c filename s = (Inr x, s') \<Longrightarrow> is_db_error x"
  by (auto simp: sftp_missing_def on_status_def try_except_apply bind_apply split: prod.splits sum.splits exn.splits)

lemma raises_missing_file: "raises sftp_exn (bind (sftp_missing pk c filename) raise)"
  using raisesD [OF lost.raises_sftp_missing]
  by (auto simp: raises_def bind_eq_Inl dest: sftp_missing_Inr intro: sftp_exnI)

lemma raises_check_regular [raises_rules]: "raises sftp_exn (check_regular pk c path filename)"
  unfolding check_regular_def
  by (intro raises_bind lost.raises_on_status raises_missing_file raises_rules) (auto intro: sftp_exnI)

lemma raises_replaceable_mode [raises_rules]: "raises sftp_exn (replaceable_mode pk d f b)"
  unfolding replaceable_mode_def by (intro raises_rules) (auto intro: sftp_exnI)

lemma raises_sftp_exists [raises_rules]: "raises sftp_exn (sftp_exists pk path)"
  unfolding sftp_exists_def by (intro raises_rules) (auto intro: sftp_exnI)

lemma raises_sftp_publish [raises_rules]: "raises is_db_error (sftp_publish pk c stage d f b)"
  unfolding sftp_publish_def Let_def
  by (intro raises_rules raises_failures raises_try_except [where Q = is_db_error]) (auto intro: sftp_exnI)

section \<open>Paths\<close>

lemma utf8_append: "utf8 (s @ t) \<noteq> None \<longleftrightarrow> utf8 s \<noteq> None \<and> utf8 t \<noteq> None"
  by (simp add: utf8_None_iff)

lemma utf8_path_join: "utf8 root \<noteq> None \<Longrightarrow> utf8 n \<noteq> None \<Longrightarrow> utf8 (path_join root n) \<noteq> None"
  by (simp add: path_join_def utf8_None_iff is_surrogate_def)

lemma uuid_text_encodable:
  assumes "uuid_text i = Inr u" shows "utf8 u \<noteq> None"
proof -
  from assms obtain h where h: "list_all is_hex h" "u = hyphenated h" by (auto simp: uuid_text_def Let_def split: if_splits)
  have "\<not> is_surrogate x" if "x \<in> set u" for x
  proof -
    from that h have "x = 45 \<or> is_hex x"
      by (auto simp: hyphenated_def list_all_iff dest!: in_set_takeD in_set_dropD)
    then show ?thesis by (auto simp: is_hex_def is_digit_def is_surrogate_def)
  qed
  then show ?thesis by (auto simp: utf8_None_iff list_ex_iff)
qed

lemma stage_name_encodable: "stage_name i = Inr n \<Longrightarrow> utf8 n \<noteq> None"
proof -
  assume "stage_name i = Inr n"
  then obtain u where u: "uuid_text i = Inr u" "n = RESERVED_PREFIX @ u @ lit ''.part''" using stage_name_shape by blast
  have "utf8 RESERVED_PREFIX \<noteq> None" "utf8 (lit ''.part'') \<noteq> None" by code_simp+
  with uuid_text_encodable [OF u(1)] show ?thesis unfolding u(2) utf8_append by blast
qed

lemma probe_name_encodable: "probe_name i = Inr n \<Longrightarrow> utf8 n \<noteq> None"
proof -
  assume "probe_name i = Inr n"
  then obtain u where u: "uuid_text i = Inr u" "n = RESERVED_PREFIX @ lit ''check-'' @ u" using probe_name_shape by blast
  have "utf8 RESERVED_PREFIX \<noteq> None" "utf8 (lit ''check-'') \<noteq> None" by code_simp+
  with uuid_text_encodable [OF u(1)] show ?thesis unfolding u(2) utf8_append by blast
qed

lemma sftp_path_typed: "sftp_path c filename = Inl e \<Longrightarrow> is_db_error e"
  by (auto simp: sftp_path_def split: sum.splits dest!: validate_filename_Inl has_code_is_db_error)

section \<open>The methods\<close>

lemma raises_sftp_check_access:
  assumes "utf8 (sc_root c) \<noteq> None"
  shows "raises is_db_error (sftp_check_access pk c)"
  unfolding sftp_check_access_def
proof (intro raises_uuid4_bind raises_of_result_bind)
  fix n name
  assume "probe_name (uuid_str n) = Inr name"
  then have probe: "utf8 (path_join (sc_root c) name) \<noteq> None" by (intro utf8_path_join assms probe_name_encodable)
  have "raises sftp_exn (bind (rq_open_directory pk (sc_root c)) (close_quietly pk))"
    by (intro raises_rules)
  moreover have "raises sftp_exn
      (on_status (bind (rq_open pk (path_join (sc_root c) name) staging_flags) (\<lambda>handle. ret (Some handle)))
        (\<lambda>code. if code = SFTP_PERMISSION_DENIED then ret None else raise (SftpStatus code)))"
    by (intro raises_rules) (auto intro: sftp_exnI)
  moreover note raises_remove_quietly [OF probe]
  ultimately show "raises is_db_error (let probe = path_join (sc_root c) name in with_session pk c
         (bind (root_failures pk c (bind (rq_open_directory pk (sc_root c)) (close_quietly pk))) (\<lambda>_.
          bind
            (on_failure
              (bind
                (failures pk (lit ''test write access to '' @ [39] @ sc_root c @ [39]) (missing_root c)
                  (on_status (bind (rq_open pk probe staging_flags) (\<lambda>handle. ret (Some handle)))
                    (\<lambda>code. if code = SFTP_PERMISSION_DENIED then ret None else raise (SftpStatus code))))
                (\<lambda>opened. case opened of
                   None \<Rightarrow> ret False
                 | Some handle \<Rightarrow>
                     bind (close_quietly pk handle) (\<lambda>_.
                     bind
                       (failures pk
                         (lit ''remove the write-access probe '' @ [39] @ name @ [39] @ lit '' from '' @
                          [39] @ sc_root c @ [39])
                         (missing_root c)
                         (call pk (Remove_file probe) CMD_STATUS)) (\<lambda>_.
                     ret True))))
              (remove_quietly pk probe))
            (\<lambda>removed.
               if removed then ret \<lparr>writable = True\<rparr>
               else bind (remove_quietly pk probe) (\<lambda>_. ret \<lparr>writable = False\<rparr>)))))"
    unfolding Let_def
    by (intro raises_with_session raises_bind raises_on_failure raises_session_enter raises_root_failures raises_failures raises_if
        raises_ret raises_option raises_close_quietly lost.raises_call lost.raises_rq_open_directory) simp_all
qed (simp add: probe_name_def)

lemma raises_sftp_read_enter: "raises is_db_error (sftp_read_enter pk c filename limit)"
  unfolding sftp_read_enter_def
  by (intro raises_rules raises_open_session raises_failures)
    (auto intro: sftp_exnI dest: sftp_path_typed readable_size_typed)

lemma raises_sftp_read_exit:
  "(\<And>e. failure = Some e \<Longrightarrow> P e) \<Longrightarrow> raises P (sftp_read_exit pk failure)"
  unfolding sftp_read_exit_def end_session_def
  by (intro raises_in_session raises_rules raises_rethrow)

lemma raises_sftp_write_enter:
  assumes "utf8 (sc_root c) \<noteq> None" "stage_name i = Inr n"
  shows "raises is_db_error (sftp_write_enter pk c filename i b)"
  using utf8_path_join [OF assms(1) stage_name_encodable [OF assms(2)]]
  unfolding sftp_write_enter_def Let_def assms(2)
  by (intro raises_rules raises_of_result_bind raises_open_session raises_failures raises_remove_quietly)
    (auto dest: sftp_path_typed)

text \<open>Reads need no assumption on the root, so the preview over SFTP has the contract of its reader.\<close>

interpretation sftp_reader: typed_reader "sftp_methods pk c" is_db_error
  for pk :: "'w os_world_scheme paramiko" and c
  by unfold_locales
    (auto simp: sftp_methods_def intro: raises_sftp_read_enter raises_sftp_read_exit raises_in_session raises_Download_read
      preview_error_typed)

end
