(* ===== verification/Sftp_Streams.thy ===== *)
theory Sftp_Streams
  imports Sftp_Contract Frames
begin

text \<open>
  The streams of the SFTP connector, whatever the server answers: a download owes a number of bytes,
  which every read reduces by what it returns; an upload counts its bytes.
\<close>

section \<open>What a download owes\<close>

definition pending_bytes :: "range list \<Rightarrow> nat" where
  "pending_bytes rs = sum_list (map (\<lambda>(number, offset, n). n) rs)"

definition owed :: "download \<Rightarrow> nat" where
  "owed d = length (dl_leftover d) + pending_bytes (dl_pending d) + (dl_size d - dl_next_offset d)"

lemma pending_bytes_simps [simp]:
  "pending_bytes [] = 0" "pending_bytes (r # rs) = snd (snd r) + pending_bytes rs"
  "pending_bytes (rs @ rs') = pending_bytes rs + pending_bytes rs'"
  by (auto simp: pending_bytes_def split: prod.splits)

text \<open>What \<open>fill_window\<close> changes of the object.\<close>

lemma fill_window_owed:
  "fill_window pk s = (Inr u, s') \<Longrightarrow>
   owed (fst s') = owed (fst s) \<and> dl_leftover (fst s') = dl_leftover (fst s) \<and>
   length (dl_pending (fst s')) \<le> max WINDOW (length (dl_pending (fst s))) \<and>
   (\<exists>k rs. fst s' = (fst s)\<lparr>dl_pending := rs, dl_next_offset := k\<rparr>)"
proof (induction pk s rule: fill_window.induct)
  case (1 pk d sw)
  let ?n = "min REQUEST_SIZE (dl_size d - dl_next_offset d)"
  obtain x d1 sw1 where r: "Download_request pk (dl_next_offset d) ?n (d, sw) = (x, (d1, sw1))" by (rule prod_cases3)
  show ?case
  proof (cases "length (dl_pending d) < WINDOW \<and> unrequested d")
    case True
    then obtain range where x: "x = Inr range" using "1.prems" r by (cases x) (auto simp: fill_window.simps [of pk d sw] Let_def)
    from Download_request_Inr [OF r [unfolded x]] have d1: "d1 = d" "snd (snd range) = ?n" by (metis snd_conv)+
    let ?d = "d\<lparr>dl_pending := dl_pending d @ [range], dl_next_offset := dl_next_offset d + ?n\<rparr>"
    have "fill_window pk (?d, sw1) = (Inr u, s')"
      using "1.prems" True r x d1 by (simp add: fill_window.simps [of pk d sw] Let_def)
    with "1.IH" [OF True refl r [symmetric] x refl, unfolded d1] True d1(2) show ?thesis
      by (fastforce simp: owed_def unrequested_def)
  next
    case False
    with "1.prems" show ?thesis
      by (auto simp: fill_window.simps [of pk d sw] intro!: exI [of _ "dl_next_offset d"] exI [of _ "dl_pending d"])
  qed
qed

lemma next_reply_cases:
  assumes "next_reply pk (d, sw) = (Inr data, (d', sw'))" "dl_leftover d = []"
  shows "data \<noteq> [] \<and> owed d' + length data = owed d \<and> dl_leftover d' = [] \<and>
    length (dl_pending d') \<le> max WINDOW (length (dl_pending d))"
proof -
  from assms(1) obtain d1 sw1 where f: "fill_window pk (d, sw) = (Inr (), (d1, sw1))"
    and run: "bind pop_pending (\<lambda>(number, offset, n).
     bind (on_world (receive_data number)) (\<lambda>data.
     bind self (\<lambda>d.
       if data = [] then raise (source_changed (dl_name d))
       else if n < length data then raise bad_message
       else
         bind (only_if (length data < n)
           (bind (Download_request pk (offset + length data) (n - length data)) (\<lambda>r.
            assign (\<lambda>d. d\<lparr>dl_pending := r # dl_pending d\<rparr>)))) (\<lambda>_.
         ret data)))) (d1, sw1) = (Inr data, (d', sw'))"
    unfolding next_reply_def bind_eq_Inr by auto
  obtain number offset n rs where p: "dl_pending d1 = (number, offset, n) # rs"
    using run by (cases "dl_pending d1") (auto simp: bind_apply pop_pending_def)
  obtain x sw2 where "receive_data number sw1 = (x, sw2)" by (rule prod.exhaust)
  with run p have data: "data \<noteq> []" "length data \<le> n" and
    rest: "only_if (length data < n)
           (bind (Download_request pk (offset + length data) (n - length data)) (\<lambda>r.
            assign (\<lambda>d. d\<lparr>dl_pending := r # dl_pending d\<rparr>))) (d1\<lparr>dl_pending := rs\<rparr>, sw2) = (Inr (), (d', sw'))"
    by (auto simp: bind_apply pop_pending_def assign_apply on_world_apply split: if_splits sum.splits prod.splits)
  note d1 = fill_window_owed [OF f, unfolded fst_conv]
  show ?thesis
  proof (cases "length data < n")
    case True
    with rest obtain r where "d' = d1\<lparr>dl_pending := r # rs\<rparr>" "snd (snd r) = n - length data"
      by (auto simp: only_if_def bind_eq_Inr assign_def dest!: Download_request_Inr)
    with d1 p data True assms(2) show ?thesis by (auto simp: owed_def)
  next
    case False
    with rest have "d' = d1\<lparr>dl_pending := rs\<rparr>" by (simp add: only_if_def)
    with d1 p data False assms(2) show ?thesis by (auto simp: owed_def)
  qed
qed

lemma owed_0: "owed d = 0 \<Longrightarrow> dl_leftover d = [] \<and> \<not> unrequested d"
  by (auto simp: owed_def unrequested_def)

text \<open>The window is a bound on the pending requests, which every statement keeps.\<close>

lemma taken_and_rest:
  fixes a :: nat
  assumes "a + min (n - b) m = t" "l = min (n - (b + min m (n - b))) a"
  shows "min m (n - b) + l = min (n - b) t" "a - l = t - (min m (n - b) + l)"
  using assms by linarith+

lemma read_loop_owed:
  "read_loop pk n buffer s = (Inr result, s') \<Longrightarrow> length buffer \<le> n \<Longrightarrow> length (dl_pending (fst s)) \<le> B \<Longrightarrow>
   WINDOW \<le> B \<Longrightarrow>
   \<exists>data. result = buffer @ data \<and> length data = min (n - length buffer) (owed (fst s)) \<and>
     owed (fst s') = owed (fst s) - length data \<and> length (dl_pending (fst s')) \<le> B"
proof (induction pk n buffer s rule: read_loop.induct)
  case (1 pk n buffer d sw)
  let ?more = "length buffer < n \<and> (dl_leftover d \<noteq> [] \<or> dl_pending d \<noteq> [] \<or> unrequested d)"
  show ?case
  proof (cases ?more)
    case True
    let ?step = "if dl_leftover d = [] then next_reply pk (d, sw) else (Inr (dl_leftover d), (d, sw))"
    obtain x d1 sw1 where r: "?step = (x, (d1, sw1))" by (rule prod_cases3)
    obtain data where x: "x = Inr data"
      using "1.prems" True r by (cases x) (auto simp: read_loop.simps [of pk n buffer d sw])
    have step: "data \<noteq> [] \<and> owed d1 - length (dl_leftover d1) + length data = owed d \<and>
        length (dl_pending d1) \<le> max WINDOW (length (dl_pending d))"
    proof (cases "dl_leftover d = []")
      case True
      with r x have "next_reply pk (d, sw) = (Inr data, (d1, sw1))" by simp
      from next_reply_cases [OF this True] show ?thesis by simp
    next
      case False
      with r x show ?thesis by (auto simp: owed_def)
    qed
    then have small: "length (dl_pending d1) \<le> B" using "1.prems"(3,4) by (simp add: max_def split: if_splits)
    let ?wanted = "n - length buffer"
    let ?d = "d1\<lparr>dl_leftover := drop ?wanted data\<rparr>" and ?buffer = "buffer @ take ?wanted data"
    have run: "read_loop pk n ?buffer (?d, sw1) = (Inr result, s')"
      using "1.prems" True r x by (simp add: read_loop.simps [of pk n buffer d sw] Let_def)
    have "length ?buffer \<le> n" "length (dl_pending (fst (?d, sw1))) \<le> B" using True small by auto
    from "1.IH" [OF True r [symmetric] x refl refl run this "1.prems"(4)] obtain more where
      more: "result = ?buffer @ more" "length more = min (n - length ?buffer) (owed ?d)"
      "owed (fst s') = owed ?d - length more" "length (dl_pending (fst s')) \<le> B"
      by (auto simp only: fst_conv)
    have "owed ?d + min ?wanted (length data) = owed d" using step by (auto simp: owed_def)
    note rest = taken_and_rest [OF this more(2) [unfolded length_append length_take]]
    have len: "length (take ?wanted data @ more) = min ?wanted (owed d)"
      "owed ?d - length more = owed d - length (take ?wanted data @ more)"
      unfolding length_append length_take using rest by simp_all
    show ?thesis
      by (intro exI [of _ "take ?wanted data @ more"] conjI)
        (simp_all only: more(1,3) append_assoc fst_conv len more(4) [unfolded fst_conv])
  next
    case False
    then have "n = length buffer \<or> owed d = 0" using "1.prems"(2) by (auto simp: owed_def unrequested_def)
    with False "1.prems" show ?thesis by (auto simp: read_loop.simps [of pk n buffer d sw])
  qed
qed

lemma Download_read_owed:
  assumes "Download_read pk n (d, sw) = (Inr data, (d', sw'))"
  shows "length data = min n (owed d) \<and> owed d' = owed d - length data \<and>
    length (dl_pending d') \<le> max WINDOW (length (dl_pending d))"
proof -
  from assms have "read_loop pk n [] (d, sw) = (Inr data, (d', sw'))"
    by (auto simp: Download_read_def bind_apply failures_def translate_eq_Inr)
  from read_loop_owed [OF this, of "max WINDOW (length (dl_pending d))"] show ?thesis by auto
qed

end
