(* ===== verification/Sftp_Frames.thy ===== *)
theory Sftp_Frames
  imports Sftp_Streams
begin

text \<open>
  What the SFTP connector does to the world: nothing but the requests it sends, so an invariant that
  paramiko keeps on the requests of an operation is kept by the operation, however it ends.
\<close>

section \<open>Invariants of statements\<close>

definition maintains :: "('s \<Rightarrow> bool) \<Rightarrow> ('s, 'a) io \<Rightarrow> bool" where
  "maintains J m \<longleftrightarrow> (\<forall>s. J s \<longrightarrow> J (snd (m s)))"

named_theorems maintains_rules \<open>one rule per statement form\<close>

lemma maintainsI: "(\<And>s r s'. J s \<Longrightarrow> m s = (r, s') \<Longrightarrow> J s') \<Longrightarrow> maintains J m"
  unfolding maintains_def by (metis prod.collapse)

lemma maintainsD: "maintains J m \<Longrightarrow> m s = (r, s') \<Longrightarrow> J s \<Longrightarrow> J s'"
  by (metis maintains_def snd_conv)

lemma maintains_keeps: "(\<And>c. maintains (\<lambda>s. v s = c) m) \<Longrightarrow> keeps v m"
  by (simp add: maintains_def keeps_def)

lemma maintains_ret [maintains_rules]: "maintains J (ret x)" "maintains J (raise e)" "maintains J (get f)" "maintains J (of_result r)"
  by (simp_all add: maintains_def)

lemma maintains_self [maintains_rules]: "maintains J self"
  by (auto simp: maintains_def self_def)

lemma maintains_modify: "(\<And>s. J s \<Longrightarrow> J (f s)) \<Longrightarrow> maintains J (modify f)"
  by (simp add: maintains_def)

lemma maintains_bind [maintains_rules]:
  assumes "maintains J m" "\<And>x. maintains J (f x)" shows "maintains J (bind m f)"
proof (rule maintainsI)
  fix s r s' assume J: "J s" and run: "bind m f s = (r, s')"
  obtain x s1 where s1: "m s = (x, s1)" by (rule prod.exhaust)
  from run s1 maintainsD [OF assms(1) s1 J] maintainsD [OF assms(2)] show "J s'"
    by (cases x) (auto simp: bind_apply)
qed

lemma maintains_bind_self [maintains_rules]:
  assumes "\<And>obj w. J (obj, w) \<Longrightarrow> maintains J (f obj)" shows "maintains J (bind self f)"
proof (rule maintainsI)
  fix s r s' assume "J s" "bind self f s = (r, s')"
  then show "J s'" using maintainsD [OF assms, of "fst s" "snd s" s r s'] by (cases s) (simp add: bind_apply)
qed

lemma maintains_try_except [maintains_rules]:
  assumes "maintains J m" "\<And>e. maintains J (h e)" shows "maintains J (try_except m h)"
proof (rule maintainsI)
  fix s r s' assume J: "J s" and run: "try_except m h s = (r, s')"
  obtain x s1 where s1: "m s = (x, s1)" by (rule prod.exhaust)
  from run s1 maintainsD [OF assms(1) s1 J] maintainsD [OF assms(2)] show "J s'"
    by (cases x) (auto simp: try_except_apply)
qed

lemma maintains_try_finally [maintains_rules]:
  assumes "maintains J m" "maintains J c" shows "maintains J (try_finally m c)"
proof (rule maintainsI)
  fix s r s' assume J: "J s" and run: "try_finally m c s = (r, s')"
  obtain x s1 where s1: "m s = (x, s1)" by (rule prod.exhaust)
  obtain y s2 where s2: "c s1 = (y, s2)" by (rule prod.exhaust)
  from run s1 s2 maintainsD [OF assms(1) s1 J] maintainsD [OF assms(2) s2] show "J s'"
    by (cases y) (auto simp: try_finally_apply)
qed

lemma maintains_translate [maintains_rules]: "maintains J m \<Longrightarrow> maintains J (translate f m)"
  unfolding translate_def by (intro maintains_rules)

lemma maintains_only_if [maintains_rules]: "(b \<Longrightarrow> maintains J m) \<Longrightarrow> maintains J (only_if b m)"
  by (simp add: only_if_def maintains_ret)

lemma maintains_if [maintains_rules]: "(b \<Longrightarrow> maintains J m) \<Longrightarrow> (\<not> b \<Longrightarrow> maintains J m') \<Longrightarrow> maintains J (if b then m else m')"
  by simp

lemma maintains_option [maintains_rules]:
  "maintains J m \<Longrightarrow> (\<And>y. x = Some y \<Longrightarrow> maintains J (f y)) \<Longrightarrow> maintains J (case x of None \<Rightarrow> m | Some y \<Rightarrow> f y)"
  by (cases x) simp_all

lemma maintains_prod [maintains_rules]:
  "(\<And>a b. x = (a, b) \<Longrightarrow> maintains J (f a b)) \<Longrightarrow> maintains J (case x of (a, b) \<Rightarrow> f a b)"
  by (cases x) simp_all

lemma maintains_sum [maintains_rules]:
  "(\<And>a. maintains J (f a)) \<Longrightarrow> (\<And>b. maintains J (g b)) \<Longrightarrow> maintains J (case x of Inl a \<Rightarrow> f a | Inr b \<Rightarrow> g b)"
  by (cases x) simp_all

lemma maintains_list [maintains_rules]:
  "maintains J m \<Longrightarrow> (\<And>y ys. maintains J (f y ys)) \<Longrightarrow> maintains J (case x of [] \<Rightarrow> m | y # ys \<Rightarrow> f y ys)"
  by (cases x) simp_all

lemma maintains_on_world [maintains_rules]:
  "maintains W m \<Longrightarrow> maintains (\<lambda>x. W (snd x)) (on_world m)"
  "maintains W m \<Longrightarrow> maintains (\<lambda>x. I (fst x) \<and> W (snd x)) (on_world m)"
  by (auto simp: maintains_def on_world_def split: prod.splits)

lemma maintains_assign [maintains_rules]:
  "maintains (\<lambda>x. W (snd x)) (assign g)"
  "(\<And>obj. I obj \<Longrightarrow> I (g obj)) \<Longrightarrow> maintains (\<lambda>x. I (fst x) \<and> W (snd x)) (assign g)"
  by (auto simp: maintains_def assign_def)

lemma bind_of_result: "bind (of_result (Inr x)) f = f x" "bind (of_result (Inl e)) f = raise e"
  by (simp_all add: fun_eq_iff bind_apply)

section \<open>Paramiko and the world\<close>

text \<open>\<open>honours pk W ok\<close>: what paramiko does keeps \<open>W\<close>, for the requests that are \<open>ok\<close>.\<close>

definition honours :: "'w paramiko \<Rightarrow> ('w \<Rightarrow> bool) \<Rightarrow> (request \<Rightarrow> bool) \<Rightarrow> bool" where
  "honours pk W ok \<longleftrightarrow>
     (\<forall>n rq w. ok rq \<longrightarrow> W w \<longrightarrow> W (snd (pk_respond pk n rq w))) \<and>
     (\<forall>w. W w \<longrightarrow> W (snd (pk_open_sftp pk w)) \<and> W (snd (pk_close_sftp pk w)) \<and> W (snd (pk_disconnect pk w))) \<and>
     (\<forall>w f. W w \<longrightarrow> W (snd (pk_load_host_keys pk f w))) \<and>
     (\<forall>w h p u pw. W w \<longrightarrow> W (snd (pk_connect pk h p u pw w)))"

text \<open>The connector also logs and draws identifiers.\<close>

definition unlogged :: "('w os_world_scheme \<Rightarrow> bool) \<Rightarrow> bool" where
  "unlogged W \<longleftrightarrow> (\<forall>w l us. W w \<longrightarrow> W (w\<lparr>log := l\<rparr>) \<and> W (w\<lparr>uuids := us\<rparr>))"

lemma maintains_warning: "unlogged W \<Longrightarrow> maintains W (warning ev)"
  unfolding warning_def by (rule maintains_modify) (simp add: unlogged_def)

lemma maintains_uuid4: "unlogged W \<Longrightarrow> maintains W uuid4"
  by (rule maintainsI) (auto simp: uuid4_def unlogged_def split: list.splits)

lemma maintains_failures [maintains_rules]: "maintains J m \<Longrightarrow> maintains J (failures pk action cl m)"
  unfolding failures_def by (rule maintains_translate)

lemma maintains_on_failure [maintains_rules]: "maintains J m \<Longrightarrow> maintains J c \<Longrightarrow> maintains J (on_failure m c)"
  unfolding on_failure_def by (intro maintains_rules)

lemma maintains_exn [maintains_rules]:
  "(\<And>a b c. maintains v (f1 a b c)) \<Longrightarrow> (\<And>a. maintains v (f2 a)) \<Longrightarrow> (\<And>a. maintains v (f3 a)) \<Longrightarrow>
   (\<And>a b. maintains v (f4 a b)) \<Longrightarrow> (\<And>a. maintains v (f5 a)) \<Longrightarrow> (\<And>a. maintains v (f6 a)) \<Longrightarrow>
   maintains v (case e of DataBridgeError a b c \<Rightarrow> f1 a b c | StartupError a \<Rightarrow> f2 a | OSError a \<Rightarrow> f3 a
     | SqliteError a b \<Rightarrow> f4 a b | SftpStatus a \<Rightarrow> f5 a | PyError a \<Rightarrow> f6 a)"
  by (cases e) simp_all

lemma maintains_on_status [maintains_rules]: "maintains J m \<Longrightarrow> (\<And>code. maintains J (h code)) \<Longrightarrow> maintains J (on_status m h)"
  unfolding on_status_def by (intro maintains_rules)

section \<open>The request layer\<close>

abbreviation world_ok :: "('w \<Rightarrow> bool) \<Rightarrow> session \<times> 'w \<Rightarrow> bool" where
  "world_ok W \<equiv> \<lambda>x. W (snd x)"

lemma maintains_watched [maintains_rules]: "maintains J m \<Longrightarrow> maintains J (watched m)"
  unfolding watched_def by (intro maintains_rules)

lemma maintains_send [maintains_rules]:
  assumes "honours pk W ok" "ok rq" shows "maintains (world_ok W) (send pk rq)"
proof -
  have "maintains (world_ok W) (async_request pk rq)"
    using assms by (intro maintainsI) (auto simp: async_request_def Let_def honours_def split: if_splits prod.splits link_event.splits;
      metis snd_conv)
  then show ?thesis unfolding send_def by (intro maintains_rules)
qed

lemma read_response_world: "read_response x = (r, x') \<Longrightarrow> snd x' = snd x"
  by (auto simp: read_response_def split: prod.splits link_event.splits list.splits)

lemma await_world: "await number x = (r, x') \<Longrightarrow> snd x' = snd x"
proof (induction number x rule: await.induct)
  case (1 number s w)
  obtain y sw where y: "read_response (s, w) = (y, sw)" by (rule prod.exhaust)
  from "1.prems" y "1.IH" read_response_world [OF y] show ?case
    by (cases y) (auto simp: await.simps [of number s w] split: if_splits)
qed

lemma maintains_await [maintains_rules]: "maintains (world_ok W) (await number)"
  by (rule maintainsI) (use await_world in fastforce)

lemma maintains_pop_reply [maintains_rules]: "maintains (world_ok W) (pop_reply number)"
  by (rule maintainsI) (auto simp: pop_reply_def split: option.splits)

lemma maintains_receive [maintains_rules]: "maintains (world_ok W) (receive number expected)"
  unfolding receive_def by (intro maintains_rules)

lemma maintains_call [maintains_rules]:
  "honours pk W ok \<Longrightarrow> ok rq \<Longrightarrow> maintains (world_ok W) (call pk rq expected)"
  unfolding call_def by (intro maintains_rules)

lemma maintains_ignore [maintains_rules]: "maintains (world_ok W) (ignore number)"
  unfolding ignore_def by (rule maintains_modify) (auto split: prod.splits option.splits)

lemma maintains_ignore_all [maintains_rules]: "maintains (world_ok W) (ignore_all ns)"
proof (induction ns)
  case Nil
  show ?case unfolding ignore_all.simps by (intro maintains_rules)
next
  case (Cons n ns)
  show ?case unfolding ignore_all.simps by (intro maintains_rules Cons)
qed

lemma maintains_parse [maintains_rules]: "maintains J (parse field r)"
  unfolding parse_def by (intro maintains_rules)

lemma maintains_rq [maintains_rules]:
  "honours pk W ok \<Longrightarrow> ok rq \<Longrightarrow> maintains (world_ok W) (rq_attributes pk rq)"
  "honours pk W ok \<Longrightarrow> ok (Open_file path fl) \<Longrightarrow> maintains (world_ok W) (rq_open pk path fl)"
  "honours pk W ok \<Longrightarrow> ok (Open_directory path) \<Longrightarrow> maintains (world_ok W) (rq_open_directory pk path)"
  unfolding rq_attributes_def rq_open_def rq_open_directory_def by (intro maintains_rules; assumption)+

lemma maintains_close_quietly [maintains_rules]:
  "honours pk W ok \<Longrightarrow> ok (Close_handle handle) \<Longrightarrow> maintains (world_ok W) (close_quietly pk handle)"
  unfolding close_quietly_def suppress_lost_def by (intro maintains_rules)

lemma maintains_remove_quietly [maintains_rules]:
  "honours pk W ok \<Longrightarrow> unlogged W \<Longrightarrow> ok (Remove_file path) \<Longrightarrow> maintains (world_ok W) (remove_quietly pk path)"
  unfolding remove_quietly_def by (intro maintains_rules maintains_warning)

end
