(* ===== verification/Sftp_Quiet.thy ===== *)
theory Sftp_Quiet
  imports Sftp_Frames
begin

text \<open>
  The requests of each operation of the SFTP connector, as invariants of the world: \<open>harmless\<close>
  requests change no file of the server, and the write block sends besides them requests for its
  staging file and one rename.
\<close>

fun harmless :: "request \<Rightarrow> bool" where
  "harmless (Open_file p flags) = (flags = SFTP_FLAG_READ)"
| "harmless (Remove_file p) = False"
| "harmless (Rename_file p q) = False"
| "harmless (Set_mode p m) = False"
| "harmless (Posix_rename p q) = False"
| "harmless _ = True"

definition allows :: "(request \<Rightarrow> bool) \<Rightarrow> bool" where
  "allows ok \<longleftrightarrow> (\<forall>rq. harmless rq \<longrightarrow> ok rq)"

lemma allowsD [simp]:
  assumes "allows ok"
  shows "ok (Open_file p SFTP_FLAG_READ)" "ok (Open_directory p)" "ok (Close_handle h)" "ok (Fstat h)" "ok (Stat p)"
    "ok (Lstat p)" "ok (Read_at h i n)" "ok (Write_at h i bs)" "ok (Read_directory h)" "ok (Fsync h)"
  using assms by (simp_all add: allows_def)

section \<open>Sessions\<close>

lemma maintains_trust [maintains_rules]: "honours pk W ok \<Longrightarrow> maintains W (trust pk c)"
  by (rule maintainsI) (auto simp: trust_def honours_def split: prod.splits host_keys_outcome.splits; metis snd_conv)

lemma maintains_connect [maintains_rules]: "honours pk W ok \<Longrightarrow> maintains W (connect pk c)"
  by (rule maintainsI) (auto simp: connect_def honours_def split: prod.splits option.splits; metis snd_conv)

lemma maintains_disconnect [maintains_rules]: "honours pk W ok \<Longrightarrow> maintains W (disconnect pk)"
  by (rule maintainsI) (auto simp: disconnect_def honours_def)

lemma maintains_session_exit [maintains_rules]:
  assumes "honours pk W ok" shows "maintains (world_ok W) (session_exit pk)"
proof -
  have "maintains W (bind (\<lambda>w. (Inr (), snd (pk_close_sftp pk w))) (\<lambda>_. disconnect pk))"
    using assms by (intro maintains_rules) (auto simp: maintains_def honours_def)
  then show ?thesis unfolding session_exit_def by (rule maintains_on_world)
qed

lemma maintains_open_sftp [maintains_rules]: "honours pk W ok \<Longrightarrow> maintains W (open_sftp pk)"
  unfolding open_sftp_def
  by (rule maintains_failures, rule maintainsI)
    (auto simp: honours_def split: prod.splits sum.splits option.splits; metis snd_conv)

lemma maintains_session_enter [maintains_rules]: "honours pk W ok \<Longrightarrow> maintains W (session_enter pk c)"
  unfolding session_enter_def by (intro maintains_rules; assumption)

lemma maintains_with_session [maintains_rules]:
  assumes "honours pk W ok" "maintains (world_ok W) body" shows "maintains W (with_session pk c body)"
  unfolding with_session_def
proof (rule maintains_bind [OF maintains_session_enter [OF assms(1)]])
  fix s
  have "maintains (world_ok W) (try_finally body (session_exit pk))"
    using assms by (intro maintains_rules)
  from maintainsD [OF this, of "(s, _)"]
  show "maintains W (\<lambda>w. case try_finally body (session_exit pk) (s, w) of (r, (s', w')) \<Rightarrow> (r, w'))"
    by (intro maintainsI) (auto split: prod.splits)
qed

lemma maintains_open_session [maintains_rules]:
  assumes "honours pk W ok" "maintains (world_ok W) body" shows "maintains W (open_session pk c body)"
  unfolding open_session_def
proof (rule maintains_bind [OF maintains_session_enter [OF assms(1)]])
  fix s
  have "maintains (world_ok W) (on_failure body (session_exit pk))"
    using assms by (intro maintains_rules)
  from maintainsD [OF this, of "(s, _)"]
  show "maintains W (\<lambda>w. case on_failure body (session_exit pk) (s, w) of
         (Inl e, (s', w')) \<Rightarrow> (Inl e, w') | (Inr obj, (s', w')) \<Rightarrow> (Inr (obj, s'), w'))"
    by (intro maintainsI) (auto split: prod.splits sum.splits)
qed

text \<open>A method of an object that holds its session.\<close>

abbreviation object_ok :: "('o \<Rightarrow> bool) \<Rightarrow> ('w \<Rightarrow> bool) \<Rightarrow> 'o \<times> (session \<times> 'w) \<Rightarrow> bool" where
  "object_ok I W \<equiv> \<lambda>x. I (fst x) \<and> world_ok W (snd x)"

lemma maintains_in_session:
  "maintains (object_ok I W) m \<Longrightarrow> maintains (\<lambda>x. I (fst (fst x)) \<and> W (snd x)) (in_session m)"
  by (rule maintainsI) (auto simp: in_session_def split: prod.splits dest: maintainsD)

section \<open>Downloads\<close>

lemma maintains_Download_request [maintains_rules]:
  "honours pk W ok \<Longrightarrow> allows ok \<Longrightarrow> maintains (object_ok I W) (Download_request pk offset n)"
  unfolding Download_request_def by (intro maintains_rules) (assumption | simp)+

lemma maintains_fill_window [maintains_rules]:
  assumes "honours pk W ok" "allows ok" shows "maintains (object_ok (\<lambda>_. True) W) (fill_window pk)"
proof (rule maintainsI)
  fix x r x' assume "object_ok (\<lambda>_. True) W x" "fill_window pk x = (r, x')"
  then show "object_ok (\<lambda>_. True) W x'"
    using assms
  proof (induction pk x rule: fill_window.induct)
    case (1 pk d sw)
    let ?n = "min REQUEST_SIZE (dl_size d - dl_next_offset d)"
    obtain y d1 sw1 where r: "Download_request pk (dl_next_offset d) ?n (d, sw) = (y, (d1, sw1))" by (rule prod_cases3)
    have W: "object_ok (\<lambda>_. True) W (d1, sw1)"
      using maintainsD [OF maintains_Download_request [OF "1.prems"(3,4)] r, of "\<lambda>_. True"] "1.prems"(1) by simp
    from "1.prems" r W "1.IH" show ?case
      by (cases y) (auto simp: fill_window.simps [of pk d sw] Let_def split: if_splits)
  qed
qed

lemma maintains_receive_data [maintains_rules]: "maintains (world_ok W) (receive_data number)"
  unfolding receive_data_def by (intro maintains_rules)

lemma maintains_next_reply [maintains_rules]:
  "honours pk W ok \<Longrightarrow> allows ok \<Longrightarrow> maintains (object_ok (\<lambda>_. True) W) (next_reply pk)"
  unfolding next_reply_def pop_pending_def by (intro maintains_rules) (assumption | simp)+

lemma maintains_read_loop [maintains_rules]:
  assumes "honours pk W ok" "allows ok" shows "maintains (object_ok (\<lambda>_. True) W) (read_loop pk n buffer)"
proof (rule maintainsI)
  fix x r x' assume "object_ok (\<lambda>_. True) W x" "read_loop pk n buffer x = (r, x')"
  then show "object_ok (\<lambda>_. True) W x'"
    using assms
  proof (induction pk n buffer x rule: read_loop.induct)
    case (1 pk n buffer d sw)
    let ?step = "if dl_leftover d = [] then next_reply pk (d, sw) else (Inr (dl_leftover d), (d, sw))"
    obtain y d1 sw1 where r: "?step = (y, (d1, sw1))" by (rule prod_cases3)
    have W: "object_ok (\<lambda>_. True) W (d1, sw1)"
      using maintainsD [OF maintains_next_reply [OF "1.prems"(3,4)], of "(d, sw)" y "(d1, sw1)"] "1.prems"(1) r
      by (auto split: if_splits)
    from "1.prems" r W "1.IH" [OF _ r [symmetric]] show ?case
      by (cases y) (auto simp: read_loop.simps [of pk n buffer d sw] Let_def split: if_split_asm)
  qed
qed

lemma maintains_Download_read [maintains_rules]:
  "honours pk W ok \<Longrightarrow> allows ok \<Longrightarrow> maintains (object_ok (\<lambda>_. True) W) (Download_read pk n)"
  unfolding Download_read_def by (intro maintains_rules)

lemma maintains_Download_release [maintains_rules]:
  "honours pk W ok \<Longrightarrow> allows ok \<Longrightarrow> maintains (object_ok (\<lambda>_. True) W) (Download_release pk)"
  unfolding Download_release_def by (intro maintains_rules) (assumption | simp)+

section \<open>Uploads\<close>

text \<open>The parts of an upload that no operation changes.\<close>

definition upload_of :: "pystr \<Rightarrow> 'k \<Rightarrow> 'k upload_scheme \<Rightarrow> bool" where
  "upload_of stage x u \<longleftrightarrow> up_stage u = stage \<and> upload.more u = x"

lemma upload_of_update [simp]:
  "upload_of stage x (u\<lparr>up_handle := h\<rparr>) = upload_of stage x u"
  "upload_of stage x (u\<lparr>up_unacknowledged := ns\<rparr>) = upload_of stage x u"
  "upload_of stage x (u\<lparr>up_finished := b\<rparr>) = upload_of stage x u"
  "upload_of stage x (u\<lparr>up_size := n\<rparr>) = upload_of stage x u"
  by (simp_all add: upload_of_def)

lemma maintains_Upload_open [maintains_rules]: "maintains J Upload_open"
  unfolding Upload_open_def by (intro maintains_rules)

lemma maintains_acknowledge [maintains_rules]: "maintains (object_ok (upload_of stage x) W) acknowledge"
  unfolding acknowledge_def by (intro maintains_rules) simp_all

lemma maintains_write_chunk [maintains_rules]:
  "honours pk W ok \<Longrightarrow> allows ok \<Longrightarrow> maintains (object_ok (upload_of stage x) W) (write_chunk pk chunk)"
  unfolding write_chunk_def by (intro maintains_rules) (assumption | simp)+

lemma maintains_write_slices [maintains_rules]:
  assumes "honours pk W ok" "allows ok" shows "maintains (object_ok (upload_of stage x) W) (write_slices pk data)"
  using assms
proof (induction pk data rule: write_slices.induct)
  case (1 pk data)
  then show ?case unfolding write_slices.simps [of pk data] by (intro maintains_rules 1) assumption+
qed

lemma maintains_acknowledge_all [maintains_rules]: "maintains (object_ok (upload_of stage x) W) acknowledge_all"
proof (rule maintainsI)
  fix u r u' assume "object_ok (upload_of stage x) W u" "acknowledge_all u = (r, u')"
  then show "object_ok (upload_of stage x) W u'"
  proof (induction u rule: acknowledge_all.induct)
    case (1 u sw)
    obtain y s1 where a: "acknowledge (u, sw) = (y, s1)" by (rule prod.exhaust)
    have J: "object_ok (upload_of stage x) W s1" by (rule maintainsD [OF maintains_acknowledge a]) (rule "1.prems"(1))
    from "1.prems" a J "1.IH" show ?case
      by (cases y) (auto simp: acknowledge_all.simps [of u sw] split: if_splits)
  qed
qed

lemma maintains_Upload_write [maintains_rules]:
  "honours pk W ok \<Longrightarrow> allows ok \<Longrightarrow> maintains (object_ok (upload_of stage x) W) (Upload_write pk data)"
  unfolding Upload_write_def by (intro maintains_rules)

lemma maintains_Upload_finish [maintains_rules]:
  "honours pk W ok \<Longrightarrow> allows ok \<Longrightarrow> (\<And>m. ok (Set_mode stage m)) \<Longrightarrow>
   maintains (object_ok (upload_of stage x) W) (Upload_finish pk)"
  unfolding Upload_finish_def sync_upload_def close_upload_def stored_size_def
  by (intro maintains_rules) (assumption | simp add: upload_of_def)+

lemma maintains_Upload_release [maintains_rules]:
  "honours pk W ok \<Longrightarrow> allows ok \<Longrightarrow> maintains (object_ok (upload_of stage x) W) (Upload_release pk)"
  unfolding Upload_release_def by (intro maintains_rules) (assumption | simp)+

section \<open>The methods\<close>

lemma maintains_rethrow [maintains_rules]: "maintains J (rethrow failure)"
  by (cases failure) (simp_all add: maintains_ret)

lemma maintains_sftp_read_enter:
  "honours pk W ok \<Longrightarrow> allows ok \<Longrightarrow> maintains W (sftp_read_enter pk c filename limit)"
  unfolding sftp_read_enter_def check_regular_def sftp_missing_def
  by (intro maintains_rules) (assumption | simp)+

lemma maintains_sftp_read_exit:
  "honours pk W ok \<Longrightarrow> allows ok \<Longrightarrow> maintains (\<lambda>x. W (snd x)) (sftp_read_exit pk failure)"
  unfolding sftp_read_exit_def end_session_def
  by (rule maintains_in_session [where I = "\<lambda>_. True", simplified]) (use maintains_Download_release [of pk W ok] in \<open>auto intro!: maintains_rules\<close>)

lemma maintains_sftp_write_enter:
  assumes "honours pk W ok" "allows ok" "unlogged W"
    and "\<And>name. stage_name i = Inr name \<Longrightarrow>
      ok (Open_file (path_join (sc_root c) name) staging_flags) \<and> ok (Remove_file (path_join (sc_root c) name))"
  shows "maintains W (sftp_write_enter pk c filename i b)"
proof (cases "stage_name i")
  case (Inl e)
  show ?thesis unfolding sftp_write_enter_def Inl bind_of_result by (intro maintains_rules)
next
  case (Inr name)
  show ?thesis
    unfolding sftp_write_enter_def Inr bind_of_result Let_def replaceable_mode_def
    by (intro maintains_rules) (use assms(1-3) assms(4) [OF Inr] in \<open>(assumption | simp)+\<close>)
qed

end
