(* ===== verification/Sftp_Trace.thy ===== *)
theory Sftp_Trace
  imports Sftp_Quiet
begin

text \<open>
  The requests of a write block of the SFTP connector, in the order they leave: for any server, any
  failure of the transport and any failure of the body.
\<close>

section \<open>The requests that leave\<close>

text \<open>The world has a list of the requests that were sent, and nothing else appends to it.\<close>

definition records :: "'w os_world_scheme paramiko \<Rightarrow> ('w os_world_scheme \<Rightarrow> request list) \<Rightarrow> bool" where
  "records pk sent \<longleftrightarrow>
     (\<forall>n rq w. sent (snd (pk_respond pk n rq w)) = sent w @ [rq]) \<and>
     (\<forall>w. sent (snd (pk_open_sftp pk w)) = sent w \<and> sent (snd (pk_close_sftp pk w)) = sent w \<and>
          sent (snd (pk_disconnect pk w)) = sent w) \<and>
     (\<forall>w f. sent (snd (pk_load_host_keys pk f w)) = sent w) \<and>
     (\<forall>w h p u pw. sent (snd (pk_connect pk h p u pw w)) = sent w) \<and>
     (\<forall>w l us. sent (w\<lparr>log := l\<rparr>) = sent w \<and> sent (w\<lparr>uuids := us\<rparr>) = sent w)"

text \<open>What was sent since \<open>t\<close> is \<open>ok\<close>.\<close>

definition since :: "('w \<Rightarrow> request list) \<Rightarrow> (request \<Rightarrow> bool) \<Rightarrow> request list \<Rightarrow> 'w \<Rightarrow> bool" where
  "since sent ok t w \<longleftrightarrow> (\<exists>ts. sent w = t @ ts \<and> list_all ok ts)"

lemma since_honours: "records pk sent \<Longrightarrow> honours pk (since sent ok t) ok"
  unfolding honours_def records_def since_def by fastforce

lemma since_unlogged: "records pk sent \<Longrightarrow> unlogged (since sent ok t)"
  unfolding unlogged_def records_def since_def by simp

lemma same_honours: "records pk sent \<Longrightarrow> honours pk (\<lambda>w. sent w = t) (\<lambda>_. False)"
  unfolding honours_def records_def by simp

lemma same_unlogged: "records pk sent \<Longrightarrow> unlogged (\<lambda>w. sent w = t)"
  unfolding unlogged_def records_def by simp

lemma sinceD: "since sent ok t w \<Longrightarrow> \<exists>ts. sent w = t @ ts \<and> list_all ok ts"
  by (simp add: since_def)

lemma since_self [simp]: "since sent ok (sent w) w"
  by (simp add: since_def)

section \<open>Single requests\<close>

lemma watched_eq: "fst (watched m x) = Inr y \<longleftrightarrow> fst (m x) = Inr y" "snd (watched m x) = snd (m x)"
  by (auto simp: watched_def try_except_apply bind_apply split: prod.splits sum.splits)

lemma send_sent:
  assumes "records pk sent" "send pk rq (s, w) = (r, (s', w'))"
  shows "(sent w' = sent w \<or> sent w' = sent w @ [rq]) \<and> (\<forall>n. r = Inr n \<longrightarrow> sent w' = sent w @ [rq])"
proof -
  obtain x where x: "async_request pk rq (s, w) = (x, (s', w'))" "\<And>n. r = Inr n \<Longrightarrow> x = Inr n"
    using assms(2) watched_eq [of "async_request pk rq" "(s, w)"]
    by (metis fst_conv prod.collapse send_def snd_conv)
  have respond: "sent w2 = sent w1 @ [rq]" if "pk_respond pk n rq w1 = (ps, w2)" for n w1 ps w2
    using assms(1) that unfolding records_def by (metis snd_conv)
  from x(1) have "(sent w' = sent w \<or> sent w' = sent w @ [rq]) \<and> (\<forall>n. x = Inr n \<longrightarrow> sent w' = sent w @ [rq])"
    by (auto simp: async_request_def Let_def dest: respond split: if_splits prod.splits link_event.splits)
  with x(2) show ?thesis by blast
qed

lemma receive_world: "receive number expected x = (r, x') \<Longrightarrow> snd x' = snd x"
proof -
  assume run: "receive number expected x = (r, x')"
  have "maintains (world_ok (\<lambda>w. w = snd x)) (receive number expected)" by (rule maintains_receive)
  from maintainsD [OF this run] show ?thesis by simp
qed

lemma call_sent:
  assumes "records pk sent" "call pk rq expected (s, w) = (r, (s', w'))"
  shows "(sent w' = sent w \<or> sent w' = sent w @ [rq]) \<and> (\<forall>x. r = Inr x \<longrightarrow> sent w' = sent w @ [rq])"
proof -
  obtain y s1 w1 where y: "send pk rq (s, w) = (y, (s1, w1))" by (rule prod_cases3)
  note sent1 = send_sent [OF assms(1) y]
  show ?thesis
  proof (cases y)
    case (Inl e)
    with assms(2) y sent1 show ?thesis by (auto simp: call_def bind_apply)
  next
    case (Inr n)
    with assms(2) y sent1 show ?thesis by (auto simp: call_def bind_apply dest!: receive_world)
  qed
qed

lemma call_Inr_sent: "records pk sent \<Longrightarrow> call pk rq expected (s, w) = (Inr x, (s', w')) \<Longrightarrow> sent w' = sent w @ [rq]"
  using call_sent by blast

lemma call_status_sent:
  assumes "records pk sent" "call pk rq expected (s, w) = (Inl (SftpStatus code), (s', w'))"
  shows "sent w' = sent w @ [rq]"
proof -
  obtain y s1 w1 where y: "send pk rq (s, w) = (y, (s1, w1))" by (rule prod_cases3)
  have "y \<noteq> Inl (SftpStatus code)"
  proof -
    have "raises (\<lambda>e. e \<noteq> SftpStatus code) (async_request pk rq)"
      by (auto simp: raises_def async_request_def Let_def elim: lost_exn.elims
          split: if_splits prod.splits link_event.splits)
    then have "raises (\<lambda>e. e \<noteq> SftpStatus code) (send pk rq)"
      unfolding send_def watched_def
      by (rule raises_try_except) (auto intro!: raises_rules simp: timeout_error_def)
    with y show ?thesis by (auto dest: raisesD)
  qed
  with assms(2) y obtain n where n: "y = Inr n" by (cases y) (auto simp: call_def bind_apply)
  with assms(2) y send_sent [OF assms(1) y] show ?thesis by (auto simp: call_def bind_apply dest!: receive_world)
qed

section \<open>Publication\<close>

text \<open>
  The requests that change no file of the server but the staging file, and the one that publishes.
\<close>

definition spares :: "pystr \<Rightarrow> request \<Rightarrow> bool" where
  "spares stage rq \<longleftrightarrow> harmless rq \<or> rq = Open_file stage staging_flags \<or> rq = Remove_file stage \<or>
     (\<exists>m. rq = Set_mode stage m)"

definition publish_request :: "bool \<Rightarrow> pystr \<Rightarrow> pystr \<Rightarrow> request" where
  "publish_request overwrite stage destination =
     (if overwrite then Posix_rename stage destination else Rename_file stage destination)"

lemma spares_allows [simp]: "allows harmless" "allows (spares stage)"
  by (simp_all add: allows_def spares_def)

lemma spares_stage [simp]:
  "spares stage (Open_file stage staging_flags)" "spares stage (Remove_file stage)" "spares stage (Set_mode stage m)"
  by (simp_all add: spares_def)

lemma harmless_spares: "list_all harmless ts \<Longrightarrow> list_all (spares stage) ts"
  by (auto simp: spares_def elim: list.pred_mono_strong)

text \<open>What a statement that keeps \<open>since\<close> sends.\<close>

lemma maintains_since_sent:
  assumes "\<And>t. maintains (world_ok (since sent ok t)) m" "m (s, w) = (r, (s', w'))"
  shows "\<exists>ts. sent w' = sent w @ ts \<and> list_all ok ts"
  using maintainsD [OF assms(1) assms(2), of "sent w"] by (auto simp: since_def)

lemma maintains_exists [maintains_rules]:
  "honours pk W ok \<Longrightarrow> allows ok \<Longrightarrow> maintains (world_ok W) (sftp_exists pk path)"
  unfolding sftp_exists_def by (intro maintains_rules) (assumption | simp)+

definition refuse_existing :: "'w paramiko \<Rightarrow> pystr \<Rightarrow> pystr \<Rightarrow> (session \<times> 'w, unit) io" where
  "refuse_existing pk destination filename =
     bind (sftp_exists pk destination) (\<lambda>b. only_if b (raise (destination_exists filename)))"

lemma refuse_existing_sent:
  assumes "records pk sent" "failures pk action cl (refuse_existing pk destination filename) (s, w) = (r, (s', w'))"
  shows "\<exists>ts. sent w' = sent w @ ts \<and> list_all harmless ts"
proof -
  have "maintains (world_ok (since sent harmless t)) (failures pk action cl (refuse_existing pk destination filename))" for t
    unfolding refuse_existing_def by (intro maintains_rules) (rule since_honours [OF assms(1)] | simp)+
  from maintains_since_sent [OF this assms(2)] show ?thesis .
qed

lemma publish_request_sent:
  fixes pk :: "'w os_world_scheme paramiko"
  assumes "records pk sent"
    "failures pk action cl (bind (if overwrite then call pk (Posix_rename stage destination) CMD_STATUS
       else call pk (Rename_file stage destination) CMD_STATUS) (\<lambda>_. ret ())) (s, w) = (r, (s', w'))"
  shows "(sent w' = sent w \<or> sent w' = sent w @ [publish_request overwrite stage destination]) \<and>
    (r = Inr () \<longrightarrow> sent w' = sent w @ [publish_request overwrite stage destination])"
proof -
  obtain x s1 w1 where x: "call pk (publish_request overwrite stage destination) CMD_STATUS (s, w) = (x, (s1, w1))"
    by (rule prod_cases3)
  with assms(2) have "w' = w1" "r = Inr () \<longrightarrow> (\<exists>y. x = Inr y)"
    by (cases overwrite; cases x; auto simp: failures_def translate_apply bind_apply publish_request_def)+
  with call_sent [OF assms(1) x] show ?thesis by auto
qed

lemma sftp_publish_sent:
  assumes "records pk sent" "sftp_publish pk c stage destination filename overwrite (s, w) = (r, (s', w'))"
  shows "\<exists>pre pub post. sent w' = sent w @ pre @ pub @ post \<and> list_all harmless (pre @ post) \<and>
    (pub = [] \<or> pub = [publish_request overwrite stage destination]) \<and> (r = Inr () \<longrightarrow> pub \<noteq> [])"
proof -
  let ?inspect = "lit ''inspect '' @ [39] @ filename @ [39]"
  let ?denied = "unclassified\<lparr>if_denied := Some (not_writable (sc_root c))\<rparr>"
  define pub where "pub cl = failures pk (lit ''publish '' @ [39] @ filename @ [39]) cl
      (bind (if overwrite then call pk (Posix_rename stage destination) CMD_STATUS
        else call pk (Rename_file stage destination) CMD_STATUS) (\<lambda>_. ret ()))" for cl
  obtain cl where run: "bind (only_if (\<not> overwrite) (failures pk ?inspect ?denied (refuse_existing pk destination filename)))
      (\<lambda>_. try_except (pub cl) (\<lambda>e. bind
            (only_if (\<not> overwrite \<and> has_code SFTP_OPERATION_FAILED e)
              (failures pk ?inspect unclassified (refuse_existing pk destination filename)))
            (\<lambda>_. raise e))) (s, w) = (r, (s', w'))"
    using assms(2) unfolding sftp_publish_def Let_def refuse_existing_def [symmetric] pub_def by blast
  obtain x s1 w1 where x: "only_if (\<not> overwrite) (failures pk ?inspect ?denied (refuse_existing pk destination filename)) (s, w) =
      (x, (s1, w1))" by (rule prod_cases3)
  then obtain pre where pre: "sent w1 = sent w @ pre" "list_all harmless pre"
    using refuse_existing_sent [OF assms(1), of ?inspect ?denied destination filename s w] by (auto simp: only_if_def split: if_splits)
  show ?thesis
  proof (cases x)
    case (Inl e)
    with run x pre have "sent w' = sent w @ pre @ [] @ []" "list_all harmless (pre @ [])" "r \<noteq> Inr ()"
      by (auto simp: bind_apply)
    then show ?thesis by blast
  next
    case (Inr u)
    obtain y s2 w2 where y: "pub cl (s1, w1) = (y, (s2, w2))" by (rule prod_cases3)
    note sent2 = publish_request_sent [OF assms(1) y [unfolded pub_def]]
    show ?thesis
    proof (cases y)
      case (Inr v)
      with run x y \<open>x = Inr u\<close> sent2 pre
      have "sent w' = sent w @ pre @ [publish_request overwrite stage destination] @ []" "list_all harmless (pre @ [])"
        by (auto simp: bind_apply try_except_apply)
      then show ?thesis by blast
    next
      case (Inl e)
      obtain z s3 w3 where z: "only_if (\<not> overwrite \<and> has_code SFTP_OPERATION_FAILED e)
          (failures pk ?inspect unclassified (refuse_existing pk destination filename)) (s2, w2) = (z, (s3, w3))"
        by (rule prod_cases3)
      then obtain post where post: "sent w3 = sent w2 @ post" "list_all harmless post"
        using refuse_existing_sent [OF assms(1), of ?inspect unclassified destination filename s2 w2]
        by (auto simp: only_if_def split: if_splits)
      from run x y z Inl Inr have "w' = w3" "r \<noteq> Inr ()"
        by (cases z; auto simp: bind_apply try_except_apply)+
      moreover from sent2 pre post have "sent w3 = sent w @ pre @ [] @ post \<or>
          sent w3 = sent w @ pre @ [publish_request overwrite stage destination] @ post" "list_all harmless (pre @ post)"
        by auto
      ultimately show ?thesis by blast
    qed
  qed
qed

section \<open>The staging file\<close>

text \<open>What a list of write requests makes of a file, and the requests of one write.\<close>

fun splice :: "bytes \<Rightarrow> request \<Rightarrow> bytes" where
  "splice old (Write_at h offset new) = take offset old @ new @ drop (offset + length new) old"
| "splice old _ = old"

definition writes_to :: "bytes \<Rightarrow> request list \<Rightarrow> bool" where
  "writes_to h = list_all (\<lambda>rq. \<exists>offset data. rq = Write_at h offset data \<and> length data \<le> REQUEST_SIZE)"

lemma writes_to_simps [simp]:
  "writes_to h []" "writes_to h (ts @ us) \<longleftrightarrow> writes_to h ts \<and> writes_to h us"
  by (simp_all add: writes_to_def)

lemma world_unchanged:
  "acknowledge x = (r, x') \<Longrightarrow> snd (snd x') = snd (snd x)"
  "acknowledge_all x = (r, x') \<Longrightarrow> snd (snd x') = snd (snd x)"
  using maintainsD [OF maintains_acknowledge [of "up_stage (fst x)" "upload.more (fst x)" "\<lambda>w. w = snd (snd x)"], of x r x']
    maintainsD [OF maintains_acknowledge_all [of "up_stage (fst x)" "upload.more (fst x)" "\<lambda>w. w = snd (snd x)"], of x r x']
  by (simp_all add: upload_of_def)

lemma write_chunk_sent:
  assumes "records pk sent" "write_chunk pk chunk (u, (s, w)) = (Inr x, (u', (s', w')))"
  shows "\<exists>h. up_handle u = Some h \<and> up_handle u' = Some h \<and> up_size u' = up_size u + length chunk \<and>
    up_finished u' = up_finished u \<and> up_mode u' = up_mode u \<and> sent w' = sent w @ [Write_at h (up_size u) chunk]"
proof -
  obtain y u1 s1 w1 where a: "only_if (WINDOW \<le> length (up_unacknowledged u)) acknowledge (u, (s, w)) = (y, (u1, (s1, w1)))"
    by (rule prod_cases4)
  then have u1: "w1 = w" "\<exists>ns. u1 = u\<lparr>up_unacknowledged := ns\<rparr>"
    using world_unchanged(1) [of "(u, (s, w))" y "(u1, (s1, w1))"] acknowledge_frame [of u "(s, w)" y u1 "(s1, w1)"]
    by (auto simp: only_if_def split: if_splits intro: exI [of _ "up_unacknowledged u"])
  have y: "y = Inr ()" using assms(2) a by (cases y) (auto simp: write_chunk_def bind_apply)
  with assms(2) a u1 obtain h n where h: "up_handle u = Some h"
    "send pk (Write_at h (up_size u) chunk) (s1, w1) = (Inr n, (s', w'))"
    "u' = u1\<lparr>up_unacknowledged := up_unacknowledged u1 @ [n], up_size := up_size u1 + length chunk\<rparr>"
    by (auto simp: write_chunk_def bind_apply Upload_open_def on_world_apply split: option.splits prod.splits sum.splits)
  from send_sent [OF assms(1) h(2)] h u1 show ?thesis by auto
qed

lemma write_slices_sent:
  "write_slices pk data (u, (s, w)) = (Inr x, (u', (s', w'))) \<Longrightarrow> records pk sent \<Longrightarrow> up_handle u = Some h \<Longrightarrow>
   \<exists>ts. up_handle u' = Some h \<and> up_size u' = up_size u + length data \<and> up_finished u' = up_finished u \<and>
    up_mode u' = up_mode u \<and> sent w' = sent w @ ts \<and> writes_to h ts \<and>
    (\<forall>old. length old = up_size u \<longrightarrow> foldl splice old ts = old @ data)"
proof (induction pk data arbitrary: u s w rule: write_slices.induct)
  case (1 pk data)
  show ?case
  proof (cases "data = []")
    case True
    with 1 show ?thesis by (auto simp: write_slices.simps intro!: exI [of _ "[]"])
  next
    case False
    let ?part = "take REQUEST_SIZE data"
    obtain y u1 s1 w1 where c: "write_chunk pk ?part (u, (s, w)) = (y, (u1, (s1, w1)))" by (rule prod_cases4)
    have y: "y = Inr ()" using "1.prems"(1) False c by (cases y) (auto simp: write_slices.simps [of pk data] bind_apply)
    have rest: "write_slices pk (drop REQUEST_SIZE data) (u1, (s1, w1)) = (Inr x, (u', (s', w')))"
      using "1.prems"(1) False c y by (simp add: write_slices.simps [of pk data] bind_apply)
    note one = write_chunk_sent [OF "1.prems"(2) c [unfolded y]]
    with "1.prems"(3) have h: "up_handle u1 = Some h" "sent w1 = sent w @ [Write_at h (up_size u) ?part]"
      "up_size u1 = up_size u + length ?part" "up_finished u1 = up_finished u" "up_mode u1 = up_mode u" by auto
    from "1.IH" [OF False rest "1.prems"(2) h(1)] obtain ts where
      ts: "up_handle u' = Some h" "up_size u' = up_size u1 + length (drop REQUEST_SIZE data)"
      "up_finished u' = up_finished u1" "up_mode u' = up_mode u1" "sent w' = sent w1 @ ts" "writes_to h ts"
      "\<And>old. length old = up_size u1 \<Longrightarrow> foldl splice old ts = old @ drop REQUEST_SIZE data" by blast
    have "foldl splice old (Write_at h (up_size u) ?part # ts) = old @ data" if "length old = up_size u" for old
      using ts(7) [of "old @ ?part"] that h(3) by simp
    with ts h show ?thesis
      by (intro exI [of _ "Write_at h (up_size u) ?part # ts"]) (auto simp: writes_to_def)
  qed
qed

lemma Upload_write_sent:
  assumes "Upload_write pk data (u, (s, w)) = (Inr x, (u', (s', w')))" "records pk sent" "up_handle u = Some h"
  shows "\<exists>ts. up_handle u' = Some h \<and> up_size u' = up_size u + length data \<and> up_finished u' = up_finished u \<and>
    up_mode u' = up_mode u \<and> sent w' = sent w @ ts \<and> writes_to h ts \<and>
    (\<forall>old. length old = up_size u \<longrightarrow> foldl splice old ts = old @ data)"
proof -
  from assms(1) have "write_slices pk data (u, (s, w)) = (Inr x, (u', (s', w')))"
    by (simp add: Upload_write_def bind_apply failures_def translate_eq_Inr)
  from write_slices_sent [OF this assms(2,3)] show ?thesis .
qed

section \<open>The end of the staging file\<close>

text \<open>
  An upload that is finished had all its writes acknowledged, and the server reported as many bytes
  as were written.
\<close>

definition mode_requests :: "pystr \<Rightarrow> nat option \<Rightarrow> request list" where
  "mode_requests stage m = (case m of None \<Rightarrow> [] | Some m \<Rightarrow> [Set_mode stage m])"

lemma sync_upload_sent:
  assumes "records pk sent" "sync_upload pk (u, (s, w)) = (Inr x, (u', (s', w')))" "up_handle u = Some h"
  shows "u' = u \<and> sent w' = sent w @ [Fsync h]"
proof -
  obtain y s1 w1 where y: "call pk (Fsync h) CMD_STATUS (s, w) = (y, (s1, w1))" by (rule prod_cases3)
  with assms(2,3) have "u' = u" "w' = w1" "(\<exists>v. y = Inr v) \<or> y = Inl (SftpStatus SFTP_OP_UNSUPPORTED)"
    by (cases y; auto simp: sync_upload_def bind_apply Upload_open_def try_except_apply on_world_apply split: if_splits)+
  with call_sent [OF assms(1) y] call_status_sent [OF assms(1), of "Fsync h" CMD_STATUS s w] y show ?thesis by auto
qed

lemma finish_requests_sent:
  assumes "records pk sent" "finish_requests pk (u, (s, w)) = (Inr stored, (u', (s', w')))"
  shows "\<exists>h. up_handle u = Some h \<and> u' = u\<lparr>up_handle := None, up_unacknowledged := []\<rparr> \<and>
    sent w' = sent w @ [Fsync h, Close_handle h, Stat (up_stage u)]"
proof -
  from assms(2) obtain u1 s1 w1 u2 s2 w2 u3 s3 w3 where
    a: "acknowledge_all (u, (s, w)) = (Inr (), (u1, (s1, w1)))" and
    b: "sync_upload pk (u1, (s1, w1)) = (Inr (), (u2, (s2, w2)))" and
    c: "close_upload pk (u2, (s2, w2)) = (Inr (), (u3, (s3, w3)))" and
    d: "stored_size pk (u3, (s3, w3)) = (Inr stored, (u', (s', w')))"
    unfolding finish_requests_def bind_eq_Inr by auto
  have u1: "u1 = u\<lparr>up_unacknowledged := []\<rparr>" "w1 = w"
    using acknowledge_all_frame [OF a] world_unchanged(2) [OF a] by auto
  obtain h where h: "up_handle u1 = Some h"
    using b by (cases "up_handle u1") (auto simp: sync_upload_def bind_apply Upload_open_def)
  note u2 = sync_upload_sent [OF assms(1) b h]
  have u3: "u3 = u2\<lparr>up_handle := None\<rparr>" "sent w3 = sent w2 @ [Close_handle h]"
    using c h u2 by (auto simp: close_upload_def bind_eq_Inr Upload_open_def dest!: call_Inr_sent [OF assms(1)])
  have "u' = u3" "sent w' = sent w3 @ [Stat (up_stage u3)]"
    using d by (auto simp: stored_size_def rq_attributes_def parse_def bind_eq_Inr dest!: call_Inr_sent [OF assms(1)])
  with u1 u2 u3 h show ?thesis by auto
qed

lemma Upload_finish_sent:
  assumes "records pk sent" "Upload_finish pk (u, (s, w)) = (Inr x, (u', (s', w')))" "\<not> up_finished u"
  shows "\<exists>h. up_handle u = Some h \<and> up_finished u' \<and> up_handle u' = None \<and> up_unacknowledged u' = [] \<and>
    up_stage u' = up_stage u \<and> upload.more u' = upload.more u \<and>
    sent w' = sent w @ [Fsync h, Close_handle h, Stat (up_stage u)] @ mode_requests (up_stage u) (up_mode u)"
proof -
  obtain y u1 s1 w1 where y: "finish_requests pk (u, (s, w)) = (y, (u1, (s1, w1)))" by (rule prod_cases4)
  have "\<exists>n. y = Inr (Some n)"
    using assms(2,3) y by (cases y; cases "projr y")
      (auto simp: Upload_finish_def bind_apply failures_def translate_apply simp flip: finish_requests_def)
  then obtain n where n: "y = Inr (Some n)" ..
  from finish_requests_sent [OF assms(1) y [unfolded n]] obtain h where h: "up_handle u = Some h"
    "u1 = u\<lparr>up_handle := None, up_unacknowledged := []\<rparr>" "sent w1 = sent w @ [Fsync h, Close_handle h, Stat (up_stage u)]"
    by blast
  show ?thesis
  proof (cases "up_mode u")
    case None
    with assms(2,3) y n h show ?thesis
      by (auto simp: Upload_finish_def bind_apply failures_def translate_apply mode_requests_def
          simp flip: finish_requests_def split: if_splits)
  next
    case (Some m)
    obtain z s2 w2 where z: "call pk (Set_mode (up_stage u) m) CMD_STATUS (s1, w1) = (z, (s2, w2))" by (rule prod_cases3)
    with Some assms(2,3) y n h call_sent [OF assms(1) z] show ?thesis
      by (cases z) (auto simp: Upload_finish_def bind_apply failures_def translate_apply mode_requests_def on_world_apply
          simp flip: finish_requests_def split: if_splits)
  qed
qed

section \<open>The exit of the write block\<close>

text \<open>What a statement of the block sends, from an invariant of the object and the world.\<close>

lemma maintains_object_sent:
  assumes "\<And>t. maintains (object_ok I (since sent ok t)) m" "m (u, (s, w)) = (r, (u', (s', w')))" "I u"
  shows "I u' \<and> (\<exists>ts. sent w' = sent w @ ts \<and> list_all ok ts)"
  using maintainsD [OF assms(1) assms(2), of "sent w"] assms(3) by (auto simp: since_def)

lemma finish_spares:
  assumes "records pk sent" "Upload_finish pk (k, (s, w)) = (r, (k', (s', w')))"
  shows "upload_of (up_stage k) (upload.more k) k' \<and>
    (\<exists>ts. sent w' = sent w @ ts \<and> list_all (spares (up_stage k)) ts)"
proof -
  have "maintains (object_ok (upload_of (up_stage k) (upload.more k)) (since sent (spares (up_stage k)) t)) (Upload_finish pk)" for t
    by (rule maintains_Upload_finish [OF since_honours [OF assms(1)]]) simp_all
  from maintains_object_sent [OF this assms(2)] show ?thesis by (simp add: upload_of_def)
qed

definition give_up :: "'w os_world_scheme paramiko \<Rightarrow> ('k upload_scheme \<times> (session \<times> 'w os_world_scheme), unit) io" where
  "give_up pk = bind (Upload_release pk) (\<lambda>_. bind self (\<lambda>k. on_world (remove_quietly pk (up_stage k))))"

lemma give_up_spares:
  assumes "records pk sent" "give_up pk (k, (s, w)) = (r, (k', (s', w')))"
  shows "\<exists>ts. sent w' = sent w @ ts \<and> list_all (spares (up_stage k)) ts"
proof -
  have "maintains (object_ok (upload_of (up_stage k) (upload.more k)) (since sent (spares (up_stage k)) t)) (give_up pk)" for t
    unfolding give_up_def
    by (intro maintains_rules)
      (rule since_honours [OF assms(1)] since_unlogged [OF assms(1)] | simp add: upload_of_def)+
  from maintains_object_sent [OF this assms(2)] show ?thesis by (simp add: upload_of_def)
qed

definition complete :: "'w os_world_scheme paramiko \<Rightarrow> sftp_connector \<Rightarrow>
  (sftp_write \<times> (session \<times> 'w os_world_scheme), unit) io" where
  "complete pk c =
     bind (Upload_finish pk) (\<lambda>_.
     bind self (\<lambda>k.
     on_world (sftp_publish pk c (up_stage k) (sw_destination k) (sw_filename k) (sw_overwrite k))))"

definition rename_of :: "sftp_write \<Rightarrow> request" where
  "rename_of k = publish_request (sw_overwrite k) (up_stage k) (sw_destination k)"

lemma rename_of_cong: "upload_of (up_stage k) (upload.more k) k' \<Longrightarrow> rename_of k' = rename_of k \<and> up_stage k' = up_stage k"
  by (cases k; cases k') (simp add: upload_of_def rename_of_def)

text \<open>Requests that spare all but the staging file, around at most one publication.\<close>

definition publishing :: "sftp_write \<Rightarrow> request list \<Rightarrow> bool" where
  "publishing k ts \<longleftrightarrow> (\<exists>pre pub post. ts = pre @ pub @ post \<and> list_all (spares (up_stage k)) (pre @ post) \<and>
     (pub = [] \<or> pub = [rename_of k]))"

lemma publishingI: "list_all (spares (up_stage k)) ts \<Longrightarrow> publishing k ts"
  unfolding publishing_def by (rule exI [of _ ts], rule exI [of _ "[]"], rule exI [of _ "[]"]) simp

lemma publishing_after:
  assumes "publishing k ts" "list_all (spares (up_stage k)) us" shows "publishing k (us @ ts)" "publishing k (ts @ us)"
proof -
  from assms(1) obtain pre pub post where "ts = pre @ pub @ post" "list_all (spares (up_stage k)) (pre @ post)"
    "pub = [] \<or> pub = [rename_of k]" by (auto simp: publishing_def)
  with assms(2) have "us @ ts = (us @ pre) @ pub @ post" "ts @ us = pre @ pub @ (post @ us)"
    "list_all (spares (up_stage k)) ((us @ pre) @ post)" "list_all (spares (up_stage k)) (pre @ (post @ us))"
    "pub = [] \<or> pub = [rename_of k]" by auto
  then show "publishing k (us @ ts)" "publishing k (ts @ us)" unfolding publishing_def by blast+
qed

lemma complete_sent:
  assumes "records pk sent" "complete pk c (k, (s, w)) = (r, (k', (s', w')))"
  shows "up_stage k' = up_stage k \<and> (\<exists>ts. sent w' = sent w @ ts \<and> publishing k ts)"
proof -
  obtain y k1 s1 w1 where y: "Upload_finish pk (k, (s, w)) = (y, (k1, (s1, w1)))" by (rule prod_cases4)
  from finish_spares [OF assms(1) y] obtain ts where ts: "upload_of (up_stage k) (upload.more k) k1"
    "sent w1 = sent w @ ts" "list_all (spares (up_stage k)) ts" by blast
  note same = rename_of_cong [OF ts(1)]
  show ?thesis
  proof (cases y)
    case (Inl e)
    with assms(2) y ts same show ?thesis by (auto simp: complete_def bind_apply intro: publishingI)
  next
    case (Inr u)
    with assms(2) y have p: "k' = k1"
      "sftp_publish pk c (up_stage k1) (sw_destination k1) (sw_filename k1) (sw_overwrite k1) (s1, w1) = (r, (s', w'))"
      by (auto simp: complete_def bind_apply)
    from sftp_publish_sent [OF assms(1) p(2)] obtain pre pub post where
      q: "sent w' = sent w1 @ pre @ pub @ post" "list_all harmless (pre @ post)" "pub = [] \<or> pub = [rename_of k1]"
      unfolding rename_of_def by blast
    then have "publishing k (pre @ pub @ post)"
      using same harmless_spares [OF q(2)] unfolding publishing_def by metis
    from publishing_after(1) [OF this ts(3)] q(1) ts(2) p(1) same show ?thesis by simp
  qed
qed

lemma session_exit_sent: "records pk sent \<Longrightarrow> session_exit pk (s, w) = (r, (s', w')) \<Longrightarrow> r = Inr () \<and> sent w' = sent w"
  by (auto simp: session_exit_def disconnect_def bind_apply records_def on_world_apply)

lemma write_exit_unfold:
  "sftp_write_exit pk c failure =
     end_session pk (on_failure (bind (rethrow failure) (\<lambda>_. complete pk c)) (give_up pk))"
  unfolding sftp_write_exit_def complete_def give_up_def ..

lemma end_session_cases:
  assumes "records pk sent" "end_session pk m ((k, s), w) = (r, ((k', s'), w'))"
  obtains s1 w1 where "m (k, (s, w)) = (r, (k', (s1, w1)))" "sent w' = sent w1"
proof -
  obtain y k1 s1 w1 where y: "m (k, (s, w)) = (y, (k1, (s1, w1)))" by (rule prod_cases4)
  obtain z s2 w2 where z: "session_exit pk (s1, w1) = (z, (s2, w2))" by (rule prod_cases3)
  from session_exit_sent [OF assms(1) z] assms(2) y z show thesis
    by (intro that [of s1 w1]) (auto simp: end_session_def in_session_def try_finally_apply on_world_apply)
qed

lemma sftp_write_exit_sent:
  assumes "records pk sent" "sftp_write_exit pk c failure ((k, s), w) = (r, ((k', s'), w'))"
  shows "\<exists>ts. sent w' = sent w @ ts \<and> publishing k ts \<and> (failure \<noteq> None \<longrightarrow> list_all (spares (up_stage k)) ts)"
proof -
  obtain s1 w1 where run: "on_failure (bind (rethrow failure) (\<lambda>_. complete pk c)) (give_up pk) (k, (s, w)) =
      (r, (k', (s1, w1)))" and w': "sent w' = sent w1"
    using end_session_cases [OF assms(1) assms(2) [unfolded write_exit_unfold]] by blast
  show ?thesis
  proof (cases failure)
    case (Some e)
    obtain y k2 s2 w2 where y: "give_up pk (k, (s, w)) = (y, (k2, (s2, w2)))" by (rule prod_cases4)
    with run Some have "w1 = w2" by (cases y) (auto simp: on_failure_def try_except_apply bind_apply)
    with give_up_spares [OF assms(1) y] w' Some show ?thesis by (auto intro: publishingI)
  next
    case None
    obtain x k1 s2 w2 where x: "complete pk c (k, (s, w)) = (x, (k1, (s2, w2)))" by (rule prod_cases4)
    from complete_sent [OF assms(1) x] obtain ts where ts: "up_stage k1 = up_stage k" "sent w2 = sent w @ ts" "publishing k ts"
      by blast
    show ?thesis
    proof (cases x)
      case (Inr u)
      with run x None have "w1 = w2" by (simp add: on_failure_def try_except_apply bind_apply)
      with ts w' None show ?thesis by auto
    next
      case (Inl e)
      obtain y k3 s3 w3 where y: "give_up pk (k1, (s2, w2)) = (y, (k3, (s3, w3)))" by (rule prod_cases4)
      with run x Inl None have "w1 = w3" by (cases y) (auto simp: on_failure_def try_except_apply bind_apply)
      with give_up_spares [OF assms(1) y] ts w' None publishing_after(2) [OF ts(3)] show ?thesis by auto
    qed
  qed
qed

text \<open>An exit that returns.\<close>

lemma refuse_existing_Inr:
  assumes "records pk sent" "failures pk action cl (refuse_existing pk destination filename) (s, w) = (Inr x, (s', w'))"
  shows "sent w' = sent w @ [Stat destination]"
proof -
  obtain y s1 w1 where y: "call pk (Stat destination) CMD_ATTRS (s, w) = (y, (s1, w1))" by (rule prod_cases3)
  have "y = Inl (SftpStatus SFTP_NO_SUCH_FILE) \<and> w' = w1"
  proof (cases y)
    case (Inl e)
    with assms(2) y show ?thesis
      by (cases e) (auto simp: failures_def translate_eq_Inr refuse_existing_def sftp_exists_def on_status_def
          rq_attributes_def bind_apply try_except_apply only_if_apply split: if_splits)
  next
    case (Inr v)
    have "rq_attributes pk (Stat destination) (s, w) = (Inr a, (s2, w2)) \<Longrightarrow>
        refuse_existing pk destination filename (s, w) = (Inl (destination_exists filename), (s2, w2))" for a s2 w2
      by (simp add: refuse_existing_def sftp_exists_def on_status_def bind_apply try_except_apply only_if_apply)
    with assms(2) y Inr show ?thesis
      using raisesD [OF raises_parse [OF raises_attributes_field], of v "(s1, w1)"]
      by (cases "fst (attributes_field v)")
        (auto simp: failures_def translate_eq_Inr refuse_existing_def sftp_exists_def on_status_def parse_def
          rq_attributes_def bind_apply try_except_apply only_if_apply bad_message_def status_codes
          split: if_splits exn.splits)
  qed
  with call_status_sent [OF assms(1)] y show ?thesis by blast
qed

lemma sftp_publish_Inr:
  assumes "records pk sent" "sftp_publish pk c stage destination filename overwrite (s, w) = (Inr x, (s', w'))"
  shows "sent w' = sent w @ (if overwrite then [] else [Stat destination]) @ [publish_request overwrite stage destination]"
proof (cases overwrite)
  case True
  obtain z s2 w2 where z: "call pk (Posix_rename stage destination) CMD_STATUS (s, w) = (z, (s2, w2))" by (rule prod_cases3)
  with assms(2) True have "w' = w2 \<and> (\<exists>v. z = Inr v)"
    by (cases z) (auto simp: sftp_publish_def Let_def bind_apply only_if_apply try_except_apply failures_def translate_apply)
  with call_sent [OF assms(1) z] True show ?thesis by (auto simp: publish_request_def)
next
  case False
  let ?refuse = "failures pk (lit ''inspect '' @ [39] @ filename @ [39])
    (unclassified\<lparr>if_denied := Some (not_writable (sc_root c))\<rparr>) (refuse_existing pk destination filename)"
  obtain y s1 w1 where y: "?refuse (s, w) = (y, (s1, w1))" by (rule prod_cases3)
  obtain z s2 w2 where z: "call pk (Rename_file stage destination) CMD_STATUS (s1, w1) = (z, (s2, w2))" by (rule prod_cases3)
  from assms(2) False y have y': "y = Inr ()"
    by (cases y) (auto simp: sftp_publish_def Let_def bind_apply only_if_apply simp flip: refuse_existing_def)
  with assms(2) False y z have "\<exists>v. z = Inr v"
    by (cases z) (auto simp: sftp_publish_def Let_def bind_apply only_if_apply try_except_apply failures_def translate_apply
        simp flip: refuse_existing_def split: prod.splits sum.splits)
  moreover from this assms(2) False y y' z have "w' = w2"
    by (auto simp: sftp_publish_def Let_def bind_apply only_if_apply try_except_apply failures_def translate_apply
        simp flip: refuse_existing_def)
  ultimately show ?thesis
    using refuse_existing_Inr [OF assms(1) y [unfolded y']] call_sent [OF assms(1) z] False
    by (auto simp: publish_request_def)
qed

lemma sftp_write_exit_Inr:
  assumes "records pk sent" "sftp_write_exit pk c failure ((k, s), w) = (Inr x, ((k', s'), w'))"
  shows "failure = None \<and> (\<exists>ts. sent w' = sent w @ ts @ (if sw_overwrite k then [] else [Stat (sw_destination k)]) @ [rename_of k] \<and>
    (if up_finished k then ts = []
     else \<exists>h. up_handle k = Some h \<and>
       ts = [Fsync h, Close_handle h, Stat (up_stage k)] @ mode_requests (up_stage k) (up_mode k)))"
proof -
  obtain s1 w1 where run: "on_failure (bind (rethrow failure) (\<lambda>_. complete pk c)) (give_up pk) (k, (s, w)) =
      (Inr x, (k', (s1, w1)))" and w': "sent w' = sent w1"
    using end_session_cases [OF assms(1) assms(2) [unfolded write_exit_unfold]] by blast
  then have f: "failure = None" and "complete pk c (k, (s, w)) = (Inr x, (k', (s1, w1)))"
    by (cases failure; auto simp: on_failure_def try_except_apply bind_apply split: prod.splits sum.splits)+
  then obtain k2 s2 w2 where y: "Upload_finish pk (k, (s, w)) = (Inr (), (k2, (s2, w2)))" and
    p: "sftp_publish pk c (up_stage k2) (sw_destination k2) (sw_filename k2) (sw_overwrite k2) (s2, w2) = (Inr x, (s1, w1))"
    by (auto simp: complete_def bind_eq_Inr)
  have "upload_of (up_stage k) (upload.more k) k2" using finish_spares [OF assms(1) y] by blast
  then have k2: "up_stage k2 = up_stage k" "sw_destination k2 = sw_destination k" "sw_overwrite k2 = sw_overwrite k"
    by (cases k; cases k2; simp add: upload_of_def)+
  show ?thesis
  proof (cases "up_finished k")
    case True
    with y have "w2 = w" by (simp add: Upload_finish_def bind_apply)
    with sftp_publish_Inr [OF assms(1) p] w' k2 True f show ?thesis by (simp add: rename_of_def)
  next
    case False
    with sftp_publish_Inr [OF assms(1) p] Upload_finish_sent [OF assms(1) y False] w' k2 f show ?thesis
      by (auto simp: rename_of_def)
  qed
qed

section \<open>The write block\<close>

lemma sftp_write_enter_spares:
  assumes "records pk sent" "sftp_write_enter pk c filename sid overwrite w = (r, w')"
    and "stage_name sid = Inr name" "stage = path_join (sc_root c) name"
  shows "\<exists>ts. sent w' = sent w @ ts \<and> list_all (spares stage) ts"
proof -
  have "maintains (since sent (spares stage) (sent w)) (sftp_write_enter pk c filename sid overwrite)"
    by (rule maintains_sftp_write_enter [OF since_honours [OF assms(1)] _ since_unlogged [OF assms(1)]])
      (simp_all add: assms(3,4))
  from maintainsD [OF this assms(2)] show ?thesis by (simp add: since_def)
qed

lemma open_session_Inr:
  assumes "open_session pk c body w = (Inr (obj, s'), w')"
  obtains s1 w1 where "session_enter pk c w = (Inr s1, w1)" "body (s1, w1) = (Inr obj, (s', w'))"
proof -
  from assms obtain s1 w1 where e: "session_enter pk c w = (Inr s1, w1)" and
    run: "(case on_failure body (session_exit pk) (s1, w1) of
         (Inl e, (s', w')) \<Rightarrow> (Inl e, w') | (Inr obj, (s', w')) \<Rightarrow> (Inr (obj, s'), w')) = (Inr (obj, s'), w')"
    unfolding open_session_def bind_eq_Inr by blast
  obtain y s2 w2 where y: "on_failure body (session_exit pk) (s1, w1) = (y, (s2, w2))" by (rule prod_cases3)
  with run have "on_failure body (session_exit pk) (s1, w1) = (Inr obj, (s', w'))" by (cases y; simp)
  with e show thesis
    by (intro that [of s1 w1]) (auto simp: on_failure_def try_except_apply bind_apply split: prod.splits sum.splits)
qed

lemma session_enter_sent: "records pk sent \<Longrightarrow> session_enter pk c w = (r, w') \<Longrightarrow> sent w' = sent w"
  by (rule maintainsD [OF maintains_session_enter [OF same_honours]]) simp_all

lemma rq_Inr_sent:
  assumes "records pk sent"
  shows "rq_attributes pk rq (s, w) = (Inr x, (s', w')) \<Longrightarrow> sent w' = sent w @ [rq]"
    "rq_open pk path fl (s, w) = (Inr h, (s', w')) \<Longrightarrow> sent w' = sent w @ [Open_file path fl]"
  by (auto simp: rq_attributes_def rq_open_def parse_def bind_eq_Inr dest!: call_Inr_sent [OF assms])

lemma rq_attributes_status_sent:
  assumes "records pk sent" "rq_attributes pk rq (s, w) = (Inl (SftpStatus code), (s', w'))"
  shows "sent w' = sent w @ [rq]"
  using assms(2) call_status_sent [OF assms(1), of rq CMD_ATTRS s w code]
  by (auto simp: rq_attributes_def parse_def bind_eq_Inl dest: call_Inr_sent [OF assms(1)])

lemma replaceable_mode_sent:
  assumes "records pk sent" "replaceable_mode pk destination filename overwrite (s, w) = (Inr m, (s', w'))"
  shows "sent w' = sent w @ [Stat destination]"
proof -
  obtain y s1 w1 where y: "rq_attributes pk (Stat destination) (s, w) = (y, (s1, w1))" by (rule prod_cases3)
  have "sent w1 = sent w @ [Stat destination] \<and> w' = w1"
  proof (cases y)
    case (Inl e)
    with assms(2) y rq_attributes_status_sent [OF assms(1)] show ?thesis
      by (cases e) (auto simp: replaceable_mode_def on_status_def bind_apply try_except_apply split: if_splits)
  next
    case (Inr a)
    with assms(2) y rq_Inr_sent(1) [OF assms(1)] show ?thesis
      by (cases "at_mode a") (auto simp: replaceable_mode_def on_status_def bind_apply try_except_apply split: if_splits)
  qed
  then show ?thesis by simp
qed

lemma sftp_write_enter_cases:
  assumes "sftp_write_enter pk c filename sid overwrite w = (Inr (k, s'), w')"
  obtains destination name s1 w1 m s2 w2 h where
    "sftp_path c filename = Inr destination" "stage_name sid = Inr name" "session_enter pk c w = (Inr s1, w1)"
    "replaceable_mode pk destination filename overwrite (s1, w1) = (Inr m, (s2, w2))"
    "rq_open pk (path_join (sc_root c) name) staging_flags (s2, w2) = (Inr h, (s', w'))"
    "k = upload.extend (Upload h (sc_root c) (path_join (sc_root c) name) m)
       \<lparr>sw_destination = destination, sw_filename = filename, sw_overwrite = overwrite\<rparr>"
proof -
  from assms obtain destination name where names: "sftp_path c filename = Inr destination" "stage_name sid = Inr name"
    by (cases "sftp_path c filename"; cases "stage_name sid") (auto simp: sftp_write_enter_def bind_of_result bind_apply)
  let ?stage = "path_join (sc_root c) name"
  let ?body = "bind
           (failures pk (lit ''inspect '' @ [39] @ filename @ [39])
             (unclassified\<lparr>if_denied := Some (not_writable (sc_root c))\<rparr>)
             (replaceable_mode pk destination filename overwrite)) (\<lambda>m.
          on_failure
            (failures pk (lit ''create the staging file'')
              ((missing_root c)\<lparr>if_denied := Some (not_writable (sc_root c))\<rparr>)
              (bind (rq_open pk ?stage staging_flags) (\<lambda>handle.
               ret (upload.extend (Upload handle (sc_root c) ?stage m)
                 \<lparr>sw_destination = destination, sw_filename = filename, sw_overwrite = overwrite\<rparr>))))
            (remove_quietly pk ?stage))"
  from assms have "open_session pk c ?body w = (Inr (k, s'), w')"
    unfolding sftp_write_enter_def names bind_of_result Let_def .
  then obtain s1 w1 where b: "session_enter pk c w = (Inr s1, w1)" "?body (s1, w1) = (Inr k, (s', w'))"
    by (rule open_session_Inr)
  then obtain m s2 w2 where m: "replaceable_mode pk destination filename overwrite (s1, w1) = (Inr m, (s2, w2))" and
    rest: "on_failure
            (failures pk (lit ''create the staging file'')
              ((missing_root c)\<lparr>if_denied := Some (not_writable (sc_root c))\<rparr>)
              (bind (rq_open pk ?stage staging_flags) (\<lambda>handle.
               ret (upload.extend (Upload handle (sc_root c) ?stage m)
                 \<lparr>sw_destination = destination, sw_filename = filename, sw_overwrite = overwrite\<rparr>))))
            (remove_quietly pk ?stage) (s2, w2) = (Inr k, (s', w'))"
    unfolding bind_eq_Inr failures_def translate_eq_Inr by auto
  obtain y s3 w3 where y: "rq_open pk ?stage staging_flags (s2, w2) = (y, (s3, w3))" by (rule prod_cases3)
  with rest obtain h where h: "y = Inr h" "w' = w3" "s' = s3"
    "k = upload.extend (Upload h (sc_root c) ?stage m)
       \<lparr>sw_destination = destination, sw_filename = filename, sw_overwrite = overwrite\<rparr>"
    by (cases y) (auto simp: on_failure_def failures_def try_except_apply translate_apply bind_apply split: prod.splits sum.splits)
  with that [OF names b(1) m] y show thesis by simp
qed

lemma sftp_write_enter_Inr:
  assumes "records pk sent" "sftp_write_enter pk c filename sid overwrite w = (Inr (k, s'), w')"
  shows "\<exists>destination name h. sftp_path c filename = Inr destination \<and> stage_name sid = Inr name \<and>
    up_handle k = Some h \<and> up_size k = 0 \<and> \<not> up_finished k \<and>
    up_stage k = path_join (sc_root c) name \<and> sw_destination k = destination \<and> sw_overwrite k = overwrite \<and>
    sent w' = sent w @ [Stat destination, Open_file (up_stage k) staging_flags]"
  using assms(2)
proof (cases rule: sftp_write_enter_cases)
  case (1 destination name s1 w1 m s2 w2 h)
  from session_enter_sent [OF assms(1) 1(3)] replaceable_mode_sent [OF assms(1) 1(4)] rq_Inr_sent(2) [OF assms(1) 1(5)] 1
  show ?thesis by (auto simp: Upload_def upload.defs)
qed

text \<open>The body: the chunks, then \<open>finish\<close> where the caller asks for it, then what the caller does.\<close>

fun write_parts :: "'w paramiko \<Rightarrow> bytes list \<Rightarrow> bool \<Rightarrow> exn option \<Rightarrow> (sftp_write \<times> (session \<times> 'w), unit) io" where
  "write_parts pk [] early failure = bind (only_if early (Upload_finish pk)) (\<lambda>_. rethrow failure)"
| "write_parts pk (c # cs) early failure = bind (Upload_write pk c) (\<lambda>_. write_parts pk cs early failure)"

lemma maintains_write_parts [maintains_rules]:
  assumes "honours pk W ok" "allows ok" "\<And>m. ok (Set_mode stage m)"
  shows "maintains (object_ok (upload_of stage x) W) (write_parts pk cs early failure)"
proof (induction cs)
  case Nil
  show ?case unfolding write_parts.simps by (intro maintains_rules) (rule assms)+
next
  case (Cons c cs)
  show ?case unfolding write_parts.simps by (intro maintains_rules Cons) (rule assms)+
qed

lemma write_parts_spares:
  assumes "records pk sent" "write_parts pk cs early failure (k, (s, w)) = (r, (k', (s', w')))"
  shows "upload_of (up_stage k) (upload.more k) k' \<and> (\<exists>ts. sent w' = sent w @ ts \<and> list_all (spares (up_stage k)) ts)"
proof -
  have "maintains (object_ok (upload_of (up_stage k) (upload.more k)) (since sent (spares (up_stage k)) t))
      (write_parts pk cs early failure)" for t
    by (rule maintains_write_parts [OF since_honours [OF assms(1)]]) simp_all
  from maintains_object_sent [OF this assms(2)] show ?thesis by (simp add: upload_of_def)
qed

lemma write_parts_Inr:
  "write_parts pk cs early failure (k, (s, w)) = (Inr x, (k', (s', w'))) \<Longrightarrow> records pk sent \<Longrightarrow>
   up_handle k = Some h \<Longrightarrow> \<not> up_finished k \<Longrightarrow>
   failure = None \<and> (\<exists>ts. up_finished k' = early \<and> (\<not> early \<longrightarrow> up_handle k' = Some h \<and> up_mode k' = up_mode k) \<and>
     sent w' = sent w @ ts @
       (if early then [Fsync h, Close_handle h, Stat (up_stage k)] @ mode_requests (up_stage k) (up_mode k) else []) \<and>
     writes_to h ts \<and> (\<forall>old. length old = up_size k \<longrightarrow> foldl splice old ts = old @ concat cs))"
proof (induction cs arbitrary: k s w)
  case Nil
  then have f: "failure = None" by (cases failure) (auto simp: bind_eq_Inr)
  show ?case
  proof (cases early)
    case True
    with Nil f have "Upload_finish pk (k, (s, w)) = (Inr (), (k', (s', w')))" by (auto simp: bind_eq_Inr only_if_apply)
    from Upload_finish_sent [OF Nil(2) this Nil(4)] Nil(3) True f show ?thesis
      by (auto intro!: exI [of _ "[]"])
  next
    case False
    with Nil f show ?thesis by (auto simp: bind_eq_Inr only_if_apply intro!: exI [of _ "[]"])
  qed
next
  case (Cons c cs)
  then obtain k1 s1 w1 where c: "Upload_write pk c (k, (s, w)) = (Inr (), (k1, (s1, w1)))"
    and rest: "write_parts pk cs early failure (k1, (s1, w1)) = (Inr x, (k', (s', w')))"
    by (auto simp: bind_eq_Inr)
  from Upload_write_sent [OF c Cons.prems(2,3)] obtain ts where ts: "up_handle k1 = Some h"
    "up_size k1 = up_size k + length c" "up_finished k1 = up_finished k" "up_mode k1 = up_mode k"
    "sent w1 = sent w @ ts" "writes_to h ts" "\<And>old. length old = up_size k \<Longrightarrow> foldl splice old ts = old @ c" by blast
  have "write_parts pk [c] False None (k, (s, w)) = (Inr (), (k1, (s1, w1)))"
    using c by (simp add: bind_apply only_if_apply)
  from write_parts_spares [OF Cons.prems(2) this] have stage: "up_stage k1 = up_stage k" by (simp add: upload_of_def)
  from Cons.IH [OF rest Cons.prems(2) ts(1)] ts(3) Cons.prems(4) obtain us where
    us: "failure = None" "up_finished k' = early" "\<not> early \<longrightarrow> up_handle k' = Some h \<and> up_mode k' = up_mode k1"
    "sent w' = sent w1 @ us @
       (if early then [Fsync h, Close_handle h, Stat (up_stage k1)] @ mode_requests (up_stage k1) (up_mode k1) else [])"
    "writes_to h us" "\<And>old. length old = up_size k1 \<Longrightarrow> foldl splice old us = old @ concat cs" by auto
  have "foldl splice old (ts @ us) = old @ concat (c # cs)" if "length old = up_size k" for old
    using ts(7) [OF that] us(6) [of "old @ c"] that ts(2) by simp
  with us ts stage show ?case by (intro conjI exI [of _ "ts @ us"]) auto
qed

lemma left_block_eq: "leave_block m x = (r, w') \<Longrightarrow> \<exists>k' s'. m x = (r, ((k', s'), w'))"
  by (auto simp: leave_block_def split: prod.splits)

lemma with_block_cases:
  assumes "with_block enter (in_session m) exit w = (r, w')"
  obtains (refused) e where "enter w = (Inl e, w')" "r = Inl e"
  | (entered) k s w1 x k1 s1 w2 where "enter w = (Inr (k, s), w1)" "m (k, (s, w1)) = (x, (k1, (s1, w2)))"
      "\<exists>k' s'. exit (case x of Inl e \<Rightarrow> Some e | Inr _ \<Rightarrow> None) ((k1, s1), w2) = (r, ((k', s'), w'))"
proof -
  obtain y w1 where y: "enter w = (y, w1)" by (rule prod.exhaust)
  show thesis
  proof (cases y)
    case (Inl e)
    with y assms show thesis by (intro refused [of e]) (auto simp: with_block_def)
  next
    case (Inr ks)
    obtain k s where ks: "ks = (k, s)" by (rule prod.exhaust)
    obtain x k1 s1 w2 where x: "m (k, (s, w1)) = (x, (k1, (s1, w2)))" by (rule prod_cases4)
    then have "leave_block (exit (case x of Inl e \<Rightarrow> Some e | Inr _ \<Rightarrow> None)) ((k1, s1), w2) = (r, w')"
      using assms y Inr ks by (cases x) (simp_all add: with_block_def in_session_def)
    from entered [OF _ x left_block_eq [OF this]] y Inr ks show thesis by blast
  qed
qed

definition sftp_write_block ::
  "'w os_world_scheme paramiko \<Rightarrow> sftp_connector \<Rightarrow> pystr \<Rightarrow> pystr \<Rightarrow> bool \<Rightarrow> bytes list \<Rightarrow> bool \<Rightarrow> exn option \<Rightarrow>
   ('w os_world_scheme, unit) io" where
  "sftp_write_block pk c filename sid overwrite cs early failure =
     with_block (sftp_write_enter pk c filename sid overwrite) (in_session (write_parts pk cs early failure))
       (sftp_write_exit pk c)"

lemma sftp_write_block_any:
  assumes "records pk sent" "sftp_write_block pk c filename sid overwrite cs early failure w = (r, w')"
    and "stage_name sid = Inr name" "sftp_path c filename = Inr destination"
    and "stage = path_join (sc_root c) name" "rename = publish_request overwrite stage destination"
  shows "\<exists>pre pub post. sent w' = sent w @ pre @ pub @ post \<and> list_all (spares stage) (pre @ post) \<and>
    (pub = [] \<or> pub = [rename] \<and> failure = None)"
  using assms(2) unfolding sftp_write_block_def
proof (cases rule: with_block_cases)
  case (refused e)
  from sftp_write_enter_spares [OF assms(1) refused(1) assms(3,5)] obtain ts where
    "sent w' = sent w @ ts @ [] @ []" "list_all (spares stage) (ts @ [])" by auto
  then show ?thesis by blast
next
  case (entered k s w1 x k1 s1 w2)
  from sftp_write_enter_spares [OF assms(1) entered(1) assms(3,5)] obtain ts where
    ts: "sent w1 = sent w @ ts" "list_all (spares stage) ts" by blast
  from sftp_write_enter_Inr [OF assms(1) entered(1)] assms(3,4,5) have k: "up_stage k = stage"
    "sw_destination k = destination" "sw_overwrite k = overwrite" by auto
  from write_parts_spares [OF assms(1) entered(2)] obtain us where
    us: "upload_of (up_stage k) (upload.more k) k1" "sent w2 = sent w1 @ us" "list_all (spares stage) us"
    using k(1) by blast
  have k1: "up_stage k1 = stage" "rename_of k1 = rename"
    using rename_of_cong [OF us(1)] k assms(6) by (auto simp: rename_of_def)
  from entered(3) sftp_write_exit_sent [OF assms(1)] obtain vs where
    vs: "sent w' = sent w2 @ vs" "publishing k1 vs" "x \<noteq> Inr () \<longrightarrow> list_all (spares stage) vs"
    by (fastforce simp: k1(1) split: sum.splits)
  show ?thesis
  proof (cases "failure = None \<and> x = Inr ()")
    case True
    from publishing_after(1) [OF vs(2), of "ts @ us"] k1 ts us obtain pre pub post where
      "(ts @ us) @ vs = pre @ pub @ post" "list_all (spares stage) (pre @ post)" "pub = [] \<or> pub = [rename]"
      by (auto simp: publishing_def)
    then have "sent w' = sent w @ pre @ pub @ post" using ts us vs by simp
    with True show ?thesis using \<open>list_all (spares stage) (pre @ post)\<close> \<open>pub = [] \<or> pub = [rename]\<close> by blast
  next
    case False
    have "x \<noteq> Inr ()"
    proof
      assume x: "x = Inr ()"
      have "write_parts pk cs early failure y \<noteq> (Inr (), z)" if "failure \<noteq> None" for y z
        using that by (induction cs arbitrary: y) (auto simp: bind_eq_Inr)
      with x entered(2) False show False by blast
    qed
    with vs(3) ts us vs(1) have "sent w' = sent w @ (ts @ us @ vs) @ [] @ []"
      "list_all (spares stage) ((ts @ us @ vs) @ [])" by auto
    then show ?thesis by blast
  qed
qed

lemma sftp_write_block_Inr:
  assumes "records pk sent" "sftp_write_block pk c filename sid overwrite cs early failure w = (Inr x, w')"
  shows "failure = None \<and> (\<exists>destination name h m ts. sftp_path c filename = Inr destination \<and> stage_name sid = Inr name \<and>
    (let stage = path_join (sc_root c) name
     in sent w' = sent w @ [Stat destination, Open_file stage staging_flags] @ ts @
          [Fsync h, Close_handle h, Stat stage] @ mode_requests stage m @
          (if overwrite then [] else [Stat destination]) @ [publish_request overwrite stage destination]) \<and>
    writes_to h ts \<and> foldl splice [] ts = concat cs)"
  using assms(2) unfolding sftp_write_block_def
proof (cases rule: with_block_cases)
  case (entered k s w1 y k1 s1 w2)
  from sftp_write_enter_Inr [OF assms(1) entered(1)] obtain destination name h where
    k: "sftp_path c filename = Inr destination" "stage_name sid = Inr name" "up_handle k = Some h" "up_size k = 0"
      "\<not> up_finished k" "up_stage k = path_join (sc_root c) name" "sw_destination k = destination"
      "sw_overwrite k = overwrite" "sent w1 = sent w @ [Stat destination, Open_file (up_stage k) staging_flags]" by blast
  obtain k' s' where out: "sftp_write_exit pk c (case y of Inl e \<Rightarrow> Some e | Inr _ \<Rightarrow> None) ((k1, s1), w2) =
      (Inr x, ((k', s'), w'))" using entered(3) by blast
  note exit = sftp_write_exit_Inr [OF assms(1) out]
  then have y: "y = Inr ()" by (cases y) auto
  note body = write_parts_Inr [OF entered(2) [unfolded y] assms(1) k(3,5)]
  have k1: "upload_of (up_stage k) (upload.more k) k1" using write_parts_spares [OF assms(1) entered(2)] by blast
  have same: "rename_of k1 = publish_request overwrite (up_stage k) destination" "sw_overwrite k1 = overwrite"
    "sw_destination k1 = destination" "up_stage k1 = up_stage k"
    using rename_of_cong [OF k1] k1 k(7,8) by (simp_all add: rename_of_def) (cases k; cases k1; simp add: upload_of_def)+
  from body obtain ts where ts: "failure = None" "writes_to h ts" "foldl splice [] ts = concat cs"
    "up_finished k1 = early" "\<not> early \<longrightarrow> up_handle k1 = Some h \<and> up_mode k1 = up_mode k"
    "sent w2 = sent w1 @ ts @
       (if early then [Fsync h, Close_handle h, Stat (up_stage k)] @ mode_requests (up_stage k) (up_mode k) else [])"
    using k(4) by auto
  have "sent w' = sent w @ [Stat destination, Open_file (up_stage k) staging_flags] @ ts @
      [Fsync h, Close_handle h, Stat (up_stage k)] @ mode_requests (up_stage k) (up_mode k) @
      (if overwrite then [] else [Stat destination]) @ [publish_request overwrite (up_stage k) destination]"
    using exit ts(4-6) same k(9) by (cases early) auto
  with ts(1-3) k(1,2,6) show ?thesis unfolding Let_def by metis
qed simp

end
