(* ===== verification/Sftp_Correct.thy ===== *)
theory Sftp_Correct
  imports Sftp_Trace Transfer_Correct
begin

text \<open>
  The SFTP connector as a whole, for any server and any failures of the transport: the error contract,
  the reads, the write block, the listing, and the transfer service over it.
\<close>

section \<open>A server\<close>

text \<open>
  A server for the witnesses. It has no file but the staging file, which it says has three bytes,
  answers every read with one byte and every request at once, and remembers the requests.
\<close>

record demo_server_world = os_world +
  ds_sent :: "request list"

definition status_body :: "nat \<Rightarrow> bytes" where
  "status_body code = [0, 0, 0, word_of_nat code, 0, 0, 0, 0]"

definition demo_answer :: "pystr \<Rightarrow> nat \<Rightarrow> request \<Rightarrow> packet" where
  "demo_answer destination number rq =
     (case rq of
        Open_file _ _ \<Rightarrow> Packet CMD_HANDLE number [0, 0, 0, 1, 7]
      | Stat p \<Rightarrow>
          if p = destination then Packet CMD_STATUS number (status_body SFTP_NO_SUCH_FILE)
          else Packet CMD_ATTRS number [0, 0, 0, 1, 0, 0, 0, 0, 0, 0, 0, 3]
      | Open_directory _ \<Rightarrow> Packet CMD_HANDLE number [0, 0, 0, 1, 8]
      | Read_directory _ \<Rightarrow> Packet CMD_STATUS number (status_body SFTP_EOF)
      | Read_at _ _ _ \<Rightarrow> Packet CMD_DATA number [0, 0, 0, 1, 9]
      | _ \<Rightarrow> Packet CMD_STATUS number (status_body SFTP_OK))"

definition demo_paramiko :: "pystr \<Rightarrow> demo_server_world paramiko" where
  "demo_paramiko destination =
     \<lparr>pk_descriptions = [], pk_load_host_keys = (\<lambda>_ w. (Loaded, w)),
      pk_connect = (\<lambda>_ _ _ _ w. (Connected True, w)), pk_open_sftp = (\<lambda>w. (Inr [], w)),
      pk_respond = (\<lambda>n rq w. ([demo_answer destination n rq], w\<lparr>ds_sent := ds_sent w @ [rq]\<rparr>)),
      pk_close_sftp = (\<lambda>w. (None, w)), pk_disconnect = (\<lambda>w. (None, w))\<rparr>"

definition demo_sftp :: sftp_connector where
  "demo_sftp = \<lparr>sc_host = lit ''h'', sc_port = 22, sc_username = lit ''u'', sc_password = lit ''p'',
     sc_root = lit ''/d'', sc_known_hosts = lit ''/k''\<rparr>"

lemma demo_paramiko_records: "records (demo_paramiko destination) ds_sent"
  by (simp add: records_def demo_paramiko_def)

definition demo_server :: demo_server_world where
  "demo_server = os_world.extend demo_world (demo_server_world.fields [])"

text \<open>Running a statement over the demo server.\<close>

lemmas sftp_eval = bind_apply try_except_apply try_finally_apply translate_apply on_world_apply only_if_apply
  failures_def on_failure_def on_status_def send_def watched_def async_request_def next_event_def receive_def await.simps
  read_response_def async_response_def pop_reply_def check_reply_def parse_def call_def rq_attributes_def rq_open_def
  string_field_def uint32_def uint64_def take_field_def Reader_def big_endian_def attributes_field_def
  optional_field_def has_flag_def demo_paramiko_def demo_answer_def status_body_def
  OVERSIZED_def CMD_DATA_def CMD_STATUS_def CMD_HANDLE_def CMD_ATTRS_def MAX_REPLY_def status_codes
  FLAG_SIZE_def FLAG_UIDGID_def FLAG_PERMISSIONS_def FLAG_AMTIME_def FLAG_EXTENDED_def new_session_def
  Let_def of_result_def

lemma demo_read: "\<exists>d s w. Download_read (demo_paramiko []) 5 (Download [7] 2 [], (new_session [], demo_server)) =
    (Inr [9, 9], (d, (s, w)))"
  by (simp add: sftp_eval Download_read_def Download_def read_loop.simps unrequested_def next_reply_def
      fill_window.simps Download_request_def WINDOW_def REQUEST_SIZE_def pop_pending_def receive_data_def)

lemma demo_path: "sftp_path demo_sftp (lit ''b'') = Inr (lit ''/d/b'')"
  by code_simp

section \<open>The error contract\<close>

lemma session_exit_Inr: "session_exit pk (s, w) = (r, x) \<Longrightarrow> r = Inr ()"
  by (auto simp: session_exit_def disconnect_def bind_apply on_world_apply)

lemma end_session_result:
  assumes "end_session pk m ((k, s), w) = (r, x)"
  obtains k1 s1 w1 where "m (k, (s, w)) = (r, (k1, (s1, w1)))"
proof -
  obtain y k1 s1 w1 where y: "m (k, (s, w)) = (y, (k1, (s1, w1)))" by (rule prod_cases4)
  obtain z s2 w2 where z: "session_exit pk (s1, w1) = (z, (s2, w2))" by (rule prod_cases3)
  from session_exit_Inr [OF z] assms y z have "r = y"
    by (auto simp: end_session_def in_session_def try_finally_apply on_world_apply)
  with y that show thesis by blast
qed

definition sink_ready :: "'k upload_scheme \<Rightarrow> bool" where
  "sink_ready u \<longleftrightarrow> up_handle u \<noteq> None \<or> up_finished u"

lemma Upload_finish_finishes:
  assumes "Upload_finish pk (u, sw) = (Inr x, (u', sw'))"
  shows "up_finished u'"
  using assms
  by (cases "up_finished u")
    (auto simp: Upload_finish_def bind_eq_Inr assign_def split: option.splits if_splits)

lemma write_parts_typed:
  "write_parts pk cs early failure (k, sw) = (r, (k', sw')) \<Longrightarrow> up_handle k \<noteq> None \<Longrightarrow>
   (\<And>e. failure = Some e \<Longrightarrow> is_db_error e) \<Longrightarrow>
   (case r of Inl e \<Rightarrow> is_db_error e | Inr _ \<Rightarrow> sink_ready k')"
proof (induction cs arbitrary: k sw)
  case Nil
  show ?case
  proof (cases early)
    case True
    obtain x k1 sw1 where x: "Upload_finish pk (k, sw) = (x, (k1, sw1))" by (rule prod_cases3)
    from Nil True x Upload_finish_typed [of pk k sw _ "(k1, sw1)"] Upload_finish_finishes [of pk k sw _ k1 sw1] show ?thesis
      by (cases x; cases failure) (auto simp: bind_apply only_if_apply sink_ready_def)
  next
    case False
    with Nil show ?thesis by (cases failure) (auto simp: bind_apply only_if_apply sink_ready_def)
  qed
next
  case (Cons c cs)
  obtain x k1 sw1 where x: "Upload_write pk c (k, sw) = (x, (k1, sw1))" by (rule prod_cases3)
  from Upload_write_cases [OF x Cons.prems(2)] Cons.prems Cons.IH [of k1 sw1] x show ?case
    by (cases x) (auto simp: bind_apply)
qed

lemma raises_give_up:
  fixes pk :: "'w os_world_scheme paramiko" and k :: "'k upload_scheme"
  assumes "utf8 (up_stage k) \<noteq> None" "give_up pk (k, (s, w)) = (r, x)"
  shows "r = Inr ()"
proof (cases r)
  case (Inl e)
  obtain y k1 s1 w1 where y: "Upload_release pk (k, (s, w)) = (y, (k1, (s1, w1)))" by (rule prod_cases4)
  have "maintains (object_ok (upload_of (up_stage k) (upload.more k)) (\<lambda>_. True)) (Upload_release pk)"
    by (rule maintains_Upload_release [where ok = "\<lambda>_. True"]) (simp_all add: honours_def allows_def)
  from maintainsD [OF this y] have "up_stage k1 = up_stage k" by (simp add: upload_of_def)
  with assms y Inl raisesD [OF raises_Upload_release [of "\<lambda>_. False" pk], of "(k, (s, w))"]
    raisesD [OF raises_remove_quietly [of "up_stage k" "\<lambda>_. False" pk], of "(s1, w1)"] show ?thesis
    by (cases y; cases x rule: prod_cases3) (auto simp: give_up_def bind_apply)
qed simp

lemma complete_typed:
  assumes "complete pk c (k, (s, w)) = (Inl e, x)" "sink_ready k"
  shows "is_db_error e"
proof -
  obtain y k1 sw1 where y: "Upload_finish pk (k, (s, w)) = (y, (k1, sw1))" by (rule prod_cases3)
  show ?thesis
  proof (cases y)
    case (Inl d)
    with assms y Upload_finish_typed [of pk k "(s, w)" d "(k1, sw1)"] show ?thesis
      by (auto simp: complete_def bind_apply sink_ready_def)
  next
    case (Inr u)
    with assms(1) y raisesD [OF raises_sftp_publish, of pk c "up_stage k1" "sw_destination k1" "sw_filename k1" "sw_overwrite k1" sw1] show ?thesis
      by (auto simp: complete_def bind_apply on_world_def split: prod.splits)
  qed
qed

lemma write_exit_typed:
  fixes pk :: "'w os_world_scheme paramiko"
  assumes "sftp_write_exit pk c failure ((k, s), w) = (Inl e, x)" "utf8 (up_stage k) \<noteq> None"
    and "\<And>d. failure = Some d \<Longrightarrow> is_db_error d" "failure = None \<Longrightarrow> sink_ready k"
  shows "is_db_error e"
proof -
  from assms(1) obtain k1 s1 w1 where
    run: "on_failure (bind (rethrow failure) (\<lambda>_. complete pk c)) (give_up pk) (k, (s, w)) = (Inl e, (k1, (s1, w1)))"
    unfolding write_exit_unfold by (rule end_session_result)
  obtain y k2 s2 w2 where y: "bind (rethrow failure) (\<lambda>_. complete pk c) (k, (s, w)) = (y, (k2, (s2, w2)))" by (rule prod_cases4)
  then obtain d where d: "y = Inl d" using run by (cases y) (auto simp: on_failure_def try_except_apply)
  obtain z k3 s3 w3 where z: "give_up pk (k2, (s2, w2)) = (z, (k3, (s3, w3)))" by (rule prod_cases4)
  have "maintains (object_ok (upload_of (up_stage k) (upload.more k)) (\<lambda>_. True)) (bind (rethrow failure) (\<lambda>_. complete pk c))"
    unfolding complete_def
    by (intro maintains_bind maintains_bind_self maintains_rethrow maintains_on_world(2)
        maintains_Upload_finish [where ok = "\<lambda>_. True"]) (simp_all add: honours_def allows_def maintains_def)
  from maintainsD [OF this y] have "up_stage k2 = up_stage k" by (simp add: upload_of_def)
  with raises_give_up [OF _ z] assms(2) have "z = Inr ()" by simp
  with run y d z have "e = d" by (simp add: on_failure_def try_except_apply bind_apply)
  with y d assms(3,4) complete_typed [of pk c k s w d] show ?thesis by (cases failure) (auto simp: bind_apply)
qed

lemma sftp_write_enter_ready:
  assumes "sftp_write_enter pk c filename sid b w = (Inr (k, s), w')" "stage_name sid = Inr n"
  shows "up_handle k \<noteq> None \<and> up_stage k = path_join (sc_root c) n"
  using assms(1) by (cases rule: sftp_write_enter_cases) (use assms(2) in \<open>auto simp: Upload_def upload.defs\<close>)


lemma raises_sftp_write_block:
  assumes "utf8 (sc_root c) \<noteq> None" "stage_name sid = Inr n" "\<And>e. failure = Some e \<Longrightarrow> is_db_error e"
  shows "raises is_db_error (sftp_write_block pk c filename sid overwrite cs early failure)"
proof (rule raisesI)
  fix w e w'
  assume "sftp_write_block pk c filename sid overwrite cs early failure w = (Inl e, w')"
  then show "is_db_error e"
    unfolding sftp_write_block_def
  proof (cases rule: with_block_cases)
    case (refused d)
    with raisesD [OF raises_sftp_write_enter [OF assms(1,2)] refused(1)] show ?thesis by simp
  next
    case (entered k s w1 x k1 s1 w2)
    note ready = sftp_write_enter_ready [OF entered(1) assms(2)]
    have enc: "utf8 (up_stage k) \<noteq> None"
      using ready utf8_path_join [OF assms(1) stage_name_encodable [OF assms(2)]] by simp
    have "maintains (object_ok (upload_of (up_stage k) (upload.more k)) (\<lambda>_. True)) (write_parts pk cs early failure)"
      by (rule maintains_write_parts [where ok = "\<lambda>_. True"]) (simp_all add: honours_def allows_def)
    from maintainsD [OF this entered(2)] have "up_stage k1 = up_stage k" by (simp add: upload_of_def)
    with enc have enc1: "utf8 (up_stage k1) \<noteq> None" by simp
    have typed: "case x of Inl e \<Rightarrow> is_db_error e | Inr _ \<Rightarrow> sink_ready k1"
      by (rule write_parts_typed [OF entered(2)]) (use ready assms(3) in auto)
    from entered(3) obtain k' s' where
      out: "sftp_write_exit pk c (case x of Inl e \<Rightarrow> Some e | Inr _ \<Rightarrow> None) ((k1, s1), w2) = (Inl e, ((k', s'), w'))" by blast
    show ?thesis by (rule write_exit_typed [OF out enc1]) (use typed in \<open>auto split: sum.splits\<close>)
  qed
qed

text \<open>
  C32. Whatever the server answers, wherever the transport is cut and whatever a packet holds, every
  operation of the SFTP connector raises a \<open>DataBridgeError\<close> only: the listing, the access check, the
  read block, the reads and the whole write block, whose body may also end in an error of its own. The
  root is text that can be sent, which the validation of a connection ensures.
\<close>

theorem sftp_error_contract:
  assumes "utf8 (sc_root c) \<noteq> None" "\<And>e. failure = Some e \<Longrightarrow> is_db_error e"
  shows "raises is_db_error (sftp_list_files pk c) \<and> raises is_db_error (sftp_check_access pk c) \<and>
    raises is_db_error (sftp_read_enter pk c filename limit) \<and>
    raises is_db_error (Download_read pk n) \<and> raises is_db_error (sftp_read_exit pk failure) \<and>
    raises is_db_error (sftp_write_block pk c filename (uuid_str i) overwrite cs early failure)"
proof -
  obtain name where "stage_name (uuid_str i) = Inr name" by (simp add: stage_name_def)
  with assms show ?thesis
    by (intro conjI raises_sftp_list_files raises_sftp_check_access raises_sftp_read_enter raises_Download_read
        raises_sftp_read_exit raises_sftp_write_block) auto
qed

lemma demo_root_encodable: "utf8 (sc_root demo_sftp) \<noteq> None"
  by code_simp

theorem sftp_error_contract_witness:
  "raises is_db_error (sftp_write_block (demo_paramiko []) demo_sftp (lit ''b'') (uuid_str 0) False [[7], [8, 9]] True None)"
  using sftp_error_contract [OF demo_root_encodable, of None "demo_paramiko []" "lit ''b''" None 0 0 False "[[7], [8, 9]]" True] by simp

text \<open>
  C33. The preview of a file over SFTP raises a \<open>DataBridgeError\<close> only, whatever the server sends as
  the file.
\<close>

theorem sftp_preview_contract: "raises is_db_error (preview (sftp_methods pk c) filename limit)"
  by (rule sftp_reader.raises_preview)

section \<open>Reads\<close>

text \<open>
  C30. A read of \<open>n\<close> bytes that returns gives exactly \<open>n\<close> bytes, or all the download still owes, when
  that is less: no read ends early, and the end is reported only when the size that the server
  reported at the opening was delivered. At most \<open>WINDOW\<close> requests are in flight. A new download owes
  that size.
\<close>

theorem sftp_read_exact:
  assumes "Download_read pk n (d, sw) = (Inr data, (d', sw'))" "length (dl_pending d) \<le> WINDOW"
  shows "length data = min n (owed d) \<and> owed d' = owed d - length data \<and> length (dl_pending d') \<le> WINDOW \<and>
    owed (Download handle m name) = m"
  using Download_read_owed [OF assms(1)] assms(2) by (simp add: owed_def Download_def)

theorem sftp_read_exact_witness:
  "\<exists>d s w. Download_read (demo_paramiko []) 5 (Download [7] 2 [], (new_session [], demo_server)) =
    (Inr [9, 9], (d, (s, w))) \<and> owed d = 0"
proof -
  obtain d s w where run: "Download_read (demo_paramiko []) 5 (Download [7] 2 [], (new_session [], demo_server)) =
    (Inr [9, 9], (d, (s, w)))" using demo_read by blast
  have "owed (Download [7] 2 []) = 2" by (simp add: owed_def Download_def)
  with sftp_read_exact [OF run] run show ?thesis by (simp add: Download_def WINDOW_def)
qed

section \<open>The write block\<close>

text \<open>
  C28. The requests of a write block, for any server, transport and body. On every run they spare all
  files but the staging file, except for one rename of the staging file onto the destination, in the
  replacing form only if overwriting was asked for, and only if the body did not fail. When the block
  succeeds, they are exactly: look at the destination, create the staging file exclusively, writes
  that make exactly the chunks out of an empty file, sync, close, look at its size, copy the mode,
  look at the destination again unless it may be replaced, and last the rename.
\<close>

theorem sftp_write_block_requests:
  assumes "records pk sent" "sftp_write_block pk c filename sid overwrite cs early failure w = (r, w')"
    and "stage_name sid = Inr name" "sftp_path c filename = Inr destination"
    and "stage = path_join (sc_root c) name" "rename = publish_request overwrite stage destination"
  shows "(\<exists>pre pub post. sent w' = sent w @ pre @ pub @ post \<and> list_all (spares stage) (pre @ post) \<and>
      (pub = [] \<or> pub = [rename] \<and> failure = None)) \<and>
    (r = Inr () \<longrightarrow> (\<exists>h m ts. writes_to h ts \<and> foldl splice [] ts = concat cs \<and>
      sent w' = sent w @ [Stat destination, Open_file stage staging_flags] @ ts @
        [Fsync h, Close_handle h, Stat stage] @ mode_requests stage m @
        (if overwrite then [] else [Stat destination]) @ [rename]))"
proof (intro conjI impI)
  show "\<exists>pre pub post. sent w' = sent w @ pre @ pub @ post \<and> list_all (spares stage) (pre @ post) \<and>
      (pub = [] \<or> pub = [rename] \<and> failure = None)"
    using assms by (rule sftp_write_block_any)
next
  assume "r = Inr ()"
  with sftp_write_block_Inr [OF assms(1)] assms(2) obtain destination' name' h m ts where
    x: "sftp_path c filename = Inr destination'" "stage_name sid = Inr name'" "writes_to h ts" "foldl splice [] ts = concat cs" and
    t: "let stage = path_join (sc_root c) name'
       in sent w' = sent w @ [Stat destination', Open_file stage staging_flags] @ ts @
          [Fsync h, Close_handle h, Stat stage] @ mode_requests stage m @
          (if overwrite then [] else [Stat destination']) @ [publish_request overwrite stage destination']"
    by blast
  have "destination' = destination" "path_join (sc_root c) name' = stage" using x assms(3-5) by auto
  with t have "sent w' = sent w @ [Stat destination, Open_file stage staging_flags] @ ts @
      [Fsync h, Close_handle h, Stat stage] @ mode_requests stage m @
      (if overwrite then [] else [Stat destination]) @ [rename]"
    by (simp add: Let_def assms(6))
  with x show "\<exists>h m ts. writes_to h ts \<and> foldl splice [] ts = concat cs \<and>
      sent w' = sent w @ [Stat destination, Open_file stage staging_flags] @ ts @
        [Fsync h, Close_handle h, Stat stage] @ mode_requests stage m @
        (if overwrite then [] else [Stat destination]) @ [rename]"
    by blast
qed

theorem sftp_write_block_requests_witness:
  "\<exists>r w' pre post. sftp_write_block (demo_paramiko (lit ''/d/b'')) demo_sftp (lit ''b'') (uuid_str 0) False
      [[7], [8, 9]] True (Some (db_error INTERNAL_ERROR [])) demo_server = (r, w') \<and>
    ds_sent w' = pre @ post \<and> list_all (\<lambda>rq. \<forall>m p. rq \<noteq> Posix_rename m p \<and> rq \<noteq> Rename_file m p) (pre @ post)"
proof -
  let ?block = "sftp_write_block (demo_paramiko (lit ''/d/b'')) demo_sftp (lit ''b'') (uuid_str 0) False
      [[7], [8, 9]] True (Some (db_error INTERNAL_ERROR [])) demo_server"
  obtain r w' where run: "?block = (r, w')" by (rule prod.exhaust)
  obtain n where n: "stage_name (uuid_str 0) = Inr n" by (simp add: stage_name_def)
  have "ds_sent demo_server = []" by (simp add: demo_server_def demo_world_def os_world.defs demo_server_world.defs)
  with sftp_write_block_requests [OF demo_paramiko_records run n demo_path refl refl]
  obtain pre post where "ds_sent w' = pre @ post" "list_all (spares (path_join (sc_root demo_sftp) n)) (pre @ post)"
    by auto
  moreover from this(2) have "list_all (\<lambda>rq. \<forall>m p. rq \<noteq> Posix_rename m p \<and> rq \<noteq> Rename_file m p) (pre @ post)"
    by (rule list.pred_mono_strong) (auto simp: spares_def)
  ultimately show ?thesis using run by blast
qed

section \<open>The listing\<close>

definition listing_fits :: "listing \<Rightarrow> bool" where
  "listing_fits l \<longleftrightarrow> sorted (files l) \<and> length (files l) \<le> MAX_LIST_RESULTS \<and> list_all plain_filename (files l)"

definition scan_fits :: "nat \<times> pystr list \<Rightarrow> bool" where
  "scan_fits acc \<longleftrightarrow> fst acc \<le> MAX_LIST_SCAN \<and> length (snd acc) \<le> MAX_LIST_RESULTS \<and> list_all plain_filename (snd acc)"

lemma scan_fits_listing: "scan_fits acc \<Longrightarrow> listing_fits \<lparr>files = sort (snd acc), truncated = b\<rparr>"
  by (simp add: scan_fits_def listing_fits_def list_all_iff)

lemma listing_step_fits:
  assumes "scan_fits acc"
  shows "case listing_step acc item of Inl l \<Rightarrow> listing_fits l \<and> truncated l | Inr acc' \<Rightarrow> scan_fits acc'"
proof (cases acc)
  case (Pair scanned found)
  obtain name regular where item: "item = (name, regular)" by (rule prod.exhaust)
  show ?thesis
    using assms Pair scan_fits_listing [OF assms]
    by (cases name rule: validate_filename_cases) (auto simp: listing_step_def item scan_fits_def)
qed

definition fits_either :: "listing + nat \<times> pystr list \<Rightarrow> bool" where
  "fits_either x \<longleftrightarrow> (case x of Inl l \<Rightarrow> listing_fits l \<and> truncated l | Inr acc \<Rightarrow> scan_fits acc)"

lemma fits_either_simps [simp]:
  "fits_either (Inl l) \<longleftrightarrow> listing_fits l \<and> truncated l" "fits_either (Inr acc) \<longleftrightarrow> scan_fits acc"
  by (simp_all add: fits_either_def)

lemma scan_batch_fits: "scan_batch batch acc s = (Inr x, s') \<Longrightarrow> scan_fits acc \<Longrightarrow> fits_either x"
proof (induction batch arbitrary: acc s)
  case (Cons entry rest)
  then obtain item s1 where run: "(case listing_step acc item of
      Inl l \<Rightarrow> bind (ignore_lookups rest) (\<lambda>_. ret (Inl l)) | Inr acc' \<Rightarrow> scan_batch rest acc') s1 = (Inr x, s')"
    by (auto simp: bind_eq_Inr)
  from listing_step_fits [OF Cons.prems(2), of item] run Cons.IH show ?case
    by (cases "listing_step acc item") (auto simp: bind_eq_Inr)
qed auto

lemma scan_page_fits: "scan_page pk c items acc s = (Inr x, s') \<Longrightarrow> scan_fits acc \<Longrightarrow> fits_either x"
proof (induction pk c items acc arbitrary: s rule: scan_page.induct)
  case (1 pk c items acc)
  show ?case
  proof (cases "items = []")
    case True
    with "1.prems" show ?thesis by (auto simp: scan_page.simps)
  next
    case False
    with "1.prems"(1) obtain batch s1 y s2 where
      y: "scan_batch batch acc s1 = (Inr y, s2)"
        "(case y of Inl l \<Rightarrow> ret (Inl l) | Inr acc' \<Rightarrow> scan_page pk c (drop WINDOW items) acc') s2 = (Inr x, s')"
      by (auto simp: scan_page.simps [of _ _ items] bind_eq_Inr)
    from scan_batch_fits [OF y(1) "1.prems"(2)] y(2) "1.IH" [OF False] show ?thesis
      by (cases y) auto
  qed
qed

lemma scan_directory_fits:
  "scan_directory pk c handle acc sw = (Inr l, sw') \<Longrightarrow> scan_fits acc \<Longrightarrow> listing_fits l"
proof (induction pk c handle acc sw rule: scan_directory.induct)
  case (1 pk c handle acc sw)
  obtain x sw1 where x: "read_page pk handle sw = (x, sw1)" by (rule prod.exhaust)
  obtain page where page: "x = Inr page"
    using "1.prems"(1) x by (cases x) (auto simp: scan_directory.simps [of pk c handle acc sw])
  show ?case
  proof (cases page)
    case None
    with "1.prems" x page scan_fits_listing [OF "1.prems"(2)] show ?thesis by (auto simp: scan_directory.simps [of pk c handle acc sw])
  next
    case (Some items)
    obtain y sw2 where y: "scan_page pk c items acc sw1 = (y, sw2)" by (rule prod.exhaust)
    obtain z where z: "y = Inr z"
      using "1.prems"(1) x page Some y by (cases y) (auto simp: scan_directory.simps [of pk c handle acc sw])
    note run = "1.prems"(1) [unfolded scan_directory.simps [of pk c handle acc sw] x page Some]
    from scan_page_fits [OF y [unfolded z] "1.prems"(2)] run y z "1.IH" [OF x [symmetric] page Some y [symmetric] z] show ?thesis
      by (cases z) auto
  qed
qed

lemma try_finally_Inr: "try_finally m c s = (Inr x, s') \<Longrightarrow> \<exists>s1. m s = (Inr x, s1)"
  by (auto simp: try_finally_apply split: prod.splits sum.splits)

lemma with_session_Inr: "with_session pk c body w = (Inr x, w') \<Longrightarrow> \<exists>z y. body z = (Inr x, y)"
proof -
  assume "with_session pk c body w = (Inr x, w')"
  then obtain s w1 where run: "(case try_finally body (session_exit pk) (s, w1) of (r, (s', w')) \<Rightarrow> (r, w')) = (Inr x, w')"
    by (auto simp: with_session_def bind_eq_Inr)
  obtain r s2 w2 where y: "try_finally body (session_exit pk) (s, w1) = (r, (s2, w2))" by (rule prod_cases3)
  with run try_finally_Inr [of body "session_exit pk" "(s, w1)" x "(s2, w2)"] show ?thesis by auto
qed

section \<open>The transfer service over SFTP\<close>

text \<open>What paramiko does leaves the database, its faults and the slots alone.\<close>

definition quiet_paramiko :: "'w service_world_scheme paramiko \<Rightarrow> bool" where
  "quiet_paramiko pk \<longleftrightarrow> (\<forall>v. honours pk (\<lambda>w. ledger_view w = v) (\<lambda>_. True))"

lemma ledger_unlogged: "unlogged (\<lambda>w :: 'w service_world_scheme. ledger_view w = v)"
  by (simp add: unlogged_def ledger_view_def)

lemma keeps_in_session:
  assumes "\<And>v. maintains (object_ok I (\<lambda>w. view w = v)) m" "\<And>x. I x"
  shows "keeps (\<lambda>x. view (snd x)) (in_session m)"
proof (rule maintains_keeps)
  fix v
  from maintains_in_session [OF assms(1) [of v]] assms(2)
  show "maintains (\<lambda>x. view (snd x) = v) (in_session m)" by (simp add: maintains_def)
qed

lemma exit_raises:
  assumes "end_session pk m s = (r, s')" "\<And>y z. m y \<noteq> (Inr (), z)" shows "r \<noteq> Inr ()"
proof -
  obtain k t w where s: "s = ((k, t), w)" by (cases s) auto
  from assms(1) [unfolded s] obtain k1 s1 w1 where "m (k, (t, w)) = (r, (k1, (s1, w1)))" by (rule end_session_result)
  with assms(2) show ?thesis by blast
qed

lemma read_exit_raises: "sftp_read_exit pk (Some e) s = (r, s') \<Longrightarrow> r \<noteq> Inr ()"
  unfolding sftp_read_exit_def
  by (erule exit_raises) (auto simp: try_finally_apply split: prod.splits sum.splits)

lemma write_exit_raises: "sftp_write_exit pk c (Some e) s = (r, s') \<Longrightarrow> r \<noteq> Inr ()"
  unfolding write_exit_unfold
  by (erule exit_raises) (auto simp: on_failure_def try_except_apply bind_apply split: prod.splits sum.splits)

lemma maintains_write_exit:
  assumes "honours pk W ok" "unlogged W" "\<And>rq. ok rq"
  shows "maintains (\<lambda>x. W (snd x)) (sftp_write_exit pk c failure)"
proof (rule maintainsI)
  fix x r x' assume W: "W (snd x)" and run: "sftp_write_exit pk c failure x = (r, x')"
  obtain k s w where x: "x = ((k, s), w)" by (cases x) auto
  let ?I = "upload_of (up_stage k) (upload.more k)"
  have "maintains (object_ok ?I W)
      (try_finally (on_failure (bind (rethrow failure) (\<lambda>_. complete pk c)) (give_up pk)) (on_world (session_exit pk)))"
    unfolding complete_def give_up_def sftp_publish_def Let_def
    by (intro maintains_rules) (use assms in \<open>(assumption | simp add: allows_def)+\<close>)
  from maintainsD [OF maintains_in_session [OF this] run [unfolded write_exit_unfold end_session_def]] W x
  show "W (snd x')" by (simp add: upload_of_def)
qed

lemma sftp_quiet:
  fixes pk :: "'w service_world_scheme paramiko"
  assumes "quiet_paramiko pk"
  shows "quiet_connector (sftp_methods pk c) ledger_view"
proof
  note h = assms [unfolded quiet_paramiko_def, rule_format]
  have all: "allows (\<lambda>_. True)" by (simp add: allows_def)
  show "keeps ledger_view (cn_read_enter (sftp_methods pk c) f l)" for f l
    by (rule maintains_keeps) (simp add: sftp_methods_def maintains_sftp_read_enter [OF h all])
  show "keeps (\<lambda>s. ledger_view (snd s)) (cn_source_read (sftp_methods pk c) n)" for n
    using keeps_in_session [OF maintains_Download_read [OF h all]] by (simp add: sftp_methods_def)
  show "keeps (\<lambda>s. ledger_view (snd s)) (cn_read_exit (sftp_methods pk c) x)" for x
    by (rule maintains_keeps) (simp add: sftp_methods_def maintains_sftp_read_exit [OF h all])
  show "keeps ledger_view (cn_write_enter (sftp_methods pk c) f i b)" for f i b
    by (rule maintains_keeps)
      (simp add: sftp_methods_def maintains_sftp_write_enter [OF h all ledger_unlogged])
  have sink: "keeps (\<lambda>s. ledger_view (snd s)) (in_session m)"
    if "\<And>v stage x. maintains (object_ok (upload_of stage x) (\<lambda>w. ledger_view w = v)) m"
    for m :: "(sftp_write \<times> session \<times> 'w service_world_scheme, 'a) io"
  proof (rule maintains_keeps, rule maintainsI)
    fix v y r y' assume v: "ledger_view (snd y) = v" and run: "in_session m y = (r, y')"
    from maintainsD [OF maintains_in_session [OF that [of "up_stage (fst (fst y))" "upload.more (fst (fst y))" v]] run] v
    show "ledger_view (snd y') = v" by (simp add: upload_of_def)
  qed
  show "keeps (\<lambda>s. ledger_view (snd s)) (cn_sink_write (sftp_methods pk c) data)" for data
    using sink [OF maintains_Upload_write [OF h all]] by (simp add: sftp_methods_def)
  show "keeps (\<lambda>s. ledger_view (snd s)) (cn_sink_finish (sftp_methods pk c))"
    using sink [OF maintains_Upload_finish [OF h all]] by (simp add: sftp_methods_def)
  show "keeps (\<lambda>s. ledger_view (snd s)) (cn_write_exit (sftp_methods pk c) x)" for x
    by (rule maintains_keeps) (simp add: sftp_methods_def maintains_write_exit [OF h ledger_unlogged])
  show "cn_read_exit (sftp_methods pk c) (Some e) s = (r, s') \<Longrightarrow> r \<noteq> Inr ()" for e s r s'
    by (simp add: sftp_methods_def read_exit_raises)
  show "cn_write_exit (sftp_methods pk c) (Some e) t = (r, t') \<Longrightarrow> r \<noteq> Inr ()" for e t r t'
    by (simp add: sftp_methods_def write_exit_raises)
qed

lemma sftp_bounded: "bounded_source (sftp_methods pk c)"
  unfolding bounded_source_def
proof (intro exI [of _ "\<lambda>r. owed (fst r)"] allI impI)
  fix n and r :: "download \<times> session" and w data r' w'
  assume run: "cn_source_read (sftp_methods pk c) n (r, w) = (Inr data, (r', w')) \<and> data \<noteq> []"
  then have "Download_read pk n (fst r, (snd r, w)) = (Inr data, (fst r', (snd r', w')))"
    by (cases r) (auto simp: sftp_methods_def in_session_def split: prod.splits)
  from Download_read_owed [OF this] run show "owed (fst r') < owed (fst r)" by (cases data) auto
qed

lemma sftp_open_contract:
  assumes "quiet_paramiko pk" shows "sftp_contract (sftp_open pk known_hosts)"
  unfolding sftp_contract_def
proof (intro conjI allI impI)
  show "keeps ledger_view (sftp_open pk known_hosts c)" for c
    unfolding sftp_open_def by (intro keeps_rules)
next
  fix c w cn w' assume "sftp_open pk known_hosts c w = (Inr cn, w')"
  then obtain sc where "cn = sftp_methods pk sc" by (auto simp: sftp_open_def bind_eq_Inr)
  then show "quiet_connector cn ledger_view" "bounded_source cn"
    using sftp_quiet [OF assms] sftp_bounded by simp_all
qed

text \<open>
  C34. The transfer service over the two connectors of the application: for any server and any
  failures of the transport, of the system calls and of SQLite, every request is answered, the copy
  loop ends, the slot is given back, and the answer is true of the transfer record: a returned
  record is completed, and what is raised is a \<open>DataBridgeError\<close>.
\<close>

theorem sftp_service_answers:
  assumes "quiet_paramiko pk" "transfers_ok (db_transfers (db w))"
    "list_all sqlite_fault (db_faults w)" "sw_free w \<le> MAX_CONCURRENT_TRANSFERS"
  shows "\<exists>r w'. service_run (application st (sftp_open pk known_hosts)) rq w = Some (r, w') \<and>
    sw_free w' = sw_free w \<and> transfers_ok (db_transfers (db w')) \<and>
    (case r of
       Inr rec \<Rightarrow> tr_status rec = Completed \<and> ledger_status (tr_id rec) (ledger_view w') = Some Completed
     | Inl e \<Rightarrow> is_db_error e)"
  using assms(2-4)
  by (rule service_run_ends [OF sftp_open_contract [OF assms(1)], where st = st and rq = rq])
    (auto simp: answer_true_def split: sum.splits)

text \<open>A server that drops every connection.\<close>

definition deaf_paramiko :: "'w paramiko" where
  "deaf_paramiko =
     \<lparr>pk_descriptions = [], pk_load_host_keys = (\<lambda>_ w. (Loaded, w)),
      pk_connect = (\<lambda>_ _ _ _ w. (Connected True, w)), pk_open_sftp = (\<lambda>w. (Inr [Cut End_of_file False True], w)),
      pk_respond = (\<lambda>n rq w. ([], w)), pk_close_sftp = (\<lambda>w. (None, w)), pk_disconnect = (\<lambda>w. (None, w))\<rparr>"

theorem sftp_service_answers_witness:
  "\<exists>r w'. service_run (application demo_store (sftp_open deaf_paramiko [])) demo_request demo_service = Some (r, w') \<and>
    sw_free w' = MAX_CONCURRENT_TRANSFERS"
proof -
  have "quiet_paramiko (deaf_paramiko :: service_world paramiko)"
    by (simp add: quiet_paramiko_def honours_def deaf_paramiko_def)
  from sftp_service_answers [OF this demo_transfers_ok, of demo_store "[]" demo_request] show ?thesis by auto
qed

end
