(* ===== verification/Sftp_Reads.thy ===== *)
theory Sftp_Reads
  imports Sftp_Correct
begin

text \<open>
  A download from a truthful server: whatever order the packets come in, however short they are, and
  wherever the transport fails, what the reads return is the file, in order.
\<close>

section \<open>Truthful servers\<close>

text \<open>
  \<open>asked\<close> is what the server was asked to read, by the number of the request. A truthful server
  answers no request before it was sent, and the data of its answers, whether it gives all of it or
  less, is that of the file.
\<close>

definition true_data :: "bytes \<Rightarrow> (nat \<rightharpoonup> nat \<times> nat) \<Rightarrow> nat \<Rightarrow> int \<times> bytes \<Rightarrow> bool" where
  "true_data file_data ask number reply \<longleftrightarrow>
     (fst reply = CMD_DATA \<longrightarrow>
       (\<exists>offset n. ask number = Some (offset, n) \<and>
          (\<forall>data r. string_field (Reader (snd reply)) = (Inr data, r) \<longrightarrow>
             data = take (length data) (drop offset file_data))))"

fun true_packet :: "bytes \<Rightarrow> (nat \<rightharpoonup> nat \<times> nat) \<Rightarrow> packet \<Rightarrow> bool" where
  "true_packet file_data ask (Packet k number body) = true_data file_data ask number (k, body)"

fun packet_number :: "packet \<Rightarrow> nat" where
  "packet_number (Packet k number body) = number"

definition truthful :: "'w paramiko \<Rightarrow> bytes \<Rightarrow> ('w \<Rightarrow> nat \<rightharpoonup> nat \<times> nat) \<Rightarrow> bool" where
  "truthful pk file_data asked \<longleftrightarrow>
     (\<forall>number rq w ps w'. pk_respond pk number rq w = (ps, w') \<longrightarrow>
        asked w' = (case rq of Read_at _ offset n \<Rightarrow> (asked w)(number \<mapsto> (offset, n)) | _ \<Rightarrow> asked w) \<and>
        (\<forall>p\<in>set ps. packet_number p \<le> number \<and> true_packet file_data (asked w') p))"

text \<open>What is on its way and what has arrived in a session.\<close>

definition true_session :: "bytes \<Rightarrow> (nat \<rightharpoonup> nat \<times> nat) \<Rightarrow> session \<Rightarrow> bool" where
  "true_session file_data ask s \<longleftrightarrow>
     (\<forall>p\<in>set (ss_inbox s). packet_number p < ss_number s \<and> true_packet file_data ask p) \<and>
     (\<forall>number reply. ss_replies s number = Some reply \<longrightarrow> number < ss_number s \<and> true_data file_data ask number reply)"

lemma true_session_new [simp]: "true_session file_data ask (new_session es)"
  by (simp add: true_session_def new_session_def)

lemma true_data_fresh:
  "true_data file_data ask number reply \<Longrightarrow> number < k \<Longrightarrow> true_data file_data (ask(k \<mapsto> x)) number reply"
  by (auto simp: true_data_def)

lemma true_packet_fresh: "true_packet file_data ask p \<Longrightarrow> packet_number p < k \<Longrightarrow> true_packet file_data (ask(k \<mapsto> x)) p"
  by (cases p) (auto intro: true_data_fresh)

lemma true_session_cong:
  "ss_inbox s' = ss_inbox s \<Longrightarrow> ss_replies s' = ss_replies s \<Longrightarrow> ss_number s' = ss_number s \<Longrightarrow>
   true_session file_data ask s' = true_session file_data ask s"
  by (simp add: true_session_def)

section \<open>Sending and receiving\<close>

lemma next_event_frame:
  "next_event s = (e, s') \<Longrightarrow> ss_inbox s' = ss_inbox s \<and> ss_replies s' = ss_replies s \<and> ss_number s' = ss_number s"
  by (auto simp: next_event_def split: list.splits)

lemma send_read_true:
  assumes "truthful pk file_data asked" "send pk (Read_at h offset n) (s, w) = (Inr number, (s', w'))"
    and "true_session file_data (asked w) s"
  shows "true_session file_data (asked w') s' \<and> asked w' = (asked w)(number \<mapsto> (offset, n)) \<and>
    number = ss_number s \<and> ss_number s' = Suc number"
proof -
  from assms(2) have run: "async_request pk (Read_at h offset n) (s, w) = (Inr number, (s', w'))"
    by (simp add: send_def watched_Inr)
  let ?s = "s\<lparr>ss_number := Suc (ss_number s), ss_expecting := insert (ss_number s) (ss_expecting s)\<rparr>"
  obtain e s1 where e: "next_event ?s = (e, s1)" by (rule prod.exhaust)
  obtain ps w1 where p: "pk_respond pk (ss_number s) (Read_at h offset n) w = (ps, w1)" by (rule prod.exhaust)
  from run e p have r: "number = ss_number s" "s' = s1\<lparr>ss_inbox := ss_inbox s1 @ ps\<rparr>" "w' = w1"
    by (auto simp: async_request_def Let_def split: link_event.splits)
  note frame = next_event_frame [OF e]
  from assms(1) p have a: "asked w1 = (asked w)(ss_number s \<mapsto> (offset, n))"
    "\<forall>p\<in>set ps. packet_number p \<le> ss_number s \<and> true_packet file_data (asked w1) p"
    unfolding truthful_def by fastforce+
  have "true_session file_data (asked w1) s'"
    using assms(3) a frame r(2)
    by (auto simp: true_session_def less_Suc_eq intro: true_packet_fresh true_data_fresh)
  with a(1) r frame show ?thesis by simp
qed

lemma async_response_true:
  assumes "true_session file_data ask s" "ss_inbox s = p # ps"
  shows "true_session file_data ask (async_response p (s\<lparr>ss_inbox := ps\<rparr>)) \<and>
    ss_number (async_response p (s\<lparr>ss_inbox := ps\<rparr>)) = ss_number s"
  using assms
  by (cases p) (auto simp: true_session_def async_response_def Let_def true_data_def OVERSIZED_def CMD_DATA_def)

lemma read_response_true:
  assumes "read_response (s, w) = (Inr u, (s', w'))" "true_session file_data ask s"
  shows "true_session file_data ask s' \<and> ss_number s' = ss_number s"
proof -
  obtain e s1 where e: "next_event s = (e, s1)" by (rule prod.exhaust)
  with assms(1) obtain p ps where "ss_inbox s1 = p # ps" "s' = async_response p (s1\<lparr>ss_inbox := ps\<rparr>)"
    by (auto simp: read_response_def split: link_event.splits list.splits)
  with async_response_true [of file_data ask s1 p ps] next_event_frame [OF e] assms(2) true_session_cong [of s1 s]
  show ?thesis by simp
qed

lemma await_true:
  "await number x = (Inr u, x') \<Longrightarrow> true_session file_data ask (fst x) \<Longrightarrow>
   true_session file_data ask (fst x') \<and> ss_number (fst x') = ss_number (fst x) \<and> snd x' = snd x"
proof (induction number x rule: await.induct)
  case (1 number s w)
  obtain y sw where y: "read_response (s, w) = (y, sw)" by (rule prod.exhaust)
  show ?case
  proof (cases "number \<in> dom (ss_replies s)")
    case True
    with 1 show ?thesis by (auto simp: await.simps [of number s w])
  next
    case False
    with "1.prems" y obtain v where v: "y = Inr v" "await number sw = (Inr u, x')"
      by (cases y) (auto simp: await.simps [of number s w])
    have "read_response (s, w) = (Inr v, (fst sw, snd sw))" using y v(1) by simp
    from read_response_true [OF this, of file_data ask] read_response_world [OF y] "1.prems"(2)
    have r: "true_session file_data ask (fst sw)" "ss_number (fst sw) = ss_number s" "snd sw = w" by simp_all
    with "1.IH" [OF False y [symmetric] v(1) v(2)] r show ?thesis by simp
  qed
qed

lemma receive_true:
  assumes "receive number CMD_DATA (s, w) = (Inr rd, (s', w'))" "true_session file_data ask s"
  shows "true_session file_data ask s' \<and> ss_number s' = ss_number s \<and> w' = w \<and>
    (\<exists>body. rd = Reader body \<and> true_data file_data ask number (CMD_DATA, body))"
proof -
  from assms(1) obtain s1 w1 reply where
    a: "await number (s, w) = (Inr (), (s1, w1))" and p: "pop_reply number (s1, w1) = (Inr reply, (s', w'))"
    and c: "check_reply reply CMD_DATA = Inr rd"
    by (auto simp: receive_def bind_eq_Inr watched_Inr of_result_def)
  from await_true [OF a] assms(2) have s1: "true_session file_data ask s1" "ss_number s1 = ss_number s" "w1 = w" by auto
  from p have reply: "ss_replies s1 number = Some reply" "w' = w1"
    "s' = s1\<lparr>ss_replies := (ss_replies s1)(number := None)\<rparr>"
    by (auto simp: pop_reply_def split: option.splits)
  have "true_session file_data ask s'" using s1(1) reply(3) by (auto simp: true_session_def)
  moreover have "fst reply = CMD_DATA \<and> rd = Reader (snd reply)"
    using c by (auto simp: check_reply_def CMD_DATA_def CMD_STATUS_def OVERSIZED_def split: if_splits prod.splits sum.splits)
  moreover have "true_data file_data ask number reply" using s1(1) reply(1) unfolding true_session_def by blast
  ultimately show ?thesis using s1 reply by (cases reply) auto
qed

section \<open>The window\<close>

text \<open>The pending ranges follow one another from \<open>p\<close> to \<open>q\<close>.\<close>

fun chain :: "nat \<Rightarrow> range list \<Rightarrow> nat \<Rightarrow> bool" where
  "chain p [] q \<longleftrightarrow> p = q"
| "chain p ((number, offset, n) # rs) q \<longleftrightarrow> offset = p \<and> chain (p + n) rs q"

lemma chain_snoc: "chain p rs q \<Longrightarrow> chain p (rs @ [(number, q, n)]) (q + n)"
  by (induction p rs q rule: chain.induct) auto

definition slice_at :: "bytes \<Rightarrow> nat \<Rightarrow> bytes \<Rightarrow> bool" where
  "slice_at file_data p data \<longleftrightarrow> (\<exists>rest. drop p file_data = data @ rest)"

lemma slice_at_eq: "slice_at file_data p data \<longleftrightarrow> data = take (length data) (drop p file_data)"
  unfolding slice_at_def by (metis append_eq_conv_conj append_take_drop_id)

lemma slice_at_Nil [simp]: "slice_at file_data p []"
  by (simp add: slice_at_def)

lemma drop_past: "drop (p + n) f = drop n (drop p f)"
  by (simp add: add.commute)

lemma slice_at_append: "slice_at f p (xs @ ys) \<longleftrightarrow> slice_at f p xs \<and> slice_at f (p + length xs) ys"
proof
  assume "slice_at f p (xs @ ys)"
  then obtain rest where "drop p f = xs @ ys @ rest" by (auto simp: slice_at_def)
  then have "drop (p + length xs) f = ys @ rest" unfolding drop_past by simp
  with \<open>drop p f = xs @ ys @ rest\<close>
  show "slice_at f p xs \<and> slice_at f (p + length xs) ys" by (auto simp: slice_at_def)
next
  assume "slice_at f p xs \<and> slice_at f (p + length xs) ys"
  then obtain r1 r2 where "drop p f = xs @ r1" "drop (p + length xs) f = ys @ r2" by (auto simp: slice_at_def)
  moreover from this have "r1 = ys @ r2" unfolding drop_past by simp
  ultimately show "slice_at f p (xs @ ys)" by (simp add: slice_at_def)
qed

text \<open>A download that has delivered \<open>pos\<close> bytes.\<close>

definition reading :: "bytes \<Rightarrow> ('w \<Rightarrow> nat \<rightharpoonup> nat \<times> nat) \<Rightarrow> nat \<Rightarrow> download \<times> (session \<times> 'w) \<Rightarrow> bool" where
  "reading file_data asked pos = (\<lambda>(d, (s, w)).
     true_session file_data (asked w) s \<and>
     (\<forall>r\<in>set (dl_pending d). asked w (fst r) = Some (snd r) \<and> fst r < ss_number s) \<and>
     slice_at file_data pos (dl_leftover d) \<and>
     chain (pos + length (dl_leftover d)) (dl_pending d) (dl_next_offset d))"

lemma request_true:
  assumes "truthful pk file_data asked" "Download_request pk offset n (d, (s, w)) = (Inr r, (d', (s', w')))"
    and "true_session file_data (asked w) s"
    and "\<forall>r\<in>set rs. asked w (fst r) = Some (snd r) \<and> fst r < ss_number s"
  shows "d' = d \<and> snd r = (offset, n) \<and> true_session file_data (asked w') s' \<and>
    (\<forall>r\<in>insert r (set rs). asked w' (fst r) = Some (snd r) \<and> fst r < ss_number s')"
proof -
  from Download_request_Inr [OF assms(2)] obtain number where d: "d' = d" "r = (number, offset, n)"
    "send pk (Read_at (dl_handle d) offset n) (s, w) = (Inr number, (s', w'))" by blast
  from send_read_true [OF assms(1) d(3) assms(3)] have
    t: "true_session file_data (asked w') s'" "asked w' = (asked w)(number \<mapsto> (offset, n))" "number = ss_number s"
      "ss_number s' = Suc number" by blast+
  have "asked w' (fst x) = Some (snd x) \<and> fst x < ss_number s'" if "x \<in> set rs" for x
    using assms(4) that t(2-4) by (fastforce simp: less_Suc_eq)
  moreover have "asked w' number = Some (offset, n)" "number < ss_number s'" using t(2,4) by simp_all
  ultimately have all: "\<forall>x\<in>insert r (set rs). asked w' (fst x) = Some (snd x) \<and> fst x < ss_number s'"
    unfolding d(2) by simp
  show ?thesis unfolding d(1,2) snd_conv using t(1) all [unfolded d(2)] by blast
qed

lemma fill_window_true:
  "fill_window pk x = (Inr u, x') \<Longrightarrow> truthful pk file_data asked \<Longrightarrow> reading file_data asked pos x \<Longrightarrow>
   reading file_data asked pos x'"
proof (induction pk x rule: fill_window.induct)
  case (1 pk d sw)
  let ?n = "min REQUEST_SIZE (dl_size d - dl_next_offset d)"
  obtain s w where sw: "sw = (s, w)" by (rule prod.exhaust)
  obtain y d1 s1 w1 where r: "Download_request pk (dl_next_offset d) ?n (d, (s, w)) = (y, (d1, (s1, w1)))" by (rule prod_cases4)
  show ?case
  proof (cases "length (dl_pending d) < WINDOW \<and> unrequested d")
    case True
    then obtain range where y: "y = Inr range"
      using "1.prems"(1) r sw by (cases y) (auto simp: fill_window.simps [of pk d "(s, w)"] Let_def)
    let ?d = "d1\<lparr>dl_pending := dl_pending d1 @ [range], dl_next_offset := dl_next_offset d1 + ?n\<rparr>"
    have j: "true_session file_data (asked w) s"
      "\<forall>r\<in>set (dl_pending d). asked w (fst r) = Some (snd r) \<and> fst r < ss_number s"
      "slice_at file_data pos (dl_leftover d)" "chain (pos + length (dl_leftover d)) (dl_pending d) (dl_next_offset d)"
      using "1.prems"(3) sw by (simp_all add: reading_def)
    note t = request_true [OF "1.prems"(2) r [unfolded y] j(1,2)]
    then have range: "range = (fst range, dl_next_offset d, ?n)" by (metis prod.collapse)
    have run: "fill_window pk (d\<lparr>dl_pending := dl_pending d @ [range], dl_next_offset := dl_next_offset d + ?n\<rparr>, (s1, w1)) = (Inr u, x')"
      using "1.prems"(1) True r y t sw by (simp add: fill_window.simps [of pk d "(s, w)"] Let_def)
    have "reading file_data asked pos (d\<lparr>dl_pending := dl_pending d @ [range], dl_next_offset := dl_next_offset d + ?n\<rparr>, (s1, w1))"
      using t j(3) chain_snoc [OF j(4), of "fst range" ?n] range by (auto simp: reading_def)
    with "1.IH" [OF True refl r [symmetric, folded sw] y refl run "1.prems"(2)] show ?thesis by simp
  next
    case False
    with "1.prems" show ?thesis by (auto simp: fill_window.simps [of pk d sw])
  qed
qed

lemma receive_data_true:
  assumes "receive_data number (s, w) = (Inr data, (s', w'))" "true_session file_data (asked w) s"
    and "asked w number = Some (offset, n)" "data \<noteq> []"
  shows "true_session file_data (asked w) s' \<and> ss_number s' = ss_number s \<and> w' = w \<and> slice_at file_data offset data"
proof -
  from assms(1,4) have "bind (receive number CMD_DATA) (parse string_field) (s, w) = (Inr data, (s', w'))"
    by (auto simp: receive_data_def try_except_apply split: prod.splits sum.splits if_splits)
  then obtain rd where rd: "receive number CMD_DATA (s, w) = (Inr rd, (s', w'))" "fst (string_field rd) = Inr data"
    by (auto simp: bind_eq_Inr parse_def of_result_def)
  from receive_true [OF rd(1) assms(2)] obtain body where
    r: "true_session file_data (asked w) s'" "ss_number s' = ss_number s" "w' = w" "rd = Reader body"
      "true_data file_data (asked w) number (CMD_DATA, body)" by blast
  obtain rd' where "string_field (Reader body) = (Inr data, rd')" using rd(2) r(4) by (metis prod.collapse)
  with r(5) assms(3) have "slice_at file_data offset data" by (auto simp: true_data_def slice_at_eq)
  with r show ?thesis by simp
qed

lemma next_reply_true:
  assumes "next_reply pk (d, sw) = (Inr data, (d', sw'))" "truthful pk file_data asked"
    "reading file_data asked pos (d, sw)" "dl_leftover d = []"
  shows "slice_at file_data pos data \<and> reading file_data asked (pos + length data) (d', sw') \<and> dl_leftover d' = []"
proof -
  from assms(1) obtain d1 sw1 where f: "fill_window pk (d, sw) = (Inr (), (d1, sw1))"
    and run: "bind pop_pending (\<lambda>(number, offset, n).
     bind (on_world (receive_data number)) (\<lambda>data.
     bind self (\<lambda>d.
       if data = [] then raise (source_changed (dl_name d))
       else if n < length data then raise bad_message
       else
         bind (only_if (length data < n)
           (bind (Download_request pk (offset + length data) (n - length data)) (\<lambda>r.
            assign (\<lambda>d. d\<lparr>dl_pending := r # dl_pending d\<rparr>)))) (\<lambda>_.
         ret data)))) (d1, sw1) = (Inr data, (d', sw'))"
    unfolding next_reply_def bind_eq_Inr by auto
  obtain s1 w1 where sw1: "sw1 = (s1, w1)" by (rule prod.exhaust)
  obtain number offset n rs where p: "dl_pending d1 = (number, offset, n) # rs"
    using run by (cases "dl_pending d1") (auto simp: bind_apply pop_pending_def)
  obtain x s2 w2 where x: "receive_data number (s1, w1) = (x, (s2, w2))" by (rule prod_cases3)
  with run p sw1 have data: "x = Inr data" "data \<noteq> []" "length data \<le> n" and
    rest: "only_if (length data < n)
           (bind (Download_request pk (offset + length data) (n - length data)) (\<lambda>r.
            assign (\<lambda>d. d\<lparr>dl_pending := r # dl_pending d\<rparr>))) (d1\<lparr>dl_pending := rs\<rparr>, (s2, w2)) = (Inr (), (d', sw'))"
    by (auto simp: bind_apply pop_pending_def assign_apply on_world_apply split: if_splits sum.splits prod.splits)
  have left: "dl_leftover d1 = []" using fill_window_owed [OF f] assms(4) by simp
  have j: "true_session file_data (asked w1) s1"
      "\<forall>r\<in>set ((number, offset, n) # rs). asked w1 (fst r) = Some (snd r) \<and> fst r < ss_number s1"
      "offset = pos" "chain (pos + n) rs (dl_next_offset d1)"
    using fill_window_true [OF f assms(2,3)] sw1 p left by (auto simp: reading_def)
  have asked: "asked w1 number = Some (offset, n)" using j(2) by simp
  have got: "true_session file_data (asked w1) s2" "ss_number s2 = ss_number s1" "w2 = w1" "slice_at file_data offset data"
    using receive_data_true [where asked = asked, OF x [unfolded data(1)] j(1) asked data(2)] by auto
  show ?thesis
  proof (cases "length data < n")
    case True
    with rest obtain r d2 s3 w3 where
      req: "Download_request pk (offset + length data) (n - length data) (d1\<lparr>dl_pending := rs\<rparr>, (s2, w2)) = (Inr r, (d2, (s3, w3)))"
      "d' = d2\<lparr>dl_pending := r # dl_pending d2\<rparr>" "sw' = (s3, w3)"
      by (auto simp: only_if_def bind_eq_Inr)
    have "\<forall>r\<in>set rs. asked w2 (fst r) = Some (snd r) \<and> fst r < ss_number s2" using j(2) got by simp
    with request_true [OF assms(2) req(1) _ this] got
    have t: "d2 = d1\<lparr>dl_pending := rs\<rparr>" "snd r = (offset + length data, n - length data)"
      "true_session file_data (asked w3) s3" "\<forall>r\<in>insert r (set rs). asked w3 (fst r) = Some (snd r) \<and> fst r < ss_number s3"
      by auto
    have r: "r = (fst r, offset + length data, n - length data)" using t(2) by (metis prod.collapse)
    have "chain (pos + length data) (r # rs) (dl_next_offset d1)"
      using j(3,4) True by (subst r) simp
    with t req(2,3) got j(3) left show ?thesis by (auto simp: reading_def)
  next
    case False
    with rest data(3) have "d' = d1\<lparr>dl_pending := rs\<rparr>" "sw' = (s2, w2)" "length data = n" by (auto simp: only_if_def)
    with got j left show ?thesis by (auto simp: reading_def)
  qed
qed

lemma read_loop_true:
  "read_loop pk n buffer x = (Inr result, x') \<Longrightarrow> truthful pk file_data asked \<Longrightarrow> reading file_data asked pos x \<Longrightarrow>
   \<exists>data. result = buffer @ data \<and> slice_at file_data pos data \<and> reading file_data asked (pos + length data) x'"
proof (induction pk n buffer x arbitrary: pos rule: read_loop.induct)
  case (1 pk n buffer d sw)
  let ?more = "length buffer < n \<and> (dl_leftover d \<noteq> [] \<or> dl_pending d \<noteq> [] \<or> unrequested d)"
  obtain s w where sw: "sw = (s, w)" by (rule prod.exhaust)
  show ?case
  proof (cases ?more)
    case True
    let ?step = "if dl_leftover d = [] then next_reply pk (d, sw) else (Inr (dl_leftover d), (d, sw))"
    obtain y d1 sw1 where r: "?step = (y, (d1, sw1))" by (rule prod_cases3)
    obtain data where y: "y = Inr data"
      using "1.prems"(1) True r by (cases y) (auto simp: read_loop.simps [of pk n buffer d sw])
    obtain s1 w1 where sw1: "sw1 = (s1, w1)" by (rule prod.exhaust)
    let ?wanted = "n - length buffer"
    let ?part = "take ?wanted data" and ?d = "d1\<lparr>dl_leftover := drop ?wanted data\<rparr>"
    have at: "slice_at file_data pos data" "true_session file_data (asked w1) s1"
      "\<forall>r\<in>set (dl_pending d1). asked w1 (fst r) = Some (snd r) \<and> fst r < ss_number s1"
      "chain (pos + length data) (dl_pending d1) (dl_next_offset d1)"
    proof -
      have "slice_at file_data pos data \<and> true_session file_data (asked w1) s1 \<and>
        (\<forall>r\<in>set (dl_pending d1). asked w1 (fst r) = Some (snd r) \<and> fst r < ss_number s1) \<and>
        chain (pos + length data) (dl_pending d1) (dl_next_offset d1)"
      proof (cases "dl_leftover d = []")
        case True
        with r y have "next_reply pk (d, sw) = (Inr data, (d1, sw1))" by simp
        from next_reply_true [OF this "1.prems"(2,3) True] have
          "slice_at file_data pos data" "reading file_data asked (pos + length data) (d1, sw1)" "dl_leftover d1 = []" by auto
        with sw1 show ?thesis by (simp add: reading_def)
      next
        case False
        with r y have same: "data = dl_leftover d" "d1 = d" "sw1 = sw" by auto
        then have "s1 = s" "w1 = w" using sw sw1 by simp_all
        with same "1.prems"(3) sw show ?thesis by (simp add: reading_def)
      qed
      then show "slice_at file_data pos data" "true_session file_data (asked w1) s1"
        "\<forall>r\<in>set (dl_pending d1). asked w1 (fst r) = Some (snd r) \<and> fst r < ss_number s1"
        "chain (pos + length data) (dl_pending d1) (dl_next_offset d1)" by blast+
    qed
    have run: "read_loop pk n (buffer @ ?part) (?d, sw1) = (Inr result, x')"
      using "1.prems"(1) True r y by (simp add: read_loop.simps [of pk n buffer d sw] Let_def)
    have part: "slice_at file_data pos ?part" "slice_at file_data (pos + length ?part) (drop ?wanted data)"
      using slice_at_append [of file_data pos ?part "drop ?wanted data"] at(1) by simp_all
    have "pos + length ?part + length (drop ?wanted data) = pos + length data" by simp
    with at(4) have "chain (pos + length ?part + length (drop ?wanted data)) (dl_pending d1) (dl_next_offset d1)"
      by (simp only:)
    then have "reading file_data asked (pos + length ?part) (?d, sw1)"
      using at(2,3) part(2) sw1 by (simp add: reading_def)
    from "1.IH" [OF True r [symmetric] y refl refl run "1.prems"(2) this] obtain more where
      more: "result = (buffer @ ?part) @ more" "slice_at file_data (pos + length ?part) more"
        "reading file_data asked (pos + length ?part + length more) x'" by blast
    have "slice_at file_data pos (?part @ more)" using part(1) more(2) by (simp add: slice_at_append)
    moreover have "pos + length (?part @ more) = pos + length ?part + length more" by simp
    ultimately show ?thesis using more(1,3) by (intro exI [of _ "?part @ more"]) (simp only: append_assoc)
  next
    case False
    with "1.prems" show ?thesis by (auto simp: read_loop.simps [of pk n buffer d sw] intro!: exI [of _ "[]"])
  qed
qed

section \<open>Reading a file\<close>

fun read_all :: "'w paramiko \<Rightarrow> nat list \<Rightarrow> (download \<times> (session \<times> 'w), bytes) io" where
  "read_all pk [] = ret []"
| "read_all pk (n # ns) = bind (Download_read pk n) (\<lambda>data. bind (read_all pk ns) (\<lambda>rest. ret (data @ rest)))"

lemma read_all_true:
  "read_all pk ns x = (Inr data, x') \<Longrightarrow> truthful pk file_data asked \<Longrightarrow> reading file_data asked pos x \<Longrightarrow>
   slice_at file_data pos data \<and> length data = min (sum_list ns) (owed (fst x))"
proof (induction ns arbitrary: x data pos)
  case (Cons n ns)
  then obtain first x1 rest where
    f: "Download_read pk n x = (Inr first, x1)" "read_all pk ns x1 = (Inr rest, x')" "data = first @ rest"
    by (auto simp: bind_eq_Inr)
  obtain d sw d1 sw1 where x: "x = (d, sw)" "x1 = (d1, sw1)" by (metis prod.exhaust)
  note count = Download_read_owed [OF f(1) [unfolded x]]
  have "read_loop pk n [] x = (Inr first, x1)"
    using f(1) x by (auto simp: Download_read_def bind_apply failures_def translate_eq_Inr)
  from read_loop_true [OF this Cons.prems(2,3)] have
    "slice_at file_data pos first" "reading file_data asked (pos + length first) x1" by auto
  with Cons.IH [OF f(2) Cons.prems(2)] f(3) count x show ?case by (auto simp: slice_at_append)
qed auto

text \<open>
  C29. From a server that is truthful about the file, a download delivers the file: any reads that
  all return give together the first bytes of the file, as many as were asked for, or the size at the
  opening when that is less, however the server orders, splits and delays its answers.
\<close>

theorem sftp_delivers_the_file:
  assumes "truthful pk file_data asked" "read_all pk ns (Download handle m name, (s, w)) = (Inr data, x)"
    and "ss_inbox s = []" "ss_replies s = Map.empty"
  shows "data = take (length data) file_data \<and> length data = min (sum_list ns) m"
proof -
  have "reading file_data asked 0 (Download handle m name, (s, w))"
    using assms(3,4) by (simp add: reading_def Download_def true_session_def)
  from read_all_true [OF assms(2,1) this] have "slice_at file_data 0 data" "length data = min (sum_list ns) m"
    by (simp_all add: owed_def Download_def)
  then show ?thesis unfolding slice_at_eq drop_0 by blast
qed

text \<open>A server of a file, which gives one byte of what it is asked.\<close>

fun slow_answer :: "bytes \<Rightarrow> bytes" where
  "slow_answer [] = [0, 0, 0, 0]"
| "slow_answer (b # bs) = [0, 0, 0, 1, b]"

definition slow_paramiko :: "bytes \<Rightarrow> (nat \<rightharpoonup> nat \<times> nat) paramiko" where
  "slow_paramiko file_data =
     \<lparr>pk_descriptions = [], pk_load_host_keys = (\<lambda>_ w. (Loaded, w)),
      pk_connect = (\<lambda>_ _ _ _ w. (Connected True, w)), pk_open_sftp = (\<lambda>w. (Inr [], w)),
      pk_respond = (\<lambda>n rq w. case rq of
          Read_at _ offset m \<Rightarrow> ([Packet CMD_DATA n (slow_answer (drop offset file_data))], w(n \<mapsto> (offset, m)))
        | _ \<Rightarrow> ([], w)),
      pk_close_sftp = (\<lambda>w. (None, w)), pk_disconnect = (\<lambda>w. (None, w))\<rparr>"

lemma slow_truthful: "truthful (slow_paramiko file_data) file_data (\<lambda>w. w)"
proof -
  have "data = take (length data) bs" if "string_field (Reader (slow_answer bs)) = (Inr data, r)" for bs data r
    using that by (cases bs) (auto simp: string_field_def sftp_eval)
  then show ?thesis
    by (fastforce simp: truthful_def slow_paramiko_def true_data_def split: request.splits)
qed

lemma slow_run:
  "\<exists>x. read_all (slow_paramiko [4, 5, 6]) [2, 5] (Download [7] 3 [], (new_session [], Map.empty)) = (Inr [4, 5, 6], x)"
  by (simp add: sftp_eval Download_read_def Download_def read_loop.simps unrequested_def next_reply_def slow_paramiko_def
      fill_window.simps Download_request_def WINDOW_def REQUEST_SIZE_def pop_pending_def receive_data_def)

theorem sftp_delivers_the_file_witness:
  "\<exists>data x. read_all (slow_paramiko [4, 5, 6]) [2, 5] (Download [7] 3 [], (new_session [], Map.empty)) = (Inr data, x) \<and>
     data = take (length data) [4, 5, 6] \<and> length data = 3"
proof -
  obtain x where run: "read_all (slow_paramiko [4, 5, 6]) [2, 5] (Download [7] 3 [], (new_session [], Map.empty)) =
    (Inr [4, 5, 6], x)" using slow_run by blast
  from sftp_delivers_the_file [OF slow_truthful run] have
    "[4, 5, 6] = take (length [4, 5, 6]) [4, 5, 6 :: 8 word] \<and> length [4, 5, 6 :: 8 word] = min (sum_list [2, 5]) 3"
    by (simp add: new_session_def)
  then have "[4, 5, 6] = take (length [4, 5, 6]) [4, 5, 6 :: 8 word] \<and> length [4, 5, 6 :: 8 word] = 3" by simp
  with run show ?thesis by blast
qed

end
