(* ===== verification/Within.thy ===== *)
theory Within
  imports Sftp_Frames Loops
begin

text \<open>
  \<open>within J P m\<close>: from a state in \<open>J\<close> the statement \<open>m\<close> ends in one, and what it raises there
  satisfies \<open>P\<close>. One rule per statement form carries both claims through a whole program.
\<close>

definition within :: "('s \<Rightarrow> bool) \<Rightarrow> (exn \<Rightarrow> bool) \<Rightarrow> ('s, 'a) io \<Rightarrow> bool" where
  "within J P m \<longleftrightarrow> (\<forall>s r s'. J s \<longrightarrow> m s = (r, s') \<longrightarrow> J s' \<and> (\<forall>e. r = Inl e \<longrightarrow> P e))"

definition pwithin :: "('s \<Rightarrow> bool) \<Rightarrow> (exn \<Rightarrow> bool) \<Rightarrow> ('s, 'a) run \<Rightarrow> bool" where
  "pwithin J P m \<longleftrightarrow> (\<forall>s r s'. J s \<longrightarrow> m s = Some (r, s') \<longrightarrow> J s' \<and> (\<forall>e. r = Inl e \<longrightarrow> P e))"

named_theorems within_rules \<open>one rule per statement form\<close>

section \<open>Statements\<close>

lemma withinI:
  "(\<And>s r s'. J s \<Longrightarrow> m s = (r, s') \<Longrightarrow> J s' \<and> (\<forall>e. r = Inl e \<longrightarrow> P e)) \<Longrightarrow> within J P m"
  by (simp add: within_def)

lemma withinD: "within J P m \<Longrightarrow> J s \<Longrightarrow> m s = (r, s') \<Longrightarrow> J s' \<and> (\<forall>e. r = Inl e \<longrightarrow> P e)"
  by (simp add: within_def)

lemma within_both: "maintains J m \<Longrightarrow> raises P m \<Longrightarrow> within J P m"
  by (auto intro!: withinI dest: maintainsD raisesD)

lemma within_mono: "within J P m \<Longrightarrow> (\<And>e. P e \<Longrightarrow> Q e) \<Longrightarrow> within J Q m"
  unfolding within_def by blast

lemma within_hoare: "within J P m \<longleftrightarrow> hoare J m (\<lambda>_. J) (\<lambda>e s. J s \<and> P e)"
  by (auto simp: within_def hoare_def split: prod.splits sum.splits) (metis sum.exhaust)+

lemma within_ret [within_rules]: "within J P (ret x)" "within J P (get f)"
  by (auto simp: within_def)

lemma within_self [within_rules]: "within J P self"
  by (auto simp: within_def self_def split: prod.splits)

lemma within_raise [within_rules]: "P e \<Longrightarrow> within J P (raise e)"
  by (auto simp: within_def)

lemma within_of_result [within_rules]: "(\<And>e. r = Inl e \<Longrightarrow> P e) \<Longrightarrow> within J P (of_result r)"
  by (auto simp: within_def)

lemma within_modify: "(\<And>s. J s \<Longrightarrow> J (f s)) \<Longrightarrow> within J P (modify f)"
  by (auto simp: within_def)

lemma within_assign [within_rules]: "within (\<lambda>s. J (snd s)) P (assign f)"
  by (auto simp: within_def assign_def)

lemma within_bind [within_rules]:
  assumes "within J P m" "\<And>x. within J P (f x)" shows "within J P (bind m f)"
  unfolding within_hoare
  by (rule hoare_bind [OF assms(2) [unfolded within_hoare]]) (use assms(1) in \<open>simp add: within_hoare\<close>)

lemma within_try_except:
  assumes "within J Q m" "\<And>e. Q e \<Longrightarrow> within J P (h e)" shows "within J P (try_except m h)"
proof (rule withinI)
  fix s r s' assume J: "J s" and run: "try_except m h s = (r, s')"
  obtain x s1 where m: "m s = (x, s1)" by (rule prod.exhaust)
  from withinD [OF assms(1) J m] run m assms(2) show "J s' \<and> (\<forall>e. r = Inl e \<longrightarrow> P e)"
    by (cases x) (auto simp: try_except_apply dest: withinD)
qed

lemma within_translate: "within J Q m \<Longrightarrow> (\<And>e. Q e \<Longrightarrow> P (f e)) \<Longrightarrow> within J P (translate f m)"
  by (auto simp: within_def translate_apply split: prod.splits sum.splits)

lemma within_try_finally [within_rules]:
  assumes "within J P m" "within J P c" shows "within J P (try_finally m c)"
proof (rule withinI)
  fix s r s' assume J: "J s" and run: "try_finally m c s = (r, s')"
  obtain x s1 where m: "m s = (x, s1)" by (rule prod.exhaust)
  obtain y s2 where c: "c s1 = (y, s2)" by (rule prod.exhaust)
  from withinD [OF assms(1) J m] withinD [OF assms(2) _ c] run m c show "J s' \<and> (\<forall>e. r = Inl e \<longrightarrow> P e)"
    by (cases y) (auto simp: try_finally_apply)
qed

lemma within_only_if [within_rules]: "within J P m \<Longrightarrow> within J P (only_if b m)"
  unfolding only_if_def by (cases b) (simp_all add: within_ret)

lemma within_if [within_rules]:
  "(b \<Longrightarrow> within J P m) \<Longrightarrow> (\<not> b \<Longrightarrow> within J P m') \<Longrightarrow> within J P (if b then m else m')"
  by simp

lemma within_option [within_rules]:
  "(x = None \<Longrightarrow> within J P m) \<Longrightarrow> (\<And>y. x = Some y \<Longrightarrow> within J P (f y)) \<Longrightarrow>
   within J P (case x of None \<Rightarrow> m | Some y \<Rightarrow> f y)"
  by (cases x) simp_all

lemma within_prod [within_rules]:
  "(\<And>a b. x = (a, b) \<Longrightarrow> within J P (f a b)) \<Longrightarrow> within J P (case x of (a, b) \<Rightarrow> f a b)"
  by (cases x) simp_all

lemma within_on_world [within_rules]: "within J P m \<Longrightarrow> within (\<lambda>s. J (snd s)) P (on_world m)"
  by (rule withinI) (auto simp: on_world_def split: prod.splits dest: withinD)

lemma within_stream [within_rules]:
  assumes "within (\<lambda>s. J (snd s)) P m" shows "within (\<lambda>s. J (snd (snd s))) P (stream m)"
proof (rule withinI)
  fix s :: "'a \<times> 'd \<times> 'b" and r s' assume J: "J (snd (snd s))" and run: "stream m s = (r, s')"
  obtain x obj w where s: "s = (x, (obj, w))" by (rule prod_cases3)
  obtain y x' w' where m: "m (x, w) = (y, (x', w'))" by (rule prod_cases3)
  from withinD [OF assms _ m] J run s m show "J (snd (snd s')) \<and> (\<forall>e. r = Inl e \<longrightarrow> P e)"
    by (auto simp: stream_apply)
qed

text \<open>What raises nothing of its own may raise what was raised before.\<close>

lemma leave_block_within:
  "within (\<lambda>s. J (snd s)) P m \<Longrightarrow> J (snd s) \<Longrightarrow> leave_block m s = (r, w) \<Longrightarrow> J w \<and> (\<forall>e. r = Inl e \<longrightarrow> P e)"
  by (auto simp: leave_block_def split: prod.splits dest: withinD)

lemma within_with_block [within_rules]:
  assumes "within J P enter" "within (\<lambda>s. J (snd s)) P body"
    and "\<And>failure. (\<And>e. failure = Some e \<Longrightarrow> P e) \<Longrightarrow> within (\<lambda>s. J (snd s)) P (exit failure)"
  shows "within J P (with_block enter body exit)"
proof (rule withinI)
  fix w r w' assume J: "J w" and run: "with_block enter body exit w = (r, w')"
  obtain x w1 where x: "enter w = (x, w1)" by (rule prod.exhaust)
  note entered = withinD [OF assms(1) J x]
  show "J w' \<and> (\<forall>e. r = Inl e \<longrightarrow> P e)"
  proof (cases x)
    case (Inl e)
    with run x entered show ?thesis by (auto simp: with_block_def)
  next
    case (Inr obj)
    obtain y s where y: "body (obj, w1) = (y, s)" by (rule prod.exhaust)
    have inside: "J (snd s) \<and> (\<forall>e. y = Inl e \<longrightarrow> P e)" using withinD [OF assms(2) _ y] entered by simp
    let ?failure = "case y of Inl e \<Rightarrow> Some e | Inr _ \<Rightarrow> None"
    have "within (\<lambda>s. J (snd s)) P (exit ?failure)"
      by (rule assms(3)) (use inside in \<open>auto split: sum.splits\<close>)
    moreover have "leave_block (exit ?failure) s = (r, w')"
      using run x Inr y by (cases y) (simp_all add: with_block_def)
    ultimately show ?thesis using inside by (auto dest: leave_block_within)
  qed
qed

section \<open>Runs\<close>

lemma pwithinD: "pwithin J P m \<Longrightarrow> J s \<Longrightarrow> m s = Some (r, s') \<Longrightarrow> J s' \<and> (\<forall>e. r = Inl e \<longrightarrow> P e)"
  by (simp add: pwithin_def)

lemma pwithin_triple: "pwithin J P m \<longleftrightarrow> triple False J m (\<lambda>_. J) (\<lambda>e s. J s \<and> P e)"
proof
  assume "pwithin J P m"
  note run = pwithinD [OF this]
  show "triple False J m (\<lambda>_. J) (\<lambda>e s. J s \<and> P e)"
  proof (rule tripleI)
    fix s assume J: "J s"
    show "ends False (\<lambda>_. J) (\<lambda>e s. J s \<and> P e) (m s)"
    proof (cases "m s" rule: run_cases)
      case (failed e s')
      with run [OF J failed] show ?thesis by simp
    next
      case (returned x s')
      with run [OF J returned] show ?thesis by simp
    qed simp
  qed
next
  assume t: "triple False J m (\<lambda>_. J) (\<lambda>e s. J s \<and> P e)"
  show "pwithin J P m"
    unfolding pwithin_def
  proof (intro allI impI)
    fix s r s' assume J: "J s" and m: "m s = Some (r, s')"
    from tripleD [OF t J] have "ends False (\<lambda>_. J) (\<lambda>e s. J s \<and> P e) (Some (r, s'))" unfolding m .
    then show "J s' \<and> (\<forall>e. r = Inl e \<longrightarrow> P e)" by (cases r) simp_all
  qed
qed

lemma pwithin_total [within_rules]: "within J P m \<Longrightarrow> pwithin J P (total m)"
  by (simp add: within_def pwithin_def total_def)

lemma pwithin_pbind [within_rules]:
  "pwithin J P m \<Longrightarrow> (\<And>x. pwithin J P (f x)) \<Longrightarrow> pwithin J P (pbind m f)"
  unfolding pwithin_triple by (rule triple_pbind)

lemma pwithin_if [within_rules]:
  "(b \<Longrightarrow> pwithin J P m) \<Longrightarrow> (\<not> b \<Longrightarrow> pwithin J P m') \<Longrightarrow> pwithin J P (if b then m else m')"
  by simp

lemma pwithin_ptry_except:
  assumes "pwithin J Q m" "\<And>e. Q e \<Longrightarrow> pwithin J P (h e)" shows "pwithin J P (ptry_except m h)"
  unfolding pwithin_triple
proof (rule triple_ptry_except)
  show "triple False J m (\<lambda>_. J) (\<lambda>e s. J s \<and> Q e)" using assms(1) by (simp add: pwithin_triple)
  show "triple False (\<lambda>s. J s \<and> Q e) (h e) (\<lambda>_. J) (\<lambda>e s. J s \<and> P e)" for e
    using assms(2) [of e] by (cases "Q e") (auto simp: pwithin_triple triple_def)
qed

lemma pwithin_ptry_finally [within_rules]:
  assumes "pwithin J P m" "within J P c" shows "pwithin J P (ptry_finally m c)"
  unfolding pwithin_triple
proof (rule triple_ptry_finally)
  show "triple False J m (\<lambda>_. J) (\<lambda>e s. J s \<and> P e)" using assms(1) by (simp add: pwithin_triple)
  show "hoare J c (\<lambda>_. J) (\<lambda>e s. J s \<and> P e)" using assms(2) by (simp add: within_hoare)
  show "hoare (\<lambda>s. J s \<and> P e) c (\<lambda>_ s. J s \<and> P e) (\<lambda>e s. J s \<and> P e)" for e
    by (rule hoareI) (use withinD [OF assms(2)] in blast)+
qed

lemma pwithin_pwith_block [within_rules]:
  assumes "within J P enter" "pwithin (\<lambda>s. J (snd s)) P body"
    and "\<And>failure. (\<And>e. failure = Some e \<Longrightarrow> P e) \<Longrightarrow> within (\<lambda>s. J (snd s)) P (exit failure)"
  shows "pwithin J P (pwith_block enter body exit)"
  unfolding pwithin_triple
proof (rule triple_pwith_block)
  show "hoare J enter (\<lambda>obj w. J (snd (obj, w))) (\<lambda>e s. J s \<and> P e)" using assms(1) by (simp add: within_hoare)
  show "triple False (\<lambda>s. J (snd s)) body (\<lambda>_ s. J (snd s)) (\<lambda>e s. J (snd s) \<and> P e)"
    using assms(2) by (simp add: pwithin_triple)
  show "hoare (\<lambda>s. J (snd s)) (exit None) (\<lambda>_ s. J (snd s)) (\<lambda>e s. J (snd s) \<and> P e)"
    using assms(3) [of None] by (simp add: within_hoare)
  show "hoare (\<lambda>s. J (snd s) \<and> P e) (exit (Some e)) (\<lambda>_ s. J (snd s)) (\<lambda>e s. J (snd s) \<and> P e)" for e
    by (rule hoareI) (use withinD [OF assms(3) [of "Some e"]] in blast)+
qed

lemma pwithin_repeat_loop [within_rules]: "within J P step \<Longrightarrow> pwithin J P (repeat_loop step)"
  unfolding pwithin_triple
  by (rule triple_repeat_loop) (simp_all add: within_hoare)

end
