(* ===== verification/Error_Codes.thy ===== *)
theory Error_Codes
  imports Sftp_Contract Registry
begin

text \<open>
  Which error codes the connectors raise: \<open>codes S\<close> holds of every exception that is no
  \<open>DataBridgeError\<close>, and of those with a code in \<open>S\<close>.
\<close>

section \<open>Codes of an exception\<close>

definition codes :: "error_code set \<Rightarrow> exn \<Rightarrow> bool" where
  "codes S e \<longleftrightarrow> (is_db_error e \<longrightarrow> err_code e \<in> S)"

lemma codes_simps [simp]:
  "codes S (db_error c m) \<longleftrightarrow> c \<in> S" "codes S (DataBridgeError c m t) \<longleftrightarrow> c \<in> S"
  "codes S (OSError n)" "codes S (PyError s)" "codes S (SqliteError s x)" "codes S (SftpStatus k)" "codes S (StartupError m)"
  by (simp_all add: codes_def)

lemma codes_untyped: "\<not> is_db_error e \<Longrightarrow> codes S e"
  by (simp add: codes_def)

lemma codes_of: "has_code c e \<Longrightarrow> c \<in> S \<Longrightarrow> codes S e"
  by (cases e) (auto simp: codes_def)

lemma codes_errors [simp]:
  "codes S local_root_unavailable \<longleftrightarrow> CONNECTION_ROOT_UNAVAILABLE \<in> S"
  "codes S (sftp_root_unavailable r) \<longleftrightarrow> CONNECTION_ROOT_UNAVAILABLE \<in> S"
  "codes S (source_changed f) \<longleftrightarrow> SOURCE_CHANGED \<in> S"
  "codes S (destination_exists f) \<longleftrightarrow> DESTINATION_EXISTS \<in> S"
  "codes S (not_writable r) \<longleftrightarrow> DESTINATION_NOT_WRITABLE \<in> S"
  "codes S (file_not_readable f) \<longleftrightarrow> FILE_NOT_READABLE \<in> S"
  "codes S (not_regular f) \<longleftrightarrow> FILE_NOT_FOUND \<in> S"
  "codes S (unavailable a) \<longleftrightarrow> SFTP_UNAVAILABLE \<in> S"
  "codes S size_unreported \<longleftrightarrow> SFTP_OPERATION_FAILED \<in> S"
  "codes S (size_differs m n) \<longleftrightarrow> SFTP_OPERATION_FAILED \<in> S"
  "codes S (missing_host_key c k) \<longleftrightarrow> SFTP_HOST_KEY_REJECTED \<in> S"
  "codes S (host_key_mismatch c k) \<longleftrightarrow> SFTP_HOST_KEY_REJECTED \<in> S"
  "codes S (trust_file_unusable c x) \<longleftrightarrow> SFTP_HOST_KEY_REJECTED \<in> S"
  "codes S timeout_error" "codes S bad_message"
  by (simp_all add: local_root_unavailable_def sftp_root_unavailable_def source_changed_def destination_exists_def
      not_writable_def file_not_readable_def not_regular_def unavailable_def size_unreported_def size_differs_def
      missing_host_key_def host_key_mismatch_def trust_file_unusable_def timeout_error_def bad_message_def)

lemma filename_codes: "validate_filename f = Inl e \<Longrightarrow> INVALID_FILENAME \<in> S \<Longrightarrow> codes S e"
  by (rule codes_of [OF validate_filename_Inl])

section \<open>The local connector\<close>

definition WRITE_FAILURES :: "error_code set" where
  "WRITE_FAILURES = {DESTINATION_FULL, DESTINATION_NOT_WRITABLE, DESTINATION_WRITE_FAILED}"

lemma codes_write_error: "WRITE_FAILURES \<subseteq> S \<Longrightarrow> codes S (write_error n a)"
  by (auto simp: write_error_def WRITE_FAILURES_def)

lemma codes_os: "raises is_oserror m \<Longrightarrow> raises (codes S) m"
  by (erule raises_mono) (auto intro: codes_untyped elim: is_oserror.elims)

lemma codes_translate_os:
  "raises is_oserror m \<Longrightarrow> (\<And>n. codes S (f n)) \<Longrightarrow> raises (codes S) (translate (on_oserror f) m)"
  by (erule raises_translate) (auto elim!: is_oserror.elims)

lemma codes_translate_path:
  assumes "raises is_path_error m" "codes S x" shows "raises (codes S) (translate (on_os_or_runtime x) m)"
  using assms(1)
proof (rule raises_translate)
  fix e assume "is_path_error e"
  with assms(2) show "codes S (on_os_or_runtime x e)" by (cases e) auto
qed

lemma codes_write_errors: "raises is_oserror m \<Longrightarrow> WRITE_FAILURES \<subseteq> S \<Longrightarrow> raises (codes S) (write_errors a m)"
  unfolding write_errors_def by (intro codes_translate_os codes_write_error)

lemma codes_is_dir: "raises (codes S) (path_is_dir p)"
  by (rule raises_mono [OF raises_path_is_dir]) (auto simp: escapes_is_dir_def)

lemma codes_local_root: "CONNECTION_ROOT_UNAVAILABLE \<in> S \<Longrightarrow> raises (codes S) (local_root c)"
  unfolding local_root_def
  by (intro raises_rules codes_translate_path codes_is_dir) auto

text \<open>What every lookup of a path may raise.\<close>

definition LOOKUP_FAILURES :: "error_code set" where
  "LOOKUP_FAILURES = {CONNECTION_ROOT_UNAVAILABLE, INVALID_FILENAME}"

lemma codes_local_resolve: "LOOKUP_FAILURES \<subseteq> S \<Longrightarrow> raises (codes S) (local_resolve c f)"
  unfolding local_resolve_def
  by (intro raises_rules codes_local_root codes_translate_path) (auto simp: LOOKUP_FAILURES_def dest: filename_codes)

lemma codes_local_list_files: "CONNECTION_ROOT_UNAVAILABLE \<in> S \<Longrightarrow> raises (codes S) (local_list_files c)"
proof -
  assume S: "CONNECTION_ROOT_UNAVAILABLE \<in> S"
  have "raises is_oserror (bind (sys_scandir p) (\<lambda>es. of_result (bounded_listing es)))"
    for p and w :: "'w os_world_scheme"
    using raisesD [OF raises_sys_scandir] sys_scandir_entries bounded_listing_Inl
    unfolding raises_def bind_eq_Inl of_result_apply prod.inject by blast
  then have "raises (codes S) (translate (on_oserror (\<lambda>_. local_root_unavailable))
      (bind (sys_scandir p) (\<lambda>es. of_result (bounded_listing es))))" for p
    by (rule codes_translate_os) (simp add: S)
  then show ?thesis
    unfolding local_list_files_def using S by (intro raises_bind codes_local_root)
qed

lemma codes_local_check_access:
  assumes "CONNECTION_ROOT_UNAVAILABLE \<in> S" "LOCAL_IO_ERROR \<in> S"
  shows "raises (codes S) (local_check_access c)"
  unfolding local_check_access_def
  by (intro raises_rules codes_local_list_files codes_local_root codes_translate_os
      raises_try_except [where Q = is_oserror])
    (auto simp: assms probe_name_def uuid_text_def Let_def intro!: raises_rules split: exn.splits if_splits)

definition OPEN_FAILURES :: "error_code set" where
  "OPEN_FAILURES = LOOKUP_FAILURES \<union> {FILE_NOT_FOUND, FILE_NOT_READABLE, LOCAL_IO_ERROR}"

lemma codes_local_read_enter: "OPEN_FAILURES \<subseteq> S \<Longrightarrow> raises (codes S) (local_read_enter c f l)"
  unfolding local_read_enter_def
  by (intro raises_rules codes_local_resolve codes_translate_os raises_try_except [where Q = "codes S"])
    (auto simp: OPEN_FAILURES_def LOOKUP_FAILURES_def open_read_error_def)

lemma codes_FileSource_read:
  "SOURCE_READ_FAILED \<in> S \<Longrightarrow> SOURCE_CHANGED \<in> S \<Longrightarrow> raises (codes S) (FileSource_read n)"
  unfolding FileSource_read_def by (intro raises_rules codes_translate_os) simp_all

lemma codes_rethrow: "(\<And>e. failure = Some e \<Longrightarrow> P e) \<Longrightarrow> raises P (rethrow failure)"
  by (rule raises_rethrow)

lemma codes_persist: "WRITE_FAILURES \<subseteq> S \<Longrightarrow> raises (codes S) (persist d n x)"
  unfolding persist_def
  by (intro raises_rules codes_write_errors) (auto simp: WRITE_FAILURES_def)

lemma codes_FileSink_finish: "WRITE_FAILURES \<subseteq> S \<Longrightarrow> raises (codes S) FileSink_finish"
  unfolding FileSink_finish_def
  by (intro raises_rules codes_write_errors codes_persist raises_try_except [where Q = "codes S"])

lemma codes_FileSink_write: "WRITE_FAILURES \<subseteq> S \<Longrightarrow> raises (codes S) (FileSink_write data)"
proof (rule raisesI)
  fix s :: "'k file_sink_scheme \<times> 'w os_world_scheme" and e s'
  assume S: "WRITE_FAILURES \<subseteq> S"
  have once: "raises (codes S) (FileSink_write_once view)" for view
  proof -
    let ?Q = "\<lambda>e. is_oserror e \<or> e = PyError ''RuntimeError''"
    have "raises ?Q (bind FileSink_open (\<lambda>d. on_world (sys_write d view)))"
      unfolding FileSink_open_def
      by (intro raises_rules raises_mono [OF raises_on_world [OF raises_sys(4)]]) auto
    then show ?thesis
      unfolding FileSink_write_once_def write_errors_def
      by (rule raises_translate) (auto elim!: is_oserror.elims intro: codes_write_error [OF S])
  qed
  assume "FileSink_write data s = (Inl e, s')"
  then show "codes S e"
  proof (induction data s rule: FileSink_write.induct)
    case (1 view s)
    obtain r s1 where r: "FileSink_write_once view s = (r, s1)" by (rule prod.exhaust)
    obtain k w where s1: "s1 = (k, w)" by (rule prod.exhaust)
    show ?case
    proof (cases r)
      case (Inl d)
      with "1.prems" r raisesD [OF once r [unfolded Inl]] show ?thesis
        by (auto simp: FileSink_write.simps [of view] split: if_splits)
    next
      case (Inr n)
      with 1 r s1 show ?thesis by (auto simp: FileSink_write.simps [of view] split: if_splits)
    qed
  qed
qed

definition REPLACE_FAILURES :: "error_code set" where
  "REPLACE_FAILURES = WRITE_FAILURES \<union> {DESTINATION_EXISTS, PUBLISH_UNSUPPORTED}"

lemma codes_existing_file: "REPLACE_FAILURES \<subseteq> S \<Longrightarrow> raises (codes S) (existing_file p f b)"
  unfolding existing_file_def
  by (intro raises_rules raises_try_except [where Q = is_oserror])
    (auto simp: REPLACE_FAILURES_def intro!: raises_rules codes_write_error split: exn.splits)

lemma codes_local_publish: "REPLACE_FAILURES \<subseteq> S \<Longrightarrow> raises (codes S) (local_publish s d f b)"
  unfolding local_publish_def
  by (intro codes_translate_os raises_rules)
    (auto simp: REPLACE_FAILURES_def publish_error_def intro!: codes_write_error)

lemma codes_local_write_enter:
  "REPLACE_FAILURES \<union> LOOKUP_FAILURES \<subseteq> S \<Longrightarrow> raises (codes S) (local_write_enter c f i b)"
  unfolding local_write_enter_def
  by (intro raises_rules codes_local_resolve codes_existing_file codes_translate_os)
    (auto simp: create_error_def stage_name_def uuid_text_def Let_def LOOKUP_FAILURES_def REPLACE_FAILURES_def
      intro!: codes_write_error split: if_splits)

lemma codes_local_write_exit:
  assumes "REPLACE_FAILURES \<subseteq> S" "\<And>e. failure = Some e \<Longrightarrow> codes S e"
  shows "raises (codes S) (local_write_exit failure)"
  unfolding local_write_exit_def using assms
  by (intro raises_rules raises_rethrow codes_FileSink_finish codes_local_publish
      raises_sync_directory raises_FileSink_release raises_remove_stage) (auto simp: REPLACE_FAILURES_def)

lemma codes_mkdir: "raises (codes S) (path_mkdir p m parents exist_ok :: ('w os_world_scheme, unit) io)"
proof (induction p m parents exist_ok rule: path_mkdir.induct)
  case (1 p m parents exist_ok)
  have "raises is_oserror (sys_mkdir p m :: ('w os_world_scheme, unit) io)" by (intro raises_rules)
  moreover note 1(1) [OF refl] 1(2) [OF refl]
  moreover have "raises (codes S) (raise e :: ('w os_world_scheme, unit) io)" if "is_oserror e" for e
    using that by (auto intro!: raises_rules elim!: is_oserror.elims)
  ultimately show ?case
    by (subst path_mkdir.simps, intro raises_try_except [where Q = is_oserror] raises_if raises_bind raises_ret codes_is_dir)
      simp_all
qed

lemma codes_local_prepare: "INVALID_CONNECTION_SETTINGS \<in> S \<Longrightarrow> raises (codes S) (LocalConnector_prepare c)"
proof -
  assume S: "INVALID_CONNECTION_SETTINGS \<in> S"
  then have "codes S (prepare_error e)" if "codes S e" for e
    using that by (cases e) (auto simp: prepare_error_def)
  moreover have "raises (codes S) (expanduser q)" for q
    unfolding expanduser_def by (auto simp: raises_def path_of_text_def split: option.splits)
  moreover have "raises (codes S) (path_mkdir q m True True)" for q m
    by (rule codes_mkdir)
  moreover have "raises (codes S) (path_resolve_strict q)" for q
    by (rule raises_mono [OF raises_path_resolve_strict]) (auto elim!: is_path_error.elims)
  ultimately show ?thesis
    unfolding LocalConnector_prepare_def using S
    by (auto intro!: raises_rules codes_is_dir raises_translate [where Q = "codes S"] split: connection.split)
qed

section \<open>The SFTP connector\<close>

lemma codes_plain_loss: "plain_loss e \<Longrightarrow> codes S e"
  by (cases e) (auto simp: plain_loss_def)

interpretation any_code: lossy "codes S" for S
  by unfold_locales (simp_all add: codes_plain_loss)

text \<open>What every use of a session may raise.\<close>

definition SESSION_FAILURES :: "error_code set" where
  "SESSION_FAILURES =
     {INVALID_CONNECTION_SETTINGS, SFTP_AUTH_FAILED, SFTP_HOST_KEY_REJECTED, SFTP_OPERATION_FAILED, SFTP_UNAVAILABLE}"

definition classified_codes :: "error_code set \<Rightarrow> classified \<Rightarrow> bool" where
  "classified_codes S cl \<longleftrightarrow> (\<forall>e. if_missing cl = Some e \<or> if_denied cl = Some e \<or> if_unsupported cl = Some e \<or>
     if_lost cl = Some e \<longrightarrow> codes S e)"

lemma classified_codes_simps [simp]:
  "classified_codes S unclassified"
  "classified_codes S (cl\<lparr>if_missing := Some e\<rparr>) \<longleftrightarrow> codes S e \<and> classified_codes S (cl\<lparr>if_missing := None\<rparr>)"
  "classified_codes S cl \<Longrightarrow> codes S e \<Longrightarrow> classified_codes S (cl\<lparr>if_denied := Some e\<rparr>)"
  "classified_codes S cl \<Longrightarrow> codes S e \<Longrightarrow> classified_codes S (cl\<lparr>if_unsupported := Some e\<rparr>)"
  "classified_codes S cl \<Longrightarrow> codes S e \<Longrightarrow> classified_codes S (cl\<lparr>if_lost := Some e\<rparr>)"
  "classified_codes S cl \<Longrightarrow> classified_codes S (cl\<lparr>if_missing := None\<rparr>)"
  by (auto simp: classified_codes_def unclassified_def)

lemma classified_missing_root [simp]: "CONNECTION_ROOT_UNAVAILABLE \<in> S \<Longrightarrow> classified_codes S (missing_root c)"
  by (simp add: missing_root_def)

lemma codes_failures:
  assumes "raises (codes S) m" "classified_codes S cl" "SESSION_FAILURES \<subseteq> S"
  shows "raises (codes S) (failures pk action cl m)"
  unfolding failures_def using assms(1)
proof (rule raises_translate)
  fix e assume "codes S e"
  with assms(2,3) show "codes S (request_failure (pk_descriptions pk) action cl e)"
    by (cases e)
      (auto simp: request_failure_def classified_codes_def classify_status_def SESSION_FAILURES_def timeout_error_def
        split: option.splits)
qed

lemma codes_session_enter: "SESSION_FAILURES \<subseteq> S \<Longrightarrow> raises (codes S) (session_enter pk c)"
proof -
  assume S: "SESSION_FAILURES \<subseteq> S"
  have "raises (codes S) (trust pk c)"
    using S by (auto simp: raises_def trust_def SESSION_FAILURES_def split: prod.splits host_keys_outcome.splits)
  moreover have "raises (codes S) (connect pk c)"
    using S by (auto simp: raises_def connect_def connect_error_def SESSION_FAILURES_def
      split: prod.splits connect_outcome.splits option.splits if_splits)
  moreover have "raises (codes S) (open_sftp pk)"
    unfolding open_sftp_def
    by (intro codes_failures)
      (use S in \<open>auto simp: raises_def codes_plain_loss SESSION_FAILURES_def split: prod.splits sum.splits option.splits\<close>)
  ultimately show ?thesis unfolding session_enter_def by (intro raises_rules)
qed

lemma codes_root_failures:
  "raises (codes S) m \<Longrightarrow> SESSION_FAILURES \<subseteq> S \<Longrightarrow> CONNECTION_ROOT_UNAVAILABLE \<in> S \<Longrightarrow>
   raises (codes S) (root_failures pk c m)"
  unfolding root_failures_def by (intro codes_failures) simp_all

lemma codes_remove_quietly: "raises (codes S) (remove_quietly pk path)"
  unfolding remove_quietly_def
  by (intro raises_try_except [where Q = "codes S"] raises_rules)
    (auto simp: warning_def split: exn.split intro!: raises_rules)

lemma codes_sftp_list_files:
  "SESSION_FAILURES \<subseteq> S \<Longrightarrow> CONNECTION_ROOT_UNAVAILABLE \<in> S \<Longrightarrow> raises (codes S) (sftp_list_files pk c)"
  unfolding sftp_list_files_def
  by (intro raises_with_session codes_session_enter codes_root_failures raises_rules)

lemma codes_sftp_check_access:
  "SESSION_FAILURES \<subseteq> S \<Longrightarrow> CONNECTION_ROOT_UNAVAILABLE \<in> S \<Longrightarrow> raises (codes S) (sftp_check_access pk c)"
  unfolding sftp_check_access_def Let_def
  by (intro raises_with_session codes_session_enter codes_root_failures codes_failures codes_remove_quietly raises_rules)
    (auto simp: probe_name_def uuid_text_def Let_def split: if_splits)

lemma codes_sftp_path: "sftp_path c f = Inl e \<Longrightarrow> INVALID_FILENAME \<in> S \<Longrightarrow> codes S e"
  by (auto simp: sftp_path_def intro: filename_codes split: sum.splits)

lemma codes_check_regular:
  assumes "CONNECTION_ROOT_UNAVAILABLE \<in> S" "FILE_NOT_FOUND \<in> S"
  shows "raises (codes S) (check_regular pk c p f)"
proof -
  have "codes S x" if "sftp_missing pk c f s = (Inr x, s')" for x s s'
    using that assms
    by (auto simp: sftp_missing_def on_status_def try_except_apply bind_apply split: prod.splits sum.splits exn.splits)
  with raisesD [OF any_code.raises_sftp_missing [of S]]
  have missing: "raises (codes S) (bind (sftp_missing pk c f) raise)"
    unfolding raises_def bind_eq_Inl by auto
  have status: "raises (codes S)
      (if code \<noteq> SFTP_NO_SUCH_FILE then raise (SftpStatus code) else bind (sftp_missing pk c f) raise)" for code
    using missing by (intro raises_if raises_raise) simp_all
  show ?thesis
    unfolding check_regular_def
    by (rule raises_bind, rule any_code.raises_on_status [OF any_code.raises_rq_attributes status],
        intro raises_rules) (simp add: assms)
qed

lemma codes_sftp_read_enter:
  "SESSION_FAILURES \<union> OPEN_FAILURES \<subseteq> S \<Longrightarrow> raises (codes S) (sftp_read_enter pk c f l)"
  unfolding sftp_read_enter_def
  by (intro raises_rules raises_open_session codes_session_enter codes_failures codes_check_regular)
    (auto simp: OPEN_FAILURES_def LOOKUP_FAILURES_def SESSION_FAILURES_def readable_size_def
      dest: codes_sftp_path split: if_splits option.splits)

lemma codes_Download_read:
  "SESSION_FAILURES \<subseteq> S \<Longrightarrow> FILE_NOT_READABLE \<in> S \<Longrightarrow> SOURCE_CHANGED \<in> S \<Longrightarrow>
   raises (codes S) (Download_read pk n)"
  unfolding Download_read_def by (intro raises_rules codes_failures) simp_all

lemma raises_end_session: "raises P m \<Longrightarrow> raises P (end_session pk m)"
  unfolding end_session_def by (intro raises_in_session raises_rules)

text \<open>Uploads.\<close>

lemma codes_Upload_open: "raises (codes S) Upload_open"
  unfolding Upload_open_def by (intro raises_rules) simp

lemma codes_acknowledge: "raises (codes S) acknowledge"
  by (auto simp: raises_def acknowledge_def bind_eq_Inl split: list.splits
      dest: raisesD [OF any_code.raises_plain [OF raises_receive]])

lemma codes_acknowledge_all: "raises (codes S) acknowledge_all"
proof (rule raisesI)
  fix s :: "'k upload_scheme \<times> (session \<times> 'w)" and e s'
  assume "acknowledge_all s = (Inl e, s')"
  then show "codes S e"
  proof (induction s rule: acknowledge_all.induct)
    case (1 u sw)
    obtain x s1 where a: "acknowledge (u, sw) = (x, s1)" by (rule prod.exhaust)
    from "1.prems" a "1.IH" raisesD [OF codes_acknowledge [of S], of "(u, sw)"] show ?case
      by (cases x) (auto simp: acknowledge_all.simps [of u sw] split: if_splits)
  qed
qed

lemma codes_write_slices: "raises (codes S) (write_slices pk data)"
proof (induction pk data rule: write_slices.induct)
  case (1 pk data)
  show ?case
    unfolding write_slices.simps [of pk data] write_chunk_def
    by (intro raises_rules codes_acknowledge codes_Upload_open 1)
qed

lemma codes_Upload_write:
  "SESSION_FAILURES \<subseteq> S \<Longrightarrow> DESTINATION_NOT_WRITABLE \<in> S \<Longrightarrow> raises (codes S) (Upload_write pk data)"
  unfolding Upload_write_def by (intro raises_rules codes_failures codes_write_slices) simp_all

lemma codes_Upload_finish:
  "SESSION_FAILURES \<subseteq> S \<Longrightarrow> DESTINATION_NOT_WRITABLE \<in> S \<Longrightarrow> raises (codes S) (Upload_finish pk)"
  unfolding Upload_finish_def sync_upload_def close_upload_def stored_size_def
  by (intro raises_rules codes_failures codes_acknowledge_all codes_Upload_open raises_try_except [where Q = "codes S"])
    (auto simp: SESSION_FAILURES_def)

lemma codes_sftp_exists: "raises (codes S) (sftp_exists pk p)"
  unfolding sftp_exists_def by (intro raises_rules) simp_all

lemma codes_sftp_publish:
  "SESSION_FAILURES \<union> REPLACE_FAILURES \<subseteq> S \<Longrightarrow> raises (codes S) (sftp_publish pk c stage d f b)"
  unfolding sftp_publish_def Let_def
  by (intro raises_rules codes_failures codes_sftp_exists raises_try_except [where Q = "codes S"])
    (auto simp: SESSION_FAILURES_def REPLACE_FAILURES_def WRITE_FAILURES_def)

lemma codes_replaceable_mode: "DESTINATION_EXISTS \<in> S \<Longrightarrow> raises (codes S) (replaceable_mode pk d f b)"
  unfolding replaceable_mode_def by (intro raises_rules) auto

lemma codes_sftp_write_enter:
  "SESSION_FAILURES \<union> REPLACE_FAILURES \<union> LOOKUP_FAILURES \<subseteq> S \<Longrightarrow> raises (codes S) (sftp_write_enter pk c f i b)"
  unfolding sftp_write_enter_def Let_def
  by (intro raises_rules raises_open_session codes_session_enter codes_failures codes_replaceable_mode codes_remove_quietly)
    (auto simp: LOOKUP_FAILURES_def REPLACE_FAILURES_def WRITE_FAILURES_def SESSION_FAILURES_def stage_name_def
      uuid_text_def Let_def dest: codes_sftp_path split: if_splits)

lemma codes_sftp_write_exit:
  assumes "SESSION_FAILURES \<union> REPLACE_FAILURES \<subseteq> S" "\<And>e. failure = Some e \<Longrightarrow> codes S e"
  shows "raises (codes S) (sftp_write_exit pk c failure)"
  unfolding sftp_write_exit_def
  by (intro raises_end_session raises_rules raises_rethrow codes_Upload_finish codes_sftp_publish codes_remove_quietly)
    (use assms in \<open>auto simp: REPLACE_FAILURES_def WRITE_FAILURES_def\<close>)

end
