(* ===== verification/Sftp_Listing.thy ===== *)
theory Sftp_Listing
  imports Sftp_Correct
begin

text \<open>
  The requests of a listing of the SFTP connector: for any server, any failure of the transport and
  any names, how many they can be.
\<close>

section \<open>Counting requests\<close>

definition listing_request :: "request \<Rightarrow> bool" where
  "listing_request rq =
     (case rq of Open_directory _ \<Rightarrow> True | Read_directory _ \<Rightarrow> True | Lstat _ \<Rightarrow> True | Close_handle _ \<Rightarrow> True
      | _ \<Rightarrow> False)"

lemma listing_request_simps [simp]:
  "listing_request (Open_directory p)" "listing_request (Read_directory h)" "listing_request (Lstat p)"
  "listing_request (Close_handle h)"
  by (simp_all add: listing_request_def)

text \<open>At most \<open>n\<close> requests, all of a listing, were sent from \<open>w\<close> to \<open>w'\<close>.\<close>

definition sends :: "('w \<Rightarrow> request list) \<Rightarrow> nat \<Rightarrow> 'w \<Rightarrow> 'w \<Rightarrow> bool" where
  "sends sent n w w' \<longleftrightarrow> (\<exists>ts. sent w' = sent w @ ts \<and> length ts \<le> n \<and> list_all listing_request ts)"

lemma sends_none: "sent w' = sent w \<Longrightarrow> sends sent n w w'"
  by (simp add: sends_def)

lemma sends_trans:
  assumes "sends sent m w1 w2" "sends sent n w2 w3"
  shows "sends sent (m + n) w1 w3"
proof -
  from assms obtain ts us where "sent w2 = sent w1 @ ts" "length ts \<le> m" "list_all listing_request ts"
    "sent w3 = sent w2 @ us" "length us \<le> n" "list_all listing_request us" by (auto simp: sends_def)
  then show ?thesis unfolding sends_def by (intro exI [of _ "ts @ us"]) simp
qed

lemma sends_mono: "sends sent m w w' \<Longrightarrow> m \<le> n \<Longrightarrow> sends sent n w w'"
  unfolding sends_def by fastforce

lemma sends_one: "sent w' = sent w \<or> sent w' = sent w @ [rq] \<Longrightarrow> listing_request rq \<Longrightarrow> sends sent (Suc 0) w w'"
  unfolding sends_def by auto

lemma sends_send:
  "records pk sent \<Longrightarrow> send pk rq (s, w) = (r, (s', w')) \<Longrightarrow> listing_request rq \<Longrightarrow> sends sent (Suc 0) w w'"
  using send_sent by (blast intro: sends_one)

lemma sends_call:
  "records pk sent \<Longrightarrow> call pk rq ex (s, w) = (r, (s', w')) \<Longrightarrow> listing_request rq \<Longrightarrow> sends sent (Suc 0) w w'"
  using call_sent by (blast intro: sends_one)

section \<open>Pages\<close>

lemma maintains_classify [maintains_rules]: "maintains (world_ok W) (classify_entry e)"
proof -
  obtain name a number where "e = ((name, a), number)" by (metis prod.exhaust)
  then show ?thesis by (cases name; cases number) (auto simp: classify_entry_def intro!: maintains_rules)
qed

lemma maintains_scan_batch [maintains_rules]: "maintains (world_ok W) (scan_batch es acc)"
  by (induction es arbitrary: acc) (auto simp: ignore_lookups_def intro!: maintains_rules split: sum.splits)

lemma scan_batch_world: "scan_batch es acc x = (r, x') \<Longrightarrow> snd x' = snd x"
  by (rule maintainsD [OF maintains_scan_batch [where W = "\<lambda>w. w = snd x"]]) simp_all

lemma sends_lookups:
  assumes "records pk sent" "send_lookups pk c items (s, w) = (r, (s', w'))"
  shows "sends sent (length items) w w'"
  using assms(2)
proof (induction items arbitrary: s w r s' w')
  case Nil
  then show ?case by (simp add: sends_none)
next
  case (Cons item items)
  let ?one = "\<lambda>(name, a). (case name of
            Some n \<Rightarrow>
              if at_mode a = None
              then bind (send pk (Lstat (path_join (sc_root c) n))) (\<lambda>number. ret (Some number))
              else ret None
          | None \<Rightarrow> ret None)"
  obtain name a where item: "item = (name, a)" by (rule prod.exhaust)
  obtain x s1 w1 where x: "?one item (s, w) = (x, (s1, w1))" by (rule prod_cases3)
  have one: "sends sent (Suc 0) w w1"
    using x unfolding item
    by (auto simp: bind_apply sends_none split: option.splits if_splits prod.splits sum.splits
        dest: sends_send [OF assms(1)])
  show ?case
  proof (cases x)
    case (Inl e)
    with Cons.prems x item have "w' = w1" by (auto simp: bind_apply)
    with one show ?thesis by (auto intro: sends_mono)
  next
    case (Inr number)
    obtain y s2 w2 where y: "send_lookups pk c items (s1, w1) = (y, (s2, w2))" by (rule prod_cases3)
    with Cons.prems x item Inr have "w' = w2" by (cases y) (auto simp: bind_apply)
    with sends_trans [OF one Cons.IH [OF y]] show ?thesis by simp
  qed
qed

lemma sends_page:
  assumes "records pk sent" "scan_page pk c items acc (s, w) = (r, (s', w'))" "fst acc \<le> MAX_LIST_SCAN"
  shows "case r of
      Inr (Inr acc') \<Rightarrow> sends sent (fst acc' - fst acc) w w'
    | _ \<Rightarrow> sends sent (MAX_LIST_SCAN - fst acc + WINDOW) w w'"
  using assms(2,3)
proof (induction items arbitrary: acc s w rule: length_induct)
  case (1 items)
  show ?case
  proof (cases "items = []")
    case True
    with "1.prems" show ?thesis by (auto simp: scan_page.simps sends_none)
  next
    case False
    obtain x s1 w1 where x: "send_lookups pk c (take WINDOW items) (s, w) = (x, (s1, w1))" by (rule prod_cases3)
    have looked: "sends sent (length (take WINDOW items)) w w1" by (rule sends_lookups [OF assms(1) x])
    have short: "length (take WINDOW items) \<le> MAX_LIST_SCAN - fst acc + WINDOW" by simp
    note run = "1.prems"(1) [unfolded scan_page.simps [of pk c items acc]]
    show ?thesis
    proof (cases x)
      case (Inl e)
      with run False x have "r = Inl e" "w' = w1" by (auto simp: bind_apply)
      with sends_mono [OF looked short] show ?thesis by simp
    next
      case (Inr batch)
      obtain y s2 w2 where y: "scan_batch batch acc (s1, w1) = (y, (s2, w2))" by (rule prod_cases3)
      from scan_batch_world [OF y] have w2: "w2 = w1" by simp
      have len: "length batch = length (take WINDOW items)" using send_lookups_length [OF x [unfolded Inr]] .
      show ?thesis
      proof (cases "\<exists>acc1. y = Inr (Inr acc1)")
        case False
        with run Inr x y w2 \<open>items \<noteq> []\<close> have "w' = w1" "\<forall>acc'. r \<noteq> Inr (Inr acc')"
          by (auto simp: bind_apply split: sum.splits)
        with sends_mono [OF looked short] show ?thesis by (auto split: sum.splits)
      next
        case True
        then obtain acc1 where acc1: "y = Inr (Inr acc1)" by blast
        from scan_batch_Inr [OF y [unfolded acc1]] len
        have n: "fst acc1 = fst acc + length (take WINDOW items)"
          and cap: "batch \<noteq> [] \<longrightarrow> fst acc1 \<le> MAX_LIST_SCAN" by linarith+
        have "batch \<noteq> []" using len False by (cases items) (auto simp: WINDOW_def)
        with cap have cap: "fst acc1 \<le> MAX_LIST_SCAN" by simp
        have rest: "scan_page pk c (drop WINDOW items) acc1 (s2, w2) = (r, (s', w'))"
          using run False Inr x y acc1 by (simp add: bind_apply)
        have "length (drop WINDOW items) < length items" using False by (simp add: WINDOW_def)
        from "1.IH" [rule_format, OF this rest cap] have
          more: "case r of Inr (Inr acc') \<Rightarrow> sends sent (fst acc' - fst acc1) w1 w'
            | _ \<Rightarrow> sends sent (MAX_LIST_SCAN - fst acc1 + WINDOW) w1 w'" unfolding w2 .
        show ?thesis
        proof (cases "\<exists>acc'. r = Inr (Inr acc')")
          case True
          then obtain acc' where r: "r = Inr (Inr acc')" by blast
          from scan_page_Inr [OF rest [unfolded r]] have "fst acc1 \<le> fst acc'" by simp
          with n have "length (take WINDOW items) + (fst acc' - fst acc1) = fst acc' - fst acc" by simp
          with sends_trans [OF looked, of "fst acc' - fst acc1" w'] more r show ?thesis by simp
        next
          case False
          with more have "sends sent (MAX_LIST_SCAN - fst acc1 + WINDOW) w1 w'" by (auto split: sum.splits)
          from sends_trans [OF looked this] n cap
          have "sends sent (MAX_LIST_SCAN - fst acc + WINDOW) w w'" by (auto elim: sends_mono)
          with False show ?thesis by (auto split: sum.splits)
        qed
      qed
    qed
  qed
qed

lemma sends_read_page:
  assumes "records pk sent" "read_page pk handle (s, w) = (r, (s', w'))"
  shows "sends sent (Suc 0) w w'"
proof -
  obtain x s1 w1 where x: "call pk (Read_directory handle) CMD_NAME (s, w) = (x, (s1, w1))" by (rule prod_cases3)
  with assms(2) have "w' = w1"
    by (cases x) (auto simp: read_page_def on_status_def try_except_apply bind_apply parse_def of_result_def
        split: exn.splits if_splits sum.splits)
  with sends_call [OF assms(1) x] show ?thesis by simp
qed

section \<open>The directory\<close>

text \<open>Every page that lets the loop go on counts at least one entry.\<close>

lemma sends_directory:
  assumes "records pk sent" "scan_directory pk c handle acc (s, w) = (r, (s', w'))" "fst acc \<le> MAX_LIST_SCAN"
  shows "sends sent (2 * (MAX_LIST_SCAN - fst acc) + WINDOW + 1) w w'"
  using assms(2,3)
proof (induction "MAX_LIST_SCAN - fst acc" arbitrary: acc s w rule: less_induct)
  case less
  let ?left = "MAX_LIST_SCAN - fst acc"
  note run = less.prems(1) [unfolded scan_directory.simps [of pk c handle acc]]
  obtain x s1 w1 where x: "read_page pk handle (s, w) = (x, (s1, w1))" by (rule prod_cases3)
  note page = sends_read_page [OF assms(1) x]
  show ?case
  proof (cases "\<exists>items. x = Inr (Some items)")
    case False
    with run x have "w' = w1" by (auto split: sum.splits option.splits)
    with page show ?thesis by (auto intro: sends_mono)
  next
    case True
    then obtain items where items: "x = Inr (Some items)" by blast
    obtain y s2 w2 where y: "scan_page pk c items acc (s1, w1) = (y, (s2, w2))" by (rule prod_cases3)
    note scanned = sends_page [OF assms(1) y less.prems(2)]
    show ?thesis
    proof (cases "\<exists>acc'. y = Inr (Inr acc')")
      case False
      with run x items y have "w' = w2" by (auto split: sum.splits)
      moreover from False scanned have "sends sent (?left + WINDOW) w1 w2" by (auto split: sum.splits)
      ultimately show ?thesis using sends_trans [OF page, of "?left + WINDOW" w2] by (auto elim: sends_mono)
    next
      case True
      then obtain acc' where acc': "y = Inr (Inr acc')" by blast
      have "items \<noteq> []" using read_page_nonempty x items by blast
      with scan_page_Inr [OF y [unfolded acc']]
      have more: "fst acc < fst acc'" "fst acc' \<le> MAX_LIST_SCAN" by auto
      have rest: "scan_directory pk c handle acc' (s2, w2) = (r, (s', w'))"
        using run x items y acc' by simp
      have "MAX_LIST_SCAN - fst acc' < ?left" using more by simp
      from less.hyps [OF this rest more(2)]
      have later: "sends sent (2 * (MAX_LIST_SCAN - fst acc') + WINDOW + 1) w2 w'" .
      from scanned acc' have "sends sent (fst acc' - fst acc) w1 w2" by simp
      from sends_trans [OF sends_trans [OF page this] later] more
      show ?thesis by (auto elim: sends_mono)
    qed
  qed
qed

lemma sends_list_files:
  assumes "records pk sent" "sftp_list_files pk c w = (r, w')"
  shows "sends sent (2 * MAX_LIST_SCAN + WINDOW + 3) w w'"
proof -
  let ?list = "\<lambda>handle. try_finally (scan_directory pk c handle (0, [])) (close_quietly pk handle)"
  let ?body = "bind (rq_open_directory pk (sc_root c)) ?list"
  obtain x w1 where x: "session_enter pk c w = (x, w1)" by (rule prod.exhaust)
  note entered = session_enter_sent [OF assms(1) x]
  show ?thesis
  proof (cases x)
    case (Inl e)
    with assms(2) x have "w' = w1" by (simp add: sftp_list_files_def with_session_def bind_apply)
    with entered show ?thesis by (simp add: sends_none)
  next
    case (Inr s)
    obtain y s2 w2 where y: "?body (s, w1) = (y, (s2, w2))" by (rule prod_cases3)
    obtain z s3 w3 where z: "session_exit pk (s2, w2) = (z, (s3, w3))" by (rule prod_cases3)
    from assms(2) x Inr y z session_exit_sent [OF assms(1) z] have last: "sent w' = sent w2"
      by (auto simp: sftp_list_files_def with_session_def root_failures_def failures_def translate_apply
          bind_apply [of "session_enter pk c"] try_finally_apply split: sum.splits)
    obtain h s4 w4 where h: "rq_open_directory pk (sc_root c) (s, w1) = (h, (s4, w4))" by (rule prod_cases3)
    have opened: "sends sent (Suc 0) w1 w4"
    proof -
      obtain v s5 w5 where v: "call pk (Open_directory (sc_root c)) CMD_HANDLE (s, w1) = (v, (s5, w5))"
        by (rule prod_cases3)
      with h have "w4 = w5" by (cases v) (auto simp: rq_open_directory_def bind_apply parse_def of_result_def)
      with sends_call [OF assms(1) v] show ?thesis by simp
    qed
    have "sends sent (2 * MAX_LIST_SCAN + WINDOW + 3) w1 w2"
    proof (cases h)
      case (Inl e)
      with y h have "w2 = w4" by (simp add: bind_apply)
      with opened show ?thesis by (auto elim: sends_mono)
    next
      case (Inr handle)
      obtain l s6 w6 where l: "scan_directory pk c handle (0, []) (s4, w4) = (l, (s6, w6))" by (rule prod_cases3)
      obtain q s7 w7 where q: "close_quietly pk handle (s6, w6) = (q, (s7, w7))" by (rule prod_cases3)
      have closed: "sends sent (Suc 0) w6 w7"
      proof -
        obtain v s8 w8 where v: "send pk (Close_handle handle) (s6, w6) = (v, (s8, w8))" by (rule prod_cases3)
        with q have "w7 = w8"
          by (cases v) (auto simp: close_quietly_def suppress_lost_def try_except_apply bind_apply ignore_def
              split: if_splits option.splits)
        with sends_send [OF assms(1) v] show ?thesis by simp
      qed
      have "w2 = w7" using y h Inr l q by (cases q) (auto simp: bind_apply try_finally_apply)
      with sends_trans [OF sends_trans [OF opened sends_directory [OF assms(1) l]] closed]
      show ?thesis by (auto elim: sends_mono)
    qed
    with entered last show ?thesis by (simp add: sends_def)
  qed
qed

text \<open>
  C31. A listing sends a bounded number of requests whatever the server answers, even one that never
  reports the end of the directory, and however it ends: at most two for each entry that it may scan,
  one window of lookups more, and three. It only opens, reads and closes the directory and looks up
  the links in it. What it returns is sorted, holds at most \<open>MAX_LIST_RESULTS\<close> names, and only names
  that the other operations accept.
\<close>

theorem sftp_listing_bounded:
  assumes "records pk sent" "sftp_list_files pk c w = (r, w')"
  shows "(\<exists>ts. sent w' = sent w @ ts \<and> length ts \<le> 2 * MAX_LIST_SCAN + WINDOW + 3 \<and> list_all listing_request ts) \<and>
    (\<forall>l. r = Inr l \<longrightarrow> sorted (files l) \<and> length (files l) \<le> MAX_LIST_RESULTS \<and>
       (\<forall>f\<in>set (files l). validate_filename f = Inr f))"
proof (intro conjI allI impI)
  show "\<exists>ts. sent w' = sent w @ ts \<and> length ts \<le> 2 * MAX_LIST_SCAN + WINDOW + 3 \<and> list_all listing_request ts"
    using sends_list_files [OF assms] by (simp add: sends_def)
next
  fix l assume "r = Inr l"
  with assms(2) have run: "sftp_list_files pk c w = (Inr l, w')" by simp
  from with_session_Inr [OF run [unfolded sftp_list_files_def]] obtain x y where
    "bind (rq_open_directory pk (sc_root c)) (\<lambda>handle.
       try_finally (scan_directory pk c handle (0, [])) (close_quietly pk handle)) x = (Inr l, y)"
    by (auto simp: root_failures_def failures_def translate_eq_Inr)
  then obtain handle x1 y1 where "scan_directory pk c handle (0, []) x1 = (Inr l, y1)"
    by (auto simp: bind_eq_Inr dest!: try_finally_Inr)
  from scan_directory_fits [OF this]
  show "sorted (files l)" "length (files l) \<le> MAX_LIST_RESULTS" "\<forall>f\<in>set (files l). validate_filename f = Inr f"
    by (auto simp: scan_fits_def listing_fits_def list_all_iff validate_filename_Inr)
qed

text \<open>A directory of one file, \<^verbatim>\<open>b\<close>, whose page gives its mode.\<close>

definition one_file_answer :: "request list \<Rightarrow> nat \<Rightarrow> request \<Rightarrow> packet" where
  "one_file_answer past number rq =
     (case rq of
        Read_directory h \<Rightarrow>
          if list_ex (\<lambda>q. q = Read_directory h) past then Packet CMD_STATUS number (status_body SFTP_EOF)
          else Packet CMD_NAME number
            [0, 0, 0, 1, 0, 0, 0, 1, 98, 0, 0, 0, 0, 0, 0, 0, 4, 0, 0, 128, 0]
      | _ \<Rightarrow> demo_answer [] number rq)"

definition one_file_paramiko :: "demo_server_world paramiko" where
  "one_file_paramiko = (demo_paramiko [])
     \<lparr>pk_respond := (\<lambda>n rq w. ([one_file_answer (ds_sent w) n rq], w\<lparr>ds_sent := ds_sent w @ [rq]\<rparr>))\<rparr>"

text \<open>A session that waits for nothing; the server answers at once.\<close>

definition idle :: "session \<Rightarrow> bool" where
  "idle s \<longleftrightarrow> ss_events s = [] \<and> ss_inbox s = [] \<and> ss_replies s = Map.empty \<and> ss_ignored s = {}"

lemma one_file_call:
  assumes "idle s" "one_file_answer (ds_sent w) (ss_number s) rq = Packet k (ss_number s) body"
    "length body \<le> 100" "list_all (\<lambda>t. utf8 t \<noteq> None) (request_texts rq)"
  shows "\<exists>s'. call one_file_paramiko rq expected (s, w) =
    (check_reply (k, body) expected, (s', w\<lparr>ds_sent := ds_sent w @ [rq]\<rparr>)) \<and> idle s'"
proof -
  have "\<not> list_ex (\<lambda>t. utf8 t = None) (request_texts rq)"
    using assms(4) by (induction "request_texts rq") (auto simp: list_all_iff list_ex_iff)
  then show ?thesis
    using assms(1-3)
    by (cases "check_reply (k, body) expected")
      (simp_all add: call_def send_def watched_def try_except_apply bind_apply async_request_def next_event_def
        receive_def await.simps read_response_def async_response_def pop_reply_def of_result_def Let_def
        idle_def one_file_paramiko_def MAX_REPLY_def)
qed

theorem sftp_listing_bounded_witness:
  "\<exists>w. sftp_list_files one_file_paramiko demo_sftp demo_server =
       (Inr \<lparr>files = [lit ''b''], truncated = False\<rparr>, w) \<and>
     length (ds_sent w) \<le> 2 * MAX_LIST_SCAN + WINDOW + 3"
proof -
  let ?pk = one_file_paramiko
  let ?entry = "(Some (lit ''b''), \<lparr>at_size = None, at_mode = Some 32768\<rparr>)"
  have root: "utf8 (sc_root demo_sftp) \<noteq> None" using demo_root_encodable by simp
  have records: "records one_file_paramiko ds_sent"
    by (simp add: records_def one_file_paramiko_def demo_paramiko_def)
  have name: "addressable [98] = Some (lit ''b'')" "validate_filename (lit ''b'') = Inr (lit ''b'')"
    by code_simp+
  have regular: "S_ISREG 32768" by (simp add: S_ISREG_def)
  have fresh: "ds_sent demo_server = []" by (simp add: demo_server_def os_world.defs demo_server_world.defs)
  have enter: "session_enter ?pk demo_sftp demo_server = (Inr (new_session []), demo_server)"
    by (simp add: session_enter_def trust_def connect_def connect_error_def open_sftp_def sftp_eval one_file_paramiko_def)
  have idle0: "idle (new_session [])" by (simp add: idle_def new_session_def)
  let ?w1 = "demo_server\<lparr>ds_sent := [Open_directory (sc_root demo_sftp)]\<rparr>"
  obtain s1 where s1: "call ?pk (Open_directory (sc_root demo_sftp)) CMD_HANDLE (new_session [], demo_server) =
      (check_reply (CMD_HANDLE, [0, 0, 0, 1, 8]) CMD_HANDLE, (s1, ?w1))" "idle s1"
    using one_file_call [OF idle0, of demo_server "Open_directory (sc_root demo_sftp)" CMD_HANDLE "[0, 0, 0, 1, 8]" CMD_HANDLE]
      root fresh by (auto simp: one_file_answer_def demo_answer_def)
  have opened: "rq_open_directory ?pk (sc_root demo_sftp) (new_session [], demo_server) = (Inr [8], (s1, ?w1))"
    using s1(1) by (simp add: rq_open_directory_def sftp_eval)
  let ?w2 = "demo_server\<lparr>ds_sent := [Open_directory (sc_root demo_sftp), Read_directory [8]]\<rparr>"
  let ?page = "[0, 0, 0, 1, 0, 0, 0, 1, 98, 0, 0, 0, 0, 0, 0, 0, 4, 0, 0, 128, 0]"
  obtain s2 where s2: "call ?pk (Read_directory [8]) CMD_NAME (s1, ?w1) =
      (check_reply (CMD_NAME, ?page) CMD_NAME, (s2, ?w2))" "idle s2"
    using one_file_call [OF s1(2), of ?w1 "Read_directory [8]" CMD_NAME ?page CMD_NAME]
    by (auto simp: one_file_answer_def)
  have page: "read_page ?pk [8] (s1, ?w1) = (Inr (Some [?entry]), (s2, ?w2))"
    using s2(1) name by (simp add: read_page_def sftp_eval CMD_NAME_def names_def)
  let ?w3 = "demo_server\<lparr>ds_sent := [Open_directory (sc_root demo_sftp), Read_directory [8], Read_directory [8]]\<rparr>"
  obtain s3 where s3: "call ?pk (Read_directory [8]) CMD_NAME (s2, ?w2) =
      (check_reply (CMD_STATUS, status_body SFTP_EOF) CMD_NAME, (s3, ?w3))" "idle s3"
    using one_file_call [OF s2(2), of ?w2 "Read_directory [8]" CMD_STATUS "status_body SFTP_EOF" CMD_NAME]
    by (auto simp: one_file_answer_def status_body_def)
  have last: "read_page ?pk [8] (s2, ?w2) = (Inr None, (s3, ?w3))"
    using s3(1) by (simp add: read_page_def sftp_eval CMD_NAME_def)
  have scanned: "scan_page ?pk demo_sftp [?entry] (0, []) (s2, ?w2) = (Inr (Inr (1, [lit ''b''])), (s2, ?w2))"
    using name regular by (simp add: scan_page.simps bind_apply on_failure_def try_except_apply WINDOW_def classify_entry_def
        listing_step_def is_regular_def MAX_LIST_SCAN_def MAX_LIST_RESULTS_def)
  have scan: "scan_directory ?pk demo_sftp [8] (0, []) (s1, ?w1) =
      (Inr \<lparr>files = [lit ''b''], truncated = False\<rparr>, (s3, ?w3))"
    by (simp add: scan_directory.simps [of _ _ _ "(0, [])"] scan_directory.simps [of _ _ _ "(Suc 0, [lit ''b''])"]
        page scanned [simplified] last)
  obtain s4 w4 where close: "close_quietly ?pk [8] (s3, ?w3) = (Inr (), (s4, w4))"
    using s3(2) by (simp add: close_quietly_def suppress_lost_def sftp_eval ignore_def one_file_paramiko_def idle_def)
  have "\<exists>w. sftp_list_files ?pk demo_sftp demo_server = (Inr \<lparr>files = [lit ''b''], truncated = False\<rparr>, w)"
    by (simp add: sftp_list_files_def with_session_def bind_apply enter root_failures_def failures_def translate_apply
        try_finally_apply opened scan close session_exit_def disconnect_def on_world_apply split: prod.split)
  then obtain w where run: "sftp_list_files ?pk demo_sftp demo_server =
       (Inr \<lparr>files = [lit ''b''], truncated = False\<rparr>, w)" ..
  from sftp_listing_bounded [OF records run] fresh run show ?thesis by auto
qed

end
