(* ===== verification/Disciplined.thy ===== *)
theory Disciplined
  imports Within Error_Codes Sftp_Listing
begin

text \<open>
  The connectors and the store inside the application: each leaves alone what the world holds beside
  the service, and raises \<open>DataBridgeError\<close>s of known codes only. For a claim on codes the faults of
  the database have to be errors of SQLite; the claim that any code may be raised needs nothing.
\<close>

definition disciplined :: "error_code set \<Rightarrow> 'z \<Rightarrow> 'z service_world_scheme \<Rightarrow> bool" where
  "disciplined S z w \<longleftrightarrow>
     (S \<noteq> UNIV \<longrightarrow> list_all sqlite_fault (db_faults w)) \<and> service_world.more w = z"

lemma disciplined_simps [simp]:
  "disciplined S z (w\<lparr>log := ls\<rparr>) = disciplined S z w" "disciplined S z (w\<lparr>uuids := us\<rparr>) = disciplined S z w"
  "disciplined S z (w\<lparr>db := d\<rparr>) = disciplined S z w" "disciplined S z (w\<lparr>db_clock := ts\<rparr>) = disciplined S z w"
  "disciplined S z (w\<lparr>db_nonces := ns\<rparr>) = disciplined S z w" "disciplined S z (w\<lparr>sw_free := n\<rparr>) = disciplined S z w"
  "disciplined S z (w\<lparr>sw_clock := cs\<rparr>) = disciplined S z w"
  by (simp_all add: disciplined_def)

lemma disciplined_unlogged: "unlogged (disciplined S z)"
  by (simp add: unlogged_def)

lemma disciplined_more: "disciplined S z w = disciplined S z (os_world.extend undefined (os_world.more w))"
  by (cases w) (simp add: disciplined_def os_world.extend_def)

lemma disciplined_cong: "os_world.more w' = os_world.more w \<Longrightarrow> disciplined S z w' = disciplined S z w"
  using disciplined_more [of S z w'] disciplined_more [of S z w] by simp

lemma maintains_os: "keeps os_world.more m \<Longrightarrow> maintains (disciplined S z) m"
  by (rule maintainsI) (auto dest!: keepsD dest: disciplined_cong)

lemma maintains_os_method:
  assumes "keeps (\<lambda>s. os_world.more (snd s)) m" shows "maintains (\<lambda>s. disciplined S z (snd s)) m"
proof (rule maintainsI)
  fix s r s' assume J: "disciplined S z (snd s)" and run: "m s = (r, s')"
  from disciplined_cong [OF keepsD [OF assms run]] J show "disciplined S z (snd s')" by simp
qed

lemma within_os: "keeps os_world.more m \<Longrightarrow> raises P m \<Longrightarrow> within (disciplined S z) P m"
  by (intro within_both maintains_os)

lemma within_os_method:
  "keeps (\<lambda>s. os_world.more (snd s)) m \<Longrightarrow> raises P m \<Longrightarrow> within (\<lambda>s. disciplined S z (snd s)) P m"
  by (intro within_both maintains_os_method)

section \<open>Connectors\<close>

definition LISTING_CODES :: "error_code set" where
  "LISTING_CODES = insert CONNECTION_ROOT_UNAVAILABLE SESSION_FAILURES"

definition OPEN_CODES :: "error_code set" where
  "OPEN_CODES = SESSION_FAILURES \<union> OPEN_FAILURES"

definition READ_CODES :: "error_code set" where
  "READ_CODES = SESSION_FAILURES \<union> {SOURCE_READ_FAILED, SOURCE_CHANGED, FILE_NOT_READABLE}"

definition WRITE_CODES :: "error_code set" where
  "WRITE_CODES = SESSION_FAILURES \<union> REPLACE_FAILURES \<union> LOOKUP_FAILURES"

locale coded_connector =
  fixes cn :: "('z service_world_scheme, 'r, 'k) connector" and z :: 'z
  assumes list_files: "LISTING_CODES \<subseteq> S \<Longrightarrow> within (disciplined S z) (codes S) (cn_list_files cn)"
    and check_access: "insert LOCAL_IO_ERROR LISTING_CODES \<subseteq> S \<Longrightarrow> within (disciplined S z) (codes S) (cn_check_access cn)"
    and read_enter: "OPEN_CODES \<subseteq> S \<Longrightarrow> within (disciplined S z) (codes S) (cn_read_enter cn f l)"
    and source_read: "READ_CODES \<subseteq> S \<Longrightarrow> within (\<lambda>s. disciplined S z (snd s)) (codes S) (cn_source_read cn n)"
    and read_exit: "(\<And>e. failure = Some e \<Longrightarrow> codes S e) \<Longrightarrow>
      within (\<lambda>s. disciplined S z (snd s)) (codes S) (cn_read_exit cn failure)"
    and write_enter: "WRITE_CODES \<subseteq> S \<Longrightarrow> within (disciplined S z) (codes S) (cn_write_enter cn f i b)"
    and sink_write: "WRITE_CODES \<subseteq> S \<Longrightarrow> within (\<lambda>s. disciplined S z (snd s)) (codes S) (cn_sink_write cn data)"
    and sink_finish: "WRITE_CODES \<subseteq> S \<Longrightarrow> within (\<lambda>s. disciplined S z (snd s)) (codes S) (cn_sink_finish cn)"
    and write_exit: "WRITE_CODES \<subseteq> S \<Longrightarrow> (\<And>e. failure = Some e \<Longrightarrow> codes S e) \<Longrightarrow>
      within (\<lambda>s. disciplined S z (snd s)) (codes S) (cn_write_exit cn failure)"

text \<open>The preview reads through a connector.\<close>

lemma read_prefix_loop_within:
  assumes "\<And>n. within (\<lambda>s. J (snd s)) P (cn_source_read cn n)"
  shows "within (\<lambda>s. J (snd (snd s))) P (read_prefix_loop cn)"
proof (rule withinI)
  fix s r s' assume "J (snd (snd s))" "read_prefix_loop cn s = (r, s')"
  then show "J (snd (snd s')) \<and> (\<forall>e. r = Inl e \<longrightarrow> P e)"
    using assms
  proof (induction cn s rule: read_prefix_loop.induct)
    case (1 cn r0 data w)
    show ?case
    proof (cases "MAX_PREVIEW_BYTES < length data")
      case True
      with "1.prems" show ?thesis by (auto simp: read_prefix_loop.simps [of cn r0 data w])
    next
      case False
      obtain x r1 w1 where x: "cn_source_read cn (MAX_PREVIEW_BYTES + 1 - length data) (r0, w) = (x, (r1, w1))"
        by (rule prod_cases3)
      from withinD [OF "1.prems"(3) _ x] "1.prems"(1) have w1: "J w1 \<and> (\<forall>e. x = Inl e \<longrightarrow> P e)" by simp
      note run = "1.prems"(2) [unfolded read_prefix_loop.simps [of cn r0 data w] x]
      show ?thesis
      proof (cases x)
        case (Inl e)
        with run False w1 show ?thesis by auto
      next
        case (Inr chunk)
        show ?thesis
        proof (cases "chunk = []")
          case True
          with run False Inr w1 show ?thesis by auto
        next
          case more: False
          with run False Inr have "read_prefix_loop cn (r1, (data @ chunk, w1)) = (r, s')" by simp
          from "1.IH" [OF False x [symmetric] Inr refl more _ this "1.prems"(3)] w1 show ?thesis by simp
        qed
      qed
    qed
  qed
qed

context coded_connector
begin

lemma preview_within:
  assumes "OPEN_CODES \<union> READ_CODES \<union> PREVIEW_ERRORS \<subseteq> S"
  shows "within (disciplined S z) (codes S) (preview cn f l)"
proof -
  have S: "OPEN_CODES \<subseteq> S" "READ_CODES \<subseteq> S" "PREVIEW_ERRORS \<subseteq> S" using assms by simp_all
  have unsupported: "UNSUPPORTED_PREVIEW_FORMAT \<in> S" using S(3) by auto
  have own: "codes S e" if "preview_error e" for e
    using that S(3) by (auto simp: preview_error_def intro: codes_of)
  let ?block = "with_block (on_world (cn_read_enter cn f (Some (MAX_PREVIEW_BYTES + 1)))) (read_prefix_loop cn)
      (\<lambda>failure. stream (cn_read_exit cn failure))"
  have block: "within (\<lambda>s. disciplined S z (snd s)) (codes S) ?block"
    by (intro within_with_block within_on_world read_enter S read_prefix_loop_within source_read within_stream read_exit)
  have prefix: "within (disciplined S z) (codes S) (read_prefix cn f)"
  proof (rule withinI)
    fix w r w' assume J: "disciplined S z w" and run: "read_prefix cn f w = (r, w')"
    obtain x data w1 where x: "?block ([], w) = (x, (data, w1))" by (rule prod_cases3)
    from withinD [OF block _ x] J run x show "disciplined S z w' \<and> (\<forall>e. r = Inl e \<longrightarrow> codes S e)"
      by (cases x) (auto simp: read_prefix_def intro: own prefix_text_typed)
  qed
  show ?thesis
    unfolding preview_def Let_def
    by (intro within_rules prefix) (auto intro: own csv_rows_typed json_rows_typed filename_preview_error simp: unsupported)
qed

end

subsection \<open>The local connector\<close>

lemmas code_sets = LISTING_CODES_def OPEN_CODES_def READ_CODES_def WRITE_CODES_def REPLACE_FAILURES_def

interpretation local_coded: coded_connector "local_methods c" z for c :: local_connector and z :: 'z
proof (unfold_locales, goal_cases)
  case (1 S)
  then show ?case
    by (simp add: local_methods_def code_sets within_os keeps_local_list_files codes_local_list_files)
next
  case (2 S)
  then show ?case
    by (simp add: local_methods_def code_sets within_os keeps_local_check_access codes_local_check_access)
next
  case (3 S f l)
  then show ?case
    by (simp add: local_methods_def code_sets within_os keeps_local_read_enter codes_local_read_enter)
next
  case (4 S n)
  then show ?case
    by (simp add: local_methods_def code_sets within_os_method keeps_FileSource_read codes_FileSource_read)
next
  case (5 failure S)
  then show ?case
    by (simp add: local_methods_def within_os_method keeps_local_read_exit raises_local_read_exit_of)
next
  case (6 S f i b)
  then show ?case
    by (simp add: local_methods_def code_sets within_os keeps_local_write_enter codes_local_write_enter)
next
  case (7 S data)
  then show ?case
    by (simp add: local_methods_def code_sets within_os_method keeps_FileSink_write codes_FileSink_write)
next
  case (8 S)
  then show ?case
    by (simp add: local_methods_def code_sets within_os_method keeps_FileSink_finish codes_FileSink_finish)
next
  case (9 S failure)
  then show ?case
    by (simp add: local_methods_def code_sets within_os_method keeps_local_write_exit codes_local_write_exit)
qed

subsection \<open>The SFTP connector\<close>

text \<open>Paramiko does its work outside of the service's own state.\<close>

definition considerate :: "'z service_world_scheme paramiko \<Rightarrow> bool" where
  "considerate pk \<longleftrightarrow> (\<forall>S z. honours pk (disciplined S z) (\<lambda>_. True))"

lemma maintains_send_lookups [maintains_rules]:
  "honours pk W (\<lambda>_. True) \<Longrightarrow> maintains (world_ok W) (send_lookups pk c es)"
  by (induction es) (auto intro!: maintains_rules split: prod.splits option.splits)

lemma maintains_scan_page [maintains_rules]:
  "honours pk W (\<lambda>_. True) \<Longrightarrow> maintains (world_ok W) (scan_page pk c es acc)"
proof (induction pk c es acc rule: scan_page.induct)
  case (1 pk c es acc)
  then show ?case unfolding scan_page.simps [of pk c es] by (intro maintains_rules) auto
qed

lemma maintains_read_page [maintains_rules]:
  "honours pk W (\<lambda>_. True) \<Longrightarrow> maintains (world_ok W) (read_page pk h)"
  unfolding read_page_def by (intro maintains_rules) simp_all

lemma maintains_scan_directory [maintains_rules]:
  assumes "honours pk W (\<lambda>_. True)" shows "maintains (world_ok W) (scan_directory pk c h acc)"
proof (rule maintainsI)
  fix x r x' assume "W (snd x)" "scan_directory pk c h acc x = (r, x')"
  then show "W (snd x')"
    using assms
  proof (induction pk c h acc x rule: scan_directory.induct)
    case (1 pk c h acc sw)
    note honours = "1.prems"(3)
    obtain y sw1 where y: "read_page pk h sw = (y, sw1)" by (rule prod.exhaust)
    have W1: "W (snd sw1)" by (rule maintainsD [OF maintains_read_page [OF honours] y "1.prems"(1)])
    note run = "1.prems"(2) [unfolded scan_directory.simps [of pk c h acc sw] y]
    show ?case
    proof (cases "\<exists>es. y = Inr (Some es)")
      case False
      with run W1 show ?thesis by (auto split: sum.splits option.splits)
    next
      case True
      then obtain es where es: "y = Inr (Some es)" ..
      obtain a sw2 where a: "scan_page pk c es acc sw1 = (a, sw2)" by (rule prod.exhaust)
      have W2: "W (snd sw2)" by (rule maintainsD [OF maintains_scan_page [OF honours] a W1])
      from run es a W2 "1.IH" [OF y [symmetric] es refl a [symmetric] _ _ _ _ honours] show ?thesis
        by (auto split: sum.splits)
    qed
  qed
qed

lemma maintains_sftp_list_files: "honours pk W (\<lambda>_. True) \<Longrightarrow> maintains W (sftp_list_files pk c)"
  unfolding sftp_list_files_def root_failures_def by (intro maintains_rules) simp_all

lemma maintains_sftp_check_access:
  assumes "honours pk W (\<lambda>_. True)" "unlogged W" shows "maintains W (sftp_check_access pk c)"
  unfolding sftp_check_access_def root_failures_def Let_def
  by (intro maintains_rules maintains_uuid4) (use assms in simp_all)

lemma maintains_upload_method:
  assumes "\<And>stage x. maintains (object_ok (upload_of stage x) W) m"
  shows "maintains (\<lambda>s. W (snd s)) (in_session m)"
proof (rule maintainsI)
  fix y r y' assume W: "W (snd y)" and run: "in_session m y = (r, y')"
  from maintainsD [OF maintains_in_session [OF assms [of "up_stage (fst (fst y))" "upload.more (fst (fst y))"]] run] W
  show "W (snd y')" by (simp add: upload_of_def)
qed

lemma maintains_download_method:
  assumes "maintains (object_ok (\<lambda>_. True) W) m" shows "maintains (\<lambda>s. W (snd s)) (in_session m)"
  using maintains_in_session [OF assms] by simp

lemma sftp_coded:
  assumes "considerate pk" shows "coded_connector (sftp_methods pk c) z"
proof (unfold_locales, goal_cases)
  note h = assms [unfolded considerate_def, rule_format, of _ z]
  have all: "allows (\<lambda>_. True)" by (simp add: allows_def)
  {
    case (1 S)
    then show ?case
      by (simp add: sftp_methods_def code_sets within_both maintains_sftp_list_files [OF h] codes_sftp_list_files)
  next
    case (2 S)
    then show ?case
      by (simp add: sftp_methods_def code_sets within_both maintains_sftp_check_access [OF h disciplined_unlogged]
          codes_sftp_check_access)
  next
    case (3 S f l)
    then show ?case
      by (simp add: sftp_methods_def code_sets within_both maintains_sftp_read_enter [OF h all] codes_sftp_read_enter)
  next
    case (4 S n)
    then show ?case
      using maintains_download_method [OF maintains_Download_read [OF h all]]
      by (simp add: sftp_methods_def code_sets within_both raises_in_session codes_Download_read)
  next
    case (5 failure S)
    then show ?case
      by (simp add: sftp_methods_def within_both maintains_sftp_read_exit [OF h all] raises_sftp_read_exit)
  next
    case (6 S f i b)
    then show ?case
      by (simp add: sftp_methods_def code_sets within_both maintains_sftp_write_enter [OF h all disciplined_unlogged]
          codes_sftp_write_enter)
  next
    case (7 S data)
    then show ?case
      by (simp add: sftp_methods_def code_sets WRITE_FAILURES_def within_both maintains_upload_method
          maintains_Upload_write [OF h all] raises_in_session codes_Upload_write)
  next
    case (8 S)
    then show ?case
      by (simp add: sftp_methods_def code_sets WRITE_FAILURES_def within_both maintains_upload_method
          maintains_Upload_finish [OF h all] raises_in_session codes_Upload_finish)
  next
    case (9 S failure)
    then show ?case
      by (simp add: sftp_methods_def code_sets within_both maintains_write_exit [OF h disciplined_unlogged]
          codes_sftp_write_exit)
  }
qed

subsection \<open>Any connector of the application\<close>

lemma within_on_left:
  assumes "within (\<lambda>s. J (snd s)) (codes S) m" shows "within (\<lambda>s. J (snd s)) (codes S) (on_left m)"
proof (rule withinI)
  fix s r s' assume J: "J (snd s)" and run: "on_left m s = (r, s')"
  obtain a w b w' where s: "s = (a, w)" "s' = (b, w')" by (metis prod.exhaust)
  from run [unfolded s] show "J (snd s') \<and> (\<forall>e. r = Inl e \<longrightarrow> codes S e)"
    unfolding on_left_eq
  proof (elim disjE exE conjE)
    fix x x' assume "m (x, w) = (r, (x', w'))"
    from withinD [OF assms _ this] J s show ?thesis by simp
  qed (use J s in simp_all)
qed

lemma within_on_right:
  assumes "within (\<lambda>s. J (snd s)) (codes S) m" shows "within (\<lambda>s. J (snd s)) (codes S) (on_right m)"
proof (rule withinI)
  fix s r s' assume J: "J (snd s)" and run: "on_right m s = (r, s')"
  obtain a w b w' where s: "s = (a, w)" "s' = (b, w')" by (metis prod.exhaust)
  from run [unfolded s] show "J (snd s') \<and> (\<forall>e. r = Inl e \<longrightarrow> codes S e)"
    unfolding on_right_eq
  proof (elim disjE exE conjE)
    fix x x' assume "m (x, w) = (r, (x', w'))"
    from withinD [OF assms _ this] J s show ?thesis by simp
  qed (use J s in simp_all)
qed

lemma left_coded:
  assumes "coded_connector cn z" shows "coded_connector (left_connector cn) z"
proof -
  note laws = coded_connector.list_files [OF assms] coded_connector.check_access [OF assms]
    coded_connector.read_enter [OF assms] coded_connector.source_read [OF assms] coded_connector.read_exit [OF assms]
    coded_connector.write_enter [OF assms] coded_connector.sink_write [OF assms] coded_connector.sink_finish [OF assms]
    coded_connector.write_exit [OF assms]
  show ?thesis
    by unfold_locales (auto simp: left_connector_def intro!: within_on_left within_bind within_ret laws)
qed

lemma right_coded:
  assumes "coded_connector cn z" shows "coded_connector (right_connector cn) z"
proof -
  note laws = coded_connector.list_files [OF assms] coded_connector.check_access [OF assms]
    coded_connector.read_enter [OF assms] coded_connector.source_read [OF assms] coded_connector.read_exit [OF assms]
    coded_connector.write_enter [OF assms] coded_connector.sink_write [OF assms] coded_connector.sink_finish [OF assms]
    coded_connector.write_exit [OF assms]
  show ?thesis
    by unfold_locales (auto simp: right_connector_def intro!: within_on_right within_bind within_ret laws)
qed

text \<open>To open a connector takes no effect and does not fail.\<close>

lemma open_coded:
  assumes "considerate pk"
  obtains cn where "\<And>w. open_connector (sftp_open pk known_hosts) c w = (Inr cn, w)" "coded_connector cn z"
proof (cases c)
  case (LocalConnection n p)
  then show thesis
    by (intro that [of "left_connector (local_methods \<lparr>lc_root = p\<rparr>)"] left_coded local_coded.coded_connector_axioms) simp
next
  case (SFTPConnection n h port u pw r)
  let ?c = "\<lparr>sc_host = h, sc_port = port, sc_username = u, sc_password = pw, sc_root = r, sc_known_hosts = known_hosts\<rparr>"
  show thesis
    using SFTPConnection
    by (intro that [of "right_connector (sftp_methods pk ?c)"] right_coded sftp_coded assms)
      (simp add: sftp_open_def SFTPConnector_open_def bind_apply)
qed

section \<open>The store\<close>

lemma disciplined_connected:
  assumes "raises (codes S) body" shows "within (disciplined S z) (codes S) (connected body)"
proof (rule withinI)
  fix w r w' assume w: "disciplined S z w" and run: "connected body w = (r, w')"
  show "disciplined S z w' \<and> (\<forall>e. r = Inl e \<longrightarrow> codes S e)"
  proof (cases r)
    case (Inr x)
    with connected_Inr [of body w x w'] run w show ?thesis by (auto simp: disciplined_def list_all_tl)
  next
    case (Inl e)
    have "codes S e"
    proof (cases "S = UNIV")
      case False
      then have faults: "list_all sqlite_fault (db_faults w)" using w by (simp add: disciplined_def)
      show ?thesis
        using connected_fault_or_body [OF run [unfolded Inl]]
      proof (elim disjE exE)
        fix d assume "body (db w) = (Inl e, d)"
        with assms show ?thesis by (rule raisesD)
      next
        assume "At_start e \<in> set (db_faults w)"
        with faults have "sqlite_fault (At_start e)" by (auto simp: list_all_iff)
        then show ?thesis by (cases e) simp_all
      next
        assume "At_commit e \<in> set (db_faults w)"
        with faults have "sqlite_fault (At_commit e)" by (auto simp: list_all_iff)
        then show ?thesis by (cases e) simp_all
      qed
    qed (simp add: codes_def)
    with connected_Inl [of body w e w'] run Inl w show ?thesis by (simp add: disciplined_def list_all_tl)
  qed
qed

lemma codes_table: "raises (codes S) m \<Longrightarrow> raises (codes S) (on_table t m)"
  unfolding on_table_def by (intro raises_rules) simp_all

lemma within_now [within_rules]: "within (disciplined S z) P now"
  by (rule withinI) (auto simp: now_def split: list.splits)

lemma within_encrypted: "within (disciplined S z) P (encrypted st m)"
  by (rule withinI) (auto simp: encrypted_def split: list.splits)

subsection \<open>Connections\<close>

lemma models_codes: "connection_models t = Inl e \<Longrightarrow> codes S e"
  by (auto simp: connection_models_def split: if_splits)

lemma view_codes: "view_of n t d = Inl e \<Longrightarrow> codes S e"
  by (auto simp: view_of_def Let_def split: sum.splits if_splits option.splits json.splits dest: models_codes)

lemma codes_loads: "loads s = Inl e \<Longrightarrow> codes S e"
proof -
  have "hooks_raise (codes S) default_hooks"
    by (auto simp: hooks_raise_def default_hooks_def py_int_def Let_def map_sum_def split: if_splits sum.splits)
  then show "loads s = Inl e \<Longrightarrow> codes S e"
    by (auto simp: loads_def split: sum.splits json_error.splits dest: decode_hook)
qed

lemma codes_loads_dict: "loads_dict s = Inl e \<Longrightarrow> codes S e"
  by (auto simp: loads_dict_def split: sum.splits json.splits intro: codes_loads)

lemma secrets_codes: "stored_secrets st c = Inl e \<Longrightarrow> codes S e"
  by (auto simp: stored_secrets_def split: option.splits intro: codes_loads_dict)

lemma validate_codes: "model_validate ip t d = Inl e \<Longrightarrow> codes S e"
  by (auto simp: model_validate_def Let_def split: option.splits if_splits prod.splits)

lemma view_of_row_codes: "view_of_row row = Inl e \<Longrightarrow> codes S e"
  by (auto simp: view_of_row_def split: sum.splits intro: codes_loads_dict view_codes)

lemma map_result_codes: "(\<And>x e. f x = Inl e \<Longrightarrow> codes S e) \<Longrightarrow> map_result f xs = Inl e \<Longrightarrow> codes S e"
  by (induction xs) (auto split: sum.splits)

lemma record_codes: "record_of_row row = Inl e \<Longrightarrow> codes S e"
  by (auto simp: record_of_row_def split: option.splits if_splits prod.splits)

lemma not_found_codes [simp]: "codes S (connection_not_found n) \<longleftrightarrow> CONNECTION_NOT_FOUND \<in> S"
  by (simp add: connection_not_found_def)

lemma within_columns: "within (disciplined S z) (codes S) (columns st item)"
  unfolding columns_def by (intro within_rules within_encrypted) (auto intro: models_codes)

lemma codes_find: "raises (codes S) (find_connection n)" "raises (codes S) (find_transfer i)"
  unfolding find_connection_def find_transfer_def by (intro codes_table raises_rules)+

lemma store_create_within:
  assumes "CONNECTION_EXISTS \<in> S" shows "within (disciplined S z) (codes S) (store_create st item)"
proof -
  have "raises (codes S) (insert_connection row)" for row
    unfolding insert_connection_def by (intro codes_table raises_rules) (simp add: unique_violation_def)
  then have "within (disciplined S z) (codes S)
      (translate (\<lambda>e. if e = unique_violation then
                db_error CONNECTION_EXISTS
                  (lit ''Connection '' @ [39] @ conn_name item @ [39] @ lit '' already exists'')
              else e) (connected (insert_connection row)))" for row
    by (intro within_translate [where Q = "codes S"] disciplined_connected) (simp_all add: assms)
  then show ?thesis unfolding store_create_def by (intro within_rules within_columns) (auto intro: view_codes)
qed

lemma store_replace_within:
  "CONNECTION_NOT_FOUND \<in> S \<Longrightarrow> within (disciplined S z) (codes S) (store_replace st item)"
  unfolding store_replace_def update_connection_def
  by (intro within_rules within_columns disciplined_connected codes_table raises_rules) (auto intro: view_codes)

lemma store_delete_within: "CONNECTION_NOT_FOUND \<in> S \<Longrightarrow> within (disciplined S z) (codes S) (store_delete name)"
  unfolding store_delete_def delete_connection_def
  by (intro within_rules disciplined_connected codes_table raises_rules) simp

lemma store_get_within: "CONNECTION_NOT_FOUND \<in> S \<Longrightarrow> within (disciplined S z) (codes S) (store_get st name)"
  unfolding store_get_def
  by (intro within_rules disciplined_connected codes_find)
    (auto intro: models_codes secrets_codes codes_loads_dict validate_codes)

lemma store_get_public_within:
  "CONNECTION_NOT_FOUND \<in> S \<Longrightarrow> within (disciplined S z) (codes S) (store_get_public name)"
  unfolding store_get_public_def
  by (intro within_rules disciplined_connected codes_find) (auto intro: view_of_row_codes)

lemma store_list_public_within: "within (disciplined S z) (codes S) store_list_public"
  unfolding store_list_public_def
  by (intro within_rules disciplined_connected codes_table raises_rules) (auto intro: map_result_codes view_of_row_codes)

subsection \<open>Transfer records\<close>

lemma list_transfers_within: "within (disciplined S z) (codes S) (list_transfers status limit)"
  unfolding list_transfers_def
  by (intro within_rules disciplined_connected codes_table raises_rules) (auto intro: map_result_codes record_codes)

lemma get_transfer_within: "TRANSFER_NOT_FOUND \<in> S \<Longrightarrow> within (disciplined S z) (codes S) (get_transfer i)"
  unfolding get_transfer_def
  by (intro within_rules disciplined_connected codes_find) (auto intro: record_codes)

definition RECORD_CODES :: "error_code set" where
  "RECORD_CODES = {TRANSFER_RECORD_FAILED, TRANSFER_STATE_CONFLICT}"

lemma within_recording:
  assumes "raises (codes S) body" "RECORD_CODES \<subseteq> S" shows "within (disciplined S z) (codes S) (recording i body)"
  unfolding recording_def
proof (rule within_translate [OF disciplined_connected [OF assms(1)]])
  fix e assume "codes S e"
  with assms(2) show "codes S (record_error i e)" by (cases e) (simp_all add: record_error_def RECORD_CODES_def)
qed

lemma codes_change: "RECORD_CODES \<subseteq> S \<Longrightarrow> raises (codes S) (change i p f)"
  unfolding change_def by (intro codes_table raises_rules) (simp add: state_conflict_def RECORD_CODES_def)

lemma ledger_within:
  assumes "RECORD_CODES \<subseteq> S"
  shows "within (disciplined S z) (codes S) (start_transfer i rq)"
    "within (disciplined S z) (codes S) (record_progress i n)"
    "within (disciplined S z) (codes S) (mark_publishing i n)"
    "within (disciplined S z) (codes S) (finish_transfer i)"
    "within (disciplined S z) (codes S) (fail_transfer i n p c m)"
  unfolding start_transfer_def record_progress_def mark_publishing_def finish_transfer_def fail_transfer_def transition_def
  by (intro within_rules within_recording assms codes_table codes_change codes_find raises_rules;
      simp add: unique_violation_def record_codes)+

end
