(* ===== verification/Web.thy ===== *)
theory Web
  imports Transfer_Run Text_Decoding
begin

text \<open>
  \<^verbatim>\<open>databridge/web.py\<close>: the HTTP boundary. The application behind the middleware is any program that
  computes and sends messages (\<open>asgi\<close>); the request log, the clock's text and the server's \<open>send\<close>
  are parameters.
\<close>

section \<open>Requests and messages\<close>

text \<open>
  The scope of a request; its headers have lower-case names and Latin-1 values, and its query string
  is the Latin-1 text of the bytes.
\<close>

record http_scope =
  hs_type :: pystr
  hs_method :: pystr
  hs_scheme :: pystr
  hs_path :: pystr
  hs_query :: pystr
  hs_headers :: "(pystr \<times> pystr) list"

text \<open>
  What the application leaves in the scope and in its \<open>state\<close>: the matched route and its path
  parameters, and what the log shall have of the request. An absent and an empty entry are the same
  to the log.
\<close>

record web_state =
  ws_route :: "pystr option"
  ws_path_params :: "(pystr \<times> json) list"
  ws_body_params :: "(pystr \<times> json) list"
  ws_error_code :: "error_code option"
  ws_error_type :: "string option"
  ws_transfer_id :: "pystr option"

definition new_web_state :: web_state where
  "new_web_state =
     \<lparr>ws_route = None, ws_path_params = [], ws_body_params = [], ws_error_code = None,
      ws_error_type = None, ws_transfer_id = None\<rparr>"

text \<open>A message of the response. The headers that the framework derives from the body are left out.\<close>

datatype message =
    Response_start (ms_status: nat) (ms_headers: "(pystr \<times> pystr) list")
  | Response_body "json option"

record response =
  rs_status :: nat
  rs_headers :: "(pystr \<times> pystr) list"
  rs_body :: "json option"

section \<open>Error responses\<close>

record field_problem =
  fp_field :: pystr
  fp_problem :: pystr

definition optional_json :: "('a \<Rightarrow> json) \<Rightarrow> 'a option \<Rightarrow> json" where
  "optional_json f x = (case x of None \<Rightarrow> JNull | Some y \<Rightarrow> f y)"

definition problem_json :: "field_problem \<Rightarrow> json" where
  "problem_json p = JObj [(lit ''field'', JStr (fp_field p)), (lit ''problem'', JStr (fp_problem p))]"

definition error_body ::
  "error_code \<Rightarrow> pystr \<Rightarrow> pystr option \<Rightarrow> field_problem list option \<Rightarrow> json" where
  "error_body code message transfer_id details =
     JObj [(lit ''error'',
       JObj [(lit ''code'', JStr (code_value code)), (lit ''message'', JStr message),
             (lit ''transfer_id'', optional_json JStr transfer_id),
             (lit ''details'', optional_json (\<lambda>ps. JArr (map problem_json ps)) details)])]"

definition error_response ::
  "error_code \<Rightarrow> pystr \<Rightarrow> pystr option \<Rightarrow> field_problem list option \<Rightarrow> (pystr \<times> pystr) list \<Rightarrow> response" where
  "error_response code message transfer_id details headers =
     \<lparr>rs_status = http_status code, rs_headers = headers,
      rs_body = Some (error_body code message transfer_id details)\<rparr>"

section \<open>Fields for the log\<close>

definition log_value :: "json \<Rightarrow> json option" where
  "log_value v =
     (case v of
        JStr s \<Rightarrow> Some (JStr (take 512 s))
      | JInt i \<Rightarrow> Some (JInt i)
      | JBool b \<Rightarrow> Some (JBool b)
      | _ \<Rightarrow> None)"

definition log_fields :: "(pystr \<times> json) list \<Rightarrow> pystr list \<Rightarrow> (pystr \<times> json) list" where
  "log_fields values allowed =
     List.map_filter
       (\<lambda>key. case map_of values key of
          None \<Rightarrow> None | Some v \<Rightarrow> map_option (\<lambda>x. (key, x)) (log_value v)) allowed"

definition body_log_fields :: "json \<Rightarrow> pystr \<Rightarrow> (pystr \<times> json) list" where
  "body_log_fields body route =
     (case body of
        JObj values \<Rightarrow>
          if startswith route (lit ''/connections'') then
            (let common = [lit ''name'', lit ''type'']
             in if map_of values (lit ''type'') = Some (JStr (lit ''local'')) then
                  log_fields values (common @ [lit ''path''])
                else if map_of values (lit ''type'') = Some (JStr (lit ''sftp'')) then
                  log_fields values (common @ map lit [''host'', ''port'', ''username'', ''root''])
                else log_fields values common)
          else if route = lit ''/transfers'' then
            log_fields values
              (map lit [''source'', ''source_file'', ''destination'', ''destination_file'', ''overwrite''])
          else []
      | _ \<Rightarrow> [])"

section \<open>The guard\<close>

text \<open>\<open>str.rpartition\<close> of a one-character separator.\<close>

definition rpartition :: "nat \<Rightarrow> pystr \<Rightarrow> pystr \<times> bool \<times> pystr" where
  "rpartition sep s =
     (if sep \<in> set s
      then (rev (drop 1 (dropWhile (\<lambda>c. c \<noteq> sep) (rev s))), True, rev (takeWhile (\<lambda>c. c \<noteq> sep) (rev s)))
      else ([], False, s))"

text \<open>\<open>_host_name\<close>.\<close>

definition header_host :: "pystr \<Rightarrow> pystr" where
  "header_host host =
     (if startswith host [91] then
        (if 93 \<in> set host then lower (takeWhile (\<lambda>c. c \<noteq> 93) (drop 1 host)) else [])
      else
        (case rpartition 58 host of (name, separator, port) \<Rightarrow>
           lower (if separator \<and> 58 \<notin> set name then name else host)))"

definition STATE_CHANGING_METHODS :: "pystr list" where
  "STATE_CHANGING_METHODS = [lit ''DELETE'', lit ''PATCH'', lit ''POST'', lit ''PUT'']"

definition header :: "string \<Rightarrow> http_scope \<Rightarrow> pystr option" where
  "header name scope = map_of (hs_headers scope) (lit name)"

text \<open>\<open>_rejection\<close>.\<close>

definition rejection :: "pystr set \<Rightarrow> http_scope \<Rightarrow> (error_code \<times> pystr) option" where
  "rejection allowed_hosts scope =
     (let host = (case header ''host'' scope of None \<Rightarrow> [] | Some h \<Rightarrow> h)
      in if header_host host \<notin> allowed_hosts then
           Some (INVALID_HOST_HEADER,
             lit ''The Host header must name this local service, for example 127.0.0.1'')
         else if hs_method scope \<notin> set STATE_CHANGING_METHODS then None
         else
           (let origin = header ''origin'' scope;
                own_origin = lower (hs_scheme scope @ lit ''://'' @ host);
                cross_site = (header ''sec-fetch-site'' scope = Some (lit ''cross-site''))
            in if cross_site \<or> (case origin of None \<Rightarrow> False | Some o' \<Rightarrow> lower o' \<noteq> own_origin) then
                 Some (CROSS_ORIGIN_REJECTED,
                   lit ''Requests from other web origins cannot change DataBridge state'')
               else None))"

section \<open>The query\<close>

text \<open>\<open>bytes.decode("utf-8", "replace")\<close>: one U+FFFD for each longest malformed part.\<close>

fun good_tail :: "nat \<Rightarrow> nat \<Rightarrow> nat \<Rightarrow> nat list \<Rightarrow> nat list" where
  "good_tail (Suc k) lo hi (t # ts) = (if lo \<le> t \<and> t \<le> hi then t # good_tail k 128 191 ts else [])"
| "good_tail _ _ _ _ = []"

function utf8_replace :: "bytes \<Rightarrow> pystr" where
  "utf8_replace [] = []"
| "utf8_replace (b # bs) =
     (if unat b < 128 then unat b # utf8_replace bs
      else case utf8_lead (unat b) of
        None \<Rightarrow> 65533 # utf8_replace bs
      | Some (k, lo, hi) \<Rightarrow>
          (let ts = good_tail k lo hi (map unat bs)
           in (if length ts = k then utf8_value k (unat b) ts else 65533) #
              utf8_replace (drop (length ts) bs)))"
  by pat_completeness auto
termination
  by (relation "measure length") (auto simp: Let_def)

declare utf8_replace.simps [simp del]

text \<open>\<open>urllib.parse.unquote\<close>: the escapes of each run of ASCII are bytes of UTF-8.\<close>

definition hex_digit_value :: "nat \<Rightarrow> nat option" where
  "hex_digit_value c =
     (if is_digit c then Some (c - 48)
      else if 65 \<le> c \<and> c \<le> 70 then Some (c - 55)
      else if 97 \<le> c \<and> c \<le> 102 then Some (c - 87)
      else None)"

fun unquote_to_bytes :: "pystr \<Rightarrow> bytes" where
  "unquote_to_bytes (c # d # e # s) =
     (case (c = 37, hex_digit_value d, hex_digit_value e) of
        (True, Some x, Some y) \<Rightarrow> of_nat (16 * x + y) # unquote_to_bytes s
      | _ \<Rightarrow> of_nat c # unquote_to_bytes (d # e # s))"
| "unquote_to_bytes s = map of_nat s"

function unquote :: "pystr \<Rightarrow> pystr" where
  "unquote s =
     (case s of
        [] \<Rightarrow> []
      | c # cs \<Rightarrow>
          if c < 128 then
            utf8_replace (unquote_to_bytes (takeWhile (\<lambda>c. c < 128) s)) @
            unquote (dropWhile (\<lambda>c. c < 128) s)
          else c # unquote cs)"
  by pat_completeness auto
termination
  by (relation "measure length") (auto simp: less_Suc_eq_le length_dropWhile_le)

declare unquote.simps [simp del]

text \<open>\<open>dict(parse_qsl(...))\<close>.\<close>

definition plus_to_space :: "pystr \<Rightarrow> pystr" where
  "plus_to_space s = map (\<lambda>c. if c = 43 then 32 else c) s"

definition query_pair :: "pystr \<Rightarrow> (pystr \<times> pystr) option" where
  "query_pair part =
     (let name = takeWhile (\<lambda>c. c \<noteq> 61) part; value = drop 1 (dropWhile (\<lambda>c. c \<noteq> 61) part)
      in if 61 \<notin> set part \<or> value = [] then None
         else Some (unquote (plus_to_space name), unquote (plus_to_space value)))"

definition query_dict :: "pystr \<Rightarrow> (pystr \<times> json) list" where
  "query_dict query =
     foldl (\<lambda>d (k, v). dict_set k (JStr v) d) [] (List.map_filter query_pair (split_on 38 query))"

section \<open>Programs behind the middleware\<close>

text \<open>
  An ASGI application: it ends, raises, sends a message (and learns of the exception of \<open>send\<close>), or
  computes on its state, and a computation may not return.
\<close>

datatype 's asgi =
    Finish
  | Crash exn
  | Emit message "exn option \<Rightarrow> 's asgi"
  | Compute "'s \<Rightarrow> ('s asgi \<times> 's) option"

text \<open>It runs beside the local variable \<open>response_status\<close> of the middleware, which \<open>send\<close> sets.\<close>

type_synonym 's guarded = "nat option \<times> 's"

primrec run_asgi :: "(message \<Rightarrow> ('s guarded, unit) io) \<Rightarrow> 's asgi \<Rightarrow> ('s guarded, unit) run" where
  "run_asgi send Finish = total (ret ())"
| "run_asgi send (Crash e) = total (raise e)"
| "run_asgi send (Emit m k) =
     (\<lambda>s. case send m s of
        (Inl e, s') \<Rightarrow> run_asgi send (k (Some e)) s'
      | (Inr _, s') \<Rightarrow> run_asgi send (k None) s')"
| "run_asgi send (Compute f) =
     (\<lambda>(status, s). case map_option (map_prod (run_asgi send) id) (f s) of
        None \<Rightarrow> None
      | Some (m, s') \<Rightarrow> m (status, s'))"

section \<open>The middleware\<close>

record 'w web =
  web_allowed :: "pystr set"
  web_log :: "(pystr \<times> json) list \<Rightarrow> ('w, unit) io"
  web_send :: "message \<Rightarrow> ('w, unit) io"
  web_elapsed :: "int \<Rightarrow> int \<Rightarrow> pystr"

definition REQUEST_ID_HEADER :: pystr where "REQUEST_ID_HEADER = lit ''x-request-id''"

text \<open>\<open>type(exc).__name__\<close>; an error number that the model does not name has no class of its own.\<close>

fun type_name :: "exn \<Rightarrow> string" where
  "type_name (DataBridgeError _ _ _) = ''DataBridgeError''"
| "type_name (StartupError _) = ''StartupError''"
| "type_name (OSError n) =
     (if n = ENOENT then ''FileNotFoundError''
      else if n = EEXIST then ''FileExistsError''
      else if n = ENOTDIR then ''NotADirectoryError''
      else if n = EISDIR then ''IsADirectoryError''
      else if n \<in> {EACCES, EPERM} then ''PermissionError''
      else ''OSError'')"
| "type_name (SqliteError class _) = class"
| "type_name (SftpStatus _) = ''_Status''"
| "type_name (PyError class) = class"

definition set_state :: "(web_state \<Rightarrow> web_state) \<Rightarrow> ((web_state \<times> 'w) guarded, unit) io" where
  "set_state f = on_world (assign f)"

definition send_with_request_id ::
  "'w web \<Rightarrow> pystr \<Rightarrow> message \<Rightarrow> ((web_state \<times> 'w) guarded, unit) io" where
  "send_with_request_id web request_id message =
     (case message of
        Response_start status headers \<Rightarrow>
          bind (assign (\<lambda>_. Some status)) (\<lambda>_.
          on_world (on_world (web_send web
            (Response_start status (headers @ [(REQUEST_ID_HEADER, request_id)])))))
      | Response_body _ \<Rightarrow> on_world (on_world (web_send web message)))"

text \<open>Calling a response.\<close>

definition respond :: "(message \<Rightarrow> ('s, unit) io) \<Rightarrow> response \<Rightarrow> ('s, unit) io" where
  "respond send r =
     bind (send (Response_start (rs_status r) (rs_headers r))) (\<lambda>_. send (Response_body (rs_body r)))"

text \<open>\<open>_log\<close>.\<close>

definition optional_entry :: "string \<Rightarrow> json option \<Rightarrow> (pystr \<times> json) list" where
  "optional_entry key v = (case v of None \<Rightarrow> [] | Some x \<Rightarrow> [(lit key, x)])"

definition nonempty_object :: "(pystr \<times> json) list \<Rightarrow> json option" where
  "nonempty_object d = (if d = [] then None else Some (JObj d))"

definition log_event ::
  "http_scope \<Rightarrow> web_state \<Rightarrow> pystr \<Rightarrow> nat \<Rightarrow> pystr \<Rightarrow> pystr \<Rightarrow> (pystr \<times> json) list" where
  "log_event scope state request_id status timestamp duration =
     [(lit ''timestamp'', JStr timestamp), (lit ''request_id'', JStr request_id),
      (lit ''method'', JStr (hs_method scope)), (lit ''route'', optional_json JStr (ws_route state)),
      (lit ''status_code'', JInt (int status)), (lit ''duration_ms'', JFloat duration)] @
     optional_entry ''path_params''
       (nonempty_object (log_fields (ws_path_params state) (map lit [''name'', ''filename'', ''transfer_id'']))) @
     optional_entry ''query_params''
       (nonempty_object (log_fields (query_dict (hs_query scope)) (map lit [''limit'', ''status'']))) @
     optional_entry ''body_params'' (nonempty_object (ws_body_params state)) @
     optional_entry ''error_code'' (map_option (\<lambda>c. JStr (code_value c)) (ws_error_code state)) @
     optional_entry ''error_type'' (map_option (\<lambda>t. JStr (lit t)) (ws_error_type state)) @
     optional_entry ''transfer_id''
       (case ws_transfer_id state of Some i \<Rightarrow> if i = [] then None else Some (JStr i) | None \<Rightarrow> None)"

definition log_request ::
  "'w service_world_scheme web \<Rightarrow> http_scope \<Rightarrow> web_state \<Rightarrow> pystr \<Rightarrow> nat \<Rightarrow> int \<Rightarrow>
   ('w service_world_scheme, unit) io" where
  "log_request web scope state request_id status started =
     bind now (\<lambda>timestamp.
     bind monotonic (\<lambda>t.
     try_except
       (web_log web (log_event scope state request_id status timestamp (web_elapsed web started t)))
       (\<lambda>e. case e of OSError _ \<Rightarrow> warning ''request_log_write_failed'' | _ \<Rightarrow> raise e)))"

text \<open>The blocks of \<open>__call__\<close>, and the whole.\<close>

definition guard_app ::
  "'w service_world_scheme web \<Rightarrow> (http_scope \<Rightarrow> (web_state \<times> 'w service_world_scheme) asgi) \<Rightarrow>
   http_scope \<Rightarrow> pystr \<Rightarrow> ((web_state \<times> 'w service_world_scheme) guarded, unit) run" where
  "guard_app web app scope request_id =
     (case rejection (web_allowed web) scope of
        Some (code, message) \<Rightarrow>
          total
            (bind (set_state (\<lambda>s. s\<lparr>ws_error_code := Some code\<rparr>)) (\<lambda>_.
             respond (send_with_request_id web request_id) (error_response code message None None [])))
      | None \<Rightarrow> run_asgi (send_with_request_id web request_id) (app scope))"

definition handle_crash ::
  "'w service_world_scheme web \<Rightarrow> pystr \<Rightarrow> exn \<Rightarrow>
   ((web_state \<times> 'w service_world_scheme) guarded, unit) io" where
  "handle_crash web request_id e =
     bind (set_state (\<lambda>s. s\<lparr>ws_error_type := Some (type_name e)\<rparr>)) (\<lambda>_.
     bind (on_world (on_world (warning ''unhandled_exception''))) (\<lambda>_.
     bind self (\<lambda>status.
       if status \<noteq> None then raise e
       else
         bind (set_state (\<lambda>s. s\<lparr>ws_error_code := Some INTERNAL_ERROR\<rparr>)) (\<lambda>_.
         respond (send_with_request_id web request_id)
           (error_response INTERNAL_ERROR
             (lit ''Unexpected server error; the service log has details for request '' @ request_id)
             None None [])))))"

text \<open>\<open>response_status or 500\<close>.\<close>

definition shown_status :: "nat option \<Rightarrow> nat" where
  "shown_status status = (case status of Some n \<Rightarrow> if n = 0 then 500 else n | None \<Rightarrow> 500)"

definition log_call ::
  "'w service_world_scheme web \<Rightarrow> http_scope \<Rightarrow> pystr \<Rightarrow> int \<Rightarrow>
   ((web_state \<times> 'w service_world_scheme) guarded, unit) io" where
  "log_call web scope request_id started =
     bind self (\<lambda>status.
     bind (on_world self) (\<lambda>state.
     on_world (on_world (log_request web scope state request_id (shown_status status) started))))"

definition web_call ::
  "'w service_world_scheme web \<Rightarrow> (http_scope \<Rightarrow> (web_state \<times> 'w service_world_scheme) asgi) \<Rightarrow>
   http_scope \<Rightarrow> ((web_state \<times> 'w service_world_scheme) guarded, unit) run" where
  "web_call web app scope =
     (if hs_type scope \<noteq> lit ''http'' then
        run_asgi (\<lambda>m. on_world (on_world (web_send web m))) (app scope)
      else
        pbind (total (on_world (on_world monotonic))) (\<lambda>started.
        pbind (total (on_world (on_world uuid4))) (\<lambda>request_id.
        ptry_finally
          (ptry_except (guard_app web app scope request_id) (\<lambda>e. total (handle_crash web request_id e)))
          (log_call web scope request_id started))))"

end
