(* ===== verification/Request_Log.thy ===== *)
theory Request_Log
  imports Transfer_Run
begin

text \<open>
  \<^verbatim>\<open>databridge/request_log.py\<close>: the private, size-bounded log with one line of JSON per request.

  The log has its files for itself, so their world is a map from the number of a file (0 is the
  current one, \<open>n\<close> its n-th backup) to its text, which is ASCII, with a schedule of faults. The text
  stream keeps what it could not hand to the system.
\<close>

section \<open>Lines\<close>

text \<open>\<open>json.dumps(event, separators=(",", ":"))\<close>.\<close>

fun joined :: "nat \<Rightarrow> pystr list \<Rightarrow> pystr" where
  "joined sep [] = []"
| "joined sep [s] = s"
| "joined sep (s # t # ss) = s @ [sep] @ joined sep (t # ss)"

function compact_dumps :: "json \<Rightarrow> pystr" where
  "compact_dumps (JArr xs) = [91] @ joined 44 (map compact_dumps xs) @ [93]"
| "compact_dumps (JObj d) =
     [123] @ joined 44 (map (\<lambda>(k, v). dumps_str k @ [58] @ compact_dumps v) d) @ [125]"
| "compact_dumps JNull = lit ''null''"
| "compact_dumps (JBool b) = (if b then lit ''true'' else lit ''false'')"
| "compact_dumps (JInt i) = show_int i"
| "compact_dumps (JFloat s) = s"
| "compact_dumps (JStr s) = dumps_str s"
  by pat_completeness auto
termination
proof (relation "measure size")
  fix d :: "(pystr \<times> json) list" and x k v
  assume "x \<in> set d" "(k, v) = x"
  then show "(v, JObj d) \<in> measure size"
    by (induction d) auto
qed (auto simp: less_Suc_eq_le size_list_estimation')

definition log_line :: "(pystr \<times> json) list \<Rightarrow> pystr" where
  "log_line event = compact_dumps (JObj event) @ [10]"

lemma log_line_nonempty [simp]: "log_line event \<noteq> []"
  by (simp add: log_line_def)

section \<open>The files\<close>

record log_file =
  lf_text :: pystr
  lf_mode :: perms

text \<open>A fault is an error number, and for a write how much was written before it.\<close>

record log_world = service_world +
  lg_files :: "nat \<rightharpoonup> log_file"
  lg_faults :: "(errno \<times> nat) option list"

definition log_syscall :: "('w log_world_scheme, 'a) io \<Rightarrow> ('w log_world_scheme, 'a) io" where
  "log_syscall m =
     (\<lambda>w. case lg_faults w of
        [] \<Rightarrow> m w
      | None # later \<Rightarrow> m (w\<lparr>lg_faults := later\<rparr>)
      | Some (n, _) # later \<Rightarrow> (Inl (OSError n), w\<lparr>lg_faults := later\<rparr>))"

definition log_exists :: "nat \<Rightarrow> ('w log_world_scheme, bool) io" where
  "log_exists number =
     try_except (log_syscall (get (\<lambda>w. number \<in> dom (lg_files w))))
       (\<lambda>e. case e of
          OSError n \<Rightarrow> if n \<in> ignored_errnos then ret False else raise e
        | _ \<Rightarrow> raise e)"

definition log_replace :: "nat \<Rightarrow> nat \<Rightarrow> ('w log_world_scheme, unit) io" where
  "log_replace source target =
     log_syscall (\<lambda>w. case lg_files w source of
        None \<Rightarrow> (Inl (OSError ENOENT), w)
      | Some f \<Rightarrow> (Inr (), w\<lparr>lg_files := (lg_files w)(source := None, target \<mapsto> f)\<rparr>))"

definition log_unlink :: "nat \<Rightarrow> ('w log_world_scheme, unit) io" where
  "log_unlink number =
     try_except (log_syscall (modify (\<lambda>w. w\<lparr>lg_files := (lg_files w)(number := None)\<rparr>)))
       (\<lambda>e. if e = OSError ENOENT then ret () else raise e)"

definition log_open :: "('w log_world_scheme, unit) io" where
  "log_open =
     log_syscall (modify (\<lambda>w. case lg_files w 0 of
        Some _ \<Rightarrow> w
      | None \<Rightarrow> w\<lparr>lg_files := (lg_files w)(0 \<mapsto> \<lparr>lf_text = [], lf_mode = 384 AND NOT (umask w)\<rparr>)\<rparr>))"

definition log_chmod :: "('w log_world_scheme, unit) io" where
  "log_chmod =
     log_syscall (modify (\<lambda>w. w\<lparr>lg_files := (lg_files w)(0 := map_option (lf_mode_update (\<lambda>_. 384)) (lg_files w 0))\<rparr>))"

definition log_size :: "('w log_world_scheme, nat) io" where
  "log_size = log_syscall (get (\<lambda>w. case lg_files w 0 of None \<Rightarrow> 0 | Some f \<Rightarrow> length (lf_text f)))"

definition append_text :: "pystr \<Rightarrow> 'w log_world_scheme \<Rightarrow> 'w log_world_scheme" where
  "append_text text w =
     w\<lparr>lg_files := (lg_files w)(0 := map_option (lf_text_update (\<lambda>t. t @ text)) (lg_files w 0))\<rparr>"

text \<open>
  Handing text to the system: what is left of it when that fails. The system is not asked when there
  is nothing to hand over.
\<close>

definition log_append :: "pystr \<Rightarrow> 'w log_world_scheme \<Rightarrow> (errno \<times> pystr) option \<times> 'w log_world_scheme" where
  "log_append text w =
     (if text = [] then (None, w)
      else case lg_faults w of
        [] \<Rightarrow> (None, append_text text w)
      | None # later \<Rightarrow> (None, append_text text (w\<lparr>lg_faults := later\<rparr>))
      | Some (n, k) # later \<Rightarrow> (Some (n, drop k text), append_text (take k text) (w\<lparr>lg_faults := later\<rparr>)))"

section \<open>The log\<close>

text \<open>\<open>_stream\<close>: none, one that is open with the text it could not write yet, or one whose close failed.\<close>

datatype log_stream = No_stream | Open_stream pystr | Closed_stream

record request_log =
  rl_max_bytes :: nat
  rl_backups :: nat
  rl_stream :: log_stream
  rl_size :: nat

definition MAX_LOG_BYTES :: nat where "MAX_LOG_BYTES = 10 * 1024 * 1024"
definition LOG_BACKUPS :: nat where "LOG_BACKUPS = 3"

definition RequestLog :: "nat \<Rightarrow> nat \<Rightarrow> request_log result" where
  "RequestLog max_bytes backups =
     (if max_bytes < 1 then Inl (PyError ''ValueError'')
      else Inr \<lparr>rl_max_bytes = max_bytes, rl_backups = backups, rl_stream = No_stream, rl_size = 0\<rparr>)"

type_synonym ('w, 'a) log_method = "(request_log \<times> 'w log_world_scheme, 'a) io"

definition RequestLog_open :: "('w, unit) log_method" where
  "RequestLog_open =
     bind (on_world log_open) (\<lambda>_.
     bind (on_world log_chmod) (\<lambda>_.
     bind (on_world log_size) (\<lambda>n.
     assign (\<lambda>l. l\<lparr>rl_size := n, rl_stream := Open_stream []\<rparr>))))"

text \<open>
  \<open>close\<close> of a text stream. It flushes what it still holds; when that fails, the close of the buffer
  below flushes the rest once more, and the descriptor is closed whatever happened. The last
  exception is raised, and the stream is closed in any case.
\<close>

definition stream_close :: "pystr \<Rightarrow> ('w log_world_scheme, unit) io" where
  "stream_close text =
     (\<lambda>w. case log_append text w of
        (None, w1) \<Rightarrow> log_syscall (ret ()) w1
      | (Some (first, left), w1) \<Rightarrow>
          try_finally
            (\<lambda>w. case log_append left w of
               (None, w2) \<Rightarrow> (Inl (OSError first), w2)
             | (Some (second, _), w2) \<Rightarrow> (Inl (OSError second), w2))
            (log_syscall (ret ())) w1)"

definition RequestLog_close :: "('w, unit) log_method" where
  "RequestLog_close =
     bind self (\<lambda>l. case rl_stream l of
       No_stream \<Rightarrow> ret ()
     | Closed_stream \<Rightarrow> assign (\<lambda>l. l\<lparr>rl_stream := No_stream\<rparr>)
     | Open_stream text \<Rightarrow>
         bind (assign (\<lambda>l. l\<lparr>rl_stream := Closed_stream\<rparr>)) (\<lambda>_.
         bind (on_world (stream_close text)) (\<lambda>_.
         assign (\<lambda>l. l\<lparr>rl_stream := No_stream\<rparr>))))"

text \<open>The loop of \<open>_rotate\<close>, from the oldest backup to the first.\<close>

primrec shift_backups :: "nat \<Rightarrow> ('w log_world_scheme, unit) io" where
  "shift_backups 0 = ret ()"
| "shift_backups (Suc number) =
     bind (log_exists number) (\<lambda>there.
     bind (only_if there (log_replace number (Suc number))) (\<lambda>_.
     shift_backups number))"

definition RequestLog_rotate :: "('w, unit) log_method" where
  "RequestLog_rotate =
     bind RequestLog_close (\<lambda>_.
     bind self (\<lambda>l.
     bind (only_if (rl_backups l = 0) (on_world (log_unlink 0))) (\<lambda>_.
     bind (on_world (shift_backups (rl_backups l))) (\<lambda>_.
     RequestLog_open))))"

definition stream_write :: "pystr \<Rightarrow> ('w, unit) log_method" where
  "stream_write line =
     (\<lambda>(l, w). case rl_stream l of
        No_stream \<Rightarrow> (Inl (PyError ''RuntimeError''), (l, w))
      | Closed_stream \<Rightarrow> (Inl (PyError ''ValueError''), (l, w))
      | Open_stream text \<Rightarrow>
          (case log_append (text @ line) w of
             (None, w') \<Rightarrow> (Inr (), (l\<lparr>rl_stream := Open_stream []\<rparr>, w'))
           | (Some (n, left), w') \<Rightarrow> (Inl (OSError n), (l\<lparr>rl_stream := Open_stream left\<rparr>, w'))))"

definition RequestLog_write :: "(pystr \<times> json) list \<Rightarrow> ('w, unit) log_method" where
  "RequestLog_write event =
     (let line = log_line event
      in
        bind self (\<lambda>l.
        bind (only_if (rl_size l \<noteq> 0 \<and> rl_max_bytes l < rl_size l + length line) RequestLog_rotate) (\<lambda>_.
        bind (stream_write line) (\<lambda>_.
        assign (\<lambda>l. l\<lparr>rl_size := rl_size l + length line\<rparr>)))))"

end
