(* ===== verification/Api.thy ===== *)
theory Api
  imports Web Request_Log Sftp Registry Preview
begin

text \<open>
  \<^verbatim>\<open>databridge/api.py\<close>: the routes over the store, the connectors, the preview and the transfer
  service, the mapping of errors to responses, and the error codes that each route documents.

  The framework matches the route and validates the request before a handler runs; what it finds is
  a parameter (\<open>ap_routing\<close>), as is the text of a model in a response (\<open>ap_render\<close>).
\<close>

section \<open>Documented errors\<close>

definition ALWAYS_POSSIBLE :: "error_code list" where
  "ALWAYS_POSSIBLE = [INVALID_HOST_HEADER, INTERNAL_ERROR]"

definition STATE_CHANGE :: "error_code list" where
  "STATE_CHANGE = [CROSS_ORIGIN_REJECTED]"

definition SFTP_ACCESS :: "error_code list" where
  "SFTP_ACCESS =
     [INVALID_CONNECTION_SETTINGS, SFTP_AUTH_FAILED, SFTP_HOST_KEY_REJECTED, SFTP_OPERATION_FAILED,
      SFTP_UNAVAILABLE]"

definition TRANSFER_PAGE_LIMIT :: nat where "TRANSFER_PAGE_LIMIT = 500"

text \<open>\<open>_error_responses\<close>: the codes of each status, both in order.\<close>

definition error_responses :: "error_code list \<Rightarrow> bool \<Rightarrow> (nat \<times> pystr list) list" where
  "error_responses codes changes_state =
     (let possible = codes @ ALWAYS_POSSIBLE @ (if changes_state then STATE_CHANGE else [])
      in map (\<lambda>s. (s, remdups (sort (map code_value (filter (\<lambda>c. http_status c = s) possible)))))
           (remdups (sort (map http_status possible))))"

section \<open>Routes\<close>

text \<open>The arguments of a handler are what the models of the request accept.\<close>

datatype endpoint =
    Create_connection connection
  | Replace_connection pystr connection
  | Delete_connection pystr
  | List_connections
  | Get_connection pystr
  | List_files pystr
  | Healthcheck pystr
  | Preview_file pystr pystr nat
  | Transfer_file transfer_request
  | List_transfers "transfer_status option" nat
  | Get_transfer pystr

definition listing_errors :: "error_code list" where
  "listing_errors = [CONNECTION_NOT_FOUND, CONNECTION_ROOT_UNAVAILABLE] @ SFTP_ACCESS"

text \<open>The \<open>responses\<close> of each route: its own codes, and whether it changes state.\<close>

fun declared :: "endpoint \<Rightarrow> error_code list \<times> bool" where
  "declared (Create_connection _) =
     ([INVALID_REQUEST, INVALID_CONNECTION_SETTINGS, CONNECTION_EXISTS], True)"
| "declared (Replace_connection _ _) =
     ([INVALID_REQUEST, INVALID_CONNECTION_SETTINGS, CONNECTION_NOT_FOUND], True)"
| "declared (Delete_connection _) = ([CONNECTION_NOT_FOUND], True)"
| "declared List_connections = ([], False)"
| "declared (Get_connection _) = ([CONNECTION_NOT_FOUND], False)"
| "declared (List_files _) = (listing_errors, False)"
| "declared (Healthcheck _) = (listing_errors @ [LOCAL_IO_ERROR], True)"
| "declared (Preview_file _ _ _) =
     ([INVALID_REQUEST, CONNECTION_NOT_FOUND, FILE_NOT_FOUND, INVALID_FILENAME,
       UNSUPPORTED_PREVIEW_FORMAT, MALFORMED_FILE, PREVIEW_LIMIT_EXCEEDED, FILE_NOT_READABLE,
       SOURCE_CHANGED, CONNECTION_ROOT_UNAVAILABLE, LOCAL_IO_ERROR] @ SFTP_ACCESS, False)"
| "declared (Transfer_file _) =
     ([INVALID_REQUEST, INVALID_FILENAME, SAME_FILE, CONNECTION_NOT_FOUND, FILE_NOT_FOUND,
       DESTINATION_EXISTS, DESTINATION_NOT_WRITABLE, FILE_NOT_READABLE, PUBLISH_UNSUPPORTED,
       DESTINATION_FULL, CONNECTION_ROOT_UNAVAILABLE, LOCAL_IO_ERROR, SOURCE_READ_FAILED,
       SOURCE_CHANGED, DESTINATION_WRITE_FAILED, TRANSFER_CAPACITY_EXCEEDED,
       TRANSFER_INTERNAL_ERROR, TRANSFER_RECORD_FAILED, TRANSFER_STATE_CONFLICT] @ SFTP_ACCESS, True)"
| "declared (List_transfers _ _) = ([INVALID_REQUEST], False)"
| "declared (Get_transfer _) = ([TRANSFER_NOT_FOUND], False)"

definition documented :: "endpoint \<Rightarrow> (nat \<times> pystr list) list" where
  "documented e = (case declared e of (codes, changes_state) \<Rightarrow> error_responses codes changes_state)"

section \<open>Problems of a request\<close>

text \<open>One entry of \<open>errors()\<close> of a validation error.\<close>

datatype location = Name pystr | Position nat

record validation_problem =
  vp_type :: pystr
  vp_loc :: "location list"
  vp_msg :: pystr

definition REQUIREMENT_PREFIXES :: "pystr list" where
  "REQUIREMENT_PREFIXES = [lit ''Input should'', lit ''String should'', lit ''Value should'']"

definition LOCATION_PREFIXES :: "pystr list" where
  "LOCATION_PREFIXES = [lit ''body'', lit ''query'', lit ''path'']"

definition problem_text :: "pystr \<Rightarrow> pystr" where
  "problem_text message =
     (let prefix = lit ''Value error, '';
          text = (if startswith message prefix then drop (length prefix) message else message)
      in case find (startswith text) REQUIREMENT_PREFIXES of
           Some p \<Rightarrow> lit ''must'' @ drop (length p) text
         | None \<Rightarrow> lower (take 1 text) @ drop 1 text)"

definition drop_name :: "pystr list \<Rightarrow> location list \<Rightarrow> location list" where
  "drop_name heads loc =
     (case loc of Name n # rest \<Rightarrow> if n \<in> set heads then rest else loc | _ \<Rightarrow> loc)"

fun location_text :: "location \<Rightarrow> pystr" where
  "location_text (Name n) = n"
| "location_text (Position i) = show_nat i"

definition join_text :: "pystr \<Rightarrow> pystr list \<Rightarrow> pystr" where
  "join_text sep parts = (case parts of [] \<Rightarrow> [] | p # ps \<Rightarrow> p @ concat (map (\<lambda>q. sep @ q) ps))"

definition field_problem_of :: "validation_problem \<Rightarrow> field_problem" where
  "field_problem_of p =
     (let kind = vp_type p
      in if kind = lit ''json_invalid'' then
           \<lparr>fp_field = lit ''request body'', fp_problem = lit ''is not valid JSON''\<rparr>
         else if kind = lit ''union_tag_invalid'' \<or> kind = lit ''union_tag_not_found'' then
           \<lparr>fp_field = lit ''type'',
            fp_problem = lit ''must be one of: '' @ join_text (lit '', '') CONNECTION_TYPE_NAMES\<rparr>
         else
           (let location = drop_name CONNECTION_TYPE_NAMES (drop_name LOCATION_PREFIXES (vp_loc p));
                joined = join_text [46] (map location_text location);
                field = (if joined = [] then lit ''request body'' else joined)
            in if kind = lit ''missing'' then \<lparr>fp_field = field, fp_problem = lit ''is required''\<rparr>
               else if kind = lit ''extra_forbidden'' then
                 \<lparr>fp_field = field, fp_problem = lit ''is not a recognized field''\<rparr>
               else \<lparr>fp_field = field, fp_problem = problem_text (vp_msg p)\<rparr>))"

section \<open>The application\<close>

text \<open>What the framework makes of a request: the route it matched, with its path parameters, and the outcome.\<close>

datatype matched =
    Endpoint endpoint
  | Invalid_request json "validation_problem list"
  | Http_error nat "(pystr \<times> pystr) list"

record routing =
  rt_route :: "pystr option"
  rt_path_params :: "(pystr \<times> json) list"
  rt_matched :: matched

text \<open>What a handler returns.\<close>

datatype answer =
    View connection_view
  | Views "connection_view list"
  | Nothing
  | File_list pystr listing
  | Health pystr access_check
  | Preview_of preview_result
  | Record transfer_record
  | Records "transfer_record list"

record http_world = log_world +
  hw_log :: request_log
  hw_sent :: "message list"
  hw_events :: "(pystr \<times> json) list list"

record 'w api =
  ap_store :: connection_store
  ap_paramiko :: "'w paramiko"
  ap_known_hosts :: pystr
  ap_routing :: "http_scope \<Rightarrow> routing"
  ap_render :: "answer \<Rightarrow> json"

text \<open>The service of the application, and \<open>_connector\<close>.\<close>

definition api_open ::
  "'w service_world_scheme api \<Rightarrow> connection \<Rightarrow>
   ('w service_world_scheme, ('w service_world_scheme, file_source + download \<times> session,
      local_write + sftp_write \<times> session) connector) io" where
  "api_open api = open_connector (sftp_open (ap_paramiko api) (ap_known_hosts api))"

definition api_service ::
  "'w service_world_scheme api \<Rightarrow>
   ('w service_world_scheme, file_source + download \<times> session, local_write + sftp_write \<times> session)
     transfer_service" where
  "api_service api =
     \<lparr>sv_ledger = store_ledger (ap_store api), sv_factory = api_open api,
      sv_capacity = MAX_CONCURRENT_TRANSFERS\<rparr>"

definition api_connector ::
  "'w service_world_scheme api \<Rightarrow> pystr \<Rightarrow>
   ('w service_world_scheme, ('w service_world_scheme, file_source + download \<times> session,
      local_write + sftp_write \<times> session) connector) io" where
  "api_connector api name = bind (store_get (ap_store api) name) (api_open api)"

section \<open>Handlers\<close>

type_synonym ('w, 'a) handler = "(web_state \<times> 'w service_world_scheme, 'a) run"

text \<open>\<open>item.model_dump(exclude={"password"})\<close> and \<open>item.model_dump()\<close>.\<close>

definition connection_dump :: "connection \<Rightarrow> (pystr \<times> json) list" where
  "connection_dump c = name_and_type (conn_name c) (conn_type c) @ public_settings c"

definition request_dump :: "transfer_request \<Rightarrow> (pystr \<times> json) list" where
  "request_dump r =
     [(lit ''source'', JStr (rq_source r)), (lit ''source_file'', JStr (rq_source_file r)),
      (lit ''destination'', JStr (rq_destination r)),
      (lit ''destination_file'', JStr (rq_destination_file r)),
      (lit ''overwrite'', JBool (rq_overwrite r))]"

definition log_body :: "(pystr \<times> json) list \<Rightarrow> string \<Rightarrow> (web_state \<times> 'w, unit) io" where
  "log_body body route = assign (\<lambda>s. s\<lparr>ws_body_params := body_log_fields (JObj body) (lit route)\<rparr>)"

definition prepare :: "connection \<Rightarrow> ('w os_world_scheme, connection) io" where
  "prepare = prepare_connection SFTPConnector_prepare"

definition create_connection ::
  "'w service_world_scheme api \<Rightarrow> connection \<Rightarrow> (web_state \<times> 'w service_world_scheme, connection_view) io" where
  "create_connection api item =
     bind (log_body (connection_dump item) ''/connections'') (\<lambda>_.
     bind (on_world (prepare item)) (\<lambda>prepared.
     on_world (store_create (ap_store api) prepared)))"

definition replace_connection ::
  "'w service_world_scheme api \<Rightarrow> pystr \<Rightarrow> connection \<Rightarrow>
   (web_state \<times> 'w service_world_scheme, connection_view) io" where
  "replace_connection api name item =
     bind (log_body (connection_dump item) ''/connections'') (\<lambda>_.
     if conn_name item \<noteq> name then
       raise (db_error INVALID_CONNECTION_SETTINGS
         (lit ''The body names connection '' @ [39] @ conn_name item @ [39] @
          lit '', but the path names '' @ [39] @ name @ [39]))
     else
       bind (on_world (store_get_public name)) (\<lambda>_.
       bind (on_world (prepare item)) (\<lambda>prepared.
       on_world (store_replace (ap_store api) prepared))))"

definition list_files :: "'w service_world_scheme api \<Rightarrow> pystr \<Rightarrow> ('w service_world_scheme, listing) io" where
  "list_files api name = bind (api_connector api name) cn_list_files"

definition healthcheck :: "'w service_world_scheme api \<Rightarrow> pystr \<Rightarrow> ('w service_world_scheme, access_check) io" where
  "healthcheck api name = bind (api_connector api name) cn_check_access"

definition preview_file ::
  "'w service_world_scheme api \<Rightarrow> pystr \<Rightarrow> pystr \<Rightarrow> nat \<Rightarrow> ('w service_world_scheme, preview_result) io" where
  "preview_file api name filename limit = bind (api_connector api name) (\<lambda>cn. preview cn filename limit)"

definition beside_state :: "('w, 'a) run \<Rightarrow> (web_state \<times> 'w, 'a) run" where
  "beside_state m = (\<lambda>(s, w). map_option (\<lambda>(r, w'). (r, (s, w'))) (m w))"

definition transfer_file ::
  "'w service_world_scheme api \<Rightarrow> transfer_request \<Rightarrow> ('w, transfer_record) handler" where
  "transfer_file api item =
     pbind (total (log_body (request_dump item) ''/transfers'')) (\<lambda>_.
     pbind (beside_state (service_run (api_service api) item)) (\<lambda>record.
     pbind (total (assign (\<lambda>s. s\<lparr>ws_transfer_id := Some (tr_id record)\<rparr>))) (\<lambda>_.
     total (ret record))))"

text \<open>The handler of each route with the status of its success.\<close>

definition answered :: "nat \<Rightarrow> ('a \<Rightarrow> answer) \<Rightarrow> ('s, 'a) io \<Rightarrow> ('s, nat \<times> answer) run" where
  "answered status f m = total (bind m (\<lambda>x. ret (status, f x)))"

fun handle :: "'w service_world_scheme api \<Rightarrow> endpoint \<Rightarrow> ('w, nat \<times> answer) handler" where
  "handle api (Create_connection item) = answered 201 View (create_connection api item)"
| "handle api (Replace_connection name item) = answered 200 View (replace_connection api name item)"
| "handle api (Delete_connection name) = answered 204 (\<lambda>_. Nothing) (on_world (store_delete name))"
| "handle api List_connections = answered 200 Views (on_world store_list_public)"
| "handle api (Get_connection name) = answered 200 View (on_world (store_get_public name))"
| "handle api (List_files name) = answered 200 (File_list name) (on_world (list_files api name))"
| "handle api (Healthcheck name) = answered 200 (Health name) (on_world (healthcheck api name))"
| "handle api (Preview_file name filename limit) =
     answered 200 Preview_of (on_world (preview_file api name filename limit))"
| "handle api (Transfer_file item) =
     pbind (transfer_file api item) (\<lambda>record. total (ret (201, Record record)))"
| "handle api (List_transfers status limit) = answered 200 Records (on_world (list_transfers status limit))"
| "handle api (Get_transfer i) = answered 200 Record (on_world (get_transfer i))"

section \<open>Error handlers\<close>

definition domain_error ::
  "error_code \<Rightarrow> pystr \<Rightarrow> pystr option \<Rightarrow> (web_state \<times> 'w, response) io" where
  "domain_error code message transfer_id =
     bind (assign (\<lambda>s. s\<lparr>ws_error_code := Some code, ws_transfer_id := transfer_id\<rparr>)) (\<lambda>_.
     ret (error_response code message transfer_id None []))"

definition validation_error ::
  "json \<Rightarrow> validation_problem list \<Rightarrow> (web_state \<times> 'w, response) io" where
  "validation_error body problems =
     bind self (\<lambda>s.
     bind
       (assign (\<lambda>s. s\<lparr>ws_error_code := Some INVALID_REQUEST,
          ws_body_params := body_log_fields body (case ws_route s of None \<Rightarrow> [] | Some r \<Rightarrow> r)\<rparr>)) (\<lambda>_.
     let details = map field_problem_of problems;
         message = join_text (lit ''; '') (map (\<lambda>d. fp_field d @ [32] @ fp_problem d) details)
     in ret (error_response INVALID_REQUEST message None (Some details) [])))"

definition ROUTING_ERRORS :: "nat \<rightharpoonup> error_code \<times> pystr" where
  "ROUTING_ERRORS =
     [404 \<mapsto> (ROUTE_NOT_FOUND, lit ''No route matches this path; see /docs for the API''),
      405 \<mapsto> (METHOD_NOT_ALLOWED, lit ''This route does not accept the request method'')]"

definition routing_error :: "nat \<Rightarrow> (pystr \<times> pystr) list \<Rightarrow> (web_state \<times> 'w, response) io" where
  "routing_error status headers =
     (if status = 400 then
        bind (assign (\<lambda>s. s\<lparr>ws_error_code := Some INVALID_REQUEST\<rparr>)) (\<lambda>_.
        ret (error_response INVALID_REQUEST (lit ''request body is not valid JSON'') None
          (Some [\<lparr>fp_field = lit ''request body'', fp_problem = lit ''is not valid JSON''\<rparr>]) []))
      else
        (case (case ROUTING_ERRORS status of
                 Some x \<Rightarrow> x | None \<Rightarrow> (INTERNAL_ERROR, lit ''Unexpected HTTP error'')) of
           (code, message) \<Rightarrow>
             bind (assign (\<lambda>s. s\<lparr>ws_error_code := Some code\<rparr>)) (\<lambda>_.
             ret (error_response code message None None headers))))"

text \<open>The response to a request: a \<open>DataBridgeError\<close> has its handler, any other exception leaves the application.\<close>

definition success :: "'w api \<Rightarrow> nat \<times> answer \<Rightarrow> response" where
  "success api = (\<lambda>(status, answer).
     \<lparr>rs_status = status, rs_headers = [],
      rs_body = (case answer of Nothing \<Rightarrow> None | _ \<Rightarrow> Some (ap_render api answer))\<rparr>)"

definition answer_endpoint ::
  "'w service_world_scheme api \<Rightarrow> endpoint \<Rightarrow> ('w, response) handler" where
  "answer_endpoint api e =
     ptry_except (pbind (handle api e) (\<lambda>x. total (ret (success api x))))
       (\<lambda>ex. total (case ex of
          DataBridgeError code message transfer_id \<Rightarrow> domain_error code message transfer_id
        | _ \<Rightarrow> raise ex))"

definition answer_request ::
  "'w service_world_scheme api \<Rightarrow> http_scope \<Rightarrow> ('w, response) handler" where
  "answer_request api scope =
     (let rt = ap_routing api scope in
      pbind (total (assign (\<lambda>s. s\<lparr>ws_route := rt_route rt, ws_path_params := rt_path_params rt\<rparr>))) (\<lambda>_.
      case rt_matched rt of
        Endpoint e \<Rightarrow> answer_endpoint api e
      | Invalid_request body problems \<Rightarrow> total (validation_error body problems)
      | Http_error status headers \<Rightarrow> total (routing_error status headers)))"

text \<open>As an application behind the middleware.\<close>

definition emitted :: "message \<Rightarrow> 's asgi \<Rightarrow> 's asgi" where
  "emitted m next = Emit m (\<lambda>failure. case failure of None \<Rightarrow> next | Some e \<Rightarrow> Crash e)"

definition response_asgi :: "response \<Rightarrow> 's asgi" where
  "response_asgi r =
     emitted (Response_start (rs_status r) (rs_headers r)) (emitted (Response_body (rs_body r)) Finish)"

definition api_asgi ::
  "'w service_world_scheme api \<Rightarrow> http_scope \<Rightarrow> (web_state \<times> 'w service_world_scheme) asgi" where
  "api_asgi api scope =
     Compute (\<lambda>s. map_option
       (\<lambda>(r, s'). (case r of Inl e \<Rightarrow> Crash e | Inr resp \<Rightarrow> response_asgi resp, s')) (answer_request api scope s))"

text \<open>
  The middleware that \<open>_application\<close> adds, over the request log; the server sends every message that
  it gets (it drops what a client that left does not read).
\<close>

definition server_send :: "message \<Rightarrow> ('w http_world_scheme, unit) io" where
  "server_send m = modify (\<lambda>w. w\<lparr>hw_sent := hw_sent w @ [m]\<rparr>)"

definition write_log :: "(pystr \<times> json) list \<Rightarrow> ('w http_world_scheme, unit) io" where
  "write_log event =
     (\<lambda>w. case RequestLog_write event (hw_log w, w) of
        (r, (l, w')) \<Rightarrow>
          (r, w'\<lparr>hw_log := l,
             hw_events := hw_events w' @ (case r of Inl _ \<Rightarrow> [] | Inr _ \<Rightarrow> [event])\<rparr>))"

definition http_web :: "pystr set \<Rightarrow> (int \<Rightarrow> int \<Rightarrow> pystr) \<Rightarrow> 'w http_world_scheme web" where
  "http_web allowed elapsed =
     \<lparr>web_allowed = allowed, web_log = write_log, web_send = server_send, web_elapsed = elapsed\<rparr>"

definition serve ::
  "'w http_world_scheme api \<Rightarrow> pystr set \<Rightarrow> (int \<Rightarrow> int \<Rightarrow> pystr) \<Rightarrow> http_scope \<Rightarrow>
   ('w http_world_scheme, unit) run" where
  "serve api allowed elapsed scope w =
     map_option (\<lambda>(r, (status, (s, w'))). (r, w'))
       (web_call (http_web allowed elapsed) (api_asgi api) scope (None, (new_web_state, w)))"

end
