(* ===== verification/Api_Within.thy ===== *)
theory Api_Within
  imports Disciplined Api
begin

text \<open>
  The transfer service and the handlers of the API in the discipline of their parts: what each route
  raises, and that no route touches what the world holds beside the service.
\<close>

section \<open>The transfer service\<close>

definition TRANSFER_CODES :: "error_code set" where
  "TRANSFER_CODES =
     OPEN_CODES \<union> READ_CODES \<union> WRITE_CODES \<union> RECORD_CODES \<union>
     {CONNECTION_NOT_FOUND, SAME_FILE, TRANSFER_CAPACITY_EXCEEDED, TRANSFER_INTERNAL_ERROR, DESTINATION_WRITE_FAILED}"

lemma transfer_subsets:
  assumes "TRANSFER_CODES \<subseteq> S"
  shows "OPEN_CODES \<subseteq> S" "READ_CODES \<subseteq> S" "WRITE_CODES \<subseteq> S" "RECORD_CODES \<subseteq> S"
    "CONNECTION_NOT_FOUND \<in> S" "SAME_FILE \<in> S" "INVALID_FILENAME \<in> S"
    "TRANSFER_CAPACITY_EXCEEDED \<in> S" "TRANSFER_INTERNAL_ERROR \<in> S"
    "TRANSFER_RECORD_FAILED \<in> S" "SOURCE_READ_FAILED \<in> S" "DESTINATION_WRITE_FAILED \<in> S"
  using assms
  by (auto simp: TRANSFER_CODES_def OPEN_CODES_def OPEN_FAILURES_def LOOKUP_FAILURES_def RECORD_CODES_def READ_CODES_def)

lemma within_warning [within_rules]: "within (disciplined S z) P (warning ev)"
  by (auto simp: within_def warning_def)

lemma within_uuid4 [within_rules]: "within (disciplined S z) P uuid4"
  by (rule withinI) (auto simp: uuid4_def split: list.splits)

lemma within_monotonic [within_rules]: "within (disciplined S z) P monotonic"
  by (rule withinI) (auto simp: monotonic_def split: list.splits)

lemma within_set_phase [within_rules]: "within (\<lambda>s. J (snd s)) P (set_phase p)"
  unfolding set_phase_def by (rule within_assign)

lemma within_except_db_error [within_rules]:
  "within J P m \<Longrightarrow> (\<And>e. P e \<Longrightarrow> within J P (h e)) \<Longrightarrow> within J P (except_db_error m h)"
  unfolding except_db_error_def by (rule within_try_except [where Q = P]) (auto intro: within_raise)

lemma store_ledger_sel:
  "ld_get (store_ledger st) = store_get st" "ld_start (store_ledger st) = start_transfer"
  "ld_progress (store_ledger st) = record_progress" "ld_publish (store_ledger st) = mark_publishing"
  "ld_finish (store_ledger st) = finish_transfer" "ld_fail (store_ledger st) = fail_transfer"
  by (simp_all add: store_ledger_def)

lemmas recorded_within = ledger_within [OF transfer_subsets(4)]

text \<open>In the following, \<open>S\<close> has all codes of a transfer.\<close>

lemma checkpoint_within:
  "TRANSFER_CODES \<subseteq> S \<Longrightarrow> within (\<lambda>s. disciplined S z (snd s)) (codes S) (transfer_checkpoint (store_ledger st))"
  unfolding transfer_checkpoint_def store_ledger_sel by (intro within_rules recorded_within)

lemma write_block_within:
  assumes "TRANSFER_CODES \<subseteq> S" "coded_connector source z" "coded_connector destination z"
  shows "pwithin (\<lambda>s. disciplined S z (snd (snd s))) (codes S) (write_block (store_ledger st) source destination)"
  unfolding write_block_def write_body_def transfer_copy_def transfer_copy_step_def store_ledger_sel
  by (intro within_rules coded_connector.source_read [OF assms(2)] coded_connector.sink_write [OF assms(3)]
      coded_connector.sink_finish [OF assms(3)] coded_connector.write_enter [OF assms(3)]
      coded_connector.write_exit [OF assms(3)] checkpoint_within recorded_within transfer_subsets [OF assms(1)] assms(1))

lemma read_block_within:
  assumes "TRANSFER_CODES \<subseteq> S" "coded_connector source z" "coded_connector destination z"
  shows "pwithin (\<lambda>s. disciplined S z (snd s)) (codes S) (read_block (store_ledger st) source destination)"
  unfolding read_block_def
  by (intro within_rules coded_connector.read_enter [OF assms(2)] coded_connector.read_exit [OF assms(2)]
      write_block_within assms transfer_subsets [OF assms(1)])

text \<open>What the service raises after a failure has the code of the failure, or one of its own.\<close>

lemma failure_of_codes:
  assumes "TRANSFER_CODES \<subseteq> S" "codes S e" "failure_of tf e = (code, message)" shows "code \<in> S"
proof (cases e)
  case (DataBridgeError c m t)
  with assms show ?thesis by (auto simp: failure_of_def)
qed (use assms(3) transfer_subsets [OF assms(1)] in \<open>auto simp: failure_of_def CONTRACT_VIOLATIONS_def split: option.splits if_splits\<close>)

lemma transfer_fail_within:
  assumes "TRANSFER_CODES \<subseteq> S" "codes S e"
  shows "within (\<lambda>s. disciplined S z (snd s)) (codes S) (transfer_fail (store_ledger st) e)"
  unfolding transfer_fail_def store_ledger_sel Let_def
  by (intro within_rules recorded_within assms) (auto dest: failure_of_codes [OF assms])

lemma transfer_rescue_within:
  "TRANSFER_CODES \<subseteq> S \<Longrightarrow> codes S e \<Longrightarrow> within (\<lambda>s. disciplined S z (snd s)) (codes S) (transfer_rescue (store_ledger st) e)"
  unfolding transfer_rescue_def by (intro within_rules transfer_fail_within)

lemma transfer_finish_within:
  "TRANSFER_CODES \<subseteq> S \<Longrightarrow> within (\<lambda>s. disciplined S z (snd s)) (codes S) (transfer_finish (store_ledger st))"
  unfolding transfer_finish_def store_ledger_sel
  by (intro within_rules recorded_within) (simp_all add: unfinished_error_def transfer_subsets)

text \<open>A lookup gives a connector of the application.\<close>

definition considerate_api :: "'z service_world_scheme api \<Rightarrow> bool" where
  "considerate_api api \<longleftrightarrow> considerate (ap_paramiko api)"

lemma connector_hoare:
  assumes "considerate_api api" "CONNECTION_NOT_FOUND \<in> S"
  shows "hoare (disciplined S z) (bind (store_get (ap_store api) name) (api_open api))
    (\<lambda>cn w. disciplined S z w \<and> coded_connector cn z) (\<lambda>e w. disciplined S z w \<and> codes S e)"
proof (rule hoare_bind)
  show "hoare (disciplined S z) (store_get (ap_store api) name) (\<lambda>_. disciplined S z) (\<lambda>e w. disciplined S z w \<and> codes S e)"
    using store_get_within [OF assms(2)] by (simp add: within_hoare)
  fix c
  obtain cn where "\<And>w. open_connector (sftp_open (ap_paramiko api) (ap_known_hosts api)) c w = (Inr cn, w)"
    "coded_connector cn z"
    using open_coded [OF assms(1) [unfolded considerate_api_def]] by blast
  then show "hoare (disciplined S z) (api_open api c)
      (\<lambda>cn w. disciplined S z w \<and> coded_connector cn z) (\<lambda>e w. disciplined S z w \<and> codes S e)"
    by (auto simp: hoare_def api_open_def)
qed

lemma within_bind_hoare:
  assumes "hoare J m (\<lambda>x s. J s \<and> C x) (\<lambda>e s. J s \<and> P e)" "\<And>x. C x \<Longrightarrow> within J P (f x)"
  shows "within J P (bind m f)"
  unfolding within_hoare
proof (rule hoare_bind [OF _ assms(1)])
  show "hoare (\<lambda>s. J s \<and> C x) (f x) (\<lambda>_. J) (\<lambda>e s. J s \<and> P e)" for x
    using assms(2) [of x] by (cases "C x") (auto simp: within_hoare hoare_def)
qed

lemma pwithin_pbind_hoare:
  assumes "hoare J m (\<lambda>x s. J s \<and> C x) (\<lambda>e s. J s \<and> P e)" "\<And>x. C x \<Longrightarrow> pwithin J P (f x)"
  shows "pwithin J P (pbind (total m) f)"
  unfolding pwithin_triple
proof (rule triple_pbind [OF triple_total [OF assms(1)]])
  show "triple False (\<lambda>s. J s \<and> C x) (f x) (\<lambda>_. J) (\<lambda>e s. J s \<and> P e)" for x
    using assms(2) [of x] by (cases "C x") (auto simp: pwithin_triple triple_def)
qed

lemma api_service_sel:
  "sv_ledger (api_service api) = store_ledger (ap_store api)" "sv_factory (api_service api) = api_open api"
  "sv_capacity (api_service api) = MAX_CONCURRENT_TRANSFERS"
  by (simp_all add: api_service_def)

lemma attempt_within:
  assumes "considerate_api api" "TRANSFER_CODES \<subseteq> S"
  shows "pwithin (\<lambda>s. disciplined S z (snd s)) (codes S) (transfer_attempt (api_service api))"
proof -
  have lookup: "hoare (\<lambda>s. disciplined S z (snd s)) (bind self (\<lambda>tf. on_world (transfer_connector (api_service api) (name tf))))
      (\<lambda>cn s. disciplined S z (snd s) \<and> coded_connector cn z) (\<lambda>e s. disciplined S z (snd s) \<and> codes S e)"
    for name :: "transfer \<Rightarrow> pystr"
    unfolding transfer_connector_def api_service_sel store_ledger_sel
  proof (rule hoare_bind [where R = "\<lambda>_ s. disciplined S z (snd s)"])
    show "hoare (\<lambda>s. disciplined S z (snd s)) (on_world (bind (store_get (ap_store api) (name tf)) (api_open api)))
        (\<lambda>cn s. disciplined S z (snd s) \<and> coded_connector cn z) (\<lambda>e s. disciplined S z (snd s) \<and> codes S e)" for tf
      using connector_hoare [OF assms(1) transfer_subsets(5) [OF assms(2)], of z "name tf"] by (intro hoare_on_world) simp
  qed (auto simp: hoare_def self_def split: prod.splits)
  note found = pwithin_pbind_hoare [where J = "\<lambda>s. disciplined S z (snd s)" and P = "codes S"
      and C = "\<lambda>cn. coded_connector cn z", OF lookup]
  show ?thesis
    unfolding transfer_attempt_def api_service_sel
    by (rule found, rule pwithin_pbind, intro within_rules, rule found, rule read_block_within [OF assms(2)])
qed

lemma service_within:
  assumes "considerate_api api" "TRANSFER_CODES \<subseteq> S"
  shows "pwithin (disciplined S z) (codes S) (service_run (api_service api) rq)"
proof -
  have start: "within (\<lambda>s. disciplined S z (snd s)) (codes S) (translate uncited (on_world (start_transfer i request)))" for i request
    by (rule within_translate [where Q = "codes S"], intro within_rules recorded_within assms)
      (auto simp: uncited_def split: exn.splits)
  have run: "pwithin (\<lambda>s. disciplined S z (snd s)) (codes S) (transfer_run (api_service api))"
    unfolding transfer_run_def api_service_sel store_ledger_sel
    by (intro within_rules start pwithin_ptry_except [where Q = "codes S"] attempt_within assms
        transfer_rescue_within transfer_finish_within)
  have fresh: "pwithin (disciplined S z) (codes S) (\<lambda>w.
      map_option (\<lambda>(r, (tf, w')). (r, w')) (transfer_run (api_service api) (new_transfer rq i, w)))" for i
    unfolding pwithin_def
  proof (intro allI impI)
    fix w r w' assume J: "disciplined S z w"
      and m: "map_option (\<lambda>(r, (tf, w')). (r, w')) (transfer_run (api_service api) (new_transfer rq i, w)) = Some (r, w')"
    from m obtain tf where "transfer_run (api_service api) (new_transfer rq i, w) = Some (r, (tf, w'))" by auto
    from pwithinD [OF run _ this] J show "disciplined S z w' \<and> (\<forall>e. r = Inl e \<longrightarrow> codes S e)" by simp
  qed
  have "within (disciplined S z) (codes S) (release_slot n)" for n
    unfolding release_slot_def by (intro within_rules within_modify) simp_all
  with fresh show ?thesis
    unfolding service_run_def run_new_transfer_def api_service_sel
    by (intro within_rules within_modify)
      (auto simp: same_file_error_def capacity_error_def dest: filename_codes [OF _ transfer_subsets(7) [OF assms(2)]] intro: transfer_subsets [OF assms(2)])
qed

section \<open>Handlers\<close>

lemma keeps_if_case: "(b \<Longrightarrow> keeps v m) \<Longrightarrow> (\<not> b \<Longrightarrow> keeps v m') \<Longrightarrow> keeps v (if b then m else m')"
  by simp

lemma keeps_path_mkdir [keeps_rules]: "keeps os_world.more (path_mkdir p m parents exist_ok)"
proof (induction p m parents exist_ok rule: path_mkdir.induct)
  case (1 p m parents exist_ok)
  show ?case
    by (subst path_mkdir.simps, intro keeps_try_except keeps_if_case keeps_bind keeps_raise keeps_ret keeps_sys
        keeps_path_is_dir 1) simp_all
qed

lemma prepare_within:
  assumes "INVALID_CONNECTION_SETTINGS \<in> S" shows "within (disciplined S z) (codes S) (prepare c)"
proof -
  have expand: "keeps os_world.more (expanduser p)" for p
    unfolding expanduser_def by (auto simp: keeps_def path_of_text_def split: option.splits)
  have "keeps os_world.more (LocalConnector_prepare c)" for c
    unfolding LocalConnector_prepare_def by (cases c) (auto intro!: keeps_rules expand)
  then have "within (disciplined S z) (codes S) (LocalConnector_prepare c)" for c
    by (intro within_os codes_local_prepare assms)
  moreover have "within (disciplined S z) (codes S) (SFTPConnector_prepare c)" for c
    unfolding SFTPConnector_prepare_def by (rule within_ret)
  ultimately show ?thesis
    by (cases c) (auto simp: prepare_def prepare_connection_def bind_of_result)
qed

text \<open>What a route raises: the codes that it declares, and one more for the preview.\<close>

fun raised_codes :: "endpoint \<Rightarrow> error_code set" where
  "raised_codes (Preview_file n f l) = insert SOURCE_READ_FAILED (set (fst (declared (Preview_file n f l))))"
| "raised_codes e = set (fst (declared e))"

lemma answered_within: "within J P m \<Longrightarrow> pwithin J P (answered status f m)"
  unfolding answered_def by (intro within_rules)

lemma session_codes: "set SFTP_ACCESS = SESSION_FAILURES"
  by (auto simp: SFTP_ACCESS_def SESSION_FAILURES_def)

lemma log_body_within: "within (\<lambda>s. J (snd s)) P (log_body body route)"
  unfolding log_body_def by (rule within_assign)

lemma connected_within:
  assumes "considerate_api api" "CONNECTION_NOT_FOUND \<in> S" "\<And>cn. coded_connector cn z \<Longrightarrow> within (disciplined S z) (codes S) (f cn)"
  shows "within (disciplined S z) (codes S) (bind (api_connector api name) f)"
  unfolding api_connector_def by (rule within_bind_hoare [OF connector_hoare [OF assms(1,2)] assms(3)])

lemma handle_within:
  assumes "considerate_api api" "raised_codes e \<subseteq> S"
  shows "pwithin (\<lambda>s. disciplined S z (snd s)) (codes S) (handle api e)"
proof (cases e)
  case (Create_connection item)
  then show ?thesis
    unfolding Create_connection handle.simps create_connection_def
    by (intro answered_within within_rules log_body_within prepare_within store_create_within) (use assms(2) Create_connection in simp_all)
next
  case (Replace_connection name item)
  then show ?thesis
    unfolding Replace_connection handle.simps replace_connection_def
    by (intro answered_within within_rules log_body_within prepare_within store_replace_within store_get_public_within) (use assms(2) Replace_connection in simp_all)
next
  case (Delete_connection name)
  then show ?thesis
    unfolding Delete_connection handle.simps by (intro answered_within within_rules store_delete_within) (use assms(2) Delete_connection in simp)
next
  case List_connections
  then show ?thesis
    unfolding List_connections handle.simps by (intro answered_within within_rules store_list_public_within)
next
  case (Get_connection name)
  then show ?thesis
    unfolding Get_connection handle.simps
    by (intro answered_within within_rules store_get_public_within) (use assms(2) Get_connection in simp)
next
  case (List_files name)
  then show ?thesis
    unfolding List_files handle.simps list_files_def
    by (intro answered_within within_rules connected_within assms(1) coded_connector.list_files)
      (use assms(2) List_files in \<open>auto simp: listing_errors_def session_codes LISTING_CODES_def\<close>)
next
  case (Healthcheck name)
  then show ?thesis
    unfolding Healthcheck handle.simps healthcheck_def
    by (intro answered_within within_rules connected_within assms(1) coded_connector.check_access)
      (use assms(2) Healthcheck in \<open>auto simp: listing_errors_def session_codes LISTING_CODES_def\<close>)
next
  case (Preview_file name f l)
  then show ?thesis
    unfolding Preview_file handle.simps preview_file_def
    by (intro answered_within within_rules connected_within assms(1) coded_connector.preview_within)
      (use assms(2) Preview_file in \<open>auto simp: session_codes OPEN_CODES_def READ_CODES_def PREVIEW_ERRORS_def
        OPEN_FAILURES_def LOOKUP_FAILURES_def\<close>)
next
  case (Transfer_file item)
  have "TRANSFER_CODES \<subseteq> S"
    using assms(2) unfolding Transfer_file
    by (auto simp: session_codes TRANSFER_CODES_def OPEN_CODES_def READ_CODES_def WRITE_CODES_def RECORD_CODES_def
      OPEN_FAILURES_def LOOKUP_FAILURES_def REPLACE_FAILURES_def WRITE_FAILURES_def)
  from pwithinD [OF service_within [OF assms(1) this, of z item]]
  have "pwithin (\<lambda>s. disciplined S z (snd s)) (codes S) (beside_state (service_run (api_service api) item))"
    unfolding pwithin_def beside_state_def by (auto split: prod.splits)
  then show ?thesis
    unfolding Transfer_file handle.simps transfer_file_def
    by (intro within_rules log_body_within)
next
  case (List_transfers status limit)
  then show ?thesis
    unfolding List_transfers handle.simps by (intro answered_within within_rules list_transfers_within)
next
  case (Get_transfer i)
  then show ?thesis
    unfolding Get_transfer handle.simps by (intro answered_within within_rules get_transfer_within) (use assms(2) Get_transfer in simp)
qed

end
