(* ===== verification/Web_Correct.thy ===== *)
theory Web_Correct
  imports Web
begin

text \<open>
  The HTTP boundary: which requests pass the guard, what of a request reaches the log, and that every
  request is answered and logged under one identifier, whatever the application does.
\<close>

section \<open>The guard\<close>

text \<open>
  The host that a header names: of \<open>[address]\<close> with anything after it the address, of
  \<open>name:port\<close> the name, and otherwise the whole text; case does not matter.
\<close>

definition names_host :: "pystr \<Rightarrow> pystr \<Rightarrow> bool" where
  "names_host value name \<longleftrightarrow>
     (\<exists>n rest. value = [91] @ n @ [93] @ rest \<and> 93 \<notin> set n \<and> name = lower n) \<or>
     (\<not> startswith value [91] \<and>
       ((\<exists>n port. value = n @ [58] @ port \<and> 58 \<notin> set n \<and> 58 \<notin> set port \<and> name = lower n) \<or>
        (\<not> (\<exists>n port. value = n @ [58] @ port \<and> 58 \<notin> set n \<and> 58 \<notin> set port) \<and> name = lower value)))"

lemma takeWhile_until: "x \<notin> set n \<Longrightarrow> takeWhile (\<lambda>c. c \<noteq> x) (n @ x # r) = n"
  by (induction n) auto

lemma dropWhile_until: "x \<notin> set n \<Longrightarrow> dropWhile (\<lambda>c. c \<noteq> x) (n @ x # r) = x # r"
  by (induction n) auto

lemma rpartition_last:
  "sep \<in> set s \<Longrightarrow> rpartition sep s = (n, True, port) \<longleftrightarrow> s = n @ [sep] @ port \<and> sep \<notin> set port"
proof -
  assume sep: "sep \<in> set s"
  let ?r = "rev s"
  have r: "?r = takeWhile (\<lambda>c. c \<noteq> sep) ?r @ dropWhile (\<lambda>c. c \<noteq> sep) ?r" by simp
  have "dropWhile (\<lambda>c. c \<noteq> sep) ?r \<noteq> []" using sep by (simp add: dropWhile_eq_Nil_conv)
  then obtain t where t: "dropWhile (\<lambda>c. c \<noteq> sep) ?r = sep # t"
    by (metis (mono_tags, lifting) hd_dropWhile list.collapse)
  show ?thesis
  proof
    assume "rpartition sep s = (n, True, port)"
    then have "n = rev t" "port = rev (takeWhile (\<lambda>c. c \<noteq> sep) ?r)"
      using sep t by (simp_all add: rpartition_def)
    moreover have "s = rev (dropWhile (\<lambda>c. c \<noteq> sep) ?r) @ rev (takeWhile (\<lambda>c. c \<noteq> sep) ?r)"
      by (metis r rev_append rev_rev_ident)
    ultimately show "s = n @ [sep] @ port \<and> sep \<notin> set port" using t by (auto dest: set_takeWhileD)
  next
    assume "s = n @ [sep] @ port \<and> sep \<notin> set port"
    then have s: "?r = rev port @ sep # rev n" "sep \<notin> set (rev port)" by auto
    then have "takeWhile (\<lambda>c. c \<noteq> sep) ?r = rev port" "dropWhile (\<lambda>c. c \<noteq> sep) ?r = sep # rev n"
      using takeWhile_until [OF s(2)] dropWhile_until [OF s(2)] unfolding s(1) by blast+
    with sep show "rpartition sep s = (n, True, port)" by (simp add: rpartition_def)
  qed
qed

lemma bracketed:
  "93 \<in> set s \<Longrightarrow> \<exists>rest. s = takeWhile (\<lambda>c. c \<noteq> 93) s @ [93] @ rest" for s :: pystr
proof -
  assume "93 \<in> set s"
  then obtain n rest where "s = n @ 93 # rest" "93 \<notin> set n" by (metis split_list_first)
  then have "takeWhile (\<lambda>c. c \<noteq> 93) s = n" by (simp add: takeWhile_until)
  with \<open>s = n @ 93 # rest\<close> show ?thesis by simp
qed

lemma header_host_names:
  assumes "name \<noteq> []"
  shows "header_host value = name \<longleftrightarrow> names_host value name"
proof (cases "startswith value [91]")
  case True
  then obtain s where v: "value = 91 # s" by (auto simp: startswith_iff)
  show ?thesis
  proof (cases "93 \<in> set s")
    case in_s: True
    from bracketed [OF this] obtain rest where s: "s = takeWhile (\<lambda>c. c \<noteq> 93) s @ [93] @ rest" ..
    have "takeWhile (\<lambda>c. c \<noteq> 93) s = n" if "s = n @ 93 # r" "93 \<notin> set n" for n r
      using that by (simp add: takeWhile_until)
    moreover have "93 \<notin> set (takeWhile (\<lambda>c. c \<noteq> 93) s)" by (auto dest: set_takeWhileD)
    ultimately show ?thesis
      using v in_s s by (auto simp: header_host_def names_host_def)
  next
    case False
    with v assms show ?thesis by (auto simp: header_host_def names_host_def)
  qed
next
  case no_bracket: False
  then have outer: "\<not> (\<exists>s. value = 91 # s)" by (auto simp: startswith_iff)
  show ?thesis
  proof (cases "58 \<in> set value")
    case True
    obtain n port where p: "rpartition 58 value = (n, True, port)" using True by (auto simp: rpartition_def)
    have parts: "value = n @ [58] @ port" "58 \<notin> set port" using rpartition_last [OF True, of n port] p by simp_all
    have only: "n' = n \<and> port' = port" if "value = n' @ [58] @ port'" "58 \<notin> set port'" for n' port'
      using rpartition_last [OF True, of n' port'] that p by simp
    have single: "(\<exists>n' port'. value = n' @ [58] @ port' \<and> 58 \<notin> set n' \<and> 58 \<notin> set port' \<and> name = lower n') \<longleftrightarrow>
        58 \<notin> set n \<and> name = lower n"
      using only parts by blast
    have none: "(\<exists>n' port'. value = n' @ [58] @ port' \<and> 58 \<notin> set n' \<and> 58 \<notin> set port') \<longleftrightarrow> 58 \<notin> set n"
      using only parts by blast
    have "header_host value = (if 58 \<in> set n then lower value else lower n)"
      using p no_bracket by (simp add: header_host_def)
    moreover have "names_host value name \<longleftrightarrow> 58 \<notin> set n \<and> name = lower n \<or> 58 \<in> set n \<and> name = lower value"
      unfolding names_host_def single none using no_bracket outer by auto
    ultimately show ?thesis by auto
  next
    case False
    then have "header_host value = lower value"
      using no_bracket by (simp add: header_host_def rpartition_def)
    moreover have "\<not> (\<exists>n port. value = n @ [58] @ port)" using False by auto
    ultimately show ?thesis using no_bracket outer by (auto simp: names_host_def)
  qed
qed

lemma names_host_Nil: "names_host [] name \<Longrightarrow> name = []"
  by (auto simp: names_host_def)

definition own_origin :: "http_scope \<Rightarrow> pystr \<Rightarrow> pystr" where
  "own_origin scope host = lower (hs_scheme scope @ lit ''://'' @ host)"

text \<open>
  C35. The guard lets a request through exactly if its Host header names an allowed host, and it does not
  change state, or it is not marked as cross-site and names no origin but its own.
\<close>

theorem guard_admits:
  assumes "[] \<notin> allowed"
  shows "rejection allowed scope = None \<longleftrightarrow>
    (\<exists>host. header ''host'' scope = Some host \<and> (\<exists>name\<in>allowed. names_host host name) \<and>
      (hs_method scope \<in> set STATE_CHANGING_METHODS \<longrightarrow>
        header ''sec-fetch-site'' scope \<noteq> Some (lit ''cross-site'') \<and>
        (\<forall>o'. header ''origin'' scope = Some o' \<longrightarrow> lower o' = own_origin scope host)))"
proof -
  have "header_host [] = []" by (simp add: header_host_def rpartition_def)
  moreover have "header_host host \<in> allowed \<longleftrightarrow> (\<exists>name\<in>allowed. names_host host name)" for host
    using assms header_host_names by (metis (no_types))
  ultimately show ?thesis
    using assms
    by (auto simp: rejection_def Let_def own_origin_def split: option.splits dest: names_host_Nil)
qed

theorem guard_admits_witness:
  "rejection {lit ''localhost''}
     \<lparr>hs_type = lit ''http'', hs_method = lit ''POST'', hs_scheme = lit ''http'', hs_path = lit ''/transfers'',
      hs_query = [], hs_headers = [(lit ''host'', lit ''LocalHost:80''), (lit ''origin'', lit ''http://localhost:80'')]\<rparr> = None"
proof -
  have "names_host (lit ''LocalHost:80'') (lit ''localhost'')"
    unfolding names_host_def
    by (intro disjI2 conjI disjI1 exI [of _ "lit ''LocalHost''"] exI [of _ "lit ''80''"]) (simp_all add: startswith_iff text_eval)
  then show ?thesis
    by (subst guard_admits) (auto simp: header_def own_origin_def text_eval)
qed

section \<open>Fields\<close>

text \<open>
  C36. What the log keeps of a body does not depend on its password: two bodies that agree on every other
  field have the same entry. And its names are those of the known fields.
\<close>

theorem log_hides_password:
  assumes "\<And>key. key \<noteq> lit ''password'' \<Longrightarrow> map_of body key = map_of body' key"
  shows "body_log_fields (JObj body) route = body_log_fields (JObj body') route \<and>
    set (map fst (body_log_fields (JObj body) route)) \<subseteq>
      set (map lit [''name'', ''type'', ''path'', ''host'', ''port'', ''username'', ''root'',
        ''source'', ''source_file'', ''destination'', ''destination_file'', ''overwrite''])"
proof -
  have same: "log_fields body keys = log_fields body' keys" if "lit ''password'' \<notin> set keys" for keys
    using that assms by (induction keys) (auto simp: log_fields_def List.map_filter_simps split: option.split)
  have keys: "set (map fst (log_fields body keys)) \<subseteq> set keys" for keys
    by (auto simp: log_fields_def List.map_filter_def split: option.splits)
  have kind: "map_of body (lit ''type'') = map_of body' (lit ''type'')" by (rule assms) simp
  note lists = keys [of "[lit ''name'', lit ''type'', lit ''path'']"]
    keys [of "[lit ''name'', lit ''type'', lit ''host'', lit ''port'', lit ''username'', lit ''root'']"]
    keys [of "[lit ''name'', lit ''type'']"]
    keys [of "[lit ''source'', lit ''source_file'', lit ''destination'', lit ''destination_file'', lit ''overwrite'']"]
  show ?thesis
    using lists by (auto simp: body_log_fields_def Let_def kind same)
qed

theorem log_hides_password_witness:
  "body_log_fields (JObj [(lit ''name'', JStr [97]), (lit ''type'', JStr (lit ''sftp'')), (lit ''password'', JStr [98])])
     (lit ''/connections'') =
   body_log_fields (JObj [(lit ''name'', JStr [97]), (lit ''type'', JStr (lit ''sftp'')), (lit ''password'', JStr [99])])
     (lit ''/connections'')"
  by (rule conjunct1 [OF log_hides_password]) simp

section \<open>Every request is answered and logged\<close>

text \<open>
  Applications that leave the part \<open>v\<close> of the state alone and send the start of a response before
  they end without an exception; \<open>b\<close> tells whether it was sent.
\<close>

definition is_start :: "message \<Rightarrow> bool" where
  "is_start m \<longleftrightarrow> (case m of Response_start _ _ \<Rightarrow> True | Response_body _ \<Rightarrow> False)"

lemma is_start_simps [simp]: "is_start (Response_start n hs)" "\<not> is_start (Response_body b)"
  by (simp_all add: is_start_def)

inductive answering :: "('s \<Rightarrow> 'v) \<Rightarrow> bool \<Rightarrow> 's asgi \<Rightarrow> bool" for v where
  finish: "answering v True Finish"
| crash: "answering v b (Crash e)"
| emit: "(\<And>x. answering v (b \<or> is_start m) (k x)) \<Longrightarrow> answering v b (Emit m k)"
| compute: "(\<And>s p s'. f s = Some (p, s') \<Longrightarrow> answering v b p \<and> v s' = v s) \<Longrightarrow> answering v b (Compute f)"

inductive_simps answering_simps [simp]:
  "answering v b Finish" "answering v b (Crash e)" "answering v b (Emit m k)" "answering v b (Compute f)"

text \<open>The status that the middleware has seen, of the messages that were sent.\<close>

definition seen_status :: "message list \<Rightarrow> nat option" where
  "seen_status out =
     (if filter is_start out = [] then None else Some (ms_status (last (filter is_start out))))"

lemma seen_status_simps [simp]:
  "seen_status [] = None" "seen_status (out @ [Response_start n hs]) = Some n"
  "seen_status (out @ [Response_body b]) = seen_status out"
  "seen_status out = None \<longleftrightarrow> (\<forall>m\<in>set out. \<not> is_start m)"
  by (auto simp: seen_status_def filter_empty_conv)

lemma seen_status_pair [simp]: "seen_status (out @ [Response_start n hs, Response_body b]) = Some n"
  using seen_status_simps(3) [of "out @ [Response_start n hs]"] by simp

definition carries :: "pystr \<Rightarrow> message list \<Rightarrow> bool" where
  "carries request_id out \<longleftrightarrow>
     (\<forall>m\<in>set out. is_start m \<longrightarrow> (REQUEST_ID_HEADER, request_id) \<in> set (ms_headers m))"

lemma carries_simps [simp]:
  "carries i []" "carries i (out @ [Response_body b]) = carries i out"
  "carries i (out @ [Response_start n hs]) \<longleftrightarrow> carries i out \<and> (REQUEST_ID_HEADER, i) \<in> set hs"
  by (auto simp: carries_def)

text \<open>The event of a request in the log.\<close>

definition event_of :: "pystr \<Rightarrow> nat \<Rightarrow> (pystr \<times> json) list \<Rightarrow> bool" where
  "event_of request_id status event \<longleftrightarrow>
     map_of event (lit ''request_id'') = Some (JStr request_id) \<and>
     map_of event (lit ''status_code'') = Some (JInt (int status))"

lemma event_of_log_event: "event_of i n (log_event scope state i n t d)"
  by (simp add: event_of_def log_event_def)

text \<open>
  What the middleware needs of the server and of the log: a message that is sent is seen by the
  client, and an event that is written is in the log; each leaves the other alone. \<open>sent\<close> and
  \<open>logged\<close> are parts of the world that the rest of the program does not have.
\<close>

locale http_boundary =
  fixes web :: "'w service_world_scheme web"
    and sent :: "'w \<Rightarrow> message list"
    and logged :: "'w \<Rightarrow> (pystr \<times> json) list list"
  assumes send: "web_send web m w = (r, w') \<Longrightarrow>
      r = Inr () \<and> sent (service_world.more w') = sent (service_world.more w) @ [m] \<and>
      logged (service_world.more w') = logged (service_world.more w)"
    and log: "web_log web event w = (r, w') \<Longrightarrow>
      sent (service_world.more w') = sent (service_world.more w) \<and>
      logged (service_world.more w') = logged (service_world.more w) @ (if r = Inr () then [event] else [])"
begin

definition traces :: "'w service_world_scheme \<Rightarrow> message list \<times> (pystr \<times> json) list list" where
  "traces w = (sent (service_world.more w), logged (service_world.more w))"

lemma traces_base [simp]:
  "traces (w\<lparr>uuids := us\<rparr>) = traces w" "traces (w\<lparr>log := es\<rparr>) = traces w"
  "traces (w\<lparr>db_clock := ts\<rparr>) = traces w" "traces (w\<lparr>sw_clock := cs\<rparr>) = traces w"
  by (simp_all add: traces_def)

lemma traces_steps:
  "uuid4 w = (r1, w1) \<Longrightarrow> traces w1 = traces w" "warning e w = (r2, w2) \<Longrightarrow> traces w2 = traces w"
  "now w = (r3, w3) \<Longrightarrow> traces w3 = traces w" "monotonic w = (r4, w4) \<Longrightarrow> traces w4 = traces w"
  by (auto simp: uuid4_def warning_def now_def monotonic_def split: list.splits)

text \<open>Since the entry of a request: the messages, and the status that the middleware knows.\<close>

definition so_far :: "pystr \<Rightarrow> message list \<times> (pystr \<times> json) list list \<Rightarrow> message list \<Rightarrow>
    (web_state \<times> 'w service_world_scheme) guarded \<Rightarrow> bool" where
  "so_far i t out x \<longleftrightarrow>
     traces (snd (snd x)) = (fst t @ out, snd t) \<and> fst x = seen_status out \<and> carries i out"

lemma send_so_far:
  assumes "send_with_request_id web i m x = (r, x')" "so_far i t out x"
  shows "r = Inr () \<and> (\<exists>m'. so_far i t (out @ [m']) x' \<and> is_start m' = is_start m)"
proof (cases m)
  case (Response_start n hs)
  obtain st ws w where x: "x = (st, (ws, w))" by (rule prod_cases3)
  obtain y w1 where y: "web_send web (Response_start n (hs @ [(REQUEST_ID_HEADER, i)])) w = (y, w1)" by (rule prod.exhaust)
  from assms Response_start x y send [OF y] show ?thesis
    by (intro conjI exI [of _ "Response_start n (hs @ [(REQUEST_ID_HEADER, i)])"])
      (auto simp: send_with_request_id_def bind_apply on_world_apply so_far_def traces_def)
next
  case (Response_body b)
  obtain st ws w where x: "x = (st, (ws, w))" by (rule prod_cases3)
  obtain y w1 where y: "web_send web m w = (y, w1)" by (rule prod.exhaust)
  from assms Response_body x y send [OF y] show ?thesis
    by (intro conjI exI [of _ m]) (auto simp: send_with_request_id_def on_world_apply so_far_def traces_def)
qed

lemma run_so_far:
  "answering (\<lambda>s. traces (snd s)) b p \<Longrightarrow>
   run_asgi (send_with_request_id web i) p x = Some (r, x') \<Longrightarrow> so_far i t out x \<Longrightarrow>
   (b \<longrightarrow> seen_status out \<noteq> None) \<Longrightarrow>
   \<exists>out'. so_far i t out' x' \<and> (r = Inr () \<longrightarrow> seen_status out' \<noteq> None)"
proof (induction arbitrary: x out rule: answering.induct)
  case finish
  then show ?case by (auto simp: total_def)
next
  case (crash b e)
  then show ?case by (auto simp: total_def)
next
  case (emit b m k)
  obtain y x1 where y: "send_with_request_id web i m x = (y, x1)" by (rule prod.exhaust)
  from send_so_far [OF y emit.prems(2)] obtain m' where
    m: "y = Inr ()" "so_far i t (out @ [m']) x1" "is_start m' = is_start m" by blast
  from emit.prems(1) y m(1) have "run_asgi (send_with_request_id web i) (k None) x1 = Some (r, x')" by simp
  moreover have "b \<or> is_start m \<longrightarrow> seen_status (out @ [m']) \<noteq> None" using emit.prems(3) m(3) by auto
  ultimately show ?case using emit.IH m(2) by blast
next
  case (compute f b)
  obtain st s where x: "x = (st, s)" by (rule prod.exhaust)
  from compute.prems(1) x obtain p s' where p: "f s = Some (p, s')"
    "run_asgi (send_with_request_id web i) p (st, s') = Some (r, x')"
    by (auto split: option.splits)
  from compute.IH [OF p(1)] have "traces (snd s') = traces (snd s)" by blast
  with compute.prems(2) x have "so_far i t out (st, s')" by (simp add: so_far_def)
  with compute.IH [OF p(1)] p(2) compute.prems(3) show ?case by blast
qed

lemma set_state_so_far: "set_state f x = (r, x') \<Longrightarrow> so_far i t out x \<Longrightarrow> r = Inr () \<and> so_far i t out x'"
  by (cases x) (auto simp: set_state_def on_world_apply so_far_def assign_def split: prod.splits)

text \<open>A response of the middleware itself.\<close>

lemma respond_so_far:
  assumes "respond (send_with_request_id web i) resp x = (r, x')" "so_far i t out x"
  shows "r = Inr () \<and> so_far i t
    (out @ [Response_start (rs_status resp) (rs_headers resp @ [(REQUEST_ID_HEADER, i)]), Response_body (rs_body resp)]) x'"
proof -
  obtain st ws w where x: "x = (st, (ws, w))" by (rule prod_cases3)
  obtain y1 w1 where y1: "web_send web (Response_start (rs_status resp) (rs_headers resp @ [(REQUEST_ID_HEADER, i)])) w = (y1, w1)"
    by (rule prod.exhaust)
  obtain y2 w2 where y2: "web_send web (Response_body (rs_body resp)) w1 = (y2, w2)" by (rule prod.exhaust)
  have "carries i (out @ [Response_start n hs, Response_body b]) \<longleftrightarrow> carries i out \<and> (REQUEST_ID_HEADER, i) \<in> set hs" for n hs b
    using carries_simps(2) [of i "out @ [Response_start n hs]"] by simp
  then show ?thesis
    using assms x y1 y2 send [OF y1] send [OF y2]
    by (auto simp: respond_def send_with_request_id_def bind_apply on_world_apply so_far_def traces_def)
qed

lemma crash_so_far:
  assumes "handle_crash web i e x = (r, x')" "so_far i t out x"
  shows "\<exists>out'. so_far i t out' x' \<and> seen_status out' \<noteq> None \<and>
    (seen_status out = None \<longrightarrow> r = Inr () \<and> seen_status out' = Some 500) \<and> (seen_status out \<noteq> None \<longrightarrow> r = Inl e)"
proof -
  obtain st ws w where x: "x = (st, (ws, w))" by (rule prod_cases3)
  obtain y w1 where y: "warning ''unhandled_exception'' w = (y, w1)" by (rule prod.exhaust)
  have y_ok: "y = Inr ()" using y by (auto simp: warning_def)
  let ?ws = "ws\<lparr>ws_error_type := Some (type_name e)\<rparr>"
  let ?ws' = "?ws\<lparr>ws_error_code := Some INTERNAL_ERROR\<rparr>"
  have now_at: "so_far i t out (st, (z, w1))" for z
    using assms(2) x traces_steps(2) [OF y] by (simp add: so_far_def)
  show ?thesis
  proof (cases st)
    case None
    let ?resp = "error_response INTERNAL_ERROR
             (lit ''Unexpected server error; the service log has details for request '' @ i) None None []"
    have "respond (send_with_request_id web i) ?resp (st, (?ws', w1)) = (r, x')"
      using assms(1) x y y_ok None by (simp add: handle_crash_def set_state_def bind_apply on_world_apply)
    from respond_so_far [OF this now_at] None assms(2) x show ?thesis
      by (auto simp: so_far_def error_response_def)
  next
    case (Some n)
    with assms x y y_ok now_at have "r = Inl e \<and> so_far i t out x' \<and> seen_status out = Some n"
      by (auto simp: handle_crash_def set_state_def bind_apply on_world_apply so_far_def)
    then show ?thesis by (intro exI [of _ out]) simp
  qed
qed

lemma log_so_far:
  assumes "log_call web scope i started x = (r, x')" "so_far i t out x"
  shows "fst (traces (snd (snd x'))) = fst t @ out \<and> fst x' = fst x \<and>
    (\<exists>events. snd (traces (snd (snd x'))) = snd t @ events \<and> length events \<le> 1 \<and>
       (\<forall>event\<in>set events. event_of i (shown_status (fst x)) event) \<and> (\<forall>e. r = Inl e \<longrightarrow> events = []))"
proof -
  obtain st ws w where x: "x = (st, (ws, w))" by (rule prod_cases3)
  obtain a w1 where a: "now w = (a, w1)" by (rule prod.exhaust)
  obtain stamp where stamp: "a = Inr stamp" using a by (auto simp: now_def split: list.splits)
  obtain b w2 where b: "monotonic w1 = (b, w2)" by (rule prod.exhaust)
  obtain m where m: "b = Inr m" using b by (auto simp: monotonic_def split: list.splits)
  let ?event = "log_event scope ws i (shown_status st) stamp (web_elapsed web started m)"
  obtain c w3 where c: "web_log web ?event w2 = (c, w3)" by (rule prod.exhaust)
  note l = log [OF c]
  have before: "traces w2 = (fst t @ out, snd t)"
    using assms(2) x traces_steps(3) [OF a] traces_steps(4) [OF b] by (simp add: so_far_def)
  let ?after = "(if c = Inr () then [?event] else [])"
  have after: "traces w3 = (fst t @ out, snd t @ ?after)" using l before by (simp add: traces_def)
  have x': "fst x' = st \<and> traces (snd (snd x')) = traces w3 \<and> (c = Inr () \<longrightarrow> r = Inr ())"
    using assms(1) x a stamp b m c
    by (cases c)
      (auto simp: log_call_def log_request_def bind_apply on_world_apply try_except_apply warning_def split: exn.splits)
  show ?thesis
  proof (intro conjI exI [of _ ?after])
    show "fst (traces (snd (snd x'))) = fst t @ out" "fst x' = fst x"
      "snd (traces (snd (snd x'))) = snd t @ ?after" using x' after x by simp_all
    show "length ?after \<le> 1" by simp
    show "\<forall>event\<in>set ?after. event_of i (shown_status (fst x)) event" using x by (simp add: event_of_log_event)
    show "\<forall>e. r = Inl e \<longrightarrow> ?after = []" using x' by auto
  qed
qed

lemma call_so_far:
  assumes "web_call web app scope (None, (ws, w)) = Some (r, x')" "hs_type scope = lit ''http''"
    and "answering (\<lambda>s. traces (snd s)) False (app scope)"
  shows "\<exists>i out events. traces (snd (snd x')) = (sent (service_world.more w) @ out, logged (service_world.more w) @ events) \<and>
    seen_status out \<noteq> None \<and> fst x' = seen_status out \<and> carries i out \<and> length events \<le> 1 \<and>
    (\<forall>event\<in>set events. event_of i (shown_status (seen_status out)) event) \<and>
    (\<forall>code message. rejection (web_allowed web) scope = Some (code, message) \<longrightarrow>
       out = [Response_start (http_status code) [(REQUEST_ID_HEADER, i)],
              Response_body (Some (error_body code message None None))])"
proof -
  obtain a w1 where a: "monotonic w = (a, w1)" by (rule prod.exhaust)
  obtain started where started: "a = Inr started" using a by (auto simp: monotonic_def split: list.splits)
  obtain b w2 where b: "uuid4 w1 = (b, w2)" by (rule prod.exhaust)
  obtain i where i: "b = Inr i" using b by (auto simp: uuid4_def split: list.splits)
  let ?t = "traces w"
  have entry: "so_far i ?t [] (None, (ws, w2))"
    using traces_steps(4) [OF a] traces_steps(1) [OF b] by (simp add: so_far_def)
  from assms(1,2) a started b i obtain g x1 where
    g: "guard_app web app scope i (None, (ws, w2)) = Some (g, x1)"
    by (auto simp: web_call_def pbind_def total_def on_world_apply ptry_finally_def ptry_except_def split: option.splits prod.splits)
  let ?rejected = "\<lambda>out. \<forall>code message. rejection (web_allowed web) scope = Some (code, message) \<longrightarrow>
       out = [Response_start (http_status code) [(REQUEST_ID_HEADER, i)],
              Response_body (Some (error_body code message None None))]"
  have guarded: "\<exists>out. so_far i ?t out x1 \<and> (g = Inr () \<longrightarrow> seen_status out \<noteq> None \<and> ?rejected out) \<and>
      (g \<noteq> Inr () \<longrightarrow> rejection (web_allowed web) scope = None)"
  proof (cases "rejection (web_allowed web) scope")
    case None
    with g have "run_asgi (send_with_request_id web i) (app scope) (None, (ws, w2)) = Some (g, x1)"
      by (simp add: guard_app_def)
    from run_so_far [OF assms(3) this entry] None show ?thesis by auto
  next
    case (Some p)
    obtain code message where p: "p = (code, message)" by (rule prod.exhaust)
    let ?resp = "error_response code message None None []"
    let ?ws = "ws\<lparr>ws_error_code := Some code\<rparr>"
    have "respond (send_with_request_id web i) ?resp (None, (?ws, w2)) = (g, x1)"
      using g Some p by (simp add: guard_app_def total_def set_state_def bind_apply on_world_apply)
    moreover have "so_far i ?t [] (None, (?ws, w2))" using entry by (simp add: so_far_def)
    ultimately have "g = Inr () \<and> so_far i ?t
        ([] @ [Response_start (rs_status ?resp) (rs_headers ?resp @ [(REQUEST_ID_HEADER, i)]), Response_body (rs_body ?resp)]) x1"
      by (rule respond_so_far)
    with Some p show ?thesis by (auto simp: error_response_def seen_status_def)
  qed
  then obtain out where out: "so_far i ?t out x1" "g = Inr () \<longrightarrow> seen_status out \<noteq> None \<and> ?rejected out"
    "g \<noteq> Inr () \<longrightarrow> rejection (web_allowed web) scope = None" by blast
  obtain h x2 where h: "(case g of Inl e \<Rightarrow> handle_crash web i e x1 | Inr _ \<Rightarrow> (Inr (), x1)) = (h, x2)" by (rule prod.exhaust)
  have answered: "\<exists>out'. so_far i ?t out' x2 \<and> seen_status out' \<noteq> None \<and> ?rejected out'"
  proof (cases g)
    case (Inl e)
    with h crash_so_far [OF _ out(1), of e h x2] out(3) show ?thesis by auto
  next
    case (Inr u)
    with h out show ?thesis by auto
  qed
  then obtain out' where out': "so_far i ?t out' x2" "seen_status out' \<noteq> None" "?rejected out'" by blast
  obtain l x3 where l: "log_call web scope i started x2 = (l, x3)" by (rule prod.exhaust)
  have "x' = x3"
    using assms(1,2) a started b i g h l
    by (cases g; cases l) (auto simp: web_call_def pbind_def total_def on_world_apply ptry_finally_def ptry_except_def)
  with log_so_far [OF l out'(1)] out' show ?thesis
    by (intro exI [of _ i] exI [of _ out']) (auto simp: so_far_def traces_def)
qed

end

end
