(* ===== verification/Request_Log_Correct.thy ===== *)
theory Request_Log_Correct
  imports Request_Log Transfer_Correct
begin

text \<open>
  The request log against its specification: a list of generations, the newest first, of which the
  oldest is dropped. And what a failed rotation leaves.
\<close>

section \<open>The specification\<close>

fun log_spec :: "nat \<Rightarrow> nat \<Rightarrow> pystr \<Rightarrow> pystr list \<Rightarrow> pystr list" where
  "log_spec m b line (current # older) =
     (if current \<noteq> [] \<and> m < length current + length line then line # take b (current # older)
      else (current @ line) # older)"
| "log_spec m b line [] = [line]"

text \<open>The generations that the files hold, when these are numbered without a gap.\<close>

definition generations :: "'w log_world_scheme \<Rightarrow> pystr list" where
  "generations w = map (\<lambda>n. lf_text (the (lg_files w n))) [0..<card (dom (lg_files w))]"

definition numbered :: "nat \<Rightarrow> (nat \<rightharpoonup> log_file) \<Rightarrow> bool" where
  "numbered k fm \<longleftrightarrow> dom fm = {..<k} \<and> (\<forall>n f. fm n = Some f \<longrightarrow> lf_mode f = 384)"

definition log_ready :: "request_log \<Rightarrow> 'w log_world_scheme \<Rightarrow> bool" where
  "log_ready l w \<longleftrightarrow>
     rl_stream l = Open_stream [] \<and> lg_faults w = [] \<and>
     (\<exists>k. 0 < k \<and> k \<le> Suc (rl_backups l) \<and> numbered k (lg_files w)) \<and>
     rl_size l = length (hd (generations w))"

lemma generations_numbered: "numbered k (lg_files w) \<Longrightarrow> generations w = map (\<lambda>n. lf_text (the (lg_files w n))) [0..<k]"
  by (simp add: generations_def numbered_def)

lemma numbered_None: "numbered k fm \<Longrightarrow> fm n = None \<longleftrightarrow> k \<le> n"
  by (metis domIff lessThan_iff not_le numbered_def)

section \<open>Rotation\<close>

text \<open>Without faults, the shift moves every file up by one and drops the last.\<close>

definition shifted :: "nat \<Rightarrow> (nat \<rightharpoonup> log_file) \<Rightarrow> nat \<rightharpoonup> log_file" where
  "shifted b fm = (\<lambda>n. if n = 0 then (if b = 0 then fm 0 else None) else if n \<le> b then fm (n - 1) else fm n)"

lemma shift_backups_shifted:
  assumes "lg_faults w = []" "\<And>n. n < b \<Longrightarrow> lg_files w n = None \<Longrightarrow> lg_files w (Suc n) = None"
  shows "shift_backups b w = (Inr (), w\<lparr>lg_files := shifted b (lg_files w)\<rparr>)"
  using assms
proof (induction b arbitrary: w)
  case 0
  have "shifted 0 (lg_files w) = lg_files w" by (auto simp: shifted_def fun_eq_iff)
  then show ?case by simp
next
  case (Suc b)
  show ?case
  proof (cases "lg_files w b")
    case None
    then have "shift_backups (Suc b) w = shift_backups b w"
      using Suc.prems(1)
      by (simp add: bind_apply log_exists_def try_except_apply log_syscall_def only_if_apply domIff)
    moreover have "shifted b (lg_files w) = shifted (Suc b) (lg_files w)"
      using None Suc.prems(2) [of b] by (auto simp: shifted_def fun_eq_iff le_Suc_eq)
    moreover have "shift_backups b w = (Inr (), w\<lparr>lg_files := shifted b (lg_files w)\<rparr>)"
      using Suc.prems by (intro Suc.IH) auto
    ultimately show ?thesis by simp
  next
    case (Some f)
    let ?w = "w\<lparr>lg_files := (lg_files w)(b := None, Suc b \<mapsto> f)\<rparr>"
    have "shift_backups (Suc b) w = shift_backups b ?w"
      using Suc.prems(1) Some
      by (simp add: bind_apply log_exists_def try_except_apply log_syscall_def log_replace_def only_if_apply domIff)
    moreover have "shift_backups b ?w = (Inr (), ?w\<lparr>lg_files := shifted b (lg_files ?w)\<rparr>)"
      using Suc.prems by (intro Suc.IH) auto
    moreover have "shifted b ((lg_files w)(b := None, Suc b \<mapsto> f)) = shifted (Suc b) (lg_files w)"
      using Some by (auto simp: shifted_def fun_eq_iff le_Suc_eq)
    ultimately show ?thesis by simp
  qed
qed

text \<open>The files after a rotation, before the first line.\<close>

definition rotated :: "nat \<Rightarrow> (nat \<rightharpoonup> log_file) \<Rightarrow> nat \<rightharpoonup> log_file" where
  "rotated b fm = (shifted b fm)(0 \<mapsto> \<lparr>lf_text = [], lf_mode = 384\<rparr>)"

lemma rotated_numbered:
  assumes "numbered k fm" "0 < k" "k \<le> Suc b"
  shows "numbered (Suc (min k b)) (rotated b fm)"
proof -
  have dom: "fm n \<noteq> None \<longleftrightarrow> n < k" for n
    using assms(1) by (auto simp: numbered_def)
  have "rotated b fm n \<noteq> None \<longleftrightarrow> n < Suc (min k b)" for n
    using dom [of n] dom [of "n - 1"] assms(2,3) by (auto simp: rotated_def shifted_def)
  then have "dom (rotated b fm) = {..<Suc (min k b)}" by (auto simp: domIff)
  moreover have "lf_mode f = 384" if "rotated b fm n = Some f" for n f
    using that assms(1) by (auto simp: rotated_def shifted_def numbered_def split: if_splits)
  ultimately show ?thesis by (simp add: numbered_def)
qed

lemma log_open_new: "lg_files w 0 = None \<Longrightarrow> lg_faults w = [] \<Longrightarrow>
  RequestLog_open (l, w) =
    (Inr (), (l\<lparr>rl_size := 0, rl_stream := Open_stream []\<rparr>,
      w\<lparr>lg_files := (lg_files w)(0 \<mapsto> \<lparr>lf_text = [], lf_mode = 384\<rparr>)\<rparr>))"
  by (simp add: RequestLog_open_def bind_apply on_world_apply log_open_def log_chmod_def log_size_def log_syscall_def)

lemma RequestLog_rotate_ready:
  assumes "rl_stream l = Open_stream []" "lg_faults w = []" "numbered k (lg_files w)" "0 < k"
  shows "RequestLog_rotate (l, w) =
    (Inr (), (l\<lparr>rl_stream := Open_stream [], rl_size := 0\<rparr>, w\<lparr>lg_files := rotated (rl_backups l) (lg_files w)\<rparr>))"
proof -
  let ?l = "l\<lparr>rl_stream := No_stream\<rparr>" and ?b = "rl_backups l"
  have close: "RequestLog_close (l, w) = (Inr (), (?l, w))"
    using assms(1,2)
    by (simp add: RequestLog_close_def stream_close_def bind_apply log_append_def on_world_apply log_syscall_def)
  have gaps: "lg_files w n = None \<Longrightarrow> lg_files w (Suc n) = None" for n
    using assms(3) by (simp add: numbered_None)
  show ?thesis
  proof (cases "?b = 0")
    case True
    let ?w = "w\<lparr>lg_files := (lg_files w)(0 := None)\<rparr>"
    have "RequestLog_rotate (l, w) = RequestLog_open (?l, ?w)"
      using True assms(2)
      by (simp add: RequestLog_rotate_def bind_apply close only_if_apply on_world_apply log_unlink_def
          try_except_apply log_syscall_def)
    also have "\<dots> = (Inr (), (?l\<lparr>rl_size := 0, rl_stream := Open_stream []\<rparr>,
        ?w\<lparr>lg_files := (lg_files ?w)(0 \<mapsto> \<lparr>lf_text = [], lf_mode = 384\<rparr>)\<rparr>))"
      using assms(2) by (intro log_open_new) simp_all
    moreover have "shifted 0 (lg_files w) = lg_files w" by (auto simp: shifted_def fun_eq_iff)
    ultimately show ?thesis using True by (simp add: rotated_def)
  next
    case False
    let ?w = "w\<lparr>lg_files := shifted ?b (lg_files w)\<rparr>"
    have "RequestLog_rotate (l, w) = RequestLog_open (?l, ?w)"
      using False shift_backups_shifted [OF assms(2) gaps]
      by (simp add: RequestLog_rotate_def bind_apply close only_if_apply on_world_apply)
    also have "\<dots> = (Inr (), (?l\<lparr>rl_size := 0, rl_stream := Open_stream []\<rparr>,
        ?w\<lparr>lg_files := (lg_files ?w)(0 \<mapsto> \<lparr>lf_text = [], lf_mode = 384\<rparr>)\<rparr>))"
      using assms(2) False by (intro log_open_new) (simp_all add: shifted_def)
    finally show ?thesis by (simp add: rotated_def)
  qed
qed

lemma generations_rotated:
  assumes "numbered k (lg_files w)" "0 < k" "k \<le> Suc b"
  shows "map (\<lambda>n. lf_text (the (rotated b (lg_files w) n))) [0..<Suc (min k b)] = [] # take b (generations w)"
proof (rule nth_equalityI)
  show "length (map (\<lambda>n. lf_text (the (rotated b (lg_files w) n))) [0..<Suc (min k b)]) =
      length ([] # take b (generations w))"
    using assms by (simp add: generations_numbered [OF assms(1)])
  fix i assume "i < length (map (\<lambda>n. lf_text (the (rotated b (lg_files w) n))) [0..<Suc (min k b)])"
  then show "map (\<lambda>n. lf_text (the (rotated b (lg_files w) n))) [0..<Suc (min k b)] ! i = ([] # take b (generations w)) ! i"
    using assms
    by (cases i) (auto simp: generations_numbered [OF assms(1)] rotated_def shifted_def nth_append simp del: upt_Suc)
qed

section \<open>Writing\<close>

lemma append_numbered:
  assumes "numbered k (lg_files w)" "0 < k"
  shows "numbered k (lg_files (append_text t w)) \<and>
    generations (append_text t w) = (hd (generations w) @ t) # tl (generations w)"
proof -
  obtain f where f: "lg_files w 0 = Some f" using numbered_None [OF assms(1), of 0] assms(2) by auto
  have files: "lg_files (append_text t w) = (lg_files w)(0 \<mapsto> f\<lparr>lf_text := lf_text f @ t\<rparr>)"
    using f by (cases f) (simp add: append_text_def)
  have new: "numbered k (lg_files (append_text t w))"
    using assms f unfolding files by (auto simp: numbered_def)
  obtain j where "k = Suc j" using assms(2) by (cases k) auto
  then have "generations (append_text t w) = (lf_text f @ t) # map (\<lambda>n. lf_text (the (lg_files w n))) [1..<k]"
    "generations w = lf_text f # map (\<lambda>n. lf_text (the (lg_files w n))) [1..<k]"
    using f by (simp_all add: generations_numbered [OF new] generations_numbered [OF assms(1)] files upt_conv_Cons
        del: upt_Suc)
  with new show ?thesis by simp
qed

lemma stream_write_ready:
  assumes "rl_stream l = Open_stream []" "lg_faults w = []" "line \<noteq> []"
  shows "stream_write line (l, w) = (Inr (), (l, append_text line w))"
  using assms by (simp add: stream_write_def log_append_def)

text \<open>The write of one event does on the files what the specification does on the generations.\<close>

lemma log_write_step:
  assumes "log_ready l w"
  obtains l' w' where "RequestLog_write event (l, w) = (Inr (), (l', w'))" "log_ready l' w'"
    "rl_max_bytes l' = rl_max_bytes l" "rl_backups l' = rl_backups l"
    "generations w' = log_spec (rl_max_bytes l) (rl_backups l) (log_line event) (generations w)"
proof -
  let ?line = "log_line event" and ?b = "rl_backups l" and ?m = "rl_max_bytes l"
  from assms obtain k where open_: "rl_stream l = Open_stream []" "lg_faults w = []" and
    k: "0 < k" "k \<le> Suc ?b" "numbered k (lg_files w)" and n: "rl_size l = length (hd (generations w))"
    by (auto simp: log_ready_def)
  obtain current older where g: "generations w = current # older"
    using k(1) by (cases "generations w") (auto simp: generations_numbered [OF k(3)])
  show ?thesis
  proof (cases "rl_size l \<noteq> 0 \<and> ?m < rl_size l + length ?line")
    case True
    let ?w = "w\<lparr>lg_files := rotated ?b (lg_files w)\<rparr>" and ?l = "l\<lparr>rl_stream := Open_stream [], rl_size := 0\<rparr>"
    note new = rotated_numbered [OF k(3,1,2)]
    have gen: "generations ?w = [] # take ?b (generations w)"
      using generations_rotated [OF k(3,1,2)] new by (simp add: generations_numbered del: upt_Suc)
    have "numbered (Suc (min k ?b)) (lg_files (append_text ?line ?w)) \<and>
        generations (append_text ?line ?w) = ?line # take ?b (generations w)"
      using append_numbered [of "Suc (min k ?b)" ?w ?line] new gen by simp
    moreover have "RequestLog_write event (l, w) =
        (Inr (), (?l\<lparr>rl_size := length ?line\<rparr>, append_text ?line ?w))"
      using True RequestLog_rotate_ready [OF open_ k(3,1)] stream_write_ready [of ?l ?w ?line] open_
      by (simp add: RequestLog_write_def Let_def bind_apply only_if_apply)
    moreover have "lg_faults (append_text ?line ?w) = []" using open_ by (simp add: append_text_def)
    ultimately show ?thesis
      using True g n
      by (intro that [of "?l\<lparr>rl_size := length ?line\<rparr>" "append_text ?line ?w"])
        (auto simp: log_ready_def intro!: exI [of _ "Suc (min k ?b)"])
  next
    case False
    have "RequestLog_write event (l, w) =
        (Inr (), (l\<lparr>rl_size := rl_size l + length ?line\<rparr>, append_text ?line w))"
      using False stream_write_ready [OF open_] by (auto simp: RequestLog_write_def Let_def bind_apply only_if_apply)
    moreover have "lg_faults (append_text ?line w) = []" using open_ by (simp add: append_text_def)
    ultimately show ?thesis
      using False g n k open_ append_numbered [OF k(3,1), of ?line]
      by (intro that [of "l\<lparr>rl_size := rl_size l + length ?line\<rparr>" "append_text ?line w"])
        (auto simp: log_ready_def intro!: exI [of _ k])
  qed
qed

fun write_events :: "(pystr \<times> json) list list \<Rightarrow> ('w, unit) log_method" where
  "write_events [] = ret ()"
| "write_events (event # events) = bind (RequestLog_write event) (\<lambda>_. write_events events)"

text \<open>What the specification promises of any sequence of lines.\<close>

lemma log_spec_step:
  "gs \<noteq> [] \<Longrightarrow> log_spec m b line gs \<noteq> [] \<and> length (log_spec m b line gs) \<le> max (length gs) (Suc b) \<and>
   (\<forall>g\<in>set (log_spec m b line gs). g \<in> set gs \<or> length g \<le> max m (length line)) \<and>
   (\<exists>dropped. dropped @ concat (rev (log_spec m b line gs)) = concat (rev gs) @ line)"
proof (cases gs)
  case (Cons current older)
  have "concat (rev gs) = concat (rev (drop b gs)) @ concat (rev (take b gs))"
    by (metis append_take_drop_id concat_append rev_append)
  with Cons show ?thesis by (cases "current = []") (auto dest: in_set_takeD)
qed simp

lemma log_spec_fold:
  "gs \<noteq> [] \<Longrightarrow> length gs \<le> Suc b \<Longrightarrow>
   foldl (\<lambda>gs line. log_spec m b line gs) gs lines \<noteq> [] \<and>
   length (foldl (\<lambda>gs line. log_spec m b line gs) gs lines) \<le> Suc b \<and>
   (\<forall>g\<in>set (foldl (\<lambda>gs line. log_spec m b line gs) gs lines).
      g \<in> set gs \<or> length g \<le> m \<or> (\<exists>line\<in>set lines. length g \<le> length line)) \<and>
   (\<exists>dropped. dropped @ concat (rev (foldl (\<lambda>gs line. log_spec m b line gs) gs lines)) = concat (rev gs) @ concat lines)"
proof (induction lines arbitrary: gs)
  case (Cons line lines)
  let ?gs = "log_spec m b line gs"
  note step = log_spec_step [OF Cons.prems(1), of m b line]
  then have "?gs \<noteq> []" "length ?gs \<le> Suc b" using Cons.prems(2) by auto
  note ih = Cons.IH [OF this]
  from step obtain d1 where d1: "d1 @ concat (rev ?gs) = concat (rev gs) @ line" by blast
  from ih obtain d2 where d2: "d2 @ concat (rev (foldl (\<lambda>gs line. log_spec m b line gs) ?gs lines)) = concat (rev ?gs) @ concat lines"
    by blast
  have "(d1 @ d2) @ concat (rev (foldl (\<lambda>gs line. log_spec m b line gs) ?gs lines)) = concat (rev gs) @ line @ concat lines"
    using d1 d2 by (metis append_assoc)
  with ih step show ?case by (auto simp: le_max_iff_disj) (metis append_assoc)+
qed auto

lemma write_events_refine:
  "log_ready l w \<Longrightarrow>
   \<exists>l' w'. write_events events (l, w) = (Inr (), (l', w')) \<and> log_ready l' w' \<and> rl_backups l' = rl_backups l \<and>
     generations w' = foldl (\<lambda>gs line. log_spec (rl_max_bytes l) (rl_backups l) line gs) (generations w) (map log_line events)"
proof (induction events arbitrary: l w)
  case (Cons event events)
  obtain l1 w1 where s: "RequestLog_write event (l, w) = (Inr (), (l1, w1))" "log_ready l1 w1"
    "rl_max_bytes l1 = rl_max_bytes l" "rl_backups l1 = rl_backups l"
    "generations w1 = log_spec (rl_max_bytes l) (rl_backups l) (log_line event) (generations w)"
    by (rule log_write_step [OF Cons.prems])
  from Cons.IH [OF s(2)] s show ?case by (simp add: bind_apply)
qed simp

lemma open_ready:
  assumes "lg_faults w = []" "numbered k (lg_files w)" "k \<le> Suc (rl_backups l)"
  obtains l' w' where "RequestLog_open (l, w) = (Inr (), (l', w'))" "log_ready l' w'"
    "rl_max_bytes l' = rl_max_bytes l" "rl_backups l' = rl_backups l"
    "concat (rev (generations w')) = concat (rev (generations w))"
    "set (generations w') \<subseteq> insert [] (set (generations w))"
proof (cases "k = 0")
  case True
  then have "lg_files w = Map.empty" using numbered_None [OF assms(2)] by auto
  moreover let ?w = "w\<lparr>lg_files := (lg_files w)(0 \<mapsto> \<lparr>lf_text = [], lf_mode = 384\<rparr>)\<rparr>"
  have "numbered 1 (lg_files ?w)" using \<open>lg_files w = Map.empty\<close> by (auto simp: numbered_def)
  ultimately show ?thesis
    using assms log_open_new [of w l] generations_numbered [of 1 ?w] generations_numbered [OF assms(2)] True
    by (intro that [of "l\<lparr>rl_size := 0, rl_stream := Open_stream []\<rparr>" ?w])
      (auto simp: log_ready_def intro!: exI [of _ 1])
next
  case False
  then obtain f where f: "lg_files w 0 = Some f" using numbered_None [OF assms(2), of 0] by auto
  with assms(2) have "lf_mode f = 384" by (simp add: numbered_def)
  with f have same: "(lg_files w)(0 \<mapsto> lf_mode_update (\<lambda>_. 384) f) = lg_files w" by (cases f) (auto simp: fun_eq_iff)
  have "hd (generations w) = lf_text f"
    using False f by (cases k) (simp_all add: generations_numbered [OF assms(2)] upt_conv_Cons del: upt_Suc)
  with f same assms False show ?thesis
    by (intro that [of "l\<lparr>rl_size := length (lf_text f), rl_stream := Open_stream []\<rparr>" w])
      (auto simp: RequestLog_open_def bind_apply on_world_apply log_open_def log_chmod_def log_size_def
        log_syscall_def log_ready_def intro!: exI [of _ k])
qed

section \<open>Properties\<close>

text \<open>
  C39. The log keeps within its bounds and loses nothing but the oldest text: opened over its own files
  and without faults, it writes any events; then it has at most \<open>backups\<close> files beside the current
  one, all for the owner only, each no longer than the limit unless it was so before or holds one
  long line; and the text of the files, from the oldest, is what was there followed by the lines,
  less a first part.
\<close>

theorem request_log_bounded:
  assumes "lg_faults w = []" "numbered k (lg_files w)" "k \<le> Suc (rl_backups l)"
  shows "\<exists>l' w'. bind RequestLog_open (\<lambda>_. write_events events) (l, w) = (Inr (), (l', w')) \<and>
    length (generations w') \<le> Suc (rl_backups l) \<and>
    (\<forall>n f. lg_files w' n = Some f \<longrightarrow> lf_mode f = 384) \<and>
    (\<forall>g\<in>set (generations w'). g \<in> insert [] (set (generations w)) \<or> length g \<le> rl_max_bytes l \<or>
       (\<exists>event\<in>set events. length g \<le> length (log_line event))) \<and>
    (\<exists>dropped. dropped @ concat (rev (generations w')) =
       concat (rev (generations w)) @ concat (map log_line events))"
proof -
  obtain l1 w1 where o: "RequestLog_open (l, w) = (Inr (), (l1, w1))" "log_ready l1 w1"
    "rl_max_bytes l1 = rl_max_bytes l" "rl_backups l1 = rl_backups l"
    "concat (rev (generations w1)) = concat (rev (generations w))"
    "set (generations w1) \<subseteq> insert [] (set (generations w))"
    by (rule open_ready [OF assms])
  from write_events_refine [OF o(2), of events] obtain l' w' where
    r: "write_events events (l1, w1) = (Inr (), (l', w'))" "log_ready l' w'" and
    g: "generations w' = foldl (\<lambda>gs line. log_spec (rl_max_bytes l) (rl_backups l) line gs) (generations w1) (map log_line events)"
    using o(3,4) by auto
  from o(2) obtain j where "0 < j" "j \<le> Suc (rl_backups l1)" "numbered j (lg_files w1)" by (auto simp: log_ready_def)
  then have "generations w1 \<noteq> []" "length (generations w1) \<le> Suc (rl_backups l)"
    using o(4) by (simp_all add: generations_numbered)
  note spec = log_spec_fold [OF this, of "rl_max_bytes l" "map log_line events", folded g]
  have "\<forall>n f. lg_files w' n = Some f \<longrightarrow> lf_mode f = 384" using r(2) by (auto simp: log_ready_def numbered_def)
  moreover have "bind RequestLog_open (\<lambda>_. write_events events) (l, w) = (Inr (), (l', w'))"
    using o(1) r(1) by (simp add: bind_apply)
  moreover have "\<exists>dropped. dropped @ concat (rev (generations w')) =
      concat (rev (generations w)) @ concat (map log_line events)"
    using spec o(5) by simp
  moreover have "\<forall>g\<in>set (generations w'). g \<in> insert [] (set (generations w)) \<or> length g \<le> rl_max_bytes l \<or>
       (\<exists>event\<in>set events. length g \<le> length (log_line event))"
    using spec o(6) by (simp only: set_map) blast
  ultimately show ?thesis using spec by blast
qed

definition demo_log_world :: log_world where
  "demo_log_world = service_world.extend demo_service (log_world.fields Map.empty [])"

definition demo_log :: request_log where
  "demo_log = \<lparr>rl_max_bytes = 10, rl_backups = 1, rl_stream = No_stream, rl_size = 0\<rparr>"

lemma demo_log_world_sel [simp]: "lg_files demo_log_world = Map.empty" "lg_faults demo_log_world = []"
  by (simp_all add: demo_log_world_def service_world.defs log_world.defs)

lemma demo_numbered: "numbered 0 (lg_files demo_log_world)"
  by (simp add: numbered_def)

theorem request_log_bounded_witness:
  "\<exists>l' w'. bind RequestLog_open (\<lambda>_. write_events [[], [(lit ''a'', JNull)]]) (demo_log, demo_log_world) =
     (Inr (), (l', w')) \<and> length (generations w') \<le> 2"
  using request_log_bounded [OF _ demo_numbered, of demo_log "[[], [(lit ''a'', JNull)]]"]
  by (auto simp: demo_log_def)

text \<open>What a log method raises, and what it keeps of the log.\<close>

lemma raises_log_syscall [raises_rules]: "raises is_oserror m \<Longrightarrow> raises is_oserror (log_syscall m)"
  by (fastforce simp: raises_def log_syscall_def split: list.splits option.splits)

lemma raises_stream_close [raises_rules]: "raises is_oserror (stream_close text)"
proof -
  have rest: "raises is_oserror (\<lambda>w. case log_append left w of
      (None, w2) \<Rightarrow> (Inl (OSError n), w2) | (Some (m, _), w2) \<Rightarrow> (Inl (OSError m), w2))" for left n
    by (auto simp: raises_def split: prod.splits option.splits)
  have closing: "raises is_oserror (log_syscall (ret ()))" by (intro raises_rules)
  show ?thesis
    unfolding stream_close_def
    using raisesD [OF closing] raisesD [OF raises_try_finally [OF rest closing]]
    by (auto simp: raises_def split: prod.splits option.splits)
qed

lemma raises_shift_backups [raises_rules]: "raises is_oserror (shift_backups n)"
proof (induction n)
  case (Suc n)
  have "raises is_oserror (log_exists n)"
    unfolding log_exists_def
    by (rule raises_try_except [where Q = is_oserror], intro raises_rules)
      (auto intro!: raises_rules split: exn.splits)
  moreover have "raises is_oserror (log_replace n (Suc n))"
    unfolding log_replace_def by (intro raises_log_syscall) (auto simp: raises_def split: option.splits)
  ultimately show ?case by (auto intro: raises_rules Suc)
qed (simp add: raises_def)

lemma rotation_raises: "raises is_oserror RequestLog_rotate"
proof -
  have "raises is_oserror (log_unlink 0)"
    unfolding log_unlink_def
    by (rule raises_try_except [where Q = is_oserror], intro raises_rules) (auto intro!: raises_rules)
  moreover have "raises is_oserror RequestLog_close"
    unfolding RequestLog_close_def by (intro raises_rules) (auto split: log_stream.split intro!: raises_rules)
  moreover have "raises is_oserror RequestLog_open"
    unfolding RequestLog_open_def log_open_def log_chmod_def log_size_def by (intro raises_rules)
  ultimately show ?thesis
    unfolding RequestLog_rotate_def by (intro raises_rules)
qed

lemma failed_rotation_leaves:
  assumes "RequestLog_rotate (l, w) = (Inl e, (l', w'))" "rl_stream l = Open_stream text"
  shows "l' = l\<lparr>rl_stream := No_stream\<rparr> \<or> l' = l\<lparr>rl_stream := Closed_stream\<rparr>"
  using assms
  by (auto simp: RequestLog_rotate_def RequestLog_close_def RequestLog_open_def bind_apply on_world_apply
      only_if_apply split: prod.splits sum.splits if_splits)

text \<open>
  C40. A rotation of an open log that fails, at whatever call, raises an OSError and leaves the log
  without an open stream but with the size of the file it closed. Every later event that needs no
  rotation by that size then raises, not an OSError but a RuntimeError (no stream) or a ValueError
  (a stream whose close failed), and changes nothing, so it never opens the log again. The
  middleware expects an OSError only.
\<close>

theorem failed_rotation_breaks_the_log:
  assumes "rl_stream l = Open_stream text" "RequestLog_rotate (l, w) = (Inl e, (l', w'))"
  shows "(\<exists>n. e = OSError n) \<and> rl_size l' = rl_size l \<and>
    (\<exists>name\<in>{''RuntimeError'', ''ValueError''}. \<forall>later. rl_size l + length (log_line later) \<le> rl_max_bytes l \<longrightarrow>
       RequestLog_write later (l', w') = (Inl (PyError name), (l', w')))"
proof -
  have "is_oserror e" using raisesD [OF rotation_raises assms(2)] .
  then obtain n where "e = OSError n" by (cases e) simp_all
  moreover from failed_rotation_leaves [OF assms(2,1)]
  have "rl_size l' = rl_size l \<and>
    (\<exists>name\<in>{''RuntimeError'', ''ValueError''}. \<forall>later. rl_size l + length (log_line later) \<le> rl_max_bytes l \<longrightarrow>
       RequestLog_write later (l', w') = (Inl (PyError name), (l', w')))"
    by (elim disjE) (simp_all add: RequestLog_write_def Let_def bind_apply only_if_apply stream_write_def)
  ultimately show ?thesis by blast
qed

theorem failed_rotation_breaks_the_log_witness:
  "\<exists>l w. RequestLog_rotate
       (demo_log\<lparr>rl_stream := Open_stream [], rl_size := 6\<rparr>,
        demo_log_world\<lparr>lg_files := [0 \<mapsto> \<lparr>lf_text = [1, 2, 3, 4, 5, 6], lf_mode = 384\<rparr>],
          lg_faults := [None, None, Some (EIO, 0)]\<rparr>) = (Inl (OSError EIO), (l, w)) \<and>
     (\<exists>name\<in>{''RuntimeError'', ''ValueError''}. RequestLog_write [] (l, w) = (Inl (PyError name), (l, w)))"
proof -
  let ?l = "demo_log\<lparr>rl_stream := Open_stream [], rl_size := 6\<rparr>"
  let ?w = "demo_log_world\<lparr>lg_files := [0 \<mapsto> \<lparr>lf_text = [1, 2, 3, 4, 5, 6], lf_mode = 384\<rparr>],
          lg_faults := [None, None, Some (EIO, 0)]\<rparr>"
  have "\<exists>l w. RequestLog_rotate (?l, ?w) = (Inl (OSError EIO), (l, w))"
    by (simp add: bind_apply only_if_apply demo_log_def RequestLog_rotate_def RequestLog_close_def
        stream_close_def log_append_def on_world_apply log_syscall_def log_exists_def try_except_apply
        log_replace_def)
  then obtain l w where run: "RequestLog_rotate (?l, ?w) = (Inl (OSError EIO), (l, w))" by blast
  have "rl_size ?l + length (log_line []) \<le> rl_max_bytes ?l" by (simp add: log_line_def demo_log_def)
  with failed_rotation_breaks_the_log [OF _ run] run show ?thesis by fastforce
qed

end
