(* ===== verification/Api_Correct.thy ===== *)
theory Api_Correct
  imports Api_Within Web_Correct Request_Log_Correct Preview_Correct
begin

text \<open>
  The API: its error responses are those that it documents, and every request is answered once and
  logged under one identifier.
\<close>

section \<open>Documented errors\<close>

lemma in_error_responses:
  assumes "code \<in> set cs \<union> set ALWAYS_POSSIBLE"
  shows "\<exists>names. (http_status code, names) \<in> set (error_responses cs changes_state) \<and> code_value code \<in> set names"
proof -
  let ?possible = "cs @ ALWAYS_POSSIBLE @ (if changes_state then STATE_CHANGE else [])"
  let ?names = "remdups (sort (map code_value (filter (\<lambda>c. http_status c = http_status code) ?possible)))"
  have "code \<in> set ?possible" using assms by auto
  then have "(http_status code, ?names) \<in> set (error_responses cs changes_state)" "code_value code \<in> set ?names"
    by (auto simp: error_responses_def Let_def)
  then show ?thesis by blast
qed

lemma documented_codes:
  "code \<in> set (fst (declared e)) \<Longrightarrow> \<exists>names. (http_status code, names) \<in> set (documented e) \<and> code_value code \<in> set names"
  using in_error_responses [of code "fst (declared e)" "snd (declared e)"] by (simp add: documented_def case_prod_beta)

definition is_preview :: "endpoint \<Rightarrow> bool" where
  "is_preview e \<longleftrightarrow> (case e of Preview_file _ _ _ \<Rightarrow> True | _ \<Rightarrow> False)"

text \<open>
  C38. A route that ends in a response ends in its success, or in the response to a \<open>DataBridgeError\<close>
  whose code is documented for the route under the status of the response; only a preview may also
  end in SOURCE_READ_FAILED. Any other exception, which the middleware turns into an INTERNAL_ERROR,
  is no \<open>DataBridgeError\<close>.
\<close>

theorem answers_documented:
  assumes "considerate (ap_paramiko api)" "list_all sqlite_fault (db_faults w)"
    and "answer_endpoint api e (s, w) = Some (r, s')"
  shows "case r of
      Inl ex \<Rightarrow> \<not> is_db_error ex
    | Inr resp \<Rightarrow>
        (\<exists>x. handle api e (s, w) = Some (Inr x, s') \<and> resp = success api x) \<or>
        (\<exists>code message i. resp = error_response code message i None [] \<and>
          ((\<exists>names. (http_status code, names) \<in> set (documented e) \<and> code_value code \<in> set names) \<or>
           is_preview e \<and> code = SOURCE_READ_FAILED))"
proof -
  let ?S = "raised_codes e"
  have J: "disciplined ?S (service_world.more w) (snd (s, w))" using assms(2) by (simp add: disciplined_def)
  have known: "code \<in> set (fst (declared e)) \<or> is_preview e \<and> code = SOURCE_READ_FAILED" if "code \<in> ?S" for code
    using that by (cases e) (auto simp: is_preview_def)
  from assms(3) obtain y s1 where y: "handle api e (s, w) = Some (y, s1)"
    by (auto simp: answer_endpoint_def ptry_except_def pbind_def split: option.splits)
  have raised: "codes ?S ex" if "y = Inl ex" for ex
    using pwithinD [OF handle_within [of api e ?S "service_world.more w"] J y] assms(1) that
    by (simp add: considerate_api_def)
  show ?thesis
  proof (cases y)
    case (Inr x)
    with assms(3) y have "r = Inr (success api x)" "handle api e (s, w) = Some (Inr x, s')"
      by (auto simp: answer_endpoint_def ptry_except_def pbind_def total_def)
    then show ?thesis by auto
  next
    case (Inl ex)
    show ?thesis
    proof (cases ex)
      case (DataBridgeError code message i)
      from raised [OF Inl] DataBridgeError have "code \<in> ?S" by simp
      from known [OF this] documented_codes [of code e] have
        "(\<exists>names. (http_status code, names) \<in> set (documented e) \<and> code_value code \<in> set names) \<or>
           is_preview e \<and> code = SOURCE_READ_FAILED" by blast
      moreover have "r = Inr (error_response code message i None [])"
        using assms(3) y Inl DataBridgeError
        by (cases s1) (auto simp: answer_endpoint_def ptry_except_def pbind_def total_def domain_error_def bind_apply assign_def)
      ultimately show ?thesis by (simp only: sum.case) blast
    qed (use assms(3) y Inl in \<open>auto simp: answer_endpoint_def ptry_except_def pbind_def total_def\<close>)
  qed
qed

lemma considerate_deaf: "considerate deaf_paramiko"
  by (simp add: considerate_def honours_def deaf_paramiko_def)

definition demo_api :: "'z service_world_scheme api" where
  "demo_api =
     \<lparr>ap_store = demo_store, ap_paramiko = deaf_paramiko, ap_known_hosts = [],
      ap_routing = (\<lambda>_. \<lparr>rt_route = None, rt_path_params = [], rt_matched = Http_error 404 []\<rparr>),
      ap_render = (\<lambda>_. JNull)\<rparr>"

theorem answers_documented_witness:
  "\<exists>r s'. answer_endpoint demo_api (Delete_connection [97]) (new_web_state, demo_service) = Some (r, s') \<and>
     (\<forall>ex. r = Inl ex \<longrightarrow> \<not> is_db_error ex)"
proof -
  obtain r s' where run: "answer_endpoint demo_api (Delete_connection [97]) (new_web_state, demo_service) = Some (r, s')"
    by (cases "answer_endpoint demo_api (Delete_connection [97]) (new_web_state, demo_service)")
      (auto simp: answer_endpoint_def answered_def ptry_except_def pbind_def total_def split: prod.splits sum.splits)
  have "considerate (ap_paramiko demo_api)" "list_all sqlite_fault (db_faults demo_service)"
    by (simp_all add: demo_api_def considerate_deaf)
  from answers_documented [OF this run] run show ?thesis by auto
qed

lemma documented_only:
  "set (concat (map snd (documented e))) \<subseteq>
     code_value ` (set (fst (declared e)) \<union> set ALWAYS_POSSIBLE \<union> set STATE_CHANGE)"
  unfolding documented_def error_responses_def Let_def
  by (cases "declared e") (auto split: if_splits)

text \<open>
  The preview of a local file whose read fails raises SOURCE_READ_FAILED, which the route does not
  document under any status.
\<close>

definition calm_tick :: tick where "calm_tick = \<lparr>interfere = (\<lambda>f. f), outcome = Proceed\<rparr>"
definition read_error_tick :: tick where "read_error_tick = \<lparr>interfere = (\<lambda>f. f), outcome = Fail EIO\<rparr>"

lemma syscall_calm_tick: "ticks w = calm_tick # ts \<Longrightarrow> syscall body w = body Proceed (w\<lparr>ticks := ts\<rparr>)"
  by (cases w) (simp add: syscall_def calm_tick_def)

lemma syscall_read_error: "ticks w = read_error_tick # ts \<Longrightarrow> syscall body w = (Inl (OSError EIO), w\<lparr>ticks := ts\<rparr>)"
  by (cases w) (simp add: syscall_def read_error_tick_def)

definition broken_disk :: os_world where
  "broken_disk = sheet_world\<lparr>ticks :=
     [calm_tick, calm_tick, calm_tick, calm_tick, calm_tick, calm_tick, read_error_tick]\<rparr>"

lemma broken_resolve:
  "local_resolve demo_connector (lit ''t.csv'') (sheet_world\<lparr>ticks := calm_tick # calm_tick # calm_tick # ts\<rparr>) =
   (Inr ([lit ''d''], [lit ''d'', lit ''t.csv'']), sheet_world\<lparr>ticks := ts\<rparr>)"
proof -
  have "components (lit ''/d'') = [lit ''d'']"
    unfolding components_def split_d by (simp add: text_eval)
  moreover have "startswith (lit ''/d'') [47]" by (simp add: text_eval)
  ultimately show ?thesis
    by (simp add: sheet_name local_resolve_def local_root_def bind_apply translate_apply path_of_text_def
        demo_connector_def path_resolve_strict_def path_resolve_def syscall_calm_tick path_is_dir_def
        sys_stat_def try_except_apply file_at_def stat_of_def sheet_world_def is_relative_to_def lookup_def)
qed

lemma broken_enter:
  "local_read_enter demo_connector (lit ''t.csv'') (Some (MAX_PREVIEW_BYTES + 1)) broken_disk =
   (Inr \<lparr>src_descriptor = 3, src_remaining = 6, src_filename = lit ''t.csv''\<rparr>,
    sheet_world\<lparr>ticks := [read_error_tick], fds := [3 \<mapsto> \<lparr>of_inode = Suc 0, of_pos = 0\<rparr>], next_fd := 4\<rparr>)"
  by (simp add: broken_disk_def broken_resolve local_read_enter_def bind_apply translate_apply try_except_apply
      sys_open_read_def syscall_calm_tick new_fd_def sys_fstat_def on_fd_def stat_of_def
      sys_set_blocking_def only_if_def MAX_PREVIEW_BYTES_def)

lemma broken_loop:
  "\<exists>m x. read_prefix_loop (local_methods c)
     (\<lparr>src_descriptor = 3, src_remaining = 6, src_filename = g\<rparr>,
      ([], sheet_world\<lparr>ticks := [read_error_tick], fds := [3 \<mapsto> \<lparr>of_inode = Suc 0, of_pos = 0\<rparr>], next_fd := 4\<rparr>)) =
   (Inl (db_error SOURCE_READ_FAILED m), x)"
  by (simp add: read_prefix_loop.simps local_methods_def FileSource_read_def bind_apply translate_apply on_world_apply
      sys_read_def on_fd_def syscall_read_error MAX_PREVIEW_BYTES_def)

theorem preview_error_undocumented:
  "(\<exists>message. fst (preview (local_methods demo_connector) (lit ''t.csv'') 1 broken_disk) =
     Inl (db_error SOURCE_READ_FAILED message)) \<and>
   code_value SOURCE_READ_FAILED \<notin> set (concat (map snd (documented (Preview_file name filename limit))))"
proof
  obtain m x where loop: "read_prefix_loop (local_methods demo_connector)
     (\<lparr>src_descriptor = 3, src_remaining = 6, src_filename = lit ''t.csv''\<rparr>,
      ([], sheet_world\<lparr>ticks := [read_error_tick], fds := [3 \<mapsto> \<lparr>of_inode = Suc 0, of_pos = 0\<rparr>], next_fd := 4\<rparr>)) =
   (Inl (db_error SOURCE_READ_FAILED m), x)"
    using broken_loop by blast
  have exit: "fst (local_read_exit (Some e) y) = Inl e" for e and y :: "file_source \<times> os_world"
  proof -
    obtain r y' where r: "local_read_exit (Some e) y = (r, y')" by (rule prod.exhaust)
    have "raises (\<lambda>d. d = e) (local_read_exit (Some e) :: (file_source \<times> os_world, unit) io)"
      by (rule raises_local_read_exit_of) simp
    from raisesD [OF this, of y] r local_read_exit_raises [OF r] show ?thesis by (cases r) auto
  qed
  have "fst (read_prefix (local_methods demo_connector) (lit ''t.csv'') broken_disk) =
      Inl (db_error SOURCE_READ_FAILED m)"
  proof -
    obtain k w where x: "x = (k, w)" by (rule prod.exhaust)
    let ?out = "leave_block (stream (local_read_exit (Some (db_error SOURCE_READ_FAILED m)))) x"
    have "fst ?out = Inl (db_error SOURCE_READ_FAILED m)"
      using exit [of "db_error SOURCE_READ_FAILED m" "(k, snd w)"] x
      by (cases w) (auto simp: leave_block_def stream_apply split: prod.split)
    then obtain y where out: "?out = (Inl (db_error SOURCE_READ_FAILED m), y)" by (cases ?out) simp
    have sel: "cn_read_enter (local_methods demo_connector) = local_read_enter demo_connector"
      "cn_read_exit (local_methods demo_connector) = local_read_exit" by (simp_all add: local_methods_def)
    show ?thesis
      by (cases y) (simp add: read_prefix_def with_block_def on_world_apply sel broken_enter [simplified] loop out)
  qed
  moreover have "lower (suffix_of (lit ''t.csv'')) = lit ''.csv''" by code_simp
  ultimately show "\<exists>message. fst (preview (local_methods demo_connector) (lit ''t.csv'') 1 broken_disk) =
     Inl (db_error SOURCE_READ_FAILED message)"
    by (cases "read_prefix (local_methods demo_connector) (lit ''t.csv'') broken_disk")
      (auto simp: preview_def bind_apply sheet_name)
  show "code_value SOURCE_READ_FAILED \<notin> set (concat (map snd (documented (Preview_file name filename limit))))"
    using documented_only [of "Preview_file name filename limit"]
    by (auto simp: SFTP_ACCESS_def ALWAYS_POSSIBLE_def STATE_CHANGE_def)
qed

section \<open>Every request is answered\<close>

lemma answer_request_within:
  assumes "considerate_api api" shows "pwithin (\<lambda>s. disciplined UNIV z (snd s)) (codes UNIV) (answer_request api scope)"
proof -
  have state: "within (\<lambda>s. J (snd s)) (codes UNIV) (validation_error body problems)"
    "within (\<lambda>s. J (snd s)) (codes UNIV) (routing_error status headers)"
    "within (\<lambda>s. J (snd s)) (codes UNIV) (domain_error code message i)"
    for J :: "'a service_world_scheme \<Rightarrow> bool" and body problems status headers code message i
    unfolding validation_error_def routing_error_def domain_error_def Let_def by (intro within_rules)+
  have endpoint: "pwithin (\<lambda>s. disciplined UNIV z (snd s)) (codes UNIV) (answer_endpoint api e)" for e
    unfolding answer_endpoint_def
    by (rule pwithin_ptry_except [where Q = "codes UNIV"], intro within_rules handle_within assms)
      (auto split: exn.split intro!: within_rules state)
  show ?thesis
    unfolding answer_request_def Let_def
    by (intro pwithin_pbind pwithin_total within_assign) (auto split: matched.split intro!: pwithin_total state endpoint)
qed

text \<open>What the client has got and what the log holds, in the world of the server.\<close>

definition client_sent where "client_sent z = hw_sent (service_world.extend undefined z)"
definition client_events where "client_events z = hw_events (service_world.extend undefined z)"

lemma client_sel [simp]:
  "client_sent (service_world.more w) = hw_sent w" "client_events (service_world.more w) = hw_events w"
  by (cases w; simp add: client_sent_def client_events_def service_world.extend_def)+

lemma keeps_log_syscall [keeps_rules]: "keeps log_world.more m \<Longrightarrow> keeps log_world.more (log_syscall m)"
  by (rule keepsI) (auto simp: log_syscall_def split: list.splits option.splits prod.splits dest: keepsD)

lemma log_append_more: "log_append t w = (x, w') \<Longrightarrow> log_world.more w' = log_world.more w"
  by (auto simp: log_append_def append_text_def split: if_splits list.splits option.splits prod.splits)

lemma keeps_log_files [keeps_rules]:
  "keeps log_world.more (log_exists n)" "keeps log_world.more (log_replace n m)" "keeps log_world.more (log_unlink n)"
  "keeps log_world.more log_open" "keeps log_world.more log_chmod" "keeps log_world.more log_size"
  unfolding log_exists_def log_replace_def log_unlink_def log_open_def log_chmod_def log_size_def
  by (intro keeps_rules keeps_modify keepsI; auto split: option.splits)+

lemma keeps_shift_backups [keeps_rules]: "keeps log_world.more (shift_backups n)"
proof (induction n)
  case 0
  show ?case unfolding shift_backups.simps by (rule keeps_ret)
next
  case (Suc n)
  show ?case unfolding shift_backups.simps by (intro keeps_rules Suc)
qed

lemma keeps_stream_close: "keeps log_world.more (stream_close text)"
proof -
  have rest: "keeps log_world.more (\<lambda>w. case log_append left w of
      (None, w2) \<Rightarrow> (Inl (OSError n), w2) | (Some (m, x), w2) \<Rightarrow> (Inl (OSError m), w2))" for left n
    by (rule keepsI) (auto split: option.splits prod.splits dest: log_append_more)
  have closing: "keeps log_world.more (log_syscall (ret ()))" by (intro keeps_rules)
  show ?thesis
    by (rule keepsI)
      (auto simp: stream_close_def split: option.splits prod.splits
        dest!: log_append_more keepsD [OF closing] keepsD [OF keeps_try_finally [OF rest closing]])
qed

lemma keeps_RequestLog_write: "keeps (\<lambda>s. log_world.more (snd s)) (RequestLog_write event)"
proof -
  have line: "keeps (\<lambda>s. log_world.more (snd s)) (stream_write l)" for l
    by (rule keepsI) (auto simp: stream_write_def split: log_stream.splits option.splits prod.splits
        dest: log_append_more)
  show ?thesis
    unfolding RequestLog_write_def RequestLog_rotate_def RequestLog_close_def RequestLog_open_def Let_def
    by (intro keeps_rules line) (auto split: log_stream.split intro!: keeps_rules keeps_stream_close)
qed

lemma http_sel:
  "hw_sent w = hw_sent (log_world.extend undefined (log_world.more w))"
  "hw_events w = hw_events (log_world.extend undefined (log_world.more w))"
  by (cases w; simp add: log_world.extend_def)+

text \<open>The server and the log under the middleware.\<close>

interpretation http_served: http_boundary "http_web allowed elapsed" client_sent client_events
  for allowed elapsed
proof (unfold_locales, goal_cases)
  case (1 m w r w')
  then show ?case by (auto simp: http_web_def server_send_def)
next
  case (2 event w r w')
  obtain x l w1 where run: "RequestLog_write event (hw_log w, w) = (x, (l, w1))" by (rule prod_cases3)
  from keepsD [OF keeps_RequestLog_write run] have more: "log_world.more w1 = log_world.more w" by simp
  have "hw_sent w1 = hw_sent w" "hw_events w1 = hw_events w"
    using http_sel(1) [of w1] http_sel(1) [of w] http_sel(2) [of w1] http_sel(2) [of w] more by simp_all
  with 2 run show ?case by (cases x) (auto simp: http_web_def write_log_def)
qed

lemma response_answering: "answering v False (response_asgi r)"
  by (auto simp: response_asgi_def emitted_def split: option.split)

lemma api_answering:
  fixes api :: "'z service_world_scheme api"
  assumes "considerate_api api" "\<And>w w'. service_world.more w' = service_world.more w \<Longrightarrow> v w' = v w"
  shows "answering (\<lambda>s. v (snd s)) False (api_asgi api scope)"
  unfolding api_asgi_def
proof (rule answering.compute)
  fix s s' :: "web_state \<times> 'z service_world_scheme"
    and p :: "(web_state \<times> 'z service_world_scheme) asgi"
  assume "map_option (\<lambda>(r, s'). (case r of Inl e \<Rightarrow> Crash e | Inr resp \<Rightarrow> response_asgi resp, s'))
      (answer_request api scope s) = Some (p, s')"
  then obtain r where r: "answer_request api scope s = Some (r, s')"
    and p: "p = (case r of Inl e \<Rightarrow> Crash e | Inr resp \<Rightarrow> response_asgi resp)" by auto
  have "disciplined UNIV (service_world.more (snd s)) (snd s)" by (simp add: disciplined_def)
  from pwithinD [OF answer_request_within [OF assms(1)] this r]
  have "service_world.more (snd s') = service_world.more (snd s)" by (simp add: disciplined_def)
  from assms(2) [OF this] show "answering (\<lambda>s. v (snd s)) False p \<and> v (snd s') = v (snd s)"
    using p by (cases r) (simp_all add: response_answering answering.crash)
qed

section \<open>Every request returns\<close>

text \<open>What the transfer service needs of the state it starts in.\<close>

definition serviceable :: "'z service_world_scheme \<Rightarrow> bool" where
  "serviceable w \<longleftrightarrow> ledger_ok (ledger_view w) \<and> sw_free w \<le> MAX_CONCURRENT_TRANSFERS"

lemma serviceable_keeps:
  assumes "keeps ledger_view m" "m w = (r, w')" "serviceable w" shows "serviceable w'"
proof -
  from keepsD [OF assms(1,2)] have "ledger_view w' = ledger_view w" .
  with assms(3) show ?thesis by (simp add: serviceable_def ledger_view_def)
qed

lemma some_tuple:
  "\<exists>a b c. x = (a, b, c)" "\<exists>a b c d. y = (a, b, c, d)"
  by (cases x, simp) (cases y, simp)

lemma pbind_returns: "(\<And>y z. f y z \<noteq> None) \<Longrightarrow> pbind (total m) f x \<noteq> None"
  by (cases "m x"; cases "fst (m x)") (auto simp: pbind_def total_def)

lemma pbind_total_returns: "m x \<noteq> None \<Longrightarrow> pbind m (\<lambda>y. total (f y)) x \<noteq> None"
  by (auto simp: pbind_def total_def split: sum.splits)

lemma ptry_except_returns: "m x \<noteq> None \<Longrightarrow> ptry_except m (\<lambda>e. total (h e)) x \<noteq> None"
  by (auto simp: ptry_except_def total_def split: sum.splits)

lemma transfer_file_returns:
  assumes "quiet_paramiko (ap_paramiko api)" "serviceable w"
  shows "transfer_file api item (s, w) \<noteq> None"
proof -
  have w: "transfers_ok (db_transfers (db w))" "list_all sqlite_fault (db_faults w)"
      "sw_free w \<le> MAX_CONCURRENT_TRANSFERS"
    using assms(2) by (simp_all add: serviceable_def ledger_ok_def ledger_view_def)
  have service: "api_service api = application (ap_store api) (sftp_open (ap_paramiko api) (ap_known_hosts api))"
    by (simp add: api_service_def application_def api_open_def)
  obtain r w' where "service_run (api_service api) item w = Some (r, w')"
    unfolding service by (rule service_run_ends [OF sftp_open_contract [OF assms(1)] w])
  then show ?thesis
    by (auto simp: transfer_file_def pbind_def total_def beside_state_def log_body_def assign_def bind_apply split: sum.splits)
qed

lemma handle_returns:
  assumes "quiet_paramiko (ap_paramiko api)" "serviceable w" shows "handle api e (s, w) \<noteq> None"
proof (cases e)
  case (Transfer_file item)
  show ?thesis
    unfolding Transfer_file handle.simps by (intro pbind_total_returns transfer_file_returns assms)
qed (simp_all add: answered_def total_def some_tuple)

lemma request_returns:
  assumes "quiet_paramiko (ap_paramiko api)" "serviceable w" shows "answer_request api scope (s, w) \<noteq> None"
proof -
  let ?rt = "ap_routing api scope"
  have "answer_endpoint api e (s', w) \<noteq> None" for e s'
    using handle_returns [OF assms, of e s'] unfolding answer_endpoint_def
    by (intro ptry_except_returns pbind_total_returns)
  then show ?thesis
    by (cases "rt_matched ?rt") (auto simp: answer_request_def Let_def pbind_def total_def assign_def bind_apply)
qed

lemma web_call_returns:
  fixes web :: "'z service_world_scheme web"
  assumes "\<And>send status s w. serviceable w \<Longrightarrow> run_asgi send (app scope) (status, (s, w)) \<noteq> None"
    and "serviceable w"
  shows "web_call web app scope (status, (s, w)) \<noteq> None"
proof (cases "hs_type scope = lit ''http''")
  case True
  have guard: "guard_app web app scope i (status, (s, w)) \<noteq> None" if "serviceable w" for i w
    unfolding guard_app_def
    by (cases "rejection (web_allowed web) scope") (use assms(1) [OF that] in \<open>simp_all add: total_def some_tuple split: prod.split\<close>)
  have blocks: "ptry_finally (ptry_except (guard_app web app scope i) (\<lambda>e. total (h e))) c (status, (s, w)) \<noteq> None"
    if "serviceable w" for i h c w
  proof -
    have "ptry_except (guard_app web app scope i) (\<lambda>e. total (h e)) (status, (s, w)) \<noteq> None"
      by (intro ptry_except_returns guard that)
    then show ?thesis by (auto simp: ptry_finally_def some_tuple split: sum.splits prod.splits)
  qed
  obtain x w1 where m: "monotonic w = (x, w1)" by (rule prod.exhaust)
  obtain i w2 where u: "uuid4 w1 = (Inr i, w2)" by (cases "uuids w1") (auto simp: uuid4_def)
  have "serviceable w2"
    using serviceable_keeps [OF keeps_monotonic m assms(2)] by (rule serviceable_keeps [OF keeps_ledger_view [OF keeps_uuid4] u])
  from blocks [OF this] m u True show ?thesis
    by (cases x) (simp_all add: web_call_def pbind_def total_def on_world_def)
next
  case False
  with assms show ?thesis by (simp add: web_call_def)
qed

lemma serve_returns:
  assumes "quiet_paramiko (ap_paramiko api)" "serviceable w"
  shows "\<exists>r w'. serve api allowed elapsed scope w = Some (r, w')"
proof -
  have emit: "run_asgi send (response_asgi r) (status, (s, w)) \<noteq> None" for send r status s w
    by (auto simp: response_asgi_def emitted_def total_def split: prod.splits sum.splits option.splits)
  have "run_asgi send (api_asgi api scope) (status, (s, w)) \<noteq> None" if ready: "serviceable w" for send status s w
  proof -
    obtain r s' where "answer_request api scope (s, w) = Some (r, s')"
      using request_returns [OF assms(1) ready, of scope s] by auto
    then show ?thesis using emit by (cases r; cases s') (simp_all add: api_asgi_def total_def)
  qed
  from web_call_returns [where app = "api_asgi api" and scope = scope, OF this assms(2)] show ?thesis
    by (fastforce simp: serve_def)
qed

text \<open>
  C37. Every HTTP request to the application is answered: the application returns, the client got the start
  of a response, every start carries the same request identifier, and at most one event was logged,
  with that identifier and the status of the response. A request that the guard rejects got exactly the
  response of the guard. This holds for every request, state of the connections, server and fault, and
  also when a handler raises.
\<close>

theorem http_requests_answered:
  assumes "considerate (ap_paramiko api)" "quiet_paramiko (ap_paramiko api)"
    and "transfers_ok (db_transfers (db w))" "list_all sqlite_fault (db_faults w)"
    and "sw_free w \<le> MAX_CONCURRENT_TRANSFERS" "hs_type scope = lit ''http''"
  shows "\<exists>r w' i out events. serve api allowed elapsed scope w = Some (r, w') \<and>
    hw_sent w' = hw_sent w @ out \<and> hw_events w' = hw_events w @ events \<and>
    seen_status out \<noteq> None \<and> carries i out \<and> length events \<le> 1 \<and>
    (\<forall>event\<in>set events. event_of i (shown_status (seen_status out)) event) \<and>
    (\<forall>code message. rejection allowed scope = Some (code, message) \<longrightarrow>
       out = [Response_start (http_status code) [(REQUEST_ID_HEADER, i)],
              Response_body (Some (error_body code message None None))])"
proof -
  have "serviceable w" using assms(3-5) by (simp add: serviceable_def ledger_ok_def ledger_view_def)
  from serve_returns [OF assms(2) this] obtain r w' where served: "serve api allowed elapsed scope w = Some (r, w')"
    by blast
  then obtain status s where run:
    "web_call (http_web allowed elapsed) (api_asgi api) scope (None, (new_web_state, w)) = Some (r, (status, (s, w')))"
    by (auto simp: serve_def)
  have "answering (\<lambda>s. http_served.traces (snd s)) False (api_asgi api scope)"
    using assms(1) by (intro api_answering) (simp_all add: considerate_api_def http_served.traces_def)
  from http_served.call_so_far [OF run assms(6) this] served show ?thesis
    by (simp add: http_served.traces_def http_web_def) blast
qed

definition demo_http_world :: http_world where
  "demo_http_world = log_world.extend demo_log_world (http_world.fields demo_log [] [])"

definition demo_scope :: http_scope where
  "demo_scope = \<lparr>hs_type = lit ''http'', hs_method = lit ''GET'', hs_scheme = lit ''http'', hs_path = lit ''/nothing'',
     hs_query = [], hs_headers = [(lit ''host'', lit ''localhost'')]\<rparr>"

lemma extend_ledger: "ledger_view (log_world.extend (service_world.extend w a) b) = ledger_view w"
  by (cases w) (simp add: ledger_view_def log_world.extend_def service_world.extend_def)

theorem http_requests_answered_witness:
  "\<exists>r w' out. serve demo_api {lit ''localhost''} (\<lambda>_ _. []) demo_scope demo_http_world = Some (r, w') \<and>
     hw_sent w' = hw_sent demo_http_world @ out \<and> seen_status out \<noteq> None"
proof -
  have api: "considerate (ap_paramiko demo_api)" "quiet_paramiko (ap_paramiko demo_api)"
    using considerate_deaf by (simp_all add: demo_api_def quiet_paramiko_def honours_def deaf_paramiko_def considerate_def)
  have "ledger_view demo_http_world = ledger_view demo_service"
    by (simp only: demo_http_world_def demo_log_world_def extend_ledger)
  then have same: "db demo_http_world = db demo_service" "db_faults demo_http_world = db_faults demo_service"
      "sw_free demo_http_world = sw_free demo_service"
    by (simp_all only: ledger_view_def prod.inject)
  have faults: "list_all sqlite_fault (db_faults demo_service)" and free: "sw_free demo_service \<le> MAX_CONCURRENT_TRANSFERS"
    by simp_all
  note world = demo_transfers_ok [folded same(1)] faults [folded same(2)] free [folded same(3)]
  have scope: "hs_type demo_scope = lit ''http''" by (simp add: demo_scope_def)
  obtain r w' i out events where "serve demo_api {lit ''localhost''} (\<lambda>_ _. []) demo_scope demo_http_world = Some (r, w') \<and>
      hw_sent w' = hw_sent demo_http_world @ out \<and> hw_events w' = hw_events demo_http_world @ events \<and>
      seen_status out \<noteq> None \<and> carries i out"
    using http_requests_answered [OF api world scope, of "{lit ''localhost''}" "\<lambda>_ _. []"] by (elim exE conjE) (rule that, intro conjI)
  then show ?thesis by (elim conjE) (intro exI conjI)
qed

end
