(* ===== verification/Config.thy ===== *)
theory Config
  imports Posix Web
begin

text \<open>
  \<^verbatim>\<open>databridge/config.py\<close>: the settings of the service from the environment. Every setting is read
  before one \<open>StartupError\<close> names all the values to fix, so the functions share a list of problems.

  The environment is a map; Fernet, which decides whether a key is one of its keys, is a parameter.
\<close>

section \<open>Settings\<close>

definition DEFAULT_ALLOWED_HOSTS :: "pystr set" where
  "DEFAULT_ALLOWED_HOSTS = {lit ''127.0.0.1'', lit ''localhost'', lit ''::1''}"

definition KEY_ENV :: pystr where "KEY_ENV = lit ''DATABRIDGE_ENCRYPTION_KEY''"
definition DATABASE_ENV :: pystr where "DATABASE_ENV = lit ''DATABRIDGE_DB_PATH''"
definition KNOWN_HOSTS_ENV :: pystr where "KNOWN_HOSTS_ENV = lit ''DATABRIDGE_KNOWN_HOSTS''"
definition ALLOWED_HOSTS_ENV :: pystr where "ALLOWED_HOSTS_ENV = lit ''DATABRIDGE_ALLOWED_HOSTS''"
definition REQUIRED_ENV :: "pystr list" where "REQUIRED_ENV = [KEY_ENV, DATABASE_ENV, KNOWN_HOSTS_ENV]"

record settings =
  se_database_path :: path
  se_encryption_key :: bytes
  se_known_hosts_path :: path
  se_allowed_hosts :: "pystr set"

text \<open>\<open>Path.with_suffix\<close>: the suffix of a name starts at its last dot, inside the name.\<close>

definition name_stem :: "pystr \<Rightarrow> pystr" where
  "name_stem name =
     (case rpartition 46 name of (before, found, after) \<Rightarrow>
        if found \<and> before \<noteq> [] \<and> after \<noteq> [] then before else name)"

definition with_suffix :: "path \<Rightarrow> string \<Rightarrow> path result" where
  "with_suffix p suffix =
     (if p = [] then Inl (PyError ''ValueError'')
      else Inr (butlast p @ [name_stem (last p) @ lit suffix]))"

definition request_log_path :: "settings \<Rightarrow> path result" where
  "request_log_path se = with_suffix (se_database_path se) ''.requests.jsonl''"

definition lock_path :: "settings \<Rightarrow> path result" where
  "lock_path se = with_suffix (se_database_path se) ''.owner.lock''"

section \<open>Reading the environment\<close>

type_synonym environment = "pystr \<Rightarrow> pystr option"

text \<open>A step that may note a problem.\<close>

type_synonym ('w, 'a) noting = "(pystr list \<times> 'w os_world_scheme, 'a) io"

definition note_problem :: "pystr \<Rightarrow> ('w, 'a option) noting" where
  "note_problem problem = bind (assign (\<lambda>problems. problems @ [problem])) (\<lambda>_. ret None)"

definition env_value :: "environment \<Rightarrow> pystr \<Rightarrow> pystr option" where
  "env_value env name = (case env name of None \<Rightarrow> None | Some v \<Rightarrow> if v = [] then None else Some v)"

definition required :: "environment \<Rightarrow> pystr \<Rightarrow> ('w, pystr option) noting" where
  "required env name =
     (case env_value env name of
        None \<Rightarrow> note_problem (name @ lit '' is required'')
      | Some v \<Rightarrow> ret (Some v))"

text \<open>\<open>value.encode("ascii")\<close>, which raises a ValueError.\<close>

definition ascii_bytes :: "pystr \<Rightarrow> bytes option" where
  "ascii_bytes v = (if list_all (\<lambda>c. c < 128) v then Some (map of_nat v) else None)"

definition encryption_key :: "(bytes \<Rightarrow> bool) \<Rightarrow> environment \<Rightarrow> ('w, bytes option) noting" where
  "encryption_key fernet env =
     bind (required env KEY_ENV) (\<lambda>v.
     case v of
       None \<Rightarrow> ret None
     | Some v \<Rightarrow>
         (case ascii_bytes v of
            Some key \<Rightarrow> if fernet key then ret (Some key) else note_problem (KEY_ENV @
              lit '' must be the URL-safe base64 Fernet key that make quickstart writes to .env'')
          | None \<Rightarrow> note_problem (KEY_ENV @
              lit '' must be the URL-safe base64 Fernet key that make quickstart writes to .env'')))"

text \<open>A path with a root, or one that starts in the home directory of a user, which is absolute.\<close>

definition has_root :: "pystr \<Rightarrow> bool" where
  "has_root v \<longleftrightarrow> startswith v [47] \<or> names_home v"

definition absolute_path :: "environment \<Rightarrow> pystr \<Rightarrow> ('w, path option) noting" where
  "absolute_path env name =
     bind (required env name) (\<lambda>v.
     case v of
       None \<Rightarrow> ret None
     | Some v \<Rightarrow>
         bind (on_world (expanduser v)) (\<lambda>p.
         if \<not> has_root v then note_problem (name @ lit '' must be an absolute path'')
         else ret (Some p)))"

definition database_path :: "environment \<Rightarrow> ('w, path option) noting" where
  "database_path env =
     bind (absolute_path env DATABASE_ENV) (\<lambda>p.
     case p of
       None \<Rightarrow> ret None
     | Some q \<Rightarrow>
         bind (on_world (path_is_dir q)) (\<lambda>dir.
         if dir then note_problem (DATABASE_ENV @
           lit '' names a directory; it must name the SQLite database file'')
         else ret p))"

definition host_names :: "pystr \<Rightarrow> pystr list" where
  "host_names v = map (\<lambda>host. lower (strip host)) (filter (\<lambda>host. strip host \<noteq> []) (split_on 44 v))"

definition allowed_hosts :: "environment \<Rightarrow> ('w, pystr set option) noting" where
  "allowed_hosts env =
     (case env_value env ALLOWED_HOSTS_ENV of
        None \<Rightarrow> ret (Some DEFAULT_ALLOWED_HOSTS)
      | Some v \<Rightarrow>
          if host_names v = [] then note_problem (ALLOWED_HOSTS_ENV @ lit '' must name at least one host'')
          else ret (Some (set (host_names v))))"

section \<open>Settings from the environment\<close>

text \<open>\<open>"; ".join(problems)\<close>.\<close>

fun semicolons :: "pystr list \<Rightarrow> pystr" where
  "semicolons [] = []"
| "semicolons [p] = p"
| "semicolons (p # q # ps) = p @ lit ''; '' @ semicolons (q # ps)"

definition report_problems :: "environment \<Rightarrow> ('w, settings) noting" where
  "report_problems env =
     bind (if list_ex (\<lambda>name. env_value env name = None) REQUIRED_ENV
           then note_problem (lit ''make quickstart writes missing settings to .env'')
           else ret (None :: unit option)) (\<lambda>_.
     bind self (\<lambda>problems. raise (StartupError (semicolons problems))))"

definition read_settings :: "(bytes \<Rightarrow> bool) \<Rightarrow> environment \<Rightarrow> ('w, settings) noting" where
  "read_settings fernet env =
     bind (encryption_key fernet env) (\<lambda>key.
     bind (database_path env) (\<lambda>database.
     bind (absolute_path env KNOWN_HOSTS_ENV) (\<lambda>known_hosts.
     bind (allowed_hosts env) (\<lambda>hosts.
     case (key, database, known_hosts, hosts) of
       (Some k, Some d, Some h, Some a) \<Rightarrow>
         ret \<lparr>se_database_path = d, se_encryption_key = k, se_known_hosts_path = h, se_allowed_hosts = a\<rparr>
     | _ \<Rightarrow> report_problems env))))"

definition from_env :: "(bytes \<Rightarrow> bool) \<Rightarrow> environment \<Rightarrow> ('w os_world_scheme, settings) io" where
  "from_env fernet env = (\<lambda>w. case read_settings fernet env ([], w) of (r, (_, w')) \<Rightarrow> (r, w'))"

end
