(* ===== verification/Config_Correct.thy ===== *)
theory Config_Correct
  imports Config Local_Correct Frames
begin

text \<open>
  What \<open>Settings.from_env\<close> promises: settings that are valid, or one error that names every setting to
  fix and never depends on the key.
\<close>

section \<open>Faults of single settings\<close>

definition key_fault :: "(bytes \<Rightarrow> bool) \<Rightarrow> environment \<Rightarrow> bool" where
  "key_fault fernet env \<longleftrightarrow>
     (\<nexists>v key. env_value env KEY_ENV = Some v \<and> ascii_bytes v = Some key \<and> fernet key)"

definition path_fault :: "environment \<Rightarrow> pystr \<Rightarrow> bool" where
  "path_fault env name \<longleftrightarrow> (\<nexists>v. env_value env name = Some v \<and> has_root v)"

definition hosts_fault :: "environment \<Rightarrow> bool" where
  "hosts_fault env \<longleftrightarrow> (\<exists>v. env_value env ALLOWED_HOSTS_ENV = Some v \<and> host_names v = [])"

text \<open>The path that a setting names, and whether the database was seen to be a directory.\<close>

definition setting_path :: "environment \<Rightarrow> pystr \<Rightarrow> 'w os_world_scheme \<Rightarrow> path option" where
  "setting_path env name w =
     (case env_value env name of
        None \<Rightarrow> None
      | Some v \<Rightarrow>
          if has_root v then (case fst (expanduser v w) of Inl _ \<Rightarrow> None | Inr p \<Rightarrow> Some p) else None)"

definition names_directory :: "environment \<Rightarrow> 'w os_world_scheme \<Rightarrow> bool" where
  "names_directory env w \<longleftrightarrow>
     (case setting_path env DATABASE_ENV w of None \<Rightarrow> False | Some p \<Rightarrow> fst (path_is_dir p w) = Inr True)"

lemma setting_path_fault: "path_fault env name \<Longrightarrow> setting_path env name w = None"
  by (auto simp: setting_path_def path_fault_def split: option.splits)

lemma setting_path_home: "home w' = home w \<Longrightarrow> setting_path env name w' = setting_path env name w"
  by (auto simp: setting_path_def expanduser_def path_of_text_def has_root_def split: option.splits)

text \<open>The settings to fix.\<close>

definition to_fix :: "(bytes \<Rightarrow> bool) \<Rightarrow> environment \<Rightarrow> bool \<Rightarrow> pystr list" where
  "to_fix fernet env dir =
     (if key_fault fernet env then [KEY_ENV] else []) @
     (if path_fault env DATABASE_ENV \<or> dir then [DATABASE_ENV] else []) @
     (if path_fault env KNOWN_HOSTS_ENV then [KNOWN_HOSTS_ENV] else []) @
     (if hosts_fault env then [ALLOWED_HOSTS_ENV] else [])"

text \<open>The setting that a problem names: its first word.\<close>

definition named_setting :: "pystr \<Rightarrow> pystr" where
  "named_setting problem = takeWhile (\<lambda>c. c \<noteq> 32) problem"

lemma named_setting [simp]:
  "list_all (\<lambda>c. c \<noteq> 32) name \<Longrightarrow> named_setting (name @ 32 # rest) = name"
  by (induction name) (simp_all add: named_setting_def)

lemma setting_names [simp]:
  "list_all (\<lambda>c. c \<noteq> 32) KEY_ENV" "list_all (\<lambda>c. c \<noteq> 32) DATABASE_ENV"
  "list_all (\<lambda>c. c \<noteq> 32) KNOWN_HOSTS_ENV" "list_all (\<lambda>c. c \<noteq> 32) ALLOWED_HOSTS_ENV"
  by (simp_all add: KEY_ENV_def DATABASE_ENV_def KNOWN_HOSTS_ENV_def ALLOWED_HOSTS_ENV_def text_eval)

lemma lit_space: "lit (CHR '' '' # s) = 32 # lit s"
  by (simp add: text_eval)

section \<open>Single readers\<close>

lemma note_problem_run [simp]: "note_problem p (ps, w) = (Inr None, (ps @ [p], w))"
  by (simp add: note_problem_def bind_apply)

lemma encryption_key_run:
  assumes "encryption_key fernet env (ps, w) = (r, (ps', w'))"
  shows "w' = w \<and>
    (if key_fault fernet env then r = Inr None \<and> (\<exists>p. ps' = ps @ [p] \<and> named_setting p = KEY_ENV)
     else ps' = ps \<and> (\<exists>v key. r = Inr (Some key) \<and> env_value env KEY_ENV = Some v \<and> ascii_bytes v = Some key \<and> fernet key))"
  using assms
  by (auto simp: encryption_key_def required_def key_fault_def bind_apply lit_space
      split: option.splits if_splits)

lemma absolute_path_run:
  assumes "absolute_path env name (ps, w) = (r, (ps', w'))" "list_all (\<lambda>c. c \<noteq> 32) name"
  obtains (ok) p where "r = Inr (Some p)" "ps' = ps" "\<not> path_fault env name" "setting_path env name w = Some p" "w' = w"
  | (noted) p where "r = Inr None" "ps' = ps @ [p]" "named_setting p = name" "path_fault env name"
  | (homeless) v where "r = Inl (PyError ''RuntimeError'')" "env_value env name = Some v" "names_home v"
  using assms
  by (auto simp: absolute_path_def required_def path_fault_def bind_apply lit_space setting_path_def expanduser_def
      path_of_text_def split: option.splits if_splits prod.splits sum.splits)

lemma path_is_dir_cases:
  assumes "path_is_dir p w = (r, w')"
  obtains (ok) dir where "r = Inr dir" | (escapes) e where "r = Inl e" "escapes_is_dir e"
  using raisesD [OF raises_path_is_dir] assms by (cases r) auto

lemma keeps_home_is_dir: "keeps home (path_is_dir p)"
proof -
  have "keeps home (sys_stat p)"
    by (rule keepsI) (auto simp: sys_stat_def syscall_def Let_def split: list.splits outcome.splits option.splits)
  then show ?thesis
    unfolding path_is_dir_def by (intro keeps_rules) (auto split: exn.split intro!: keeps_rules)
qed

lemma database_path_run:
  assumes "database_path env (ps, w) = (r, (ps', w'))"
  obtains (ok) p where "r = Inr (Some p)" "ps' = ps" "\<not> path_fault env DATABASE_ENV" "\<not> names_directory env w"
      "setting_path env DATABASE_ENV w = Some p" "home w' = home w"
  | (noted) p where "r = Inr None" "ps' = ps @ [p]" "named_setting p = DATABASE_ENV"
      "path_fault env DATABASE_ENV \<or> names_directory env w"
  | (homeless) v where "r = Inl (PyError ''RuntimeError'')" "env_value env DATABASE_ENV = Some v" "names_home v"
  | (escapes) e where "r = Inl e" "escapes_is_dir e"
proof -
  obtain x ps1 w1 where run: "absolute_path env DATABASE_ENV (ps, w) = (x, (ps1, w1))" by (rule prod_cases3)
  from run setting_names(2) show thesis
  proof (cases rule: absolute_path_run)
    case named: (ok p)
    obtain y w2 where dir: "path_is_dir p w = (y, w2)" by (rule prod.exhaust)
    then show thesis
    proof (cases rule: path_is_dir_cases)
      case (ok d)
      have "names_directory env w = d" using named(4) dir ok by (simp add: names_directory_def)
      moreover have "home w2 = home w" using keepsD [OF keeps_home_is_dir dir] .
      ultimately show thesis
        using assms run dir ok named that(1,2) by (cases d) (auto simp: database_path_def bind_apply on_world_apply lit_space)
    qed (use assms run dir named that(4) in \<open>auto simp: database_path_def bind_apply on_world_apply\<close>)
  qed (use assms run that in \<open>auto simp: database_path_def bind_apply\<close>)
qed

definition hosts_named :: "environment \<Rightarrow> pystr set \<Rightarrow> bool" where
  "hosts_named env hosts \<longleftrightarrow>
     hosts = (case env_value env ALLOWED_HOSTS_ENV of None \<Rightarrow> DEFAULT_ALLOWED_HOSTS | Some v \<Rightarrow> set (host_names v))"

lemma allowed_hosts_run:
  assumes "allowed_hosts env (ps, w) = (r, (ps', w'))"
  shows "w' = w \<and>
    (if hosts_fault env then r = Inr None \<and> (\<exists>p. ps' = ps @ [p] \<and> named_setting p = ALLOWED_HOSTS_ENV)
     else ps' = ps \<and> (\<exists>hosts. r = Inr (Some hosts) \<and> hosts_named env hosts \<and> hosts \<noteq> {} \<and>
       (\<forall>h\<in>hosts. h \<noteq> [] \<and> lower h = h)))"
proof -
  have default: "DEFAULT_ALLOWED_HOSTS \<noteq> {} \<and> (\<forall>h\<in>DEFAULT_ALLOWED_HOSTS. h \<noteq> [] \<and> lower h = h)"
    by (simp add: DEFAULT_ALLOWED_HOSTS_def lit_Cons cp_def lower_Cons lower_cp_def)
  have names: "h \<noteq> [] \<and> lower h = h" if "h \<in> set (host_names v)" for h v
    using that by (auto simp: host_names_def)
  from assms default names show ?thesis
    by (cases "env_value env ALLOWED_HOSTS_ENV")
      (auto simp: allowed_hosts_def hosts_fault_def hosts_named_def lit_space split: if_splits)
qed

section \<open>All settings\<close>

text \<open>Why reading the settings may end in an error that names no setting.\<close>

definition unreported :: "environment \<Rightarrow> exn \<Rightarrow> bool" where
  "unreported env e \<longleftrightarrow>
     e = PyError ''RuntimeError'' \<and>
       (\<exists>name\<in>{DATABASE_ENV, KNOWN_HOSTS_ENV}. \<exists>v. env_value env name = Some v \<and> names_home v) \<or>
     escapes_is_dir e"

text \<open>The hint that follows the problems when a required setting is missing.\<close>

definition quickstart_hint :: "environment \<Rightarrow> pystr list" where
  "quickstart_hint env =
     (if \<exists>name\<in>set REQUIRED_ENV. env_value env name = None
      then [lit ''make quickstart writes missing settings to .env''] else [])"

lemma report_problems_run:
  "report_problems env (ps, w) =
     (Inl (StartupError (semicolons (ps @ quickstart_hint env))), (ps @ quickstart_hint env, w))"
  by (auto simp: report_problems_def quickstart_hint_def list_ex_iff bind_apply)

lemma parts_named:
  assumes key: "encryption_key fernet env ([], w) = (Inr k, (ps1, w1))"
    and db: "database_path env (ps1, w1) = (Inr d, (ps2, w2))"
    and kh: "absolute_path env KNOWN_HOSTS_ENV (ps2, w2) = (Inr h, (ps3, w3))"
    and hosts: "allowed_hosts env (ps3, w3) = (Inr a, (ps4, w4))"
  shows "map named_setting ps4 = to_fix fernet env (names_directory env w) \<and>
    (to_fix fernet env (names_directory env w) = [] \<longleftrightarrow> k \<noteq> None \<and> d \<noteq> None \<and> h \<noteq> None \<and> a \<noteq> None)"
proof -
  obtain q1 where q1: "ps1 = q1" "map named_setting q1 = (if key_fault fernet env then [KEY_ENV] else [])"
      "k = None \<longleftrightarrow> key_fault fernet env" "w1 = w"
    using encryption_key_run [OF key] by (auto split: if_splits)
  obtain q2 where q2: "ps2 = ps1 @ q2"
      "map named_setting q2 = (if path_fault env DATABASE_ENV \<or> names_directory env w then [DATABASE_ENV] else [])"
      "d = None \<longleftrightarrow> path_fault env DATABASE_ENV \<or> names_directory env w"
    using db
  proof (cases rule: database_path_run)
    case (ok p)
    then show ?thesis by (intro that [of "[]"]) (auto simp: q1(4))
  next
    case (noted p)
    then show ?thesis by (intro that [of "[p]"]) (auto simp: q1(4))
  qed auto
  obtain q3 where q3: "ps3 = ps2 @ q3"
      "map named_setting q3 = (if path_fault env KNOWN_HOSTS_ENV then [KNOWN_HOSTS_ENV] else [])"
      "h = None \<longleftrightarrow> path_fault env KNOWN_HOSTS_ENV"
    using kh setting_names(3) by (cases rule: absolute_path_run) (use that in auto)
  obtain q4 where q4: "ps4 = ps3 @ q4"
      "map named_setting q4 = (if hosts_fault env then [ALLOWED_HOSTS_ENV] else [])"
      "a = None \<longleftrightarrow> hosts_fault env"
    using allowed_hosts_run [OF hosts] by (auto split: if_splits)
  show ?thesis by (simp add: to_fix_def q1(1-3) q2 q3 q4)
qed

text \<open>How a run of all readers ends: in an error of the system, in settings, or in the report.\<close>

lemma from_env_cases:
  assumes "from_env fernet env w = (r, w')"
  obtains (escapes) e where "r = Inl e" "unreported env e"
  | (settings) k d h a where
      "r = Inr \<lparr>se_database_path = d, se_encryption_key = k, se_known_hosts_path = h, se_allowed_hosts = a\<rparr>"
      "to_fix fernet env (names_directory env w) = []"
      "\<exists>v. env_value env KEY_ENV = Some v \<and> ascii_bytes v = Some k \<and> fernet k"
      "setting_path env DATABASE_ENV w = Some d" "setting_path env KNOWN_HOSTS_ENV w = Some h"
      "hosts_named env a" "a \<noteq> {}" "\<forall>h\<in>a. h \<noteq> [] \<and> lower h = h"
  | (report) problems where "r = Inl (StartupError (semicolons (problems @ quickstart_hint env)))"
      "to_fix fernet env (names_directory env w) \<noteq> []"
      "map named_setting problems = to_fix fernet env (names_directory env w)"
proof -
  obtain k ps1 w1 where key: "encryption_key fernet env ([], w) = (k, (ps1, w1))" by (rule prod_cases3)
  obtain d ps2 w2 where db: "database_path env (ps1, w1) = (d, (ps2, w2))" by (rule prod_cases3)
  obtain h ps3 w3 where kh: "absolute_path env KNOWN_HOSTS_ENV (ps2, w2) = (h, (ps3, w3))" by (rule prod_cases3)
  obtain a ps4 w4 where hosts: "allowed_hosts env (ps3, w3) = (a, (ps4, w4))" by (rule prod_cases3)
  from encryption_key_run [OF key] obtain k' where k: "k = Inr k'" by (auto split: if_splits)
  from allowed_hosts_run [OF hosts] obtain a' where a: "a = Inr a'" by (auto split: if_splits)
  consider (database) e where "d = Inl e" "r = Inl e" | (trust) e where "h = Inl e" "r = Inl e"
    | (read) d' h' where "d = Inr d'" "h = Inr h'"
    using assms by (cases d; cases h) (simp_all add: from_env_def read_settings_def bind_apply key db kh k)
  then show thesis
  proof cases
    case (database e)
    have "unreported env e"
      using db
      by (cases rule: database_path_run) (use database in \<open>auto simp: unreported_def\<close>)
    with database(2) show thesis by (rule escapes)
  next
    case (trust e)
    have "unreported env e"
      using kh setting_names(3)
      by (cases rule: absolute_path_run) (use trust in \<open>auto simp: unreported_def\<close>)
    with trust(2) show thesis by (rule escapes)
  next
    case (read d' h')
    let ?fix = "to_fix fernet env (names_directory env w)"
    have named: "map named_setting ps4 = ?fix" and
      all: "?fix = [] \<longleftrightarrow> k' \<noteq> None \<and> d' \<noteq> None \<and> h' \<noteq> None \<and> a' \<noteq> None"
      using parts_named [of fernet env w k' ps1 w1 d' ps2 w2 h' ps3 w3 a' ps4 w4] key db kh hosts k a read by simp_all
    have r: "r = (case (k', d', h', a') of
         (Some k, Some d, Some h, Some a) \<Rightarrow>
           Inr \<lparr>se_database_path = d, se_encryption_key = k, se_known_hosts_path = h, se_allowed_hosts = a\<rparr>
       | _ \<Rightarrow> Inl (StartupError (semicolons (ps4 @ quickstart_hint env))))"
      using assms
      by (simp add: from_env_def read_settings_def bind_apply key db kh hosts k read a report_problems_run split: option.splits)
    show thesis
    proof (cases "?fix = []")
      case True
      with all obtain k'' d'' h'' a'' where some: "k' = Some k''" "d' = Some d''" "h' = Some h''" "a' = Some a''" by auto
      have w1: "w1 = w" using encryption_key_run [OF key] by simp
      have paths: "setting_path env DATABASE_ENV w = Some d''" "home w2 = home w"
        using db by (cases rule: database_path_run; use read some w1 in auto)+
      have "setting_path env KNOWN_HOSTS_ENV w2 = Some h''"
        using kh setting_names(3) by (cases rule: absolute_path_run) (use read some in auto)
      with setting_path_home [OF paths(2)] have "setting_path env KNOWN_HOSTS_ENV w = Some h''" by simp
      with True paths(1) encryption_key_run [OF key] allowed_hosts_run [OF hosts] some k a r
      show thesis by (intro settings [where k = k'' and d = d'' and h = h'' and a = a'']) (auto split: if_splits)
    next
      case False
      with all r have "r = Inl (StartupError (semicolons (ps4 @ quickstart_hint env)))"
        by (auto split: option.splits)
      then show thesis using False named by (rule report)
    qed
  qed
qed

text \<open>
  C9. \<open>Settings.from_env\<close> returns the settings that the environment names (a key that Fernet accepts,
  two paths with a root, of which the database is not seen to be a directory, and a non-empty set of
  host names in lower case, none of them empty), or it raises one \<open>StartupError\<close> whose problems name
  exactly the settings to fix, each once and in order, with the hint to quickstart exactly if a required
  setting is missing. The only other errors are the RuntimeError of a home directory that does not
  exist and what \<open>Path.is_dir\<close> lets through.
\<close>

theorem from_env_contract:
  assumes "from_env fernet env w = (r, w')"
  shows "case r of
      Inr se \<Rightarrow> to_fix fernet env (names_directory env w) = [] \<and>
        (\<exists>v. env_value env KEY_ENV = Some v \<and> ascii_bytes v = Some (se_encryption_key se) \<and> fernet (se_encryption_key se)) \<and>
        setting_path env DATABASE_ENV w = Some (se_database_path se) \<and>
        setting_path env KNOWN_HOSTS_ENV w = Some (se_known_hosts_path se) \<and>
        hosts_named env (se_allowed_hosts se) \<and>
        se_allowed_hosts se \<noteq> {} \<and> (\<forall>h\<in>se_allowed_hosts se. h \<noteq> [] \<and> lower h = h)
    | Inl e \<Rightarrow> unreported env e \<or>
        to_fix fernet env (names_directory env w) \<noteq> [] \<and>
        (\<exists>problems. map named_setting problems = to_fix fernet env (names_directory env w) \<and>
          e = StartupError (semicolons (problems @ quickstart_hint env)))"
  using assms by (cases rule: from_env_cases) auto

definition demo_env :: environment where
  "demo_env = map_of
     [(KEY_ENV, lit ''key''), (DATABASE_ENV, lit ''/state/databridge.db''), (KNOWN_HOSTS_ENV, lit ''/state/known_hosts''),
      (ALLOWED_HOSTS_ENV, lit '' Bridge.local ,'')]"

lemma env_names [simp]:
  "KEY_ENV \<noteq> DATABASE_ENV" "KEY_ENV \<noteq> KNOWN_HOSTS_ENV" "KEY_ENV \<noteq> ALLOWED_HOSTS_ENV"
  "DATABASE_ENV \<noteq> KNOWN_HOSTS_ENV" "DATABASE_ENV \<noteq> ALLOWED_HOSTS_ENV" "KNOWN_HOSTS_ENV \<noteq> ALLOWED_HOSTS_ENV"
  "DATABASE_ENV \<noteq> KEY_ENV" "KNOWN_HOSTS_ENV \<noteq> KEY_ENV" "ALLOWED_HOSTS_ENV \<noteq> KEY_ENV"
  "KNOWN_HOSTS_ENV \<noteq> DATABASE_ENV" "ALLOWED_HOSTS_ENV \<noteq> DATABASE_ENV" "ALLOWED_HOSTS_ENV \<noteq> KNOWN_HOSTS_ENV"
  by (simp_all add: KEY_ENV_def DATABASE_ENV_def KNOWN_HOSTS_ENV_def ALLOWED_HOSTS_ENV_def)

lemma demo_values [simp]:
  "env_value demo_env KEY_ENV = Some (lit ''key'')"
  "env_value demo_env DATABASE_ENV = Some (lit ''/state/databridge.db'')"
  "env_value demo_env KNOWN_HOSTS_ENV = Some (lit ''/state/known_hosts'')"
  "env_value demo_env ALLOWED_HOSTS_ENV = Some (lit '' Bridge.local ,'')"
  by (simp_all add: demo_env_def env_value_def)

lemma rooted [simp]: "has_root (47 # text)" "\<not> names_home (47 # text)"
  by (simp_all add: has_root_def names_home_def)

lemma demo_run:
  "from_env (\<lambda>_. True) demo_env demo_world =
     (Inr \<lparr>se_database_path = [lit ''state'', lit ''databridge.db''], se_encryption_key = map of_nat (lit ''key''),
           se_known_hosts_path = [lit ''state'', lit ''known_hosts''], se_allowed_hosts = {lit ''bridge.local''}\<rparr>, demo_world)"
proof -
  have key: "encryption_key (\<lambda>_. True) demo_env (ps, w) = (Inr (Some (map of_nat (lit ''key''))), (ps, w))" for ps and w :: os_world
    by (simp add: encryption_key_def required_def bind_apply ascii_bytes_def lit_Cons cp_def)
  have "components (lit ''/state/databridge.db'') = [lit ''state'', lit ''databridge.db'']"
    "components (lit ''/state/known_hosts'') = [lit ''state'', lit ''known_hosts'']"
    by (simp_all add: components_def lit_Cons cp_def)
  then have path: "absolute_path demo_env DATABASE_ENV (ps, w) = (Inr (Some [lit ''state'', lit ''databridge.db'']), (ps, w))"
    "absolute_path demo_env KNOWN_HOSTS_ENV (ps, w) = (Inr (Some [lit ''state'', lit ''known_hosts'']), (ps, w))"
    for ps and w :: os_world
    by (simp_all add: absolute_path_def required_def bind_apply on_world_apply expanduser_def path_of_text_def lit_Cons [of "CHR ''/''"] cp_def)
  have dir: "path_is_dir [lit ''state'', lit ''databridge.db''] demo_world = (Inr False, demo_world)"
    by (simp add: path_is_dir_def sys_stat_def syscall_def bind_apply try_except_apply file_at_def lookup_def demo_fs_def ignored_errnos_def)
  have hosts: "allowed_hosts demo_env (ps, w) = (Inr (Some {lit ''bridge.local''}), (ps, w))" for ps and w :: os_world
    by (simp add: allowed_hosts_def host_names_def text_eval)
  show ?thesis
    by (simp add: from_env_def read_settings_def bind_apply key path hosts dir database_path_def on_world_apply)
qed

theorem from_env_contract_witness:
  "\<exists>se w'. from_env (\<lambda>_. True) demo_env demo_world = (Inr se, w') \<and>
     to_fix (\<lambda>_. True) demo_env (names_directory demo_env demo_world) = [] \<and> [] \<notin> se_allowed_hosts se"
  using from_env_contract [OF demo_run] demo_run by (auto dest: sym [of "[]"])

text \<open>A home directory that does not exist is not reported as a setting to fix.\<close>

lemma homeless_escapes:
  assumes "env_value env KEY_ENV = None" "env_value env DATABASE_ENV = None"
    and "env_value env KNOWN_HOSTS_ENV = Some (lit ''~nobody/known_hosts'')" "home w (lit ''nobody'') = None"
  shows "from_env fernet env w = (Inl (PyError ''RuntimeError''), w)"
proof -
  have "components (lit ''~nobody/known_hosts'') = [lit ''~nobody'', lit ''known_hosts'']"
    by (simp add: components_def lit_Cons cp_def)
  then have "names_home (lit ''~nobody/known_hosts'')" "tl (hd (components (lit ''~nobody/known_hosts''))) = lit ''nobody''"
    by (simp_all add: names_home_def lit_Cons cp_def)
  with assms show ?thesis
    by (simp add: from_env_def read_settings_def bind_apply on_world_apply encryption_key_def database_path_def
        absolute_path_def required_def expanduser_def)
qed

section \<open>The key stays out of the message\<close>

text \<open>
  Two keys that Fernet does not accept lead to the same run: neither the message nor anything else that
  reading the settings does depends on them.
\<close>

theorem from_env_hides_key:
  assumes "k1 \<noteq> []" "k2 \<noteq> []"
    and "key_fault fernet (env(KEY_ENV := Some k1))" "key_fault fernet (env(KEY_ENV := Some k2))"
  shows "from_env fernet (env(KEY_ENV := Some k1)) w = from_env fernet (env(KEY_ENV := Some k2)) w"
proof -
  have key: "encryption_key fernet (env(KEY_ENV := Some k)) (ps, w) = (Inr None, (ps @ [KEY_ENV @
      lit '' must be the URL-safe base64 Fernet key that make quickstart writes to .env''], w))"
    if "k \<noteq> []" "key_fault fernet (env(KEY_ENV := Some k))" for k ps w
    using that by (auto simp: encryption_key_def required_def key_fault_def env_value_def bind_apply split: option.split)
  have "env_value (env(KEY_ENV := Some k)) name = env_value env name" if "name \<noteq> KEY_ENV" for k name
    using that by (simp add: env_value_def)
  then have rest: "absolute_path (env(KEY_ENV := Some k)) KNOWN_HOSTS_ENV = absolute_path env KNOWN_HOSTS_ENV"
    "database_path (env(KEY_ENV := Some k)) = database_path env"
    "allowed_hosts (env(KEY_ENV := Some k)) = allowed_hosts env" for k
    by (simp_all add: absolute_path_def database_path_def allowed_hosts_def required_def fun_eq_iff)
  have report: "report_problems (env(KEY_ENV := Some k1)) = report_problems (env(KEY_ENV := Some k2))"
    using assms(1,2) by (simp add: report_problems_def REQUIRED_ENV_def env_value_def)
  show ?thesis
    by (simp add: from_env_def read_settings_def bind_apply key [OF assms(1,3)] key [OF assms(2,4)] rest report)
qed

end
