(* ===== verification/Startup.thy ===== *)
theory Startup
  imports Config Request_Log Store
begin

text \<open>
  How a process becomes the one that serves: the advisory lock of the database (\<open>DatabaseOwnerLock\<close> of
  \<^verbatim>\<open>databridge/store.py\<close>), \<open>open_app\<close> of \<^verbatim>\<open>databridge/api.py\<close>, and the commands of
  \<^verbatim>\<open>databridge/__main__.py\<close>.

  The system keeps for each file which open descriptor of which process holds its \<open>flock\<close> lock.
\<close>

section \<open>Advisory locks\<close>

record lock_world = log_world +
  lk_table :: "nat \<rightharpoonup> nat \<times> nat"
  lk_process :: nat

text \<open>\<open>BlockingIOError\<close>.\<close>

definition EAGAIN :: errno where "EAGAIN = EOTHER 11"

definition sys_flock :: "nat \<Rightarrow> ('w lock_world_scheme, unit) io" where
  "sys_flock d = on_fd d (\<lambda>_ h w.
     case lk_table w (of_inode h) of
       None \<Rightarrow> (Inr (), w\<lparr>lk_table := (lk_table w)(of_inode h \<mapsto> (lk_process w, d))\<rparr>)
     | Some holder \<Rightarrow>
         if holder = (lk_process w, d) then (Inr (), w) else (Inl (OSError EAGAIN), w))"

definition release_lock :: "nat \<times> nat \<Rightarrow> (nat \<rightharpoonup> nat \<times> nat) \<Rightarrow> (nat \<rightharpoonup> nat \<times> nat)" where
  "release_lock holder t = (\<lambda>i. if t i = Some holder then None else t i)"

definition sys_unlock :: "nat \<Rightarrow> ('w lock_world_scheme, unit) io" where
  "sys_unlock d = on_fd d (\<lambda>_ _ w. (Inr (), w\<lparr>lk_table := release_lock (lk_process w, d) (lk_table w)\<rparr>))"

text \<open>Closing a descriptor gives its lock back, also when the call reports an error.\<close>

definition close_file :: "nat \<Rightarrow> ('w lock_world_scheme, unit) io" where
  "close_file d = (\<lambda>w. sys_close d (w\<lparr>lk_table := release_lock (lk_process w, d) (lk_table w)\<rparr>))"

section \<open>The owner lock\<close>

record owner_lock =
  ol_path :: path
  ol_descriptor :: "nat option"

definition lock_refused :: "path \<Rightarrow> exn \<Rightarrow> exn" where
  "lock_refused p e =
     (if e = OSError EAGAIN then
        StartupError (lit ''Another DataBridge process is using the database locked by '' @ path_text p @
          lit ''; stop that process before starting another'')
      else e)"

definition DatabaseOwnerLock_enter :: "(owner_lock \<times> 'w lock_world_scheme, unit) io" where
  "DatabaseOwnerLock_enter =
     bind self (\<lambda>l.
     bind (on_world (private_directory (butlast (ol_path l)))) (\<lambda>_.
     bind (on_world (sys_open_create (ol_path l) 384)) (\<lambda>d.
     bind (on_world (try_except (sys_flock d)
             (\<lambda>e. bind (close_file d) (\<lambda>_. raise (lock_refused (ol_path l) e))))) (\<lambda>_.
     bind (on_world (try_except (sys_fchmod d 384)
             (\<lambda>e. bind (close_file d) (\<lambda>_. raise e)))) (\<lambda>_.
     assign (\<lambda>l. l\<lparr>ol_descriptor := Some d\<rparr>))))))"

definition DatabaseOwnerLock_exit :: "(owner_lock \<times> 'w lock_world_scheme, unit) io" where
  "DatabaseOwnerLock_exit =
     bind self (\<lambda>l.
     case ol_descriptor l of
       None \<Rightarrow> ret ()
     | Some d \<Rightarrow>
         bind (assign (\<lambda>l. l\<lparr>ol_descriptor := None\<rparr>)) (\<lambda>_.
         on_world (try_finally (sys_unlock d) (close_file d))))"

section \<open>Opening the application\<close>

text \<open>\<open>store.initialize()\<close> and the open request log, under the lock.\<close>

definition open_state :: "connection_store \<Rightarrow> settings \<Rightarrow> ('w lock_world_scheme, request_log) io" where
  "open_state st se =
     bind (initialize st) (\<lambda>_.
     bind (of_result (request_log_path se)) (\<lambda>_.
     bind (of_result (RequestLog MAX_LOG_BYTES LOG_BACKUPS)) (\<lambda>rl w.
     case RequestLog_open (rl, w) of
       (Inl e, (_, w')) \<Rightarrow> (Inl e, w')
     | (Inr _, (rl', w')) \<Rightarrow> (Inr rl', w'))))"

text \<open>
  \<open>open_app\<close> up to its \<open>yield\<close>, and what follows it. A failure behind the lock leaves the block of the
  lock, which gives it back.
\<close>

definition open_app_enter ::
  "connection_store \<Rightarrow> settings \<Rightarrow> ('w lock_world_scheme, owner_lock \<times> request_log) io" where
  "open_app_enter st se =
     bind (of_result (lock_path se)) (\<lambda>p w.
     case DatabaseOwnerLock_enter (\<lparr>ol_path = p, ol_descriptor = None\<rparr>, w) of
       (Inl e, (_, w1)) \<Rightarrow> (Inl e, w1)
     | (Inr _, (l, w1)) \<Rightarrow>
         (case open_state st se w1 of
            (Inr rl, w2) \<Rightarrow> (Inr (l, rl), w2)
          | (Inl e, w2) \<Rightarrow>
              (case DatabaseOwnerLock_exit (l, w2) of
                 (Inl e', (_, w3)) \<Rightarrow> (Inl e', w3)
               | (Inr _, (_, w3)) \<Rightarrow> (Inl e, w3))))"

definition open_app_exit :: "((owner_lock \<times> request_log) \<times> 'w lock_world_scheme, unit) io" where
  "open_app_exit =
     (\<lambda>((l, rl), w). case RequestLog_close (rl, w) of
        (r, (rl', w1)) \<Rightarrow>
          (case DatabaseOwnerLock_exit (l, w1) of
             (Inl e, (l', w2)) \<Rightarrow> (Inl e, ((l', rl'), w2))
           | (Inr _, (l', w2)) \<Rightarrow> (r, ((l', rl'), w2))))"

section \<open>Commands\<close>

text \<open>\<open>_tcp_port\<close>; \<open>argparse\<close> reports its error.\<close>

definition tcp_port :: "pystr \<Rightarrow> nat result" where
  "tcp_port value =
     (if value \<noteq> [] \<and> list_all is_digit value \<and> 1 \<le> nat_of_digits value \<and> nat_of_digits value \<le> 65535
      then Inr (nat_of_digits value)
      else Inl (PyError ''ArgumentTypeError''))"

text \<open>
  \<open>_serve\<close>: the message of \<open>sys.exit\<close>, if any. \<open>store\<close> makes the store of the settings, with the cipher
  of their key, and \<open>run\<close> is the server.
\<close>

definition serve_command ::
  "(bytes \<Rightarrow> bool) \<Rightarrow> environment \<Rightarrow> (settings \<Rightarrow> connection_store) \<Rightarrow>
   ((owner_lock \<times> request_log) \<times> 'w lock_world_scheme, unit) io \<Rightarrow>
   ('w lock_world_scheme, pystr option) io" where
  "serve_command fernet env store run =
     (\<lambda>w. case bind (from_env fernet env) (\<lambda>se. open_app_enter (store se) se) w of
        (Inl (StartupError m), w') \<Rightarrow> (Inr (Some (lit ''DataBridge cannot start: '' @ m)), w')
      | (Inl e, w') \<Rightarrow> (Inl e, w')
      | (Inr app, w') \<Rightarrow>
          (case try_finally run open_app_exit (app, w') of
             (Inl e, (_, w'')) \<Rightarrow> (Inl e, w'')
           | (Inr _, (_, w'')) \<Rightarrow> (Inr None, w'')))"

text \<open>\<open>_print_request_log_path\<close>: the message of \<open>sys.exit\<close>, or the path it prints.\<close>

definition print_request_log_path ::
  "(bytes \<Rightarrow> bool) \<Rightarrow> environment \<Rightarrow> ('w os_world_scheme, pystr + pystr) io" where
  "print_request_log_path fernet env =
     (\<lambda>w. case from_env fernet env w of
        (Inl (StartupError m), w') \<Rightarrow> (Inr (Inl (lit ''Cannot locate the request log: '' @ m)), w')
      | (Inl e, w') \<Rightarrow> (Inl e, w')
      | (Inr se, w') \<Rightarrow> (map_sum id (Inr \<circ> path_text) (request_log_path se), w'))"

end
