(* ===== verification/Startup_Correct.thy ===== *)
theory Startup_Correct
  imports Startup Api_Within
begin

text \<open>
  One process owns the database: the lock of \<open>open_app\<close> under any faults and any schedule of starts,
  stops and deaths of processes.
\<close>

section \<open>The lock file stays\<close>

text \<open>
  The lock file is at \<open>q\<close>, to which its path \<open>p\<close> resolves; once it exists, no other process of the
  machine removes or replaces it, or the links on the way to it. \<open>i\<close> is its inode, if it exists.
\<close>

definition keeps_entry :: "path \<Rightarrow> path \<Rightarrow> (fs \<Rightarrow> fs) \<Rightarrow> bool" where
  "keeps_entry p q g \<longleftrightarrow>
     (\<forall>f. links (g f) p = links f p \<and> (\<forall>i. lookup f q = Some i \<longrightarrow> lookup (g f) q = Some i))"

definition lock_file :: "path \<Rightarrow> path \<Rightarrow> nat option \<Rightarrow> 'w os_world_scheme \<Rightarrow> bool" where
  "lock_file p q i w \<longleftrightarrow> links (fs w) p = Some q \<and> (i \<noteq> None \<longrightarrow> lookup (fs w) q = i) \<and>
     (\<forall>t\<in>set (ticks w). keeps_entry p q (interfere t))"

text \<open>
  The state that a start must leave alone: the lock file, the locks \<open>t\<close>, and the descriptors below
  \<open>n\<close>, which are \<open>F\<close>.
\<close>

record scene =
  sc_path :: path
  sc_place :: path
  sc_inode :: "nat option"
  sc_table :: "nat \<rightharpoonup> nat \<times> nat"
  sc_next :: nat
  sc_fds :: "nat \<rightharpoonup> open_file"
  sc_process :: nat

definition settled :: "scene \<Rightarrow> 'w lock_world_scheme \<Rightarrow> bool" where
  "settled s w \<longleftrightarrow> lock_file (sc_path s) (sc_place s) (sc_inode s) w \<and> lk_table w = sc_table s \<and>
     lk_process w = sc_process s \<and> sc_next s \<le> next_fd w \<and> (\<forall>d. d < sc_next s \<longrightarrow> fds w d = sc_fds s d)"

lemma settled_tick:
  assumes "settled s w" "ticks w = t # ts"
  shows "settled s (w\<lparr>ticks := ts, fs := interfere t (fs w)\<rparr>)"
  using assms by (cases "sc_inode s") (auto simp: settled_def lock_file_def keeps_entry_def)

lemma settled_fs:
  assumes "settled s w" "links f = links (fs w)" "\<And>i. lookup (fs w) (sc_place s) = Some i \<Longrightarrow> lookup f (sc_place s) = Some i"
  shows "settled s (w\<lparr>fs := f\<rparr>)"
  using assms by (cases "sc_inode s") (auto simp: settled_def lock_file_def)

lemma settled_fds: "settled s w \<Longrightarrow> sc_next s \<le> d \<Longrightarrow> settled s (w\<lparr>fds := (fds w)(d := h)\<rparr>)"
  by (auto simp: settled_def lock_file_def)

lemma settled_new_fd:
  "settled s w \<Longrightarrow> settled s (w\<lparr>fds := (fds w)(next_fd w \<mapsto> h), next_fd := Suc (next_fd w)\<rparr>)"
  by (auto simp: settled_def lock_file_def)

abbreviation quiet :: "scene \<Rightarrow> ('w lock_world_scheme, 'a) io \<Rightarrow> bool" where
  "quiet s \<equiv> within (settled s) (\<lambda>_. True)"

lemma quiet_syscall:
  assumes "\<And>r w x w'. settled s w \<Longrightarrow> body r w = (x, w') \<Longrightarrow> settled s w'" shows "quiet s (syscall body)"
proof (rule withinI)
  fix w x w' assume w: "settled s w" and run: "syscall body w = (x, w')"
  show "settled s w' \<and> (\<forall>e. x = Inl e \<longrightarrow> True)"
  proof (cases "ticks w")
    case Nil
    with run assms [OF w] show ?thesis by (simp add: syscall_def)
  next
    case (Cons t ts)
    from settled_tick [OF w Cons] run Cons assms show ?thesis
      by (auto simp: syscall_def Let_def split: outcome.splits)
  qed
qed

lemma quiet_on_fd:
  "(\<And>r h w x w'. settled s w \<Longrightarrow> fds w d = Some h \<Longrightarrow> body r h w = (x, w') \<Longrightarrow> settled s w') \<Longrightarrow> quiet s (on_fd d body)"
  unfolding on_fd_def by (rule quiet_syscall) (auto split: option.splits)

lemma quiet_stat [within_rules]: "quiet s (sys_stat p)"
  unfolding sys_stat_def by (rule quiet_syscall) (auto split: option.splits)

lemma quiet_mkdir [within_rules]: "quiet s (sys_mkdir p m)"
  unfolding sys_mkdir_def
  by (rule quiet_syscall) (auto simp: Let_def split: option.splits if_splits intro!: settled_fs)

lemma quiet_fchmod [within_rules]: "quiet s (sys_fchmod d m)"
  unfolding sys_fchmod_def by (rule quiet_on_fd) (auto simp: Let_def intro!: settled_fs)

lemma quiet_close: "sc_next s \<le> d \<Longrightarrow> quiet s (sys_close d)"
proof (rule withinI)
  fix w x w' assume d: "sc_next s \<le> d" and w: "settled s w" and run: "sys_close d w = (x, w')"
  have "quiet s (syscall (\<lambda>_ w'. if fds w d = None then (Inl (OSError EBADF), w') else (Inr (), w')))"
    by (rule quiet_syscall) (auto split: if_splits)
  from withinD [OF this settled_fds [OF w d]] run show "settled s w' \<and> (\<forall>e. x = Inl e \<longrightarrow> True)"
    by (simp add: sys_close_def)
qed

lemma quiet_is_dir [within_rules]: "quiet s (path_is_dir p)" and quiet_exists [within_rules]: "quiet s (path_exists p)"
  unfolding path_is_dir_def path_exists_def
  by (rule within_try_except [where Q = "\<lambda>_. True"]; (intro within_rules; simp)?; auto split: exn.split intro!: within_rules)+

lemma quiet_path_mkdir [within_rules]: "quiet s (path_mkdir p m parents exist_ok)"
proof (induction p m parents exist_ok rule: path_mkdir.induct)
  case (1 p m parents exist_ok)
  show ?case
    by (subst path_mkdir.simps, rule within_try_except [where Q = "\<lambda>_. True"], rule quiet_mkdir)
      (intro within_if within_bind within_raise within_ret quiet_is_dir 1; simp)
qed

lemma quiet_private_directory [within_rules]: "quiet s (private_directory p)"
  unfolding private_directory_def by (intro within_rules)

section \<open>Taking and giving back the lock\<close>

text \<open>The locks of a scene are held by descriptors that exist.\<close>

definition fresh_locks :: "scene \<Rightarrow> bool" where
  "fresh_locks s \<longleftrightarrow> (\<forall>i a d. sc_table s i = Some (a, d) \<longrightarrow> d < sc_next s)"

text \<open>The scene in which descriptor \<open>d\<close> holds the lock of the file that \<open>h\<close> has open.\<close>

definition held :: "nat \<Rightarrow> open_file \<Rightarrow> (nat \<rightharpoonup> open_file) \<Rightarrow> scene \<Rightarrow> scene" where
  "held d h F s =
     s\<lparr>sc_inode := Some (of_inode h), sc_next := Suc d, sc_fds := F,
       sc_table := (sc_table s)(of_inode h \<mapsto> (sc_process s, d))\<rparr>"

lemma release_lock_fresh: "fresh_locks s \<Longrightarrow> sc_next s \<le> d \<Longrightarrow> release_lock (a, d) (sc_table s) = sc_table s"
  by (fastforce simp: release_lock_def fresh_locks_def fun_eq_iff)

lemma release_lock_twice [simp]: "release_lock x (release_lock x t) = release_lock x t"
  by (simp add: release_lock_def fun_eq_iff)

lemma release_lock_held:
  "fresh_locks s \<Longrightarrow> sc_next s \<le> d \<Longrightarrow> sc_table s i = None \<Longrightarrow>
   release_lock (sc_process s, d) ((sc_table s)(i \<mapsto> (sc_process s, d))) = sc_table s"
  by (fastforce simp: release_lock_def fresh_locks_def fun_eq_iff)

lemma open_create_settled:
  assumes "settled s w" "sys_open_create (sc_path s) m w = (r, w')"
  obtains (fail) e where "r = Inl e" "settled s w'"
  | (ok) d h where "r = Inr d" "sc_next s \<le> d" "next_fd w' = Suc d" "fds w' d = Some h"
      "sc_inode s = None \<or> sc_inode s = Some (of_inode h)" "settled s w'"
      "lookup (fs w') (sc_place s) = Some (of_inode h)"
proof -
  let ?body = "\<lambda>w. case links (fs w) (sc_path s) of
       None \<Rightarrow> (Inl (OSError ELOOP), w)
     | Some q \<Rightarrow>
         (case (lookup (fs w) q, file_at (fs w) (butlast q)) of
            (Some i, _) \<Rightarrow>
              if kind (inodes (fs w) i) = Directory then (Inl (OSError EISDIR), w) else new_fd i w
          | (None, None) \<Rightarrow> (Inl (OSError ENOENT), w)
          | (None, Some d) \<Rightarrow>
              if kind d \<noteq> Directory then (Inl (OSError ENOTDIR), w)
              else
                (let i = next_ino (fs w);
                     n = \<lparr>kind = Regular, content = [], durable = [], mode = m AND NOT (umask w)\<rparr>
                 in new_fd i
                      (w\<lparr>fs := put_entry q i (put_inode i n (fs w\<lparr>next_ino := Suc i\<rparr>))\<rparr>)))"
  have body: thesis if w: "settled s w" and run: "?body w = (r, w')" for w
  proof -
    from w have links: "links (fs w) (sc_path s) = Some (sc_place s)" by (simp add: settled_def lock_file_def)
    show thesis
    proof (cases "lookup (fs w) (sc_place s)")
      case (Some i)
      with w have inode: "sc_inode s = None \<or> sc_inode s = Some i" by (auto simp: settled_def lock_file_def)
      show thesis
      proof (cases "kind (inodes (fs w) i) = Directory")
        case True
        with run links Some w show thesis by (auto intro: fail)
      next
        case False
        from inode w have "sc_next s \<le> next_fd w" by (simp add: settled_def)
        with inode run links Some False settled_new_fd [OF w] show thesis
          by (intro ok [of "next_fd w" "\<lparr>of_inode = i, of_pos = 0\<rparr>"]) (auto simp: new_fd_def)
      qed
    next
      case None
      with w have none: "sc_inode s = None" by (auto simp: settled_def lock_file_def)
      let ?f = "\<lambda>n i. put_entry (sc_place s) i (put_inode i n (fs w\<lparr>next_ino := Suc i\<rparr>))"
      have created: "settled s (w\<lparr>fs := ?f n i\<rparr>)" for n i
        by (rule settled_fs [OF w]) (simp_all add: None)
      from w have n: "sc_next s \<le> next_fd w" by (simp add: settled_def)
      show thesis
      proof (cases "\<exists>d. file_at (fs w) (butlast (sc_place s)) = Some d \<and> kind d = Directory")
        case True
        with n run links None none settled_new_fd [OF created] show thesis
          by (intro ok [of "next_fd w" "\<lparr>of_inode = next_ino (fs w), of_pos = 0\<rparr>"]) (auto simp: new_fd_def Let_def)
      next
        case False
        with run links None w show thesis by (auto split: option.splits if_splits intro: fail)
      qed
    qed
  qed
  show thesis
  proof (cases "ticks w")
    case Nil
    with assms show thesis by (intro body [OF assms(1)]) (simp add: sys_open_create_def syscall_def)
  next
    case (Cons t ts)
    from settled_tick [OF assms(1) Cons] assms(2) Cons show thesis
      by (auto simp: sys_open_create_def syscall_def Let_def split: outcome.splits intro: fail body)
  qed
qed

lemma settled_held:
  assumes "settled s w" "next_fd w = Suc d" "sc_next s \<le> d" "fds w d = Some h"
    and "lookup (fs w) (sc_place s) = Some (of_inode h)"
  shows "settled (s\<lparr>sc_inode := Some (of_inode h), sc_next := Suc d, sc_fds := fds w\<rparr>) w"
  using assms by (auto simp: settled_def lock_file_def)

lemma settled_table: "settled s w \<Longrightarrow> settled (s\<lparr>sc_table := t\<rparr>) (w\<lparr>lk_table := t\<rparr>)"
  by (simp add: settled_def lock_file_def)

lemma settled_below:
  "settled s w \<Longrightarrow> n \<le> sc_next s \<Longrightarrow> (\<And>e. e < n \<Longrightarrow> F e = sc_fds s e) \<Longrightarrow> settled (s\<lparr>sc_next := n, sc_fds := F\<rparr>) w"
  by (simp add: settled_def)

text \<open>What is known of the inode may be forgotten.\<close>

lemma settled_forget: "settled s w \<Longrightarrow> i = None \<or> i = sc_inode s \<Longrightarrow> settled (s\<lparr>sc_inode := i\<rparr>) w"
  by (auto simp: settled_def lock_file_def)

lemma on_fd_settled:
  assumes "settled s w" "d < sc_next s" "sc_fds s d = Some h" "on_fd d body w = (r, w')"
  obtains (fail) e where "r = Inl e" "settled s w'"
  | (run) x w1 where "settled s w1" "body x h w1 = (r, w')"
proof (cases "ticks w")
  case Nil
  from assms(1-3) have "fds w d = Some h" by (simp add: settled_def)
  with assms Nil show thesis by (intro run [of w Proceed]) (simp_all add: on_fd_def syscall_def)
next
  case (Cons t ts)
  let ?w = "w\<lparr>ticks := ts, fs := interfere t (fs w)\<rparr>"
  from settled_tick [OF assms(1) Cons] have w: "settled s ?w" .
  with assms(2,3) have "fds w d = Some h" by (simp add: settled_def)
  with assms(4) Cons w show thesis
    by (auto simp: on_fd_def syscall_def Let_def split: outcome.splits intro: fail run)
qed

lemma flock_settled:
  assumes "settled s w" "d < sc_next s" "sc_fds s d = Some h" "sys_flock d w = (r, w')"
    and "sc_table s (of_inode h) \<noteq> Some (sc_process s, d)"
  obtains (fail) e where "r = Inl e" "settled s w'"
  | (locked) "r = Inr ()" "sc_table s (of_inode h) = None"
      "settled (s\<lparr>sc_table := (sc_table s)(of_inode h \<mapsto> (sc_process s, d))\<rparr>) w'"
  using assms(1-3) assms(4) [unfolded sys_flock_def]
proof (cases rule: on_fd_settled)
  case (run x w1)
  from run(1) have "lk_table w1 = sc_table s" "lk_process w1 = sc_process s" by (simp_all add: settled_def)
  with run settled_table [OF run(1)] assms(5) show thesis
    by (cases "sc_table s (of_inode h)") (auto intro: fail locked)
qed (rule fail)

lemma close_file_settled:
  assumes "settled s w" "close_file d w = (r, w')" "n \<le> d" "n \<le> sc_next s" "\<And>e. e < n \<Longrightarrow> F e = sc_fds s e"
  shows "settled (s\<lparr>sc_table := release_lock (sc_process s, d) (sc_table s), sc_next := n, sc_fds := F\<rparr>) w'"
proof -
  from assms(1) have t: "lk_table w = sc_table s" "lk_process w = sc_process s" by (simp_all add: settled_def)
  let ?s = "s\<lparr>sc_table := release_lock (sc_process s, d) (sc_table s), sc_next := n, sc_fds := F\<rparr>"
  have "settled ?s (w\<lparr>lk_table := release_lock (sc_process s, d) (sc_table s)\<rparr>)"
    using assms(1,4,5) by (simp add: settled_def lock_file_def)
  from withinD [OF quiet_close [of ?s d] this] assms(2,3) t show ?thesis by (simp add: close_file_def)
qed

lemma unlock_settled:
  assumes "settled s w" "d < sc_next s" "sc_fds s d = Some h" "sys_unlock d w = (r, w')"
  obtains t where "settled (s\<lparr>sc_table := t\<rparr>) w'"
    "t = sc_table s \<or> t = release_lock (sc_process s, d) (sc_table s)"
  using assms(1-3) assms(4) [unfolded sys_unlock_def]
proof (cases rule: on_fd_settled)
  case (fail e)
  have same: "s\<lparr>sc_table := sc_table s\<rparr> = s" by simp
  show thesis by (rule that [of "sc_table s"]) (use fail same in simp_all)
next
  case (run x w1)
  from run(1) have "lk_table w1 = sc_table s" "lk_process w1 = sc_process s" by (simp_all add: settled_def)
  with run settled_table [OF run(1)] show thesis by (intro that) auto
qed

text \<open>The start of the block: the process has the lock, or everything is as it was.\<close>

lemma enter_cases:
  assumes "settled s w" "fresh_locks s" "ol_path l = sc_path s"
    and "DatabaseOwnerLock_enter (l, w) = (r, (l', w'))"
  obtains (refused) e where "r = Inl e" "settled s w'"
  | (entered) d h F where "r = Inr ()" "l' = l\<lparr>ol_descriptor := Some d\<rparr>" "sc_next s \<le> d" "F d = Some h"
      "\<And>e. e < sc_next s \<Longrightarrow> F e = sc_fds s e" "sc_table s (of_inode h) = None"
      "sc_inode s = None \<or> sc_inode s = Some (of_inode h)" "settled (held d h F s) w'"
proof -
  obtain x1 w1 where dir: "private_directory (butlast (ol_path l)) w = (x1, w1)" by (rule prod.exhaust)
  from withinD [OF quiet_private_directory assms(1) dir] have s1: "settled s w1" by simp
  show thesis
  proof (cases x1)
    case (Inl e)
    with assms(4) dir s1 show thesis
      by (intro refused) (auto simp: DatabaseOwnerLock_enter_def bind_apply on_world_apply)
  next
    case (Inr u)
    obtain x2 w2 where create: "sys_open_create (sc_path s) 384 w1 = (x2, w2)" by (rule prod.exhaust)
    from s1 create show thesis
    proof (cases rule: open_create_settled)
      case (fail e)
      with assms(3,4) dir Inr create show thesis
        by (intro refused) (auto simp: DatabaseOwnerLock_enter_def bind_apply on_world_apply)
    next
      case (ok d h)
      let ?s = "s\<lparr>sc_inode := Some (of_inode h), sc_next := Suc d, sc_fds := fds w2\<rparr>"
      have s2: "settled ?s w2" using ok by (intro settled_held)
      have below: "fds w2 e = sc_fds s e" if "e < sc_next s" for e
        using ok(6) that by (simp add: settled_def)
      have restored: "settled s w3"
        if "close_file d w = (r, w3)" "settled (?s\<lparr>sc_table := t\<rparr>) w"
          "release_lock (sc_process s, d) t = sc_table s" for w r w3 t
      proof -
        from close_file_settled [OF that(2,1), of "sc_next s" "sc_fds s"] ok(2) below that(3)
        have "settled (s\<lparr>sc_inode := Some (of_inode h)\<rparr>) w3" by simp
        from settled_forget [OF this, of "sc_inode s"] ok(5) show ?thesis by simp
      qed
      obtain x3 w3 where flock: "sys_flock d w2 = (x3, w3)" by (rule prod.exhaust)
      have not_held: "sc_table ?s (of_inode h) \<noteq> Some (sc_process ?s, d)"
        using assms(2) ok(2) by (fastforce simp: fresh_locks_def)
      note step = assms(4) [unfolded DatabaseOwnerLock_enter_def] dir Inr create ok(1) flock assms(3)
      have "d < sc_next ?s" "sc_fds ?s d = Some h" using ok by simp_all
      from s2 this flock not_held show thesis
      proof (cases rule: flock_settled)
        case (fail e)
        obtain x4 w4 where close: "close_file d w3 = (x4, w4)" by (rule prod.exhaust)
        from restored [OF close, of "sc_table s"] fail(2) release_lock_fresh [OF assms(2) ok(2)] have "settled s w4" by simp
        with step fail(1) close show thesis
          by (cases x4) (auto simp: bind_apply on_world_apply try_except_apply intro: refused)
      next
        case locked
        let ?t = "(sc_table s)(of_inode h \<mapsto> (sc_process s, d))"
        obtain x4 w4 where chmod: "sys_fchmod d 384 w3 = (x4, w4)" by (rule prod.exhaust)
        from withinD [OF quiet_fchmod locked(3) chmod] have s4: "settled (?s\<lparr>sc_table := ?t\<rparr>) w4"
          by (simp del: fun_upd_apply)
        show thesis
        proof (cases x4)
          case (Inl e)
          obtain x5 w5 where close: "close_file d w4 = (x5, w5)" by (rule prod.exhaust)
          from restored [OF close, of ?t] s4 release_lock_held [OF assms(2) ok(2)] locked(2) have "settled s w5" by simp
          with step locked(1) chmod Inl close show thesis
            by (cases x5) (auto simp: bind_apply on_world_apply try_except_apply intro: refused)
        next
          case ready: (Inr u)
          have "settled (held d h (fds w2) s) w4" using s4 by (simp add: held_def del: fun_upd_apply)
          with step locked chmod ready ok(2,4,5) below show thesis
            by (intro entered [of d "fds w2" h]) (auto simp: bind_apply on_world_apply try_except_apply)
        qed
      qed
    qed
  qed
qed

text \<open>The end of the block gives the lock back, whatever the calls report.\<close>

lemma exit_settled:
  assumes "settled s w" "ol_descriptor l = Some d" "d < sc_next s" "sc_fds s d = Some h"
    and "DatabaseOwnerLock_exit (l, w) = (r, (l', w'))" "n \<le> d" "\<And>e. e < n \<Longrightarrow> F e = sc_fds s e"
  shows "settled (s\<lparr>sc_next := n, sc_fds := F, sc_table := release_lock (sc_process s, d) (sc_table s)\<rparr>) w'"
proof -
  obtain x w1 where unlock: "sys_unlock d w = (x, w1)" by (rule prod.exhaust)
  obtain y w2 where close: "close_file d w1 = (y, w2)" by (rule prod.exhaust)
  have w': "w' = w2"
    using assms(2,5) unlock close
    by (cases y) (auto simp: DatabaseOwnerLock_exit_def bind_apply on_world_apply try_finally_apply)
  from assms(1,3,4) unlock obtain t where t: "settled (s\<lparr>sc_table := t\<rparr>) w1"
    "t = sc_table s \<or> t = release_lock (sc_process s, d) (sc_table s)"
    by (rule unlock_settled)
  then have released: "release_lock (sc_process s, d) t = release_lock (sc_process s, d) (sc_table s)" by auto
  from close_file_settled [OF t(1) close, of n F] assms(3,6,7) released w' show ?thesis
    by (simp add: settled_def)
qed

section \<open>Opening the application\<close>

lemma syscall_settled:
  assumes "settled s w" "syscall body w = (r, w')"
  obtains (fail) e where "r = Inl e" "settled s w'" | (run) x w1 where "settled s w1" "body x w1 = (r, w')"
proof (cases "ticks w")
  case (Cons t ts)
  from settled_tick [OF assms(1) Cons] assms(2) Cons show thesis
    by (auto simp: syscall_def Let_def split: outcome.splits intro: fail run)
qed (use assms in \<open>auto simp: syscall_def intro: run\<close>)

lemma new_fd_settled:
  "settled s w \<Longrightarrow> new_fd i w = (r, w') \<Longrightarrow> settled s w' \<and> (\<forall>d. r = Inr d \<longrightarrow> sc_next s \<le> d)"
  using settled_new_fd [of s w "\<lparr>of_inode = i, of_pos = 0\<rparr>"] by (auto simp: new_fd_def settled_def)

lemma quiet_created:
  assumes "\<And>d. sc_next s \<le> d \<Longrightarrow> quiet s (f d)" shows "quiet s (bind (sys_open_create p m) f)"
proof (rule withinI)
  fix w r w' assume w: "settled s w" and run: "bind (sys_open_create p m) f w = (r, w')"
  obtain x w1 where create: "sys_open_create p m w = (x, w1)" by (rule prod.exhaust)
  have "settled s w1 \<and> (\<forall>d. x = Inr d \<longrightarrow> sc_next s \<le> d)"
    using w create [unfolded sys_open_create_def]
  proof (cases rule: syscall_settled)
    case (run y w2)
    have created: "settled s (w2\<lparr>fs := put_entry q i (put_inode i n (fs w2\<lparr>next_ino := Suc i\<rparr>))\<rparr>)"
      if "lookup (fs w2) q = None" for q i n
      by (rule settled_fs [OF run(1)]) (use that in auto)
    from run show ?thesis
      by (auto simp: Let_def split: option.splits if_splits dest: new_fd_settled [OF run(1)]
          new_fd_settled [OF created])
  qed auto
  with run create assms show "settled s w' \<and> (\<forall>e. r = Inl e \<longrightarrow> True)"
    by (cases x) (auto simp: bind_apply dest: withinD)
qed

lemma settled_more [simp]:
  "settled s (w\<lparr>db_faults := x1\<rparr>) = settled s w" "settled s (w\<lparr>db := x2\<rparr>) = settled s w"
  "settled s (w\<lparr>db_clock := x3\<rparr>) = settled s w" "settled s (w\<lparr>db_nonces := x4\<rparr>) = settled s w"
  "settled s (w\<lparr>lg_files := x5\<rparr>) = settled s w" "settled s (w\<lparr>lg_faults := x6\<rparr>) = settled s w"
  by (simp_all add: settled_def lock_file_def)

lemma quiet_connected: "quiet s (connected body)"
  by (rule withinI) (auto simp: connected_def Let_def split: db_fault.splits prod.splits sum.splits list.splits)

lemma quiet_initialize: "quiet s (initialize st)"
proof -
  have db: "quiet s now" "quiet s (encrypted st m)" for m
    by (rule withinI; auto simp: now_def encrypted_def split: list.splits)+
  note db = db quiet_connected
  have schema: "quiet s create_schema"
    unfolding create_schema_def by (intro within_bind db)
  have "quiet s (initialize_database st)"
    unfolding initialize_database_def
    by (intro within_bind within_translate [where Q = "\<lambda>_. True"] within_if db schema) simp_all
  then show ?thesis
    unfolding initialize_def
    by (intro within_bind quiet_created within_try_finally quiet_private_directory quiet_fchmod quiet_close)
qed

lemma quiet_log_syscall:
  assumes "quiet s m" shows "quiet s (log_syscall m)"
proof (rule withinI)
  fix w r w' assume w: "settled s w" and run: "log_syscall m w = (r, w')"
  have "settled s w'" if "m (w\<lparr>lg_faults := later\<rparr>) = (r, w')" for later
    using withinD [OF assms _ that] w by simp
  with w run withinD [OF assms w] show "settled s w' \<and> (\<forall>e. r = Inl e \<longrightarrow> True)"
    by (auto simp: log_syscall_def split: list.splits option.splits)
qed

lemma quiet_log_open: "within (\<lambda>x. settled s (snd x)) (\<lambda>_. True) RequestLog_open"
  unfolding RequestLog_open_def log_open_def log_chmod_def log_size_def
  by (intro within_bind within_on_world quiet_log_syscall within_modify within_ret within_assign)
    (auto split: option.splits)

lemma quiet_stream_close: "quiet s (stream_close t)"
proof -
  have append: "settled s w'" if "settled s w" "log_append t w = (x, w')" for t w x w'
    using that by (auto simp: log_append_def append_text_def split: if_splits list.splits option.splits prod.splits)
  have rest: "quiet s (\<lambda>w. case log_append left w of
      (None, w2) \<Rightarrow> (Inl (OSError n), w2) | (Some (m, _), w2) \<Rightarrow> (Inl (OSError m), w2))" for left n
    by (rule withinI) (auto split: option.splits prod.splits dest: append)
  have closing: "quiet s (log_syscall (ret ()))" by (intro quiet_log_syscall within_ret)
  show ?thesis
  proof (rule withinI)
    fix w r w' assume w: "settled s w" and run: "stream_close t w = (r, w')"
    obtain e w1 where e: "log_append t w = (e, w1)" by (rule prod.exhaust)
    note w1 = append [OF w e]
    show "settled s w' \<and> (\<forall>e. r = Inl e \<longrightarrow> True)"
    proof (cases e)
      case None
      with run e withinD [OF closing w1] show ?thesis by (simp add: stream_close_def)
    next
      case (Some p)
      with run e withinD [OF within_try_finally [OF rest closing] w1] show ?thesis
        by (cases p) (simp add: stream_close_def)
    qed
  qed
qed

lemma quiet_log_close: "within (\<lambda>x. settled s (snd x)) (\<lambda>_. True) RequestLog_close"
  unfolding RequestLog_close_def
  by (intro within_bind within_self) (auto split: log_stream.split intro!: within_rules quiet_stream_close)

lemma quiet_open_state: "quiet s (open_state st se)"
proof -
  have "quiet s (\<lambda>w. case RequestLog_open (rl, w) of (Inl e, (_, w')) \<Rightarrow> (Inl e, w') | (Inr _, (rl', w')) \<Rightarrow> (Inr rl', w'))" for rl
    using withinD [OF quiet_log_open [of s]] by (intro withinI) (fastforce split: prod.splits sum.splits)
  then show ?thesis
    unfolding open_state_def by (intro within_bind quiet_initialize within_of_result) simp_all
qed

text \<open>Taking the lock does not touch the database.\<close>

lemma ledger_part: "keeps os_world.more m \<Longrightarrow> keeps ledger_view m"
  by (rule keeps_ledger_view)

lemma keeps_ledger_syscall:
  "(\<And>r w. ledger_view (snd (body r w)) = ledger_view w) \<Longrightarrow> keeps ledger_view (syscall body)"
  unfolding keeps_def syscall_def by (auto simp: Let_def ledger_view_def split: list.splits outcome.splits)

lemma keeps_ledger_locks [keeps_rules]:
  "keeps ledger_view (sys_flock d)" "keeps ledger_view (close_file d)"
proof -
  show "keeps ledger_view (sys_flock d)"
    unfolding sys_flock_def on_fd_def
    by (rule keeps_ledger_syscall) (auto simp: ledger_view_def split: option.split)
  show "keeps ledger_view (close_file d)"
  proof (rule keepsI)
    fix w r w' assume "close_file d w = (r, w')"
    from keepsD [OF ledger_part [OF keeps_sys_close] this [unfolded close_file_def]]
    show "ledger_view w' = ledger_view w" by (simp add: ledger_view_def)
  qed
qed

lemma keeps_private_directory [keeps_rules]: "keeps os_world.more (private_directory p)"
proof -
  have there: "keeps os_world.more (path_exists q)" for q
    unfolding path_exists_def by (intro keeps_rules)
  show ?thesis unfolding private_directory_def by (intro keeps_rules there)
qed

lemma keeps_ledger_enter: "keeps (\<lambda>x. ledger_view (snd x)) DatabaseOwnerLock_enter"
  unfolding DatabaseOwnerLock_enter_def
  by (intro keeps_rules ledger_part)

text \<open>A start of the application: it has the lock, or everything is as it was.\<close>

lemma open_app_enter_cases:
  assumes "settled s w" "fresh_locks s" "lock_path se = Inr (sc_path s)"
    and "open_app_enter st se w = (r, w')"
  obtains (failed) e where "r = Inl e" "settled s w'"
      "sc_inode s = Some i \<Longrightarrow> sc_table s i \<noteq> None \<Longrightarrow> db w' = db w"
  | (started) l rl d h F where "r = Inr (l, rl)" "ol_descriptor l = Some d" "sc_next s \<le> d" "F d = Some h"
      "\<And>e. e < sc_next s \<Longrightarrow> F e = sc_fds s e" "sc_table s (of_inode h) = None"
      "sc_inode s = None \<or> sc_inode s = Some (of_inode h)" "settled (held d h F s) w'"
proof -
  let ?l = "\<lparr>ol_path = sc_path s, ol_descriptor = None\<rparr>"
  obtain x l w1 where enter: "DatabaseOwnerLock_enter (?l, w) = (x, (l, w1))" by (rule prod_cases3)
  have path: "ol_path ?l = sc_path s" by simp
  from assms(1,2) path enter show thesis
  proof (cases rule: enter_cases)
    case (refused e)
    from keepsD [OF keeps_ledger_enter enter] have "db w1 = db w" by (simp add: ledger_view_def)
    with refused assms(3,4) enter show thesis
      by (intro failed) (auto simp: open_app_enter_def bind_apply)
  next
    case (entered d h F)
    obtain y w2 where state: "open_state st se w1 = (y, w2)" by (rule prod.exhaust)
    from withinD [OF quiet_open_state entered(8) state] have s2: "settled (held d h F s) w2" by simp
    show thesis
    proof (cases y)
      case (Inr rl)
      with entered assms(3,4) enter state s2 show thesis
        by (intro started [of l rl d F h]) (auto simp: open_app_enter_def bind_apply)
    next
      case (Inl e)
      obtain z l' w3 where exit: "DatabaseOwnerLock_exit (l, w2) = (z, (l', w3))" by (rule prod_cases3)
      have "settled (s\<lparr>sc_inode := Some (of_inode h)\<rparr>) w3"
        using exit_settled [OF s2 _ _ _ exit, of d h "sc_next s" "sc_fds s"] entered release_lock_held [OF assms(2) entered(3,6)]
        by (simp add: held_def del: fun_upd_apply)
      from settled_forget [OF this, of "sc_inode s"] entered(7) have "settled s w3" by simp
      with entered Inl assms(3,4) enter state exit show thesis
        by (cases z) (auto simp: open_app_enter_def bind_apply intro!: failed)
    qed
  qed
qed

section \<open>Processes of one machine\<close>

text \<open>
  Every process of the machine that has the database with the lock file \<open>p\<close>: what they share, and the
  application that each has open. A process may start one at any time, with any key and server; serve,
  which leaves the locks and their descriptors alone; stop, with any faults; or die, and then the system
  gives its locks back.
\<close>

record 'w machine =
  mc_world :: "'w lock_world_scheme"
  mc_apps :: "nat \<rightharpoonup> owner_lock \<times> request_log"

definition undisturbed :: "path \<Rightarrow> path \<Rightarrow> 'w lock_world_scheme \<Rightarrow> 'w lock_world_scheme \<Rightarrow> bool" where
  "undisturbed p q w w' \<longleftrightarrow> lk_table w' = lk_table w \<and> next_fd w \<le> next_fd w' \<and>
     (\<forall>i a d. lk_table w i = Some (a, d) \<longrightarrow> fds w' d = fds w d) \<and>
     (\<forall>i. lock_file p q i w \<longrightarrow> lock_file p q i w')"

inductive machine_run :: "path \<Rightarrow> path \<Rightarrow> 'w machine \<Rightarrow> bool" for p q where
  boot: "mc_apps m = Map.empty \<Longrightarrow> lk_table (mc_world m) = Map.empty \<Longrightarrow> lock_file p q i (mc_world m) \<Longrightarrow>
    machine_run p q m"
| start: "machine_run p q m \<Longrightarrow> lock_path se = Inr p \<Longrightarrow>
    open_app_enter st se ((mc_world m)\<lparr>lk_process := a\<rparr>) = (Inr app, w') \<Longrightarrow>
    machine_run p q (m\<lparr>mc_world := w', mc_apps := (mc_apps m)(a \<mapsto> app)\<rparr>)"
| refused: "machine_run p q m \<Longrightarrow> lock_path se = Inr p \<Longrightarrow>
    open_app_enter st se ((mc_world m)\<lparr>lk_process := a\<rparr>) = (Inl e, w') \<Longrightarrow>
    machine_run p q (m\<lparr>mc_world := w'\<rparr>)"
| work: "machine_run p q m \<Longrightarrow> undisturbed p q (mc_world m) w' \<Longrightarrow> machine_run p q (m\<lparr>mc_world := w'\<rparr>)"
| stop: "machine_run p q m \<Longrightarrow> mc_apps m a = Some app \<Longrightarrow>
    open_app_exit (app, (mc_world m)\<lparr>lk_process := a\<rparr>) = (r, (app', w')) \<Longrightarrow>
    machine_run p q (m\<lparr>mc_world := w', mc_apps := (mc_apps m)(a := None)\<rparr>)"
| die: "machine_run p q m \<Longrightarrow>
    machine_run p q (m\<lparr>mc_world := (mc_world m)\<lparr>lk_table := (\<lambda>i. case lk_table (mc_world m) i of
        None \<Rightarrow> None | Some holder \<Rightarrow> if fst holder = a then None else Some holder)\<rparr>,
      mc_apps := (mc_apps m)(a := None)\<rparr>)"

definition owns :: "nat \<Rightarrow> owner_lock \<Rightarrow> nat option \<Rightarrow> 'w lock_world_scheme \<Rightarrow> bool" where
  "owns a l i w \<longleftrightarrow> (\<exists>d h. ol_descriptor l = Some d \<and> d < next_fd w \<and> fds w d = Some h \<and>
     i = Some (of_inode h) \<and> lk_table w (of_inode h) = Some (a, d))"

definition machine_ok :: "path \<Rightarrow> path \<Rightarrow> 'w machine \<Rightarrow> bool" where
  "machine_ok p q m \<longleftrightarrow> (\<exists>i. lock_file p q i (mc_world m) \<and>
     (\<forall>j b d. lk_table (mc_world m) j = Some (b, d) \<longrightarrow> d < next_fd (mc_world m)) \<and>
     (\<forall>a l rl. mc_apps m a = Some (l, rl) \<longrightarrow> owns a l i (mc_world m)))"

lemma owns_same: "owns a l i w \<Longrightarrow> owns b l' i w \<Longrightarrow> a = b"
  by (auto simp: owns_def)

text \<open>The scene of process \<open>a\<close>.\<close>

definition scene_of :: "path \<Rightarrow> path \<Rightarrow> nat option \<Rightarrow> nat \<Rightarrow> 'w lock_world_scheme \<Rightarrow> scene" where
  "scene_of p q i a w =
     \<lparr>sc_path = p, sc_place = q, sc_inode = i, sc_table = lk_table w, sc_next = next_fd w, sc_fds = fds w, sc_process = a\<rparr>"

lemma scene_of_settled: "lock_file p q i w \<Longrightarrow> settled (scene_of p q i a w) (w\<lparr>lk_process := a\<rparr>)"
  by (simp add: scene_of_def settled_def lock_file_def)

lemma keeps_next_fd_exit: "keeps (\<lambda>x. next_fd (snd x)) (DatabaseOwnerLock_exit :: (owner_lock \<times> 'w lock_world_scheme, unit) io)"
proof -
  have unlock: "keeps next_fd (sys_unlock d :: ('w lock_world_scheme, unit) io)"
    and close: "keeps next_fd (close_file d :: ('w lock_world_scheme, unit) io)" for d
    by (rule keepsI; auto simp: sys_unlock_def close_file_def sys_close_def on_fd_def syscall_def Let_def
        split: list.splits outcome.splits option.splits if_splits)+
  show ?thesis
    unfolding DatabaseOwnerLock_exit_def by (intro keeps_rules unlock close)
qed

lemma machine_okE:
  assumes "machine_ok p q m"
  obtains i where "lock_file p q i (mc_world m)" "fresh_locks (scene_of p q i a (mc_world m))"
    "\<forall>a l rl. mc_apps m a = Some (l, rl) \<longrightarrow> owns a l i (mc_world m)"
  using assms by (fastforce simp: machine_ok_def fresh_locks_def scene_of_def)

text \<open>In a scene that is still there, every owner is still one.\<close>

lemma settled_ok:
  assumes "settled (scene_of p q i a w) w'" "fresh_locks (scene_of p q i a w)"
    "\<And>a l rl. apps a = Some (l, rl) \<Longrightarrow> owns a l i w"
  shows "machine_ok p q \<lparr>mc_world = w', mc_apps = apps\<rparr>"
proof -
  have "owns b l i w'" if "apps b = Some (l, rl)" for b l rl
    using assms(3) [OF that] assms(1) by (fastforce simp: owns_def settled_def scene_of_def)
  moreover from assms(1) have w': "lock_file p q i w'" "lk_table w' = lk_table w" "next_fd w \<le> next_fd w'"
    by (simp_all add: settled_def scene_of_def)
  moreover have "d < next_fd w'" if "lk_table w' j = Some (b, d)" for j b d
    using assms(2) that w'(2,3) by (fastforce simp: fresh_locks_def scene_of_def)
  ultimately show ?thesis by (auto simp: machine_ok_def)
qed

lemma start_cases:
  assumes "machine_ok p q m" "lock_path se = Inr p"
    and "open_app_enter st se ((mc_world m)\<lparr>lk_process := a\<rparr>) = (r, w')"
  obtains (failed) e where "r = Inl e" "machine_ok p q (m\<lparr>mc_world := w'\<rparr>)"
      "mc_apps m \<noteq> Map.empty \<Longrightarrow> db w' = db (mc_world m)" "lk_table w' = lk_table (mc_world m)"
  | (started) app where "r = Inr app" "mc_apps m = Map.empty" "machine_ok p q (m\<lparr>mc_world := w', mc_apps := [a \<mapsto> app]\<rparr>)"
proof -
  let ?w = "mc_world m"
  from assms(1) obtain i where placed: "lock_file p q i ?w" and fresh: "fresh_locks (scene_of p q i a ?w)"
    and all: "\<forall>a l rl. mc_apps m a = Some (l, rl) \<longrightarrow> owns a l i ?w"
    by (rule machine_okE)
  have owners: "owns a l i ?w" if "mc_apps m a = Some (l, rl)" for a l rl using all that by blast
  let ?s = "scene_of p q i a ?w"
  have owned: "\<exists>j. i = Some j \<and> lk_table ?w j \<noteq> None" if apps: "mc_apps m \<noteq> Map.empty"
  proof -
    from apps obtain b l rl where "mc_apps m b = Some (l, rl)" by (auto simp: fun_eq_iff)
    from owners [OF this] show ?thesis by (auto simp: owns_def)
  qed
  have path: "lock_path se = Inr (sc_path ?s)" using assms(2) by (simp add: scene_of_def)
  show thesis
  proof (cases rule: open_app_enter_cases [where i = "the i", OF scene_of_settled [OF placed] fresh path assms(3)])
    case (1 e)
    then have "settled ?s w'" by simp
    then have "machine_ok p q (m\<lparr>mc_world := w'\<rparr>)"
      using settled_ok [OF _ fresh owners, of w'] by (simp add: machine_ok_def)
    moreover have "db w' = db ?w" if "mc_apps m \<noteq> Map.empty"
      using 1(3) owned [OF that] by (auto simp: scene_of_def)
    moreover have "lk_table w' = lk_table ?w"
      using 1(2) by (simp add: settled_def scene_of_def)
    ultimately show thesis using 1(1) by (intro failed)
  next
    case (2 l rl d h F)
    have none: "mc_apps m = Map.empty"
    proof (rule ccontr)
      assume "mc_apps m \<noteq> Map.empty"
      from owned [OF this] 2(6,7) show False by (auto simp: scene_of_def)
    qed
    have w': "lock_file p q (Some (of_inode h)) w'" "lk_table w' = (lk_table ?w)(of_inode h \<mapsto> (a, d))"
      "Suc d \<le> next_fd w'" "fds w' d = F d" "next_fd ?w \<le> d"
      using 2(3,8) by (simp_all add: held_def settled_def scene_of_def)
    have "owns a l (Some (of_inode h)) w'"
      using w' 2(2,4) by (simp add: owns_def)
    moreover have "e < next_fd w'" if "lk_table w' j = Some (b, e)" for j b e
      using that w' fresh by (fastforce simp: fresh_locks_def scene_of_def split: if_splits)
    ultimately have "machine_ok p q (m\<lparr>mc_world := w', mc_apps := [a \<mapsto> (l, rl)]\<rparr>)"
      using w'(1) by (auto simp: machine_ok_def)
    with 2(1) none show thesis by (rule started)
  qed
qed

lemma stop_ok:
  assumes "machine_ok p q m" "mc_apps m a = Some app"
    and "open_app_exit (app, (mc_world m)\<lparr>lk_process := a\<rparr>) = (r, (app', w'))"
  shows "machine_ok p q (m\<lparr>mc_world := w', mc_apps := (mc_apps m)(a := None)\<rparr>)"
proof -
  let ?w = "mc_world m"
  obtain l rl where app: "app = (l, rl)" by (rule prod.exhaust)
  from assms(1) obtain i where placed: "lock_file p q i ?w" and fresh: "fresh_locks (scene_of p q i a ?w)"
    and all: "\<forall>a l rl. mc_apps m a = Some (l, rl) \<longrightarrow> owns a l i ?w"
    by (rule machine_okE)
  let ?s = "scene_of p q i a ?w"
  have own: "owns a l i ?w" using all assms(2) app by blast
  then obtain d h where d: "ol_descriptor l = Some d" "d < next_fd ?w" "fds ?w d = Some h" by (auto simp: owns_def)
  obtain x rl1 w1 where log: "RequestLog_close (rl, ?w\<lparr>lk_process := a\<rparr>) = (x, (rl1, w1))" by (rule prod_cases3)
  obtain z l1 w2 where exit: "DatabaseOwnerLock_exit (l, w1) = (z, (l1, w2))" by (rule prod_cases3)
  have w': "w' = w2" using assms(3) app log exit by (cases z) (auto simp: open_app_exit_def)
  have w1: "settled ?s w1"
    using withinD [OF quiet_log_close _ log, of ?s] scene_of_settled [OF placed, of a] by simp
  have "settled (?s\<lparr>sc_next := d, sc_fds := sc_fds ?s, sc_table := release_lock (a, d) (sc_table ?s)\<rparr>) w2"
    using exit_settled [OF w1 d(1) _ _ exit, of h d "sc_fds ?s"] d(2,3) by (simp add: scene_of_def)
  then have end_: "lock_file p q i w2" "lk_table w2 = release_lock (a, d) (lk_table ?w)"
    by (simp_all add: settled_def scene_of_def)
  have "next_fd w2 = next_fd w1" using keepsD [OF keeps_next_fd_exit exit] by simp
  with w1 have more: "next_fd ?w \<le> next_fd w2" by (simp add: settled_def scene_of_def)
  have "e < next_fd w2" if "lk_table w2 j = Some (b, e)" for j b e
  proof -
    from that end_(2) have "lk_table ?w j = Some (b, e)" by (auto simp: release_lock_def split: if_splits)
    with fresh more show ?thesis by (fastforce simp: fresh_locks_def scene_of_def)
  qed
  moreover have "mc_apps m b = None" if "b \<noteq> a" for b
  proof (cases "mc_apps m b")
    case (Some app1)
    with all have "owns b (fst app1) i ?w" by (metis prod.collapse)
    with own owns_same that show ?thesis by blast
  qed
  ultimately show ?thesis using end_(1) w' by (auto simp: machine_ok_def split: if_splits)
qed

lemma machine_run_ok: "machine_run p q m \<Longrightarrow> machine_ok p q m"
proof (induction rule: machine_run.induct)
  case (boot m i)
  then show ?case by (auto simp: machine_ok_def)
next
  case (start m se st a app w')
  from start.IH start.hyps(2,3) show ?case by (cases rule: start_cases) auto
next
  case (refused m se st a e w')
  from refused.IH refused.hyps(2,3) show ?case by (cases rule: start_cases) auto
next
  case (work m w')
  from work.IH obtain i where placed: "lock_file p q i (mc_world m)"
    and holders: "\<forall>j b d. lk_table (mc_world m) j = Some (b, d) \<longrightarrow> d < next_fd (mc_world m)"
    and owners: "\<forall>a l rl. mc_apps m a = Some (l, rl) \<longrightarrow> owns a l i (mc_world m)"
    by (auto simp: machine_ok_def)
  from work.hyps(2) have w': "lk_table w' = lk_table (mc_world m)" "next_fd (mc_world m) \<le> next_fd w'"
      "\<And>i a d. lk_table (mc_world m) i = Some (a, d) \<Longrightarrow> fds w' d = fds (mc_world m) d" "lock_file p q i w'"
    using placed by (auto simp: undisturbed_def)
  have "owns a l i w'" if "owns a l i (mc_world m)" for a l
  proof -
    from that obtain d h where d: "ol_descriptor l = Some d" "d < next_fd (mc_world m)" "fds (mc_world m) d = Some h"
      "i = Some (of_inode h)" "lk_table (mc_world m) (of_inode h) = Some (a, d)" by (auto simp: owns_def)
    from d w'(1,2) w'(3) [OF d(5)] show ?thesis by (auto simp: owns_def)
  qed
  moreover have "d < next_fd w'" if "lk_table w' j = Some (b, d)" for j b d
    using holders [rule_format, of j b d] that w'(1,2) by simp
  ultimately show ?case using w'(4) owners by (auto simp: machine_ok_def)
next
  case (stop m a app r app' w')
  from stop_ok [OF stop.IH stop.hyps(2,3)] show ?case .
next
  case (die m a)
  let ?t = "\<lambda>i. case lk_table (mc_world m) i of
        None \<Rightarrow> None | Some holder \<Rightarrow> if fst holder = a then None else Some holder"
  from die.IH obtain i where placed: "lock_file p q i (mc_world m)"
    and holders: "\<forall>j b d. lk_table (mc_world m) j = Some (b, d) \<longrightarrow> d < next_fd (mc_world m)"
    and owners: "\<forall>a l rl. mc_apps m a = Some (l, rl) \<longrightarrow> owns a l i (mc_world m)"
    by (auto simp: machine_ok_def)
  have "owns b l i ((mc_world m)\<lparr>lk_table := ?t\<rparr>)" if "mc_apps m b = Some (l, rl)" "b \<noteq> a" for b l rl
    using owners that by (fastforce simp: owns_def)
  moreover have "lock_file p q i ((mc_world m)\<lparr>lk_table := ?t\<rparr>)" using placed by (simp add: lock_file_def)
  ultimately show ?case
    using holders by (auto simp: machine_ok_def split: option.splits if_splits)
qed

section \<open>One owner\<close>

lemma one_app:
  assumes "machine_run p q m" "mc_apps m a = Some app" "mc_apps m b = Some app'" shows "b = a"
proof -
  from machine_run_ok [OF assms(1)] obtain i where "\<forall>a l rl. mc_apps m a = Some (l, rl) \<longrightarrow> owns a l i (mc_world m)"
    by (auto simp: machine_ok_def)
  with assms(2,3) have "owns a (fst app) i (mc_world m)" "owns b (fst app') i (mc_world m)"
    by (metis prod.collapse)+
  then show ?thesis using owns_same by blast
qed


text \<open>A machine with an empty state directory, on which process 1 starts.\<close>

definition start_world :: lock_world where
  "start_world = log_world.extend
     (service_world.extend demo_service (log_world.fields Map.empty [])
       \<lparr>fs := \<lparr>dirents = [([lit ''s''], 0)],
          inodes = (\<lambda>_. \<lparr>kind = Directory, content = [], durable = [], mode = 448\<rparr>), next_ino = 1, links = Some\<rparr>,
        db := \<lparr>db_tables = [], db_metadata = [], db_connections = [], db_transfers = []\<rparr>\<rparr>)
     (lock_world.fields Map.empty 1)"

definition start_settings :: settings where
  "start_settings = \<lparr>se_database_path = [lit ''s'', lit ''db''], se_encryption_key = [], se_known_hosts_path = [lit ''k''],
     se_allowed_hosts = {}\<rparr>"

lemma start_world_sel:
  "ticks start_world = []" "fds start_world = Map.empty" "next_fd start_world = 3" "umask start_world = 18"
  "db_faults start_world = []" "db_clock start_world = []" "db_nonces start_world = []"
  "lg_faults start_world = []" "lg_files start_world = Map.empty" "lk_table start_world = Map.empty"
  "db start_world = \<lparr>db_tables = [], db_metadata = [], db_connections = [], db_transfers = []\<rparr>"
  "fs start_world = \<lparr>dirents = [([lit ''s''], 0)],
     inodes = (\<lambda>_. \<lparr>kind = Directory, content = [], durable = [], mode = 448\<rparr>), next_ino = 1, links = Some\<rparr>"
  "lk_process start_world = 1"
  by (simp_all add: start_world_def demo_service_def demo_world_def os_world.defs db_world.defs
      service_world.defs log_world.defs lock_world.defs)

lemma start_lock_path: "lock_path start_settings = Inr [lit ''s'', lit ''db.owner.lock'']"
  by code_simp

lemma start_log_path: "request_log_path start_settings = Inr [lit ''s'', lit ''db.requests.jsonl'']"
  by code_simp

lemma start_enter:
  "\<exists>w1. DatabaseOwnerLock_enter (\<lparr>ol_path = [lit ''s'', lit ''db.owner.lock''], ol_descriptor = None\<rparr>, start_world) =
     (Inr (), (\<lparr>ol_path = [lit ''s'', lit ''db.owner.lock''], ol_descriptor = Some 3\<rparr>, w1)) \<and>
     ticks w1 = [] \<and> db_faults w1 = [] \<and> db_clock w1 = [] \<and> db_nonces w1 = [] \<and> lg_faults w1 = [] \<and>
     db w1 = db start_world \<and> links (fs w1) = Some \<and> lookup (fs w1) [lit ''s'', lit ''db''] = None \<and>
     lookup (fs w1) [lit ''s''] = Some 0 \<and> kind (inodes (fs w1) 0) = Directory"
  by (simp add: DatabaseOwnerLock_enter_def bind_apply on_world_apply private_directory_def path_exists_def
      try_except_apply sys_stat_def syscall_def start_world_sel file_at_def lookup_def stat_of_def
      sys_open_create_def Let_def new_fd_def put_entry_def put_inode_def sys_flock_def on_fd_def sys_fchmod_def)

lemma start_state:
  assumes "ticks w1 = []" "db_faults w1 = []" "db_clock w1 = []" "db_nonces w1 = []" "lg_faults w1 = []"
    "db w1 = db start_world" "links (fs w1) = Some" "lookup (fs w1) [lit ''s'', lit ''db''] = None"
    "lookup (fs w1) [lit ''s''] = Some 0" "kind (inodes (fs w1) 0) = Directory"
  shows "\<exists>rl w2. open_state demo_store start_settings w1 = (Inr rl, w2)"
proof -
  have "st_path demo_store = [lit ''s'', lit ''db'']" by (simp add: demo_store_def)
  then have "\<exists>w2. initialize demo_store w1 = (Inr (), w2) \<and> lg_faults w2 = []"
    using assms
    by (simp add: initialize_def bind_apply private_directory_def path_exists_def
      try_except_apply try_finally_apply sys_stat_def syscall_def file_at_def stat_of_def
      sys_open_create_def Let_def new_fd_def on_fd_def sys_fchmod_def sys_close_def start_world_sel
      initialize_database_def encrypted_def now_def translate_apply connected_no_fault create_schema_def
      create_table_def insert_metadata_def recover_def on_table_def)
  then obtain w2 where "initialize demo_store w1 = (Inr (), w2)" "lg_faults w2 = []" by blast
  then show ?thesis
    by (cases "lg_files w2 0") (auto simp: open_state_def bind_apply start_log_path RequestLog_def MAX_LOG_BYTES_def RequestLog_open_def
        on_world_apply log_open_def log_chmod_def log_size_def log_syscall_def)
qed


end
