(* ===== verification/Spec2Isabelle.thy ===== *)
theory Spec2Isabelle
  imports Transfer_Local Preview_Correct Sftp_Reads Api_Correct Config_Correct Startup_Correct
begin

text \<open>
  DataBridge, the service under \<^verbatim>\<open>src/databridge\<close> that copies files between directories and SFTP servers
  for HTTP clients: its model and the theorems that make it correct.

  \<^bold>\<open>How the program works.\<close> A process reads its settings (\<^verbatim>\<open>config.py\<close>), takes the lock of its
  database and opens the store and the request log (\<^verbatim>\<open>api.py\<close> \<open>open_app\<close>, \<^verbatim>\<open>store.py\<close>,
  \<^verbatim>\<open>request_log.py\<close>). A request passes the middleware of \<^verbatim>\<open>web.py\<close>, which guards, numbers and logs it,
  and reaches a handler of \<^verbatim>\<open>api.py\<close>. The handlers save connections in the store, and open connectors
  (\<^verbatim>\<open>connectors/base.py\<close>, \<^verbatim>\<open>local.py\<close>, \<^verbatim>\<open>sftp.py\<close>) to list files, to preview one (\<^verbatim>\<open>preview.py\<close>), or
  to copy one (\<^verbatim>\<open>transfer.py\<close>), with a record of the copy in the store as its ledger. Every failure that
  a client may see is a \<open>DataBridgeError\<close> with one of the codes of \<^verbatim>\<open>errors.py\<close>.

  \<^bold>\<open>How it is modelled.\<close> A statement is a function from a state to a result and a state (\<open>Effects\<close>); a
  result is \<open>Inl\<close> an exception or \<open>Inr\<close> a value, and what was done before an exception stays done. The
  combinators are the statement forms of the source: sequence, \<open>try/except\<close>, \<open>try/finally\<close>, \<open>with\<close>.
  A method of an object is a statement over the object and the world. The worlds are records that extend
  each other: the operating system (\<open>os_world\<close>: files with durable content, descriptors, log), the
  database, the slots of the service, the files of the request log, the locks. Faults and the other
  processes are part of a world: every system call takes the next entry of a schedule, which interferes
  with the files first and then lets the call proceed, transfer a part or fail; every transaction takes
  the next fault of SQLite. A theorem over every world therefore holds for every such schedule. Python
  text is a list of code points, bytes are 8-bit words, and Python's integers are \<open>nat\<close> or \<open>int\<close>.

  \<^bold>\<open>Theories and sources.\<close>
    \<^item> \<open>Py_Prelude\<close>, \<open>Errors\<close> (\<^verbatim>\<open>errors.py\<close>), \<open>Effects\<close>, \<open>Frames\<close>, \<open>Loops\<close> and \<open>Within\<close>: text and
      bytes, exceptions, statements, and the rules that go through a statement form by form: what it
      raises (\<open>raises\<close>), what it keeps (\<open>keeps\<close>), that it stays in a set of states (\<open>within\<close>).
    \<^item> \<open>Base\<close> (\<^verbatim>\<open>connectors/base.py\<close>) and \<open>Models\<close> (\<^verbatim>\<open>models.py\<close>): names of files, the bounded listing,
      the contract of a connector as a record of methods; connections, requests, records.
    \<^item> \<open>Posix\<close>: the calls of \<^verbatim>\<open>os\<close> and \<^verbatim>\<open>pathlib\<close>. \<open>Local\<close> (\<^verbatim>\<open>connectors/local.py\<close>), with
      \<open>Local_Source\<close>, \<open>Local_Props\<close>, \<open>Local_Frames\<close> and the properties in \<open>Local_Correct\<close>: atomic and
      non-clobbering publication, reads that never end early, confinement to the root, error contract.
    \<^item> \<open>Json\<close>, \<open>Json_Roundtrip\<close>, \<open>Timestamps\<close>, \<open>Store\<close> (\<^verbatim>\<open>store.py\<close>), \<open>Store_Props\<close>,
      \<open>Store_Connections\<close>, \<open>Store_Correct\<close>: the tables, their operations as steps of a machine with
      faults, the invariant of the reachable databases and the life of a transfer record.
    \<^item> \<open>Transfer_Run\<close> (\<^verbatim>\<open>transfer.py\<close>), \<open>Registry\<close> (\<^verbatim>\<open>connectors/__init__.py\<close>), \<open>Transfer_Laws\<close>,
      \<open>Transfer_Store\<close>, \<open>Transfer_Correct\<close>: a transfer over any connectors and ledger that keep their
      contracts, the store as that ledger, and the service: it answers, truly, and gives its slot back.
      \<open>Local_Copy\<close> and \<open>Transfer_Local\<close> join this with the bytes of two local connectors, end to end.
    \<^item> \<open>Text_Decoding\<close>, \<open>Csv\<close>, \<open>Preview\<close> (\<^verbatim>\<open>preview.py\<close>), \<open>Preview_Csv\<close>, \<open>Json_Prefix\<close>,
      \<open>Preview_Json\<close>, \<open>Preview_Checks\<close>, \<open>Preview_Contract\<close>, \<open>Preview_Local\<close>, \<open>Preview_Correct\<close>: the
      decoder, the two readers and the inferred schema; what a preview of a prefix shows is what the
      whole file shows.
    \<^item> \<open>Sftp_Wire\<close>, \<open>Sftp_Requests\<close>, \<open>Sftp_Files\<close>, \<open>Sftp\<close> (\<^verbatim>\<open>connectors/sftp.py\<close>: packets, requests,
      the two streams, the connector), \<open>Sftp_Errors\<close>, \<open>Sftp_Contract\<close>, \<open>Sftp_Streams\<close>, \<open>Sftp_Frames\<close>,
      \<open>Sftp_Quiet\<close>, \<open>Sftp_Trace\<close>, \<open>Sftp_Correct\<close>, \<open>Sftp_Reads\<close>, \<open>Sftp_Listing\<close>: for any server and
      any failure of the transport, what is raised, which requests a block sends and in which order,
      that a download is the file, and how many requests a listing needs.
    \<^item> \<open>Web\<close> (\<^verbatim>\<open>web.py\<close>), \<open>Web_Correct\<close>, \<open>Request_Log\<close> (\<^verbatim>\<open>request_log.py\<close>), \<open>Request_Log_Correct\<close>,
      \<open>Api\<close> (\<^verbatim>\<open>api.py\<close>), \<open>Error_Codes\<close>, \<open>Disciplined\<close>, \<open>Api_Within\<close>, \<open>Api_Correct\<close>: the guard, the
      log against its specification as generations, every request answered once under one identifier,
      and the error codes of every route against those it documents.
    \<^item> \<open>Config\<close> (\<^verbatim>\<open>config.py\<close>), \<open>Config_Correct\<close>, \<open>Startup\<close> (\<open>DatabaseOwnerLock\<close> of \<^verbatim>\<open>store.py\<close>,
      \<open>open_app\<close> of \<^verbatim>\<open>api.py\<close>, \<^verbatim>\<open>__main__.py\<close>), \<open>Startup_Correct\<close>: valid settings or all problems at
      once, and one owner of the database among the processes of a machine.

  \<^bold>\<open>Interfaces.\<close> What a client relies on is a locale, and the provider interprets it: \<open>record_ledger\<close>,
  \<open>quiet_connector\<close> and \<open>transfer_env\<close> (a transfer on its connectors and its ledger) by the store, the
  local connector and the application; \<open>typed_reader\<close> (the preview on a connector) by both connectors;
  \<open>coded_connector\<close> (the API on a connector) by the local one; \<open>lossy\<close> (the requests of SFTP on the
  exceptions they meet) by the errors of a session and by the error codes; \<open>http_boundary\<close> (the
  middleware on its server and log) by the server and the request log.

  \<^bold>\<open>Loops and fuel.\<close> Loops are recursive functions with a measure: the bytes left to write, the reads
  left of a source, the entries left to scan (a page of the server counts at least one, so the cap of
  10000 entries ends a listing). The copy loop of a transfer may run forever for a connector that
  breaks its contract; it gives \<open>None\<close> when it does not return (\<open>Loops\<close>), and \<open>service_answers\<close> and
  \<open>sftp_service_answers\<close> prove that it returns. The scanner of JSON has twice the length of its text as
  fuel and one more, which \<open>Json_Roundtrip\<close> proves to be enough.

  \<^bold>\<open>What is not modelled.\<close> Code that is not in the repository is a parameter or a hypothesis of
  documented behaviour: Fernet, SQLite below its statements, paramiko and the server, \<open>ipaddress\<close>,
  FastAPI's routing, validation and rendering, uvicorn, argparse. Connecting ends in one of the
  exceptions that paramiko documents. Of pydantic only what the annotations of \<^verbatim>\<open>models.py\<close> decide is
  modelled: stored values are read back as \<open>model_dump\<close> wrote them, without coercions, and a time is
  read in the form of \<open>isoformat\<close> only. The thread of the SFTP watchdog is the expiry it causes. Requests run one after another, as do the starts of processes;
  what happens between the calls of a request is the schedule of its world. The scripts, the tests and
  the published OpenAPI document are left aside.
\<close>

end
